(* ===== verification/Prelude.thy ===== *)
theory Prelude
  imports Main "HOL-Library.Word"
begin

text \<open>
  Shared vocabulary of the development: the machine types of the Rust sources, the
  outcome of a Rust call (a value, an error, a panic or a loop that never returns),
  state-passing composition, checked arithmetic on \<open>u64\<close>/\<open>usize\<close> values, slices of
  byte vectors, and singly linked lists threaded through memory.
\<close>

unbundle bit_operations_syntax

named_theorems arith_defs \<open>definitions of the checked arithmetic operations\<close>
named_theorems run_simps \<open>evaluation of composed state-passing programs\<close>

section \<open>Machine types\<close>

type_synonym u8 = "8 word"
type_synonym u32 = "32 word"
type_synonym u64 = "64 word"
type_synonym bytes = "u8 list"

abbreviation u64_limit :: nat where
  "u64_limit \<equiv> 18446744073709551616"

abbreviation u32_limit :: nat where
  "u32_limit \<equiv> 4294967296"

section \<open>Outcomes of Rust calls\<close>

text \<open>
  \<open>Ok\<close> and \<open>Err\<close> are the two cases of Rust's \<open>Result\<close>. \<open>Panic\<close> is an assertion, an
  \<open>expect\<close>, an index out of bounds or an arithmetic overflow (the kernel is built with
  the \<open>dev\<close> profile, which checks overflow). \<open>Hang\<close> is a loop that never returns.
\<close>

datatype ('e, 'a) res = Ok 'a | Err 'e | Panic | Hang

type_synonym ('s, 'e, 'a) prog = "'s \<Rightarrow> ('e, 'a) res \<times> 's"

text \<open>Chaining results of functions that have no state.\<close>

definition bind_res :: "('e, 'a) res \<Rightarrow> ('a \<Rightarrow> ('e, 'b) res) \<Rightarrow> ('e, 'b) res" where
  "bind_res r f = (case r of Ok x \<Rightarrow> f x | Err e \<Rightarrow> Err e | Panic \<Rightarrow> Panic | Hang \<Rightarrow> Hang)"

lemma bind_res_simps [simp]:
  "bind_res (Ok x) f = f x" "bind_res (Err e) f = Err e" "bind_res Panic f = Panic" "bind_res Hang f = Hang"
  by (simp_all add: bind_res_def)

text \<open>Rust's \<open>?\<close>: continue with the value, or leave with the failure. The state reached
  so far is kept in both cases, as mutations made before an error return are.\<close>

definition bindR :: "('s, 'e, 'a) prog \<Rightarrow> ('a \<Rightarrow> ('s, 'e, 'b) prog) \<Rightarrow> ('s, 'e, 'b) prog" where
  "bindR m f = (\<lambda>s. case m s of
      (Ok x, s') \<Rightarrow> f x s'
    | (Err e, s') \<Rightarrow> (Err e, s')
    | (Panic, s') \<Rightarrow> (Panic, s')
    | (Hang, s') \<Rightarrow> (Hang, s'))"

definition returnR :: "'a \<Rightarrow> ('s, 'e, 'a) prog" where
  "returnR x = (\<lambda>s. (Ok x, s))"

definition throwR :: "'e \<Rightarrow> ('s, 'e, 'a) prog" where
  "throwR e = (\<lambda>s. (Err e, s))"

definition panicR :: "('s, 'e, 'a) prog" where
  "panicR = (\<lambda>s. (Panic, s))"

definition getsR :: "('s \<Rightarrow> 'a) \<Rightarrow> ('s, 'e, 'a) prog" where
  "getsR f = (\<lambda>s. (Ok (f s), s))"

definition modifyR :: "('s \<Rightarrow> 's) \<Rightarrow> ('s, 'e, unit) prog" where
  "modifyR f = (\<lambda>s. (Ok (), f s))"

text \<open>The value of a pure fallible computation, inside a program.\<close>

definition liftR :: "('e, 'a) res \<Rightarrow> ('s, 'e, 'a) prog" where
  "liftR r = (\<lambda>s. (r, s))"

lemma returnR_apply [run_simps, simp]: "returnR x s = (Ok x, s)"
  by (simp add: returnR_def)

lemma throwR_apply [run_simps, simp]: "throwR e s = (Err e, s)"
  by (simp add: throwR_def)

lemma panicR_apply [run_simps, simp]: "panicR s = (Panic, s)"
  by (simp add: panicR_def)

lemma getsR_apply [run_simps, simp]: "getsR f s = (Ok (f s), s)"
  by (simp add: getsR_def)

lemma modifyR_apply [run_simps, simp]: "modifyR f s = (Ok (), f s)"
  by (simp add: modifyR_def)

lemma liftR_apply [run_simps, simp]: "liftR r s = (r, s)"
  by (simp add: liftR_def)

lemma bindR_Ok_apply [run_simps]: "m s = (Ok x, s') \<Longrightarrow> bindR m f s = f x s'"
  by (simp add: bindR_def)

lemma bindR_Err_apply [run_simps]: "m s = (Err e, s') \<Longrightarrow> bindR m f s = (Err e, s')"
  by (simp add: bindR_def)

lemma bindR_Panic_apply [run_simps]: "m s = (Panic, s') \<Longrightarrow> bindR m f s = (Panic, s')"
  by (simp add: bindR_def)

lemma bindR_returnR [simp]: "bindR (returnR x) f = f x"
  by (rule ext) (simp add: bindR_def)

lemma bindR_eq_Ok:
  "bindR m f s = (Ok y, t) \<longleftrightarrow> (\<exists>x s'. m s = (Ok x, s') \<and> f x s' = (Ok y, t))"
  by (auto simp: bindR_def split: prod.splits res.splits)

lemma bindR_OkE [elim]:
  assumes "bindR m f s = (Ok y, t)"
  obtains x s' where "m s = (Ok x, s')" and "f x s' = (Ok y, t)"
  using assms by (auto simp: bindR_eq_Ok)

lemma bindR_cong:
  assumes "m s = m' s" and "\<And>a t. m' s = (Ok a, t) \<Longrightarrow> f a t = f' a t"
  shows "bindR m f s = bindR m' f' s"
  using assms by (auto simp: bindR_def split: prod.splits res.splits)

lemma bindR_assoc: "bindR (bindR m f) g = bindR m (\<lambda>x. bindR (f x) g)"
  by (rule ext) (auto simp: bindR_def split: prod.splits res.splits)

section \<open>Checked and saturating arithmetic\<close>

text \<open>Values of type \<open>u64\<close> and \<open>usize\<close> that are only added, subtracted and compared are
  natural numbers, with the overflow written out.\<close>

definition checked_add :: "nat \<Rightarrow> nat \<Rightarrow> nat option" where
  [arith_defs]: "checked_add a b = (if a + b < u64_limit then Some (a + b) else None)"

definition checked_sub :: "nat \<Rightarrow> nat \<Rightarrow> nat option" where
  [arith_defs]: "checked_sub a b = (if b \<le> a then Some (a - b) else None)"

definition checked_mul :: "nat \<Rightarrow> nat \<Rightarrow> nat option" where
  [arith_defs]: "checked_mul a b = (if a * b < u64_limit then Some (a * b) else None)"

definition saturating_add :: "nat \<Rightarrow> nat \<Rightarrow> nat" where
  [arith_defs]: "saturating_add a b = min (a + b) (u64_limit - 1)"

text \<open>Bitwise complement of a 64-bit and of a 32-bit value.\<close>

definition not64 :: "nat \<Rightarrow> nat" where
  "not64 m = u64_limit - 1 - m"

definition not32 :: "nat \<Rightarrow> nat" where
  "not32 m = u32_limit - 1 - m"

lemma checked_add_Some_iff: "checked_add a b = Some c \<longleftrightarrow> c = a + b \<and> a + b < u64_limit"
  by (auto simp: checked_add_def)

lemma checked_sub_Some_iff: "checked_sub a b = Some c \<longleftrightarrow> b \<le> a \<and> c = a - b"
  by (auto simp: checked_sub_def)

text \<open>Clearing the low \<open>k\<close> bits of a 64-bit value rounds it down to a multiple of
  \<open>2 ^ k\<close>; this is what \<open>value & !(alignment - 1)\<close> computes.\<close>

lemma not64_mask: "k \<le> 64 \<Longrightarrow> not64 (2 ^ k - 1) = push_bit k (mask (64 - k))"
proof -
  assume k: "k \<le> 64"
  then have "(2::nat) ^ k * 2 ^ (64 - k) = u64_limit"
    by (simp flip: power_add)
  then show ?thesis
    by (simp add: not64_def push_bit_eq_mult mask_eq_exp_minus_1 algebra_simps diff_mult_distrib2)
qed

lemma and_not64_mask:
  assumes "k \<le> 64" and "v < u64_limit"
  shows "v AND not64 (2 ^ k - 1) = v div 2 ^ k * 2 ^ k"
proof -
  have "(v::nat) = take_bit 64 v"
    using assms(2) by (simp add: take_bit_nat_eq_self)
  then have hi: "bit v i \<Longrightarrow> i < 64" for i
    by (metis bit_take_bit_iff)
  have "v AND push_bit k (mask (64 - k)) = push_bit k (drop_bit k v)"
    by (rule bit_eqI) (use assms(1) hi in \<open>auto simp: bit_simps intro: diff_less_mono\<close>)
  then show ?thesis
    by (simp only: not64_mask [OF assms(1)] push_bit_eq_mult drop_bit_eq_div)
qed

section \<open>Slices of byte vectors\<close>

text \<open>\<open>subslice o n b\<close> is Rust's \<open>&b[o..o+n]\<close> where that range is in bounds.\<close>

definition subslice :: "nat \<Rightarrow> nat \<Rightarrow> 'a list \<Rightarrow> 'a list" where
  "subslice off n b = take n (drop off b)"

text \<open>\<open>copy_from_slice\<close> into \<open>b[off..off + length v]\<close>.\<close>

definition blit :: "nat \<Rightarrow> 'a list \<Rightarrow> 'a list \<Rightarrow> 'a list" where
  "blit off v b = take off b @ v @ drop (off + length v) b"

lemma length_slice [simp]: "off + n \<le> length b \<Longrightarrow> length (subslice off n b) = n"
  by (simp add: subslice_def)

lemma length_blit [simp]: "off + length v \<le> length b \<Longrightarrow> length (blit off v b) = length b"
  by (simp add: blit_def)

lemma slice_blit_same [simp]:
  "off + length v \<le> length b \<Longrightarrow> subslice off (length v) (blit off v b) = v"
  by (simp add: subslice_def blit_def)

lemma nth_blit:
  assumes "off + length v \<le> length b" and "i < length b"
  shows "blit off v b ! i = (if off \<le> i \<and> i < off + length v then v ! (i - off) else b ! i)"
  using assms by (auto simp: blit_def nth_append min_def)

lemma nth_slice: "off + n \<le> length b \<Longrightarrow> i < n \<Longrightarrow> subslice off n b ! i = b ! (off + i)"
  by (simp add: subslice_def)

lemma slice_blit_other:
  assumes "off + length v \<le> length b" and "p + n \<le> length b"
    and "p + n \<le> off \<or> off + length v \<le> p"
  shows "subslice p n (blit off v b) = subslice p n b"
  by (rule nth_equalityI) (use assms in \<open>auto simp: nth_slice nth_blit\<close>)

lemma blit_blit:
  "length v = length w \<Longrightarrow> off + length v \<le> length b \<Longrightarrow> blit off v (blit off w b) = blit off v b"
  by (rule nth_equalityI) (auto simp: nth_blit)

lemma blit_slice_id [simp]: "off + n \<le> length b \<Longrightarrow> blit off (subslice off n b) b = b"
  by (rule nth_equalityI) (auto simp: nth_blit nth_slice)

section \<open>Little-endian integers\<close>

primrec le_nat :: "bytes \<Rightarrow> nat" where
  "le_nat [] = 0"
| "le_nat (b # bs) = unat b + 256 * le_nat bs"

primrec le_bytes :: "nat \<Rightarrow> nat \<Rightarrow> bytes" where
  "le_bytes 0 v = []"
| "le_bytes (Suc n) v = of_nat v # le_bytes n (v div 256)"

lemma length_le_bytes [simp]: "length (le_bytes n v) = n"
  by (induction n arbitrary: v) auto

lemma unat_of_nat8: "unat (of_nat v :: u8) = v mod 256"
  by (simp add: unat_of_nat)

lemma unat8_less: "unat (b :: u8) < 256"
  by (rule less_le_trans [OF unsigned_less]) simp

lemma le_nat_less: "le_nat bs < 256 ^ length bs"
proof (induction bs)
  case Nil
  then show ?case by simp
next
  case (Cons b bs)
  have "unat b < 256"
    by (rule unat8_less)
  with Cons show ?case by simp
qed

lemma le_nat_le_bytes [simp]: "le_nat (le_bytes n v) = v mod 256 ^ n"
proof (induction n arbitrary: v)
  case 0
  then show ?case by simp
next
  case (Suc n)
  have "v mod (256 * 256 ^ n) = v mod 256 + 256 * (v div 256 mod 256 ^ n)"
    by (simp add: mod_mult2_eq algebra_simps)
  with Suc show ?case by (simp add: unat_of_nat8)
qed

lemma le_bytes_le_nat [simp]: "le_bytes (length bs) (le_nat bs) = bs"
proof (induction bs)
  case Nil
  then show ?case by simp
next
  case (Cons b bs)
  have lt: "unat b < 256"
    by (rule unat8_less)
  have "unat (of_nat (unat b + 256 * le_nat bs) :: u8) = unat b"
    unfolding unat_of_nat8 using lt by simp
  then have "(of_nat (unat b + 256 * le_nat bs) :: u8) = b"
    by (simp only: word_unat_eq_iff)
  moreover have "(unat b + 256 * le_nat bs) div 256 = le_nat bs"
    using lt by simp
  ultimately show ?case
    using Cons by simp
qed

section \<open>Linked lists threaded through memory\<close>

text \<open>
  \<open>chain nx e h xs\<close>: starting from the head pointer \<open>h\<close> and following the links \<open>nx\<close>, the
  list visits exactly \<open>xs\<close> and ends at the terminator \<open>e\<close>. Both free lists of the kernel
  have this shape: the heap's blocks (terminated by the null pointer) and the physical
  frames (terminated by \<open>FREE_LIST_END\<close>).
\<close>

primrec chain :: "('a \<Rightarrow> 'a) \<Rightarrow> 'a \<Rightarrow> 'a \<Rightarrow> 'a list \<Rightarrow> bool" where
  "chain nx e h [] = (h = e)"
| "chain nx e h (x # xs) = (h = x \<and> x \<noteq> e \<and> chain nx e (nx x) xs)"

lemma chain_end [simp]: "chain nx e e xs \<longleftrightarrow> xs = []"
  by (cases xs) auto

lemma chain_upd [simp]: "a \<notin> set xs \<Longrightarrow> chain (nx(a := v)) e h xs = chain nx e h xs"
  by (induction xs arbitrary: h) auto

lemma chain_cong: "(\<And>a. a \<in> set xs \<Longrightarrow> nx a = ny a) \<Longrightarrow> chain nx e h xs = chain ny e h xs"
  by (induction xs arbitrary: h) auto

lemma chain_unique: "chain nx e h xs \<Longrightarrow> chain nx e h ys \<Longrightarrow> xs = ys"
proof (induction xs arbitrary: h ys)
  case Nil
  then show ?case by simp
next
  case (Cons x xs)
  then show ?case by (cases ys) auto
qed

lemma chain_suffix: "chain nx e h (xs @ ys) \<Longrightarrow> \<exists>h'. chain nx e h' ys"
  by (induction xs arbitrary: h) auto

lemma chain_tail_notin: "chain nx e (nx x) xs \<Longrightarrow> x \<noteq> e \<Longrightarrow> x \<notin> set xs"
proof
  assume ch: "chain nx e (nx x) xs" and ne: "x \<noteq> e" and "x \<in> set xs"
  then obtain ys zs where xs: "xs = ys @ x # zs"
    by (auto simp: in_set_conv_decomp)
  with ch obtain h' where "chain nx e h' (x # zs)"
    using chain_suffix by metis
  then have "chain nx e (nx x) zs" by simp
  with ch have "xs = zs" by (rule chain_unique)
  with xs show False by simp
qed

lemma chain_distinct: "chain nx e h xs \<Longrightarrow> distinct xs"
  by (induction xs arbitrary: h) (auto dest: chain_tail_notin)

lemma chain_notin_end: "chain nx e h xs \<Longrightarrow> e \<notin> set xs"
  by (induction xs arbitrary: h) auto

text \<open>Unlinking a node in the middle of a chain.\<close>

lemma chain_unlink:
  assumes "chain nx e h (xs @ p # x # ys)"
  shows "chain (nx(p := nx x)) e h (xs @ p # ys)"
  using assms
proof (induction xs arbitrary: h)
  case Nil
  then have "p \<notin> set (x # ys)"
    using chain_distinct [of nx e h "p # x # ys"] by simp
  with Nil show ?case by (simp del: fun_upd_apply) simp
next
  case (Cons a xs)
  then have "a \<noteq> p"
    using chain_distinct [of nx e h "(a # xs) @ p # x # ys"] by simp
  with Cons show ?case by simp
qed

section \<open>UTF-8\<close>

text \<open>\<open>core::str::from_utf8\<close>: well-formed UTF-8, without overlong forms and surrogates.\<close>

definition utf8_cont :: "u8 \<Rightarrow> bool" where
  "utf8_cont b \<longleftrightarrow> 0x80 \<le> b \<and> b \<le> 0xBF"

fun utf8_valid :: "bytes \<Rightarrow> bool" where
  "utf8_valid [] = True"
| "utf8_valid (a # r) =
     (if a < 0x80 then utf8_valid r
      else case r of [] \<Rightarrow> False | b # r2 \<Rightarrow>
        if 0xC2 \<le> a \<and> a \<le> 0xDF then utf8_cont b \<and> utf8_valid r2
        else case r2 of [] \<Rightarrow> False | c # r3 \<Rightarrow>
          if 0xE0 \<le> a \<and> a \<le> 0xEF then
            utf8_cont b \<and> (a = 0xE0 \<longrightarrow> 0xA0 \<le> b) \<and> (a = 0xED \<longrightarrow> b \<le> 0x9F)
            \<and> utf8_cont c \<and> utf8_valid r3
          else case r3 of [] \<Rightarrow> False | d # r4 \<Rightarrow>
            0xF0 \<le> a \<and> a \<le> 0xF4 \<and> utf8_cont b \<and> (a = 0xF0 \<longrightarrow> 0x90 \<le> b) \<and> (a = 0xF4 \<longrightarrow> b \<le> 0x8F)
            \<and> utf8_cont c \<and> utf8_cont d \<and> utf8_valid r4)"

text \<open>\<open>String::from_utf8_lossy\<close>: \<open>utf8_len\<close> is the length of the character at the front; where there is
  none, the longest front part of one (at least one byte) becomes U+FFFD.\<close>

definition second_ok :: "u8 \<Rightarrow> u8 \<Rightarrow> bool" where
  "second_ok a b \<longleftrightarrow> utf8_cont b \<and> (a = 0xE0 \<longrightarrow> 0xA0 \<le> b) \<and> (a = 0xED \<longrightarrow> b \<le> 0x9F)
     \<and> (a = 0xF0 \<longrightarrow> 0x90 \<le> b) \<and> (a = 0xF4 \<longrightarrow> b \<le> 0x8F)"

definition utf8_len :: "bytes \<Rightarrow> nat \<times> bool" where
  "utf8_len bs =
     (let a = (if bs = [] then 0 else hd bs); at = (\<lambda>i. if i < length bs then bs ! i else 0) in
      if a < 0x80 then (1, True)
      else if 0xC2 \<le> a \<and> a \<le> 0xDF then (if utf8_cont (at 1) then (2, True) else (1, False))
      else if 0xE0 \<le> a \<and> a \<le> 0xEF then
        (if \<not> second_ok a (at 1) then (1, False) else if \<not> utf8_cont (at 2) then (2, False) else (3, True))
      else if 0xF0 \<le> a \<and> a \<le> 0xF4 then
        (if \<not> second_ok a (at 1) then (1, False) else if \<not> utf8_cont (at 2) then (2, False)
         else if \<not> utf8_cont (at 3) then (3, False) else (4, True))
      else (1, False))"

lemma utf8_len_pos: "0 < fst (utf8_len bs)"
  by (simp add: utf8_len_def Let_def)

function utf8_lossy :: "bytes \<Rightarrow> bytes" where
  "utf8_lossy bs =
     (if bs = [] then []
      else case utf8_len bs of (n, ok) \<Rightarrow> (if ok then take n bs else [0xEF, 0xBF, 0xBD]) @ utf8_lossy (drop n bs))"
  by pat_completeness auto
termination
proof (relation "measure length", goal_cases)
  case (2 bs n ok)
  then have "0 < n" "0 < length bs" using utf8_len_pos [of bs] by (metis fst_conv, simp)
  then show ?case by simp
qed simp

declare utf8_lossy.simps [simp del]

section \<open>Paths of functional relations\<close>

text \<open>A functional relation on a finite set: a path longer than the set has a cycle and goes on
  forever.\<close>

lemma functional_relpowp:
  fixes R :: "'a \<Rightarrow> 'a \<Rightarrow> bool"
  assumes fn: "\<And>x y z. R x y \<Longrightarrow> R x z \<Longrightarrow> y = z"
  shows "(R ^^ n) x y \<Longrightarrow> (R ^^ n) x z \<Longrightarrow> y = z"
proof (induction n arbitrary: y z)
  case (Suc n)
  from Suc.prems obtain y' z' where "(R ^^ n) x y'" "R y' y" "(R ^^ n) x z'" "R z' z"
    by (auto elim!: relpowp_Suc_E)
  with Suc.IH [of y' z'] show ?case
    using fn by blast
qed simp

lemma relpowp_split: "i \<le> n \<Longrightarrow> (R ^^ n) x y \<Longrightarrow> \<exists>z. (R ^^ i) x z \<and> (R ^^ (n - i)) z y"
  using relpowp_add [of i "n - i" R] by (auto simp: relcompp.simps)

lemma relpowp_join: "(R ^^ m) x y \<Longrightarrow> (R ^^ n) y z \<Longrightarrow> (R ^^ (m + n)) x z"
  by (auto simp: relpowp_add)

lemma functional_path_endless:
  fixes R :: "'a \<Rightarrow> 'a \<Rightarrow> bool"
  assumes fin: "finite A" and dom: "\<And>x y. R x y \<Longrightarrow> x \<in> A"
    and fn: "\<And>x y z. R x y \<Longrightarrow> R x z \<Longrightarrow> y = z"
    and path: "(R ^^ n) x y" "card A < n"
  shows "\<exists>z. (R ^^ k) x z"
proof -
  have defined: "\<exists>z \<in> A. (R ^^ i) x z" if i: "i < n" for i
  proof -
    obtain z where z: "(R ^^ i) x z" "(R ^^ (n - i)) z y"
      using relpowp_split [of i n R x y] i path(1) by auto
    obtain m where "n - i = Suc m" using i by (metis Suc_diff_Suc)
    with z(2) obtain w where "R z w" by (metis relpowp_Suc_E2)
    then show ?thesis using z(1) dom by blast
  qed
  then obtain f where f: "\<And>i. i < n \<Longrightarrow> f i \<in> A \<and> (R ^^ i) x (f i)"
    by metis
  have "\<not> inj_on f {..<n}"
    using card_inj_on_le [of f "{..<n}" A] fin f path(2) by auto
  then obtain i j where ij: "i < j" "j < n" "f i = f j"
    by (auto simp: inj_on_def) (metis linorder_neqE_nat)
  obtain z where z: "(R ^^ i) x z" "(R ^^ (j - i)) z (f j)"
    using relpowp_split [of i j R x "f j"] f ij by auto
  moreover have "z = f i"
    by (rule functional_relpowp [OF fn z(1)]) (use f [of i] ij(1,2) in auto)
  ultimately have cycle: "(R ^^ (j - i)) (f i) (f i)"
    using ij by simp
  have loop: "(R ^^ (m * (j - i))) (f i) (f i)" for m
    by (induction m) (use cycle in \<open>auto dest: relpowp_join\<close>)
  have "(R ^^ (i + k * (j - i))) x (f i)"
    by (rule relpowp_join [OF _ loop]) (use f [of i] ij(1,2) in auto)
  moreover have "k \<le> i + k * (j - i)"
    using ij(1) by (cases "j - i") auto
  ultimately show ?thesis
    using relpowp_split by metis
qed

end
