(* ===== verification/Text.thy ===== *)
theory Text
  imports Prelude
begin

text \<open>
  The text operations of the standard library that the kernel's commands and drivers use: the bytes
  of string literals, white space, numbers in a radix with \<open>from_str_radix\<close> and the formats of
  \<open>println!\<close>. Strings are their UTF-8 bytes.
\<close>

section \<open>Literals\<close>

definition str :: "string \<Rightarrow> bytes" where
  "str s = map (\<lambda>c. of_nat (of_char c)) s"

lemma str_Nil [simp]: "str [] = []"
  by (simp add: str_def)

lemma str_append [simp]: "str (s @ t) = str s @ str t"
  by (simp add: str_def)

lemma length_str [simp]: "length (str s) = length s"
  by (simp add: str_def)

lemma str_inject [simp]: "str s = str t \<longleftrightarrow> s = t"
proof -
  have byte: "unat (of_nat (of_char c) :: u8) = of_char c" for c :: char
  proof -
    have "(of_char c :: nat) < 256" using nat_of_char_less_256 by simp
    then show ?thesis by (simp add: unat_of_nat take_bit_eq_mod)
  qed
  have "inj (\<lambda>c :: char. of_nat (of_char c) :: u8)"
    by (rule injI) (metis byte of_char_eq_iff)
  then show ?thesis by (simp add: str_def inj_map_eq_map)
qed

section \<open>Characters and white space\<close>

text \<open>The characters of a valid string, each as its bytes.\<close>

function utf8_chars :: "bytes \<Rightarrow> bytes list" where
  "utf8_chars bs =
     (if bs = [] then [] else take (fst (utf8_len bs)) bs # utf8_chars (drop (fst (utf8_len bs)) bs))"
  by pat_completeness auto
termination
  by (relation "measure length") (use utf8_len_pos in \<open>auto simp: length_greater_0_conv [symmetric] simp del: length_greater_0_conv\<close>)

declare utf8_chars.simps [simp del]

lemma utf8_chars_Nil [simp]: "utf8_chars [] = []"
  by (simp add: utf8_chars.simps)

lemma concat_utf8_chars [simp]: "concat (utf8_chars bs) = bs"
proof (induction bs rule: utf8_chars.induct)
  case (1 bs)
  then show ?case by (subst utf8_chars.simps) simp
qed

lemma utf8_chars_nonempty: "[] \<notin> set (utf8_chars bs)"
proof (induction bs rule: utf8_chars.induct)
  case (1 bs)
  then show ?case using utf8_len_pos [of bs] by (subst utf8_chars.simps) auto
qed

text \<open>The characters with the property \<^verbatim>\<open>White_Space\<close>.\<close>

definition is_white :: "bytes \<Rightarrow> bool" where
  "is_white ch \<longleftrightarrow>
     ch \<in> set (map (\<lambda>c. [c]) [0x09, 0x0A, 0x0B, 0x0C, 0x0D, 0x20]
       @ [[0xC2, 0x85], [0xC2, 0xA0], [0xE1, 0x9A, 0x80]]
       @ map (\<lambda>c. [0xE2, 0x80, c]) [0x80, 0x81, 0x82, 0x83, 0x84, 0x85, 0x86, 0x87, 0x88, 0x89, 0x8A, 0xA8, 0xA9, 0xAF]
       @ [[0xE2, 0x81, 0x9F], [0xE3, 0x80, 0x80]])"

fun split_on :: "('a \<Rightarrow> bool) \<Rightarrow> 'a list \<Rightarrow> 'a list list" where
  "split_on P [] = [[]]"
| "split_on P (x # xs) =
     (if P x then [] # split_on P xs
      else case split_on P xs of [] \<Rightarrow> [[x]] | w # ws \<Rightarrow> (x # w) # ws)"

definition split_whitespace :: "bytes \<Rightarrow> bytes list" where
  "split_whitespace s = map concat (filter (\<lambda>w. w \<noteq> []) (split_on is_white (utf8_chars s)))"

definition trim :: "bytes \<Rightarrow> bytes" where
  "trim s = concat (rev (dropWhile is_white (rev (dropWhile is_white (utf8_chars s)))))"

lemma split_on_nonempty: "split_on P xs \<noteq> []"
  by (induction xs) (auto split: list.splits)

lemma split_on_none: "w \<in> set (split_on P xs) \<Longrightarrow> x \<in> set w \<Longrightarrow> x \<in> set xs \<and> \<not> P x"
proof (induction xs arbitrary: w)
  case (Cons a xs)
  obtain v vs where "split_on P xs = v # vs" using split_on_nonempty by (metis list.exhaust)
  with Cons.IH [of v] Cons.IH [of w] Cons.prems show ?case by (auto split: if_splits)
qed simp

lemma split_whitespace_nonempty: "w \<in> set (split_whitespace s) \<Longrightarrow> w \<noteq> []"
  using split_on_none [of _ is_white "utf8_chars s"] utf8_chars_nonempty [of s]
  by (fastforce simp: split_whitespace_def neq_Nil_conv)

section \<open>Numbers\<close>

definition digit :: "nat \<Rightarrow> u8" where
  "digit d = of_nat (if d < 10 then 0x30 + d else 0x57 + d)"

definition digit_value :: "nat \<Rightarrow> u8 \<Rightarrow> nat option" where
  "digit_value radix c =
     (let d = (if 0x30 \<le> c \<and> c \<le> 0x39 then unat c - 0x30
               else if 0x41 \<le> c \<and> c \<le> 0x5A then unat c - 0x37
               else if 0x61 \<le> c \<and> c \<le> 0x7A then unat c - 0x57
               else 36)
      in if d < radix then Some d else None)"

function show_radix :: "nat \<Rightarrow> nat \<Rightarrow> bytes" where
  "show_radix radix n =
     (if n < radix \<or> radix < 2 then [digit n] else show_radix radix (n div radix) @ [digit (n mod radix)])"
  by pat_completeness auto
termination
  by (relation "measure snd") auto

declare show_radix.simps [simp del]

abbreviation show_nat :: "nat \<Rightarrow> bytes" where "show_nat \<equiv> show_radix 10"

text \<open>The formats \<^verbatim>\<open>{:#x}\<close> and \<^verbatim>\<open>{:#018x}\<close>, padding, and \<^verbatim>\<open>{}\<close> of a truth value.\<close>

definition show_hex :: "nat \<Rightarrow> bytes" where
  "show_hex n = str ''0x'' @ show_radix 16 n"

definition show_addr :: "nat \<Rightarrow> bytes" where
  "show_addr n = str ''0x'' @ replicate (16 - length (show_radix 16 n)) 0x30 @ show_radix 16 n"

definition pad_right :: "nat \<Rightarrow> bytes \<Rightarrow> bytes" where
  "pad_right w s = s @ replicate (w - length s) 0x20"

definition pad_left :: "nat \<Rightarrow> bytes \<Rightarrow> bytes" where
  "pad_left w s = replicate (w - length s) 0x20 @ s"

definition show_bool :: "bool \<Rightarrow> bytes" where
  "show_bool b = str (if b then ''true'' else ''false'')"

text \<open>\<open>usize::from_str_radix\<close>: an optional plus sign, then digits; \<open>None\<close> for every error.\<close>

fun parse_digits :: "nat \<Rightarrow> nat \<Rightarrow> bytes \<Rightarrow> nat option" where
  "parse_digits radix acc [] = Some acc"
| "parse_digits radix acc (c # cs) =
     (case digit_value radix c of
        None \<Rightarrow> None
      | Some d \<Rightarrow> if acc * radix + d < u64_limit then parse_digits radix (acc * radix + d) cs else None)"

definition from_str_radix :: "nat \<Rightarrow> bytes \<Rightarrow> nat option" where
  "from_str_radix radix s =
     (let ds = (if length s > 1 \<and> hd s = 0x2B then tl s else s) in
      if ds = [] \<or> ds = [0x2B] then None else parse_digits radix 0 ds)"

abbreviation parse_usize :: "bytes \<Rightarrow> nat option" where "parse_usize \<equiv> from_str_radix 10"

subsection \<open>Reading back what was printed\<close>

lemma unat_digit: "d < 36 \<Longrightarrow> unat (digit d) = (if d < 10 then 0x30 + d else 0x57 + d)"
  by (auto simp: digit_def unat_of_nat take_bit_eq_mod)

lemma digit_value_digit [simp]: "d < radix \<Longrightarrow> radix \<le> 36 \<Longrightarrow> digit_value radix (digit d) = Some d"
  by (auto simp: digit_value_def word_le_nat_alt unat_digit)

lemma digit_not_plus: "d < 36 \<Longrightarrow> digit d \<noteq> 0x2B"
  using unat_digit [of d] by (auto split: if_splits)

lemma parse_digits_append:
  "parse_digits radix acc (xs @ ys) = Option.bind (parse_digits radix acc xs) (\<lambda>a. parse_digits radix a ys)"
  by (induction xs arbitrary: acc) (auto split: option.split)

lemma parse_show:
  assumes "2 \<le> radix" and "radix \<le> 36" and "n < u64_limit"
  shows "parse_digits radix 0 (show_radix radix n) = Some n"
  using assms
proof (induction radix n rule: show_radix.induct)
  case (1 radix n)
  show ?case
  proof (cases "n < radix")
    case True
    then show ?thesis using "1.prems" by (simp add: show_radix.simps)
  next
    case False
    have "n div radix < u64_limit" using "1.prems" by (meson div_le_dividend le_less_trans)
    with 1 False have "parse_digits radix 0 (show_radix radix (n div radix)) = Some (n div radix)" by simp
    then show ?thesis using False "1.prems"
      by (subst show_radix.simps) (simp add: parse_digits_append div_mult_mod_eq)
  qed
qed

lemma show_radix_digits:
  assumes "2 \<le> radix" and "radix \<le> 36" and "c \<in> set (show_radix radix n)"
  shows "\<exists>d<radix. c = digit d"
  using assms
proof (induction radix n rule: show_radix.induct)
  case (1 radix n)
  moreover have "\<exists>d<radix. digit (n mod radix) = digit d"
    using "1.prems"(1) by (intro exI [of _ "n mod radix"]) simp
  ultimately show ?case using show_radix.simps [of radix n] by (cases "n < radix") auto
qed

lemma show_radix_nonempty [simp]: "show_radix radix n \<noteq> []"
  by (subst show_radix.simps) simp

lemma from_str_radix_show:
  assumes "2 \<le> radix" and "radix \<le> 36" and "n < u64_limit"
  shows "from_str_radix radix (show_radix radix n) = Some n"
proof -
  have "hd (show_radix radix n) \<noteq> 0x2B"
    using show_radix_digits [OF assms(1,2) hd_in_set [OF show_radix_nonempty]] digit_not_plus assms(2)
    by (metis order_less_le_trans)
  then show ?thesis using parse_show [OF assms] by (auto simp: from_str_radix_def Let_def)
qed

end
