(* ===== verification/Buddy.thy ===== *)
theory Buddy
  imports Prelude
begin

text \<open>
  The kernel heap's binary buddy allocator (\<^verbatim>\<open>src/kmem/heap/buddy.rs\<close>), with its
  intrusive free lists: the allocator record holds the head pointers, and the links live
  in the memory of the free blocks, here the store \<open>next_of\<close>. Addresses and sizes
  (\<open>usize\<close>) are natural numbers; the null pointer is 0.
\<close>

section \<open>The allocator\<close>

abbreviation MIN_ORDER :: nat where "MIN_ORDER \<equiv> 6"
abbreviation MAX_ORDER :: nat where "MAX_ORDER \<equiv> 30"
abbreviation ORDER_COUNT :: nat where "ORDER_COUNT \<equiv> 25"
abbreviation MAX_ZONES :: nat where "MAX_ZONES \<equiv> 32"

record zone =
  z_base :: nat
  z_order :: nat

record buddy =
  max_order :: nat
  free_lists :: "nat list"
  zones :: "zone option list"
  zone_count :: nat
  initialized :: bool
  next_of :: "nat \<Rightarrow> nat" \<comment> \<open>the word stored at an address of the heap (\<open>FreeListNode.next\<close>)\<close>

text \<open>The layout of a requested allocation (\<open>core::alloc::Layout\<close>).\<close>

record layout =
  l_size :: nat
  l_align :: nat

definition buddy_new :: "(nat \<Rightarrow> nat) \<Rightarrow> buddy" where
  "buddy_new memory = \<lparr>max_order = MIN_ORDER, free_lists = replicate ORDER_COUNT 0,
     zones = replicate MAX_ZONES None, zone_count = 0, initialized = False,
     next_of = memory\<rparr>"

definition block_size :: "nat \<Rightarrow> nat" where
  "block_size order = push_bit order 1"

lemma block_size_eq [simp]: "block_size order = 2 ^ order"
  by (simp add: block_size_def push_bit_eq_mult)

lemma block_size_pos: "0 < block_size order"
  by simp

text \<open>\<open>index_for\<close> subtracts \<open>MIN_ORDER\<close>, and the index is then used on an array of
  \<open>ORDER_COUNT\<close> entries: an order outside the supported range panics.\<close>

definition index_for :: "nat \<Rightarrow> (unit, nat) res" where
  "index_for order = (if order < MIN_ORDER then Panic
     else if order - MIN_ORDER < ORDER_COUNT then Ok (order - MIN_ORDER) else Panic)"

function largest_order_from :: "nat \<Rightarrow> nat \<Rightarrow> nat" where
  "largest_order_from sz order =
     (if order < MAX_ORDER \<and> block_size (order + 1) \<le> sz
      then largest_order_from sz (order + 1) else order)"
  by pat_completeness auto
termination
  by (relation "measure (\<lambda>(sz, order). MAX_ORDER - order)") auto

definition largest_order_for :: "nat \<Rightarrow> nat" where
  "largest_order_for sz = largest_order_from sz MIN_ORDER"

function order_for_size_from :: "nat \<Rightarrow> nat \<Rightarrow> nat option" where
  "order_for_size_from sz order =
     (if block_size order < sz
      then (if order \<ge> MAX_ORDER then None else order_for_size_from sz (order + 1))
      else Some order)"
  by pat_completeness auto
termination
  by (relation "measure (\<lambda>(sz, order). MAX_ORDER - order)") auto

definition order_for_size :: "nat \<Rightarrow> nat option" where
  "order_for_size sz = order_for_size_from (max sz 8) MIN_ORDER"

definition zone_list :: "buddy \<Rightarrow> zone list" where
  "zone_list s = List.map_filter id (take (zone_count s) (zones s))"

definition zone_for :: "nat \<Rightarrow> buddy \<Rightarrow> zone option" where
  "zone_for addr s = List.find
     (\<lambda>z. addr \<ge> z_base z \<and> addr < z_base z + block_size (z_order z)) (zone_list s)"

definition buddy_addr :: "zone \<Rightarrow> nat \<Rightarrow> nat \<Rightarrow> nat option" where
  "buddy_addr z addr order =
     (case checked_sub addr (z_base z) of
        None \<Rightarrow> None
      | Some offset \<Rightarrow>
          if offset \<ge> block_size (z_order z) then None
          else if offset mod block_size order \<noteq> 0 then None
          else if offset XOR block_size order \<ge> block_size (z_order z) then None
          else Some (z_base z + (offset XOR block_size order)))"

definition push_free_block :: "nat \<Rightarrow> nat \<Rightarrow> (buddy, unit, unit) prog" where
  "push_free_block addr order =
     bindR (liftR (index_for order)) (\<lambda>i.
     modifyR (\<lambda>s. s\<lparr>next_of := (next_of s)(addr := free_lists s ! i),
                    free_lists := (free_lists s)[i := addr]\<rparr>))"

definition pop_free_block :: "nat \<Rightarrow> (buddy, unit, nat option) prog" where
  "pop_free_block order =
     bindR (liftR (index_for order)) (\<lambda>i.
     (\<lambda>s. let node = free_lists s ! i in
        if node = 0 then (Ok None, s)
        else (Ok (Some node), s\<lparr>free_lists := (free_lists s)[i := next_of s node]\<rparr>)))"

text \<open>The walk along a free list: \<open>Some (Some prev)\<close> when the target is found behind
  \<open>prev\<close>, \<open>Some None\<close> at the end of the list, \<open>None\<close> when the list is cyclic and the walk
  never ends.\<close>

partial_function (option) walk_free_list ::
  "(nat \<Rightarrow> nat) \<Rightarrow> nat \<Rightarrow> nat \<Rightarrow> nat \<Rightarrow> nat option option" where
  "walk_free_list nx target prev current =
     (if current = 0 then Some None
      else if current = target then Some (Some prev)
      else walk_free_list nx target current (nx current))"

definition remove_free_block :: "nat \<Rightarrow> nat \<Rightarrow> (buddy, unit, bool) prog" where
  "remove_free_block addr order =
     bindR (liftR (index_for order)) (\<lambda>i.
     (\<lambda>s. case walk_free_list (next_of s) addr 0 (free_lists s ! i) of
        None \<Rightarrow> (Hang, s)
      | Some None \<Rightarrow> (Ok False, s)
      | Some (Some prev) \<Rightarrow>
          (Ok True,
           if prev = 0 then s\<lparr>free_lists := (free_lists s)[i := next_of s addr]\<rparr>
           else s\<lparr>next_of := (next_of s)(prev := next_of s addr)\<rparr>)))"

definition contains_free_block :: "nat \<Rightarrow> nat \<Rightarrow> (buddy, unit, bool) prog" where
  "contains_free_block addr order =
     bindR (liftR (index_for order)) (\<lambda>i.
     (\<lambda>s. case walk_free_list (next_of s) addr 0 (free_lists s ! i) of
        None \<Rightarrow> (Hang, s)
      | Some None \<Rightarrow> (Ok False, s)
      | Some (Some prev) \<Rightarrow> (Ok True, s)))"

lemma pop_free_block_max_order:
  "pop_free_block order s = (r, s') \<Longrightarrow> max_order s' = max_order s"
  by (auto simp: pop_free_block_def index_for_def bindR_def Let_def split: if_splits)

function allocate_order :: "nat \<Rightarrow> (buddy, unit, nat option) prog" where
  "allocate_order order s =
     (if order > max_order s then (Ok None, s)
      else case pop_free_block order s of
        (Ok (Some addr), s1) \<Rightarrow> (Ok (Some addr), s1)
      | (Ok None, s1) \<Rightarrow>
          (case allocate_order (order + 1) s1 of
             (Ok (Some addr), s2) \<Rightarrow>
               (case push_free_block (addr + block_size order) order s2 of
                  (Ok _, s3) \<Rightarrow> (Ok (Some addr), s3)
                | (Err e, s3) \<Rightarrow> (Err e, s3)
                | (Panic, s3) \<Rightarrow> (Panic, s3)
                | (Hang, s3) \<Rightarrow> (Hang, s3))
           | (Ok None, s2) \<Rightarrow> (Ok None, s2)
           | (Err e, s2) \<Rightarrow> (Err e, s2)
           | (Panic, s2) \<Rightarrow> (Panic, s2)
           | (Hang, s2) \<Rightarrow> (Hang, s2))
      | (Err e, s1) \<Rightarrow> (Err e, s1)
      | (Panic, s1) \<Rightarrow> (Panic, s1)
      | (Hang, s1) \<Rightarrow> (Hang, s1))"
  by pat_completeness auto
termination
proof (relation "measure (\<lambda>(order, s). max_order s + 1 - order)")
  fix order s x s1 and xa :: "nat option"
  assume "\<not> max_order s < order" and "(x, s1) = pop_free_block order s"
  then have "max_order s1 = max_order s"
    by (metis pop_free_block_max_order)
  with \<open>\<not> max_order s < order\<close>
  show "((order + 1, s1), order, s) \<in> measure (\<lambda>(order, s). max_order s + 1 - order)"
    by simp
qed simp_all

text \<open>\<open>alloc\<close> returns the null pointer when the request cannot be satisfied.\<close>

definition buddy_alloc :: "layout \<Rightarrow> (buddy, unit, nat) prog" where
  "buddy_alloc l = (\<lambda>s.
     if \<not> initialized s then (Ok 0, s)
     else case order_for_size (max (l_size l) (l_align l)) of
       None \<Rightarrow> (Ok 0, s)
     | Some order \<Rightarrow>
         bindR (allocate_order order)
           (\<lambda>r. returnR (case r of Some addr \<Rightarrow> addr | None \<Rightarrow> 0)) s)"

text \<open>The merge loop of \<open>dealloc\<close>; it returns the block to push.\<close>

function merge_loop :: "zone \<Rightarrow> nat \<Rightarrow> nat \<Rightarrow> (buddy, unit, nat \<times> nat) prog" where
  "merge_loop z addr order s =
     (if order < z_order z then
        (case buddy_addr z addr order of
           None \<Rightarrow> (Ok (addr, order), s)
         | Some b \<Rightarrow>
             (case remove_free_block b order s of
                (Ok True, s1) \<Rightarrow> merge_loop z (min addr b) (order + 1) s1
              | (Ok False, s1) \<Rightarrow> (Ok (addr, order), s1)
              | (Err e, s1) \<Rightarrow> (Err e, s1)
              | (Panic, s1) \<Rightarrow> (Panic, s1)
              | (Hang, s1) \<Rightarrow> (Hang, s1)))
      else (Ok (addr, order), s))"
  by pat_completeness auto
termination
  by (relation "measure (\<lambda>(z, addr, order, s). z_order z - order)") auto

definition buddy_dealloc :: "nat \<Rightarrow> layout \<Rightarrow> (buddy, unit, unit) prog" where
  "buddy_dealloc p l = (\<lambda>s.
     if p = 0 \<or> \<not> initialized s then (Ok (), s)
     else case order_for_size (max (l_size l) (l_align l)) of
       None \<Rightarrow> (Ok (), s)
     | Some order \<Rightarrow>
         (case zone_for p s of
            None \<Rightarrow> (Panic, s)
          | Some z \<Rightarrow>
              bindR (merge_loop z p order) (\<lambda>(addr, ord). push_free_block addr ord) s))"

section \<open>Initialization\<close>

function fit_order :: "nat \<Rightarrow> nat \<Rightarrow> nat \<Rightarrow> nat" where
  "fit_order addr remaining order =
     (if order > MIN_ORDER \<and> (block_size order > remaining \<or> addr mod block_size order \<noteq> 0)
      then fit_order addr remaining (order - 1) else order)"
  by pat_completeness auto
termination
  by (relation "measure (\<lambda>(addr, remaining, order). order)") auto

text \<open>The body of the \<open>while remaining >= block_size(MIN_ORDER)\<close> loop of \<open>init\<close>.\<close>

function init_loop :: "nat \<Rightarrow> nat \<Rightarrow> nat \<Rightarrow> (buddy, unit, unit) prog" where
  "init_loop heap_max addr remaining s =
     (if remaining \<ge> block_size MIN_ORDER then
        (let order = fit_order addr remaining (min heap_max (largest_order_for remaining));
             sz = block_size order in
         if sz > remaining \<or> addr mod sz \<noteq> 0 then (Ok (), s)
         else if \<not> zone_count s < MAX_ZONES then (Panic, s)
         else
           (case push_free_block addr order
                   (s\<lparr>zones := (zones s)[zone_count s := Some \<lparr>z_base = addr, z_order = order\<rparr>],
                      zone_count := zone_count s + 1,
                      max_order := max (max_order s) order\<rparr>) of
              (Ok _, s1) \<Rightarrow> init_loop heap_max (addr + sz) (remaining - sz) s1
            | (Err e, s1) \<Rightarrow> (Err e, s1)
            | (Panic, s1) \<Rightarrow> (Panic, s1)
            | (Hang, s1) \<Rightarrow> (Hang, s1)))
      else (Ok (), s))"
  by pat_completeness auto
termination
proof (relation "measure (\<lambda>(heap_max, addr, remaining, s). remaining)")
  fix heap_max addr remaining :: nat and s s1 :: buddy and order sz x and u :: unit
  assume "block_size MIN_ORDER \<le> remaining" and "sz = block_size order"
  moreover have "0 < block_size order" and "0 < block_size MIN_ORDER"
    by (rule block_size_pos)+
  ultimately show "((heap_max, addr + sz, remaining - sz, s1), heap_max, addr, remaining, s)
      \<in> measure (\<lambda>(heap_max, addr, remaining, s). remaining)"
    by simp
qed simp

definition buddy_init :: "nat \<Rightarrow> nat \<Rightarrow> (buddy, unit, unit) prog" where
  "buddy_init heap_start heap_size = (\<lambda>s.
     if heap_start mod block_size MIN_ORDER \<noteq> 0 then (Panic, s)
     else if \<not> heap_size \<ge> block_size MIN_ORDER then (Panic, s)
     else
       bindR (init_loop (min (largest_order_for heap_size) MAX_ORDER) heap_start heap_size)
         (\<lambda>_. modifyR (\<lambda>s. s\<lparr>initialized := True\<rparr>))
         (s\<lparr>free_lists := replicate ORDER_COUNT 0, zones := replicate MAX_ZONES None,
            zone_count := 0, max_order := MIN_ORDER\<rparr>))"

declare largest_order_from.simps [simp del] order_for_size_from.simps [simp del]
  allocate_order.simps [simp del] merge_loop.simps [simp del]
  fit_order.simps [simp del] init_loop.simps [simp del]

text \<open>The kernel's heap (\<^verbatim>\<open>src/kmem/heap.rs\<close>).\<close>

abbreviation HEAP_START :: nat where "HEAP_START \<equiv> 0x444444440000"
abbreviation HEAP_SIZE :: nat where "HEAP_SIZE \<equiv> 1024 * 1024 * 100"

end
