(* ===== verification/Buddy_Geometry.thy ===== *)
theory Buddy_Geometry
  imports Buddy
begin

text \<open>
  The geometry behind the buddy allocator: power-of-two blocks inside zones, the two
  halves of a block, the buddy address, and tilings of the zones by disjoint blocks.
\<close>

section \<open>Blocks and zones\<close>

type_synonym block = "nat \<times> nat" \<comment> \<open>address and order\<close>

definition blk :: "block \<Rightarrow> nat set" where
  "blk b = {fst b ..< fst b + 2 ^ snd b}"

definition zblk :: "zone \<Rightarrow> nat set" where
  "zblk z = blk (z_base z, z_order z)"

definition in_zone :: "zone \<Rightarrow> block \<Rightarrow> bool" where
  "in_zone z b \<longleftrightarrow> z_base z \<le> fst b \<and> fst b < z_base z + 2 ^ z_order z
     \<and> MIN_ORDER \<le> snd b \<and> snd b \<le> z_order z \<and> 2 ^ snd b dvd fst b - z_base z"

lemma mem_blk [simp]: "x \<in> blk (a, k) \<longleftrightarrow> a \<le> x \<and> x < a + 2 ^ k"
  by (simp add: blk_def)

lemma blk_base: "a \<in> blk (a, k)"
  by simp

lemma blk_subset_order:
  assumes "blk (a, k) \<subseteq> blk (d, i)"
  shows "d \<le> a" and "k \<le> i"
proof -
  from assms have "d \<le> a" "a + 2 ^ k \<le> d + 2 ^ i"
    unfolding blk_def by auto
  then have "(2::nat) ^ k \<le> 2 ^ i" by linarith
  then show "d \<le> a" "k \<le> i" using \<open>d \<le> a\<close> by simp_all
qed

lemma in_zoneE:
  assumes "in_zone z (a, k)"
  obtains m where "a = z_base z + m * 2 ^ k" and "m < 2 ^ (z_order z - k)"
    and "MIN_ORDER \<le> k" and "k \<le> z_order z"
proof -
  from assms obtain m where m: "a - z_base z = 2 ^ k * m" and a: "z_base z \<le> a"
    and k: "MIN_ORDER \<le> k" "k \<le> z_order z" and lt: "a < z_base z + 2 ^ z_order z"
    by (auto simp: in_zone_def)
  have "(2::nat) ^ z_order z = 2 ^ k * 2 ^ (z_order z - k)"
    using k by (simp flip: power_add)
  with m a lt have "2 ^ k * m < (2::nat) ^ k * 2 ^ (z_order z - k)"
    by linarith
  then have "m < 2 ^ (z_order z - k)"
    by simp
  with m a k show thesis
    by (intro that) (auto simp: mult.commute)
qed

lemma in_zoneI:
  assumes "a = z_base z + m * 2 ^ k" and "m < 2 ^ (z_order z - k)"
    and "MIN_ORDER \<le> k" and "k \<le> z_order z"
  shows "in_zone z (a, k)"
proof -
  have "(2::nat) ^ z_order z = 2 ^ (z_order z - k) * 2 ^ k"
    using assms(4) by (simp flip: power_add)
  moreover have "m * 2 ^ k < 2 ^ (z_order z - k) * (2::nat) ^ k"
    using assms(2) by simp
  ultimately show ?thesis
    using assms by (simp add: in_zone_def)
qed

lemma in_zone_blk_subset:
  assumes "in_zone z b"
  shows "blk b \<subseteq> zblk z"
proof -
  obtain a k where b: "b = (a, k)" by (cases b)
  with assms obtain m where a: "a = z_base z + m * 2 ^ k" and m: "m < 2 ^ (z_order z - k)"
    and k: "k \<le> z_order z"
    by (auto elim: in_zoneE)
  have "(m + 1) * 2 ^ k \<le> 2 ^ (z_order z - k) * (2::nat) ^ k"
    using m by (intro mult_le_mono1) simp
  also have "\<dots> = 2 ^ z_order z"
    using k by (simp flip: power_add)
  finally have "m * 2 ^ k + 2 ^ k \<le> (2::nat) ^ z_order z"
    by simp
  then show ?thesis
    by (auto simp: b a zblk_def)
qed

text \<open>A zone is itself the largest block in it.\<close>

lemma in_zone_self: "MIN_ORDER \<le> z_order z \<Longrightarrow> in_zone z (z_base z, z_order z)"
  by (simp add: in_zone_def)

section \<open>Halves and buddies\<close>

lemma blk_halves: "blk (a, Suc k) = blk (a, k) \<union> blk (a + 2 ^ k, k)"
  by (auto simp: set_eq_iff)

lemma halves_disjoint: "blk (a, k) \<inter> blk (a + 2 ^ k, k) = {}"
  by auto

lemma in_zone_halves:
  assumes "in_zone z (a, Suc k)" and "MIN_ORDER \<le> k"
  shows "in_zone z (a, k)" and "in_zone z (a + 2 ^ k, k)"
proof -
  from assms(1) obtain m where a: "a = z_base z + m * 2 ^ Suc k"
    and m: "m < 2 ^ (z_order z - Suc k)" and k: "Suc k \<le> z_order z"
    by (auto elim: in_zoneE)
  have e: "(2::nat) ^ (z_order z - k) = 2 * 2 ^ (z_order z - Suc k)"
    using k by (simp flip: power_Suc add: Suc_diff_Suc)
  show "in_zone z (a, k)"
    by (rule in_zoneI [where m = "2 * m"]) (use a m k e assms(2) in auto)
  show "in_zone z (a + 2 ^ k, k)"
    by (rule in_zoneI [where m = "2 * m + 1"]) (use a m k e assms(2) in auto)
qed

lemma xor_one_nat: "(m::nat) XOR 1 = (if even m then m + 1 else m - 1)"
  by (simp add: xor_nat_def nat_eq_iff xor_one_eq)

lemma xor_block_nat: "(m * 2 ^ k) XOR 2 ^ k = (m XOR 1) * (2::nat) ^ k"
proof -
  have "push_bit k m XOR push_bit k 1 = push_bit k (m XOR (1::nat))"
    by simp
  then show ?thesis by (simp add: push_bit_eq_mult)
qed

text \<open>The buddy of a block below its zone's top order: the other half of the enclosing
  block of the next order.\<close>

lemma buddy_addr_spec:
  assumes "in_zone z (a, k)" and "k < z_order z"
  obtains b where "buddy_addr z a k = Some b" and "in_zone z (b, k)" and "b \<noteq> a"
    and "in_zone z (min a b, Suc k)"
    and "blk (min a b, Suc k) = blk (a, k) \<union> blk (b, k)"
    and "buddy_addr z b k = Some a"
proof -
  from assms(1) obtain m where a: "a = z_base z + m * 2 ^ k" and m: "m < 2 ^ (z_order z - k)"
    and k: "MIN_ORDER \<le> k" "k \<le> z_order z"
    by (auto elim: in_zoneE)
  define m' where "m' = m XOR 1"
  define b where "b = z_base z + m' * 2 ^ k"
  have m'_def': "m' = (if even m then m + 1 else m - 1)"
    by (simp add: m'_def xor_one_nat del: One_nat_def)
  have e: "(2::nat) ^ (z_order z - k) = 2 * 2 ^ (z_order z - Suc k)"
    using assms(2) by (simp flip: power_Suc add: Suc_diff_Suc)
  have m': "m' < 2 ^ (z_order z - k)"
    using m e unfolding m'_def' by (auto elim!: evenE simp: mult_less_cancel1)
  have m_back: "m' XOR 1 = m"
    by (simp add: m'_def xor.assoc)
  have lt: "n * 2 ^ k < (2::nat) ^ z_order z" if "n < 2 ^ (z_order z - k)" for n
  proof -
    from that have "n * 2 ^ k < 2 ^ (z_order z - k) * (2::nat) ^ k" by simp
    also have "\<dots> = 2 ^ z_order z" using k by (simp flip: power_add)
    finally show ?thesis .
  qed
  have ba: "buddy_addr z a k = Some b"
    using lt [OF m] lt [OF m']
    by (simp add: buddy_addr_def a b_def checked_sub_def xor_block_nat m'_def del: One_nat_def)
  have bb: "buddy_addr z b k = Some a"
    using lt [OF m] lt [OF m'] m_back
    by (simp add: buddy_addr_def a b_def checked_sub_def xor_block_nat del: One_nat_def)
  have zb: "in_zone z (b, k)"
    using b_def m' k by (rule in_zoneI)
  have ne: "b \<noteq> a"
    by (auto simp: a b_def m'_def' elim: oddE)
  define h where "h = m div 2"
  have mh: "min m m' = 2 * h"
    by (auto simp: h_def m'_def' elim: oddE)
  have "min a b = z_base z + min m m' * 2 ^ k"
    unfolding a b_def by (auto simp: min_def not_le intro: antisym)
  then have min_eq: "min a b = z_base z + h * 2 ^ Suc k"
    by (simp add: mh)
  have zmin: "in_zone z (min a b, Suc k)"
    by (rule in_zoneI [OF min_eq]) (use m e assms(2) k in \<open>auto simp: h_def\<close>)
  have "max m m' = 2 * h + 1"
    by (auto simp: h_def m'_def' elim: oddE)
  moreover have "max a b = z_base z + max m m' * 2 ^ k"
    unfolding a b_def by (auto simp: max_def not_le intro: antisym)
  ultimately have max_eq: "max a b = min a b + 2 ^ k"
    by (simp add: min_eq algebra_simps)
  have "blk (min a b, Suc k) = blk (min a b, k) \<union> blk (max a b, k)"
    by (simp add: blk_halves max_eq)
  also have "\<dots> = blk (a, k) \<union> blk (b, k)"
    by (auto simp: min_def max_def)
  finally have un: "blk (min a b, Suc k) = blk (a, k) \<union> blk (b, k)" .
  show thesis
    using ba zb ne zmin un bb by (rule that)
qed

text \<open>Two blocks of one zone are disjoint or one lies inside the other.\<close>

lemma in_zone_nested:
  assumes "in_zone z (a, k)" and "in_zone z (b, l)" and "k \<le> l"
    and "blk (a, k) \<inter> blk (b, l) \<noteq> {}"
  shows "blk (a, k) \<subseteq> blk (b, l)"
proof -
  from assms(1) obtain m where a: "a = z_base z + m * 2 ^ k"
    by (auto elim: in_zoneE)
  from assms(2) obtain n where b: "b = z_base z + n * 2 ^ l"
    by (auto elim: in_zoneE)
  define c where "c = (2::nat) ^ (l - k)"
  have l: "(2::nat) ^ l = c * 2 ^ k"
    using assms(3) by (simp add: c_def flip: power_add)
  from assms(4) obtain x where "a \<le> x" "x < a + 2 ^ k" "b \<le> x" "x < b + 2 ^ l"
    by auto
  then have "m * 2 ^ k < n * 2 ^ l + 2 ^ l" and "n * 2 ^ l < m * 2 ^ k + (2::nat) ^ k"
    by (auto simp: a b)
  then have "m * 2 ^ k < (n * c + c) * 2 ^ k" and "(n * c) * 2 ^ k < (m + 1) * (2::nat) ^ k"
    by (simp_all add: l algebra_simps)
  then have "m < n * c + c" and "n * c < m + 1"
    by (simp_all only: mult_less_cancel2)
  then have "n * c * 2 ^ k \<le> m * 2 ^ k" and "(m + 1) * 2 ^ k \<le> (n * c + c) * (2::nat) ^ k"
    by (simp_all only: mult_le_mono1 less_Suc_eq_le Suc_leI Suc_eq_plus1 [symmetric])
  then have "b \<le> a" and "a + 2 ^ k \<le> b + 2 ^ l"
    by (simp_all add: a b l add_mult_distrib)
  then show ?thesis
    by auto
qed

section \<open>Tilings\<close>

text \<open>\<open>tiling Z B\<close>: the blocks \<open>B\<close> lie in the zones \<open>Z\<close>, do not overlap, and cover every
  address of every zone.\<close>

definition tiling :: "zone set \<Rightarrow> block set \<Rightarrow> bool" where
  "tiling Z B \<longleftrightarrow> (\<forall>b\<in>B. \<exists>z\<in>Z. in_zone z b)
     \<and> (\<forall>b\<in>B. \<forall>c\<in>B. b \<noteq> c \<longrightarrow> blk b \<inter> blk c = {})
     \<and> (\<forall>z\<in>Z. zblk z \<subseteq> (\<Union>b\<in>B. blk b))"

lemma tilingD_zone: "tiling Z B \<Longrightarrow> b \<in> B \<Longrightarrow> \<exists>z\<in>Z. in_zone z b"
  by (simp add: tiling_def)

lemma tilingD_disjoint: "tiling Z B \<Longrightarrow> b \<in> B \<Longrightarrow> c \<in> B \<Longrightarrow> b \<noteq> c \<Longrightarrow> blk b \<inter> blk c = {}"
  by (simp add: tiling_def)

lemma tilingD_cover: "tiling Z B \<Longrightarrow> z \<in> Z \<Longrightarrow> x \<in> zblk z \<Longrightarrow> \<exists>b\<in>B. x \<in> blk b"
  unfolding tiling_def by blast

lemma tiling_same_addr:
  assumes "tiling Z B" and "(a, k) \<in> B" and "(a, l) \<in> B"
  shows "k = l"
  using tilingD_disjoint [OF assms] blk_base by fastforce

text \<open>Replacing some blocks by others that cover the same addresses.\<close>

lemma tiling_replace:
  assumes "tiling Z B" and "C \<subseteq> B" and "(\<Union>b\<in>C. blk b) = (\<Union>b\<in>D. blk b)"
    and "\<forall>b\<in>D. \<exists>z\<in>Z. in_zone z b"
    and "\<forall>b\<in>D. \<forall>c\<in>D. b \<noteq> c \<longrightarrow> blk b \<inter> blk c = {}"
  shows "tiling Z ((B - C) \<union> D)"
proof -
  have cross: "blk b \<inter> blk c = {}" if "b \<in> B - C" and "c \<in> D" for b c
  proof -
    have "blk b \<inter> (\<Union>d\<in>C. blk d) = {}"
      using tilingD_disjoint [OF assms(1)] that(1) assms(2) by blast
    with assms(3) that(2) show ?thesis by blast
  qed
  have dis: "\<forall>b\<in>(B - C) \<union> D. \<forall>c\<in>(B - C) \<union> D. b \<noteq> c \<longrightarrow> blk b \<inter> blk c = {}"
    using cross assms(5) tilingD_disjoint [OF assms(1)] by blast
  have "(\<Union>b\<in>B. blk b) = (\<Union>b\<in>B - C. blk b) \<union> (\<Union>b\<in>C. blk b)"
    using assms(2) by blast
  then have "(\<Union>b\<in>B. blk b) = (\<Union>b\<in>(B - C) \<union> D. blk b)"
    using assms(3) by simp
  moreover have "\<forall>b\<in>(B - C) \<union> D. \<exists>z\<in>Z. in_zone z b"
    using assms(1,4) by (auto dest: tilingD_zone)
  ultimately show ?thesis
    using dis assms(1) unfolding tiling_def by simp
qed

lemma tiling_split:
  assumes "tiling Z B" and "(a, Suc k) \<in> B" and "MIN_ORDER \<le> k"
  shows "tiling Z (insert (a, k) (insert (a + 2 ^ k, k) (B - {(a, Suc k)})))"
proof -
  obtain z where z: "z \<in> Z" "in_zone z (a, Suc k)"
    using tilingD_zone [OF assms(1,2)] by blast
  have "tiling Z ((B - {(a, Suc k)}) \<union> {(a, k), (a + 2 ^ k, k)})"
    by (rule tiling_replace [OF assms(1)])
       (use assms(2) z in_zone_halves [OF z(2) assms(3)] halves_disjoint [of a k] in
         \<open>auto simp: blk_halves\<close>)
  then show ?thesis by (simp add: insert_commute)
qed

lemma tiling_merge:
  assumes "tiling Z B" and "z \<in> Z" and "in_zone z (a, k)" and "k < z_order z"
    and "buddy_addr z a k = Some b" and "(a, k) \<in> B" and "(b, k) \<in> B"
  shows "tiling Z (insert (min a b, Suc k) (B - {(a, k), (b, k)}))"
proof -
  from buddy_addr_spec [OF assms(3,4)] assms(5)
  have "in_zone z (min a b, Suc k)" and "blk (min a b, Suc k) = blk (a, k) \<union> blk (b, k)"
    by (metis option.inject)+
  then have "tiling Z ((B - {(a, k), (b, k)}) \<union> {(min a b, Suc k)})"
    by (intro tiling_replace [OF assms(1)]) (use assms in auto)
  then show ?thesis by simp
qed

end
