(* ===== verification/Free_Stack.thy ===== *)
theory Free_Stack
  imports Prelude
begin

text \<open>
  The contract of an intrusive free list: a stack of addresses threaded through the
  memory it manages. Both of the kernel's allocators rely on one: the buddy allocator has
  one list per block order, the physical frame allocator has one list of frames.
\<close>

locale free_stack =
  fixes content :: "'s \<Rightarrow> 'a list \<Rightarrow> bool"
    and fresh :: "'s \<Rightarrow> 'a \<Rightarrow> bool"
    and push :: "'a \<Rightarrow> ('s, 'e, unit) prog"
    and pop :: "('s, 'e, 'a option) prog"
  assumes push_content: "content s xs \<Longrightarrow> fresh s a \<Longrightarrow>
      \<exists>s'. push a s = (Ok (), s') \<and> content s' (a # xs)"
    and push_fresh: "content s xs \<Longrightarrow> fresh s a \<Longrightarrow> fresh s b \<Longrightarrow> a \<noteq> b \<Longrightarrow>
      push a s = (Ok (), s') \<Longrightarrow> fresh s' b"
    and pop_empty: "content s [] \<Longrightarrow> pop s = (Ok None, s)"
    and pop_content: "content s (a # xs) \<Longrightarrow> \<exists>s'. pop s = (Ok (Some a), s') \<and> content s' xs"
begin

text \<open>Pushing a list of addresses, one after the other, and popping until empty.\<close>

primrec push_all :: "'a list \<Rightarrow> ('s, 'e, unit) prog" where
  "push_all [] = returnR ()"
| "push_all (a # as) = bindR (push a) (\<lambda>_. push_all as)"

primrec pop_n :: "nat \<Rightarrow> ('s, 'e, 'a option list) prog" where
  "pop_n 0 = returnR []"
| "pop_n (Suc n) = bindR pop (\<lambda>x. bindR (pop_n n) (\<lambda>xs. returnR (x # xs)))"

lemma push_all_content:
  assumes "content s xs" and "\<forall>a\<in>set as. fresh s a" and "distinct as"
  shows "\<exists>s'. push_all as s = (Ok (), s') \<and> content s' (rev as @ xs)"
  using assms
proof (induction as arbitrary: s xs)
  case Nil
  then show ?case by simp
next
  case (Cons a as)
  then obtain s1 where s1: "push a s = (Ok (), s1)" "content s1 (a # xs)"
    using push_content [OF Cons.prems(1), of a] by auto
  have "\<forall>b\<in>set as. fresh s1 b"
    using Cons.prems push_fresh [OF Cons.prems(1) _ _ _ s1(1)] by auto
  with Cons.IH [OF s1(2)] Cons.prems(3)
  obtain s2 where "push_all as s1 = (Ok (), s2)" "content s2 (rev as @ a # xs)"
    by auto
  with s1(1) show ?case
    by (auto simp: bindR_def)
qed

lemma pop_n_content:
  assumes "content s (ys @ xs)"
  shows "\<exists>s'. pop_n (length ys) s = (Ok (map Some ys), s') \<and> content s' xs"
  using assms
proof (induction ys arbitrary: s)
  case Nil
  then show ?case by simp
next
  case (Cons y ys)
  then obtain s1 where s1: "pop s = (Ok (Some y), s1)" "content s1 (ys @ xs)"
    using pop_content by fastforce
  with Cons.IH [OF s1(2)] show ?case
    by (auto simp: bindR_def)
qed

text \<open>Last in, first out: what was pushed comes back in reverse order, and the list is as
  before.\<close>

lemma lifo:
  assumes "content s xs" and "\<forall>a\<in>set as. fresh s a" and "distinct as"
  shows "\<exists>s'. bindR (push_all as) (\<lambda>_. pop_n (length as)) s = (Ok (map Some (rev as)), s')
      \<and> content s' xs"
proof -
  obtain s1 where s1: "push_all as s = (Ok (), s1)" "content s1 (rev as @ xs)"
    using push_all_content [OF assms] by blast
  then obtain s2 where "pop_n (length as) s1 = (Ok (map Some (rev as)), s2)" "content s2 xs"
    using pop_n_content [OF s1(2)] by auto
  with s1(1) show ?thesis
    by (auto simp: bindR_def)
qed

lemma push_pop:
  assumes "content s xs" and "fresh s a"
  shows "\<exists>s'. bindR (push a) (\<lambda>_. pop) s = (Ok (Some a), s') \<and> content s' xs"
proof -
  obtain s1 where "push a s = (Ok (), s1)" "content s1 (a # xs)"
    using push_content [OF assms] by blast
  with pop_content show ?thesis
    by (fastforce simp: bindR_def)
qed

end

end
