(* ===== verification/Buddy_Lists.thy ===== *)
theory Buddy_Lists
  imports Buddy Free_Stack
begin

text \<open>
  The intrusive free lists of the buddy allocator: each head pointer starts a chain
  through the memory of the free blocks. \<open>lists_ok s F\<close> relates the pointer
  representation to one address list \<open>F k\<close> per order; the operations on the pointers
  implement the list operations.
\<close>

definition valid_order :: "nat \<Rightarrow> bool" where
  "valid_order k \<longleftrightarrow> MIN_ORDER \<le> k \<and> k \<le> MAX_ORDER"

definition lists_ok :: "buddy \<Rightarrow> (nat \<Rightarrow> nat list) \<Rightarrow> bool" where
  "lists_ok s F \<longleftrightarrow> length (free_lists s) = ORDER_COUNT
     \<and> (\<forall>k. valid_order k \<longrightarrow> chain (next_of s) 0 (free_lists s ! (k - MIN_ORDER)) (F k))
     \<and> (\<forall>k l. valid_order k \<longrightarrow> valid_order l \<longrightarrow> k \<noteq> l \<longrightarrow> set (F k) \<inter> set (F l) = {})"

text \<open>The part of the allocator that the list operations do not touch.\<close>

definition same_meta :: "buddy \<Rightarrow> buddy \<Rightarrow> bool" where
  "same_meta s t \<longleftrightarrow> max_order t = max_order s \<and> zones t = zones s
     \<and> zone_count t = zone_count s \<and> initialized t = initialized s"

lemma same_meta_refl [simp]: "same_meta s s"
  by (simp add: same_meta_def)

lemma same_meta_trans: "same_meta s t \<Longrightarrow> same_meta t u \<Longrightarrow> same_meta s u"
  by (simp add: same_meta_def)

lemma same_meta_zone_list: "same_meta s t \<Longrightarrow> zone_list t = zone_list s"
  by (simp add: same_meta_def zone_list_def)

lemma index_for_valid [simp]: "valid_order k \<Longrightarrow> index_for k = Ok (k - MIN_ORDER)"
  by (auto simp: index_for_def valid_order_def)

lemma index_for_invalid: "\<not> valid_order k \<Longrightarrow> index_for k = Panic"
  by (auto simp: index_for_def valid_order_def)

lemma valid_order_index: "valid_order k \<Longrightarrow> k - MIN_ORDER < ORDER_COUNT"
  by (auto simp: valid_order_def)

lemma valid_order_inj: "valid_order k \<Longrightarrow> valid_order l \<Longrightarrow> k - MIN_ORDER = l - MIN_ORDER \<longleftrightarrow> k = l"
  by (auto simp: valid_order_def)

lemma lists_okD:
  assumes "lists_ok s F"
  shows "length (free_lists s) = ORDER_COUNT"
    and "valid_order k \<Longrightarrow> chain (next_of s) 0 (free_lists s ! (k - MIN_ORDER)) (F k)"
    and "valid_order k \<Longrightarrow> valid_order l \<Longrightarrow> k \<noteq> l \<Longrightarrow> set (F k) \<inter> set (F l) = {}"
  using assms by (auto simp: lists_ok_def)

lemma lists_ok_distinct: "lists_ok s F \<Longrightarrow> valid_order k \<Longrightarrow> distinct (F k)"
  by (rule chain_distinct [OF lists_okD(2)])

lemma lists_ok_unique: "lists_ok s F \<Longrightarrow> lists_ok s G \<Longrightarrow> valid_order k \<Longrightarrow> F k = G k"
  by (rule chain_unique [OF lists_okD(2) lists_okD(2)])

text \<open>Memory outside the free blocks does not matter.\<close>

lemma lists_ok_memory:
  assumes "lists_ok s F"
    and "\<And>a k. valid_order k \<Longrightarrow> a \<in> set (F k) \<Longrightarrow> nx a = next_of s a"
  shows "lists_ok (s\<lparr>next_of := nx\<rparr>) F"
  using assms chain_cong [of _ nx "next_of s"] by (auto simp: lists_ok_def)

section \<open>Push and pop\<close>

lemma push_free_block_spec:
  assumes "lists_ok s F" and "valid_order k" and "a \<noteq> 0"
    and "\<And>l. valid_order l \<Longrightarrow> a \<notin> set (F l)"
  obtains s' where "push_free_block a k s = (Ok (), s')"
    and "lists_ok s' (F(k := a # F k))" and "same_meta s s'"
proof -
  let ?s' = "s\<lparr>next_of := (next_of s)(a := free_lists s ! (k - MIN_ORDER)),
                free_lists := (free_lists s)[k - MIN_ORDER := a]\<rparr>"
  note ok = lists_okD [OF assms(1)]
  have ch: "chain (next_of ?s') 0 (free_lists ?s' ! (l - MIN_ORDER)) ((F(k := a # F k)) l)"
    if l: "valid_order l" for l
  proof (cases "l = k")
    case True
    have "chain ((next_of s)(a := free_lists s ! (k - MIN_ORDER))) 0
        (free_lists s ! (k - MIN_ORDER)) (F k)"
      using ok(2) [OF assms(2)] assms(4) [OF assms(2)] by (simp del: fun_upd_apply)
    with True assms(3) show ?thesis
      using ok(1) valid_order_index [OF assms(2)] by (simp del: fun_upd_apply) simp
  next
    case False
    then have "l - MIN_ORDER \<noteq> k - MIN_ORDER"
      using valid_order_inj [OF l assms(2)] by simp
    with False show ?thesis
      using ok(2) [OF l] assms(4) [OF l] by (simp del: fun_upd_apply) simp
  qed
  have "lists_ok ?s' (F(k := a # F k))"
    unfolding lists_ok_def using ch ok(1,3) assms(4) by (auto simp del: fun_upd_apply) (auto split: if_splits)
  moreover have "push_free_block a k s = (Ok (), ?s')"
    using assms(2) by (simp add: push_free_block_def bindR_def)
  moreover have "same_meta s ?s'"
    by (simp add: same_meta_def)
  ultimately show thesis
    by (intro that)
qed

lemma pop_free_block_empty:
  assumes "lists_ok s F" and "valid_order k" and "F k = []"
  shows "pop_free_block k s = (Ok None, s)"
  using assms lists_okD(2) [OF assms(1,2)] by (simp add: pop_free_block_def bindR_def)

lemma lists_ok_shrink:
  assumes "lists_ok s F" and "valid_order k"
    and "chain nx 0 h xs" and "set xs \<subseteq> set (F k)"
    and "\<And>l a. valid_order l \<Longrightarrow> l \<noteq> k \<Longrightarrow> a \<in> set (F l) \<Longrightarrow> nx a = next_of s a"
  shows "lists_ok (s\<lparr>next_of := nx, free_lists := (free_lists s)[k - MIN_ORDER := h]\<rparr>) (F(k := xs))"
proof -
  note ok = lists_okD [OF assms(1)]
  have "chain nx 0 ((free_lists s)[k - MIN_ORDER := h] ! (l - MIN_ORDER)) ((F(k := xs)) l)"
    if l: "valid_order l" for l
  proof (cases "l = k")
    case True
    then show ?thesis
      using assms(3) ok(1) valid_order_index [OF assms(2)] by simp
  next
    case False
    then have "l - MIN_ORDER \<noteq> k - MIN_ORDER"
      using valid_order_inj [OF l assms(2)] by simp
    moreover have "chain nx 0 (free_lists s ! (l - MIN_ORDER)) (F l)"
      using chain_cong [of "F l" nx "next_of s"] assms(5) [OF l False] ok(2) [OF l] by simp
    ultimately show ?thesis using False by simp
  qed
  with ok(1,3) assms(2,4) show ?thesis
    by (auto simp: lists_ok_def)
qed

lemma pop_free_block_cons:
  assumes "lists_ok s F" and "valid_order k" and "F k = a # xs"
  obtains s' where "pop_free_block k s = (Ok (Some a), s')"
    and "lists_ok s' (F(k := xs))" and "same_meta s s'"
proof -
  note ok = lists_okD [OF assms(1)]
  have ch: "chain (next_of s) 0 (next_of s a) xs" and a: "free_lists s ! (k - MIN_ORDER) = a" "a \<noteq> 0"
    using ok(2) [OF assms(2)] assms(3) by simp_all
  let ?s' = "s\<lparr>free_lists := (free_lists s)[k - MIN_ORDER := next_of s a]\<rparr>"
  have "lists_ok (s\<lparr>next_of := next_of s, free_lists := (free_lists s)[k - MIN_ORDER := next_of s a]\<rparr>)
      (F(k := xs))"
    using assms ch by (intro lists_ok_shrink) auto
  moreover have "pop_free_block k s = (Ok (Some a), ?s')"
    using assms(2) a by (simp add: pop_free_block_def bindR_def)
  moreover have "same_meta s ?s'"
    by (simp add: same_meta_def)
  ultimately show thesis
    by (intro that) simp_all
qed

section \<open>Searching and unlinking\<close>

lemma walk_free_list_notin:
  assumes "chain nx 0 h xs" and "a \<notin> set xs"
  shows "walk_free_list nx a p h = Some None"
  using assms
proof (induction xs arbitrary: h p)
  case Nil
  then show ?case by (simp add: walk_free_list.simps)
next
  case (Cons x xs)
  then show ?case by (subst walk_free_list.simps) simp
qed

lemma walk_free_list_in:
  assumes "chain nx 0 h (ys @ a # xs)" and "a \<notin> set ys"
  shows "walk_free_list nx a p h = Some (Some (last (p # ys)))"
  using assms
proof (induction ys arbitrary: h p)
  case Nil
  then show ?case by (simp add: walk_free_list.simps)
next
  case (Cons y ys)
  then show ?case by (subst walk_free_list.simps) auto
qed

lemma remove_free_block_notin:
  assumes "lists_ok s F" and "valid_order k" and "a \<notin> set (F k)"
  shows "remove_free_block a k s = (Ok False, s)"
  using assms walk_free_list_notin [OF lists_okD(2) [OF assms(1,2)] assms(3)]
  by (simp add: remove_free_block_def bindR_def)

lemma remove_free_block_in:
  assumes "lists_ok s F" and "valid_order k" and "a \<in> set (F k)"
  obtains s' where "remove_free_block a k s = (Ok True, s')"
    and "lists_ok s' (F(k := remove1 a (F k)))" and "same_meta s s'"
proof -
  note ok = lists_okD [OF assms(1)]
  note dist = lists_ok_distinct [OF assms(1,2)]
  obtain ys xs where F: "F k = ys @ a # xs" and ys: "a \<notin> set ys"
    using assms(3) by (meson split_list_first)
  have rm: "remove1 a (F k) = ys @ xs"
    using F ys by (simp add: remove1_append)
  have ch: "chain (next_of s) 0 (free_lists s ! (k - MIN_ORDER)) (ys @ a # xs)"
    using ok(2) [OF assms(2)] F by simp
  have walk: "walk_free_list (next_of s) a 0 (free_lists s ! (k - MIN_ORDER))
      = Some (Some (last (0 # ys)))"
    using ch ys by (rule walk_free_list_in)
  show thesis
  proof (cases ys rule: rev_cases)
    case Nil
    let ?s' = "s\<lparr>free_lists := (free_lists s)[k - MIN_ORDER := next_of s a]\<rparr>"
    have "lists_ok (s\<lparr>next_of := next_of s,
        free_lists := (free_lists s)[k - MIN_ORDER := next_of s a]\<rparr>) (F(k := xs))"
      using assms ch F Nil by (intro lists_ok_shrink) auto
    moreover have "remove_free_block a k s = (Ok True, ?s')"
      using assms(2) walk Nil by (simp add: remove_free_block_def bindR_def)
    ultimately show thesis
      using that [of ?s'] rm Nil by (simp add: same_meta_def)
  next
    case (snoc zs p)
    let ?nx = "(next_of s)(p := next_of s a)"
    let ?s' = "s\<lparr>next_of := ?nx\<rparr>"
    have p: "p \<noteq> 0" "p \<in> set (F k)"
      using chain_notin_end [OF ch] snoc F by auto
    have "chain ?nx 0 (free_lists s ! (k - MIN_ORDER)) (zs @ p # xs)"
      using ch snoc by (intro chain_unlink [where x = a]) simp
    moreover have "?nx b = next_of s b" if "valid_order l" "l \<noteq> k" "b \<in> set (F l)" for l b
      using p(2) ok(3) [OF that(1) assms(2) that(2)] that(3) by auto
    ultimately have "lists_ok (s\<lparr>next_of := ?nx,
        free_lists := (free_lists s)[k - MIN_ORDER := free_lists s ! (k - MIN_ORDER)]\<rparr>)
        (F(k := zs @ p # xs))"
      using assms F snoc by (intro lists_ok_shrink) auto
    moreover have "remove_free_block a k s = (Ok True, ?s')"
      using assms(2) walk snoc p(1) by (simp add: remove_free_block_def bindR_def)
    ultimately show thesis
      using that [of ?s'] rm snoc by (simp add: same_meta_def)
  qed
qed

lemma contains_free_block_spec:
  assumes "lists_ok s F" and "valid_order k"
  shows "contains_free_block a k s = (Ok (a \<in> set (F k)), s)"
proof (cases "a \<in> set (F k)")
  case True
  then obtain ys xs where "F k = ys @ a # xs" "a \<notin> set ys"
    by (meson split_list_first)
  then show ?thesis
    using assms walk_free_list_in [of "next_of s" _ ys a xs] lists_okD(2) [OF assms]
    by (simp add: contains_free_block_def bindR_def)
next
  case False
  then show ?thesis
    using assms walk_free_list_notin lists_okD(2) [OF assms]
    by (simp add: contains_free_block_def bindR_def)
qed

section \<open>Every order's list is a free stack\<close>

definition order_content :: "nat \<Rightarrow> buddy \<Rightarrow> nat list \<Rightarrow> bool" where
  "order_content k s xs \<longleftrightarrow> (\<exists>F. lists_ok s F \<and> F k = xs)"

definition order_fresh :: "buddy \<Rightarrow> nat \<Rightarrow> bool" where
  "order_fresh s a \<longleftrightarrow> a \<noteq> 0 \<and> (\<forall>F k. lists_ok s F \<longrightarrow> valid_order k \<longrightarrow> a \<notin> set (F k))"

lemma order_freshI: "lists_ok s F \<Longrightarrow> a \<noteq> 0 \<Longrightarrow> (\<And>k. valid_order k \<Longrightarrow> a \<notin> set (F k)) \<Longrightarrow> order_fresh s a"
  unfolding order_fresh_def by (metis lists_ok_unique)

lemma free_stack_order:
  assumes "valid_order k"
  shows "free_stack (order_content k) order_fresh (\<lambda>a. push_free_block a k) (pop_free_block k)"
proof (unfold_locales, goal_cases)
  case (1 s xs a)
  then obtain F where F: "lists_ok s F" "F k = xs"
    by (auto simp: order_content_def)
  with 1(2) assms obtain s' where "push_free_block a k s = (Ok (), s')" "lists_ok s' (F(k := a # F k))"
    by (metis order_fresh_def push_free_block_spec)
  with F show ?case
    by (auto simp: order_content_def intro!: exI [of _ "F(k := a # F k)"])
next
  case (2 s xs a b s')
  then obtain F where F: "lists_ok s F" "F k = xs"
    by (auto simp: order_content_def)
  with 2(2,5) assms have "lists_ok s' (F(k := a # F k))"
    by (metis order_fresh_def push_free_block_spec prod.inject)
  moreover have "b \<notin> set ((F(k := a # F k)) l)" if "valid_order l" for l
    using 2(3,4) F(1) that by (auto simp: order_fresh_def)
  ultimately show ?case
    using 2(3) by (intro order_freshI) (auto simp: order_fresh_def)
next
  case (3 s)
  then show ?case
    using assms pop_free_block_empty by (auto simp: order_content_def)
next
  case (4 s a xs)
  then obtain F where "lists_ok s F" "F k = a # xs"
    by (auto simp: order_content_def)
  with assms obtain s' where "pop_free_block k s = (Ok (Some a), s')" "lists_ok s' (F(k := xs))"
    by (metis pop_free_block_cons)
  then show ?case
    by (auto simp: order_content_def intro!: exI [of _ "F(k := xs)"])
qed

interpretation smallest: free_stack "order_content MIN_ORDER" order_fresh
    "\<lambda>a. push_free_block a MIN_ORDER" "pop_free_block MIN_ORDER"
  by (rule free_stack_order) (simp add: valid_order_def)

interpretation largest: free_stack "order_content MAX_ORDER" order_fresh
    "\<lambda>a. push_free_block a MAX_ORDER" "pop_free_block MAX_ORDER"
  by (rule free_stack_order) (simp add: valid_order_def)

end
