(* ===== verification/Buddy_Correct.thy ===== *)
theory Buddy_Correct
  imports Buddy_Geometry Buddy_Lists
begin

text \<open>
  The correctness of the buddy allocator. \<open>heap_inv s F L\<close> says that the free blocks
  \<open>F\<close> on the lists together with the blocks \<open>L\<close> held by clients tile the zones of the
  heap; allocation and deallocation keep it, never panic and never loop.
\<close>

section \<open>The heap invariant\<close>

definition free_set :: "(nat \<Rightarrow> nat list) \<Rightarrow> block set" where
  "free_set F = {(a, k). valid_order k \<and> a \<in> set (F k)}"

definition zones_ok :: "nat \<Rightarrow> zone set \<Rightarrow> bool" where
  "zones_ok m Z \<longleftrightarrow> (\<forall>z\<in>Z. 0 < z_base z \<and> MIN_ORDER \<le> z_order z \<and> z_order z \<le> m
       \<and> 2 ^ z_order z dvd z_base z)
     \<and> (\<forall>y\<in>Z. \<forall>z\<in>Z. y \<noteq> z \<longrightarrow> zblk y \<inter> zblk z = {})"

definition heap_inv :: "buddy \<Rightarrow> (nat \<Rightarrow> nat list) \<Rightarrow> block set \<Rightarrow> bool" where
  "heap_inv s F L \<longleftrightarrow> initialized s \<and> lists_ok s F \<and> max_order s \<le> MAX_ORDER
     \<and> zones_ok (max_order s) (set (zone_list s))
     \<and> free_set F \<inter> L = {} \<and> tiling (set (zone_list s)) (free_set F \<union> L)"

lemma mem_free_set [simp]: "(a, k) \<in> free_set F \<longleftrightarrow> valid_order k \<and> a \<in> set (F k)"
  by (simp add: free_set_def)

lemma free_set_upd:
  "valid_order k \<Longrightarrow> free_set (F(k := xs)) = {(a, l). (a, l) \<in> free_set F \<and> l \<noteq> k} \<union> (\<lambda>a. (a, k)) ` set xs"
  by (auto simp: free_set_def)

lemma heap_invD:
  assumes "heap_inv s F L"
  shows "initialized s" and "lists_ok s F" and "max_order s \<le> MAX_ORDER"
    and "zones_ok (max_order s) (set (zone_list s))" and "free_set F \<inter> L = {}"
    and "tiling (set (zone_list s)) (free_set F \<union> L)"
  using assms by (auto simp: heap_inv_def)

lemma heap_inv_zone:
  assumes "heap_inv s F L" and "(a, k) \<in> free_set F \<union> L"
  obtains z where "z \<in> set (zone_list s)" and "in_zone z (a, k)" and "0 < z_base z"
    and "2 ^ z_order z dvd z_base z" and "z_order z \<le> max_order s"
  using tilingD_zone [OF heap_invD(6) [OF assms(1)] assms(2)] heap_invD(4) [OF assms(1)]
  by (auto simp: zones_ok_def)

lemma heap_inv_block:
  assumes "heap_inv s F L" and "(a, k) \<in> free_set F \<union> L"
  shows "0 < a" and "valid_order k" and "k \<le> max_order s" and "2 ^ k dvd a"
proof -
  obtain z where z: "in_zone z (a, k)" "0 < z_base z" "2 ^ z_order z dvd z_base z"
    "z_order z \<le> max_order s"
    by (rule heap_inv_zone [OF assms])
  then obtain m where m: "a = z_base z + m * 2 ^ k" "MIN_ORDER \<le> k" "k \<le> z_order z"
    by (auto elim: in_zoneE)
  show "0 < a" using m(1) z(2) by simp
  show "valid_order k" "k \<le> max_order s"
    using m(2,3) z(4) heap_invD(3) [OF assms(1)] by (simp_all add: valid_order_def)
  have "2 ^ k dvd z_base z"
    using z(3) m(3) by (meson dvd_trans le_imp_power_dvd)
  then show "2 ^ k dvd a" by (simp add: m(1))
qed

lemma heap_inv_cover:
  assumes "heap_inv s F L" and "z \<in> set (zone_list s)" and "x \<in> zblk z"
  obtains d i where "(d, i) \<in> free_set F \<union> L" and "x \<in> blk (d, i)"
  using tilingD_cover [OF heap_invD(6) [OF assms(1)] assms(2,3)] by (metis surj_pair)

text \<open>An address inside a block that is held cannot start a free block.\<close>

lemma heap_inv_fresh:
  assumes "heap_inv s F L" and "(a, k) \<in> L" and "x \<in> blk (a, k)" and "valid_order l"
  shows "x \<notin> set (F l)"
proof
  assume "x \<in> set (F l)"
  with assms(4) have free: "(x, l) \<in> free_set F" by simp
  moreover have "(x, l) \<noteq> (a, k)"
    using free assms(2) heap_invD(5) [OF assms(1)] by blast
  ultimately have "blk (x, l) \<inter> blk (a, k) = {}"
    using tilingD_disjoint [OF heap_invD(6) [OF assms(1)]] assms(2) by blast
  with assms(3) blk_base [of x l] show False by blast
qed

lemma heap_inv_lists:
  assumes "heap_inv s F L" and "same_meta s s'" and "lists_ok s' F'"
    and "free_set F' \<union> L' = free_set F \<union> L" and "free_set F' \<inter> L' = {}"
  shows "heap_inv s' F' L'"
  using heap_invD [OF assms(1)] assms(3-5) same_meta_zone_list [OF assms(2)] assms(2)
  by (simp add: heap_inv_def same_meta_def)

text \<open>The two ways the free lists change: a block leaves a list, or enters one.\<close>

lemma heap_inv_take:
  assumes "heap_inv s F L" and "valid_order k" and "a \<in> set (F k)"
    and "lists_ok s' (F(k := xs))" and "set xs = set (F k) - {a}" and "same_meta s s'"
  shows "heap_inv s' (F(k := xs)) (insert (a, k) L)" and "(a, k) \<notin> L"
proof -
  note inv = heap_invD [OF assms(1)]
  have fs: "free_set (F(k := xs)) = free_set F - {(a, k)}"
    using assms(2,5) by (auto simp: free_set_def)
  have "(a, k) \<in> free_set F" using assms by simp
  then have "free_set F - {(a, k)} \<union> insert (a, k) L = free_set F \<union> L"
    by blast
  with inv(5) show "heap_inv s' (F(k := xs)) (insert (a, k) L)"
    by (intro heap_inv_lists [OF assms(1,6,4)]) (auto simp only: fs)
  show "(a, k) \<notin> L" using inv(5) \<open>(a, k) \<in> free_set F\<close> by blast
qed

lemma heap_inv_push:
  assumes "heap_inv s F (insert (a, k) L)" and "(a, k) \<notin> L"
  obtains s' where "push_free_block a k s = (Ok (), s')" and "heap_inv s' (F(k := a # F k)) L"
    and "same_meta s s'"
proof -
  note inv = heap_invD [OF assms(1)]
  have v: "valid_order k" and a: "a \<noteq> 0"
    using heap_inv_block [OF assms(1), of a k] by auto
  have "a \<notin> set (F l)" if "valid_order l" for l
    using heap_inv_fresh [OF assms(1) _ _ that, of a k] by simp
  then obtain s' where s': "push_free_block a k s = (Ok (), s')"
      "lists_ok s' (F(k := a # F k))" "same_meta s s'"
    using push_free_block_spec [OF inv(2) v a] by blast
  have fs: "free_set (F(k := a # F k)) = insert (a, k) (free_set F)"
    using v by (auto simp: free_set_def)
  then have "free_set (F(k := a # F k)) \<union> L = free_set F \<union> insert (a, k) L"
    by blast
  then have "heap_inv s' (F(k := a # F k)) L"
    using inv(5) assms(2) by (intro heap_inv_lists [OF assms(1) s'(3,2)]) (auto simp only: fs)
  with s' that show thesis by blast
qed

text \<open>Splitting or merging held blocks leaves the free lists alone.\<close>

lemma heap_inv_retile:
  assumes "heap_inv s F L" and "tiling (set (zone_list s)) (free_set F \<union> L')"
    and "free_set F \<inter> L' = {}"
  shows "heap_inv s F L'"
  using assms by (simp add: heap_inv_def)

lemma heap_inv_split:
  assumes "heap_inv s F (insert (a, Suc k) L)" and "(a, Suc k) \<notin> L" and "MIN_ORDER \<le> k"
  shows "heap_inv s F (insert (a + 2 ^ k, k) (insert (a, k) L))"
    and "(a, k) \<notin> L" and "(a + 2 ^ k, k) \<notin> insert (a, k) L"
proof -
  note inv = heap_invD [OF assms(1)]
  let ?Z = "set (zone_list s)" and ?B = "free_set F \<union> insert (a, Suc k) L"
  have notin: "(x, k) \<notin> free_set F \<union> L" if "x \<in> blk (a, Suc k)" for x
  proof
    assume "(x, k) \<in> free_set F \<union> L"
    then have "blk (x, k) \<inter> blk (a, Suc k) = {}"
      using tilingD_disjoint [OF inv(6), of "(x, k)" "(a, Suc k)"] by auto
    with that blk_base [of x k] show False by blast
  qed
  have mem: "a \<in> blk (a, Suc k)" "a + 2 ^ k \<in> blk (a, Suc k)"
    by auto
  have "tiling ?Z (insert (a, k) (insert (a + 2 ^ k, k) (?B - {(a, Suc k)})))"
    using assms(3) by (intro tiling_split [OF inv(6)]) simp_all
  moreover have "?B - {(a, Suc k)} = free_set F \<union> L"
    using assms(2) inv(5) by blast
  moreover have "insert (a, k) (insert (a + 2 ^ k, k) (free_set F \<union> L))
      = free_set F \<union> insert (a + 2 ^ k, k) (insert (a, k) L)"
    by blast
  ultimately show "heap_inv s F (insert (a + 2 ^ k, k) (insert (a, k) L))"
    using inv(5) notin [OF mem(1)] notin [OF mem(2)]
    by (intro heap_inv_retile [OF assms(1)]) auto
  show "(a, k) \<notin> L" and "(a + 2 ^ k, k) \<notin> insert (a, k) L"
    using notin [OF mem(1)] notin [OF mem(2)] by auto
qed

lemma heap_inv_merge:
  assumes "heap_inv s F (insert (b, k) (insert (a, k) L))" and "(a, k) \<notin> L" and "(b, k) \<notin> L"
    and "z \<in> set (zone_list s)" and "in_zone z (a, k)" and "k < z_order z"
    and "buddy_addr z a k = Some b"
  shows "heap_inv s F (insert (min a b, Suc k) L)" and "(min a b, Suc k) \<notin> L"
    and "in_zone z (min a b, Suc k)"
proof -
  note inv = heap_invD [OF assms(1)]
  obtain b' where b': "buddy_addr z a k = Some b'" "in_zone z (min a b', Suc k)" "b' \<noteq> a"
      "blk (min a b', Suc k) = blk (a, k) \<union> blk (b', k)"
    by (rule buddy_addr_spec [OF assms(5,6)])
  with assms(7) show z: "in_zone z (min a b, Suc k)"
    by simp
  let ?Z = "set (zone_list s)" and ?B = "free_set F \<union> insert (b, k) (insert (a, k) L)"
  have "tiling ?Z (insert (min a b, Suc k) (?B - {(a, k), (b, k)}))"
    using assms by (intro tiling_merge [OF inv(6)]) simp_all
  moreover have "?B - {(a, k), (b, k)} = free_set F \<union> L"
    using assms(2,3) inv(5) by blast
  ultimately have t: "tiling ?Z (free_set F \<union> insert (min a b, Suc k) L)"
    by (simp add: insert_commute)
  have notin: "(min a b, Suc k) \<notin> free_set F \<union> L"
  proof
    assume "(min a b, Suc k) \<in> free_set F \<union> L"
    moreover have "(min a b, k) \<in> ?B"
      by (simp add: min_def)
    ultimately show False
      using tiling_same_addr [OF inv(6), of "min a b" "Suc k" k] by auto
  qed
  then show "(min a b, Suc k) \<notin> L" by blast
  show "heap_inv s F (insert (min a b, Suc k) L)"
    using t notin inv(5) by (intro heap_inv_retile [OF assms(1)]) auto
qed

section \<open>Allocation\<close>

text \<open>The lists after a block of order \<open>l\<close> was split down to order \<open>k\<close>: the upper half of
  each split is on the list of its order.\<close>

definition split_lists ::
  "(nat \<Rightarrow> nat list) \<Rightarrow> nat \<Rightarrow> nat \<Rightarrow> nat \<Rightarrow> nat list \<Rightarrow> nat \<Rightarrow> nat list" where
  "split_lists F k l a xs = (\<lambda>j. if j = l then xs else if k \<le> j \<and> j < l then [a + 2 ^ j] else F j)"

lemma split_lists_same: "split_lists F k k a xs = F(k := xs)"
  by (auto simp: split_lists_def)

lemma split_lists_step:
  "k < l \<Longrightarrow> F k = [] \<Longrightarrow> (split_lists F (Suc k) l a xs)(k := (a + 2 ^ k) # split_lists F (Suc k) l a xs k)
     = split_lists F k l a xs"
  by (auto simp: split_lists_def fun_eq_iff)

text \<open>Best fit: the smallest non-empty order \<open>l \<ge> k\<close> serves the request.\<close>

lemma allocate_order_Some:
  assumes "heap_inv s F L" and "MIN_ORDER \<le> k" and "k \<le> l" and "l \<le> max_order s"
    and "\<forall>j. k \<le> j \<and> j < l \<longrightarrow> F j = []" and "F l = a # xs"
  shows "\<exists>s'. allocate_order k s = (Ok (Some a), s') \<and> same_meta s s'
     \<and> heap_inv s' (split_lists F k l a xs) (insert (a, k) L) \<and> (a, k) \<notin> L"
  using assms(3,2,5)
proof (induction k rule: inc_induct)
  case base
  note inv = heap_invD [OF assms(1)]
  have v: "valid_order l"
    using base assms(3,4) inv(3) by (auto simp: valid_order_def)
  obtain s' where s': "pop_free_block l s = (Ok (Some a), s')" "lists_ok s' (F(l := xs))"
      "same_meta s s'"
    by (rule pop_free_block_cons [OF inv(2) v assms(6)])
  have "a \<in> set (F l)" "set xs = set (F l) - {a}"
    using lists_ok_distinct [OF inv(2) v] assms(6) by auto
  note heap_inv_take [OF assms(1) v this(1) s'(2) this(2) s'(3)]
  with s' assms(4) show ?case
    by (subst allocate_order.simps) (simp add: split_lists_same)
next
  case (step k)
  note inv = heap_invD [OF assms(1)]
  have v: "valid_order k"
    using step assms(4) inv(3) by (auto simp: valid_order_def)
  have k: "F k = []" "MIN_ORDER \<le> Suc k" "\<forall>j. Suc k \<le> j \<and> j < l \<longrightarrow> F j = []"
    using step by auto
  from step.IH [OF k(2,3)]
  obtain s2 where s2: "allocate_order (Suc k) s = (Ok (Some a), s2)" "same_meta s s2"
    "heap_inv s2 (split_lists F (Suc k) l a xs) (insert (a, Suc k) L)" "(a, Suc k) \<notin> L"
    by blast
  note split = heap_inv_split [OF s2(3,4) step.prems(1)]
  obtain s3 where s3: "push_free_block (a + 2 ^ k) k s2 = (Ok (), s3)" "same_meta s2 s3"
    "heap_inv s3 (split_lists F k l a xs) (insert (a, k) L)"
    using heap_inv_push [OF split(1,3)] split_lists_step [of k l F a xs] step.hyps(2) k(1) by metis
  have "allocate_order k s = (Ok (Some a), s3)"
    using pop_free_block_empty [OF inv(2) v k(1)] s2(1) s3(1) step.hyps assms(4)
    by (subst allocate_order.simps) simp
  with s3 same_meta_trans [OF s2(2)] split(2) show ?case by blast
qed

lemma allocate_order_None:
  assumes "lists_ok s F" and "max_order s \<le> MAX_ORDER" and "MIN_ORDER \<le> k"
    and "\<forall>j. k \<le> j \<and> j \<le> max_order s \<longrightarrow> F j = []"
  shows "allocate_order k s = (Ok None, s)"
  using assms(3,4)
proof (induction "Suc (max_order s) - k" arbitrary: k)
  case 0
  then show ?case by (simp add: allocate_order.simps)
next
  case (Suc n)
  then have "valid_order k" "F k = []" "n = Suc (max_order s) - Suc k"
    using assms(2) by (auto simp: valid_order_def)
  with Suc.hyps(1) [of "Suc k"] Suc.prems pop_free_block_empty [OF assms(1), of k]
  show ?case by (subst allocate_order.simps) auto
qed

text \<open>Either some order serves the request, or the heap is left alone.\<close>

lemma allocate_order_cases:
  assumes "heap_inv s F L" and "MIN_ORDER \<le> k"
  obtains (some) l a xs s' where "k \<le> l" "l \<le> max_order s" "F l = a # xs"
      "\<forall>j. k \<le> j \<and> j < l \<longrightarrow> F j = []"
      "allocate_order k s = (Ok (Some a), s')" "same_meta s s'"
      "heap_inv s' (split_lists F k l a xs) (insert (a, k) L)" "(a, k) \<notin> L"
  | (none) "\<forall>j. k \<le> j \<and> j \<le> max_order s \<longrightarrow> F j = []" "allocate_order k s = (Ok None, s)"
proof (cases "\<exists>j. k \<le> j \<and> j \<le> max_order s \<and> F j \<noteq> []")
  case True
  define l where "l = (LEAST j. k \<le> j \<and> j \<le> max_order s \<and> F j \<noteq> [])"
  have l: "k \<le> l \<and> l \<le> max_order s \<and> F l \<noteq> []"
    unfolding l_def by (rule LeastI_ex [OF True])
  then obtain a xs where F: "F l = a # xs"
    by (cases "F l") auto
  have least: "\<forall>j. k \<le> j \<and> j < l \<longrightarrow> F j = []"
    using not_less_Least [where P = "\<lambda>j. k \<le> j \<and> j \<le> max_order s \<and> F j \<noteq> []"] l
    unfolding l_def [symmetric] by fastforce
  from allocate_order_Some [OF assms(1,2) _ _ least F] l some [OF _ _ F least] show thesis
    by blast
next
  case False
  then have "\<forall>j. k \<le> j \<and> j \<le> max_order s \<longrightarrow> F j = []"
    by blast
  with none allocate_order_None heap_invD(2,3) [OF assms(1)] assms(2) show thesis
    by blast
qed

section \<open>Deallocation\<close>

lemma zone_for_eq:
  assumes "zones_ok m (set (zone_list s))" and "z \<in> set (zone_list s)" and "a \<in> zblk z"
  shows "zone_for a s = Some z"
proof -
  have uniq: "y = z" if "y \<in> set (zone_list s)" and "a \<in> zblk y" for y
    using assms that unfolding zones_ok_def by blast
  have z: "a \<ge> z_base z \<and> a < z_base z + block_size (z_order z)"
    using assms(3) by (simp add: zblk_def)
  show ?thesis
  proof (cases "zone_for a s")
    case None
    then show ?thesis
      using assms(2) z by (auto simp: zone_for_def find_None_iff)
  next
    case (Some y)
    then show ?thesis
      using uniq [of y] unfolding zone_for_def find_Some_iff
      by (auto simp: zblk_def nth_mem)
  qed
qed

text \<open>No free block has a free buddy.\<close>

definition coalesced :: "zone set \<Rightarrow> (nat \<Rightarrow> nat list) \<Rightarrow> bool" where
  "coalesced Z F \<longleftrightarrow> (\<forall>z\<in>Z. \<forall>a k b. in_zone z (a, k) \<longrightarrow> k < z_order z \<longrightarrow>
     buddy_addr z a k = Some b \<longrightarrow> a \<in> set (F k) \<longrightarrow> b \<notin> set (F k))"

lemma coalescedD:
  "coalesced Z F \<Longrightarrow> z \<in> Z \<Longrightarrow> in_zone z (a, k) \<Longrightarrow> k < z_order z \<Longrightarrow>
    buddy_addr z a k = Some b \<Longrightarrow> a \<in> set (F k) \<Longrightarrow> b \<notin> set (F k)"
  unfolding coalesced_def by blast

lemma coalesced_subset:
  "coalesced Z F \<Longrightarrow> (\<And>k. set (G k) \<subseteq> set (F k)) \<Longrightarrow> coalesced Z G"
  unfolding coalesced_def by blast

lemma coalesced_split:
  assumes "coalesced Z F" and "F l = a # xs"
  shows "coalesced Z (split_lists F k l a xs)"
  unfolding coalesced_def
proof (intro ballI allI impI)
  fix z c j b
  assume z: "z \<in> Z" "in_zone z (c, j)" "j < z_order z" "buddy_addr z c j = Some b"
    and c: "c \<in> set (split_lists F k l a xs j)"
  have "b \<noteq> c"
    using buddy_addr_spec [OF z(2,3)] z(4) by (metis option.inject)
  with c assms(2) coalescedD [OF assms(1) z(1-4)]
  show "b \<notin> set (split_lists F k l a xs j)"
    by (auto simp: split_lists_def split: if_splits)
qed

lemma coalesced_push:
  assumes "coalesced Z F" and "k = z_order z \<or> (\<exists>b. buddy_addr z a k = Some b \<and> b \<notin> set (F k))"
    and "\<And>y. y \<in> Z \<Longrightarrow> in_zone y (a, k) \<Longrightarrow> y = z"
  shows "coalesced Z (F(k := a # F k))"
  unfolding coalesced_def
proof (intro ballI allI impI)
  fix y c j b
  assume y: "y \<in> Z" "in_zone y (c, j)" "j < z_order y" "buddy_addr y c j = Some b"
    and c: "c \<in> set ((F(k := a # F k)) j)"
  obtain b' where "buddy_addr y c j = Some b'" and b': "in_zone y (b', j)" "b' \<noteq> c"
      "buddy_addr y b' j = Some c"
    by (rule buddy_addr_spec [OF y(2,3)])
  then have b: "in_zone y (b, j)" "b \<noteq> c" "buddy_addr y b j = Some c"
    using y(4) by simp_all
  have top: "\<not> (k = z_order z \<and> j = k \<and> z = y)"
    using y(3) by auto
  show "b \<notin> set ((F(k := a # F k)) j)"
  proof (cases "j = k \<and> (c = a \<or> b = a)")
    case True
    then have "y = z"
      using assms(3) y(1,2) b(1) by auto
    with True top assms(2) y(4) b c show ?thesis
      by (auto simp: fun_upd_def split: if_splits)
  next
    case False
    with c coalescedD [OF assms(1) y] show ?thesis
      by (auto split: if_splits)
  qed
qed

lemma merge_loop_spec:
  assumes "heap_inv s F (insert (a, k) L)" and "(a, k) \<notin> L"
    and "z \<in> set (zone_list s)" and "in_zone z (a, k)" and "coalesced (set (zone_list s)) F"
  shows "\<exists>a' k' s' F'. merge_loop z a k s = (Ok (a', k'), s') \<and> same_meta s s'
     \<and> heap_inv s' F' (insert (a', k') L) \<and> (a', k') \<notin> L \<and> in_zone z (a', k')
     \<and> coalesced (set (zone_list s)) F'
     \<and> (k' = z_order z \<or> (\<exists>b. buddy_addr z a' k' = Some b \<and> b \<notin> set (F' k')))"
  using assms
proof (induction "z_order z - k" arbitrary: a k s F)
  case 0
  then have "k = z_order z"
    by (auto elim: in_zoneE)
  with 0 show ?case
    by (intro exI [of _ a] exI [of _ k] exI [of _ s] exI [of _ F]) (simp add: merge_loop.simps)
next
  case (Suc n)
  then have k: "k < z_order z" "n = z_order z - Suc k" by auto
  note inv = heap_invD [OF Suc.prems(1)]
  have v: "valid_order k"
    using heap_inv_block(2) [OF Suc.prems(1), of a k] by simp
  obtain b where b: "buddy_addr z a k = Some b" "b \<noteq> a"
    by (rule buddy_addr_spec [OF Suc.prems(4) k(1)])
  show ?case
  proof (cases "b \<in> set (F k)")
    case False
    from remove_free_block_notin [OF inv(2) v this] b k(1)
    have "merge_loop z a k s = (Ok (a, k), s)"
      by (subst merge_loop.simps) simp
    with Suc.prems b False show ?thesis
      by (intro exI [of _ a] exI [of _ k] exI [of _ s] exI [of _ F]) simp
  next
    case True
    let ?G = "F(k := remove1 b (F k))"
    obtain s1 where s1: "remove_free_block b k s = (Ok True, s1)" "lists_ok s1 ?G" "same_meta s s1"
      by (rule remove_free_block_in [OF inv(2) v True])
    have "set (remove1 b (F k)) = set (F k) - {b}"
      using lists_ok_distinct [OF inv(2) v] by simp
    note take = heap_inv_take [OF Suc.prems(1) v True s1(2) this s1(3)]
    have zl: "zone_list s1 = zone_list s"
      by (rule same_meta_zone_list [OF s1(3)])
    have "(b, k) \<notin> L" using take(2) by simp
    note m = heap_inv_merge [OF take(1) Suc.prems(2) this _ Suc.prems(4) k(1) b(1)]
    have co: "coalesced (set (zone_list s)) ?G"
      by (rule coalesced_subset [OF Suc.prems(5)]) (auto dest: notin_set_remove1 set_remove1_subset [THEN subsetD])
    obtain a' k' s' F' where r: "merge_loop z (min a b) (Suc k) s1 = (Ok (a', k'), s')"
      "same_meta s1 s'" "heap_inv s' F' (insert (a', k') L)" "(a', k') \<notin> L" "in_zone z (a', k')"
      "coalesced (set (zone_list s)) F'"
      "k' = z_order z \<or> (\<exists>b. buddy_addr z a' k' = Some b \<and> b \<notin> set (F' k'))"
      using Suc.hyps(1) [OF k(2) m(1,2) _ m(3)] Suc.prems(3) co unfolding zl by blast
    have "merge_loop z a k s = (Ok (a', k'), s')"
      using k(1) b(1) s1(1) r(1) by (subst merge_loop.simps) simp
    with r same_meta_trans [OF s1(3) r(2)] show ?thesis
      by blast
  qed
qed

lemma order_for_size_from_spec:
  assumes "order \<le> MAX_ORDER" and "order_for_size_from sz order = Some k"
  shows "order \<le> k \<and> k \<le> MAX_ORDER \<and> sz \<le> 2 ^ k \<and> (\<forall>j. order \<le> j \<and> j < k \<longrightarrow> 2 ^ j < sz)"
  using assms
proof (induction sz order rule: order_for_size_from.induct)
  case (1 sz order)
  show ?case
  proof (cases "2 ^ order < sz")
    case True
    with "1.prems" have "order < MAX_ORDER" "order_for_size_from sz (order + 1) = Some k"
      by (auto simp: order_for_size_from.simps [of sz order] split: if_splits)
    with "1.IH" True have IH: "order < k \<and> k \<le> MAX_ORDER \<and> sz \<le> 2 ^ k
        \<and> (\<forall>j. order < j \<and> j < k \<longrightarrow> 2 ^ j < sz)"
      by (simp add: Suc_le_eq)
    have "2 ^ j < sz" if "order \<le> j" "j < k" for j
      using that IH True by (cases "j = order") auto
    with IH show ?thesis by simp
  next
    case False
    with "1.prems" show ?thesis
      by (auto simp: order_for_size_from.simps [of sz order])
  qed
qed

lemma order_for_size_from_None:
  assumes "order \<le> MAX_ORDER"
  shows "order_for_size_from sz order = None \<longleftrightarrow> 2 ^ MAX_ORDER < sz"
  using assms
proof (induction sz order rule: order_for_size_from.induct)
  case (1 sz order)
  have "2 ^ order < sz" if "2 ^ MAX_ORDER < sz"
  proof -
    have "(2::nat) ^ order \<le> 2 ^ MAX_ORDER"
      using "1.prems" by (rule power_increasing) simp
    also note that
    finally show ?thesis .
  qed
  with 1 show ?case
    by (subst order_for_size_from.simps) (cases "order = MAX_ORDER"; auto)
qed

text \<open>The smallest order whose blocks are large enough.\<close>

lemma order_for_size_spec:
  assumes "order_for_size sz = Some k"
  shows "valid_order k" and "sz \<le> 2 ^ k" and "MIN_ORDER \<le> j \<Longrightarrow> j < k \<Longrightarrow> 2 ^ j < sz"
proof -
  have s: "MIN_ORDER \<le> k \<and> k \<le> MAX_ORDER \<and> max sz 8 \<le> 2 ^ k
      \<and> (\<forall>j. MIN_ORDER \<le> j \<and> j < k \<longrightarrow> 2 ^ j < max sz 8)"
    using assms unfolding order_for_size_def by (intro order_for_size_from_spec) simp_all
  then show "valid_order k" and "sz \<le> 2 ^ k"
    by (auto simp: valid_order_def)
  assume j: "MIN_ORDER \<le> j" "j < k"
  have "(2::nat) ^ MIN_ORDER \<le> 2 ^ j"
    using j(1) by (rule power_increasing) simp
  with s j have "2 ^ j < max sz 8" "64 \<le> (2::nat) ^ j" by auto
  then show "2 ^ j < sz" by simp
qed

lemma order_for_size_None: "order_for_size sz = None \<longleftrightarrow> 2 ^ MAX_ORDER < sz"
  unfolding order_for_size_def by (subst order_for_size_from_None) auto

definition layout_order :: "layout \<Rightarrow> nat option" where
  "layout_order l = order_for_size (max (l_size l) (l_align l))"

lemma heap_inv_zone_unique:
  assumes "heap_inv s F L" and "y \<in> set (zone_list s)" and "z \<in> set (zone_list s)"
    and "in_zone y (a, k)" and "in_zone z (a, k)"
  shows "y = z"
proof -
  have "a \<in> zblk y" "a \<in> zblk z"
    using in_zone_blk_subset [OF assms(4)] in_zone_blk_subset [OF assms(5)] blk_base [of a k] by auto
  with heap_invD(4) [OF assms(1)] assms(2,3) show ?thesis
    unfolding zones_ok_def by blast
qed

lemma buddy_dealloc_inv:
  assumes "heap_inv s F (insert (p, k) L)" and "(p, k) \<notin> L"
    and "coalesced (set (zone_list s)) F" and "layout_order l = Some k"
  shows "\<exists>s' F'. buddy_dealloc p l s = (Ok (), s') \<and> same_meta s s'
     \<and> heap_inv s' F' L \<and> coalesced (set (zone_list s')) F'"
proof -
  note inv = heap_invD [OF assms(1)]
  obtain z where z: "z \<in> set (zone_list s)" "in_zone z (p, k)"
    by (rule heap_inv_zone [OF assms(1), of p k]) auto
  have zf: "zone_for p s = Some z"
    using zone_for_eq [OF inv(4) z(1), of p] in_zone_blk_subset [OF z(2)] blk_base [of p k] by blast
  obtain a' k' s1 F1 where m: "merge_loop z p k s = (Ok (a', k'), s1)" "same_meta s s1"
      "heap_inv s1 F1 (insert (a', k') L)" "(a', k') \<notin> L" "in_zone z (a', k')"
      "coalesced (set (zone_list s)) F1"
      "k' = z_order z \<or> (\<exists>b. buddy_addr z a' k' = Some b \<and> b \<notin> set (F1 k'))"
    using merge_loop_spec [OF assms(1,2) z assms(3)] by blast
  obtain s2 where s2: "push_free_block a' k' s1 = (Ok (), s2)"
      "heap_inv s2 (F1(k' := a' # F1 k')) L" "same_meta s1 s2"
    by (rule heap_inv_push [OF m(3,4)])
  have zl: "zone_list s1 = zone_list s" "zone_list s2 = zone_list s"
    using same_meta_zone_list m(2) s2(3) by metis+
  have "coalesced (set (zone_list s)) (F1(k' := a' # F1 k'))"
    using m(5-7) z(1) heap_inv_zone_unique [OF m(3)] unfolding zl
    by (intro coalesced_push [where z = z]) blast+
  moreover have "buddy_dealloc p l s = (Ok (), s2)"
    using heap_inv_block(1) [OF assms(1), of p k] inv(1) assms(4) zf m(1) s2(1)
    by (simp add: buddy_dealloc_def layout_order_def bindR_def)
  ultimately show ?thesis
    using s2(2) same_meta_trans [OF m(2) s2(3)] zl by auto
qed

section \<open>A heap with nothing allocated\<close>

text \<open>When every block has been returned, the free blocks are the zones themselves.\<close>

lemma coalesced_region:
  assumes "heap_inv s F L" and "coalesced (set (zone_list s)) F"
    and "z \<in> set (zone_list s)" and "in_zone z (r, m)"
    and "\<And>x. x \<in> blk (r, m) \<Longrightarrow> \<exists>d i. (d, i) \<in> free_set F \<and> x \<in> blk (d, i)"
  shows "\<exists>d i. (d, i) \<in> free_set F \<and> in_zone z (d, i) \<and> blk (r, m) \<subseteq> blk (d, i)"
proof (rule ccontr)
  note inv = heap_invD [OF assms(1)]
  assume no: "\<not> ?thesis"
  have inz: "in_zone z (d, i)" if "(d, i) \<in> free_set F" "x \<in> blk (d, i)" "x \<in> zblk z" for d i x
  proof -
    have "(d, i) \<in> free_set F \<union> L" using that(1) by blast
    then obtain y where y: "y \<in> set (zone_list s)" "in_zone y (d, i)"
      by (rule heap_inv_zone [OF assms(1)])
    have "x \<in> zblk y" using in_zone_blk_subset [OF y(2)] that(2) by blast
    then have "y = z"
      using that(3) y(1) assms(3) inv(4) unfolding zones_ok_def by blast
    with y(2) show ?thesis by simp
  qed
  have inside: "in_zone z (d, i) \<and> i < m" if "(d, i) \<in> free_set F" "x \<in> blk (d, i)" "x \<in> blk (r, m)" for d i x
  proof -
    have "x \<in> zblk z" using in_zone_blk_subset [OF assms(4)] that(3) by blast
    with inz [OF that(1,2)] have dz: "in_zone z (d, i)" .
    have "\<not> m \<le> i"
      using in_zone_nested [OF assms(4) dz] that no dz by blast
    with dz show ?thesis by simp
  qed
  let ?P = "\<lambda>k. \<exists>a x. (a, k) \<in> free_set F \<and> x \<in> blk (a, k) \<and> x \<in> blk (r, m)"
  define j where "j = (LEAST k. ?P k)"
  have "\<exists>k. ?P k" using assms(5) blk_base [of r m] by blast
  then have "?P j" unfolding j_def by (rule LeastI_ex)
  then obtain c y where c: "(c, j) \<in> free_set F" "y \<in> blk (c, j)" "y \<in> blk (r, m)" by blast
  have least: "j \<le> i" if "(d, i) \<in> free_set F" "x \<in> blk (d, i)" "x \<in> blk (r, m)" for d i x
  proof -
    from that have "?P i" by blast
    then show ?thesis unfolding j_def by (rule Least_le)
  qed
  have cz: "in_zone z (c, j)" and jm: "j < m"
    using inside [OF c] by auto
  have jz: "j < z_order z"
    using jm assms(4) by (auto elim: in_zoneE)
  obtain b where b: "buddy_addr z c j = Some b" "in_zone z (b, j)" "b \<noteq> c"
      "in_zone z (min c b, Suc j)" "blk (min c b, Suc j) = blk (c, j) \<union> blk (b, j)"
    by (rule buddy_addr_spec [OF cz jz])
  have "blk (min c b, Suc j) \<subseteq> blk (r, m)"
    using jm c(2,3) b(5) by (intro in_zone_nested [OF b(4) assms(4)]) (simp, blast)
  then have br: "b \<in> blk (r, m)" using b(5) blk_base [of b j] by blast
  then obtain d i where d: "(d, i) \<in> free_set F" "b \<in> blk (d, i)"
    using assms(5) by blast
  then have dz: "in_zone z (d, i)" and ji: "j \<le> i"
    using inside [OF d br] least [OF d br] by auto
  show False
  proof (cases "i = j")
    case True
    have "blk (b, j) \<inter> blk (d, j) \<noteq> {}"
      using d(2) True blk_base [of b j] by blast
    with in_zone_nested [OF b(2) _ le_refl, of d] in_zone_nested [OF _ b(2) le_refl, of d] dz True
    have "blk (b, j) = blk (d, j)" by blast
    then have "b \<in> blk (d, j)" "d \<in> blk (b, j)"
      using blk_base [of b j] blk_base [of d j] by blast+
    then have "b = d" by simp
    with d(1) c(1) True coalescedD [OF assms(2,3) cz jz b(1)] show False
      by simp
  next
    case False
    have overlap: "blk (min c b, Suc j) \<inter> blk (d, i) \<noteq> {}"
      using b(5) d(2) blk_base [of b j] by blast
    from False ji have "Suc j \<le> i" by simp
    then have "blk (c, j) \<subseteq> blk (d, i)"
      using in_zone_nested [OF b(4) dz _ overlap] b(5) by blast
    moreover have "blk (c, j) \<inter> blk (d, i) = {}"
      using tilingD_disjoint [OF inv(6), of "(c, j)" "(d, i)"] c(1) d(1) False by auto
    ultimately show False
      using blk_base [of c j] by blast
  qed
qed

lemma coalesced_free_top:
  assumes "heap_inv s F {}" and "coalesced (set (zone_list s)) F"
    and "z \<in> set (zone_list s)" and "in_zone z (a, k)" and "(a, k) \<in> free_set F"
  shows "k = z_order z"
proof -
  have "MIN_ORDER \<le> z_order z"
    using heap_invD(4) [OF assms(1)] assms(3) by (auto simp: zones_ok_def)
  then have top: "in_zone z (z_base z, z_order z)" by (rule in_zone_self)
  have "\<exists>d i. (d, i) \<in> free_set F \<and> x \<in> blk (d, i)" if "x \<in> blk (z_base z, z_order z)" for x
    using heap_inv_cover [OF assms(1,3), of x] that unfolding zblk_def by (metis Un_empty_right)
  from coalesced_region [OF assms(1-3) top this]
  obtain d i where d: "(d, i) \<in> free_set F" "in_zone z (d, i)" "zblk z \<subseteq> blk (d, i)"
    by (auto simp: zblk_def)
  have "a \<in> blk (d, i)"
    using in_zone_blk_subset [OF assms(4)] d(3) blk_base [of a k] by blast
  with tilingD_disjoint [OF heap_invD(6) [OF assms(1)], of "(a, k)" "(d, i)"] assms(5) d(1) blk_base [of a k]
  have e: "(a, k) = (d, i)" by blast
  have "z_order z \<le> i"
    using blk_subset_order(2) d(3) unfolding zblk_def by blast
  with d(2) e show ?thesis by (auto elim: in_zoneE)
qed

lemma coalesced_all_free:
  assumes "heap_inv s F {}" and "coalesced (set (zone_list s)) F"
  shows "free_set F = (\<lambda>z. (z_base z, z_order z)) ` set (zone_list s)"
proof -
  note inv = heap_invD [OF assms(1)]
  have top: "(a, k) = (z_base z, z_order z)"
    if "z \<in> set (zone_list s)" "in_zone z (a, k)" "(a, k) \<in> free_set F" for z a k
    using coalesced_free_top [OF assms that] that(2) by (auto elim!: in_zoneE)
  show ?thesis
  proof (intro equalityI subsetI)
    fix x assume x: "x \<in> free_set F"
    obtain a k where e: "x = (a, k)" by (cases x)
    obtain z where "z \<in> set (zone_list s)" "in_zone z (a, k)"
      by (rule heap_inv_zone [OF assms(1), of a k]) (use x e in auto)
    with top x e show "x \<in> (\<lambda>z. (z_base z, z_order z)) ` set (zone_list s)"
      by blast
  next
    fix x assume "x \<in> (\<lambda>z. (z_base z, z_order z)) ` set (zone_list s)"
    then obtain z where z: "z \<in> set (zone_list s)" "x = (z_base z, z_order z)" by blast
    have zb: "z_base z \<in> zblk z" by (simp add: zblk_def)
    then obtain d i where d: "(d, i) \<in> free_set F" "z_base z \<in> blk (d, i)"
      using heap_inv_cover [OF assms(1) z(1)] by (metis Un_empty_right)
    obtain y where y: "y \<in> set (zone_list s)" "in_zone y (d, i)"
      by (rule heap_inv_zone [OF assms(1), of d i]) (use d in auto)
    have "z_base z \<in> zblk y"
      using in_zone_blk_subset [OF y(2)] d(2) by blast
    with y z(1) zb inv(4) have "y = z"
      unfolding zones_ok_def by blast
    with top [OF y d(1)] d(1) z(2) show "x \<in> free_set F" by simp
  qed
qed

end
