(* ===== verification/Buddy_System.thy ===== *)
theory Buddy_System
  imports Buddy_Correct
begin

text \<open>
  The heap as its clients see it: \<open>init\<close> carves the zones out of the heap range, and the
  kernel then allocates, frees and writes to the memory it holds, in any order. The
  theorems hold in every state reachable that way.
\<close>

section \<open>Initialization\<close>

lemma mod_diff_dvd: "(d::nat) dvd b \<Longrightarrow> b \<le> a \<Longrightarrow> (a - b) mod d = a mod d"
  by (metis add_0_right dvd_imp_mod_0 le_add_diff_inverse2 mod_add_right_eq)

lemma largest_order_from_ge: "order \<le> largest_order_from sz order"
proof (induction sz order rule: largest_order_from.induct)
  case (1 sz order)
  then show ?case
    by (subst largest_order_from.simps) auto
qed

lemma fit_order_spec:
  assumes "MIN_ORDER \<le> order"
  shows "MIN_ORDER \<le> fit_order addr rem order" and "fit_order addr rem order \<le> order"
    and "fit_order addr rem order = MIN_ORDER
      \<or> 2 ^ fit_order addr rem order \<le> rem \<and> addr mod 2 ^ fit_order addr rem order = 0"
  using assms
proof (induction addr rem order rule: fit_order.induct)
  case (1 addr rem order)
  {
    case 1
    with "1.IH"(1) show ?case by (subst fit_order.simps) auto
  next
    case 2
    with "1.IH"(2) show ?case by (subst fit_order.simps) force
  next
    case 3
    with "1.IH"(3) show ?case
      by (cases "MIN_ORDER < order \<and> (rem < 2 ^ order \<or> addr mod 2 ^ order \<noteq> 0)")
        (auto simp: fit_order.simps [of addr rem order])
  }
qed

text \<open>While \<open>init\<close> runs, the zones found so far cover the range up to \<open>addr\<close>, and each is
  one free block.\<close>

definition zone_block :: "zone \<Rightarrow> block" where
  "zone_block z = (z_base z, z_order z)"

definition init_inv :: "nat \<Rightarrow> nat \<Rightarrow> buddy \<Rightarrow> (nat \<Rightarrow> nat list) \<Rightarrow> bool" where
  "init_inv start addr s F \<longleftrightarrow> lists_ok s F \<and> length (zones s) = MAX_ZONES
     \<and> zone_count s \<le> MAX_ZONES \<and> max_order s \<le> MAX_ORDER
     \<and> zones_ok (max_order s) (set (zone_list s))
     \<and> free_set F = zone_block ` set (zone_list s)
     \<and> (\<Union>z\<in>set (zone_list s). zblk z) = {start..<addr}"

lemma zone_list_snoc:
  assumes "zone_count s < length (zones s)"
  shows "zone_list (s\<lparr>zones := (zones s)[zone_count s := Some z], zone_count := zone_count s + 1,
      max_order := m\<rparr>) = zone_list s @ [z]"
  using assms by (simp add: zone_list_def take_Suc_conv_app_nth map_filter_def)

lemma zones_ok_snoc:
  assumes "zones_ok m Z" and "(\<Union>z\<in>Z. zblk z) = {start..<addr}" and "0 < addr"
    and "MIN_ORDER \<le> k" and "addr mod 2 ^ k = 0" and "start \<le> addr"
  shows "zones_ok (max m k) (insert \<lparr>z_base = addr, z_order = k\<rparr> Z)"
    and "(\<Union>z\<in>insert \<lparr>z_base = addr, z_order = k\<rparr> Z. zblk z) = {start..<addr + 2 ^ k}"
proof -
  let ?z = "\<lparr>z_base = addr, z_order = k\<rparr>"
  have z: "zblk ?z = {addr..<addr + 2 ^ k}"
    by (simp add: zblk_def blk_def)
  have dis: "zblk y \<inter> zblk ?z = {}" if "y \<in> Z" for y
  proof -
    from that assms(2) have "zblk y \<subseteq> {start..<addr}" by blast
    then show ?thesis unfolding z by fastforce
  qed
  have "2 ^ k dvd addr"
    using assms(5) by (rule mod_0_imp_dvd)
  with assms(1,3,4) dis show "zones_ok (max m k) (insert ?z Z)"
    by (auto simp: zones_ok_def)
  show "(\<Union>z\<in>insert ?z Z. zblk z) = {start..<addr + 2 ^ k}"
    using assms(2,6) z by auto
qed

lemma init_inv_step:
  assumes "init_inv start addr s F" and "zone_count s < MAX_ZONES"
    and "0 < addr" and "start \<le> addr" and "valid_order k" and "addr mod 2 ^ k = 0"
  obtains s' F' where "push_free_block addr k
      (s\<lparr>zones := (zones s)[zone_count s := Some \<lparr>z_base = addr, z_order = k\<rparr>],
         zone_count := zone_count s + 1, max_order := max (max_order s) k\<rparr>) = (Ok (), s')"
    and "init_inv start (addr + 2 ^ k) s' F'" and "zone_count s' = zone_count s + 1"
    and "zone_list s' = zone_list s @ [\<lparr>z_base = addr, z_order = k\<rparr>]"
proof -
  let ?z = "\<lparr>z_base = addr, z_order = k\<rparr>"
  let ?s = "s\<lparr>zones := (zones s)[zone_count s := Some ?z], zone_count := zone_count s + 1,
              max_order := max (max_order s) k\<rparr>"
  have i: "lists_ok s F" "length (zones s) = MAX_ZONES" "max_order s \<le> MAX_ORDER"
      "zones_ok (max_order s) (set (zone_list s))" "free_set F = zone_block ` set (zone_list s)"
      "(\<Union>z\<in>set (zone_list s). zblk z) = {start..<addr}"
    using assms(1) by (auto simp: init_inv_def)
  have zl: "zone_list ?s = zone_list s @ [?z]"
    using assms(2) i(2) by (intro zone_list_snoc) simp
  have ok: "lists_ok ?s F"
    using i(1) by (simp add: lists_ok_def)
  have "addr \<notin> set (F l)" if "valid_order l" for l
  proof
    assume "addr \<in> set (F l)"
    with that have "(addr, l) \<in> free_set F" by simp
    then obtain z where "z \<in> set (zone_list s)" "z_base z = addr"
      unfolding i(5) by (auto simp: zone_block_def)
    then have "addr \<in> (\<Union>z\<in>set (zone_list s). zblk z)"
      by (auto simp: zblk_def)
    with i(6) show False by simp
  qed
  then obtain s' where s': "push_free_block addr k ?s = (Ok (), s')"
      "lists_ok s' (F(k := addr # F k))" "same_meta ?s s'"
    using push_free_block_spec [OF ok assms(5), of addr] assms(3) by (metis not_gr_zero)
  have zl': "zone_list s' = zone_list s @ [?z]"
    using same_meta_zone_list [OF s'(3)] zl by simp
  have fs: "free_set (F(k := addr # F k)) = insert (addr, k) (free_set F)"
    using assms(5) by (auto simp: free_set_def)
  have "MIN_ORDER \<le> k" "k \<le> MAX_ORDER"
    using assms(5) by (auto simp: valid_order_def)
  note zs = zones_ok_snoc [OF i(4,6) assms(3) this(1) assms(6,4)] and this(2)
  moreover have "max_order s' = max (max_order s) k" "zones s' = zones ?s"
      "zone_count s' = zone_count s + 1"
    using s'(3) by (auto simp: same_meta_def)
  ultimately have "init_inv start (addr + 2 ^ k) s' (F(k := addr # F k))"
    unfolding init_inv_def zl'
    using s'(2) i(2,3,5) assms(2) by (simp add: fs zone_block_def)
  with s'(1) zl' \<open>zone_count s' = _\<close> that show thesis
    by blast
qed

text \<open>The loop covers all of the range but less than one smallest block, or runs out of
  zone slots.\<close>

lemma init_loop_spec:
  assumes "init_inv start addr s F" and "0 < addr" and "start \<le> addr"
    and "addr mod 2 ^ MIN_ORDER = 0" and "MIN_ORDER \<le> heap_max" and "heap_max \<le> MAX_ORDER"
  shows "(\<exists>s' F'. init_loop heap_max addr remaining s = (Ok (), s')
        \<and> init_inv start (addr + (remaining - remaining mod 2 ^ MIN_ORDER)) s' F')
     \<or> (\<exists>s'. init_loop heap_max addr remaining s = (Panic, s') \<and> zone_count s' = MAX_ZONES)"
  using assms
proof (induction remaining arbitrary: addr s F rule: less_induct)
  case (less remaining)
  show ?case
  proof (cases "2 ^ MIN_ORDER \<le> remaining")
    case False
    with less.prems show ?thesis
      by (subst init_loop.simps) auto
  next
    case True
    define k where "k = fit_order addr remaining (min heap_max (largest_order_for remaining))"
    have "MIN_ORDER \<le> min heap_max (largest_order_for remaining)"
      using less.prems(5) largest_order_from_ge [of MIN_ORDER] by (simp add: largest_order_for_def)
    note fit = fit_order_spec [OF this, of addr remaining, folded k_def]
    have k: "MIN_ORDER \<le> k" "k \<le> MAX_ORDER" "2 ^ k \<le> remaining" "addr mod 2 ^ k = 0"
      using fit True less.prems(4,6) by auto
    show ?thesis
    proof (cases "zone_count s < MAX_ZONES")
      case False
      then have "init_loop heap_max addr remaining s = (Panic, s)"
        using True k(3,4) by (subst init_loop.simps) (simp add: Let_def flip: k_def)
      with False less.prems(1) show ?thesis
        by (auto simp: init_inv_def)
    next
      case zc: True
      have vk: "valid_order k" using k by (simp add: valid_order_def)
      obtain s' F' where s': "push_free_block addr k
          (s\<lparr>zones := (zones s)[zone_count s := Some \<lparr>z_base = addr, z_order = k\<rparr>],
             zone_count := zone_count s + 1, max_order := max (max_order s) k\<rparr>) = (Ok (), s')"
        "init_inv start (addr + 2 ^ k) s' F'"
        by (rule init_inv_step [OF less.prems(1) zc less.prems(2,3) vk k(4)])
      have e: "init_loop heap_max addr remaining s
          = init_loop heap_max (addr + 2 ^ k) (remaining - 2 ^ k) s'"
        using True k(3,4) zc s'(1)
        by (subst init_loop.simps) (simp add: Let_def flip: k_def)
      have "(2::nat) ^ MIN_ORDER dvd 2 ^ k"
        using k(1) by (rule le_imp_power_dvd)
      then have m: "(addr + 2 ^ k) mod 2 ^ MIN_ORDER = 0"
          "(remaining - 2 ^ k) mod 2 ^ MIN_ORDER = remaining mod 2 ^ MIN_ORDER"
        using less.prems(4) k(3) by (auto simp: mod_diff_dvd)
      have "remaining - 2 ^ k < remaining"
        using k(3) zero_less_power [of "2::nat" k] by linarith
      note IH = less.IH [OF this s'(2) _ _ m(1) less.prems(5,6)]
      have "remaining mod 2 ^ MIN_ORDER \<le> remaining - 2 ^ k"
        using mod_less_eq_dividend [of "remaining - 2 ^ k"] m(2) by metis
      then have "addr + 2 ^ k + (remaining - 2 ^ k - remaining mod 2 ^ MIN_ORDER)
          = addr + (remaining - remaining mod 2 ^ MIN_ORDER)"
        using k(3) by simp
      with IH m(2) less.prems(2,3) show ?thesis
        unfolding e by simp
    qed
  qed
qed

text \<open>A range of zones that are free as a whole is a heap with nothing allocated.\<close>

lemma init_inv_heap_inv:
  assumes "init_inv start addr s F"
  shows "heap_inv (s\<lparr>initialized := True\<rparr>) F {}"
    and "coalesced (set (zone_list s)) F"
proof -
  let ?Z = "set (zone_list s)"
  have i: "lists_ok s F" "max_order s \<le> MAX_ORDER" "zones_ok (max_order s) ?Z"
      "free_set F = zone_block ` ?Z"
    using assms by (auto simp: init_inv_def)
  have z: "in_zone z (zone_block z)" "blk (zone_block z) = zblk z" if "z \<in> ?Z" for z
    using that i(3) by (auto simp: zone_block_def zblk_def zones_ok_def intro: in_zone_self)
  have dis: "y = z" if "y \<in> ?Z" "z \<in> ?Z" "x \<in> zblk y" "x \<in> zblk z" for x y z
    using that i(3) unfolding zones_ok_def by blast
  have "tiling ?Z (free_set F)"
  proof -
    have "zone_block y = zone_block x" if "x \<in> ?Z" "y \<in> ?Z" "zblk x \<inter> zblk y \<noteq> {}" for x y
      using dis that by blast
    then show ?thesis
      unfolding tiling_def i(4) using z by (auto intro!: bexI)
  qed
  with i show "heap_inv (s\<lparr>initialized := True\<rparr>) F {}"
    by (simp add: heap_inv_def zone_list_def lists_ok_def)
  show "coalesced ?Z F"
    unfolding coalesced_def
  proof (intro ballI allI impI)
    fix y a k b
    assume y: "y \<in> ?Z" "in_zone y (a, k)" "k < z_order y" and a: "a \<in> set (F k)"
    have "valid_order k"
      using y i(2,3) by (auto simp: in_zone_def zones_ok_def valid_order_def)
    with a have "(a, k) \<in> free_set F" by simp
    then obtain x where x: "x \<in> ?Z" "(a, k) = zone_block x"
      unfolding i(4) by blast
    have "a \<in> zblk y" "a \<in> zblk x"
      using in_zone_blk_subset [OF y(2)] z(2) [OF x(1)] blk_base [of a k] x(2) by auto
    with dis x y(1) have "x = y" by blast
    with x(2) y(3) have False by (simp add: zone_block_def)
    then show "b \<notin> set (F k)" ..
  qed
qed

lemma buddy_init_cases:
  assumes "0 < start" and "start mod 2 ^ MIN_ORDER = 0" and "2 ^ MIN_ORDER \<le> sz"
  obtains (ok) s' F where "buddy_init start sz s = (Ok (), s')" "heap_inv s' F {}"
      "coalesced (set (zone_list s')) F"
      "(\<Union>z\<in>set (zone_list s'). zblk z) = {start..<start + (sz - sz mod 2 ^ MIN_ORDER)}"
  | (panic) s' where "buddy_init start sz s = (Panic, s')" "zone_count s' = MAX_ZONES"
proof -
  let ?s = "s\<lparr>free_lists := replicate ORDER_COUNT 0, zones := replicate MAX_ZONES None,
              zone_count := 0, max_order := MIN_ORDER\<rparr>"
  have "init_inv start start ?s (\<lambda>_. [])"
    by (auto simp: init_inv_def lists_ok_def zone_list_def zones_ok_def free_set_def
        map_filter_def valid_order_def)
  moreover have "MIN_ORDER \<le> min (largest_order_for sz) MAX_ORDER" "min (largest_order_for sz) MAX_ORDER \<le> MAX_ORDER"
    using largest_order_from_ge [of MIN_ORDER] by (auto simp: largest_order_for_def)
  ultimately consider
      (1) s' F where "init_loop (min (largest_order_for sz) MAX_ORDER) start sz ?s = (Ok (), s')"
        "init_inv start (start + (sz - sz mod 2 ^ MIN_ORDER)) s' F"
    | (2) s' where "init_loop (min (largest_order_for sz) MAX_ORDER) start sz ?s = (Panic, s')"
        "zone_count s' = MAX_ZONES"
    using init_loop_spec assms(1,2) by (metis order_refl)
  then show thesis
  proof cases
    case 1
    have "zone_list (s'\<lparr>initialized := True\<rparr>) = zone_list s'"
      by (simp add: zone_list_def)
    moreover have "buddy_init start sz s = (Ok (), s'\<lparr>initialized := True\<rparr>)"
      using assms 1(1) by (simp add: buddy_init_def bindR_def)
    ultimately show thesis
      using init_inv_heap_inv [OF 1(2)] 1(2)
      by (intro ok [of "s'\<lparr>initialized := True\<rparr>" F]) (simp_all add: init_inv_def)
  next
    case 2
    then show thesis
      using assms by (intro panic) (simp_all add: buddy_init_def bindR_def)
  qed
qed

section \<open>The heap and its clients\<close>

definition valid_layout :: "layout \<Rightarrow> bool" where
  "valid_layout l \<longleftrightarrow> (\<exists>i. l_align l = 2 ^ i)"

type_synonym live = "nat \<rightharpoonup> layout" \<comment> \<open>the allocations held, with the layout they were made for\<close>

definition live_blocks :: "live \<Rightarrow> block set" where
  "live_blocks live = {(p, k). \<exists>l. live p = Some l \<and> layout_order l = Some k}"

definition held :: "nat \<Rightarrow> layout \<Rightarrow> nat set" where
  "held p l = {p..<p + l_size l}"

text \<open>A client may write anything to the memory it holds: the eight bytes of a word that
  overlap it may change.\<close>

inductive heap_step :: "buddy \<times> live \<Rightarrow> buddy \<times> live \<Rightarrow> bool" where
  step_alloc: "valid_layout l \<Longrightarrow> buddy_alloc l s = (Ok p, s') \<Longrightarrow> p \<noteq> 0 \<Longrightarrow>
    heap_step (s, live) (s', live(p \<mapsto> l))"
| step_oom: "buddy_alloc l s = (Ok 0, s') \<Longrightarrow> heap_step (s, live) (s', live)"
| step_dealloc: "live p = Some l \<Longrightarrow> buddy_dealloc p l s = (Ok (), s') \<Longrightarrow>
    heap_step (s, live) (s', live(p := None))"
| step_write: "(\<And>x. nx x \<noteq> next_of s x \<Longrightarrow> \<exists>p l. live p = Some l \<and> {x..<x + 8} \<inter> held p l \<noteq> {}) \<Longrightarrow>
    heap_step (s, live) (s\<lparr>next_of := nx\<rparr>, live)"

inductive_cases heap_stepE: "heap_step (s, live) (s', live')"

definition sys_inv :: "buddy \<times> live \<Rightarrow> (nat \<Rightarrow> nat list) \<Rightarrow> bool" where
  "sys_inv c F \<longleftrightarrow> heap_inv (fst c) F (live_blocks (snd c))
     \<and> coalesced (set (zone_list (fst c))) F
     \<and> (\<forall>p l. snd c p = Some l \<longrightarrow> valid_layout l \<and> layout_order l \<noteq> None)"

lemma sys_invD:
  assumes "sys_inv (s, live) F"
  shows "heap_inv s F (live_blocks live)" and "coalesced (set (zone_list s)) F"
    and "live p = Some l \<Longrightarrow> valid_layout l"
    and "live p = Some l \<Longrightarrow> \<exists>k. layout_order l = Some k \<and> (p, k) \<in> live_blocks live"
  using assms by (auto simp: sys_inv_def live_blocks_def)

lemma held_subset_blk: "layout_order l = Some k \<Longrightarrow> held p l \<subseteq> blk (p, k)"
  using order_for_size_spec(2) [of "max (l_size l) (l_align l)" k]
  by (auto simp: layout_order_def held_def)

text \<open>\<open>alloc\<close> succeeds exactly when some free block is large enough.\<close>

lemma buddy_alloc_inv:
  assumes "heap_inv s F L" and "coalesced (set (zone_list s)) F"
  shows "(\<exists>p k s' F'. buddy_alloc l s = (Ok p, s') \<and> p \<noteq> 0 \<and> layout_order l = Some k \<and> (p, k) \<notin> L
        \<and> heap_inv s' F' (insert (p, k) L) \<and> coalesced (set (zone_list s')) F' \<and> same_meta s s'
        \<and> (\<exists>j\<ge>k. j \<le> max_order s \<and> F j \<noteq> []))
     \<or> (buddy_alloc l s = (Ok 0, s)
        \<and> (layout_order l = None \<or> (\<exists>k. layout_order l = Some k \<and> (\<forall>j\<ge>k. j \<le> max_order s \<longrightarrow> F j = []))))"
proof (cases "layout_order l")
  case None
  then show ?thesis
    using heap_invD(1) [OF assms(1)] by (simp add: buddy_alloc_def layout_order_def)
next
  case (Some k)
  then have k: "MIN_ORDER \<le> k"
    using order_for_size_spec(1) by (simp add: layout_order_def valid_order_def)
  have e: "buddy_alloc l s = bindR (allocate_order k)
      (\<lambda>r. returnR (case r of Some addr \<Rightarrow> addr | None \<Rightarrow> 0)) s"
    using Some heap_invD(1) [OF assms(1)] by (simp add: buddy_alloc_def layout_order_def)
  show ?thesis
    using assms(1) k
  proof (cases rule: allocate_order_cases)
    case (some j a xs s')
    have "a \<noteq> 0"
      using heap_inv_block(1) [OF some(7), of a k] by simp
    moreover have "coalesced (set (zone_list s')) (split_lists F k j a xs)"
      using coalesced_split [OF assms(2) some(3)] same_meta_zone_list [OF some(6)] by simp
    moreover have "buddy_alloc l s = (Ok a, s')"
      using e some(5) by (simp add: bindR_def)
    moreover have "\<exists>j\<ge>k. j \<le> max_order s \<and> F j \<noteq> []"
      using some(1-3) by (intro exI [of _ j]) simp
    ultimately show ?thesis
      using some(6-8) Some by blast
  next
    case none
    then show ?thesis
      using e Some by (simp add: bindR_def)
  qed
qed

lemma live_blocks_upd:
  assumes "layout_order l = Some k" and "live p = None"
  shows "live_blocks (live(p \<mapsto> l)) = insert (p, k) (live_blocks live)"
  using assms by (auto simp: live_blocks_def split: if_splits)

lemma live_blocks_remove:
  assumes "layout_order l = Some k" and "live p = Some l"
  shows "live_blocks live = insert (p, k) (live_blocks (live(p := None)))"
    and "(p, k) \<notin> live_blocks (live(p := None))"
  using assms by (auto simp: live_blocks_def split: if_splits)

lemma sys_inv_alloc:
  assumes "sys_inv (s, live) F" and "valid_layout l" and "buddy_alloc l s = (Ok p, s')" and "p \<noteq> 0"
  shows "live p = None" and "\<exists>F'. sys_inv (s', live(p \<mapsto> l)) F'" and "same_meta s s'"
proof -
  note inv = sys_invD [OF assms(1)]
  from buddy_alloc_inv [OF inv(1,2), of l] assms(3,4)
  obtain k F' where k: "layout_order l = Some k" "(p, k) \<notin> live_blocks live"
      "heap_inv s' F' (insert (p, k) (live_blocks live))" "coalesced (set (zone_list s')) F'"
    and "same_meta s s'"
    by auto
  then show "same_meta s s'" by simp
  show none: "live p = None"
  proof (rule ccontr)
    assume "live p \<noteq> None"
    then obtain j where "(p, j) \<in> live_blocks live"
      using inv(4) by blast
    with k(2,3) tiling_same_addr [OF heap_invD(6) [OF k(3)], of p j k] show False
      by auto
  qed
  have "sys_inv (s', live(p \<mapsto> l)) F'"
    using k(3,4) inv(3) k(1) assms(2)
    by (auto simp: sys_inv_def live_blocks_upd [where live = live, OF k(1) none] dest: inv(4))
  then show "\<exists>F'. sys_inv (s', live(p \<mapsto> l)) F'" by blast
qed

lemma sys_inv_dealloc:
  assumes "sys_inv (s, live) F" and "live p = Some l"
  shows "\<exists>s' F'. buddy_dealloc p l s = (Ok (), s') \<and> sys_inv (s', live(p := None)) F' \<and> same_meta s s'"
proof -
  note inv = sys_invD [OF assms(1)]
  obtain k where k: "layout_order l = Some k"
    using inv(4) [OF assms(2)] by blast
  note lb = live_blocks_remove [where live = live, OF k assms(2)]
  have "heap_inv s F (insert (p, k) (live_blocks (live(p := None))))"
    using inv(1) unfolding lb(1) [symmetric] .
  from buddy_dealloc_inv [OF this lb(2) inv(2) k]
  obtain s' F' where r: "buddy_dealloc p l s = (Ok (), s')" "same_meta s s'"
      "heap_inv s' F' (live_blocks (live(p := None)))" "coalesced (set (zone_list s')) F'"
    by blast
  have "sys_inv (s', live(p := None)) F'"
    using r(3,4) inv(3) by (auto simp: sys_inv_def dest: inv(4))
  with r(1,2) show ?thesis by blast
qed

lemma sys_inv_write:
  assumes "sys_inv (s, live) F"
    and "\<And>x. nx x \<noteq> next_of s x \<Longrightarrow> \<exists>p l. live p = Some l \<and> {x..<x + 8} \<inter> held p l \<noteq> {}"
  shows "sys_inv (s\<lparr>next_of := nx\<rparr>, live) F"
proof -
  note inv = sys_invD [OF assms(1)] and h = heap_invD [OF sys_invD(1) [OF assms(1)]]
  have "nx a = next_of s a" if a: "valid_order k" "a \<in> set (F k)" for a k
  proof (rule ccontr)
    assume "nx a \<noteq> next_of s a"
    then obtain p l where p: "live p = Some l" "{a..<a + 8} \<inter> held p l \<noteq> {}"
      using assms(2) by blast
    obtain j where j: "layout_order l = Some j" "(p, j) \<in> live_blocks live"
      using inv(4) [OF p(1)] by blast
    have "8 \<le> (2::nat) ^ k"
      using power_increasing [of MIN_ORDER k "2::nat"] a(1) by (simp add: valid_order_def)
    then have "{a..<a + 8} \<subseteq> blk (a, k)" by auto
    with p(2) held_subset_blk [OF j(1), of p] have "blk (a, k) \<inter> blk (p, j) \<noteq> {}"
      by blast
    moreover have "(a, k) \<in> free_set F" using a by simp
    ultimately show False
      using tilingD_disjoint [OF h(6), of "(a, k)" "(p, j)"] j(2) h(5) by blast
  qed
  then have "lists_ok (s\<lparr>next_of := nx\<rparr>) F"
    by (rule lists_ok_memory [OF h(2)])
  moreover have "zone_list (s\<lparr>next_of := nx\<rparr>) = zone_list s"
    by (simp add: zone_list_def)
  ultimately show ?thesis
    using assms(1) h by (simp add: sys_inv_def heap_inv_def)
qed

lemma heap_step_inv:
  assumes "heap_step c c'" and "\<exists>F. sys_inv c F"
  shows "\<exists>F. sys_inv c' F" and "zone_list (fst c') = zone_list (fst c)"
proof -
  obtain s live where c: "c = (s, live)" by (cases c)
  from assms(2) c obtain F where inv: "sys_inv (s, live) F" by blast
  have "(\<exists>F. sys_inv c' F) \<and> zone_list (fst c') = zone_list s"
    using assms(1) unfolding c
  proof (cases rule: heap_step.cases)
    case (step_alloc l p s')
    with sys_inv_alloc [OF inv step_alloc(2-4)] same_meta_zone_list show ?thesis by auto
  next
    case (step_oom l s')
    with buddy_alloc_inv [OF sys_invD(1,2) [OF inv], of l] have "s' = s" by auto
    with step_oom inv show ?thesis by auto
  next
    case (step_dealloc p l s')
    with sys_inv_dealloc [OF inv step_dealloc(2)] same_meta_zone_list show ?thesis by auto
  next
    case (step_write nx)
    with sys_inv_write [OF inv] have "sys_inv c' F" by blast
    with step_write show ?thesis by (auto simp: zone_list_def)
  qed
  then show "\<exists>F. sys_inv c' F" and "zone_list (fst c') = zone_list (fst c)"
    unfolding c by simp_all
qed

definition heap_reachable :: "nat \<Rightarrow> nat \<Rightarrow> buddy \<Rightarrow> live \<Rightarrow> bool" where
  "heap_reachable start sz s live \<longleftrightarrow> (\<exists>memory s0. buddy_init start sz (buddy_new memory) = (Ok (), s0)
     \<and> heap_step\<^sup>*\<^sup>* (s0, Map.empty) (s, live))"

lemma heap_steps_inv:
  assumes "heap_step\<^sup>*\<^sup>* c c'" and "\<exists>F. sys_inv c F"
  shows "(\<exists>F. sys_inv c' F) \<and> zone_list (fst c') = zone_list (fst c)"
  using assms by (induction rule: rtranclp_induct) (use heap_step_inv in \<open>auto; fail\<close>)+

lemma heap_reachable_inv:
  assumes "heap_reachable start sz s live" and "0 < start"
  obtains F where "sys_inv (s, live) F"
    and "(\<Union>z\<in>set (zone_list s). zblk z) = {start..<start + (sz - sz mod 2 ^ MIN_ORDER)}"
proof -
  obtain memory s0 where i: "buddy_init start sz (buddy_new memory) = (Ok (), s0)"
    and r: "heap_step\<^sup>*\<^sup>* (s0, Map.empty) (s, live)"
    using assms(1) by (auto simp: heap_reachable_def)
  have "start mod 2 ^ MIN_ORDER = 0" "2 ^ MIN_ORDER \<le> sz"
    using i by (auto simp: buddy_init_def split: if_splits)
  from buddy_init_cases [OF assms(2) this, of "buddy_new memory"] i
  obtain F where F: "heap_inv s0 F {}" "coalesced (set (zone_list s0)) F"
      "(\<Union>z\<in>set (zone_list s0). zblk z) = {start..<start + (sz - sz mod 2 ^ MIN_ORDER)}"
    by (metis Pair_inject res.distinct(3))
  then have "sys_inv (s0, Map.empty) F"
    by (simp add: sys_inv_def live_blocks_def)
  then obtain F' where "sys_inv (s, live) F'" "zone_list s = zone_list s0"
    using heap_steps_inv [OF r] by auto
  with F(3) that show thesis by metis
qed

lemmas buddy_eval = buddy_init_def buddy_new_def init_loop.simps fit_order.simps
  largest_order_for_def largest_order_from.simps push_free_block_def pop_free_block_def
  index_for_def bindR_def Let_def allocate_order.simps order_for_size_def
  order_for_size_from.simps buddy_alloc_def

section \<open>Properties\<close>

text \<open>C1: In every state the heap can reach, two allocations that are held never overlap, each
  is aligned as requested, and each lies in the heap range.\<close>

theorem heap_live_disjoint:
  assumes "heap_reachable start sz s live" and "0 < start" and "live p = Some l"
  shows "held p l \<subseteq> {start..<start + sz} \<and> l_align l dvd p
    \<and> (\<forall>q m. live q = Some m \<longrightarrow> q \<noteq> p \<longrightarrow> held p l \<inter> held q m = {})"
proof (intro conjI allI impI)
  obtain F where F: "sys_inv (s, live) F"
    and zones: "(\<Union>z\<in>set (zone_list s). zblk z) = {start..<start + (sz - sz mod 2 ^ MIN_ORDER)}"
    by (rule heap_reachable_inv [OF assms(1,2)])
  note inv = sys_invD [OF F] and h = heap_invD [OF sys_invD(1) [OF F]]
  obtain k where k: "layout_order l = Some k" "(p, k) \<in> live_blocks live"
    using inv(4) [OF assms(3)] by blast
  obtain z where z: "z \<in> set (zone_list s)" "in_zone z (p, k)"
    by (rule heap_inv_zone [OF inv(1), of p k]) (use k(2) in auto)
  have "held p l \<subseteq> (\<Union>z\<in>set (zone_list s). zblk z)"
    using held_subset_blk [OF k(1), of p] in_zone_blk_subset [OF z(2)] z(1) by blast
  then show "held p l \<subseteq> {start..<start + sz}"
    unfolding zones by (rule subset_trans) auto
  obtain i where i: "l_align l = 2 ^ i"
    using inv(3) [OF assms(3)] by (auto simp: valid_layout_def)
  have "l_align l \<le> 2 ^ k"
    using order_for_size_spec(2) [of "max (l_size l) (l_align l)" k] k(1) by (simp add: layout_order_def)
  then have "l_align l dvd 2 ^ k"
    unfolding i by (simp add: le_imp_power_dvd)
  then show "l_align l dvd p"
    using heap_inv_block(4) [OF inv(1), of p k] k(2) by (meson UnI2 dvd_trans)
  fix q m
  assume q: "live q = Some m" "q \<noteq> p"
  obtain j where j: "layout_order m = Some j" "(q, j) \<in> live_blocks live"
    using inv(4) [OF q(1)] by blast
  have "blk (p, k) \<inter> blk (q, j) = {}"
    using tilingD_disjoint [OF h(6)] k(2) j(2) q(2) by blast
  then show "held p l \<inter> held q m = {}"
    using held_subset_blk [OF k(1), of p] held_subset_blk [OF j(1), of q] by blast
qed

text \<open>C23: In every reachable state an allocation request returns, with a pointer or with null,
  and freeing an allocation that is held returns: no panic, and no endless walk along a
  free list.\<close>

theorem heap_operations_return:
  assumes "heap_reachable start sz s live" and "0 < start"
  shows "(\<exists>p s'. buddy_alloc l s = (Ok p, s'))
    \<and> (\<forall>q m. live q = Some m \<longrightarrow> (\<exists>s'. buddy_dealloc q m s = (Ok (), s')))"
proof (intro conjI allI impI)
  obtain F where F: "sys_inv (s, live) F"
    by (rule heap_reachable_inv [OF assms])
  show "\<exists>p s'. buddy_alloc l s = (Ok p, s')"
    using buddy_alloc_inv [OF sys_invD(1,2) [OF F], of l] by blast
  show "\<exists>s'. buddy_dealloc q m s = (Ok (), s')" if "live q = Some m" for q m
    using sys_inv_dealloc [OF F that] by blast
qed

text \<open>C13: Allocation is complete: null is returned only when the request is larger than the
  largest order, or when every aligned block of the request's order in every zone overlaps
  a block that is held. No free memory is lost to fragmentation that merging could undo.\<close>

theorem heap_alloc_complete:
  assumes "heap_reachable start sz s live" and "0 < start" and "buddy_alloc l s = (Ok 0, s')"
  shows "2 ^ MAX_ORDER < max (l_size l) (l_align l)
    \<or> (\<exists>k. layout_order l = Some k
        \<and> (\<forall>z\<in>set (zone_list s). \<forall>a. in_zone z (a, k) \<longrightarrow>
             (\<exists>b\<in>live_blocks live. blk (a, k) \<inter> blk b \<noteq> {})))"
proof (cases "layout_order l")
  case None
  then show ?thesis
    by (simp add: layout_order_def order_for_size_None)
next
  case (Some k)
  obtain F where F: "sys_inv (s, live) F"
    by (rule heap_reachable_inv [OF assms(1,2)])
  note inv = sys_invD [OF F] and h = heap_invD [OF sys_invD(1) [OF F]]
  have none: "\<forall>j\<ge>k. j \<le> max_order s \<longrightarrow> F j = []"
    using buddy_alloc_inv [OF inv(1,2), of l] assms(3) Some by auto
  have "\<exists>b\<in>live_blocks live. blk (a, k) \<inter> blk b \<noteq> {}"
    if z: "z \<in> set (zone_list s)" "in_zone z (a, k)" for z a
  proof (rule ccontr)
    assume free: "\<not> (\<exists>b\<in>live_blocks live. blk (a, k) \<inter> blk b \<noteq> {})"
    have "\<exists>d i. (d, i) \<in> free_set F \<and> x \<in> blk (d, i)" if x: "x \<in> blk (a, k)" for x
    proof -
      have "x \<in> zblk z" using in_zone_blk_subset [OF z(2)] x by blast
      then obtain d i where "(d, i) \<in> free_set F \<union> live_blocks live" "x \<in> blk (d, i)"
        by (rule heap_inv_cover [OF inv(1) z(1)])
      with free x show ?thesis by blast
    qed
    from coalesced_region [OF inv(1,2) z this]
    obtain d i where d: "(d, i) \<in> free_set F" "blk (a, k) \<subseteq> blk (d, i)" by blast
    have "k \<le> i" by (rule blk_subset_order(2) [OF d(2)])
    moreover have "i \<le> max_order s"
      using heap_inv_block(3) [OF inv(1), of d i] d(1) by simp
    ultimately show False
      using none d(1) by simp
  qed
  with Some show ?thesis by blast
qed

text \<open>When everything has been freed, whatever the order of the frees, the free lists hold
  exactly the zones \<open>init\<close> made: all splits have been merged again.\<close>

theorem heap_all_freed:
  assumes "heap_reachable start sz s Map.empty" and "0 < start"
  shows "\<exists>F. lists_ok s F \<and> free_set F = zone_block ` set (zone_list s)"
proof -
  obtain F where F: "sys_inv (s, Map.empty) F"
    by (rule heap_reachable_inv [OF assms])
  have "heap_inv s F {}"
    using sys_invD(1) [OF F] by (simp add: live_blocks_def)
  with coalesced_all_free [OF this sys_invD(2) [OF F]] show ?thesis
    by (auto simp: heap_inv_def zone_block_def [abs_def])
qed

text \<open>\<open>init\<close> on an aligned range either runs out of its 32 zone slots and panics, or covers
  the whole range, up to less than one smallest block at its end, with disjoint zones, each
  aligned to its size and free as one block.\<close>

theorem buddy_init_covers:
  assumes "0 < start" and "start mod 2 ^ MIN_ORDER = 0" and "2 ^ MIN_ORDER \<le> sz"
  shows "(\<exists>s' F. buddy_init start sz s = (Ok (), s') \<and> initialized s'
        \<and> lists_ok s' F \<and> free_set F = zone_block ` set (zone_list s')
        \<and> zones_ok (max_order s') (set (zone_list s'))
        \<and> (\<Union>z\<in>set (zone_list s'). zblk z) = {start..<start + (sz - sz mod 2 ^ MIN_ORDER)})
     \<or> (\<exists>s'. buddy_init start sz s = (Panic, s') \<and> zone_count s' = MAX_ZONES)"
  using assms
proof (cases rule: buddy_init_cases [where s = s])
  case (ok s' F)
  with coalesced_all_free [OF ok(2,3)] have "free_set F = zone_block ` set (zone_list s')"
    by (simp add: zone_block_def [abs_def])
  with ok heap_invD [OF ok(2)] show ?thesis by blast
next
  case (panic s')
  then show ?thesis by blast
qed

text \<open>The kernel's own heap, 100 MiB at \<open>HEAP_START\<close>, is initialized without a panic and has
  ten zones, the largest of 32 MiB: the start address is aligned to 256 KiB only, so the
  range is not split into one zone per bit of its size.\<close>

theorem kernel_heap_zones:
  "(case buddy_init HEAP_START HEAP_SIZE (buddy_new memory) of (r, s) \<Rightarrow> (r, map zone_block (zone_list s)))
   = (Ok (), [(0x444444440000, 18), (0x444444480000, 19), (0x444444500000, 20),
       (0x444444600000, 21), (0x444444800000, 23), (0x444445000000, 24), (0x444446000000, 25),
       (0x444448000000, 25), (0x44444a000000, 23), (0x44444a800000, 18)])"
proof -
  have slots: "replicate MAX_ZONES None = None # None # None # None # None # None # None # None
      # None # None # replicate 22 (None :: zone option)"
    by (simp add: numeral_eq_Suc)
  show ?thesis
    by (simp add: buddy_eval zone_list_def) (simp add: map_filter_def slots zone_block_def)
qed

section \<open>A small heap\<close>

text \<open>A heap of 192 bytes at address 64 has two zones, of 64 and of 128 bytes. Two
  allocations fill it.\<close>

definition small_heap :: buddy where
  "small_heap = snd (buddy_init 64 192 (buddy_new (\<lambda>_. 0)))"

definition layout_a :: layout where "layout_a = \<lparr>l_size = 40, l_align = 8\<rparr>"
definition layout_b :: layout where "layout_b = \<lparr>l_size = 100, l_align = 16\<rparr>"
definition layout_c :: layout where "layout_c = \<lparr>l_size = 200, l_align = 1\<rparr>"

definition small_heap_full :: buddy where
  "small_heap_full = snd (buddy_alloc layout_b (snd (buddy_alloc layout_a small_heap)))"

lemma small_heap_init: "buddy_init 64 192 (buddy_new (\<lambda>_. 0)) = (Ok (), small_heap)"
  unfolding small_heap_def by (simp add: buddy_eval)

lemma small_heap_alloc_a: "fst (buddy_alloc layout_a small_heap) = Ok 64"
  unfolding small_heap_def layout_a_def by (simp add: buddy_eval)

lemma small_heap_alloc_b:
  "buddy_alloc layout_b (snd (buddy_alloc layout_a small_heap)) = (Ok 128, small_heap_full)"
  unfolding small_heap_full_def small_heap_def layout_a_def layout_b_def by (simp add: buddy_eval)

lemma small_heap_alloc_c: "buddy_alloc layout_c small_heap = (Ok 0, small_heap)"
  unfolding small_heap_def layout_c_def by (simp add: buddy_eval)

lemma small_heap_reachable: "heap_reachable 64 192 small_heap Map.empty"
  unfolding heap_reachable_def using small_heap_init by blast

lemma small_heap_full_reachable:
  "heap_reachable 64 192 small_heap_full [64 \<mapsto> layout_a, 128 \<mapsto> layout_b]"
proof -
  have valid: "valid_layout layout_a" "valid_layout layout_b"
    by (auto simp: valid_layout_def layout_a_def layout_b_def intro: exI [of _ 3] exI [of _ 4])
  have "buddy_alloc layout_a small_heap = (Ok 64, snd (buddy_alloc layout_a small_heap))"
    by (metis prod.collapse small_heap_alloc_a)
  then have "heap_step (small_heap, Map.empty) (snd (buddy_alloc layout_a small_heap), [64 \<mapsto> layout_a])"
    using step_alloc [OF valid(1)] by simp
  moreover have "heap_step (snd (buddy_alloc layout_a small_heap), [64 \<mapsto> layout_a])
      (small_heap_full, [64 \<mapsto> layout_a, 128 \<mapsto> layout_b])"
    using step_alloc [OF valid(2) small_heap_alloc_b] by simp
  ultimately show ?thesis
    unfolding heap_reachable_def using small_heap_init by (blast intro: rtranclp.intros)
qed

theorem heap_live_disjoint_witness:
  "heap_reachable 64 192 small_heap_full [64 \<mapsto> layout_a, 128 \<mapsto> layout_b]
   \<and> held 64 layout_a \<inter> held 128 layout_b = {} \<and> l_align layout_b dvd 128"
  using heap_live_disjoint [OF small_heap_full_reachable, of 64 layout_a]
    heap_live_disjoint [OF small_heap_full_reachable, of 128 layout_b] small_heap_full_reachable
  by simp

theorem heap_operations_return_witness:
  "(\<exists>p s'. buddy_alloc layout_c small_heap_full = (Ok p, s'))
   \<and> (\<exists>s'. buddy_dealloc 64 layout_a small_heap_full = (Ok (), s'))"
  using heap_operations_return [OF small_heap_full_reachable, of layout_c] by simp

theorem heap_alloc_complete_witness:
  "buddy_alloc layout_c small_heap = (Ok 0, small_heap)
   \<and> (2 ^ MAX_ORDER < max (l_size layout_c) (l_align layout_c)
    \<or> (\<exists>k. layout_order layout_c = Some k
        \<and> (\<forall>z\<in>set (zone_list small_heap). \<forall>a. in_zone z (a, k) \<longrightarrow>
             (\<exists>b\<in>live_blocks Map.empty. blk (a, k) \<inter> blk b \<noteq> {}))))"
  using heap_alloc_complete [OF small_heap_reachable _ small_heap_alloc_c] small_heap_alloc_c by simp

theorem heap_all_freed_witness:
  "\<exists>F. lists_ok small_heap F \<and> free_set F = zone_block ` set (zone_list small_heap)"
  using heap_all_freed [OF small_heap_reachable] by simp

theorem buddy_init_covers_witness:
  "\<exists>F. lists_ok small_heap F \<and> free_set F = zone_block ` set (zone_list small_heap)
     \<and> (\<Union>z\<in>set (zone_list small_heap). zblk z) = {64..<256}"
proof -
  have "\<exists>s' F. buddy_init 64 192 (buddy_new (\<lambda>_. 0)) = (Ok (), s') \<and> initialized s'
        \<and> lists_ok s' F \<and> free_set F = zone_block ` set (zone_list s')
        \<and> zones_ok (max_order s') (set (zone_list s'))
        \<and> (\<Union>z\<in>set (zone_list s'). zblk z) = {64..<64 + (192 - 192 mod 2 ^ MIN_ORDER)}"
    using buddy_init_covers [of 64 192 "buddy_new (\<lambda>_. 0)"] small_heap_init by simp
  then show ?thesis
    using small_heap_init by auto
qed

end
