(* ===== verification/Frame.thy ===== *)
theory Frame
  imports Free_Stack
begin

text \<open>
  The physical frame allocator (\<^verbatim>\<open>src/kmem/frame.rs\<close>): freed frames come from an intrusive
  list, fresh ones from the boot loader's memory map, skipping reserved ranges. Physical
  memory is read and written through the direct map, the store \<open>phys_mem\<close> over virtual
  addresses. \<open>PhysFrame::containing_address(PhysAddr::new(a))\<close> belongs to the \<open>x86_64\<close>
  crate and is the parameter \<open>containing\<close>, with \<open>None\<close> for its panic.
\<close>

section \<open>The allocator\<close>

abbreviation FRAME_SIZE :: nat where "FRAME_SIZE \<equiv> 4096"
abbreviation MAX_RESERVED_RANGES :: nat where "MAX_RESERVED_RANGES \<equiv> 32"
abbreviation FREE_LIST_END :: nat where "FREE_LIST_END \<equiv> 2 ^ 64 - 1"

record phys_range =
  r_start :: nat
  r_end :: nat

text \<open>The kinds of memory and the entries of the memory map of the \<open>limine\<close> crate.\<close>

datatype memmap_type = USABLE | RESERVED | ACPI_RECLAIMABLE | ACPI_NVS | BAD_MEMORY | BOOTLOADER_RECLAIMABLE
  | EXECUTABLE_AND_MODULES | FRAMEBUFFER | OTHER_TYPE nat

record entry =
  e_base :: nat
  e_length :: nat
  e_type :: memmap_type

definition e_usable :: "entry \<Rightarrow> bool" where
  "e_usable e \<longleftrightarrow> e_type e = USABLE"

record frame_allocator =
  memory_map :: "entry list"
  phys_mem_offset :: nat
  current_region :: nat
  next_frame :: nat
  reserved :: "phys_range option list"
  reserved_count :: nat
  free_list_head :: "nat option"
  phys_mem :: "nat \<Rightarrow> nat"

definition frame_new :: "entry list \<Rightarrow> nat \<Rightarrow> (nat \<Rightarrow> nat) \<Rightarrow> frame_allocator" where
  "frame_new mm off memory = \<lparr>memory_map = mm, phys_mem_offset = off, current_region = 0,
     next_frame = 0, reserved = replicate MAX_RESERVED_RANGES None, reserved_count = 0,
     free_list_head = None, phys_mem = memory\<rparr>"

definition align_up :: "nat \<Rightarrow> nat \<Rightarrow> (unit, nat) res" where
  "align_up v alignment =
     (if v + alignment \<ge> u64_limit then Panic
      else Ok ((v + alignment - 1) AND not64 (alignment - 1)))"

definition align_down :: "nat \<Rightarrow> nat \<Rightarrow> nat" where
  "align_down v alignment = v AND not64 (alignment - 1)"

text \<open>\<open>usable_memory\<close>: the sum of 64-bit lengths, which panics on overflow.\<close>

definition usable_memory :: "frame_allocator \<Rightarrow> (unit, nat) res" where
  "usable_memory s =
     (let total = sum_list (map e_length (filter e_usable (memory_map s)))
      in if total < u64_limit then Ok total else Panic)"

definition reserve :: "nat \<Rightarrow> nat \<Rightarrow> (frame_allocator, unit, unit) prog" where
  "reserve start sz = (\<lambda>s.
     case checked_add start sz of
       None \<Rightarrow> (Panic, s)
     | Some e \<Rightarrow>
         if \<not> reserved_count s < MAX_RESERVED_RANGES then (Panic, s)
         else (Ok (), s\<lparr>reserved := (reserved s)[reserved_count s := Some \<lparr>r_start = start, r_end = e\<rparr>],
                        reserved_count := reserved_count s + 1\<rparr>))"

definition phys_to_virt :: "frame_allocator \<Rightarrow> nat \<Rightarrow> nat" where
  "phys_to_virt s phys = phys_mem_offset s + phys"

text \<open>\<open>free_frame_count\<close> walks the list; \<open>None\<close> when the list is cyclic.\<close>

partial_function (option) count_frames :: "(nat \<Rightarrow> nat) \<Rightarrow> nat option \<Rightarrow> nat \<Rightarrow> nat option" where
  "count_frames nx current count =
     (case current of
        None \<Rightarrow> Some count
      | Some frame \<Rightarrow>
          count_frames nx (if nx frame = FREE_LIST_END then None else Some (nx frame)) (count + 1))"

definition free_frame_count :: "frame_allocator \<Rightarrow> nat option" where
  "free_frame_count s = count_frames (\<lambda>f. phys_mem s (phys_to_virt s f)) (free_list_head s) 0"

definition reserved_list :: "frame_allocator \<Rightarrow> phys_range list" where
  "reserved_list s = List.map_filter id (take (reserved_count s) (reserved s))"

definition is_reserved :: "frame_allocator \<Rightarrow> nat \<Rightarrow> bool" where
  "is_reserved s frame = list_ex (\<lambda>r. frame \<ge> r_start r \<and> frame < r_end r) (reserved_list s)"

text \<open>One pass of \<open>skip_reserved\<close> over the ranges: the frame and whether it advanced.\<close>

primrec skip_pass :: "phys_range list \<Rightarrow> nat \<times> bool \<Rightarrow> (unit, nat \<times> bool) res" where
  "skip_pass [] fa = Ok fa"
| "skip_pass (r # rs) fa =
     (if fst fa \<ge> r_start r \<and> fst fa < r_end r then
        (case align_up (r_end r) FRAME_SIZE of
           Ok past_end \<Rightarrow> skip_pass rs (if past_end > fst fa then (past_end, True) else fa)
         | Err e \<Rightarrow> Err e | Panic \<Rightarrow> Panic | Hang \<Rightarrow> Hang)
      else skip_pass rs fa)"

lemma align_up_frame:
  "align_up v FRAME_SIZE =
     (if v + FRAME_SIZE \<ge> u64_limit then Panic else Ok ((v + (FRAME_SIZE - 1)) div FRAME_SIZE * FRAME_SIZE))"
proof (cases "v + FRAME_SIZE \<ge> u64_limit")
  case False
  with and_not64_mask [of 12 "v + 4095"] show ?thesis
    by (simp add: align_up_def add.commute)
qed (simp add: align_up_def)

lemma align_down_frame: "v < u64_limit \<Longrightarrow> align_down v FRAME_SIZE = v div FRAME_SIZE * FRAME_SIZE"
  using and_not64_mask [of 12 v] by (simp add: align_down_def)

lemma align_up_frame_ge: "align_up v FRAME_SIZE = Ok w \<Longrightarrow> v \<le> w"
  by (auto simp: align_up_frame split: if_splits)

text \<open>The ranges that end beyond the frame: each pass that advances leaves one behind.\<close>

definition ranges_ahead :: "phys_range list \<Rightarrow> nat \<Rightarrow> nat" where
  "ranges_ahead rs frame = length (filter (\<lambda>r. frame < r_end r) rs)"

lemma skip_pass_mono: "skip_pass rs fa = Ok (f', adv') \<Longrightarrow> fst fa \<le> f' \<and> (snd fa \<longrightarrow> adv')"
proof (induction rs arbitrary: fa)
  case Nil
  then show ?case by auto
next
  case (Cons r rs)
  show ?case
  proof (cases "fst fa \<ge> r_start r \<and> fst fa < r_end r")
    case False
    then have "skip_pass rs fa = Ok (f', adv')" using Cons.prems by (simp split: if_splits)
    then show ?thesis by (rule Cons.IH)
  next
    case True
    with Cons.prems obtain w where w: "align_up (r_end r) FRAME_SIZE = Ok w"
      "skip_pass rs (if w > fst fa then (w, True) else fa) = Ok (f', adv')"
      by (auto split: res.splits)
    with Cons.IH [OF w(2)] show ?thesis by (simp split: if_splits)
  qed
qed

lemma skip_pass_advanced:
  assumes "skip_pass rs (f, False) = Ok (f', True)"
  shows "\<exists>r\<in>set rs. f < r_end r \<and> r_end r \<le> f'"
  using assms
proof (induction rs)
  case Nil
  then show ?case by simp
next
  case (Cons r rs)
  show ?case
  proof (cases "f \<ge> r_start r \<and> f < r_end r")
    case False
    then have "skip_pass rs (f, False) = Ok (f', True)" using Cons.prems by (simp split: if_splits)
    with Cons.IH show ?thesis by auto
  next
    case True
    with Cons.prems obtain w where w: "align_up (r_end r) FRAME_SIZE = Ok w"
      "skip_pass rs (if w > f then (w, True) else (f, False)) = Ok (f', True)"
      by (auto split: res.splits)
    from align_up_frame_ge [OF w(1)] True have wf: "r_end r \<le> w" "f < w" by auto
    with w(2) skip_pass_mono [of rs "(w, True)" f' True] have "w \<le> f'" by simp
    with wf True show ?thesis by auto
  qed
qed

lemma ranges_ahead_less:
  assumes "r \<in> set rs" and "f < r_end r" and "r_end r \<le> f'"
  shows "ranges_ahead rs f' < ranges_ahead rs f"
proof -
  have imp: "f < r_end x" if "f' < r_end x" for x
    using assms(2,3) that by simp
  have "length (filter (\<lambda>x. f' < r_end x) rs) = length (filter (\<lambda>x. f' < r_end x) (filter (\<lambda>x. f < r_end x) rs))"
    unfolding filter_filter by (rule arg_cong [where f = length], rule filter_cong) (use imp in auto)
  also have "\<dots> < length (filter (\<lambda>x. f < r_end x) rs)"
    by (rule length_filter_less [where x = r]) (use assms in auto)
  finally show ?thesis by (simp add: ranges_ahead_def)
qed

function skip_ranges :: "phys_range list \<Rightarrow> nat \<Rightarrow> (unit, nat) res" where
  "skip_ranges rs frame =
     (case skip_pass rs (frame, False) of
        Ok (frame', advanced) \<Rightarrow> if advanced then skip_ranges rs frame' else Ok frame'
      | Err e \<Rightarrow> Err e | Panic \<Rightarrow> Panic | Hang \<Rightarrow> Hang)"
  by pat_completeness auto
termination
proof (relation "measure (\<lambda>(rs, frame). ranges_ahead rs frame)")
  fix rs frame x frame' advanced
  assume "skip_pass rs (frame, False) = Ok x" and "(frame', advanced) = x" and "advanced"
  then obtain r where "r \<in> set rs" "frame < r_end r" "r_end r \<le> frame'"
    using skip_pass_advanced [of rs frame frame'] by auto
  then show "((rs, frame'), rs, frame) \<in> measure (\<lambda>(rs, frame). ranges_ahead rs frame)"
    using ranges_ahead_less by auto
qed simp

declare skip_ranges.simps [simp del]

definition skip_reserved :: "frame_allocator \<Rightarrow> nat \<Rightarrow> (unit, nat) res" where
  "skip_reserved s frame = skip_ranges (reserved_list s) frame"

function next_usable_region :: "frame_allocator \<Rightarrow> entry option \<times> frame_allocator" where
  "next_usable_region s =
     (if current_region s < length (memory_map s) then
        (if e_usable (memory_map s ! current_region s) then (Some (memory_map s ! current_region s), s)
         else next_usable_region (s\<lparr>current_region := current_region s + 1, next_frame := 0\<rparr>))
      else (None, s))"
  by pat_completeness auto
termination
  by (relation "measure (\<lambda>s. length (memory_map s) - current_region s)") auto

declare next_usable_region.simps [simp del]

definition push_free_frame :: "nat \<Rightarrow> (frame_allocator, unit, unit) prog" where
  "push_free_frame frame = modifyR (\<lambda>s.
     let next = (case free_list_head s of Some h \<Rightarrow> h | None \<Rightarrow> FREE_LIST_END)
     in s\<lparr>phys_mem := (phys_mem s)(phys_to_virt s frame := next), free_list_head := Some frame\<rparr>)"

definition pop_free_frame :: "(frame_allocator, unit, nat option) prog" where
  "pop_free_frame = (\<lambda>s.
     case free_list_head s of
       None \<Rightarrow> (Ok None, s)
     | Some frame \<Rightarrow>
         let next = phys_mem s (phys_to_virt s frame)
         in (Ok (Some frame),
             s\<lparr>free_list_head := (if next = FREE_LIST_END then None else Some next)\<rparr>))"

lemma next_usable_region_spec:
  assumes "next_usable_region s = (Some region, s')"
  shows "memory_map s' = memory_map s \<and> current_region s \<le> current_region s'
      \<and> current_region s' < length (memory_map s) \<and> memory_map s ! current_region s' = region
      \<and> e_usable region \<and> next_frame s' = (if current_region s' = current_region s then next_frame s else 0)
      \<and> s' = s\<lparr>current_region := current_region s', next_frame := next_frame s'\<rparr>"
  using assms
proof (induction s rule: next_usable_region.induct)
  case (1 s)
  let ?t = "s\<lparr>current_region := current_region s + 1, next_frame := 0\<rparr>"
  show ?case
  proof (cases "current_region s < length (memory_map s) \<and> \<not> e_usable (memory_map s ! current_region s)")
    case True
    then have e: "next_usable_region ?t = (Some region, s')"
      using "1.prems" by (simp add: next_usable_region.simps [of s])
    have *: "current_region s < length (memory_map s)" "\<not> e_usable (memory_map s ! current_region s)"
      using True by auto
    note IH = "1.IH" [OF * e]
    then have t: "s' = ?t\<lparr>current_region := current_region s', next_frame := next_frame s'\<rparr>"
      by blast
    have "s' = s\<lparr>current_region := current_region s', next_frame := next_frame s'\<rparr>"
      by (rule trans [OF t]) simp
    moreover have "memory_map s' = memory_map s" "current_region s < current_region s'"
        "current_region s' < length (memory_map s)" "memory_map s ! current_region s' = region"
        "e_usable region" "next_frame s' = 0"
      using IH by auto
    ultimately show ?thesis by simp
  next
    case False
    with "1.prems" show ?thesis
      by (auto simp: next_usable_region.simps [of s] split: if_splits)
  qed
qed

lemma next_usable_region_Some:
  assumes "next_usable_region s = (Some region, s')"
  shows "memory_map s' = memory_map s" and "current_region s \<le> current_region s'"
    and "current_region s' < length (memory_map s)" and "memory_map s ! current_region s' = region"
    and "e_usable region"
    and "next_frame s' = (if current_region s' = current_region s then next_frame s else 0)"
    and "s' = s\<lparr>current_region := current_region s', next_frame := next_frame s'\<rparr>"
  using next_usable_region_spec [OF assms] by blast+

text \<open>The loop of \<open>allocate_frame\<close> over the memory map.\<close>

function allocate_loop ::
  "(nat \<Rightarrow> nat option) \<Rightarrow> (frame_allocator, unit, nat option) prog" where
  "allocate_loop containing s =
     (case next_usable_region s of
        (None, s1) \<Rightarrow> (Ok None, s1)
      | (Some region, s1) \<Rightarrow>
          (case align_up (e_base region) FRAME_SIZE of
             Ok region_start \<Rightarrow>
               (case checked_add (e_base region) (e_length region) of
                  None \<Rightarrow> (Ok None, s1)
                | Some e \<Rightarrow>
                    let region_end = align_down e FRAME_SIZE;
                        first = (if next_frame s1 = 0 then region_start else next_frame s1)
                    in (case skip_reserved s1 first of
                          Ok frame \<Rightarrow>
                            if frame < region_end then
                              (case containing frame of
                                 None \<Rightarrow> (Panic, s1\<lparr>next_frame := frame\<rparr>)
                               | Some f \<Rightarrow>
                                   if frame + FRAME_SIZE \<ge> u64_limit then (Panic, s1\<lparr>next_frame := frame\<rparr>)
                                   else (Ok (Some f), s1\<lparr>next_frame := frame + FRAME_SIZE\<rparr>))
                            else allocate_loop containing
                              (s1\<lparr>current_region := current_region s1 + 1, next_frame := 0\<rparr>)
                        | Err u \<Rightarrow> (Err u, s1\<lparr>next_frame := first\<rparr>)
                        | Panic \<Rightarrow> (Panic, s1\<lparr>next_frame := first\<rparr>)
                        | Hang \<Rightarrow> (Hang, s1\<lparr>next_frame := first\<rparr>)))
           | Err u \<Rightarrow> (Err u, s1)
           | Panic \<Rightarrow> (Panic, s1)
           | Hang \<Rightarrow> (Hang, s1)))"
  by pat_completeness auto
termination
proof (relation "measure (\<lambda>(containing, s). length (memory_map s) - current_region s)", goal_cases)
  case (2 containing s x s1 region)
  then have "next_usable_region s = (Some region, s1)" by simp
  from next_usable_region_Some(1-3) [OF this] show ?case by simp
qed simp

declare allocate_loop.simps [simp del]

definition allocate_frame :: "(nat \<Rightarrow> nat option) \<Rightarrow> (frame_allocator, unit, nat option) prog" where
  "allocate_frame containing =
     bindR pop_free_frame (\<lambda>r.
       case r of
         Some frame \<Rightarrow> (case containing frame of None \<Rightarrow> panicR | Some f \<Rightarrow> returnR (Some f))
       | None \<Rightarrow> allocate_loop containing)"

definition deallocate_frame :: "nat \<Rightarrow> (frame_allocator, unit, unit) prog" where
  "deallocate_frame frame = push_free_frame frame"

end
