(* ===== verification/Frame_Correct.thy ===== *)
theory Frame_Correct
  imports Frame
begin

text \<open>
  The correctness of the physical frame allocator: reserved ranges are skipped to the first
  frame that starts outside them, frames are never handed out twice, and the allocator
  gives up only when every usable frame is taken.
\<close>

section \<open>Skipping reserved ranges\<close>

definition in_range :: "nat \<Rightarrow> phys_range \<Rightarrow> bool" where
  "in_range f r \<longleftrightarrow> r_start r \<le> f \<and> f < r_end r"

lemma is_reserved_iff: "is_reserved s f \<longleftrightarrow> (\<exists>r\<in>set (reserved_list s). in_range f r)"
  by (auto simp: is_reserved_def list_ex_iff in_range_def)

lemma aligned_below: "FRAME_SIZE dvd a \<Longrightarrow> FRAME_SIZE dvd b \<Longrightarrow> a < b \<Longrightarrow> a + FRAME_SIZE \<le> b"
  for a b :: nat
  by (elim dvdE) auto

lemma align_up_frame_aligned: "align_up v FRAME_SIZE = Ok w \<Longrightarrow> FRAME_SIZE dvd w \<and> w < v + FRAME_SIZE"
  by (auto simp: align_up_frame split: if_splits)

lemma skip_pass_spec:
  assumes "skip_pass rs (f, adv) = Ok (g, adv')" and "FRAME_SIZE dvd f"
  shows "FRAME_SIZE dvd g" and "\<lbrakk>FRAME_SIZE dvd a; f \<le> a; a < g\<rbrakk> \<Longrightarrow> \<exists>r\<in>set rs. in_range a r"
  using assms
proof (induction rs arbitrary: f adv)
  case Nil
  { case 1 then show ?case by simp next case 2 then show ?case by simp }
next
  case (Cons r rs)
  have step: "\<exists>f' adv1. skip_pass rs (f', adv1) = Ok (g, adv') \<and> FRAME_SIZE dvd f'
      \<and> (\<forall>a. FRAME_SIZE dvd a \<longrightarrow> f \<le> a \<longrightarrow> a < f' \<longrightarrow> in_range a r)"
    if prem: "skip_pass (r # rs) (f, adv) = Ok (g, adv')" "FRAME_SIZE dvd f" for f adv
  proof (cases "r_start r \<le> f \<and> f < r_end r")
    case False
    with prem have "skip_pass rs (f, adv) = Ok (g, adv')" by (simp split: if_splits)
    with prem(2) show ?thesis by (intro exI [of _ f] exI [of _ adv]) auto
  next
    case True
    with prem(1) obtain w where w: "align_up (r_end r) FRAME_SIZE = Ok w"
        "skip_pass rs (if w > f then (w, True) else (f, adv)) = Ok (g, adv')"
      by (auto split: res.splits)
    have "in_range a r" if a: "FRAME_SIZE dvd a" "f \<le> a" "a < w" for a
      using aligned_below [OF a(1) _ a(3)] align_up_frame_aligned [OF w(1)] a(2) True
      by (simp add: in_range_def)
    moreover have "f < w"
      using align_up_frame_ge [OF w(1)] True by simp
    ultimately show ?thesis
      using w align_up_frame_aligned [OF w(1)] by (intro exI [of _ w] exI [of _ True]) simp
  qed
  {
    case 1
    from step [OF this] Cons.IH(1) show ?case by auto
  next
    case 2
    from step [OF 2(4,5)]
    obtain f' adv1 where f': "skip_pass rs (f', adv1) = Ok (g, adv')" "FRAME_SIZE dvd f'"
        "\<forall>a. FRAME_SIZE dvd a \<longrightarrow> f \<le> a \<longrightarrow> a < f' \<longrightarrow> in_range a r"
      by auto
    show ?case
    proof (cases "a < f'")
      case True
      with f'(3) 2 show ?thesis by auto
    next
      case False
      with Cons.IH(2) [OF _ _ _ f'(1,2)] 2 show ?thesis by auto
    qed
  }
qed

lemma skip_pass_still:
  assumes "skip_pass rs (f, False) = Ok (g, False)"
  shows "g = f \<and> (\<forall>r\<in>set rs. \<not> in_range f r)"
  using assms
proof (induction rs)
  case Nil
  then show ?case by simp
next
  case (Cons r rs)
  have "\<not> (r_start r \<le> f \<and> f < r_end r)"
  proof
    assume in_r: "r_start r \<le> f \<and> f < r_end r"
    with Cons.prems obtain w where w: "align_up (r_end r) FRAME_SIZE = Ok w"
        "skip_pass rs (if w > f then (w, True) else (f, False)) = Ok (g, False)"
      by (auto split: res.splits)
    moreover have "f < w" using align_up_frame_ge [OF w(1)] in_r by simp
    ultimately show False using skip_pass_mono [of rs "(w, True)" g False] by simp
  qed
  with Cons show ?case by (auto simp: in_range_def)
qed

lemma skip_ranges_spec:
  assumes "skip_ranges rs f = Ok g" and "FRAME_SIZE dvd f"
  shows "f \<le> g \<and> FRAME_SIZE dvd g \<and> (\<forall>r\<in>set rs. \<not> in_range g r)
    \<and> (\<forall>a. FRAME_SIZE dvd a \<longrightarrow> f \<le> a \<longrightarrow> a < g \<longrightarrow> (\<exists>r\<in>set rs. in_range a r))"
  using assms
proof (induction rs f rule: skip_ranges.induct)
  case (1 rs f)
  obtain h adv where h: "skip_pass rs (f, False) = Ok (h, adv)"
    using "1.prems"(1) by (auto simp: skip_ranges.simps [of rs f] split: res.splits)
  note pass = skip_pass_spec [OF h "1.prems"(2)] and mono = skip_pass_mono [OF h]
  show ?case
  proof (cases adv)
    case True
    then have "skip_ranges rs h = Ok g"
      using "1.prems"(1) h by (simp add: skip_ranges.simps [of rs f])
    from "1.IH" [OF h refl True this pass(1)] pass(2) mono show ?thesis
      by (metis fst_conv le_trans not_le)
  next
    case False
    with "1.prems"(1) h have "g = h" by (simp add: skip_ranges.simps [of rs f])
    with False h skip_pass_still [of rs f h] "1.prems"(2) show ?thesis by auto
  qed
qed

text \<open>Ranges that end at least one frame below the top of the address space never make
  \<open>align_up\<close> overflow, so the search returns.\<close>

lemma skip_pass_total:
  assumes "\<forall>r\<in>set rs. r_end r + FRAME_SIZE < u64_limit"
  shows "\<exists>fa'. skip_pass rs fa = Ok fa'"
  using assms by (induction rs arbitrary: fa) (auto simp: align_up_frame)

lemma skip_ranges_total:
  assumes "\<forall>r\<in>set rs. r_end r + FRAME_SIZE < u64_limit"
  shows "\<exists>g. skip_ranges rs f = Ok g"
  using assms
proof (induction rs f rule: skip_ranges.induct)
  case (1 rs f)
  obtain h adv where h: "skip_pass rs (f, False) = Ok (h, adv)"
    using skip_pass_total [OF "1.prems", of "(f, False)"] by (metis surj_pair)
  then show ?case
    using "1.IH" [OF h refl] "1.prems" by (subst skip_ranges.simps) auto
qed

lemma skip_reserved_spec:
  assumes "FRAME_SIZE dvd f" and "\<forall>r\<in>set (reserved_list s). r_end r + FRAME_SIZE < u64_limit"
  shows "\<exists>g. skip_reserved s f = Ok g \<and> f \<le> g \<and> FRAME_SIZE dvd g \<and> \<not> is_reserved s g
    \<and> (\<forall>a. FRAME_SIZE dvd a \<longrightarrow> f \<le> a \<longrightarrow> a < g \<longrightarrow> is_reserved s a)"
  using skip_ranges_total [OF assms(2), of f] skip_ranges_spec [OF _ assms(1)]
  by (fastforce simp: skip_reserved_def is_reserved_iff)

text \<open>\<open>skip_reserved\<close> terminates, whatever the order and overlap of the reserved ranges, and
  returns the first frame address, at or after the given one, that lies in no reserved
  range.\<close>

theorem skip_reserved_first:
  assumes "FRAME_SIZE dvd f" and "\<forall>r\<in>set (reserved_list s). r_end r + FRAME_SIZE < u64_limit"
  shows "\<exists>g. skip_reserved s f = Ok g \<and> f \<le> g \<and> FRAME_SIZE dvd g \<and> \<not> is_reserved s g
    \<and> (\<forall>a. FRAME_SIZE dvd a \<longrightarrow> f \<le> a \<longrightarrow> a < g \<longrightarrow> is_reserved s a)"
  using assms by (rule skip_reserved_spec)

definition skip_example :: frame_allocator where
  "skip_example = (frame_new [] 0 (\<lambda>_. 0))
     \<lparr>reserved := Some \<lparr>r_start = 4096, r_end = 5000\<rparr> # replicate 31 None, reserved_count := 1\<rparr>"

lemma skip_example_reserved: "reserved_list skip_example = [\<lparr>r_start = 4096, r_end = 5000\<rparr>]"
  by (simp add: skip_example_def reserved_list_def map_filter_def)

theorem skip_reserved_first_witness:
  "\<exists>g. skip_reserved skip_example 4096 = Ok g \<and> g = 8192"
proof -
  obtain g where g: "skip_reserved skip_example 4096 = Ok g" "4096 \<le> g" "FRAME_SIZE dvd g"
      "\<not> is_reserved skip_example g"
      "\<forall>a. FRAME_SIZE dvd a \<longrightarrow> 4096 \<le> a \<longrightarrow> a < g \<longrightarrow> is_reserved skip_example a"
    using skip_reserved_first [of 4096 skip_example] by (auto simp: skip_example_reserved)
  have "5000 \<le> g"
    using g(2,4) by (simp add: is_reserved_iff skip_example_reserved in_range_def)
  moreover have "\<not> 8192 < g"
  proof
    assume "8192 < g"
    with g(5) have "is_reserved skip_example 8192" by simp
    then show False by (simp add: is_reserved_iff skip_example_reserved in_range_def)
  qed
  ultimately have "g = 8192"
    using g(3) by (auto elim!: dvdE)
  with g(1) show ?thesis by blast
qed

section \<open>The free list is a free stack\<close>

definition frame_list :: "frame_allocator \<Rightarrow> nat list \<Rightarrow> bool" where
  "frame_list s xs \<longleftrightarrow> chain (\<lambda>f. phys_mem s (phys_to_virt s f)) FREE_LIST_END
     (case free_list_head s of Some h \<Rightarrow> h | None \<Rightarrow> FREE_LIST_END) xs
     \<and> free_list_head s \<noteq> Some FREE_LIST_END"

definition frame_fresh :: "frame_allocator \<Rightarrow> nat \<Rightarrow> bool" where
  "frame_fresh s f \<longleftrightarrow> f \<noteq> FREE_LIST_END \<and> (\<forall>xs. frame_list s xs \<longrightarrow> f \<notin> set xs)"

lemma frame_list_unique: "frame_list s xs \<Longrightarrow> frame_list s ys \<Longrightarrow> xs = ys"
  unfolding frame_list_def by (blast intro: chain_unique)

lemma push_frame_list:
  assumes "frame_list s xs" and "f \<noteq> FREE_LIST_END" and "f \<notin> set xs"
  shows "\<exists>s'. push_free_frame f s = (Ok (), s') \<and> frame_list s' (f # xs)
     \<and> s' = s\<lparr>phys_mem := phys_mem s', free_list_head := free_list_head s'\<rparr>"
proof -
  let ?h = "case free_list_head s of Some h \<Rightarrow> h | None \<Rightarrow> FREE_LIST_END"
  let ?s' = "s\<lparr>phys_mem := (phys_mem s)(phys_to_virt s f := ?h), free_list_head := Some f\<rparr>"
  have nx: "(\<lambda>g. phys_mem ?s' (phys_to_virt ?s' g)) = (\<lambda>g. phys_mem s (phys_to_virt s g))(f := ?h)"
    by (auto simp: phys_to_virt_def)
  have "chain ((\<lambda>g. phys_mem s (phys_to_virt s g))(f := ?h)) FREE_LIST_END f (f # xs)"
    using assms by (simp add: frame_list_def del: fun_upd_apply) simp
  then have "frame_list ?s' (f # xs)"
    using assms(2) nx unfolding frame_list_def by simp
  moreover have "push_free_frame f s = (Ok (), ?s')"
    by (simp add: push_free_frame_def Let_def)
  ultimately show ?thesis by auto
qed

lemma pop_frame_list_empty: "frame_list s [] \<Longrightarrow> pop_free_frame s = (Ok None, s)"
  by (auto simp: frame_list_def pop_free_frame_def split: option.splits)

lemma pop_frame_list_cons:
  assumes "frame_list s (f # xs)"
  shows "\<exists>s'. pop_free_frame s = (Ok (Some f), s') \<and> frame_list s' xs
     \<and> s' = s\<lparr>free_list_head := free_list_head s'\<rparr>"
proof -
  let ?next = "phys_mem s (phys_to_virt s f)"
  let ?s' = "s\<lparr>free_list_head := (if ?next = FREE_LIST_END then None else Some ?next)\<rparr>"
  have h: "free_list_head s = Some f"
    and ch: "chain (\<lambda>f. phys_mem s (phys_to_virt s f)) FREE_LIST_END ?next xs"
    using assms by (auto simp: frame_list_def split: option.splits)
  have "frame_list ?s' xs"
    using ch by (auto simp: frame_list_def phys_to_virt_def)
  moreover have "pop_free_frame s = (Ok (Some f), ?s')"
    using h by (simp add: pop_free_frame_def Let_def)
  ultimately show ?thesis by auto
qed

interpretation frames: free_stack frame_list frame_fresh push_free_frame pop_free_frame
proof (unfold_locales, goal_cases)
  case (1 s xs a)
  then show ?case
    using push_frame_list [of s xs a] by (auto simp: frame_fresh_def)
next
  case (2 s xs a b s')
  then have "frame_list s' (a # xs)"
    using push_frame_list [of s xs a] by (auto simp: frame_fresh_def)
  with 2 show ?case
    unfolding frame_fresh_def using frame_list_unique by (metis set_ConsD)
next
  case (3 s)
  then show ?case by (rule pop_frame_list_empty)
next
  case (4 s a xs)
  then show ?case using pop_frame_list_cons by blast
qed

lemma count_frames_chain:
  assumes "chain nx FREE_LIST_END (case h of Some f \<Rightarrow> f | None \<Rightarrow> FREE_LIST_END) xs"
    and "h \<noteq> Some FREE_LIST_END"
  shows "count_frames nx h n = Some (n + length xs)"
  using assms
proof (induction xs arbitrary: h n)
  case Nil
  then have "h = None" by (cases h) auto
  then show ?case by (subst count_frames.simps) simp
next
  case (Cons x xs)
  then have h: "h = Some x" by (auto split: option.splits)
  have "count_frames nx (if nx x = FREE_LIST_END then None else Some (nx x)) (n + 1) = Some (n + 1 + length xs)"
    using Cons by (intro Cons.IH) (auto simp: h)
  then show ?case by (subst count_frames.simps) (simp add: h)
qed

lemma free_frame_count_list: "frame_list s xs \<Longrightarrow> free_frame_count s = Some (length xs)"
  using count_frames_chain by (auto simp: frame_list_def free_frame_count_def)

section \<open>Frames of the memory map\<close>

definition region_frames :: "entry \<Rightarrow> nat set" where
  "region_frames e = {f. FRAME_SIZE dvd f \<and> e_base e \<le> f \<and> f + FRAME_SIZE \<le> e_base e + e_length e}"

text \<open>What the boot loader's protocol promises of the map: usable entries do not overlap, and
  physical addresses have at most 52 bits.\<close>

definition map_ok :: "entry list \<Rightarrow> bool" where
  "map_ok mm \<longleftrightarrow> (\<forall>e\<in>set mm. e_usable e \<longrightarrow> e_base e + e_length e \<le> 2 ^ 52)
     \<and> (\<forall>i j. i < length mm \<longrightarrow> j < length mm \<longrightarrow> i \<noteq> j \<longrightarrow> e_usable (mm ! i) \<longrightarrow> e_usable (mm ! j) \<longrightarrow>
          {e_base (mm ! i)..<e_base (mm ! i) + e_length (mm ! i)}
          \<inter> {e_base (mm ! j)..<e_base (mm ! j) + e_length (mm ! j)} = {})"

definition reserved_ok :: "phys_range list \<Rightarrow> bool" where
  "reserved_ok rs \<longleftrightarrow> (\<forall>r\<in>set rs. r_end r + FRAME_SIZE < u64_limit)"

text \<open>The documented behaviour of \<open>PhysFrame::containing_address\<close> on frame addresses.\<close>

definition phys_frame_api :: "(nat \<Rightarrow> nat option) \<Rightarrow> bool" where
  "phys_frame_api containing \<longleftrightarrow> (\<forall>a. a < 2 ^ 52 \<longrightarrow> FRAME_SIZE dvd a \<longrightarrow> containing a = Some a)"

text \<open>The frames the cursor has passed.\<close>

definition passed :: "frame_allocator \<Rightarrow> nat set" where
  "passed s = {f. \<exists>i < length (memory_map s). e_usable (memory_map s ! i)
     \<and> f \<in> region_frames (memory_map s ! i)
     \<and> (i < current_region s \<or> i = current_region s \<and> f < next_frame s)}"

definition usable_frames :: "frame_allocator \<Rightarrow> nat set" where
  "usable_frames s = {f. \<exists>e\<in>set (memory_map s). e_usable e \<and> f \<in> region_frames e}"

lemma region_frames_disjoint:
  assumes "map_ok mm" and "i < length mm" and "j < length mm" and "e_usable (mm ! i)"
    and "e_usable (mm ! j)" and "f \<in> region_frames (mm ! i)" and "f \<in> region_frames (mm ! j)"
  shows "i = j"
proof (rule ccontr)
  assume "i \<noteq> j"
  then have "{e_base (mm ! i)..<e_base (mm ! i) + e_length (mm ! i)}
      \<inter> {e_base (mm ! j)..<e_base (mm ! j) + e_length (mm ! j)} = {}"
    using assms(1-5) by (simp add: map_ok_def)
  moreover have "f \<in> {e_base (mm ! i)..<e_base (mm ! i) + e_length (mm ! i)}
      \<inter> {e_base (mm ! j)..<e_base (mm ! j) + e_length (mm ! j)}"
    using assms(6,7) by (auto simp: region_frames_def)
  ultimately show False by blast
qed

lemma passed_skip_region:
  assumes "\<not> e_usable (memory_map s ! current_region s)"
  shows "passed (s\<lparr>current_region := current_region s + 1, next_frame := 0\<rparr>) = passed s"
  using assms by (auto simp: passed_def less_Suc_eq)

definition cursor_ok :: "frame_allocator \<Rightarrow> bool" where
  "cursor_ok s \<longleftrightarrow> FRAME_SIZE dvd next_frame s \<and> (next_frame s \<noteq> 0 \<longrightarrow>
     current_region s < length (memory_map s) \<and> e_base (memory_map s ! current_region s) \<le> next_frame s)"

text \<open>Two states that differ in the cursor only.\<close>

definition same_map :: "frame_allocator \<Rightarrow> frame_allocator \<Rightarrow> bool" where
  "same_map s s' \<longleftrightarrow> memory_map s' = memory_map s \<and> phys_mem_offset s' = phys_mem_offset s
     \<and> reserved s' = reserved s \<and> reserved_count s' = reserved_count s
     \<and> free_list_head s' = free_list_head s \<and> phys_mem s' = phys_mem s"

lemma same_map_refl [simp]: "same_map s s"
  by (simp add: same_map_def)

lemma same_map_upd [simp]: "same_map s (s\<lparr>next_frame := x\<rparr>)" "same_map s (s\<lparr>current_region := c, next_frame := x\<rparr>)"
  by (simp_all add: same_map_def)

lemma same_map_trans: "same_map s t \<Longrightarrow> same_map t u \<Longrightarrow> same_map s u"
  by (simp add: same_map_def)

lemma same_map_simps:
  assumes "same_map s t"
  shows "memory_map t = memory_map s" and "reserved_list t = reserved_list s"
    and "is_reserved t = is_reserved s" and "usable_frames t = usable_frames s"
    and "frame_list t xs = frame_list s xs"
  using assms by (auto simp: same_map_def reserved_list_def is_reserved_def usable_frames_def
      frame_list_def phys_to_virt_def)

lemma next_usable_region_passed:
  "next_usable_region s = (r, s') \<Longrightarrow> same_map s s' \<and> passed s' = passed s \<and> (cursor_ok s \<longrightarrow> cursor_ok s')
     \<and> (case r of None \<Rightarrow> length (memory_map s) \<le> current_region s'
         | Some e \<Rightarrow> current_region s \<le> current_region s' \<and> current_region s' < length (memory_map s)
             \<and> e_usable (memory_map s ! current_region s'))"
proof (induction s rule: next_usable_region.induct)
  case (1 s)
  show ?case
  proof (cases "current_region s < length (memory_map s) \<and> \<not> e_usable (memory_map s ! current_region s)")
    case True
    let ?t = "s\<lparr>current_region := current_region s + 1, next_frame := 0\<rparr>"
    have e: "next_usable_region ?t = (r, s')"
      using "1.prems" True by (simp add: next_usable_region.simps [of s])
    have *: "current_region s < length (memory_map s)" "\<not> e_usable (memory_map s ! current_region s)"
      using True by auto
    have "same_map s ?t" "cursor_ok ?t" by (simp_all add: cursor_ok_def)
    with "1.IH" [OF * e] passed_skip_region [OF *(2)] same_map_trans [of s ?t s'] show ?thesis
      by (auto split: option.splits)
  next
    case False
    with "1.prems" show ?thesis
      by (auto simp: next_usable_region.simps [of s] split: if_splits)
  qed
qed

definition earlier :: "frame_allocator \<Rightarrow> nat set" where
  "earlier s = {f. \<exists>j < current_region s. j < length (memory_map s) \<and> e_usable (memory_map s ! j)
     \<and> f \<in> region_frames (memory_map s ! j)}"

lemma passed_cursor:
  assumes "current_region s < length (memory_map s)" and "e_usable (memory_map s ! current_region s)"
  shows "passed (s\<lparr>next_frame := x\<rparr>) = earlier s \<union> {f \<in> region_frames (memory_map s ! current_region s). f < x}"
    and "passed (s\<lparr>current_region := current_region s + 1, next_frame := 0\<rparr>)
      = earlier s \<union> region_frames (memory_map s ! current_region s)"
  using assms by (auto simp: passed_def earlier_def less_Suc_eq)

lemma earlier_notin:
  assumes "map_ok (memory_map s)" and "current_region s < length (memory_map s)"
    and "e_usable (memory_map s ! current_region s)" and "f \<in> region_frames (memory_map s ! current_region s)"
  shows "f \<notin> earlier s"
  using region_frames_disjoint [OF assms(1)] assms(2-4) by (fastforce simp: earlier_def)

lemma region_frames_bounds:
  assumes "align_up (e_base e) FRAME_SIZE = Ok region_start" and "e_base e + e_length e < u64_limit"
    and "FRAME_SIZE dvd f"
  shows "e_base e \<le> f \<longleftrightarrow> region_start \<le> f"
    and "f + FRAME_SIZE \<le> e_base e + e_length e \<longleftrightarrow> f < align_down (e_base e + e_length e) FRAME_SIZE"
proof -
  note up = align_up_frame_aligned [OF assms(1)] align_up_frame_ge [OF assms(1)]
  show "e_base e \<le> f \<longleftrightarrow> region_start \<le> f"
    using up aligned_below [OF assms(3), of region_start] by linarith
  let ?e = "e_base e + e_length e"
  have down: "align_down ?e FRAME_SIZE = ?e div FRAME_SIZE * FRAME_SIZE"
    using assms(2) by (rule align_down_frame)
  obtain m where m: "f = FRAME_SIZE * m" using assms(3) by blast
  have "FRAME_SIZE * m + FRAME_SIZE \<le> ?e \<longleftrightarrow> m + 1 \<le> ?e div FRAME_SIZE"
    by (simp add: less_eq_div_iff_mult_less_eq mult.commute add.commute)
  also have "\<dots> \<longleftrightarrow> FRAME_SIZE * m < ?e div FRAME_SIZE * FRAME_SIZE"
    by auto
  finally show "f + FRAME_SIZE \<le> ?e \<longleftrightarrow> f < align_down ?e FRAME_SIZE"
    unfolding down m .
qed

definition settled :: "frame_allocator \<Rightarrow> nat set" where
  "settled s = {f \<in> passed s. \<not> is_reserved s f}"

text \<open>The search over the memory map: it passes over reserved frames only, and stops at the
  first frame that is not reserved or at the end of the map.\<close>

definition search_ok :: "frame_allocator \<Rightarrow> nat option \<Rightarrow> frame_allocator \<Rightarrow> bool" where
  "search_ok s r s' \<longleftrightarrow> same_map s s' \<and> cursor_ok s'
     \<and> (case r of
          None \<Rightarrow> length (memory_map s) \<le> current_region s' \<and> settled s' = settled s
        | Some f \<Rightarrow> f \<in> usable_frames s \<and> f \<notin> passed s \<and> \<not> is_reserved s f
            \<and> settled s' = insert f (settled s))"

lemma allocate_loop_step:
  assumes ok: "map_ok (memory_map s)" "reserved_ok (reserved_list s)" "phys_frame_api containing"
    and cur: "current_region s < length (memory_map s)" "e_usable (memory_map s ! current_region s)"
    and "cursor_ok s"
  shows "(\<exists>f s'. allocate_loop containing s = (Ok (Some f), s') \<and> search_ok s (Some f) s')
    \<or> (let t = s\<lparr>current_region := current_region s + 1, next_frame := 0\<rparr>
       in allocate_loop containing s = allocate_loop containing t \<and> settled t = settled s)"
proof -
  let ?e = "memory_map s ! current_region s"
  let ?stop = "e_base ?e + e_length ?e"
  have e52: "?stop \<le> 2 ^ 52"
    using ok(1) cur by (simp add: map_ok_def)
  obtain region_start where up: "align_up (e_base ?e) FRAME_SIZE = Ok region_start"
    using e52 by (simp add: align_up_frame)
  define first where "first = (if next_frame s = 0 then region_start else next_frame s)"
  note bounds = region_frames_bounds [OF up]
  have lim: "?stop < u64_limit" using e52 by simp
  have first: "FRAME_SIZE dvd first" "e_base ?e \<le> first"
    using align_up_frame_aligned [OF up] align_up_frame_ge [OF up] assms(6)
    by (auto simp: first_def cursor_ok_def)
  obtain g where g: "skip_reserved s first = Ok g" "first \<le> g" "FRAME_SIZE dvd g" "\<not> is_reserved s g"
      "\<forall>a. FRAME_SIZE dvd a \<longrightarrow> first \<le> a \<longrightarrow> a < g \<longrightarrow> is_reserved s a"
    using skip_reserved_spec [OF first(1), of s] ok(2) unfolding reserved_ok_def by blast
  have res: "is_reserved (s\<lparr>current_region := c, next_frame := x\<rparr>) = is_reserved s"
      "is_reserved (s\<lparr>next_frame := x\<rparr>) = is_reserved s" for c x
    by (rule same_map_simps, simp)+
  have "passed (s\<lparr>next_frame := next_frame s\<rparr>) = earlier s \<union> {f \<in> region_frames ?e. f < next_frame s}"
    by (rule passed_cursor(1) [OF cur])
  moreover have "{f \<in> region_frames ?e. f < next_frame s} = {f \<in> region_frames ?e. f < first}"
  proof (cases "next_frame s = 0")
    case True
    have "\<not> f < region_start" if "f \<in> region_frames ?e" for f
      using that bounds(1) [OF lim, of f] by (simp add: region_frames_def)
    with True show ?thesis by (auto simp: first_def)
  qed (simp add: first_def)
  ultimately have passed: "passed s = earlier s \<union> {f \<in> region_frames ?e. f < first}"
    by simp
  have nu: "next_usable_region s = (Some ?e, s)"
    using cur by (simp add: next_usable_region.simps [of s])
  show ?thesis
  proof (cases "g < align_down ?stop FRAME_SIZE")
    case True
    have rf: "g \<in> region_frames ?e"
      using bounds(2) [OF lim g(3)] True first(2) g(2,3) by (simp add: region_frames_def)
    then have g52: "g + FRAME_SIZE \<le> 2 ^ 52"
      using e52 by (simp add: region_frames_def)
    let ?s' = "s\<lparr>next_frame := g + FRAME_SIZE\<rparr>"
    have run: "allocate_loop containing s = (Ok (Some g), ?s')"
      using nu up lim g(1) True g52 ok(3) g(3)
      by (subst allocate_loop.simps) (simp add: checked_add_def first_def phys_frame_api_def Let_def)
    have notin: "g \<notin> passed s"
      using passed earlier_notin [OF ok(1) cur rf] g(2) by auto
    have "f < g + FRAME_SIZE \<longleftrightarrow> f < g \<or> f = g" if "FRAME_SIZE dvd f" for f
      using aligned_below [OF g(3) that] by linarith
    then have "f < g + FRAME_SIZE \<longleftrightarrow> f < g \<or> f = g" if "f \<in> region_frames ?e" for f
      using that by (simp add: region_frames_def)
    then have "passed ?s' = passed s \<union> {f \<in> region_frames ?e. first \<le> f \<and> f < g} \<union> {g}"
      unfolding passed_cursor(1) [OF cur] passed using rf g(2) by auto
    then have "settled ?s' = insert g (settled s)"
      using g(4,5) res(2) by (auto simp: settled_def region_frames_def)
    moreover have "cursor_ok ?s'"
      using g(2,3) first(2) cur by (simp add: cursor_ok_def)
    moreover have "g \<in> usable_frames s"
      using rf cur by (auto simp: usable_frames_def)
    ultimately have "search_ok s (Some g) ?s'"
      using notin g(4) by (simp add: search_ok_def)
    with run show ?thesis by blast
  next
    case False
    let ?t = "s\<lparr>current_region := current_region s + 1, next_frame := 0\<rparr>"
    have "allocate_loop containing s = allocate_loop containing ?t"
      using nu up lim g(1) False
      by (subst allocate_loop.simps) (simp add: checked_add_def first_def Let_def)
    moreover have "passed ?t = passed s \<union> {f \<in> region_frames ?e. first \<le> f \<and> f < g}"
      unfolding passed_cursor(2) [OF cur] passed
      using bounds(2) [OF lim] False by (fastforce simp: region_frames_def)
    then have "settled ?t = settled s"
      using g(5) res(1) by (auto simp: settled_def region_frames_def)
    ultimately show ?thesis by (simp add: Let_def)
  qed
qed

lemma search_ok_start:
  assumes "same_map s t" and "passed s \<subseteq> passed t" and "settled s = settled t" and "search_ok t r s'"
  shows "search_ok s r s'"
  using assms same_map_simps [OF assms(1)] same_map_trans [OF assms(1)]
  by (auto simp: search_ok_def split: option.splits)

lemma passed_next_region: "passed s \<subseteq> passed (s\<lparr>current_region := current_region s + 1, next_frame := 0\<rparr>)"
  by (auto simp: passed_def)

lemma allocate_loop_region:
  assumes "next_usable_region s = (r, s1)" and "r \<noteq> None"
  shows "allocate_loop containing s = allocate_loop containing s1"
proof -
  have "current_region s1 < length (memory_map s1) \<and> e_usable (memory_map s1 ! current_region s1)"
    using next_usable_region_passed [OF assms(1)] assms(2) by (auto simp: same_map_def)
  moreover from assms obtain e where "r = Some e" by blast
  moreover have "memory_map s1 ! current_region s1 = e"
    using next_usable_region_Some(1,4) assms(1) \<open>r = Some e\<close> by metis
  ultimately have "next_usable_region s1 = (r, s1)"
    by (simp add: next_usable_region.simps [of s1])
  with assms(1) show ?thesis
    by (subst (1 2) allocate_loop.simps) simp
qed

lemma allocate_loop_spec:
  assumes "map_ok (memory_map s)" "reserved_ok (reserved_list s)" "phys_frame_api containing" "cursor_ok s"
  shows "\<exists>r s'. allocate_loop containing s = (Ok r, s') \<and> search_ok s r s'"
  using assms
proof (induction "length (memory_map s) - current_region s" arbitrary: s rule: less_induct)
  case less
  obtain r s1 where nu: "next_usable_region s = (r, s1)" by (metis surj_pair)
  note np = next_usable_region_passed [OF nu]
  then have sm: "same_map s s1" "passed s1 = passed s" and cur1: "cursor_ok s1"
    using less.prems(4) by auto
  note eqs = same_map_simps [OF sm(1)]
  have settled1: "settled s = settled s1"
    using sm(2) eqs(3) by (simp add: settled_def)
  show ?case
  proof (cases r)
    case None
    with nu have "allocate_loop containing s = (Ok None, s1)"
      by (simp add: allocate_loop.simps [of containing s])
    moreover have "search_ok s None s1"
      using np None less.prems(4) settled1 by (simp add: search_ok_def)
    ultimately show ?thesis by blast
  next
    case (Some e)
    then have cur: "current_region s1 < length (memory_map s1)" "e_usable (memory_map s1 ! current_region s1)"
      and ge: "current_region s \<le> current_region s1"
      using np eqs(1) by auto
    have run: "allocate_loop containing s = allocate_loop containing s1"
      using Some by (intro allocate_loop_region [OF nu]) simp
    let ?t = "s1\<lparr>current_region := current_region s1 + 1, next_frame := 0\<rparr>"
    consider (found) f s' where "allocate_loop containing s1 = (Ok (Some f), s')" "search_ok s1 (Some f) s'"
      | (moved) "allocate_loop containing s1 = allocate_loop containing ?t" "settled ?t = settled s1"
      using allocate_loop_step [of s1 containing] less.prems eqs(1,2) cur cur1 by (auto simp: Let_def)
    then show ?thesis
    proof cases
      case found
      with run search_ok_start [OF sm(1) _ settled1 found(2)] sm(2) show ?thesis by auto
    next
      case moved
      have t: "same_map s ?t" using sm(1) same_map_trans same_map_upd(2) by blast
      note eqt = same_map_simps [OF t]
      have "length (memory_map ?t) - current_region ?t < length (memory_map s) - current_region s"
        using cur(1) ge eqs(1) by simp
      moreover have "cursor_ok ?t" by (simp add: cursor_ok_def)
      ultimately obtain r' s' where r': "allocate_loop containing ?t = (Ok r', s')" "search_ok ?t r' s'"
        using less.hyps [of ?t] less.prems eqt(1,2) by auto
      have "passed s \<subseteq> passed ?t"
        using passed_next_region [of s1] sm(2) by blast
      then have "search_ok s r' s'"
        using search_ok_start [OF t _ _ r'(2)] settled1 moved(2) by simp
      with r'(1) moved(1) run show ?thesis by auto
    qed
  qed
qed

section \<open>The allocator and the owners of frames\<close>

text \<open>\<open>out\<close> is the set of frames that are held. Every frame the cursor has passed and that is
  not reserved is held or on the free list, never both.\<close>

definition frame_inv :: "frame_allocator \<Rightarrow> nat list \<Rightarrow> nat set \<Rightarrow> bool" where
  "frame_inv s xs out \<longleftrightarrow> map_ok (memory_map s) \<and> reserved_ok (reserved_list s) \<and> cursor_ok s
     \<and> frame_list s xs \<and> set xs \<inter> out = {} \<and> set xs \<union> out = settled s"

lemma settled_usable: "f \<in> settled s \<Longrightarrow> f \<in> usable_frames s \<and> \<not> is_reserved s f"
  by (auto simp: settled_def passed_def usable_frames_def)

lemma usable_frame_bound:
  "map_ok (memory_map s) \<Longrightarrow> f \<in> usable_frames s \<Longrightarrow> FRAME_SIZE dvd f \<and> f < 2 ^ 52"
  by (fastforce simp: usable_frames_def region_frames_def map_ok_def)

lemma frame_inv_alloc:
  assumes "frame_inv s xs out" and "phys_frame_api containing"
  shows "\<exists>r s' ys. allocate_frame containing s = (Ok r, s')
     \<and> memory_map s' = memory_map s \<and> is_reserved s' = is_reserved s
     \<and> (case r of
          Some f \<Rightarrow> f \<notin> out \<and> f \<in> usable_frames s \<and> \<not> is_reserved s f \<and> frame_inv s' ys (insert f out)
        | None \<Rightarrow> frame_inv s' ys out \<and> {f \<in> usable_frames s. \<not> is_reserved s f} \<subseteq> out)"
proof -
  have inv: "map_ok (memory_map s)" "reserved_ok (reserved_list s)" "cursor_ok s" "frame_list s xs"
      "set xs \<inter> out = {}" "set xs \<union> out = settled s"
    using assms(1) by (auto simp: frame_inv_def)
  show ?thesis
  proof (cases xs)
    case (Cons f ys)
    then obtain s' where s': "pop_free_frame s = (Ok (Some f), s')" "frame_list s' ys"
        "s' = s\<lparr>free_list_head := free_list_head s'\<rparr>"
      using pop_frame_list_cons inv(4) by blast
    have eqs: "memory_map s' = memory_map s" "is_reserved s' = is_reserved s"
        "reserved_list s' = reserved_list s" "cursor_ok s' = cursor_ok s" "settled s' = settled s"
      by (subst s'(3), simp add: is_reserved_def reserved_list_def cursor_ok_def settled_def
          passed_def fun_eq_iff)+
    have f: "f \<in> usable_frames s" "\<not> is_reserved s f"
      using settled_usable [of f s] inv(6) Cons by auto
    then have "containing f = Some f"
      using usable_frame_bound [OF inv(1)] assms(2) by (simp add: phys_frame_api_def)
    then have "allocate_frame containing s = (Ok (Some f), s')"
      using s'(1) by (simp add: allocate_frame_def bindR_def)
    moreover have "distinct xs"
      using inv(4) by (auto simp: frame_list_def dest: chain_distinct)
    then have "frame_inv s' ys (insert f out)"
      using inv s'(2) Cons by (auto simp: frame_inv_def eqs)
    ultimately show ?thesis
      using eqs f inv(5) Cons by (intro exI [of _ "Some f"] exI [of _ s'] exI [of _ ys]) auto
  next
    case Nil
    obtain r s' where r: "allocate_loop containing s = (Ok r, s')" "search_ok s r s'"
      using allocate_loop_spec [OF inv(1,2) assms(2) inv(3)] by blast
    have run: "allocate_frame containing s = (Ok r, s')"
      using pop_frame_list_empty inv(4) Nil r(1) by (simp add: allocate_frame_def bindR_def)
    have sm: "same_map s s'" and cur: "cursor_ok s'"
      using r(2) by (auto simp: search_ok_def)
    note eqs = same_map_simps [OF sm]
    have list: "frame_list s' []" using eqs(5) inv(4) Nil by simp
    have out: "out = settled s" using inv(6) Nil by simp
    show ?thesis
    proof (cases r)
      case (Some f)
      then have f: "f \<in> usable_frames s" "f \<notin> passed s" "\<not> is_reserved s f" "settled s' = insert f (settled s)"
        using r(2) by (auto simp: search_ok_def)
      then have "f \<notin> out" "frame_inv s' [] (insert f out)"
        using inv(1,2) cur list out by (auto simp: frame_inv_def eqs settled_def)
      with run f eqs Some show ?thesis by auto
    next
      case None
      then have n: "length (memory_map s) \<le> current_region s'" "settled s' = settled s"
        using r(2) by (auto simp: search_ok_def)
      have "{f \<in> usable_frames s. \<not> is_reserved s f} \<subseteq> settled s'"
        using n(1) eqs(1,3) by (fastforce simp: settled_def passed_def usable_frames_def in_set_conv_nth)
      moreover have "frame_inv s' [] out"
        using inv(1,2) cur list out n(2) by (auto simp: frame_inv_def eqs)
      ultimately show ?thesis using run None eqs n(2) out by auto
    qed
  qed
qed

inductive frame_step ::
  "(nat \<Rightarrow> nat option) \<Rightarrow> frame_allocator \<times> nat set \<Rightarrow> frame_allocator \<times> nat set \<Rightarrow> bool" for containing where
  take: "allocate_frame containing s = (Ok (Some f), s') \<Longrightarrow> frame_step containing (s, out) (s', insert f out)"
| none: "allocate_frame containing s = (Ok None, s') \<Longrightarrow> frame_step containing (s, out) (s', out)"
| give: "f \<in> out \<Longrightarrow> deallocate_frame f s = (Ok (), s') \<Longrightarrow> frame_step containing (s, out) (s', out - {f})"
| store: "(\<And>x. mem x \<noteq> phys_mem s x \<Longrightarrow>
      \<exists>f\<in>out. {x..<x + 8} \<inter> {phys_to_virt s f..<phys_to_virt s f + FRAME_SIZE} \<noteq> {}) \<Longrightarrow>
    frame_step containing (s, out) (s\<lparr>phys_mem := mem\<rparr>, out)"

inductive_simps frame_step_simps: "frame_step containing (s, out) (s', out')"

lemma frame_inv_give:
  assumes "frame_inv s xs out" and "f \<in> out"
  shows "\<exists>s'. deallocate_frame f s = (Ok (), s') \<and> frame_inv s' (f # xs) (out - {f})
     \<and> memory_map s' = memory_map s \<and> is_reserved s' = is_reserved s"
proof -
  have inv: "map_ok (memory_map s)" "reserved_ok (reserved_list s)" "cursor_ok s" "frame_list s xs"
      "set xs \<inter> out = {}" "set xs \<union> out = settled s"
    using assms(1) by (auto simp: frame_inv_def)
  have "f < 2 ^ 52"
    using usable_frame_bound [OF inv(1), of f] settled_usable [of f s] inv(6) assms(2) by blast
  then obtain s' where s': "push_free_frame f s = (Ok (), s')" "frame_list s' (f # xs)"
      "s' = s\<lparr>phys_mem := phys_mem s', free_list_head := free_list_head s'\<rparr>"
    using push_frame_list [OF inv(4), of f] inv(5) assms(2) by auto
  have "memory_map s' = memory_map s" "is_reserved s' = is_reserved s"
      "reserved_list s' = reserved_list s" "cursor_ok s' = cursor_ok s" "settled s' = settled s"
    by (subst s'(3), simp add: is_reserved_def reserved_list_def cursor_ok_def settled_def
        passed_def fun_eq_iff)+
  with inv s' assms(2) show ?thesis
    by (auto simp: deallocate_frame_def frame_inv_def)
qed

lemma frame_inv_store:
  assumes "frame_inv s xs out"
    and "\<And>x. mem x \<noteq> phys_mem s x \<Longrightarrow>
      \<exists>f\<in>out. {x..<x + 8} \<inter> {phys_to_virt s f..<phys_to_virt s f + FRAME_SIZE} \<noteq> {}"
  shows "frame_inv (s\<lparr>phys_mem := mem\<rparr>) xs out"
proof -
  have inv: "map_ok (memory_map s)" "frame_list s xs" "set xs \<inter> out = {}" "set xs \<union> out = settled s"
    using assms(1) by (auto simp: frame_inv_def)
  have al: "FRAME_SIZE dvd f" if "f \<in> settled s" for f
    using usable_frame_bound [OF inv(1)] settled_usable [OF that] by blast
  have same: "mem (phys_to_virt s g) = phys_mem s (phys_to_virt s g)" if g: "g \<in> set xs" for g
  proof (rule ccontr)
    assume "mem (phys_to_virt s g) \<noteq> phys_mem s (phys_to_virt s g)"
    from assms(2) [OF this] obtain f where f: "f \<in> out"
      and ov: "{phys_to_virt s g..<phys_to_virt s g + 8} \<inter> {phys_to_virt s f..<phys_to_virt s f + FRAME_SIZE} \<noteq> {}"
      by blast
    from f g inv(3) have "f \<noteq> g" by blast
    moreover have "FRAME_SIZE dvd f" "FRAME_SIZE dvd g"
      using al f g inv(4) by blast+
    ultimately have "f + FRAME_SIZE \<le> g \<or> g + FRAME_SIZE \<le> f"
      using aligned_below [of f g] aligned_below [of g f] by linarith
    with ov show False by (auto simp: phys_to_virt_def)
  qed
  let ?s' = "s\<lparr>phys_mem := mem\<rparr>"
  have "frame_list ?s' xs"
    using inv(2) chain_cong [of xs "\<lambda>f. mem (phys_to_virt s f)" "\<lambda>f. phys_mem s (phys_to_virt s f)"] same
    by (simp add: frame_list_def phys_to_virt_def)
  moreover have "settled ?s' = settled s" "reserved_list ?s' = reserved_list s" "cursor_ok ?s' = cursor_ok s"
    by (simp_all add: settled_def passed_def is_reserved_def reserved_list_def cursor_ok_def)
  ultimately show ?thesis
    using assms(1) by (simp add: frame_inv_def)
qed

lemma frame_step_inv:
  assumes "frame_step containing c c'" and "\<exists>xs. frame_inv (fst c) xs (snd c)" and "phys_frame_api containing"
  shows "(\<exists>xs. frame_inv (fst c') xs (snd c')) \<and> memory_map (fst c') = memory_map (fst c)
    \<and> is_reserved (fst c') = is_reserved (fst c)"
proof -
  obtain s out xs where c: "c = (s, out)" and inv: "frame_inv s xs out"
    using assms(2) by (cases c) auto
  note al = frame_inv_alloc [OF inv assms(3)]
  have "(\<exists>xs. frame_inv (fst c') xs (snd c')) \<and> memory_map (fst c') = memory_map s
      \<and> is_reserved (fst c') = is_reserved s"
    using assms(1) unfolding c
  proof (cases rule: frame_step.cases)
    case (take f s')
    with al show ?thesis by auto
  next
    case (none s')
    with al show ?thesis by auto
  next
    case (give f s')
    with frame_inv_give [OF inv give(2)] show ?thesis by auto
  next
    case (store mem)
    have "frame_inv (s\<lparr>phys_mem := mem\<rparr>) xs out"
      using inv store(2) by (rule frame_inv_store)
    with store(1) show ?thesis
      by (auto simp: is_reserved_def reserved_list_def fun_eq_iff)
  qed
  with c show ?thesis by simp
qed

text \<open>A freshly built allocator whose ranges have been reserved.\<close>

definition frame_start :: "frame_allocator \<Rightarrow> bool" where
  "frame_start s \<longleftrightarrow> map_ok (memory_map s) \<and> reserved_ok (reserved_list s)
     \<and> current_region s = 0 \<and> next_frame s = 0 \<and> free_list_head s = None"

definition frame_reachable ::
  "(nat \<Rightarrow> nat option) \<Rightarrow> frame_allocator \<Rightarrow> frame_allocator \<Rightarrow> nat set \<Rightarrow> bool" where
  "frame_reachable containing s0 s out \<longleftrightarrow> frame_start s0 \<and> phys_frame_api containing
     \<and> (frame_step containing)\<^sup>*\<^sup>* (s0, {}) (s, out)"

lemma frame_reachable_inv:
  assumes "frame_reachable containing s0 s out"
  shows "\<exists>xs. frame_inv s xs out" and "memory_map s = memory_map s0" and "is_reserved s = is_reserved s0"
    and "phys_frame_api containing"
proof -
  have start: "frame_start s0" and api: "phys_frame_api containing"
    and steps: "(frame_step containing)\<^sup>*\<^sup>* (s0, {}) (s, out)"
    using assms by (auto simp: frame_reachable_def)
  have "frame_inv s0 [] {}"
    using start by (auto simp: frame_start_def frame_inv_def cursor_ok_def frame_list_def settled_def passed_def)
  with steps have "(\<exists>xs. frame_inv (fst (s, out)) xs (snd (s, out))) \<and> memory_map (fst (s, out)) = memory_map s0
      \<and> is_reserved (fst (s, out)) = is_reserved s0"
  proof (induction rule: rtranclp_induct)
    case base
    then show ?case by auto
  next
    case (step c c')
    with frame_step_inv [OF step(2) _ api] show ?case by auto
  qed
  then show "\<exists>xs. frame_inv s xs out" and "memory_map s = memory_map s0" and "is_reserved s = is_reserved s0"
    by auto
  show "phys_frame_api containing" by (fact api)
qed

section \<open>Properties\<close>

text \<open>C2: A frame that \<open>allocate_frame\<close> hands out, in any state the allocator can reach, is not held
  by anyone else, is a whole aligned frame inside a usable entry of the memory map, and its
  address is in no reserved range.\<close>

theorem frame_never_double_allocated:
  assumes "frame_reachable containing s0 s out" and "allocate_frame containing s = (Ok (Some f), s')"
  shows "f \<notin> out \<and> FRAME_SIZE dvd f \<and> \<not> is_reserved s0 f
    \<and> (\<exists>e\<in>set (memory_map s0). e_usable e \<and> {f..<f + FRAME_SIZE} \<subseteq> {e_base e..<e_base e + e_length e})"
proof -
  note r = frame_reachable_inv [OF assms(1)]
  from r(1) obtain xs where inv: "frame_inv s xs out" by blast
  from frame_inv_alloc [OF inv r(4)] assms(2)
  have f: "f \<notin> out" "f \<in> usable_frames s" "\<not> is_reserved s f" by auto
  from f(2) obtain e where "e \<in> set (memory_map s)" "e_usable e" "f \<in> region_frames e"
    by (auto simp: usable_frames_def)
  with f(1,3) r(2,3) show ?thesis by (auto simp: region_frames_def)
qed


text \<open>The diagnostic count of the free list terminates in every reachable state and counts the
  frames that were freed and not handed out again.\<close>

theorem frame_count_correct:
  assumes "frame_reachable containing s0 s out"
  shows "\<exists>xs. free_frame_count s = Some (length xs) \<and> distinct xs \<and> set xs = settled s - out"
proof -
  from frame_reachable_inv(1) [OF assms] obtain xs where inv: "frame_inv s xs out" by blast
  then have "free_frame_count s = Some (length xs)" "distinct xs"
    by (auto simp: frame_inv_def frame_list_def intro: free_frame_count_list dest: chain_distinct)
  moreover have "set xs = settled s - out"
    using inv by (auto simp: frame_inv_def)
  ultimately show ?thesis by blast
qed

section \<open>A small memory map\<close>

definition example_map :: "entry list" where
  "example_map = [\<lparr>e_base = 0x1000, e_length = 0x2000, e_type = RESERVED\<rparr>,
     \<lparr>e_base = 0x10000, e_length = 0x3000, e_type = USABLE\<rparr>]"

definition example_frames :: frame_allocator where
  "example_frames = frame_new example_map 0 (\<lambda>_. 0)"

definition containing_frame :: "nat \<Rightarrow> nat option" where
  "containing_frame a = (if a < 2 ^ 52 then Some (a div FRAME_SIZE * FRAME_SIZE) else None)"

lemma containing_frame_api: "phys_frame_api containing_frame"
  by (auto simp: phys_frame_api_def containing_frame_def)

lemma example_frames_reachable: "frame_reachable containing_frame example_frames example_frames {}"
proof -
  have "map_ok example_map"
    by (auto simp: map_ok_def example_map_def less_Suc_eq)
  then have "frame_start example_frames"
    by (simp add: frame_start_def example_frames_def frame_new_def reserved_ok_def reserved_list_def map_filter_def)
  with containing_frame_api show ?thesis by (simp add: frame_reachable_def)
qed

lemma example_frames_alloc: "fst (allocate_frame containing_frame example_frames) = Ok (Some 0x10000)"
  by (simp add: example_frames_def frame_new_def allocate_frame_def bindR_def pop_free_frame_def
      allocate_loop.simps next_usable_region.simps example_map_def align_up_frame align_down_frame
      checked_add_def skip_reserved_def skip_ranges.simps reserved_list_def map_filter_def Let_def
      containing_frame_def e_usable_def)

theorem frame_never_double_allocated_witness:
  "fst (allocate_frame containing_frame example_frames) = Ok (Some 0x10000)
   \<and> (\<exists>e\<in>set example_map. e_usable e \<and> {0x10000..<0x11000} \<subseteq> {e_base e..<e_base e + e_length e})"
proof -
  have "allocate_frame containing_frame example_frames
      = (Ok (Some 0x10000), snd (allocate_frame containing_frame example_frames))"
    by (metis prod.collapse example_frames_alloc)
  from frame_never_double_allocated [OF example_frames_reachable this] example_frames_alloc
  show ?thesis by (simp add: example_frames_def frame_new_def)
qed


theorem frame_count_correct_witness:
  "\<exists>xs. free_frame_count example_frames = Some (length xs) \<and> set xs = settled example_frames"
  using frame_count_correct [OF example_frames_reachable] by auto

end
