(* ===== verification/Elf.thy ===== *)
theory Elf
  imports Prelude
begin

text \<open>
  The ELF64 loader (\<^verbatim>\<open>src/elf.rs\<close>): parsing the file header, reading program headers and
  collecting the loadable segments. An image is a list of bytes; reading past its end is
  the panic of the slice index. The two build features that select the accepted file types
  are the record \<open>elf_features\<close>.
\<close>

section \<open>Data\<close>

datatype elf_error = TooSmall | BadMagic | Not64Bit | NotLittleEndian | WrongMachine
  | UnsupportedType | BadHeader | BadProgramHeader | Interpreter | AddressOverflow | InvalidSegment

record elf64 =
  entry_point :: nat
  phoff :: nat
  phentsize :: nat
  phnum :: nat
  kind :: nat

record program_header =
  p_typ :: nat
  p_flags :: nat
  p_offset :: nat
  p_vaddr :: nat
  p_filesz :: nat
  p_memsz :: nat
  p_align :: nat

record elf_features =
  elf_et_dyn :: bool
  elf_et_exec :: bool

abbreviation PT_LOAD :: nat where "PT_LOAD \<equiv> 1"
abbreviation PT_INTERP :: nat where "PT_INTERP \<equiv> 3"
abbreviation ET_EXEC :: nat where "ET_EXEC \<equiv> 2"
abbreviation ET_DYN :: nat where "ET_DYN \<equiv> 3"
abbreviation EM_X86_64 :: nat where "EM_X86_64 \<equiv> 62"
abbreviation ELF_MAGIC :: bytes where "ELF_MAGIC \<equiv> [0x7f, 0x45, 0x4c, 0x46]"

section \<open>Operations\<close>

definition read_le :: "nat \<Rightarrow> bytes \<Rightarrow> nat \<Rightarrow> ('e, nat) res" where
  "read_le n b off = (if off + n \<le> length b then Ok (le_nat (subslice off n b)) else Panic)"

definition u16le :: "bytes \<Rightarrow> nat \<Rightarrow> ('e, nat) res" where "u16le b off = read_le 2 b off"
definition u32le :: "bytes \<Rightarrow> nat \<Rightarrow> ('e, nat) res" where "u32le b off = read_le 4 b off"
definition u64le :: "bytes \<Rightarrow> nat \<Rightarrow> ('e, nat) res" where "u64le b off = read_le 8 b off"

definition elf_parse :: "elf_features \<Rightarrow> bytes \<Rightarrow> (elf_error, elf64) res" where
  "elf_parse ft img =
     (if length img < 64 then Err TooSmall
      else if subslice 0 4 img \<noteq> ELF_MAGIC then Err BadMagic
      else if img ! 4 \<noteq> 2 then Err Not64Bit
      else if img ! 5 \<noteq> 1 then Err NotLittleEndian
      else if img ! 6 \<noteq> 1 then Err BadHeader
      else
        bind_res (u16le img 16) (\<lambda>k.
        if \<not> (k = ET_DYN \<and> elf_et_dyn ft \<or> k = ET_EXEC \<and> elf_et_exec ft) then Err UnsupportedType
        else
          bind_res (u16le img 18) (\<lambda>machine.
          if machine \<noteq> EM_X86_64 then Err WrongMachine
          else
            bind_res (u64le img 32) (\<lambda>off.
            bind_res (u16le img 54) (\<lambda>entsize.
            bind_res (u16le img 56) (\<lambda>num.
            if entsize < 56 then Err BadHeader
            else
              (case checked_mul entsize num of
                 None \<Rightarrow> Err BadHeader
               | Some table \<Rightarrow>
                   (case checked_add off table of
                      None \<Rightarrow> Err BadHeader
                    | Some ph_end \<Rightarrow>
                        if ph_end > length img then Err BadHeader
                        else
                          bind_res (u64le img 24) (\<lambda>ent.
                          Ok \<lparr>entry_point = ent, phoff = off, phentsize = entsize,
                              phnum = num, kind = k\<rparr>)))))))))"

definition elf_program_header :: "elf64 \<Rightarrow> bytes \<Rightarrow> nat \<Rightarrow> (elf_error, program_header) res" where
  "elf_program_header e img index =
     (if index \<ge> phnum e then Err BadProgramHeader
      else if phoff e + index * phentsize e \<ge> u64_limit then Panic
      else
        let off = phoff e + index * phentsize e in
        (case checked_add off 56 of
           None \<Rightarrow> Err BadProgramHeader
         | Some e56 \<Rightarrow>
             if e56 > length img then Err BadProgramHeader
             else
               bind_res (u32le img off) (\<lambda>typ.
               bind_res (u32le img (off + 4)) (\<lambda>flags.
               bind_res (u64le img (off + 8)) (\<lambda>offset.
               bind_res (u64le img (off + 16)) (\<lambda>vaddr.
               bind_res (u64le img (off + 32)) (\<lambda>filesz.
               bind_res (u64le img (off + 40)) (\<lambda>memsz.
               bind_res (u64le img (off + 48)) (\<lambda>align.
               Ok \<lparr>p_typ = typ, p_flags = flags, p_offset = offset, p_vaddr = vaddr,
                   p_filesz = filesz, p_memsz = memsz, p_align = align\<rparr>)))))))))"

text \<open>The loop of \<open>load_headers\<close> over the header indices.\<close>

primrec collect_headers ::
  "elf64 \<Rightarrow> bytes \<Rightarrow> nat list \<Rightarrow> program_header list \<Rightarrow> (elf_error, program_header list) res" where
  "collect_headers e img [] out = Ok out"
| "collect_headers e img (i # is) out =
     bind_res (elf_program_header e img i) (\<lambda>ph.
     if p_typ ph = PT_INTERP then Err Interpreter
     else if p_typ ph = PT_LOAD then
       (if p_filesz ph > p_memsz ph then Err InvalidSegment
        else if (case checked_add (p_offset ph) (p_filesz ph) of None \<Rightarrow> True | Some n \<Rightarrow> n > length img)
        then Err InvalidSegment
        else if checked_add (p_vaddr ph) (p_memsz ph) = None then Err AddressOverflow
        else collect_headers e img is (if p_memsz ph \<noteq> 0 then out @ [ph] else out))
     else collect_headers e img is out)"

definition elf_load_headers :: "elf64 \<Rightarrow> bytes \<Rightarrow> (elf_error, program_header list) res" where
  "elf_load_headers e img =
     bind_res (collect_headers e img [0..<phnum e] []) (\<lambda>out.
     if out = [] then Err InvalidSegment else Ok out)"

section \<open>Properties\<close>

lemma read_le_Ok: "off + n \<le> length b \<Longrightarrow> read_le n b off = Ok (le_nat (subslice off n b))"
  by (simp add: read_le_def)

text \<open>An image is a slice, so its length is a \<open>usize\<close>.\<close>

definition image_ok :: "bytes \<Rightarrow> bool" where
  "image_ok img \<longleftrightarrow> length img < u64_limit"

definition headers_in_image :: "elf64 \<Rightarrow> bytes \<Rightarrow> bool" where
  "headers_in_image e img \<longleftrightarrow> 56 \<le> phentsize e \<and> phoff e + phentsize e * phnum e \<le> length img"

lemmas elf_reads = u16le_def u32le_def u64le_def read_le_Ok

lemma elf_parse_Ok:
  assumes "elf_parse ft img = Ok e"
  shows "headers_in_image e img"
  using assms
  by (auto simp: elf_parse_def elf_reads headers_in_image_def checked_mul_def checked_add_def
      split: if_splits)

text \<open>C26: \<open>Elf64::parse\<close> accepts or rejects every image: no input makes it index out of bounds.
  An accepted header is 64-bit little-endian x86-64, of an enabled file type, and its
  program header table lies inside the image.\<close>

theorem elf_parse_safe:
  "(\<exists>err. elf_parse ft img = Err err)
   \<or> (\<exists>e. elf_parse ft img = Ok e \<and> headers_in_image e img
        \<and> take 7 img = ELF_MAGIC @ [2, 1, 1] \<and> le_nat (subslice 18 2 img) = EM_X86_64
        \<and> (kind e = ET_DYN \<and> elf_et_dyn ft \<or> kind e = ET_EXEC \<and> elf_et_exec ft))"
proof (cases "\<exists>e. elf_parse ft img = Ok e")
  case True
  then obtain e where e: "elf_parse ft img = Ok e" by blast
  have len: "64 \<le> length img" and magic: "subslice 0 4 img = ELF_MAGIC"
    and cls: "img ! 4 = 2" "img ! 5 = 1" "img ! 6 = 1"
    and rest: "le_nat (subslice 18 2 img) = EM_X86_64"
      "kind e = ET_DYN \<and> elf_et_dyn ft \<or> kind e = ET_EXEC \<and> elf_et_exec ft"
    using e by (auto simp: elf_parse_def elf_reads split: if_splits option.splits)
  have "take 7 img = take 4 img @ [img ! 4, img ! 5, img ! 6]"
    using len by (simp add: take_Suc_conv_app_nth numeral_eq_Suc)
  then show ?thesis
    using e elf_parse_Ok [OF e] magic cls rest by (simp add: subslice_def)
next
  case False
  then show ?thesis
    by (auto simp: elf_parse_def elf_reads split: if_splits option.splits)
qed

lemma elf_program_header_total:
  assumes "headers_in_image e img" and "image_ok img" and "i < phnum e"
  shows "\<exists>ph. elf_program_header e img i = Ok ph"
proof -
  have "i * phentsize e + 56 \<le> Suc i * phentsize e"
    using assms(1) by (simp add: headers_in_image_def)
  also have "\<dots> \<le> phentsize e * phnum e"
    using assms(3) by (metis Suc_leI mult.commute mult_le_mono1)
  finally have b: "phoff e + i * phentsize e + 56 \<le> length img"
    using assms(1) by (simp add: headers_in_image_def)
  with assms(2) have "phoff e + i * phentsize e + 56 < u64_limit"
    by (simp add: image_ok_def)
  with b assms(3) show ?thesis
    by (simp add: elf_program_header_def elf_reads checked_add_def Let_def)
qed

definition segment_ok :: "bytes \<Rightarrow> program_header \<Rightarrow> bool" where
  "segment_ok img ph \<longleftrightarrow> p_filesz ph \<le> p_memsz ph \<and> p_offset ph + p_filesz ph \<le> length img
     \<and> p_vaddr ph + p_memsz ph < u64_limit"

definition header_ok :: "bytes \<Rightarrow> program_header \<Rightarrow> bool" where
  "header_ok img ph \<longleftrightarrow> p_typ ph \<noteq> PT_INTERP \<and> (p_typ ph = PT_LOAD \<longrightarrow> segment_ok img ph)"

definition loadable :: "program_header \<Rightarrow> bool" where
  "loadable ph \<longleftrightarrow> p_typ ph = PT_LOAD \<and> p_memsz ph \<noteq> 0"

lemma collect_headers_spec:
  assumes "image_ok img" and "list_all2 (\<lambda>i ph. elf_program_header e img i = Ok ph) is hs"
  shows "if \<forall>h\<in>set hs. header_ok img h then collect_headers e img is out = Ok (out @ filter loadable hs)
    else \<exists>err. collect_headers e img is out = Err err"
  using assms(2)
proof (induction "is" hs arbitrary: out rule: list_all2_induct)
  case Nil
  then show ?case by simp
next
  case (Cons i "is" h hs)
  show ?case
  proof (cases "header_ok img h")
    case True
    have "(case checked_add (p_offset h) (p_filesz h) of None \<Rightarrow> True | Some n \<Rightarrow> length img < n)
        = (\<not> p_offset h + p_filesz h \<le> length img)"
      using assms(1) by (auto simp: checked_add_def image_ok_def)
    moreover have "checked_add (p_vaddr h) (p_memsz h) = None \<longleftrightarrow> \<not> p_vaddr h + p_memsz h < u64_limit"
      by (simp add: checked_add_def)
    ultimately have "collect_headers e img (i # is) out
        = collect_headers e img is (out @ filter loadable [h])"
      using Cons(1) True by (auto simp: header_ok_def segment_ok_def loadable_def not_le)
    with Cons.IH [of "out @ filter loadable [h]"] True show ?thesis by (simp split: if_splits)
  next
    case False
    then show ?thesis
      using Cons(1) by (auto simp: header_ok_def segment_ok_def checked_add_def)
  qed
qed


text \<open>The smallest image with one loadable segment: its header and one program header.\<close>

definition small_image :: bytes where
  "small_image =
     [127, 69, 76, 70, 2, 1, 1, 0, 0, 0, 0, 0, 0, 0, 0, 0, 2, 0, 62, 0, 0, 0, 0, 0,
      0, 0, 0, 0, 0, 0, 0, 0, 64, 0, 0, 0, 0, 0, 0, 0, 0, 0, 0, 0, 0, 0, 0, 0,
      0, 0, 0, 0, 0, 0, 56, 0, 1, 0, 0, 0, 0, 0, 0, 0, 1, 0, 0, 0, 5, 0, 0, 0,
      0, 0, 0, 0, 0, 0, 0, 0, 0, 16, 0, 0, 0, 0, 0, 0, 0, 0, 0, 0, 0, 0, 0, 0,
      120, 0, 0, 0, 0, 0, 0, 0, 0, 16, 0, 0, 0, 0, 0, 0, 0, 16, 0, 0, 0, 0, 0, 0]"

definition small_features :: elf_features where
  "small_features = \<lparr>elf_et_dyn = False, elf_et_exec = True\<rparr>"

definition small_elf :: elf64 where
  "small_elf = \<lparr>entry_point = 0, phoff = 64, phentsize = 56, phnum = 1, kind = 2\<rparr>"

lemma small_image_length: "length small_image = 120"
  by (simp add: small_image_def)

lemma small_image_parse: "elf_parse small_features small_image = Ok small_elf"
  by (simp add: elf_parse_def elf_reads small_image_length checked_mul_def checked_add_def)
     (simp add: small_image_def subslice_def small_features_def small_elf_def)

lemma small_image_load:
  "elf_load_headers small_elf small_image
    = Ok [\<lparr>p_typ = 1, p_flags = 5, p_offset = 0, p_vaddr = 4096, p_filesz = 120, p_memsz = 4096, p_align = 4096\<rparr>]"
  by (simp add: elf_load_headers_def small_elf_def elf_program_header_def elf_reads small_image_length
        checked_add_def Let_def)
     (simp add: small_image_def subslice_def)


end
