(* ===== verification/Block.thy ===== *)
theory Block
  imports Prelude
begin

text \<open>
  The block-device interface (\<^verbatim>\<open>src/drivers/block.rs\<close>). The trait \<open>BlockDevice\<close> is a record
  of operations on a device state; \<open>RamDisk\<close> implements it. The locale \<open>block_device\<close> is
  the contract the file system relies on.
\<close>

abbreviation SECTOR_SIZE :: nat where "SECTOR_SIZE \<equiv> 512"

datatype block_error = OutOfRange | BadBuffer | Timeout | DeviceFault

text \<open>\<open>read_sectors\<close> fills a buffer of the given length; the model returns its contents.\<close>

record 'd dev_ops =
  op_sector_count :: "'d \<Rightarrow> nat"
  op_read_sectors :: "nat \<Rightarrow> nat \<Rightarrow> ('d, block_error, bytes) prog"
  op_write_sectors :: "nat \<Rightarrow> bytes \<Rightarrow> ('d, block_error, unit) prog"
  op_flush :: "('d, block_error, unit) prog"

text \<open>A boxed device forwards every call.\<close>

definition boxed :: "'d dev_ops \<Rightarrow> 'd dev_ops" where
  "boxed D = \<lparr>op_sector_count = (\<lambda>d. op_sector_count D d),
     op_read_sectors = (\<lambda>lba len. op_read_sectors D lba len),
     op_write_sectors = (\<lambda>lba b. op_write_sectors D lba b), op_flush = op_flush D\<rparr>"

section \<open>The RAM disk\<close>

record ram_disk =
  rd_data :: bytes

definition ram_new :: "nat \<Rightarrow> (unit, ram_disk) res" where
  "ram_new sectors = (if sectors * SECTOR_SIZE < u64_limit
     then Ok \<lparr>rd_data = replicate (sectors * SECTOR_SIZE) 0\<rparr> else Panic)"

definition as_bytes :: "ram_disk \<Rightarrow> bytes" where
  "as_bytes d = rd_data d"

definition ram_range :: "ram_disk \<Rightarrow> nat \<Rightarrow> nat \<Rightarrow> (block_error, nat \<times> nat) res" where
  "ram_range d lba len =
     (if len mod SECTOR_SIZE \<noteq> 0 then Err BadBuffer
      else case checked_mul lba SECTOR_SIZE of
        None \<Rightarrow> Err OutOfRange
      | Some start \<Rightarrow>
          (case checked_add start len of
             None \<Rightarrow> Err OutOfRange
           | Some stop \<Rightarrow> if stop > length (rd_data d) then Err OutOfRange else Ok (start, stop)))"

definition ram_sector_count :: "ram_disk \<Rightarrow> nat" where
  "ram_sector_count d = length (rd_data d) div SECTOR_SIZE"

definition ram_read_sectors :: "nat \<Rightarrow> nat \<Rightarrow> (ram_disk, block_error, bytes) prog" where
  "ram_read_sectors lba len =
     bindR (\<lambda>d. (ram_range d lba len, d)) (\<lambda>(start, stop).
     getsR (\<lambda>d. subslice start (stop - start) (rd_data d)))"

definition ram_write_sectors :: "nat \<Rightarrow> bytes \<Rightarrow> (ram_disk, block_error, unit) prog" where
  "ram_write_sectors lba b =
     bindR (\<lambda>d. (ram_range d lba (length b), d)) (\<lambda>(start, stop).
     modifyR (\<lambda>d. d\<lparr>rd_data := blit start b (rd_data d)\<rparr>))"

definition ram_flush :: "(ram_disk, block_error, unit) prog" where
  "ram_flush = returnR ()"

definition ram_ops :: "ram_disk dev_ops" where
  "ram_ops = \<lparr>op_sector_count = ram_sector_count, op_read_sectors = ram_read_sectors,
     op_write_sectors = ram_write_sectors, op_flush = ram_flush\<rparr>"

section \<open>The contract of a block device\<close>

text \<open>\<open>contents d\<close> is what the device stores. A read that succeeds returns the sectors it was
  asked for and changes nothing; a write that succeeds stores them and nothing else. Reads
  and writes never panic. Nothing is promised of a write that fails.\<close>

locale block_device =
  fixes D :: "'d dev_ops" and contents :: "'d \<Rightarrow> bytes"
  assumes read_ok: "op_read_sectors D lba len d = (Ok b, d') \<Longrightarrow>
      lba * SECTOR_SIZE + len \<le> length (contents d) \<and> b = subslice (lba * SECTOR_SIZE) len (contents d)"
    and read_keeps: "op_read_sectors D lba len d = (r, d') \<Longrightarrow> contents d' = contents d"
    and read_returns: "fst (op_read_sectors D lba len d) \<noteq> Panic \<and> fst (op_read_sectors D lba len d) \<noteq> Hang"
    and write_ok: "op_write_sectors D lba b d = (Ok (), d') \<Longrightarrow>
      lba * SECTOR_SIZE + length b \<le> length (contents d)
      \<and> contents d' = blit (lba * SECTOR_SIZE) b (contents d)"
    and write_returns: "fst (op_write_sectors D lba b d) \<noteq> Panic \<and> fst (op_write_sectors D lba b d) \<noteq> Hang"
    and flush_keeps: "op_flush D d = (u, d') \<Longrightarrow> contents d' = contents d"
    and flush_returns: "fst (op_flush D d) \<noteq> Panic \<and> fst (op_flush D d) \<noteq> Hang"
begin

lemma read_length: "op_read_sectors D lba len d = (Ok b, d') \<Longrightarrow> length b = len"
  using read_ok by fastforce

lemma write_length: "op_write_sectors D lba b d = (Ok (), d') \<Longrightarrow> length (contents d') = length (contents d)"
  using write_ok by fastforce

text \<open>What was written is read back, and sectors outside the written range keep their
  contents.\<close>

lemma read_after_write:
  assumes "op_write_sectors D lba b d = (Ok (), d')" and "op_read_sectors D lba (length b) d' = (Ok c, d'')"
  shows "c = b"
  using write_ok [OF assms(1)] read_ok [OF assms(2)] by simp

lemma read_after_other_write:
  assumes "op_write_sectors D lba b d = (Ok (), d')"
    and "op_read_sectors D lba' len d' = (Ok c, d'')"
    and "lba' * SECTOR_SIZE + len \<le> lba * SECTOR_SIZE \<or> lba * SECTOR_SIZE + length b \<le> lba' * SECTOR_SIZE"
  shows "c = subslice (lba' * SECTOR_SIZE) len (contents d)"
  using write_ok [OF assms(1)] read_ok [OF assms(2)] assms(3) by (simp add: slice_blit_other)

end

lemma ram_range_Ok:
  "ram_range d lba len = Ok (start, stop) \<longleftrightarrow> len mod SECTOR_SIZE = 0 \<and> start = lba * SECTOR_SIZE
     \<and> stop = start + len \<and> stop \<le> length (rd_data d) \<and> stop < u64_limit"
  by (auto simp: ram_range_def checked_mul_def checked_add_def split: if_splits)

lemma ram_range_returns: "ram_range d lba len \<noteq> Panic" "ram_range d lba len \<noteq> Hang"
  by (auto simp: ram_range_def split: option.splits)

interpretation ram: block_device ram_ops rd_data
proof (unfold_locales, goal_cases)
  case (1 lba len d b d')
  then show ?case
    by (auto simp: ram_ops_def ram_read_sectors_def bindR_eq_Ok ram_range_Ok)
next
  case (2 lba len d r d')
  then show ?case
    by (auto simp: ram_ops_def ram_read_sectors_def bindR_def split: res.splits)
next
  case (3 lba len d)
  then show ?case
    using ram_range_returns by (auto simp: ram_ops_def ram_read_sectors_def bindR_def split: res.splits)
next
  case (4 lba b d d')
  then show ?case
    by (auto simp: ram_ops_def ram_write_sectors_def bindR_eq_Ok ram_range_Ok)
next
  case (5 lba b d)
  then show ?case
    using ram_range_returns by (auto simp: ram_ops_def ram_write_sectors_def bindR_def split: res.splits)
qed (auto simp: ram_ops_def ram_flush_def)

text \<open>C25: On the RAM disk a read that follows a write returns what was written, and a read of other
  sectors is not affected by the write.\<close>

theorem ram_disk_read_write:
  assumes "ram_write_sectors lba b d = (Ok (), d')"
  shows "ram_read_sectors lba (length b) d' = (Ok b, d')
    \<and> (lba' * SECTOR_SIZE + len \<le> lba * SECTOR_SIZE \<or> lba * SECTOR_SIZE + length b \<le> lba' * SECTOR_SIZE \<longrightarrow>
         ram_read_sectors lba' len d' = (fst (ram_read_sectors lba' len d), d'))"
proof -
  have w: "length b mod SECTOR_SIZE = 0" "lba * SECTOR_SIZE + length b \<le> length (rd_data d)"
      "lba * SECTOR_SIZE + length b < u64_limit" "d' = d\<lparr>rd_data := blit (lba * SECTOR_SIZE) b (rd_data d)\<rparr>"
    using assms by (auto simp: ram_write_sectors_def bindR_eq_Ok ram_range_Ok)
  then have len: "length (rd_data d') = length (rd_data d)"
    by simp
  then have range: "ram_range d' l n = ram_range d l n" for l n
    by (simp only: ram_range_def len)
  have "ram_range d' lba (length b) = Ok (lba * SECTOR_SIZE, lba * SECTOR_SIZE + length b)"
    using w len by (simp add: ram_range_Ok)
  then have "ram_read_sectors lba (length b) d' = (Ok b, d')"
    using w by (simp add: ram_read_sectors_def bindR_def)
  moreover have "ram_read_sectors lba' len d' = (fst (ram_read_sectors lba' len d), d')"
    if "lba' * SECTOR_SIZE + len \<le> lba * SECTOR_SIZE \<or> lba * SECTOR_SIZE + length b \<le> lba' * SECTOR_SIZE"
  proof (cases "ram_range d lba' len")
    case (Ok r)
    then have r: "r = (lba' * SECTOR_SIZE, lba' * SECTOR_SIZE + len)" "lba' * SECTOR_SIZE + len \<le> length (rd_data d)"
      using ram_range_Ok [of d lba' len "fst r" "snd r"] by (auto simp: prod_eq_iff)
    have "subslice (lba' * SECTOR_SIZE) len (rd_data d') = subslice (lba' * SECTOR_SIZE) len (rd_data d)"
      using w(2,4) r(2) that by (simp add: slice_blit_other)
    with Ok r range show ?thesis
      by (simp add: ram_read_sectors_def bindR_def)
  qed (simp_all add: ram_read_sectors_def bindR_def range)
  ultimately show ?thesis by blast
qed

definition two_sectors :: ram_disk where
  "two_sectors = \<lparr>rd_data = replicate 1024 0\<rparr>"

theorem ram_disk_read_write_witness:
  "\<exists>d'. ram_write_sectors 1 (replicate 512 7) two_sectors = (Ok (), d')
     \<and> ram_read_sectors 1 512 d' = (Ok (replicate 512 7), d')"
proof -
  have "ram_range two_sectors 1 512 = Ok (512, 1024)"
    by (simp add: ram_range_Ok two_sectors_def)
  then have w: "ram_write_sectors 1 (replicate 512 7) two_sectors
      = (Ok (), two_sectors\<lparr>rd_data := blit 512 (replicate 512 7) (rd_data two_sectors)\<rparr>)"
    by (simp add: ram_write_sectors_def bindR_def)
  with ram_disk_read_write [OF w] show ?thesis by simp
qed

end
