(* ===== verification/Ata.thy ===== *)
theory Ata
  imports Block Text
begin

text \<open>
  The ATA driver (\<^verbatim>\<open>src/drivers/ata.rs\<close>): probing, the polling loops, issuing commands with 28 and
  48 bit sector numbers, and the block device operations. Port input and output are instructions
  of the machine: \<open>port_ops\<close> has them as functions of the state of the hardware, which a drive carries.
\<close>

unbundle bit_operations_syntax

type_synonym u16 = "16 word"

abbreviation (input) REG_DATA :: nat where "REG_DATA \<equiv> 0"
abbreviation (input) REG_SECCOUNT :: nat where "REG_SECCOUNT \<equiv> 2"
abbreviation (input) REG_LBA_LO :: nat where "REG_LBA_LO \<equiv> 3"
abbreviation (input) REG_LBA_MID :: nat where "REG_LBA_MID \<equiv> 4"
abbreviation (input) REG_LBA_HI :: nat where "REG_LBA_HI \<equiv> 5"
abbreviation (input) REG_DRIVE :: nat where "REG_DRIVE \<equiv> 6"
abbreviation (input) REG_STATUS :: nat where "REG_STATUS \<equiv> 7"

abbreviation (input) ST_ERR :: u8 where "ST_ERR \<equiv> 0x01"
abbreviation (input) ST_DRQ :: u8 where "ST_DRQ \<equiv> 0x08"
abbreviation (input) ST_DF :: u8 where "ST_DF \<equiv> 0x20"
abbreviation (input) ST_BSY :: u8 where "ST_BSY \<equiv> 0x80"

abbreviation (input) CMD_READ28 :: u8 where "CMD_READ28 \<equiv> 0x20"
abbreviation (input) CMD_READ48 :: u8 where "CMD_READ48 \<equiv> 0x24"
abbreviation (input) CMD_WRITE28 :: u8 where "CMD_WRITE28 \<equiv> 0x30"
abbreviation (input) CMD_WRITE48 :: u8 where "CMD_WRITE48 \<equiv> 0x34"
abbreviation (input) CMD_FLUSH28 :: u8 where "CMD_FLUSH28 \<equiv> 0xE7"
abbreviation (input) CMD_FLUSH48 :: u8 where "CMD_FLUSH48 \<equiv> 0xEA"
abbreviation (input) CMD_IDENTIFY :: u8 where "CMD_IDENTIFY \<equiv> 0xEC"

abbreviation (input) MAX_SECTORS_PER_CMD :: nat where "MAX_SECTORS_PER_CMD \<equiv> 128"

definition SPIN_LIMIT :: nat where "SPIN_LIMIT = 5000000"

section \<open>Ports and drives\<close>

record 'h port_ops =
  pt_inb :: "nat \<Rightarrow> 'h \<Rightarrow> u8 \<times> 'h"
  pt_outb :: "nat \<Rightarrow> u8 \<Rightarrow> 'h \<Rightarrow> 'h"
  pt_inw :: "nat \<Rightarrow> 'h \<Rightarrow> u16 \<times> 'h"
  pt_outw :: "nat \<Rightarrow> u16 \<Rightarrow> 'h \<Rightarrow> 'h"

record 'h ata =
  ad_io :: nat
  ad_ctl :: nat
  ad_slave :: bool
  ad_lba48 :: bool
  ad_sectors :: nat
  ad_model :: bytes
  ad_hw :: 'h

type_synonym ('h, 'a) ap = "('h ata, block_error, 'a) prog"

text \<open>\<open>inb\<close>, \<open>outb\<close>, \<open>inw\<close> and \<open>outw\<close> on a register of the drive: the port number \<open>io + r\<close> is a \<open>u16\<close>.\<close>

definition reg_in :: "'h port_ops \<Rightarrow> nat \<Rightarrow> ('h, u8) ap" where
  "reg_in P r = (\<lambda>d. if ad_io d + r < 2 ^ 16
     then case pt_inb P (ad_io d + r) (ad_hw d) of (v, h) \<Rightarrow> (Ok v, d\<lparr>ad_hw := h\<rparr>) else (Panic, d))"

definition reg_out :: "'h port_ops \<Rightarrow> nat \<Rightarrow> u8 \<Rightarrow> ('h, unit) ap" where
  "reg_out P r v = (\<lambda>d. if ad_io d + r < 2 ^ 16
     then (Ok (), d\<lparr>ad_hw := pt_outb P (ad_io d + r) v (ad_hw d)\<rparr>) else (Panic, d))"

definition data_in :: "'h port_ops \<Rightarrow> ('h, u16) ap" where
  "data_in P = (\<lambda>d. if ad_io d + REG_DATA < 2 ^ 16
     then case pt_inw P (ad_io d + REG_DATA) (ad_hw d) of (v, h) \<Rightarrow> (Ok v, d\<lparr>ad_hw := h\<rparr>) else (Panic, d))"

definition data_out :: "'h port_ops \<Rightarrow> u16 \<Rightarrow> ('h, unit) ap" where
  "data_out P v = (\<lambda>d. if ad_io d + REG_DATA < 2 ^ 16
     then (Ok (), d\<lparr>ad_hw := pt_outw P (ad_io d + REG_DATA) v (ad_hw d)\<rparr>) else (Panic, d))"

definition ctl_in :: "'h port_ops \<Rightarrow> ('h, u8) ap" where
  "ctl_in P = (\<lambda>d. case pt_inb P (ad_ctl d) (ad_hw d) of (v, h) \<Rightarrow> (Ok v, d\<lparr>ad_hw := h\<rparr>))"

definition ctl_out :: "'h port_ops \<Rightarrow> u8 \<Rightarrow> ('h, unit) ap" where
  "ctl_out P v = modifyR (\<lambda>d. d\<lparr>ad_hw := pt_outb P (ad_ctl d) v (ad_hw d)\<rparr>)"

section \<open>Waiting and commands\<close>

definition delay :: "'h port_ops \<Rightarrow> ('h, unit) ap" where
  "delay P =
     bindR (ctl_in P) (\<lambda>_. bindR (ctl_in P) (\<lambda>_. bindR (ctl_in P) (\<lambda>_. bindR (ctl_in P) (\<lambda>_. returnR ()))))"

primrec poll_not_busy :: "'h port_ops \<Rightarrow> nat \<Rightarrow> ('h, u8) ap" where
  "poll_not_busy P 0 = throwR Timeout"
| "poll_not_busy P (Suc n) =
     bindR (reg_in P REG_STATUS) (\<lambda>s.
     if s AND ST_BSY = 0 then
       (if s AND (ST_ERR OR ST_DF) \<noteq> 0 then throwR DeviceFault else returnR s)
     else poll_not_busy P n)"

definition wait_not_busy :: "'h port_ops \<Rightarrow> ('h, u8) ap" where
  "wait_not_busy P = poll_not_busy P SPIN_LIMIT"

primrec poll_drq :: "'h port_ops \<Rightarrow> nat \<Rightarrow> ('h, unit) ap" where
  "poll_drq P 0 = throwR Timeout"
| "poll_drq P (Suc n) =
     bindR (reg_in P REG_STATUS) (\<lambda>s.
     if s AND ST_BSY = 0 then
       (if s AND (ST_ERR OR ST_DF) \<noteq> 0 then throwR DeviceFault
        else if s AND ST_DRQ \<noteq> 0 then returnR () else poll_drq P n)
     else poll_drq P n)"

definition wait_drq :: "'h port_ops \<Rightarrow> ('h, unit) ap" where
  "wait_drq P = poll_drq P SPIN_LIMIT"

text \<open>The low byte of \<open>v >> k\<close>.\<close>

definition byte_at :: "nat \<Rightarrow> nat \<Rightarrow> u8" where
  "byte_at k v = of_nat (drop_bit k v)"

definition drive_bit :: "bool \<Rightarrow> u8" where
  "drive_bit slave = push_bit 4 (of_bool slave)"

definition issue :: "'h port_ops \<Rightarrow> nat \<Rightarrow> nat \<Rightarrow> bool \<Rightarrow> ('h, unit) ap" where
  "issue P lba count write = (\<lambda>d.
     if count = 0 \<or> count > 255 then (Err BadBuffer, d)
     else if (if ad_lba48 d then lba > 0x0000FFFFFFFFFFFF else lba > 0x0FFFFFFF) then (Err OutOfRange, d)
     else
       (let drv = drive_bit (ad_slave d) in
       bindR (if ad_lba48 d then reg_out P REG_DRIVE (0x40 OR drv)
              else reg_out P REG_DRIVE (0xE0 OR drv OR of_nat (drop_bit 24 lba AND 0x0F))) (\<lambda>_.
       bindR (delay P) (\<lambda>_.
       bindR (wait_not_busy P) (\<lambda>_.
       bindR
         (if ad_lba48 d then
            bindR (reg_out P REG_SECCOUNT (byte_at 8 count)) (\<lambda>_.
            bindR (reg_out P REG_LBA_LO (byte_at 24 lba)) (\<lambda>_.
            bindR (reg_out P REG_LBA_MID (byte_at 32 lba)) (\<lambda>_.
            bindR (reg_out P REG_LBA_HI (byte_at 40 lba)) (\<lambda>_.
            bindR (reg_out P REG_SECCOUNT (byte_at 0 count)) (\<lambda>_.
            bindR (reg_out P REG_LBA_LO (byte_at 0 lba)) (\<lambda>_.
            bindR (reg_out P REG_LBA_MID (byte_at 8 lba)) (\<lambda>_.
            bindR (reg_out P REG_LBA_HI (byte_at 16 lba)) (\<lambda>_.
            returnR (if write then CMD_WRITE48 else CMD_READ48)))))))))
          else
            bindR (reg_out P REG_SECCOUNT (byte_at 0 count)) (\<lambda>_.
            bindR (reg_out P REG_LBA_LO (byte_at 0 lba)) (\<lambda>_.
            bindR (reg_out P REG_LBA_MID (byte_at 8 lba)) (\<lambda>_.
            bindR (reg_out P REG_LBA_HI (byte_at 16 lba)) (\<lambda>_.
            returnR (if write then CMD_WRITE28 else CMD_READ28)))))) (\<lambda>cmd.
       bindR (reg_out P REG_STATUS cmd) (\<lambda>_.
       delay P)))))) d)"

definition ata_check :: "'h ata \<Rightarrow> nat \<Rightarrow> nat \<Rightarrow> (block_error, nat) res" where
  "ata_check d lba len =
     (if len mod SECTOR_SIZE \<noteq> 0 then Err BadBuffer
      else
        let n = len div SECTOR_SIZE in
        (case checked_add lba n of
           None \<Rightarrow> Err OutOfRange
         | Some e \<Rightarrow> if e > ad_sectors d then Err OutOfRange else Ok n))"

section \<open>The block device\<close>

text \<open>\<open>buf[i] = v\<close> and \<open>buf[i]\<close>, which panic out of range.\<close>

definition store :: "nat \<Rightarrow> u8 \<Rightarrow> bytes \<Rightarrow> ('h, bytes) ap" where
  "store i v buf = (if i < length buf then returnR (buf[i := v]) else panicR)"

definition fetch :: "bytes \<Rightarrow> nat \<Rightarrow> ('h, u8) ap" where
  "fetch buf i = (if i < length buf then returnR (buf ! i) else panicR)"

primrec read_words :: "'h port_ops \<Rightarrow> nat \<Rightarrow> nat list \<Rightarrow> bytes \<Rightarrow> ('h, bytes) ap" where
  "read_words P base [] buf = returnR buf"
| "read_words P base (i # is) buf =
     bindR (data_in P) (\<lambda>w.
     bindR (store (base + i * 2) (ucast w) buf) (\<lambda>buf.
     bindR (store (base + i * 2 + 1) (ucast (drop_bit 8 w)) buf) (\<lambda>buf.
     read_words P base is buf)))"

primrec read_run :: "'h port_ops \<Rightarrow> nat \<Rightarrow> nat list \<Rightarrow> bytes \<Rightarrow> ('h, bytes) ap" where
  "read_run P done [] buf = returnR buf"
| "read_run P done (s # ss) buf =
     bindR (wait_drq P) (\<lambda>_.
     bindR (read_words P ((done + s) * SECTOR_SIZE) [0..<SECTOR_SIZE div 2] buf) (\<lambda>buf.
     read_run P done ss buf))"

function read_loop :: "'h port_ops \<Rightarrow> nat \<Rightarrow> nat \<Rightarrow> nat \<Rightarrow> bytes \<Rightarrow> ('h, bytes) ap" where
  "read_loop P lba count done buf =
     (if done < count then
        let n = min (count - done) MAX_SECTORS_PER_CMD in
        bindR (issue P (lba + done) n False) (\<lambda>_.
        bindR (read_run P done [0..<n] buf) (\<lambda>buf.
        read_loop P lba count (done + n) buf))
      else returnR buf)"
  by pat_completeness auto
termination
  by (relation "measure (\<lambda>(P, lba, count, done, buf). count - done)") auto

declare read_loop.simps [simp del]

definition ata_read_sectors :: "'h port_ops \<Rightarrow> nat \<Rightarrow> nat \<Rightarrow> ('h, bytes) ap" where
  "ata_read_sectors P lba len =
     bindR (\<lambda>d. (ata_check d lba len, d)) (\<lambda>count.
     read_loop P lba count 0 (replicate len 0))"

primrec write_words :: "'h port_ops \<Rightarrow> nat \<Rightarrow> bytes \<Rightarrow> nat list \<Rightarrow> ('h, unit) ap" where
  "write_words P base buf [] = returnR ()"
| "write_words P base buf (i # is) =
     bindR (fetch buf (base + i * 2)) (\<lambda>lo.
     bindR (fetch buf (base + i * 2 + 1)) (\<lambda>hi.
     bindR (data_out P (ucast lo OR push_bit 8 (ucast hi))) (\<lambda>_.
     write_words P base buf is)))"

primrec write_run :: "'h port_ops \<Rightarrow> nat \<Rightarrow> bytes \<Rightarrow> nat list \<Rightarrow> ('h, unit) ap" where
  "write_run P done buf [] = returnR ()"
| "write_run P done buf (s # ss) =
     bindR (wait_drq P) (\<lambda>_.
     bindR (write_words P ((done + s) * SECTOR_SIZE) buf [0..<SECTOR_SIZE div 2]) (\<lambda>_.
     write_run P done buf ss))"

function write_loop :: "'h port_ops \<Rightarrow> nat \<Rightarrow> bytes \<Rightarrow> nat \<Rightarrow> nat \<Rightarrow> ('h, unit) ap" where
  "write_loop P lba buf count done =
     (if done < count then
        let n = min (count - done) MAX_SECTORS_PER_CMD in
        bindR (issue P (lba + done) n True) (\<lambda>_.
        bindR (write_run P done buf [0..<n]) (\<lambda>_.
        bindR (wait_not_busy P) (\<lambda>st.
        if st AND (ST_ERR OR ST_DF) \<noteq> 0 then throwR DeviceFault
        else write_loop P lba buf count (done + n))))
      else returnR ())"
  by pat_completeness auto
termination
  by (relation "measure (\<lambda>(P, lba, buf, count, done). count - done)") auto

declare write_loop.simps [simp del]

definition ata_write_sectors :: "'h port_ops \<Rightarrow> nat \<Rightarrow> bytes \<Rightarrow> ('h, unit) ap" where
  "ata_write_sectors P lba buf =
     bindR (\<lambda>d. (ata_check d lba (length buf), d)) (\<lambda>count.
     write_loop P lba buf count 0)"

definition ata_flush :: "'h port_ops \<Rightarrow> ('h, unit) ap" where
  "ata_flush P =
     bindR (getsR ad_slave) (\<lambda>slave.
     bindR (reg_out P REG_DRIVE (0xE0 OR drive_bit slave)) (\<lambda>_.
     bindR (delay P) (\<lambda>_.
     bindR (wait_not_busy P) (\<lambda>_.
     bindR (getsR ad_lba48) (\<lambda>lba48.
     bindR (reg_out P REG_STATUS (if lba48 then CMD_FLUSH48 else CMD_FLUSH28)) (\<lambda>_.
     bindR (delay P) (\<lambda>_.
     bindR (wait_not_busy P) (\<lambda>st.
     if st AND (ST_ERR OR ST_DF) \<noteq> 0 then throwR DeviceFault else returnR ()))))))))"

definition ata_ops :: "'h port_ops \<Rightarrow> 'h ata dev_ops" where
  "ata_ops P = \<lparr>op_sector_count = ad_sectors, op_read_sectors = ata_read_sectors P,
     op_write_sectors = ata_write_sectors P, op_flush = ata_flush P\<rparr>"

section \<open>Probing\<close>

primrec read_identify :: "'h port_ops \<Rightarrow> nat \<Rightarrow> u16 list \<Rightarrow> ('h, u16 list) ap" where
  "read_identify P 0 ws = returnR ws"
| "read_identify P (Suc n) ws = bindR (data_in P) (\<lambda>w. read_identify P n (ws @ [w]))"

text \<open>What the words of IDENTIFY say: the capacity and the model.\<close>

definition word_at :: "u16 list \<Rightarrow> nat \<Rightarrow> nat" where
  "word_at w i = unat (w ! i)"

definition identify_lba28 :: "u16 list \<Rightarrow> nat" where
  "identify_lba28 w = word_at w 60 OR push_bit 16 (word_at w 61)"

definition identify_lba48 :: "u16 list \<Rightarrow> nat" where
  "identify_lba48 w = word_at w 100 OR push_bit 16 (word_at w 101) OR push_bit 32 (word_at w 102)
     OR push_bit 48 (word_at w 103)"

definition identify_model :: "u16 list \<Rightarrow> bytes" where
  "identify_model w =
     trim (utf8_lossy (concat (map (\<lambda>x. [ucast (drop_bit 8 x), ucast x]) (take 20 (drop 27 w)))))"

definition accept_identify :: "u16 list \<Rightarrow> 'h ata \<Rightarrow> 'h ata" where
  "accept_identify w d =
     (let d1 = (if w ! 83 AND push_bit 14 1 \<noteq> 0 \<and> w ! 83 AND push_bit 10 1 \<noteq> 0 \<and> identify_lba48 w \<noteq> 0
                then d\<lparr>ad_lba48 := True, ad_sectors := identify_lba48 w\<rparr>
                else d\<lparr>ad_sectors := identify_lba28 w\<rparr>)
      in d1\<lparr>ad_model := identify_model w\<rparr>)"

text \<open>The body of \<open>probe\<close>: whether it reaches its end with a drive. A failed wait makes it return \<open>None\<close>.\<close>

definition probe_drive :: "'h port_ops \<Rightarrow> bool \<Rightarrow> ('h, bool) ap" where
  "probe_drive P slave =
     bindR (ctl_out P 0x02) (\<lambda>_.
     bindR (reg_out P REG_DRIVE (0xA0 OR drive_bit slave)) (\<lambda>_.
     bindR (delay P) (\<lambda>_.
     bindR (reg_out P REG_SECCOUNT 0) (\<lambda>_.
     bindR (reg_out P REG_LBA_LO 0) (\<lambda>_.
     bindR (reg_out P REG_LBA_MID 0) (\<lambda>_.
     bindR (reg_out P REG_LBA_HI 0) (\<lambda>_.
     bindR (reg_out P REG_STATUS CMD_IDENTIFY) (\<lambda>_.
     bindR (delay P) (\<lambda>_.
     bindR (reg_in P REG_STATUS) (\<lambda>s.
     if s = 0 \<or> s = 0xFF then returnR False
     else if s AND ST_ERR \<noteq> 0 then returnR False
     else
       bindR (wait_not_busy P) (\<lambda>_.
       bindR (reg_in P REG_LBA_MID) (\<lambda>mid.
       bindR (if mid \<noteq> 0 then returnR True else bindR (reg_in P REG_LBA_HI) (\<lambda>hi. returnR (hi \<noteq> 0))) (\<lambda>other.
       if other then returnR False
       else
         bindR (wait_drq P) (\<lambda>_.
         bindR (read_identify P 256 []) (\<lambda>w.
         if w ! 49 AND push_bit 9 1 = 0 then returnR False
         else
           bindR (modifyR (accept_identify w)) (\<lambda>_.
           getsR (\<lambda>d. ad_sectors d \<noteq> 0)))))))))))))))))"

definition probe :: "'h port_ops \<Rightarrow> nat \<Rightarrow> nat \<Rightarrow> bool \<Rightarrow> ('h, unit, 'h ata option) prog" where
  "probe P io ctl slave = (\<lambda>h.
     case probe_drive P slave \<lparr>ad_io = io, ad_ctl = ctl, ad_slave = slave, ad_lba48 = False, ad_sectors = 0,
            ad_model = [], ad_hw = h\<rparr> of
       (Ok found, d) \<Rightarrow> (Ok (if found then Some d else None), ad_hw d)
     | (Err e, d) \<Rightarrow> (Ok None, ad_hw d)
     | (Panic, d) \<Rightarrow> (Panic, ad_hw d)
     | (Hang, d) \<Rightarrow> (Hang, ad_hw d))"

abbreviation PRIMARY :: "nat \<times> nat" where "PRIMARY \<equiv> (0x1F0, 0x3F6)"
abbreviation SECONDARY :: "nat \<times> nat" where "SECONDARY \<equiv> (0x170, 0x376)"

primrec probe_slots :: "'h port_ops \<Rightarrow> ((nat \<times> nat) \<times> bool) list \<Rightarrow> 'h ata list \<Rightarrow> ('h, unit, 'h ata list) prog" where
  "probe_slots P [] v = returnR v"
| "probe_slots P (slot # rest) v =
     bindR (probe P (fst (fst slot)) (snd (fst slot)) (snd slot)) (\<lambda>found.
     probe_slots P rest (case found of Some d \<Rightarrow> v @ [d] | None \<Rightarrow> v))"

text \<open>The drives share the hardware, so each carries the state that the last probe leaves.\<close>

definition probe_all :: "'h port_ops \<Rightarrow> ('h, unit, 'h ata list) prog" where
  "probe_all P =
     bindR (probe_slots P [(PRIMARY, False), (PRIMARY, True), (SECONDARY, False), (SECONDARY, True)] []) (\<lambda>v h.
     (Ok (map (\<lambda>d. d\<lparr>ad_hw := h\<rparr>) v), h))"

definition location :: "'h ata \<Rightarrow> bytes \<times> bytes" where
  "location d = (str (if ad_io d = 0x1F0 then ''primary'' else ''secondary''),
     str (if ad_slave d then ''slave'' else ''master''))"

end
