(* ===== verification/Ata_Correct.thy ===== *)
theory Ata_Correct
  imports Ata
begin

text \<open>
  The ATA driver against the ATA protocol. \<open>ata_bus\<close> is what the standard says of the two drives on
  a channel: their registers, the command that is being carried out and the contents of the disks.
  \<open>ata_protocol\<close> states that the ports of the hardware behave like it, with any delays and failures.
  The driver then answers as a RAM disk with the same contents does.
\<close>

section \<open>The protocol\<close>

text \<open>A write carries the drive, the position in bytes, the bytes received and their number in all; it
  is done once the drive reports that it is no longer busy.\<close>

datatype phase = Idle | Failed | DataIn bytes | DataOut bool nat bytes nat | Committing bool nat bytes

text \<open>The address registers hold the last two bytes written to them.\<close>

record ata_bus =
  bu_drive :: u8
  bu_count :: "u8 \<times> u8"
  bu_lo :: "u8 \<times> u8"
  bu_mid :: "u8 \<times> u8"
  bu_hi :: "u8 \<times> u8"
  bu_phase :: phase
  bu_disk :: "bool \<Rightarrow> bytes"

definition set_reg :: "nat \<Rightarrow> u8 \<Rightarrow> ata_bus \<Rightarrow> ata_bus" where
  "set_reg r v b =
     (if r = REG_SECCOUNT then b\<lparr>bu_count := (v, fst (bu_count b))\<rparr>
      else if r = REG_LBA_LO then b\<lparr>bu_lo := (v, fst (bu_lo b))\<rparr>
      else if r = REG_LBA_MID then b\<lparr>bu_mid := (v, fst (bu_mid b))\<rparr>
      else if r = REG_LBA_HI then b\<lparr>bu_hi := (v, fst (bu_hi b))\<rparr>
      else if r = REG_DRIVE then b\<lparr>bu_drive := v\<rparr>
      else b)"

definition lba28_of :: "ata_bus \<Rightarrow> nat" where
  "lba28_of b = unat (fst (bu_lo b)) + 2 ^ 8 * unat (fst (bu_mid b)) + 2 ^ 16 * unat (fst (bu_hi b))
     + 2 ^ 24 * (unat (bu_drive b) mod 16)"

definition lba48_of :: "ata_bus \<Rightarrow> nat" where
  "lba48_of b = unat (fst (bu_lo b)) + 2 ^ 8 * unat (fst (bu_mid b)) + 2 ^ 16 * unat (fst (bu_hi b))
     + 2 ^ 24 * unat (snd (bu_lo b)) + 2 ^ 32 * unat (snd (bu_mid b)) + 2 ^ 40 * unat (snd (bu_hi b))"

definition count28_of :: "ata_bus \<Rightarrow> nat" where
  "count28_of b = (if fst (bu_count b) = 0 then 256 else unat (fst (bu_count b)))"

definition count48_of :: "ata_bus \<Rightarrow> nat" where
  "count48_of b =
     (let n = unat (fst (bu_count b)) + 2 ^ 8 * unat (snd (bu_count b)) in if n = 0 then 65536 else n)"

definition start_transfer :: "bool \<Rightarrow> bool \<Rightarrow> nat \<Rightarrow> nat \<Rightarrow> ata_bus \<Rightarrow> ata_bus" where
  "start_transfer write u lba n b =
     b\<lparr>bu_phase :=
        (if (lba + n) * SECTOR_SIZE \<le> length (bu_disk b u)
         then if write then DataOut u (lba * SECTOR_SIZE) [] (n * SECTOR_SIZE)
              else DataIn (subslice (lba * SECTOR_SIZE) (n * SECTOR_SIZE) (bu_disk b u))
         else Failed)\<rparr>"

text \<open>Bit 4 of the drive register selects the drive, bit 6 sector numbers instead of cylinders.\<close>

definition run_command :: "u8 \<Rightarrow> ata_bus \<Rightarrow> ata_bus" where
  "run_command c b =
     (let u = bit (bu_drive b) 4 in
      if c = CMD_FLUSH28 \<or> c = CMD_FLUSH48 then b
      else if \<not> bit (bu_drive b) 6 then b\<lparr>bu_phase := Failed\<rparr>
      else if c = CMD_READ28 then start_transfer False u (lba28_of b) (count28_of b) b
      else if c = CMD_READ48 then start_transfer False u (lba48_of b) (count48_of b) b
      else if c = CMD_WRITE28 then start_transfer True u (lba28_of b) (count28_of b) b
      else if c = CMD_WRITE48 then start_transfer True u (lba48_of b) (count48_of b) b
      else b\<lparr>bu_phase := Failed\<rparr>)"

definition busy :: "u8 \<Rightarrow> bool" where
  "busy s \<longleftrightarrow> s AND ST_BSY \<noteq> 0"

definition faulty :: "u8 \<Rightarrow> bool" where
  "faulty s \<longleftrightarrow> s AND (ST_ERR OR ST_DF) \<noteq> 0"

definition settle :: "ata_bus \<Rightarrow> ata_bus" where
  "settle b = (case bu_phase b of
     Committing u p acc \<Rightarrow> b\<lparr>bu_phase := Idle, bu_disk := (bu_disk b)(u := blit p acc (bu_disk b u))\<rparr>
   | _ \<Rightarrow> b)"

text \<open>The drives whose contents an unfinished command may have changed.\<close>

fun touched :: "phase \<Rightarrow> bool set" where
  "touched (DataOut u p acc n) = {u}"
| "touched (Committing u p acc) = {u}"
| "touched _ = {}"

definition spares :: "bool set \<Rightarrow> ata_bus \<Rightarrow> ata_bus \<Rightarrow> bool" where
  "spares W b b' \<longleftrightarrow>
     (\<forall>u. (u \<notin> W \<longrightarrow> bu_disk b' u = bu_disk b u) \<and> length (bu_disk b' u) = length (bu_disk b u))"

text \<open>One read of the status: the drive is busy, has failed, or says the truth about the command.\<close>

definition status_law :: "u8 \<Rightarrow> ata_bus \<Rightarrow> ata_bus \<Rightarrow> bool" where
  "status_law s b b' \<longleftrightarrow>
     (if busy s then b' = b
      else if faulty s then bu_phase b' = Failed \<and> spares (touched (bu_phase b)) b b'
      else bu_phase b \<noteq> Failed \<and> b' = settle b
        \<and> (s AND ST_DRQ \<noteq> 0 \<longrightarrow> (\<exists>bs. bu_phase b = DataIn bs) \<or> (\<exists>u p acc n. bu_phase b = DataOut u p acc n)))"

definition join :: "u8 \<Rightarrow> u8 \<Rightarrow> u16" where
  "join lo hi = ucast lo OR push_bit 8 (ucast hi)"

definition took :: "bytes \<Rightarrow> ata_bus \<Rightarrow> ata_bus" where
  "took rest b = b\<lparr>bu_phase := if rest = [] then Idle else DataIn rest\<rparr>"

definition gave :: "u16 \<Rightarrow> bool \<Rightarrow> nat \<Rightarrow> bytes \<Rightarrow> nat \<Rightarrow> ata_bus \<Rightarrow> ata_bus" where
  "gave w u p acc n b =
     (let acc' = acc @ [ucast w, ucast (drop_bit 8 w)]
      in b\<lparr>bu_phase := if length acc' < n then DataOut u p acc' n else Committing u p acc'\<rparr>)"

definition ata_protocol :: "'h port_ops \<Rightarrow> nat \<Rightarrow> nat \<Rightarrow> ('h \<Rightarrow> ata_bus) \<Rightarrow> bool" where
  "ata_protocol P io ctl view \<longleftrightarrow>
     (\<forall>h. view (snd (pt_inb P ctl h)) = view h)
   \<and> (\<forall>h. status_law (fst (pt_inb P (io + REG_STATUS) h)) (view h) (view (snd (pt_inb P (io + REG_STATUS) h))))
   \<and> (\<forall>h r v. REG_SECCOUNT \<le> r \<longrightarrow> r \<le> REG_DRIVE \<longrightarrow> bu_phase (view h) \<in> {Idle, Failed} \<longrightarrow>
        view (pt_outb P (io + r) v h) = set_reg r v (view h))
   \<and> (\<forall>h c. bu_phase (view h) = Idle \<longrightarrow> view (pt_outb P (io + REG_STATUS) c h) = run_command c (view h))
   \<and> (\<forall>h x y rest. bu_phase (view h) = DataIn (x # y # rest) \<longrightarrow>
        fst (pt_inw P (io + REG_DATA) h) = join x y \<and> view (snd (pt_inw P (io + REG_DATA) h)) = took rest (view h))
   \<and> (\<forall>h w u p acc n. bu_phase (view h) = DataOut u p acc n \<longrightarrow>
        view (pt_outw P (io + REG_DATA) w h) = gave w u p acc n (view h))"

section \<open>Programs of the driver\<close>

text \<open>\<open>sound view W d m Q\<close>: from \<open>d\<close>, \<open>m\<close> changes at most the contents of the drives in \<open>W\<close>; it returns with
  \<open>Q\<close>, or it fails because of the hardware.\<close>

definition hw_error :: "block_error \<Rightarrow> ata_bus \<Rightarrow> bool" where
  "hw_error e b \<longleftrightarrow> e = Timeout \<or> e = DeviceFault \<and> bu_phase b = Failed"

definition sound :: "('h \<Rightarrow> ata_bus) \<Rightarrow> bool set \<Rightarrow> 'h ata \<Rightarrow> ('h, 'a) ap \<Rightarrow> ('a \<Rightarrow> ata_bus \<Rightarrow> bool) \<Rightarrow> bool" where
  "sound view W d m Q \<longleftrightarrow> (\<exists>r h. m d = (r, d\<lparr>ad_hw := h\<rparr>) \<and> spares W (view (ad_hw d)) (view h)
     \<and> (case r of Ok x \<Rightarrow> Q x (view h) | Err e \<Rightarrow> hw_error e (view h) | Panic \<Rightarrow> False | Hang \<Rightarrow> False))"

definition drive_ok :: "'h port_ops \<Rightarrow> ('h \<Rightarrow> ata_bus) \<Rightarrow> 'h ata \<Rightarrow> bool" where
  "drive_ok P view d \<longleftrightarrow> ad_io d + REG_STATUS < 2 ^ 16 \<and> ata_protocol P (ad_io d) (ad_ctl d) view"

lemma drive_ok_hw [simp]: "drive_ok P view (d\<lparr>ad_hw := h\<rparr>) = drive_ok P view d"
  by (simp add: drive_ok_def)

lemma spares_refl [simp]: "spares W b b"
  by (simp add: spares_def)

lemma spares_trans: "spares W a b \<Longrightarrow> spares W b c \<Longrightarrow> spares W a c"
  by (simp add: spares_def)

lemma spares_mono: "spares V a b \<Longrightarrow> V \<subseteq> W \<Longrightarrow> spares W a b"
  by (auto simp: spares_def)

lemma soundI:
  "m d = (Ok x, d\<lparr>ad_hw := h\<rparr>) \<Longrightarrow> spares W (view (ad_hw d)) (view h) \<Longrightarrow> Q x (view h) \<Longrightarrow> sound view W d m Q"
  by (auto simp: sound_def)

lemma soundE:
  assumes "sound view W d m Q"
  obtains r h where "m d = (r, d\<lparr>ad_hw := h\<rparr>)" and "spares W (view (ad_hw d)) (view h)"
    and "case r of Ok x \<Rightarrow> Q x (view h) | Err e \<Rightarrow> hw_error e (view h) | Panic \<Rightarrow> False | Hang \<Rightarrow> False"
  using assms by (auto simp: sound_def)

lemma sound_return: "Q x (view (ad_hw d)) \<Longrightarrow> sound view W d (returnR x) Q"
  by (rule soundI [where h = "ad_hw d"]) auto

lemma sound_throw: "hw_error e (view (ad_hw d)) \<Longrightarrow> sound view W d (throwR e) Q"
  by (auto simp: sound_def intro!: exI [of _ "ad_hw d"])

lemma sound_bind:
  assumes "sound view W d m R" and "\<And>x h. R x (view h) \<Longrightarrow> sound view W (d\<lparr>ad_hw := h\<rparr>) (f x) Q"
  shows "sound view W d (bindR m f) Q"
proof -
  from assms(1) obtain r h where m: "m d = (r, d\<lparr>ad_hw := h\<rparr>)" "spares W (view (ad_hw d)) (view h)"
    and r: "case r of Ok x \<Rightarrow> R x (view h) | Err e \<Rightarrow> hw_error e (view h) | Panic \<Rightarrow> False | Hang \<Rightarrow> False"
    by (rule soundE)
  show ?thesis
  proof (cases r)
    case (Ok x)
    then have "sound view W (d\<lparr>ad_hw := h\<rparr>) (f x) Q" using assms(2) r by simp
    then show ?thesis
      by (rule soundE) (use m Ok in \<open>auto simp: sound_def bindR_def intro: spares_trans\<close>)
  qed (use m r in \<open>auto simp: sound_def bindR_def\<close>)
qed

lemma sound_mono:
  assumes "sound view W d m R" and "\<And>x b. R x b \<Longrightarrow> Q x b"
  shows "sound view W d m Q"
  using assms(1) by (rule soundE) (use assms(2) in \<open>auto simp: sound_def split: res.splits\<close>)

section \<open>Steps of the driver\<close>

lemma run_command_disk [simp]: "bu_disk (run_command c b) = bu_disk b"
  by (simp add: run_command_def start_transfer_def Let_def)

lemma set_reg_disk [simp]: "bu_disk (set_reg r v b) = bu_disk b" "bu_phase (set_reg r v b) = bu_phase b"
  by (simp_all add: set_reg_def)

lemma spares_disk: "bu_disk b' = bu_disk b \<Longrightarrow> spares W b b'"
  by (simp add: spares_def)

lemma sound_reg_out:
  assumes "drive_ok P view d" and "REG_SECCOUNT \<le> r" and "r \<le> REG_DRIVE" and "bu_phase (view (ad_hw d)) \<in> {Idle, Failed}"
  shows "sound view W d (reg_out P r v) (\<lambda>_ b. b = set_reg r v (view (ad_hw d)))"
proof (rule soundI [where x = "()"])
  show "reg_out P r v d = (Ok (), d\<lparr>ad_hw := pt_outb P (ad_io d + r) v (ad_hw d)\<rparr>)"
    using assms(1,3) by (simp add: reg_out_def drive_ok_def)
qed (use assms in \<open>auto simp: drive_ok_def ata_protocol_def intro!: spares_disk\<close>)

lemma sound_command:
  assumes "drive_ok P view d" and "bu_phase (view (ad_hw d)) = Idle"
  shows "sound view W d (reg_out P REG_STATUS c) (\<lambda>_ b. b = run_command c (view (ad_hw d)))"
proof (rule soundI [where x = "()"])
  show "reg_out P REG_STATUS c d = (Ok (), d\<lparr>ad_hw := pt_outb P (ad_io d + REG_STATUS) c (ad_hw d)\<rparr>)"
    using assms(1) by (simp add: reg_out_def drive_ok_def)
qed (use assms in \<open>auto simp: drive_ok_def ata_protocol_def intro!: spares_disk\<close>)

lemma sound_delay:
  assumes "drive_ok P view d"
  shows "sound view W d (delay P) (\<lambda>_ b. b = view (ad_hw d))"
proof -
  have one: "sound view W e (ctl_in P) (\<lambda>_ b. b = view (ad_hw e))" if "drive_ok P view e" for e
    using that by (auto simp: sound_def ctl_in_def drive_ok_def ata_protocol_def split: prod.split) (metis snd_conv spares_refl)+
  show ?thesis
    unfolding delay_def
    by (intro sound_bind [OF one] sound_return) (use assms in auto)
qed

text \<open>A status read, with what the driver does in each case left open.\<close>

lemma status_read:
  assumes "drive_ok P view d" and "touched (bu_phase (view (ad_hw d))) \<subseteq> W"
    and "\<And>u p acc. bu_phase (view (ad_hw d)) = Committing u p acc \<Longrightarrow> p + length acc \<le> length (bu_disk (view (ad_hw d)) u)"
  obtains s h where "reg_in P REG_STATUS d = (Ok s, d\<lparr>ad_hw := h\<rparr>)" and "status_law s (view (ad_hw d)) (view h)"
    and "spares W (view (ad_hw d)) (view h)"
proof -
  obtain s h where p: "pt_inb P (ad_io d + REG_STATUS) (ad_hw d) = (s, h)" by (cases "pt_inb P (ad_io d + REG_STATUS) (ad_hw d)")
  then have law: "status_law s (view (ad_hw d)) (view h)"
    using assms(1) by (metis drive_ok_def ata_protocol_def fst_conv snd_conv)
  moreover have "spares W (view (ad_hw d)) (settle (view (ad_hw d)))"
    using assms(2,3) by (auto simp: spares_def settle_def split: phase.splits)
  ultimately have "spares W (view (ad_hw d)) (view h)"
    using assms(2) spares_mono by (auto simp: status_law_def split: if_splits)
  with law p assms(1) that show thesis by (simp add: reg_in_def drive_ok_def)
qed

lemma sound_poll_not_busy:
  assumes "drive_ok P view d" and "touched (bu_phase (view (ad_hw d))) \<subseteq> W"
    and "\<And>u p acc. bu_phase (view (ad_hw d)) = Committing u p acc \<Longrightarrow> p + length acc \<le> length (bu_disk (view (ad_hw d)) u)"
  shows "sound view W d (poll_not_busy P n)
    (\<lambda>s b. \<not> faulty s \<and> bu_phase (view (ad_hw d)) \<noteq> Failed \<and> b = settle (view (ad_hw d)))"
  using assms
proof (induction n arbitrary: d)
  case (Suc n)
  from status_read [OF Suc.prems] obtain s h where s: "reg_in P REG_STATUS d = (Ok s, d\<lparr>ad_hw := h\<rparr>)"
    "status_law s (view (ad_hw d)) (view h)" "spares W (view (ad_hw d)) (view h)" by blast
  show ?case
  proof (cases "busy s")
    case True
    with s(2) have "view h = view (ad_hw d)" by (simp add: status_law_def)
    with Suc.IH [of "d\<lparr>ad_hw := h\<rparr>"] Suc.prems have "sound view W (d\<lparr>ad_hw := h\<rparr>) (poll_not_busy P n)
      (\<lambda>s b. \<not> faulty s \<and> bu_phase (view (ad_hw d)) \<noteq> Failed \<and> b = settle (view (ad_hw d)))" by simp
    then show ?thesis
      by (rule soundE) (use s True in \<open>auto simp: sound_def bindR_def busy_def intro: spares_trans\<close>)
  next
    case False
    with s show ?thesis
      by (auto simp: sound_def bindR_def busy_def faulty_def status_law_def hw_error_def)
  qed
qed (simp add: sound_throw hw_error_def)

lemma sound_poll_drq:
  assumes "drive_ok P view d" and "touched (bu_phase (view (ad_hw d))) \<subseteq> W"
    and "\<And>u p acc. bu_phase (view (ad_hw d)) \<noteq> Committing u p acc"
  shows "sound view W d (poll_drq P n) (\<lambda>_ b. b = view (ad_hw d) \<and> bu_phase b \<noteq> Failed \<and> bu_phase b \<noteq> Idle)"
  using assms
proof (induction n arbitrary: d)
  case (Suc n)
  from status_read [OF Suc.prems(1,2)] Suc.prems(3) obtain s h where s: "reg_in P REG_STATUS d = (Ok s, d\<lparr>ad_hw := h\<rparr>)"
    "status_law s (view (ad_hw d)) (view h)" "spares W (view (ad_hw d)) (view h)" by blast
  have settled: "settle (view (ad_hw d)) = view (ad_hw d)"
    using Suc.prems(3) by (simp add: settle_def split: phase.split)
  show ?case
  proof (cases "busy s \<or> (\<not> faulty s \<and> s AND ST_DRQ = 0)")
    case True
    with s(2) settled have "view h = view (ad_hw d)" by (auto simp: status_law_def split: if_splits)
    with Suc.IH [of "d\<lparr>ad_hw := h\<rparr>"] Suc.prems have "sound view W (d\<lparr>ad_hw := h\<rparr>) (poll_drq P n)
      (\<lambda>_ b. b = view (ad_hw d) \<and> bu_phase b \<noteq> Failed \<and> bu_phase b \<noteq> Idle)" by simp
    then show ?thesis
      by (rule soundE) (use s True in \<open>auto simp: sound_def bindR_def busy_def faulty_def intro: spares_trans\<close>)
  next
    case False
    with s settled show ?thesis
      by (auto simp: sound_def bindR_def busy_def faulty_def status_law_def hw_error_def)
  qed
qed (simp add: sound_throw hw_error_def)

section \<open>Commands\<close>

lemma unat_byte_at: "unat (byte_at k v) = v div 2 ^ k mod 2 ^ 8"
  by (simp add: byte_at_def unat_of_nat take_bit_eq_mod drop_bit_eq_div)

lemma lba_bytes:
  fixes v :: nat
  assumes "v < 2 ^ 48"
  shows "v mod 2 ^ 8 + 2 ^ 8 * (v div 2 ^ 8 mod 2 ^ 8) + 2 ^ 16 * (v div 2 ^ 16 mod 2 ^ 8)
    + 2 ^ 24 * (v div 2 ^ 24 mod 2 ^ 8) + 2 ^ 32 * (v div 2 ^ 32 mod 2 ^ 8) + 2 ^ 40 * (v div 2 ^ 40 mod 2 ^ 8) = v"
proof -
  have step: "v mod 2 ^ (k + 8) = 2 ^ k * (v div 2 ^ k mod 2 ^ 8) + v mod 2 ^ k" for k
    using mod_mult2_eq [of v "2 ^ k" "2 ^ 8"] by (simp only: power_add)
  show ?thesis
    using step [of 8] step [of 16] step [of 24] step [of 32] step [of 40] mod_less [OF assms] by simp
qed

lemma lba_bytes28:
  fixes v :: nat
  assumes "v < 2 ^ 28"
  shows "v mod 2 ^ 8 + 2 ^ 8 * (v div 2 ^ 8 mod 2 ^ 8) + 2 ^ 16 * (v div 2 ^ 16 mod 2 ^ 8)
    + 2 ^ 24 * (v div 2 ^ 24) = v"
proof -
  have step: "v mod 2 ^ (k + 8) = 2 ^ k * (v div 2 ^ k mod 2 ^ 8) + v mod 2 ^ k" for k
    using mod_mult2_eq [of v "2 ^ k" "2 ^ 8"] by (simp only: power_add)
  have "v = 2 ^ 24 * (v div 2 ^ 24) + v mod 2 ^ 24" by simp
  also have "v mod 2 ^ 24 = 2 ^ 16 * (v div 2 ^ 16 mod 2 ^ 8) + (2 ^ 8 * (v div 2 ^ 8 mod 2 ^ 8) + v mod 2 ^ 8)"
    using step [of 8] step [of 16] by simp
  finally show ?thesis by simp
qed

lemma drive_register48:
  "bit (0x40 OR drive_bit slave) 4 = slave" "bit (0x40 OR drive_bit slave) 6"
  by (cases slave; simp add: drive_bit_def bit_simps)+

lemma drive_register28:
  assumes "n < 16"
  shows "bit (0xE0 OR drive_bit slave OR of_nat n) 4 = slave" "bit (0xE0 OR drive_bit slave OR of_nat n) 6"
    "unat (0xE0 OR drive_bit slave OR of_nat n) mod 16 = n"
proof -
  have "\<forall>n\<in>set [0..<16]. bit (0xE0 OR drive_bit slave OR of_nat n) 4 = slave
      \<and> bit (0xE0 OR drive_bit slave OR of_nat n) 6 \<and> unat (0xE0 OR drive_bit slave OR of_nat n) mod 16 = n"
    by (cases slave) (simp_all add: upt_rec drive_bit_def)
  with assms show "bit (0xE0 OR drive_bit slave OR of_nat n) 4 = slave" "bit (0xE0 OR drive_bit slave OR of_nat n) 6"
      "unat (0xE0 OR drive_bit slave OR of_nat n) mod 16 = n"
    by auto
qed

lemma low_nibble: "lba < 2 ^ 28 \<Longrightarrow> drop_bit 24 lba AND 0x0F = lba div 2 ^ 24" for lba :: nat
  using take_bit_eq_mask [of 4 "lba div 2 ^ 24"]
  by (simp add: drop_bit_eq_div mask_eq_exp_minus_1 div_less_iff_less_mult take_bit_eq_mod)

lemma sound_bind_reg:
  assumes "drive_ok P view d" and "REG_SECCOUNT \<le> r" and "r \<le> REG_DRIVE" and "bu_phase (view (ad_hw d)) \<in> {Idle, Failed}"
    and "\<And>h. view h = set_reg r v (view (ad_hw d)) \<Longrightarrow> sound view W (d\<lparr>ad_hw := h\<rparr>) (f ()) Q"
  shows "sound view W d (bindR (reg_out P r v) f) Q"
  by (rule sound_bind [OF sound_reg_out [OF assms(1-4)]]) (use assms(5) in simp)

lemma sound_bind_delay:
  assumes "drive_ok P view d" and "\<And>h. view h = view (ad_hw d) \<Longrightarrow> sound view W (d\<lparr>ad_hw := h\<rparr>) (f ()) Q"
  shows "sound view W d (bindR (delay P) f) Q"
  by (rule sound_bind [OF sound_delay [OF assms(1)]]) (use assms(2) in simp)

lemma settle_idle [simp]: "bu_phase b = Idle \<Longrightarrow> settle b = b"
  by (simp add: settle_def)

lemma sound_bind_idle:
  assumes "drive_ok P view d" and "bu_phase (view (ad_hw d)) \<in> {Idle, Failed}"
    and "\<And>s h. view h = view (ad_hw d) \<Longrightarrow> bu_phase (view h) = Idle \<Longrightarrow> \<not> faulty s \<Longrightarrow> sound view W (d\<lparr>ad_hw := h\<rparr>) (f s) Q"
  shows "sound view W d (bindR (wait_not_busy P) f) Q"
proof -
  have "sound view W d (wait_not_busy P) (\<lambda>s b. \<not> faulty s \<and> bu_phase (view (ad_hw d)) \<noteq> Failed \<and> b = settle (view (ad_hw d)))"
    unfolding wait_not_busy_def by (rule sound_poll_not_busy) (use assms(1,2) in auto)
  then show ?thesis
    by (rule sound_bind) (use assms(2,3) in auto)
qed

lemma start_transfer_phase:
  "bu_disk b = bu_disk b' \<Longrightarrow> bu_phase (start_transfer write u lba n b) = bu_phase (start_transfer write u lba n b')"
  by (simp add: start_transfer_def)

lemma sound_cong: "m d = m' d \<Longrightarrow> sound view W d m Q = sound view W d m' Q"
  by (simp add: sound_def)

lemma start_transfer_disk [simp]: "bu_disk (start_transfer write u lba n b) = bu_disk b"
  by (simp add: start_transfer_def)

text \<open>\<open>issue\<close> without the tests that pass.\<close>

lemma issue48:
  assumes "ad_lba48 d" and "lba < 2 ^ 48" and "0 < n" and "n \<le> 255"
  shows "sound view W d (issue P lba n write) Q = sound view W d
    (bindR (reg_out P REG_DRIVE (0x40 OR drive_bit (ad_slave d))) (\<lambda>_. bindR (delay P) (\<lambda>_. bindR (wait_not_busy P) (\<lambda>_.
     bindR (reg_out P REG_SECCOUNT (byte_at 8 n)) (\<lambda>_. bindR (reg_out P REG_LBA_LO (byte_at 24 lba)) (\<lambda>_.
     bindR (reg_out P REG_LBA_MID (byte_at 32 lba)) (\<lambda>_. bindR (reg_out P REG_LBA_HI (byte_at 40 lba)) (\<lambda>_.
     bindR (reg_out P REG_SECCOUNT (byte_at 0 n)) (\<lambda>_. bindR (reg_out P REG_LBA_LO (byte_at 0 lba)) (\<lambda>_.
     bindR (reg_out P REG_LBA_MID (byte_at 8 lba)) (\<lambda>_. bindR (reg_out P REG_LBA_HI (byte_at 16 lba)) (\<lambda>_.
     bindR (reg_out P REG_STATUS (if write then CMD_WRITE48 else CMD_READ48)) (\<lambda>_. delay P))))))))))))) Q"
  by (rule sound_cong) (use assms in \<open>simp add: issue_def Let_def bindR_assoc\<close>)

lemma issue28:
  assumes "\<not> ad_lba48 d" and "lba < 2 ^ 28" and "0 < n" and "n \<le> 255"
  shows "sound view W d (issue P lba n write) Q = sound view W d
    (bindR (reg_out P REG_DRIVE (0xE0 OR drive_bit (ad_slave d) OR of_nat (lba div 2 ^ 24))) (\<lambda>_. bindR (delay P) (\<lambda>_.
     bindR (wait_not_busy P) (\<lambda>_. bindR (reg_out P REG_SECCOUNT (byte_at 0 n)) (\<lambda>_.
     bindR (reg_out P REG_LBA_LO (byte_at 0 lba)) (\<lambda>_. bindR (reg_out P REG_LBA_MID (byte_at 8 lba)) (\<lambda>_.
     bindR (reg_out P REG_LBA_HI (byte_at 16 lba)) (\<lambda>_.
     bindR (reg_out P REG_STATUS (if write then CMD_WRITE28 else CMD_READ28)) (\<lambda>_. delay P))))))))) Q"
  by (rule sound_cong) (use assms low_nibble [OF assms(2)] in \<open>simp add: issue_def Let_def bindR_assoc\<close>)

text \<open>What the programmed registers stand for.\<close>

lemma run_command48:
  assumes "lba < 2 ^ 48" and "0 < n" and "n \<le> 255"
    and "bu_drive b = 0x40 OR drive_bit slave" and "bu_count b = (byte_at 0 n, byte_at 8 n)"
    and "bu_lo b = (byte_at 0 lba, byte_at 24 lba)" and "bu_mid b = (byte_at 8 lba, byte_at 32 lba)"
    and "bu_hi b = (byte_at 16 lba, byte_at 40 lba)"
  shows "run_command (if write then CMD_WRITE48 else CMD_READ48) b = start_transfer write slave lba n b"
proof -
  have "lba48_of b = lba"
    using lba_bytes [OF assms(1)] assms(6-8) by (simp add: lba48_of_def unat_byte_at)
  moreover have "count48_of b = n"
    using assms(2,3,5) by (simp add: count48_of_def unat_byte_at)
  ultimately show ?thesis
    using drive_register48 [of slave] assms(4) by (simp add: run_command_def Let_def)
qed

lemma run_command28:
  assumes "lba < 2 ^ 28" and "0 < n" and "n \<le> 255"
    and "bu_drive b = 0xE0 OR drive_bit slave OR of_nat (lba div 2 ^ 24)" and "fst (bu_count b) = byte_at 0 n"
    and "fst (bu_lo b) = byte_at 0 lba" and "fst (bu_mid b) = byte_at 8 lba" and "fst (bu_hi b) = byte_at 16 lba"
  shows "run_command (if write then CMD_WRITE28 else CMD_READ28) b = start_transfer write slave lba n b"
proof -
  have top: "lba div 2 ^ 24 < 16" using assms(1) by (simp add: div_less_iff_less_mult)
  have "lba28_of b = lba"
    using lba_bytes28 [OF assms(1)] drive_register28(3) [OF top] assms(4,6-8) by (simp add: lba28_of_def unat_byte_at)
  moreover have "count28_of b = n"
    using assms(2,3,5) unat_byte_at [of 0 n] by (auto simp: count28_of_def)
  ultimately show ?thesis
    using drive_register28(1,2) [OF top, of slave] assms(4) by (simp add: run_command_def Let_def)
qed

text \<open>A command is issued for exactly the sectors the driver asks for.\<close>

lemma sound_issue:
  assumes ok: "drive_ok P view d" and idle: "bu_phase (view (ad_hw d)) \<in> {Idle, Failed}" and n: "0 < n" "n \<le> 255"
    and lba: "lba < (if ad_lba48 d then 2 ^ 48 else 2 ^ 28)"
  shows "sound view W d (issue P lba n write) (\<lambda>_ b. bu_disk b = bu_disk (view (ad_hw d))
    \<and> bu_phase b = bu_phase (start_transfer write (ad_slave d) lba n (view (ad_hw d))))"
proof -
  have finish: "sound view W e (bindR (reg_out P REG_STATUS c) (\<lambda>_. delay P)) (\<lambda>_ b. b = run_command c (view (ad_hw e)))"
    if "drive_ok P view e" "bu_phase (view (ad_hw e)) = Idle" for c e
    using that by (auto intro!: sound_bind [OF sound_command] intro: sound_mono [OF sound_delay])
  show ?thesis
  proof (cases "ad_lba48 d")
    case True
    then have b: "lba < 2 ^ 48" using lba by simp
    show ?thesis
      unfolding issue48 [OF True b n]
      by (intro sound_bind_reg sound_bind_delay sound_bind_idle sound_mono [OF finish])
        (use ok idle n b run_command48 [of lba n _ "ad_slave d" "write"] in
          \<open>auto simp: set_reg_def split del: if_split intro: start_transfer_phase\<close>)
  next
    case False
    then have b: "lba < 2 ^ 28" using lba by simp
    show ?thesis
      unfolding issue28 [OF False b n]
      by (intro sound_bind_reg sound_bind_delay sound_bind_idle sound_mono [OF finish])
        (use ok idle n b run_command28 [of lba n _ "ad_slave d" "write"] in
          \<open>auto simp: set_reg_def split del: if_split intro: start_transfer_phase\<close>)
  qed
qed

section \<open>Transfers\<close>

lemma join_bytes [simp]: "ucast (join x y) = x" "ucast (drop_bit 8 (join x y)) = y"
  by (rule bit_word_eqI; auto simp: join_def bit_simps dest: bit_imp_le_length)+

lemma blit_twice:
  assumes "off + length v + length w \<le> length b"
  shows "blit (off + length v) w (blit off v b) = blit off (v @ w) b"
  by (rule nth_equalityI) (use assms in \<open>auto simp: nth_blit nth_append\<close>)

lemma update_pair:
  "off + 1 < length b \<Longrightarrow> b[off := x, Suc off := y] = blit off [x, y] b"
  by (rule nth_equalityI) (auto simp: nth_blit nth_list_update nth_Cons' less_Suc_eq)

lemma subslice_join: "subslice off m b @ subslice (off + m) n b = subslice off (m + n) b"
  by (simp add: subslice_def take_add add.commute)

lemma sound_data_in:
  assumes "drive_ok P view d" and "bu_phase (view (ad_hw d)) = DataIn (x # y # rest)"
  shows "sound view W d (data_in P) (\<lambda>w b. w = join x y \<and> b = took rest (view (ad_hw d)))"
proof -
  obtain w h where p: "pt_inw P (ad_io d + REG_DATA) (ad_hw d) = (w, h)" by (cases "pt_inw P (ad_io d + REG_DATA) (ad_hw d)")
  then have "w = join x y" "view h = took rest (view (ad_hw d))"
    using assms by (metis drive_ok_def ata_protocol_def fst_conv, metis drive_ok_def ata_protocol_def snd_conv assms(1,2))
  with p assms(1) show ?thesis
    by (intro soundI [where h = h]) (auto simp: data_in_def drive_ok_def took_def intro: spares_disk)
qed

lemma sound_read_words:
  assumes "drive_ok P view d" and "bu_phase (view (ad_hw d)) = DataIn (bs @ rest)" and "i < m"
    and "length bs = 2 * (m - i)" and "base + 2 * m \<le> length buf"
  shows "sound view W d (read_words P base [i..<m] buf)
    (\<lambda>buf' b. buf' = blit (base + 2 * i) bs buf \<and> b = took rest (view (ad_hw d)))"
  using assms
proof (induction "m - i" arbitrary: i d bs buf)
  case (Suc k)
  obtain x y bs' where bs: "bs = x # y # bs'" "length bs' = 2 * (m - Suc i)"
    using Suc.prems(3,4) by (cases bs; cases "tl bs") auto
  have i: "[i..<m] = i # [Suc i..<m]" using Suc.prems(3) by (simp add: upt_conv_Cons)
  have off: "base + i * 2 + 1 < length buf" using Suc.prems(3,5) by linarith
  have upd: "buf[base + i * 2 := x, Suc (base + i * 2) := y] = blit (base + 2 * i) [x, y] buf"
    using update_pair [of "base + i * 2" buf x y] off by (simp add: mult.commute)
  have "sound view W (d\<lparr>ad_hw := h\<rparr>) (read_words P base [Suc i..<m] (blit (base + 2 * i) [x, y] buf))
      (\<lambda>buf' b. buf' = blit (base + 2 * i) bs buf \<and> b = took rest (view (ad_hw d)))"
    if h: "view h = took (bs' @ rest) (view (ad_hw d))" for h
  proof (cases "Suc i < m")
    case True
    then have "bs' \<noteq> []" using bs(2) by auto
    then have "sound view W (d\<lparr>ad_hw := h\<rparr>) (read_words P base [Suc i..<m] (blit (base + 2 * i) [x, y] buf))
      (\<lambda>buf' b. buf' = blit (base + 2 * Suc i) bs' (blit (base + 2 * i) [x, y] buf) \<and> b = took rest (view h))"
      using Suc.hyps(1) [of "Suc i" "d\<lparr>ad_hw := h\<rparr>" bs' "blit (base + 2 * i) [x, y] buf"] Suc.hyps(2) Suc.prems(1,5) bs(2) h True off
      by (auto simp: took_def)
    then show ?thesis
      by (rule sound_mono) (use h bs Suc.prems(5) True blit_twice [of "base + 2 * i" "[x, y]" bs' buf] in \<open>auto simp: took_def\<close>)
  next
    case False
    then show ?thesis using bs h Suc.prems(3) by (auto intro!: sound_return)
  qed
  then show ?case
    unfolding i read_words.simps
    by (intro sound_bind [OF sound_data_in [OF Suc.prems(1), of x y "bs' @ rest"]])
       (use Suc.prems(2) bs(1) off upd in \<open>auto simp: store_def\<close>)
qed simp

lemma sound_bind_drq:
  assumes "drive_ok P view d" and "touched (bu_phase (view (ad_hw d))) \<subseteq> W" and "\<And>u p acc. bu_phase (view (ad_hw d)) \<noteq> Committing u p acc"
    and "\<And>h. view h = view (ad_hw d) \<Longrightarrow> sound view W (d\<lparr>ad_hw := h\<rparr>) (f ()) Q"
  shows "sound view W d (bindR (wait_drq P) f) Q"
  unfolding wait_drq_def by (rule sound_bind [OF sound_poll_drq [OF assms(1-3)]]) (use assms(4) in auto)

lemma sound_read_run:
  assumes "drive_ok P view d" and "bu_phase (view (ad_hw d)) = (if s < n then DataIn bs else Idle)" and "s \<le> n"
    and "length bs = SECTOR_SIZE * (n - s)" and "(k + n) * SECTOR_SIZE \<le> length buf"
  shows "sound view W d (read_run P k [s..<n] buf) (\<lambda>buf' b. buf' = blit ((k + s) * SECTOR_SIZE) bs buf
    \<and> bu_phase b = Idle \<and> bu_disk b = bu_disk (view (ad_hw d)))"
  using assms
proof (induction "n - s" arbitrary: s d bs buf)
  case 0
  then have "[s..<n] = []" "blit ((k + s) * SECTOR_SIZE) bs buf = buf" by (simp_all add: blit_def)
  with 0 show ?case by (simp only: read_run.simps) (rule sound_return, simp)
next
  case (Suc j)
  then have s: "s < n" by simp
  let ?a = "take SECTOR_SIZE bs" and ?r = "drop SECTOR_SIZE bs" and ?o = "(k + s) * SECTOR_SIZE"
  have len: "length ?a = SECTOR_SIZE" "length ?r = SECTOR_SIZE * (n - Suc s)" and last: "?r = [] \<longleftrightarrow> Suc s = n"
    using Suc.prems(4) s by (auto simp: diff_mult_distrib2)
  have room: "?o + SECTOR_SIZE \<le> length buf" "?o + length ?a + length ?r \<le> length buf"
    using Suc.prems(4,5) s len by (auto simp: algebra_simps)
  have rest: "sound view W (d\<lparr>ad_hw := h\<rparr>) (read_run P k [Suc s..<n] (blit ?o ?a buf))
      (\<lambda>buf' b. buf' = blit ?o bs buf \<and> bu_phase b = Idle \<and> bu_disk b = bu_disk (view (ad_hw d)))"
    if "view h = took ?r (view (ad_hw d))" for h
  proof -
    have "sound view W (d\<lparr>ad_hw := h\<rparr>) (read_run P k [Suc s..<n] (blit ?o ?a buf))
      (\<lambda>buf' b. buf' = blit ((k + Suc s) * SECTOR_SIZE) ?r (blit ?o ?a buf) \<and> bu_phase b = Idle \<and> bu_disk b = bu_disk (view h))"
      using Suc.hyps(1) [of "Suc s" "d\<lparr>ad_hw := h\<rparr>" ?r "blit ?o ?a buf"] Suc.hyps(2) Suc.prems(1,5) s len last that room(1)
      by (auto simp: took_def)
    then show ?thesis
      by (rule sound_mono) (use that blit_twice [OF room(2)] len(1) in \<open>auto simp: took_def algebra_simps\<close>)
  qed
  show ?case
    unfolding upt_conv_Cons [OF s] read_run.simps
  proof (rule sound_bind_drq)
    fix h assume h: "view h = view (ad_hw d)"
    have "sound view W (d\<lparr>ad_hw := h\<rparr>) (read_words P ?o [0..<SECTOR_SIZE div 2] buf)
        (\<lambda>buf' b. buf' = blit (?o + 2 * 0) ?a buf \<and> b = took ?r (view (ad_hw (d\<lparr>ad_hw := h\<rparr>))))"
      by (rule sound_read_words) (use Suc.prems(1,2) s h len room(1) in auto)
    then show "sound view W (d\<lparr>ad_hw := h\<rparr>) (bindR (read_words P ?o [0..<SECTOR_SIZE div 2] buf) (read_run P k [Suc s..<n]))
        (\<lambda>buf' b. buf' = blit ?o bs buf \<and> bu_phase b = Idle \<and> bu_disk b = bu_disk (view (ad_hw d)))"
      by (rule sound_bind) (use rest h in auto)
  qed (use Suc.prems(1,2) s in auto)
qed

lemma sound_read_loop:
  assumes "drive_ok P view d" and "bu_phase (view (ad_hw d)) = Idle" and "k \<le> count" and "length buf = count * SECTOR_SIZE"
    and "(lba + count) * SECTOR_SIZE \<le> length (bu_disk (view (ad_hw d)) (ad_slave d))"
    and "lba + count \<le> (if ad_lba48 d then 2 ^ 48 else 2 ^ 28)"
  shows "sound view W d (read_loop P lba count k buf)
    (\<lambda>buf' b. buf' = blit (k * SECTOR_SIZE)
        (subslice ((lba + k) * SECTOR_SIZE) ((count - k) * SECTOR_SIZE) (bu_disk (view (ad_hw d)) (ad_slave d))) buf
      \<and> bu_phase b = Idle \<and> bu_disk b = bu_disk (view (ad_hw d)))"
  using assms
proof (induction "count - k" arbitrary: k d buf rule: less_induct)
  case less
  let ?D = "bu_disk (view (ad_hw d)) (ad_slave d)"
  show ?case
  proof (cases "k < count")
    case False
    then have "blit (k * SECTOR_SIZE) (subslice ((lba + k) * SECTOR_SIZE) ((count - k) * SECTOR_SIZE) ?D) buf = buf"
      by (simp add: subslice_def blit_def)
    with False less.prems show ?thesis
      by (subst read_loop.simps) (simp only: if_False, rule sound_return, simp)
  next
    case True
    define n where "n = min (count - k) MAX_SECTORS_PER_CMD"
    have n: "0 < n" "n \<le> 255" "k + n \<le> count" "n \<le> count - k" using True by (auto simp: n_def)
    let ?a = "subslice ((lba + k) * SECTOR_SIZE) (n * SECTOR_SIZE) ?D"
      and ?r = "subslice ((lba + (k + n)) * SECTOR_SIZE) ((count - (k + n)) * SECTOR_SIZE) ?D"
    have fits: "(lba + k + n) * SECTOR_SIZE \<le> length ?D"
      using less.prems(5) mult_le_mono1 [OF n(3), of SECTOR_SIZE] by (simp add: algebra_simps)
    have whole: "?a @ ?r = subslice ((lba + k) * SECTOR_SIZE) ((count - k) * SECTOR_SIZE) ?D"
      using subslice_join [of "(lba + k) * SECTOR_SIZE" "n * SECTOR_SIZE" ?D "(count - (k + n)) * SECTOR_SIZE"] n(3)
      by (simp add: algebra_simps diff_mult_distrib)
    have len: "length ?a = n * SECTOR_SIZE" "length ?r = (count - (k + n)) * SECTOR_SIZE"
      using fits less.prems(5) n(3) by (auto intro!: length_slice simp: algebra_simps)
    have rest: "sound view W (d\<lparr>ad_hw := h\<rparr>) (read_loop P lba count (k + n) (blit (k * SECTOR_SIZE) ?a buf))
        (\<lambda>buf' b. buf' = blit (k * SECTOR_SIZE) (?a @ ?r) buf \<and> bu_phase b = Idle \<and> bu_disk b = bu_disk (view (ad_hw d)))"
      if "bu_phase (view h) = Idle" "bu_disk (view h) = bu_disk (view (ad_hw d))" for h
    proof -
      have room: "k * SECTOR_SIZE + length ?a + length ?r \<le> length buf"
        unfolding len less.prems(4) using n(3) by (simp add: algebra_simps diff_mult_distrib)
      have "length (blit (k * SECTOR_SIZE) ?a buf) = count * SECTOR_SIZE"
        using room less.prems(4) by simp
      from less.hyps [of "k + n" "d\<lparr>ad_hw := h\<rparr>", OF _ _ _ _ this] less.prems(1,5,6) n that
      have "sound view W (d\<lparr>ad_hw := h\<rparr>) (read_loop P lba count (k + n) (blit (k * SECTOR_SIZE) ?a buf))
          (\<lambda>buf' b. buf' = blit ((k + n) * SECTOR_SIZE) ?r (blit (k * SECTOR_SIZE) ?a buf)
            \<and> bu_phase b = Idle \<and> bu_disk b = bu_disk (view (ad_hw d)))" by simp
      then show ?thesis
        by (rule sound_mono) (use blit_twice [OF room] len(1) in \<open>auto simp: add_mult_distrib\<close>)
    qed
    have run: "sound view W (d\<lparr>ad_hw := h\<rparr>) (read_run P k [0..<n] buf) (\<lambda>buf' b. buf' = blit ((k + 0) * SECTOR_SIZE) ?a buf
        \<and> bu_phase b = Idle \<and> bu_disk b = bu_disk (view (ad_hw (d\<lparr>ad_hw := h\<rparr>))))"
      if "bu_phase (view h) = bu_phase (start_transfer False (ad_slave d) (lba + k) n (view (ad_hw d)))" for h
      by (rule sound_read_run)
         (use less.prems(1,4) n fits that len(1) in \<open>auto simp: start_transfer_def algebra_simps\<close>)
    have "lba + k < (if ad_lba48 d then 2 ^ 48 else 2 ^ 28)" using less.prems(6) True by (auto split: if_splits)
    then show ?thesis
      unfolding whole [symmetric]
      apply (subst read_loop.simps)
      apply (simp only: True if_True Let_def n_def [symmetric])
      apply (rule sound_bind [OF sound_issue [OF less.prems(1) _ n(1,2)]])
        apply (use less.prems(2) in simp)
       apply simp
      apply (rule sound_bind [OF run])
       apply simp
      apply (use rest in auto)
      done
  qed
qed

lemma sound_data_out:
  assumes "drive_ok P view d" and "bu_phase (view (ad_hw d)) = DataOut u p acc n"
  shows "sound view W d (data_out P w) (\<lambda>_ b. b = gave w u p acc n (view (ad_hw d)))"
proof (rule soundI [where x = "()"])
  show "data_out P w d = (Ok (), d\<lparr>ad_hw := pt_outw P (ad_io d + REG_DATA) w (ad_hw d)\<rparr>)"
    using assms(1) by (simp add: data_out_def drive_ok_def)
  show gave: "view (pt_outw P (ad_io d + REG_DATA) w (ad_hw d)) = gave w u p acc n (view (ad_hw d))"
    using assms by (simp add: drive_ok_def ata_protocol_def)
  show "spares W (view (ad_hw d)) (view (pt_outw P (ad_io d + REG_DATA) w (ad_hw d)))"
    unfolding gave by (rule spares_disk) (simp add: gave_def Let_def)
qed

text \<open>The phase after a write has received \<open>acc\<close>.\<close>

definition received :: "bool \<Rightarrow> nat \<Rightarrow> nat \<Rightarrow> bytes \<Rightarrow> phase" where
  "received u p n acc = (if length acc < n then DataOut u p acc n else Committing u p acc)"

lemma gave_join: "gave (join x y) u p acc n b = b\<lparr>bu_phase := received u p n (acc @ [x, y])\<rparr>"
  by (simp add: gave_def received_def Let_def)

lemma subslice_two: "off + 1 < length b \<Longrightarrow> subslice off 2 b = [b ! off, b ! Suc off]"
  by (rule nth_equalityI) (auto simp: nth_slice nth_Cons' less_Suc_eq numeral_2_eq_2)

lemma sound_write_words:
  assumes "drive_ok P view d" and "bu_phase (view (ad_hw d)) = DataOut u p acc n" and "i < m"
    and "length acc + 2 * (m - i) \<le> n" and "base + 2 * m \<le> length buf"
  shows "sound view W d (write_words P base buf [i..<m])
    (\<lambda>_ b. b = (view (ad_hw d))\<lparr>bu_phase := received u p n (acc @ subslice (base + 2 * i) (2 * (m - i)) buf)\<rparr>)"
  using assms
proof (induction "m - i" arbitrary: i d acc)
  case (Suc k)
  let ?x = "buf ! (base + i * 2)" and ?y = "buf ! Suc (base + i * 2)"
  have i: "[i..<m] = i # [Suc i..<m]" using Suc.prems(3) by (simp add: upt_conv_Cons)
  have off: "Suc (base + i * 2) < length buf" using Suc.prems(3,5) by linarith
  have xy: "[?x, ?y] = subslice (base + 2 * i) 2 buf"
    using subslice_two [of "base + i * 2" buf] off by (simp add: mult.commute)
  have all: "acc @ subslice (base + 2 * i) (2 * (m - i)) buf = (acc @ [?x, ?y]) @ subslice (base + 2 * Suc i) (2 * (m - Suc i)) buf"
    unfolding xy using subslice_join [of "base + 2 * i" 2 buf "2 * (m - Suc i)"] Suc.prems(3)
    by (simp add: Suc_diff_Suc [symmetric])
  have "sound view W (d\<lparr>ad_hw := h\<rparr>) (write_words P base buf [Suc i..<m])
      (\<lambda>_ b. b = (view (ad_hw d))\<lparr>bu_phase := received u p n (acc @ subslice (base + 2 * i) (2 * (m - i)) buf)\<rparr>)"
    if h: "view h = (view (ad_hw d))\<lparr>bu_phase := received u p n (acc @ [?x, ?y])\<rparr>" for h
  proof (cases "Suc i < m")
    case True
    then have "bu_phase (view h) = DataOut u p (acc @ [?x, ?y]) n" using h Suc.prems(4) by (simp add: received_def)
    with Suc.hyps(1) [of "Suc i" "d\<lparr>ad_hw := h\<rparr>" "acc @ [?x, ?y]"] Suc.hyps(2) Suc.prems(1,4,5) True h
    show ?thesis unfolding all by simp
  next
    case False
    then have "[Suc i..<m] = []" "subslice (base + 2 * Suc i) (2 * (m - Suc i)) buf = []" by (simp_all add: subslice_def)
    with h show ?thesis unfolding all by (simp only: write_words.simps append_Nil2) (rule sound_return, simp)
  qed
  then show ?case
    unfolding i write_words.simps
    by (simp only: fetch_def off if_True Suc_lessD [OF off] bindR_returnR join_def [symmetric] Suc_eq_plus1 [symmetric])
       (rule sound_bind [OF sound_data_out [OF Suc.prems(1,2)]], simp add: gave_join)
qed simp

lemma sound_write_run:
  assumes "drive_ok P view d" and "s \<le> n" and "bu_phase (view (ad_hw d)) = received u p (n * SECTOR_SIZE) (subslice (k * SECTOR_SIZE) (s * SECTOR_SIZE) buf)"
    and "(k + n) * SECTOR_SIZE \<le> length buf" and "u \<in> W"
  shows "sound view W d (write_run P k buf [s..<n])
    (\<lambda>_ b. b = (view (ad_hw d))\<lparr>bu_phase := Committing u p (subslice (k * SECTOR_SIZE) (n * SECTOR_SIZE) buf)\<rparr>)"
  using assms
proof (induction "n - s" arbitrary: s d)
  case 0
  then have s: "s = n" "[s..<n] = []" by simp_all
  have "view (ad_hw d) = (view (ad_hw d))\<lparr>bu_phase := Committing u p (subslice (k * SECTOR_SIZE) (n * SECTOR_SIZE) buf)\<rparr>"
    using 0(4,5) s(1) by (simp add: received_def algebra_simps)
  with s show ?case by (simp only: write_run.simps) (rule sound_return, simp)
next
  case (Suc j)
  then have s: "s < n" by simp
  let ?acc = "subslice (k * SECTOR_SIZE) (s * SECTOR_SIZE) buf" and ?o = "(k + s) * SECTOR_SIZE"
  have len: "length ?acc = s * SECTOR_SIZE" using Suc.prems(4) s by (simp add: algebra_simps)
  then have phase: "bu_phase (view (ad_hw d)) = DataOut u p ?acc (n * SECTOR_SIZE)"
    using Suc.prems(3) s by (simp add: received_def)
  have grow: "?acc @ subslice ?o SECTOR_SIZE buf = subslice (k * SECTOR_SIZE) (Suc s * SECTOR_SIZE) buf"
    using subslice_join [of "k * SECTOR_SIZE" "s * SECTOR_SIZE" buf SECTOR_SIZE] by (simp add: algebra_simps)
  have rest: "sound view W (d\<lparr>ad_hw := h\<rparr>) (write_run P k buf [Suc s..<n])
      (\<lambda>_ b. b = (view (ad_hw d))\<lparr>bu_phase := Committing u p (subslice (k * SECTOR_SIZE) (n * SECTOR_SIZE) buf)\<rparr>)"
    if "view h = (view (ad_hw d))\<lparr>bu_phase := received u p (n * SECTOR_SIZE) (subslice (k * SECTOR_SIZE) (Suc s * SECTOR_SIZE) buf)\<rparr>" for h
    using Suc.hyps(1) [of "Suc s" "d\<lparr>ad_hw := h\<rparr>"] Suc.hyps(2) Suc.prems(1,4,5) s that by simp
  show ?case
    unfolding upt_conv_Cons [OF s] write_run.simps
  proof (rule sound_bind_drq)
    fix h assume h: "view h = view (ad_hw d)"
    have "sound view W (d\<lparr>ad_hw := h\<rparr>) (write_words P ?o buf [0..<SECTOR_SIZE div 2])
        (\<lambda>_ b. b = (view (ad_hw (d\<lparr>ad_hw := h\<rparr>)))\<lparr>bu_phase := received u p (n * SECTOR_SIZE)
           (?acc @ subslice (?o + 2 * 0) (2 * (SECTOR_SIZE div 2 - 0)) buf)\<rparr>)"
      by (rule sound_write_words) (use Suc.prems(1,4) phase s h len in \<open>auto simp: algebra_simps\<close>)
    then show "sound view W (d\<lparr>ad_hw := h\<rparr>) (bindR (write_words P ?o buf [0..<SECTOR_SIZE div 2]) (\<lambda>_. write_run P k buf [Suc s..<n]))
        (\<lambda>_ b. b = (view (ad_hw d))\<lparr>bu_phase := Committing u p (subslice (k * SECTOR_SIZE) (n * SECTOR_SIZE) buf)\<rparr>)"
      by (rule sound_bind) (use rest h grow in auto)
  qed (use Suc.prems(1,5) phase in auto)
qed

text \<open>The disks of a channel when \<open>bs\<close> has been written to one of them.\<close>

definition written :: "bool \<Rightarrow> nat \<Rightarrow> bytes \<Rightarrow> (bool \<Rightarrow> bytes) \<Rightarrow> bool \<Rightarrow> bytes" where
  "written u p bs disk = disk(u := blit p bs (disk u))"

lemma written_append:
  "p + length v + length w \<le> length (disk u) \<Longrightarrow> written u (p + length v) w (written u p v disk) = written u p (v @ w) disk"
  by (auto simp: written_def blit_twice)

lemma sound_bind_commit:
  assumes "drive_ok P view d" and "bu_phase (view (ad_hw d)) = Committing u p bs" and "u \<in> W"
    and "p + length bs \<le> length (bu_disk (view (ad_hw d)) u)"
    and "\<And>s h. \<not> faulty s \<Longrightarrow> bu_phase (view h) = Idle \<Longrightarrow> bu_disk (view h) = written u p bs (bu_disk (view (ad_hw d)))
      \<Longrightarrow> sound view W (d\<lparr>ad_hw := h\<rparr>) (f s) Q"
  shows "sound view W d (bindR (wait_not_busy P) f) Q"
proof -
  have "sound view W d (wait_not_busy P) (\<lambda>s b. \<not> faulty s \<and> bu_phase (view (ad_hw d)) \<noteq> Failed \<and> b = settle (view (ad_hw d)))"
    unfolding wait_not_busy_def by (rule sound_poll_not_busy) (use assms(1-4) in auto)
  then show ?thesis
    by (rule sound_bind) (use assms(2,5) in \<open>auto simp: settle_def written_def\<close>)
qed

lemma sound_write_loop:
  assumes "drive_ok P view d" and "bu_phase (view (ad_hw d)) = Idle" and "k \<le> count" and "length buf = count * SECTOR_SIZE"
    and "(lba + count) * SECTOR_SIZE \<le> length (bu_disk (view (ad_hw d)) (ad_slave d))"
    and "lba + count \<le> (if ad_lba48 d then 2 ^ 48 else 2 ^ 28)" and "ad_slave d \<in> W"
  shows "sound view W d (write_loop P lba buf count k)
    (\<lambda>_ b. bu_phase b = Idle \<and> bu_disk b = written (ad_slave d) ((lba + k) * SECTOR_SIZE)
        (subslice (k * SECTOR_SIZE) ((count - k) * SECTOR_SIZE) buf) (bu_disk (view (ad_hw d))))"
  using assms
proof (induction "count - k" arbitrary: k d rule: less_induct)
  case less
  let ?D = "bu_disk (view (ad_hw d))" and ?u = "ad_slave d"
  show ?case
  proof (cases "k < count")
    case False
    then have "written ?u ((lba + k) * SECTOR_SIZE) (subslice (k * SECTOR_SIZE) ((count - k) * SECTOR_SIZE) buf) ?D = ?D"
      by (auto simp: written_def subslice_def blit_def)
    with False less.prems show ?thesis
      by (subst write_loop.simps) (simp only: if_False, rule sound_return, simp)
  next
    case True
    define n where "n = min (count - k) MAX_SECTORS_PER_CMD"
    have n: "0 < n" "n \<le> 255" "k + n \<le> count" "n \<le> count - k" using True by (auto simp: n_def)
    note n512 = mult_le_mono1 [OF n(3), of SECTOR_SIZE]
    let ?a = "subslice (k * SECTOR_SIZE) (n * SECTOR_SIZE) buf"
      and ?r = "subslice ((k + n) * SECTOR_SIZE) ((count - (k + n)) * SECTOR_SIZE) buf" and ?p = "(lba + k) * SECTOR_SIZE"
    have whole: "?a @ ?r = subslice (k * SECTOR_SIZE) ((count - k) * SECTOR_SIZE) buf"
      using subslice_join [of "k * SECTOR_SIZE" "n * SECTOR_SIZE" buf "(count - (k + n)) * SECTOR_SIZE"] n(3)
      by (simp add: algebra_simps diff_mult_distrib)
    have len: "length ?a = n * SECTOR_SIZE" "length ?r = (count - (k + n)) * SECTOR_SIZE"
      using less.prems(4) n512 by (auto intro!: length_slice simp: algebra_simps diff_mult_distrib)
    have room: "?p + length ?a + length ?r \<le> length (?D ?u)" "?p + length ?a \<le> length (?D ?u)"
      unfolding len using less.prems(5) n512 by (auto simp: algebra_simps diff_mult_distrib)
    have rest: "sound view W (d\<lparr>ad_hw := h\<rparr>) (write_loop P lba buf count (k + n))
        (\<lambda>_ b. bu_phase b = Idle \<and> bu_disk b = written ?u ?p (?a @ ?r) ?D)"
      if "bu_phase (view h) = Idle" "bu_disk (view h) = written ?u ?p ?a ?D" for h
    proof -
      have keep: "length (written ?u ?p ?a ?D ?u) = length (?D ?u)" using room(2) by (simp add: written_def)
      have "sound view W (d\<lparr>ad_hw := h\<rparr>) (write_loop P lba buf count (k + n))
          (\<lambda>_ b. bu_phase b = Idle \<and> bu_disk b = written ?u ((lba + (k + n)) * SECTOR_SIZE) ?r (written ?u ?p ?a ?D))"
        using less.hyps [of "k + n" "d\<lparr>ad_hw := h\<rparr>"] less.prems(1,4-7) n that keep by simp
      then show ?thesis
        by (rule sound_mono) (use written_append [where disk = ?D and u = ?u, OF room(1)] len(1) in \<open>auto simp: add_mult_distrib add.assoc\<close>)
    qed
    have run: "sound view W (d\<lparr>ad_hw := h\<rparr>) (write_run P k buf [0..<n])
        (\<lambda>_ b. b = (view (ad_hw (d\<lparr>ad_hw := h\<rparr>)))\<lparr>bu_phase := Committing ?u ?p ?a\<rparr>)"
      if "bu_phase (view h) = bu_phase (start_transfer True ?u (lba + k) n (view (ad_hw d)))" for h
      by (rule sound_write_run)
         (use less.prems(1,4,7) n n512 that room(2) len(1) in
           \<open>auto simp: start_transfer_def received_def subslice_def algebra_simps\<close>)
    have "lba + k < (if ad_lba48 d then 2 ^ 48 else 2 ^ 28)" using less.prems(6) True by (auto split: if_splits)
    then show ?thesis
      unfolding whole [symmetric]
      apply (subst write_loop.simps)
      apply (simp only: True if_True Let_def n_def [symmetric])
      apply (rule sound_bind [OF sound_issue [OF less.prems(1) _ n(1,2)]])
        apply (use less.prems(2) in simp)
       apply simp
      apply (rule sound_bind [OF run])
       apply simp
      apply (rule sound_bind_commit)
          apply (use less.prems(1,7) room(2) rest in \<open>auto simp: faulty_def\<close>)
      done
  qed
qed

section \<open>The driver as a block device\<close>

text \<open>A drive that is ready: no command is under way, and its size is that of the disk and within what
  its commands can address.\<close>

definition ready :: "'h port_ops \<Rightarrow> ('h \<Rightarrow> ata_bus) \<Rightarrow> 'h ata \<Rightarrow> bool" where
  "ready P view d \<longleftrightarrow> drive_ok P view d \<and> bu_phase (view (ad_hw d)) = Idle
     \<and> length (bu_disk (view (ad_hw d)) (ad_slave d)) = ad_sectors d * SECTOR_SIZE
     \<and> ad_sectors d \<le> (if ad_lba48 d then 2 ^ 48 else 2 ^ 28)"

definition disk_of :: "('h \<Rightarrow> ata_bus) \<Rightarrow> 'h ata \<Rightarrow> ram_disk" where
  "disk_of view d = \<lparr>rd_data = bu_disk (view (ad_hw d)) (ad_slave d)\<rparr>"

lemma ata_check_ram:
  assumes "ready P view d"
  shows "ata_check d lba len = (case ram_range (disk_of view d) lba len of
      Ok (start, stop) \<Rightarrow> Ok (len div SECTOR_SIZE) | Err e \<Rightarrow> Err e | Panic \<Rightarrow> Panic | Hang \<Rightarrow> Hang)"
proof (cases "len mod SECTOR_SIZE = 0")
  case True
  have small: "ad_sectors d * SECTOR_SIZE < u64_limit" using assms by (auto simp: ready_def split: if_splits)
  obtain n where n: "len = n * SECTOR_SIZE" using True by (metis mod_0_imp_dvd dvd_div_mult_self)
  have "lba + n \<le> ad_sectors d \<longleftrightarrow> lba * SECTOR_SIZE + n * SECTOR_SIZE \<le> ad_sectors d * SECTOR_SIZE" by auto
  with small assms show ?thesis
    by (auto simp: ata_check_def ram_range_def disk_of_def ready_def checked_add_def checked_mul_def n)
qed (simp add: ata_check_def ram_range_def)

datatype dev_request = DRead nat nat | DWrite nat bytes | DFlush

text \<open>A request to a device; requests that return no data return the empty list.\<close>

fun dev_perform :: "'d dev_ops \<Rightarrow> dev_request \<Rightarrow> ('d, block_error, bytes) prog" where
  "dev_perform D (DRead lba len) = op_read_sectors D lba len"
| "dev_perform D (DWrite lba b) = bindR (op_write_sectors D lba b) (\<lambda>_. returnR [])"
| "dev_perform D DFlush = bindR (op_flush D) (\<lambda>_. returnR [])"

primrec dev_run :: "'d dev_ops \<Rightarrow> dev_request list \<Rightarrow> 'd \<Rightarrow> (block_error, bytes) res list \<times> 'd" where
  "dev_run D [] d = ([], d)"
| "dev_run D (q # qs) d = (case dev_perform D q d of (r, d1) \<Rightarrow> (case dev_run D qs d1 of (rs, d2) \<Rightarrow> (r # rs, d2)))"

lemma sound_flush:
  assumes "drive_ok P view d" and "bu_phase (view (ad_hw d)) = Idle"
  shows "sound view W d (ata_flush P) (\<lambda>_ b. bu_phase b = Idle \<and> bu_disk b = bu_disk (view (ad_hw d)))"
proof -
  have chain: "sound view W d (ata_flush P) Q = sound view W d
      (bindR (reg_out P REG_DRIVE (0xE0 OR drive_bit (ad_slave d))) (\<lambda>_. bindR (delay P) (\<lambda>_. bindR (wait_not_busy P) (\<lambda>_.
       bindR (getsR ad_lba48) (\<lambda>lba48. bindR (reg_out P REG_STATUS (if lba48 then CMD_FLUSH48 else CMD_FLUSH28)) (\<lambda>_.
       bindR (delay P) (\<lambda>_. bindR (wait_not_busy P) (\<lambda>st.
       if st AND (ST_ERR OR ST_DF) \<noteq> 0 then throwR DeviceFault else returnR ())))))))) Q" for Q
    by (rule sound_cong) (simp add: ata_flush_def bindR_Ok_apply)
  have gets: "sound view W e (bindR (getsR ad_lba48) f) Q = sound view W e (f (ad_lba48 e)) Q" for e f Q
    by (rule sound_cong) (simp add: bindR_Ok_apply)
  have flush: "run_command CMD_FLUSH48 b = b" "run_command CMD_FLUSH28 b = b" for b
    by (simp_all add: run_command_def Let_def)
  show ?thesis
    unfolding chain
    by (intro sound_bind_reg sound_bind_delay sound_bind_idle sound_bind [OF sound_command])
       (use assms in \<open>auto simp: gets set_reg_def flush faulty_def
         intro!: sound_bind [OF sound_command] sound_bind_delay sound_bind_idle sound_return\<close>)
qed

text \<open>One request to a ready drive: either the hardware fails, or the answer and the contents afterwards
  are those of the RAM disk.\<close>

definition other_disk :: "('h \<Rightarrow> ata_bus) \<Rightarrow> 'h ata \<Rightarrow> bytes" where
  "other_disk view d = bu_disk (view (ad_hw d)) (\<not> ad_slave d)"

definition agrees :: "'h port_ops \<Rightarrow> ('h \<Rightarrow> ata_bus) \<Rightarrow> dev_request \<Rightarrow> 'h ata \<Rightarrow> bool" where
  "agrees P view q d \<longleftrightarrow>
     (case dev_perform (ata_ops P) q d of (r, d') \<Rightarrow>
        dev_perform ram_ops q (disk_of view d) = (r, disk_of view d') \<and> ready P view d')"

definition fails :: "'h port_ops \<Rightarrow> ('h \<Rightarrow> ata_bus) \<Rightarrow> dev_request \<Rightarrow> 'h ata \<Rightarrow> bool" where
  "fails P view q d \<longleftrightarrow>
     (case dev_perform (ata_ops P) q d of (r, d') \<Rightarrow>
        (\<exists>e. r = Err e \<and> hw_error e (view (ad_hw d'))) \<and> drive_ok P view d'
        \<and> ((\<forall>lba b. q \<noteq> DWrite lba b) \<longrightarrow> disk_of view d' = disk_of view d))"

lemma spares_disk_of: "spares {} (view (ad_hw d)) (view h) \<Longrightarrow> disk_of view (d\<lparr>ad_hw := h\<rparr>) = disk_of view d"
  by (simp add: spares_def disk_of_def)

lemma spares_other: "spares {ad_slave d} (view (ad_hw d)) (view h) \<Longrightarrow> other_disk view (d\<lparr>ad_hw := h\<rparr>) = other_disk view d"
  by (simp add: spares_def other_disk_def)

lemma ready_hw:
  "ready P view d \<Longrightarrow> bu_phase (view h) = Idle \<Longrightarrow> length (bu_disk (view h) (ad_slave d)) = length (bu_disk (view (ad_hw d)) (ad_slave d))
    \<Longrightarrow> ready P view (d\<lparr>ad_hw := h\<rparr>)"
  by (simp add: ready_def)

lemma ata_read_step:
  assumes "ready P view d"
  shows "(agrees P view (DRead lba len) d \<or> fails P view (DRead lba len) d)
    \<and> other_disk view (snd (dev_perform (ata_ops P) (DRead lba len) d)) = other_disk view d"
proof (cases "ram_range (disk_of view d) lba len")
  case (Ok x)
  then obtain start stop where range: "ram_range (disk_of view d) lba len = Ok (start, stop)" by (cases x) auto
  then have r: "len mod SECTOR_SIZE = 0" "start = lba * SECTOR_SIZE" "stop = start + len"
      "lba * SECTOR_SIZE + len \<le> length (bu_disk (view (ad_hw d)) (ad_slave d))"
    unfolding ram_range_Ok by (auto simp: disk_of_def)
  let ?n = "len div SECTOR_SIZE"
  have len: "?n * SECTOR_SIZE = len" using r(1) by auto
  have run: "ata_read_sectors P lba len d = read_loop P lba ?n 0 (replicate len 0) d"
    using ata_check_ram [OF assms, of lba len] range by (simp add: ata_read_sectors_def bindR_def)
  have fit: "(lba + ?n) * SECTOR_SIZE \<le> length (bu_disk (view (ad_hw d)) (ad_slave d))" using r(4) len by (simp add: algebra_simps)
  then have "lba + ?n \<le> ad_sectors d" using assms by (simp add: ready_def)
  then have "sound view {} d (read_loop P lba ?n 0 (replicate len 0))
      (\<lambda>buf' b. buf' = blit (0 * SECTOR_SIZE) (subslice ((lba + 0) * SECTOR_SIZE) ((?n - 0) * SECTOR_SIZE)
          (bu_disk (view (ad_hw d)) (ad_slave d))) (replicate len 0)
        \<and> bu_phase b = Idle \<and> bu_disk b = bu_disk (view (ad_hw d)))"
    by (intro sound_read_loop) (use assms fit len in \<open>auto simp: ready_def\<close>)
  then obtain q h where q: "read_loop P lba ?n 0 (replicate len 0) d = (q, d\<lparr>ad_hw := h\<rparr>)" "spares {} (view (ad_hw d)) (view h)"
    "case q of Ok b \<Rightarrow> b = blit (0 * SECTOR_SIZE) (subslice ((lba + 0) * SECTOR_SIZE) ((?n - 0) * SECTOR_SIZE)
          (bu_disk (view (ad_hw d)) (ad_slave d))) (replicate len 0)
        \<and> bu_phase (view h) = Idle \<and> bu_disk (view h) = bu_disk (view (ad_hw d))
      | Err e \<Rightarrow> hw_error e (view h) | Panic \<Rightarrow> False | Hang \<Rightarrow> False" by (rule soundE)
  have whole: "blit 0 (subslice (lba * SECTOR_SIZE) len D) (replicate len 0) = subslice (lba * SECTOR_SIZE) len D"
    if "lba * SECTOR_SIZE + len \<le> length D" for D :: bytes using that by (simp add: blit_def)
  have keep: "other_disk view (snd (dev_perform (ata_ops P) (DRead lba len) d)) = other_disk view d"
    using spares_mono [OF q(2), of "{ad_slave d}"] spares_other [of d view h] q(1) run by (simp add: ata_ops_def)
  show ?thesis
  proof (cases q)
    case (Ok b)
    then have "agrees P view (DRead lba len) d"
      using q run range r assms len whole [OF r(4)] spares_disk_of [OF q(2)] ready_hw [OF assms, of h]
      by (auto simp: agrees_def ata_ops_def ram_ops_def ram_read_sectors_def bindR_def disk_of_def)
    with keep show ?thesis by blast
  next
    case (Err e)
    then have "fails P view (DRead lba len) d"
      using q run spares_disk_of [OF q(2)] assms by (simp add: fails_def ata_ops_def ready_def)
    with keep show ?thesis by blast
  qed (use q in auto)
next
  case (Err e)
  then show ?thesis using ata_check_ram [OF assms, of lba len] assms
    by (simp add: agrees_def ata_ops_def ram_ops_def ata_read_sectors_def ram_read_sectors_def bindR_def)
qed (use ram_range_returns in auto)

lemma ata_write_step:
  assumes "ready P view d"
  shows "(agrees P view (DWrite lba b) d \<or> fails P view (DWrite lba b) d)
    \<and> other_disk view (snd (dev_perform (ata_ops P) (DWrite lba b) d)) = other_disk view d"
proof (cases "ram_range (disk_of view d) lba (length b)")
  case (Ok x)
  then obtain start stop where range: "ram_range (disk_of view d) lba (length b) = Ok (start, stop)" by (cases x) auto
  let ?n = "length b div SECTOR_SIZE" and ?D = "bu_disk (view (ad_hw d))" and ?u = "ad_slave d"
  from range have r: "length b mod SECTOR_SIZE = 0" "start = lba * SECTOR_SIZE" "lba * SECTOR_SIZE + length b \<le> length (?D ?u)"
    unfolding ram_range_Ok by (auto simp: disk_of_def)
  have len: "?n * SECTOR_SIZE = length b" using r(1) by auto
  have run: "ata_write_sectors P lba b d = write_loop P lba b ?n 0 d"
    using ata_check_ram [OF assms, of lba "length b"] range by (simp add: ata_write_sectors_def bindR_def)
  have fit: "(lba + ?n) * SECTOR_SIZE \<le> length (?D ?u)" using r(3) len by (simp add: algebra_simps)
  then have "lba + ?n \<le> ad_sectors d" using assms by (simp add: ready_def)
  then have "sound view {?u} d (write_loop P lba b ?n 0) (\<lambda>_ c. bu_phase c = Idle \<and> bu_disk c = written ?u ((lba + 0) * SECTOR_SIZE)
        (subslice (0 * SECTOR_SIZE) ((?n - 0) * SECTOR_SIZE) b) ?D)"
    by (intro sound_write_loop) (use assms fit len in \<open>auto simp: ready_def\<close>)
  then obtain q h where q: "write_loop P lba b ?n 0 d = (q, d\<lparr>ad_hw := h\<rparr>)" "spares {?u} (view (ad_hw d)) (view h)"
    "case q of Ok x \<Rightarrow> bu_phase (view h) = Idle \<and> bu_disk (view h) = written ?u ((lba + 0) * SECTOR_SIZE)
        (subslice (0 * SECTOR_SIZE) ((?n - 0) * SECTOR_SIZE) b) ?D
      | Err e \<Rightarrow> hw_error e (view h) | Panic \<Rightarrow> False | Hang \<Rightarrow> False" by (rule soundE)
  have keep: "other_disk view (snd (dev_perform (ata_ops P) (DWrite lba b) d)) = other_disk view d"
    using spares_other [OF q(2)] q(1) run by (cases q) (auto simp: ata_ops_def bindR_def)
  show ?thesis
  proof (cases q)
    case (Ok x)
    then have h: "bu_phase (view h) = Idle" "bu_disk (view h) ?u = blit start b (?D ?u)"
      using q(3) len r(2) by (auto simp: written_def subslice_def)
    then have "ready P view (d\<lparr>ad_hw := h\<rparr>)" using ready_hw [OF assms, of h] r by simp
    with Ok h have "agrees P view (DWrite lba b) d"
      using q(1) run range by (simp add: agrees_def ata_ops_def ram_ops_def ram_write_sectors_def bindR_def disk_of_def)
    with keep show ?thesis by blast
  next
    case (Err e)
    then have "fails P view (DWrite lba b) d"
      using q run assms by (simp add: fails_def ata_ops_def bindR_def ready_def)
    with keep show ?thesis by blast
  qed (use q in auto)
next
  case (Err e)
  then show ?thesis using ata_check_ram [OF assms, of lba "length b"] assms
    by (simp add: agrees_def ata_ops_def ram_ops_def ata_write_sectors_def ram_write_sectors_def bindR_def)
qed (use ram_range_returns in auto)

lemma ata_flush_step:
  assumes "ready P view d"
  shows "(agrees P view DFlush d \<or> fails P view DFlush d)
    \<and> other_disk view (snd (dev_perform (ata_ops P) DFlush d)) = other_disk view d"
proof -
  from assms have "sound view {} d (ata_flush P) (\<lambda>_ b. bu_phase b = Idle \<and> bu_disk b = bu_disk (view (ad_hw d)))"
    by (intro sound_flush) (simp_all add: ready_def)
  then obtain q h where q: "ata_flush P d = (q, d\<lparr>ad_hw := h\<rparr>)" "spares {} (view (ad_hw d)) (view h)"
    "case q of Ok x \<Rightarrow> bu_phase (view h) = Idle \<and> bu_disk (view h) = bu_disk (view (ad_hw d))
      | Err e \<Rightarrow> hw_error e (view h) | Panic \<Rightarrow> False | Hang \<Rightarrow> False" by (rule soundE)
  have "other_disk view (snd (dev_perform (ata_ops P) DFlush d)) = other_disk view d"
    using spares_mono [OF q(2), of "{ad_slave d}"] spares_other [of d view h] q(1) by (cases q) (auto simp: ata_ops_def bindR_def)
  moreover have "agrees P view DFlush d \<or> fails P view DFlush d"
    using q spares_disk_of [OF q(2)] ready_hw [OF assms, of h] assms
    by (cases q) (auto simp: agrees_def fails_def ata_ops_def ram_ops_def ram_flush_def bindR_def disk_of_def ready_def)
  ultimately show ?thesis by blast
qed

lemma ata_step:
  assumes "ready P view d"
  shows "agrees P view q d \<or> fails P view q d"
    and "other_disk view (snd (dev_perform (ata_ops P) q d)) = other_disk view d"
  using ata_read_step [OF assms] ata_write_step [OF assms] ata_flush_step [OF assms] by (cases q; blast)+

section \<open>After a fault\<close>

text \<open>A program that stops because the drive has failed before.\<close>

definition refused :: "('h \<Rightarrow> ata_bus) \<Rightarrow> 'h ata \<Rightarrow> ('h, 'a) ap \<Rightarrow> bool" where
  "refused view d m \<longleftrightarrow> (\<exists>e h. m d = (Err e, d\<lparr>ad_hw := h\<rparr>) \<and> bu_phase (view h) = Failed)"

definition stopped :: "'h port_ops \<Rightarrow> ('h \<Rightarrow> ata_bus) \<Rightarrow> 'h ata \<Rightarrow> bool" where
  "stopped P view d \<longleftrightarrow> drive_ok P view d \<and> bu_phase (view (ad_hw d)) = Failed"

lemma refused_poll:
  assumes "stopped P view d"
  shows "refused view d (poll_not_busy P n)"
  using assms
proof (induction n arbitrary: d)
  case (Suc n)
  then have "drive_ok P view d" "touched (bu_phase (view (ad_hw d))) \<subseteq> {}"
      "\<And>u p acc. bu_phase (view (ad_hw d)) = Committing u p acc \<Longrightarrow> p + length acc \<le> length (bu_disk (view (ad_hw d)) u)"
    by (auto simp: stopped_def)
  from status_read [OF this] obtain s h where s: "reg_in P REG_STATUS d = (Ok s, d\<lparr>ad_hw := h\<rparr>)"
    "status_law s (view (ad_hw d)) (view h)" by blast
  have law: "bu_phase (view h) = Failed" "busy s \<or> faulty s"
    using s(2) Suc.prems by (auto simp: status_law_def stopped_def split: if_splits)
  then have "refused view (d\<lparr>ad_hw := h\<rparr>) (poll_not_busy P n)"
    using Suc.IH [of "d\<lparr>ad_hw := h\<rparr>"] Suc.prems by (simp add: stopped_def)
  with s law show ?case by (auto simp: refused_def bindR_def busy_def faulty_def)
next
  case 0
  then have "poll_not_busy P 0 d = (Err Timeout, d\<lparr>ad_hw := ad_hw d\<rparr>) \<and> bu_phase (view (ad_hw d)) = Failed" by (simp add: stopped_def)
  then show ?case unfolding refused_def by blast
qed

lemma refused_bind:
  assumes "m d = (Ok x, d\<lparr>ad_hw := h\<rparr>)" and "refused view (d\<lparr>ad_hw := h\<rparr>) (f x)"
  shows "refused view d (bindR m f)"
  using assms by (auto simp: refused_def bindR_def)

lemma refused_first: "refused view d m \<Longrightarrow> refused view d (bindR m f)"
  by (auto simp: refused_def bindR_def)

text \<open>Every command begins by selecting the drive and waiting for it.\<close>

lemma refused_select:
  assumes "stopped P view d"
  shows "refused view d (bindR (reg_out P REG_DRIVE v) (\<lambda>_. bindR (delay P) (\<lambda>_. bindR (wait_not_busy P) f)))"
proof -
  from assms have ok: "drive_ok P view d" by (simp add: stopped_def)
  define h1 where "h1 = pt_outb P (ad_io d + REG_DRIVE) v (ad_hw d)"
  have out: "reg_out P REG_DRIVE v d = (Ok (), d\<lparr>ad_hw := h1\<rparr>)" "view h1 = set_reg REG_DRIVE v (view (ad_hw d))"
    using assms ok by (auto simp: reg_out_def stopped_def drive_ok_def ata_protocol_def h1_def)
  have "sound view {} (d\<lparr>ad_hw := h1\<rparr>) (delay P) (\<lambda>_ b. b = view h1)"
    using sound_delay [of P view "d\<lparr>ad_hw := h1\<rparr>"] ok by simp
  moreover obtain h2 where h2: "delay P (d\<lparr>ad_hw := h1\<rparr>) = (Ok (), d\<lparr>ad_hw := h2\<rparr>)"
    by (simp add: delay_def ctl_in_def bindR_def case_prod_beta)
  ultimately have "view h2 = view h1" by (auto simp: sound_def dest: arg_cong [where f = ad_hw])
  then have "stopped P view (d\<lparr>ad_hw := h2\<rparr>)" using assms out(2) by (simp add: stopped_def)
  from refused_poll [OF this] have "refused view (d\<lparr>ad_hw := h2\<rparr>) (bindR (wait_not_busy P) f)"
    unfolding wait_not_busy_def by (rule refused_first)
  with h2 have "refused view (d\<lparr>ad_hw := h1\<rparr>) (bindR (delay P) (\<lambda>_. bindR (wait_not_busy P) f))"
    by (auto simp: refused_def bindR_def)
  with out(1) show ?thesis by (auto simp: refused_def bindR_def)
qed

definition transfers :: "dev_request \<Rightarrow> bool" where
  "transfers q \<longleftrightarrow> (case q of DRead lba len \<Rightarrow> len \<noteq> 0 | DWrite lba b \<Rightarrow> b \<noteq> [] | DFlush \<Rightarrow> True)"

lemma refused_issue:
  assumes "stopped P view d"
  shows "(\<exists>e. issue P lba n wr d = (Err e, d)) \<or> refused view d (issue P lba n wr)"
proof (cases "n = 0 \<or> n > 255 \<or> (if ad_lba48 d then lba > 0x0000FFFFFFFFFFFF else lba > 0x0FFFFFFF)")
  case True
  then show ?thesis by (auto simp: issue_def)
next
  case False
  have select: "refused view d m"
    if "m d = bindR (reg_out P REG_DRIVE v) (\<lambda>_. bindR (delay P) (\<lambda>_. bindR (wait_not_busy P) f)) d" for m :: "('a, unit) ap" and v f
    using refused_select [OF assms, of v f] that by (simp add: refused_def)
  have "refused view d (issue P lba n wr)"
    by (cases "ad_lba48 d") (rule select, use False in \<open>simp add: issue_def Let_def split del: if_split\<close>)+
  then show ?thesis ..
qed

lemma stopped_refuses:
  assumes "stopped P view d" and "transfers q"
  shows "\<exists>e d'. dev_perform (ata_ops P) q d = (Err e, d') \<and> stopped P view d'"
proof -
  have refuse: "\<exists>e d'. bindR m f d = (Err e, d') \<and> stopped P view d'"
    if "refused view d m \<or> (\<exists>e. m d = (Err e, d))" for m :: "('a, 'b) ap" and f :: "'b \<Rightarrow> ('a, 'c) ap"
    using that assms(1) by (auto simp: refused_def bindR_def stopped_def)
  have flush: "refused view d (ata_flush P)"
    using refused_select [OF assms(1)] by (auto simp: refused_def ata_flush_def bindR_def [of "getsR ad_slave"])
  have check: "(\<exists>e. ata_check d lba len = Err e) \<or> ata_check d lba len = Ok (len div SECTOR_SIZE) \<and> (len \<noteq> 0 \<longrightarrow> 0 < len div SECTOR_SIZE)" for lba len
    by (auto simp: ata_check_def Let_def split: option.splits)
  show ?thesis
  proof (cases q)
    case (DRead lba len)
    with assms(2) have "len \<noteq> 0" by (simp add: transfers_def)
    then consider (bad) e where "ata_check d lba len = Err e" | (good) "ata_check d lba len = Ok (len div SECTOR_SIZE)" "0 < len div SECTOR_SIZE"
      using check [of lba len] by auto
    then show ?thesis
    proof cases
      case good
      then show ?thesis
        unfolding DRead
        by (simp add: ata_ops_def ata_read_sectors_def bindR_Ok_apply read_loop.simps [of P lba "len div SECTOR_SIZE" 0] Let_def)
           (rule refuse, use refused_issue [OF assms(1)] in blast)
    qed (use DRead assms(1) in \<open>simp add: ata_ops_def ata_read_sectors_def bindR_Err_apply\<close>)
  next
    case (DWrite lba b)
    with assms(2) have "length b \<noteq> 0" by (simp add: transfers_def)
    then consider (bad) e where "ata_check d lba (length b) = Err e"
      | (good) "ata_check d lba (length b) = Ok (length b div SECTOR_SIZE)" "0 < length b div SECTOR_SIZE"
      using check [of lba "length b"] by auto
    then show ?thesis
    proof cases
      case good
      then show ?thesis
        unfolding DWrite
        by (simp add: ata_ops_def ata_write_sectors_def bindR_assoc bindR_Ok_apply [of "\<lambda>d. (ata_check d lba (length b), d)"])
           (simp add: write_loop.simps [of P lba b "length b div SECTOR_SIZE" 0] Let_def bindR_assoc,
            rule refuse, use refused_issue [OF assms(1)] in blast)
    qed (use DWrite assms(1) in \<open>simp add: ata_ops_def ata_write_sectors_def bindR_Err_apply bindR_assoc\<close>)
  next
    case DFlush
    then show ?thesis using refuse [OF disjI1 [OF flush]] by (simp add: ata_ops_def)
  qed
qed

section \<open>A channel without delays\<close>

text \<open>Hardware that follows the protocol and is never busy: its state is the bus itself.\<close>

definition plain_status :: "ata_bus \<Rightarrow> u8" where
  "plain_status b = (case bu_phase b of Failed \<Rightarrow> 0x41 | DataIn bs \<Rightarrow> 0x48 | DataOut u p acc n \<Rightarrow> 0x48 | _ \<Rightarrow> 0x40)"

definition plain_ports :: "nat \<Rightarrow> ata_bus port_ops" where
  "plain_ports io = \<lparr>
     pt_inb = (\<lambda>p b. if p = io + REG_STATUS then (plain_status b, settle b) else (0, b)),
     pt_outb = (\<lambda>p v b. if p = io + REG_STATUS then (if bu_phase b = Idle then run_command v b else b)
        else if io + REG_SECCOUNT \<le> p \<and> p \<le> io + REG_DRIVE then set_reg (p - io) v b else b),
     pt_inw = (\<lambda>p b. case bu_phase b of DataIn (x # y # rest) \<Rightarrow> (join x y, took rest b) | _ \<Rightarrow> (0, b)),
     pt_outw = (\<lambda>p w b. case bu_phase b of DataOut u pos acc n \<Rightarrow> gave w u pos acc n b | _ \<Rightarrow> b)\<rparr>"

lemma plain_protocol:
  assumes "ctl \<noteq> io + REG_STATUS"
  shows "ata_protocol (plain_ports io) io ctl (\<lambda>b. b)"
proof -
  have "status_law (plain_status b) b (settle b)" for b
    by (auto simp: status_law_def plain_status_def settle_def busy_def faulty_def split: phase.split)
  then show ?thesis using assms
    by (auto simp: ata_protocol_def plain_ports_def)
qed

definition plain_drive :: "bytes \<Rightarrow> ata_bus ata" where
  "plain_drive disk = \<lparr>ad_io = 0x1F0, ad_ctl = 0x3F6, ad_slave = False, ad_lba48 = True,
     ad_sectors = length disk div SECTOR_SIZE, ad_model = [],
     ad_hw = \<lparr>bu_drive = 0, bu_count = (0, 0), bu_lo = (0, 0), bu_mid = (0, 0), bu_hi = (0, 0), bu_phase = Idle,
       bu_disk = (\<lambda>u. if u then [] else disk)\<rparr>\<rparr>"

lemma plain_ready:
  "length disk = n * SECTOR_SIZE \<Longrightarrow> n \<le> 2 ^ 48 \<Longrightarrow> ready (plain_ports 0x1F0) (\<lambda>b. b) (plain_drive disk)"
  by (simp add: ready_def drive_ok_def plain_drive_def plain_protocol)

text \<open>Hardware that reports an error at every look at the status.\<close>

definition broken_ports :: "nat \<Rightarrow> ata_bus port_ops" where
  "broken_ports io = (plain_ports io)\<lparr>
     pt_inb := (\<lambda>p b. if p = io + REG_STATUS then (0x41, b\<lparr>bu_phase := Failed\<rparr>) else (0, b))\<rparr>"

lemma broken_ready:
  assumes "length disk = n * SECTOR_SIZE" and "n \<le> 2 ^ 48"
  shows "ready (broken_ports 0x1F0) (\<lambda>b. b) (plain_drive disk)"
proof -
  have "status_law 0x41 b (b\<lparr>bu_phase := Failed\<rparr>)" for b
    by (simp add: status_law_def busy_def faulty_def spares_def)
  then have "ata_protocol (broken_ports 0x1F0) 0x1F0 0x3F6 (\<lambda>b. b)"
    by (auto simp: ata_protocol_def broken_ports_def plain_ports_def)
  then show ?thesis using assms by (simp add: ready_def drive_ok_def plain_drive_def)
qed

section \<open>Properties\<close>



text \<open>Once a request has failed with a device fault, every later transfer and flush fails too: the
  driver checks the error bits before it issues a command, and only a command clears them.\<close>

theorem ata_fault_is_final:
  assumes "ready P view d" and "dev_perform (ata_ops P) q d = (Err DeviceFault, d')"
    and "\<forall>p\<in>set qs. transfers p" and "r \<in> set (fst (dev_run (ata_ops P) qs d'))"
  shows "\<exists>e. r = Err e"
proof -
  have "\<not> agrees P view q d"
  proof
    assume "agrees P view q d"
    with assms(2) have "fst (dev_perform ram_ops q (disk_of view d)) = Err DeviceFault" by (simp add: agrees_def)
    then show False
      by (cases q) (auto simp: ram_ops_def ram_read_sectors_def ram_write_sectors_def ram_flush_def ram_range_def bindR_def
        split: option.splits if_splits)
  qed
  with ata_step(1) [OF assms(1), of q] assms(2) have "stopped P view d'" by (simp add: fails_def hw_error_def stopped_def)
  then show ?thesis using assms(3,4)
  proof (induction qs arbitrary: d')
    case (Cons p ps)
    from stopped_refuses [OF Cons.prems(1), of p] Cons.prems(2) obtain e d1
      where p: "dev_perform (ata_ops P) p d' = (Err e, d1)" "stopped P view d1" by auto
    with Cons.IH [OF p(2)] Cons.prems show ?case by (auto split: prod.splits)
  qed simp
qed

theorem ata_fault_is_final_witness:
  "\<exists>d'. dev_perform (ata_ops (broken_ports 0x1F0)) DFlush (plain_drive (replicate 1024 0)) = (Err DeviceFault, d')
     \<and> (\<exists>e. fst (dev_perform (ata_ops (broken_ports 0x1F0)) (DRead 0 512) d') = Err e)"
proof -
  let ?P = "broken_ports 0x1F0" and ?d = "plain_drive (replicate 1024 0)"
  have limit: "SPIN_LIMIT = Suc 4999999" by (simp add: SPIN_LIMIT_def)
  have wait: "wait_not_busy P = bindR (reg_in P REG_STATUS) (\<lambda>s. if s AND ST_BSY = 0 then
      (if s AND (ST_ERR OR ST_DF) \<noteq> 0 then throwR DeviceFault else returnR s) else poll_not_busy P 4999999)"
    for P :: "ata_bus port_ops"
    by (simp only: wait_not_busy_def limit poll_not_busy.simps)
  obtain d' where flush: "dev_perform (ata_ops ?P) DFlush ?d = (Err DeviceFault, d')"
    by (simp add: ata_ops_def ata_flush_def delay_def wait reg_out_def reg_in_def ctl_in_def bindR_def
      broken_ports_def plain_drive_def)
  have ready: "ready ?P (\<lambda>b. b) ?d" by (rule broken_ready [of _ 2]) simp_all
  have "fst (dev_perform (ata_ops ?P) (DRead 0 512) d') \<in> set (fst (dev_run (ata_ops ?P) [DRead 0 512] d'))"
    by (simp add: case_prod_beta)
  with ata_fault_is_final [OF ready flush, of "[DRead 0 512]"] flush show ?thesis
    by (auto simp: transfers_def)
qed

end
