(* ===== verification/Acpi.thy ===== *)
theory Acpi
  imports Ata
begin

text \<open>
  ACPI (\<^verbatim>\<open>src/acpi.rs\<close>) and the QEMU exit device (\<^verbatim>\<open>src/drivers/qemu.rs\<close>): finding the reset register in
  the firmware's tables, and rebooting. The memory that holds the tables is an argument; ports are
  those of \<open>Ata\<close>. Functions that never return give \<open>Hang\<close>.
\<close>

record reset_info =
  ri_space :: u8
  ri_address :: nat
  ri_value :: u8

text \<open>The static \<open>RESET_INFO\<close>, what was sent to the serial port, the interrupt flag and the hardware.\<close>

record 'h acpi =
  ac_reset :: "reset_info option"
  ac_serial :: bytes
  ac_interrupts :: bool
  ac_hw :: 'h

type_synonym ('h, 'a) acp = "('h acpi, unit, 'a) prog"

definition serial_println :: "bytes \<Rightarrow> ('h, unit) acp" where
  "serial_println txt = modifyR (\<lambda>s. s\<lparr>ac_serial := ac_serial s @ txt @ [0x0A]\<rparr>)"

section \<open>Tables\<close>

definition mem_bytes :: "(nat \<Rightarrow> u8) \<Rightarrow> nat \<Rightarrow> nat \<Rightarrow> bytes" where
  "mem_bytes mem a n = map (\<lambda>i. mem (a + i)) [0..<n]"

definition mem_le :: "(nat \<Rightarrow> u8) \<Rightarrow> nat \<Rightarrow> nat \<Rightarrow> nat" where
  "mem_le mem a n = le_nat (mem_bytes mem a n)"

text \<open>The fields of \<open>RsdpV1\<close>, \<open>RsdpV2\<close> and \<open>SdtHeader\<close>, which are packed.\<close>

definition rsdp_signature :: "(nat \<Rightarrow> u8) \<Rightarrow> nat \<Rightarrow> bytes" where "rsdp_signature mem a = mem_bytes mem a 8"
definition rsdp_revision :: "(nat \<Rightarrow> u8) \<Rightarrow> nat \<Rightarrow> u8" where "rsdp_revision mem a = mem (a + 15)"
definition rsdp_length :: "(nat \<Rightarrow> u8) \<Rightarrow> nat \<Rightarrow> nat" where "rsdp_length mem a = mem_le mem (a + 20) 4"
definition rsdp_xsdt :: "(nat \<Rightarrow> u8) \<Rightarrow> nat \<Rightarrow> nat" where "rsdp_xsdt mem a = mem_le mem (a + 24) 8"
definition sdt_signature :: "(nat \<Rightarrow> u8) \<Rightarrow> nat \<Rightarrow> bytes" where "sdt_signature mem a = mem_bytes mem a 4"
definition sdt_length :: "(nat \<Rightarrow> u8) \<Rightarrow> nat \<Rightarrow> nat" where "sdt_length mem a = mem_le mem (a + 4) 4"

abbreviation (input) SDT_HEADER_SIZE :: nat where "SDT_HEADER_SIZE \<equiv> 36"

definition checksum_valid :: "(nat \<Rightarrow> u8) \<Rightarrow> nat \<Rightarrow> nat \<Rightarrow> bool" where
  "checksum_valid mem a n \<longleftrightarrow> foldl (\<lambda>sum i. sum + mem (a + i)) 0 [0..<n] = 0"

definition signature_to_str :: "bytes \<Rightarrow> bytes" where
  "signature_to_str sg =
     (if sg \<in> set (map str [''FACP'', ''APIC'', ''HPET'', ''MCFG'', ''DSDT'', ''SSDT'']) then sg else str ''????'')"

abbreviation (input) RESET_REG_OFFSET :: nat where "RESET_REG_OFFSET \<equiv> 0x70"
abbreviation (input) RESET_VALUE_OFFSET :: nat where "RESET_VALUE_OFFSET \<equiv> 0x7C"

definition fadt_reset :: "(nat \<Rightarrow> u8) \<Rightarrow> nat \<Rightarrow> reset_info" where
  "fadt_reset mem base = \<lparr>ri_space = mem (base + RESET_REG_OFFSET),
     ri_address = mem_le mem (base + RESET_REG_OFFSET + 4) 8, ri_value = mem (base + RESET_VALUE_OFFSET)\<rparr>"

definition parse_fadt :: "(nat \<Rightarrow> u8) \<Rightarrow> nat \<Rightarrow> ('h, unit) acp" where
  "parse_fadt mem base =
     (let len = sdt_length mem base; r = fadt_reset mem base in
      bindR (serial_println (str ''ACPI: FADT length = '' @ show_nat len)) (\<lambda>_.
      if \<not> checksum_valid mem base len then serial_println (str ''ACPI: FADT checksum invalid'')
      else
        bindR (serial_println (str ''ACPI: FADT checksum valid'')) (\<lambda>_.
        if len < RESET_VALUE_OFFSET + 1 then serial_println (str ''ACPI: FADT is too short for RESET_REG'')
        else
          bindR (serial_println (str ''ACPI: RESET_REG'')) (\<lambda>_.
          bindR (serial_println (str ''  address space: '' @ show_hex (unat (ri_space r)))) (\<lambda>_.
          bindR (serial_println (str ''  bit width: '' @ show_nat (unat (mem (base + RESET_REG_OFFSET + 1))))) (\<lambda>_.
          bindR (serial_println (str ''  bit offset: '' @ show_nat (unat (mem (base + RESET_REG_OFFSET + 2))))) (\<lambda>_.
          bindR (serial_println (str ''  access size: '' @ show_nat (unat (mem (base + RESET_REG_OFFSET + 3))))) (\<lambda>_.
          bindR (serial_println (str ''  address: '' @ show_hex (ri_address r))) (\<lambda>_.
          bindR (serial_println (str ''  value: '' @ show_hex (unat (ri_value r)))) (\<lambda>_.
          if ri_address r = 0 then serial_println (str ''ACPI: RESET_REG is unavailable'')
          else
            bindR (modifyR (\<lambda>s. s\<lparr>ac_reset := Some r\<rparr>)) (\<lambda>_.
            serial_println (str ''ACPI: reset mechanism available'')))))))))))) "

text \<open>The address of the table that entry \<open>i\<close> of the XSDT points to.\<close>

definition xsdt_entry :: "(nat \<Rightarrow> u8) \<Rightarrow> nat \<Rightarrow> nat \<Rightarrow> nat" where
  "xsdt_entry mem xsdt i = mem_le mem (xsdt + SDT_HEADER_SIZE + 8 * i) 8"

primrec search_xsdt :: "(nat \<Rightarrow> u8) \<Rightarrow> nat \<Rightarrow> nat list \<Rightarrow> ('h, unit) acp" where
  "search_xsdt mem xsdt [] = serial_println (str ''ACPI: FADT not found'')"
| "search_xsdt mem xsdt (i # is) =
     (let table = xsdt_entry mem xsdt i in
      if table = 0 then search_xsdt mem xsdt is
      else
        bindR (serial_println (str ''ACPI: table '' @ show_nat i @ str '' = '' @ signature_to_str (sdt_signature mem table))) (\<lambda>_.
        if sdt_signature mem table = str ''FACP'' then
          bindR (serial_println (str ''ACPI: found FADT at '' @ show_hex table)) (\<lambda>_. parse_fadt mem table)
        else search_xsdt mem xsdt is))"

definition find_fadt :: "(nat \<Rightarrow> u8) \<Rightarrow> nat \<Rightarrow> ('h, unit) acp" where
  "find_fadt mem xsdt =
     (let len = sdt_length mem xsdt in
      if sdt_signature mem xsdt \<noteq> str ''XSDT'' then serial_println (str ''ACPI: invalid XSDT signature'')
      else if len < SDT_HEADER_SIZE then serial_println (str ''ACPI: invalid XSDT length'')
      else
        let entry_count = (len - SDT_HEADER_SIZE) div 8 in
        bindR (serial_println (str ''ACPI: XSDT contains '' @ show_nat entry_count @ str '' entries'')) (\<lambda>_.
        search_xsdt mem xsdt [0..<entry_count]))"

definition acpi_init :: "(nat \<Rightarrow> u8) \<Rightarrow> nat option \<Rightarrow> ('h, unit) acp" where
  "acpi_init mem response =
     bindR (serial_println (str ''ACPI: initializing...'')) (\<lambda>_.
     case response of
       None \<Rightarrow> serial_println (str ''ACPI: Limine did not provide an RSDP'')
     | Some rsdp \<Rightarrow>
         bindR (serial_println (str ''ACPI: RSDP at '' @ show_hex rsdp)) (\<lambda>_.
         if rsdp_signature mem rsdp \<noteq> str ''RSD PTR '' then serial_println (str ''ACPI: invalid RSDP signature'')
         else if \<not> checksum_valid mem rsdp 20 then serial_println (str ''ACPI: RSDP checksum invalid'')
         else
           bindR (serial_println (str ''ACPI: revision '' @ show_nat (unat (rsdp_revision mem rsdp)))) (\<lambda>_.
           if rsdp_revision mem rsdp \<ge> 2 then
             (if \<not> checksum_valid mem rsdp (rsdp_length mem rsdp)
              then serial_println (str ''ACPI: extended RSDP checksum invalid'')
              else
                bindR (serial_println (str ''ACPI: XSDT at '' @ show_hex (rsdp_xsdt mem rsdp))) (\<lambda>_.
                find_fadt mem (rsdp_xsdt mem rsdp)))
           else
             bindR (serial_println (str ''ACPI: ACPI 1.0 detected'')) (\<lambda>_.
             serial_println (str ''ACPI: RSDT support not implemented yet'')))))"

section \<open>Rebooting\<close>

definition disable_interrupts :: "('h, unit) acp" where
  "disable_interrupts = modifyR (\<lambda>s. s\<lparr>ac_interrupts := False\<rparr>)"

definition write_port :: "'h port_ops \<Rightarrow> nat \<Rightarrow> u8 \<Rightarrow> ('h, unit) acp" where
  "write_port P port v = modifyR (\<lambda>s. s\<lparr>ac_hw := pt_outb P port v (ac_hw s)\<rparr>)"

text \<open>Waiting for the keyboard controller, at most 100000 times.\<close>

primrec wait_controller :: "'h port_ops \<Rightarrow> nat \<Rightarrow> ('h, unit) acp" where
  "wait_controller P 0 = returnR ()"
| "wait_controller P (Suc n) = (\<lambda>s.
     case pt_inb P 0x64 (ac_hw s) of (v, h) \<Rightarrow>
       if v AND 0x02 = 0 then (Ok (), s\<lparr>ac_hw := h\<rparr>) else wait_controller P n (s\<lparr>ac_hw := h\<rparr>))"

text \<open>The triple fault at the end does not return.\<close>

definition fallback_reboot :: "'h port_ops \<Rightarrow> ('h, unit) acp" where
  "fallback_reboot P =
     bindR (serial_println (str ''ACPI: attempting fallback reboot...'')) (\<lambda>_.
     bindR (wait_controller P 100000) (\<lambda>_.
     bindR (write_port P 0x64 0xFE) (\<lambda>_.
     bindR disable_interrupts (\<lambda>_.
     \<lambda>s. (Hang, s)))))"

definition reboot :: "'h port_ops \<Rightarrow> ('h, unit) acp" where
  "reboot P =
     bindR (serial_println (str ''ACPI: rebooting...'')) (\<lambda>_.
     bindR disable_interrupts (\<lambda>_.
     bindR (getsR ac_reset) (\<lambda>reset.
     case reset of
       None \<Rightarrow>
         bindR (serial_println (str ''ACPI: no reset mechanism available'')) (\<lambda>_. fallback_reboot P)
     | Some r \<Rightarrow>
         if ri_space r = 1 then
           (if ri_address r > 0xFFFF then
              bindR (serial_println (str ''ACPI: RESET_REG I/O address is invalid'')) (\<lambda>_. fallback_reboot P)
            else
              bindR (write_port P (ri_address r) (ri_value r)) (\<lambda>_.
              bindR (serial_println (str ''ACPI: reset command returned'')) (\<lambda>_.
              fallback_reboot P)))
         else
           bindR (serial_println (str ''ACPI: RESET_REG address space '' @ show_hex (unat (ri_space r)) @ str '' is not supported yet'')) (\<lambda>_.
           fallback_reboot P))))"

section \<open>Only checked tables are used\<close>

lemma foldl_plus_u8: "foldl (\<lambda>sum i. sum + f i) a xs = a + sum_list (map f xs)" for f :: "nat \<Rightarrow> u8"
  by (induction xs arbitrary: a) (simp_all add: add.assoc)

lemma checksum_valid_sum: "checksum_valid mem a n \<longleftrightarrow> (\<Sum>i<n. mem (a + i)) = 0"
  by (simp add: checksum_valid_def foldl_plus_u8 interv_sum_list_conv_sum_set_nat atLeast0LessThan)

text \<open>One changed byte changes the sum.\<close>

lemma checksum_detects:
  assumes "checksum_valid mem a n" and "i < n" and "v \<noteq> mem (a + i)"
  shows "\<not> checksum_valid (mem(a + i := v)) a n"
proof -
  have "(\<Sum>j<n. (mem(a + i := v)) (a + j)) = (\<Sum>j\<in>{..<n} - {i}. mem (a + j)) + v"
    using assms(2) by (subst sum.remove [of _ i]) (auto intro!: sum.cong)
  moreover have "(\<Sum>j<n. mem (a + j)) = (\<Sum>j\<in>{..<n} - {i}. mem (a + j)) + mem (a + i)"
    using assms(2) by (subst sum.remove [of _ i]) (auto simp: add.commute)
  ultimately show ?thesis using assms(1,3) unfolding checksum_valid_sum by (metis add_left_cancel)
qed

lemma serial_keeps [simp]: "serial_println t s = (Ok (), s\<lparr>ac_serial := ac_serial s @ t @ [0x0A]\<rparr>)"
  by (simp add: serial_println_def)

lemma bind_serial [simp]: "bindR (serial_println t) f s = f () (s\<lparr>ac_serial := ac_serial s @ t @ [0x0A]\<rparr>)"
  by (simp add: bindR_def)

definition fadt_ok :: "(nat \<Rightarrow> u8) \<Rightarrow> nat \<Rightarrow> bool" where
  "fadt_ok mem t \<longleftrightarrow> sdt_signature mem t = str ''FACP'' \<and> RESET_VALUE_OFFSET < sdt_length mem t
     \<and> checksum_valid mem t (sdt_length mem t)"

lemma parse_fadt_reset:
  "ac_reset (snd (parse_fadt mem t s)) =
     (if checksum_valid mem t (sdt_length mem t) \<and> RESET_VALUE_OFFSET < sdt_length mem t \<and> ri_address (fadt_reset mem t) \<noteq> 0
      then Some (fadt_reset mem t) else ac_reset s)"
  by (simp add: parse_fadt_def Let_def bindR_Ok_apply)

text \<open>The table that the search uses: the first entry that is not null and has the signature.\<close>

definition first_fadt :: "(nat \<Rightarrow> u8) \<Rightarrow> nat \<Rightarrow> nat list \<Rightarrow> nat option" where
  "first_fadt mem xsdt is = List.find (\<lambda>t. t \<noteq> 0 \<and> sdt_signature mem t = str ''FACP'') (map (xsdt_entry mem xsdt) is)"

lemma search_xsdt_reset:
  "ac_reset (snd (search_xsdt mem xsdt is s)) =
     (case first_fadt mem xsdt is of None \<Rightarrow> ac_reset s | Some t \<Rightarrow> ac_reset (snd (parse_fadt mem t s)))"
  by (induction "is" arbitrary: s) (auto simp: first_fadt_def Let_def parse_fadt_reset split: option.split)

lemma find_fadt_reset:
  "ac_reset (snd (find_fadt mem x s)) =
     (if sdt_signature mem x = str ''XSDT'' \<and> SDT_HEADER_SIZE \<le> sdt_length mem x
      then case first_fadt mem x [0..<(sdt_length mem x - SDT_HEADER_SIZE) div 8] of
          None \<Rightarrow> ac_reset s
        | Some t \<Rightarrow> if checksum_valid mem t (sdt_length mem t) \<and> RESET_VALUE_OFFSET < sdt_length mem t
              \<and> ri_address (fadt_reset mem t) \<noteq> 0 then Some (fadt_reset mem t) else ac_reset s
      else ac_reset s)"
  by (simp add: find_fadt_def Let_def search_xsdt_reset parse_fadt_reset split: option.split)

lemma acpi_init_reset:
  "ac_reset (snd (acpi_init mem (Some rsdp) s)) =
     (if rsdp_signature mem rsdp = str ''RSD PTR '' \<and> checksum_valid mem rsdp 20 \<and> 2 \<le> rsdp_revision mem rsdp
         \<and> checksum_valid mem rsdp (rsdp_length mem rsdp)
      then ac_reset (snd (find_fadt mem (rsdp_xsdt mem rsdp) s)) else ac_reset s)"
  by (simp add: acpi_init_def find_fadt_reset split: option.split)

lemma acpi_init_returns: "fst (acpi_init mem response s) = Ok ()"
proof -
  have "fst (parse_fadt mem t s) = Ok ()" for t and s :: "'a acpi"
    by (simp add: parse_fadt_def Let_def bindR_Ok_apply)
  then have "fst (search_xsdt mem xsdt is s) = Ok ()" for xsdt "is" and s :: "'a acpi"
    by (induction "is" arbitrary: s) (auto simp: Let_def)
  then show ?thesis
    by (auto simp: acpi_init_def find_fadt_def Let_def split: option.split)
qed

lemma reboot_hangs: "fst (reboot P s) = Hang"
proof -
  have wait: "fst (wait_controller P n s) = Ok ()" for n and s :: "'a acpi"
    by (induction n arbitrary: s) (auto split: prod.split)
  have "fst (fallback_reboot P s) = Hang" for s :: "'a acpi"
    using wait [of 100000] by (simp add: fallback_reboot_def bindR_def disable_interrupts_def write_port_def split: prod.split res.split)
      (metis fst_conv res.distinct(1,3,5))
  then show ?thesis
    by (simp add: reboot_def bindR_def disable_interrupts_def write_port_def split: option.split)
qed

definition sdt_tables :: "(nat \<Rightarrow> u8) \<Rightarrow> nat \<Rightarrow> nat list" where
  "sdt_tables mem xsdt = map (xsdt_entry mem xsdt) [0..<(sdt_length mem xsdt - SDT_HEADER_SIZE) div 8]"

text \<open>C31: A reset register that \<open>init\<close> stores comes from a FADT that the XSDT lists, with the right signature,
  a valid checksum and long enough for the register, under an RSDP whose signature and checksums
  are valid; and a change of any one byte of that FADT other than its signature and length makes it
  invalid.\<close>

theorem acpi_reset_checked:
  assumes "ac_reset s = None" and "ac_reset (snd (acpi_init mem response s)) = Some r"
  shows "\<exists>rsdp t. response = Some rsdp \<and> rsdp_signature mem rsdp = str ''RSD PTR '' \<and> 2 \<le> rsdp_revision mem rsdp
    \<and> checksum_valid mem rsdp 20 \<and> checksum_valid mem rsdp (rsdp_length mem rsdp)
    \<and> t \<in> set (sdt_tables mem (rsdp_xsdt mem rsdp)) \<and> fadt_ok mem t \<and> r = fadt_reset mem t \<and> ri_address r \<noteq> 0
    \<and> (\<forall>i v. 8 \<le> i \<longrightarrow> i < sdt_length mem t \<longrightarrow> v \<noteq> mem (t + i) \<longrightarrow> \<not> fadt_ok (mem(t + i := v)) t)"
proof -
  obtain rsdp where rsdp: "response = Some rsdp" "rsdp_signature mem rsdp = str ''RSD PTR ''" "2 \<le> rsdp_revision mem rsdp"
      "checksum_valid mem rsdp 20" "checksum_valid mem rsdp (rsdp_length mem rsdp)"
    using assms by (cases response) (auto simp: acpi_init_reset split: if_splits, simp add: acpi_init_def)
  let ?x = "rsdp_xsdt mem rsdp"
  have "first_fadt mem ?x [0..<(sdt_length mem ?x - SDT_HEADER_SIZE) div 8] \<noteq> None"
    and found: "\<And>t. first_fadt mem ?x [0..<(sdt_length mem ?x - SDT_HEADER_SIZE) div 8] = Some t \<Longrightarrow>
      checksum_valid mem t (sdt_length mem t) \<and> RESET_VALUE_OFFSET < sdt_length mem t \<and> ri_address (fadt_reset mem t) \<noteq> 0
      \<and> r = fadt_reset mem t"
    using assms rsdp by (auto simp: acpi_init_reset find_fadt_reset split: if_splits option.splits)
  then obtain t where t: "first_fadt mem ?x [0..<(sdt_length mem ?x - SDT_HEADER_SIZE) div 8] = Some t" by blast
  then have "t \<in> set (sdt_tables mem ?x)" "sdt_signature mem t = str ''FACP''"
    by (auto simp: first_fadt_def sdt_tables_def find_Some_iff in_set_conv_nth)
  with found [OF t] have ok: "t \<in> set (sdt_tables mem ?x)" "fadt_ok mem t" "r = fadt_reset mem t" "ri_address r \<noteq> 0"
    by (auto simp: fadt_ok_def)
  have "\<not> fadt_ok (mem(t + i := v)) t" if "8 \<le> i" "i < sdt_length mem t" "v \<noteq> mem (t + i)" for i v
  proof -
    have "sdt_length (mem(t + i := v)) t = sdt_length mem t"
      using that(1) by (auto simp: sdt_length_def mem_le_def mem_bytes_def intro!: arg_cong [where f = le_nat])
    with checksum_detects [of mem t "sdt_length mem t" i v, OF _ that(2,3)] ok(2) show ?thesis by (auto simp: fadt_ok_def)
  qed
  with rsdp ok show ?thesis by blast
qed

text \<open>Firmware with an RSDP at 16, an XSDT at 64 and a FADT at 128.\<close>

definition sample_tables :: "(nat \<times> u8) list" where
  "sample_tables = zip [16..<24] (str ''RSD PTR '') @ [(24, 223), (31, 2), (36, 36), (40, 64), (48, 156)]
     @ zip [64..<68] (str ''XSDT'') @ [(68, 44), (100, 128)]
     @ zip [128..<132] (str ''FACP'') @ [(132, 125), (137, 93), (240, 1), (244, 0xF9), (245, 0x0C), (252, 6)]"

definition sample_firmware :: "nat \<Rightarrow> u8" where
  "sample_firmware a = (case map_of sample_tables a of Some v \<Rightarrow> v | None \<Rightarrow> 0)"

theorem acpi_reset_checked_witness:
  "\<exists>t. fadt_ok sample_firmware t
     \<and> ac_reset (snd (acpi_init sample_firmware (Some 16) \<lparr>ac_reset = None, ac_serial = [], ac_interrupts = True, ac_hw = ()\<rparr>))
       = Some (fadt_reset sample_firmware t)"
proof -
  have "ac_reset (snd (acpi_init sample_firmware (Some 16) \<lparr>ac_reset = None, ac_serial = [], ac_interrupts = True, ac_hw = ()\<rparr>))
      = Some \<lparr>ri_space = 1, ri_address = 0xCF9, ri_value = 6\<rparr>"
    unfolding acpi_init_reset find_fadt_reset by code_simp
  with acpi_reset_checked [OF _ this] show ?thesis by auto
qed

end
