(* ===== verification/Ext2_Base.thy ===== *)
theory Ext2_Base
  imports Block
begin

text \<open>
  The building blocks of the ext2 driver (\<^verbatim>\<open>src/fs/ext2/mod.rs\<close>): little-endian fields,
  bitmaps, the sparse-superblock rule, name validation, file types, and the raw on-disk
  inode with its field accessors.
\<close>

named_theorems inode_defs \<open>definitions of the inode field accessors\<close>

section \<open>Constants and errors\<close>

abbreviation (input) ROOT_INO :: nat where "ROOT_INO \<equiv> 2"
abbreviation (input) EXT2_MAGIC :: nat where "EXT2_MAGIC \<equiv> 0xEF53"
abbreviation (input) S_IFMT :: nat where "S_IFMT \<equiv> 0xF000"
abbreviation (input) S_IFREG :: nat where "S_IFREG \<equiv> 0x8000"
abbreviation (input) S_IFDIR :: nat where "S_IFDIR \<equiv> 0x4000"
abbreviation (input) S_IFLNK :: nat where "S_IFLNK \<equiv> 0xA000"
abbreviation (input) FT_REG :: nat where "FT_REG \<equiv> 1"
abbreviation (input) FT_DIR :: nat where "FT_DIR \<equiv> 2"
abbreviation (input) FT_SYMLINK :: nat where "FT_SYMLINK \<equiv> 7"
abbreviation (input) INCOMPAT_FILETYPE :: nat where "INCOMPAT_FILETYPE \<equiv> 2"
abbreviation (input) RO_COMPAT_SPARSE_SUPER :: nat where "RO_COMPAT_SPARSE_SUPER \<equiv> 1"
abbreviation (input) RO_COMPAT_LARGE_FILE :: nat where "RO_COMPAT_LARGE_FILE \<equiv> 2"
abbreviation (input) INDEX_FL :: nat where "INDEX_FL \<equiv> 0x1000"
abbreviation (input) MAX_NAME :: nat where "MAX_NAME \<equiv> 255"
abbreviation (input) MAX_FILE_SIZE :: nat where "MAX_FILE_SIZE \<equiv> 0x7FFFFFFF"
abbreviation (input) MAX_LINKS :: nat where "MAX_LINKS \<equiv> 32000"
abbreviation (input) MAX_SYMLOOP :: nat where "MAX_SYMLOOP \<equiv> 40"
abbreviation (input) FAST_SYMLINK_MAX :: nat where "FAST_SYMLINK_MAX \<equiv> 60"

datatype fs_error = Io block_error | BadSuperblock | Unsupported | Corrupt | NotFound | Exists
  | NotDir | IsDir | NotEmpty | NoSpace | Invalid | NameTooLong | TooManyLinks | TooBig | Loop

fun errno :: "fs_error \<Rightarrow> int" where
  "errno (Io _) = 5"
| "errno Corrupt = 5"
| "errno BadSuperblock = 5"
| "errno NotFound = 2"
| "errno Exists = 17"
| "errno NotDir = 20"
| "errno IsDir = 21"
| "errno NotEmpty = 39"
| "errno NoSpace = 28"
| "errno Invalid = 22"
| "errno Unsupported = 22"
| "errno NameTooLong = 36"
| "errno TooManyLinks = 31"
| "errno TooBig = 27"
| "errno Loop = 40"

section \<open>Fields\<close>

text \<open>Reading a field inside the slice; the checked variants panic outside of it.\<close>

definition rd16 :: "bytes \<Rightarrow> nat \<Rightarrow> nat" where "rd16 b off = le_nat (subslice off 2 b)"
definition rd32 :: "bytes \<Rightarrow> nat \<Rightarrow> nat" where "rd32 b off = le_nat (subslice off 4 b)"
definition wr16 :: "bytes \<Rightarrow> nat \<Rightarrow> nat \<Rightarrow> bytes" where "wr16 b off v = blit off (le_bytes 2 v) b"
definition wr32 :: "bytes \<Rightarrow> nat \<Rightarrow> nat \<Rightarrow> bytes" where "wr32 b off v = blit off (le_bytes 4 v) b"

definition rd16_at :: "bytes \<Rightarrow> nat \<Rightarrow> ('e, nat) res" where
  "rd16_at b off = (if off + 2 \<le> length b then Ok (rd16 b off) else Panic)"

definition rd32_at :: "bytes \<Rightarrow> nat \<Rightarrow> ('e, nat) res" where
  "rd32_at b off = (if off + 4 \<le> length b then Ok (rd32 b off) else Panic)"

definition wr16_at :: "bytes \<Rightarrow> nat \<Rightarrow> nat \<Rightarrow> ('e, bytes) res" where
  "wr16_at b off v = (if off + 2 \<le> length b then Ok (wr16 b off v) else Panic)"

definition wr32_at :: "bytes \<Rightarrow> nat \<Rightarrow> nat \<Rightarrow> ('e, bytes) res" where
  "wr32_at b off v = (if off + 4 \<le> length b then Ok (wr32 b off v) else Panic)"

definition align4 :: "nat \<Rightarrow> nat" where
  "align4 n = (n + 3) AND not64 3"

lemma rd16_wr16 [simp]: "off + 2 \<le> length b \<Longrightarrow> rd16 (wr16 b off v) off = v mod 65536"
  using slice_blit_same [of off "le_bytes 2 v" b] by (simp add: rd16_def wr16_def)

lemma rd32_wr32 [simp]: "off + 4 \<le> length b \<Longrightarrow> rd32 (wr32 b off v) off = v mod u32_limit"
  using slice_blit_same [of off "le_bytes 4 v" b] by (simp add: rd32_def wr32_def)

lemma length_wr16 [simp]: "off + 2 \<le> length b \<Longrightarrow> length (wr16 b off v) = length b"
  by (simp add: wr16_def)

lemma length_wr32 [simp]: "off + 4 \<le> length b \<Longrightarrow> length (wr32 b off v) = length b"
  by (simp add: wr32_def)

lemma subslice_wr16:
  "off + 2 \<le> length b \<Longrightarrow> p + n \<le> length b \<Longrightarrow> p + n \<le> off \<or> off + 2 \<le> p \<Longrightarrow>
     subslice p n (wr16 b off v) = subslice p n b"
  by (simp add: wr16_def slice_blit_other)

lemma subslice_wr32:
  "off + 4 \<le> length b \<Longrightarrow> p + n \<le> length b \<Longrightarrow> p + n \<le> off \<or> off + 4 \<le> p \<Longrightarrow>
     subslice p n (wr32 b off v) = subslice p n b"
  by (simp add: wr32_def slice_blit_other)

lemma rd16_less: "rd16 b off < 65536"
proof -
  have "le_nat (subslice off 2 b) < 256 ^ length (subslice off 2 b)" by (rule le_nat_less)
  also have "\<dots> \<le> 256 ^ 2" by (rule power_increasing) (simp_all add: subslice_def)
  finally show ?thesis by (simp add: rd16_def)
qed

lemma rd32_less: "rd32 b off < u32_limit"
proof -
  have "le_nat (subslice off 4 b) < 256 ^ length (subslice off 4 b)" by (rule le_nat_less)
  also have "\<dots> \<le> 256 ^ 4" by (rule power_increasing) (simp_all add: subslice_def)
  finally show ?thesis by (simp add: rd32_def)
qed

lemma align4_eq: "n + 3 < u64_limit \<Longrightarrow> align4 n = (n + 3) div 4 * 4"
  using and_not64_mask [of 2 "n + 3"] by (simp add: align4_def)

lemma align4_ge: "n + 3 < u64_limit \<Longrightarrow> n \<le> align4 n \<and> align4 n < n + 4 \<and> 4 dvd align4 n"
  by (simp add: align4_eq) linarith

section \<open>Bitmaps\<close>

definition bit_test :: "bytes \<Rightarrow> nat \<Rightarrow> bool" where
  "bit_test b i = (b ! (i div 8) AND push_bit (i mod 8) 1 \<noteq> 0)"

definition bit_set :: "bytes \<Rightarrow> nat \<Rightarrow> bytes" where
  "bit_set b i = b[i div 8 := b ! (i div 8) OR push_bit (i mod 8) 1]"

definition bit_clear :: "bytes \<Rightarrow> nat \<Rightarrow> bytes" where
  "bit_clear b i = b[i div 8 := b ! (i div 8) AND NOT (push_bit (i mod 8) 1)]"

text \<open>The two loops of \<open>bit_find_zero\<close>; the inner one returns from the function (\<open>Some r\<close>) or
  goes on with the next byte (\<open>None\<close>).\<close>

primrec scan_bits :: "bytes \<Rightarrow> nat \<Rightarrow> nat \<Rightarrow> nat list \<Rightarrow> nat option option" where
  "scan_bits b n byte [] = None"
| "scan_bits b n byte (k # ks) =
     (let i = byte * 8 + k in
      if i \<ge> n then Some None
      else if \<not> bit_test b i then Some (Some i)
      else scan_bits b n byte ks)"

primrec scan_bytes :: "bytes \<Rightarrow> nat \<Rightarrow> nat list \<Rightarrow> ('e, nat option) res" where
  "scan_bytes b n [] = Ok None"
| "scan_bytes b n (byte # rest) =
     (if byte \<ge> length b then Panic
      else if b ! byte \<noteq> 0xFF then
        (case scan_bits b n byte [0..<8] of
           Some r \<Rightarrow> Ok r
         | None \<Rightarrow> scan_bytes b n rest)
      else scan_bytes b n rest)"

definition bit_find_zero :: "bytes \<Rightarrow> nat \<Rightarrow> ('e, nat option) res" where
  "bit_find_zero b n = scan_bytes b n [0..<(n + 7) div 8]"

lemma bit_test_iff: "bit_test b i \<longleftrightarrow> bit (b ! (i div 8)) (i mod 8)"
  by (simp add: bit_test_def push_bit_eq_mult and_exp_eq_0_iff_not_bit)

lemma bit_test_set:
  assumes "i div 8 < length b"
  shows "bit_test (bit_set b i) j \<longleftrightarrow> j = i \<or> bit_test b j"
proof (cases "j div 8 = i div 8")
  case True
  have "i mod 8 < 8" "j mod 8 < 8" by simp_all
  moreover have "j = i \<longleftrightarrow> j mod 8 = i mod 8"
    using True by (metis div_mult_mod_eq)
  ultimately show ?thesis
    using assms True by (auto simp: bit_test_iff bit_set_def bit_simps)
next
  case False
  then show ?thesis
    by (auto simp: bit_test_iff bit_set_def)
qed

lemma bit_test_clear:
  assumes "i div 8 < length b"
  shows "bit_test (bit_clear b i) j \<longleftrightarrow> j \<noteq> i \<and> bit_test b j"
proof (cases "j div 8 = i div 8")
  case True
  have "i mod 8 < 8" "j mod 8 < 8" by simp_all
  moreover have "j = i \<longleftrightarrow> j mod 8 = i mod 8"
    using True by (metis div_mult_mod_eq)
  ultimately show ?thesis
    using assms True by (auto simp: bit_test_iff bit_clear_def bit_simps)
next
  case False
  then show ?thesis
    by (auto simp: bit_test_iff bit_clear_def)
qed

lemma length_bit_set [simp]: "length (bit_set b i) = length b"
  by (simp add: bit_set_def)

lemma length_bit_clear [simp]: "length (bit_clear b i) = length b"
  by (simp add: bit_clear_def)

text \<open>\<open>r\<close> is the first clear bit from \<open>lo\<close> on among the first \<open>n\<close> bits.\<close>

definition first_zero :: "bytes \<Rightarrow> nat \<Rightarrow> nat \<Rightarrow> nat option \<Rightarrow> bool" where
  "first_zero b lo n r \<longleftrightarrow> (case r of
       Some i \<Rightarrow> lo \<le> i \<and> i < n \<and> \<not> bit_test b i \<and> (\<forall>j. lo \<le> j \<longrightarrow> j < i \<longrightarrow> bit_test b j)
     | None \<Rightarrow> \<forall>j. lo \<le> j \<longrightarrow> j < n \<longrightarrow> bit_test b j)"

lemma first_zero_extend:
  assumes "first_zero b lo n r" and "lo' \<le> lo" and "\<And>j. lo' \<le> j \<Longrightarrow> j < lo \<Longrightarrow> bit_test b j"
  shows "first_zero b lo' n r"
  using assms by (auto simp: first_zero_def not_less split: option.splits) (metis not_less)+

lemma scan_bits_spec:
  "case scan_bits b n byte [k..<8] of
     Some r \<Rightarrow> first_zero b (byte * 8 + k) n r
   | None \<Rightarrow> \<forall>j. byte * 8 + k \<le> j \<longrightarrow> j < byte * 8 + 8 \<longrightarrow> bit_test b j"
proof (induction "8 - k" arbitrary: k)
  case 0
  then show ?case by simp
next
  case (Suc m)
  then have k: "k < 8" "m = 8 - Suc k" by auto
  then have upt: "[k..<8] = k # [Suc k..<8]" by (simp add: upt_rec)
  show ?case
  proof (cases "byte * 8 + k < n \<and> bit_test b (byte * 8 + k)")
    case True
    then have e: "scan_bits b n byte [k..<8] = scan_bits b n byte [Suc k..<8]"
      by (simp add: upt)
    have bt: "bit_test b j" if "byte * 8 + k \<le> j" "j < byte * 8 + Suc k" for j
      using True that by (metis add_Suc_right le_antisym less_Suc_eq_le)
    from Suc.hyps(1) [OF k(2)] bt show ?thesis
      unfolding e by (fastforce split: option.splits intro: first_zero_extend)
  next
    case False
    then show ?thesis
      by (auto simp: upt first_zero_def Let_def)
  qed
qed

lemma bit_full_byte: "i < 8 \<Longrightarrow> bit (0xFF :: u8) i"
proof -
  have "(0xFF :: u8) = mask 8" by (simp add: mask_eq_exp_minus_1)
  then show "i < 8 \<Longrightarrow> bit (0xFF :: u8) i" by (simp only: bit_mask_iff) simp
qed

lemma scan_bytes_spec:
  assumes "(n + 7) div 8 \<le> length b"
  shows "\<exists>r. (scan_bytes b n [byte..<(n + 7) div 8] :: ('e, nat option) res) = Ok r \<and> first_zero b (byte * 8) n r"
proof (induction "(n + 7) div 8 - byte" arbitrary: byte)
  case 0
  then have "n \<le> byte * 8" by linarith
  with 0 show ?case by (simp add: first_zero_def)
next
  case (Suc m)
  then have k: "byte < (n + 7) div 8" "m = (n + 7) div 8 - Suc byte" by auto
  then have upt: "[byte..<(n + 7) div 8] = byte # [Suc byte..<(n + 7) div 8]"
    by (simp add: upt_rec)
  from Suc.hyps(1) [OF k(2)] obtain r
    where r: "(scan_bytes b n [Suc byte..<(n + 7) div 8] :: ('e, nat option) res) = Ok r" "first_zero b (Suc byte * 8) n r"
    by blast
  have next_byte: ?case
    if "\<forall>j. byte * 8 \<le> j \<longrightarrow> j < byte * 8 + 8 \<longrightarrow> bit_test b j"
      "(scan_bytes b n [byte..<(n + 7) div 8] :: ('e, nat option) res) = scan_bytes b n [Suc byte..<(n + 7) div 8]"
    using r that by (auto intro!: exI [of _ r] first_zero_extend [OF r(2)])
  have len: "byte < length b" using k(1) assms by simp
  show ?case
  proof (cases "b ! byte = 0xFF")
    case True
    have "bit_test b j" if "byte * 8 \<le> j" "j < byte * 8 + 8" for j
    proof -
      have "j div 8 = byte" using that by linarith
      with True have "b ! (j div 8) = 0xFF" by simp
      moreover have "bit (0xFF :: u8) (j mod 8)" by (rule bit_full_byte) simp
      ultimately show ?thesis by (simp only: bit_test_iff)
    qed
    with True len show ?thesis by (intro next_byte) (auto simp: upt)
  next
    case False
    note spec = scan_bits_spec [where b = b and n = n and byte = byte and k = 0]
    show ?thesis
    proof (cases "scan_bits b n byte [0..<8]")
      case None
      with spec False len show ?thesis by (intro next_byte) (auto simp: upt)
    next
      case (Some r')
      with spec False len show ?thesis by (simp add: upt)
    qed
  qed
qed

text \<open>\<open>bit_find_zero\<close> returns the first clear bit among the first \<open>n\<close>, and nothing exactly when
  all of them are set; it does not read past a bitmap that has those bits.\<close>

theorem bit_find_zero_first:
  assumes "n \<le> 8 * length b"
  shows "\<exists>r. bit_find_zero b n = Ok r \<and> first_zero b 0 n r"
proof -
  have "(n + 7) div 8 \<le> length b" using assms by linarith
  from scan_bytes_spec [OF this, of 0] show ?thesis
    by (simp add: bit_find_zero_def)
qed

theorem bit_find_zero_first_witness:
  "\<exists>r. bit_find_zero [0xFF, 0x0B] 12 = Ok r \<and> first_zero [0xFF, 0x0B] 0 12 r"
  using bit_find_zero_first [of 12 "[0xFF, 0x0B]"] by simp

section \<open>The sparse-superblock rule\<close>

function power_from :: "nat \<Rightarrow> nat \<Rightarrow> nat \<Rightarrow> nat" where
  "power_from base g n = (if n < g \<and> 1 < base \<and> 0 < n then power_from base g (n * base) else n)"
  by pat_completeness auto
termination
  by (relation "measure (\<lambda>(base, g, n). g - n)") (auto simp: diff_less_mono2)

declare power_from.simps [simp del]

definition has_super :: "nat \<Rightarrow> bool" where
  "has_super g \<longleftrightarrow> g \<le> 1 \<or> (g mod 2 \<noteq> 0 \<and> list_ex (\<lambda>base. power_from base g base = g) [3, 5, 7])"

lemma power_from_spec:
  assumes "1 < base"
  shows "power_from base g (base ^ Suc k) = g \<longleftrightarrow> (\<exists>j>k. g = base ^ j)"
proof (induction "g - base ^ Suc k" arbitrary: k rule: less_induct)
  case less
  show ?case
  proof (cases "base ^ Suc k < g")
    case True
    have "base ^ Suc k < base ^ Suc (Suc k)"
      using assms by (intro power_strict_increasing) auto
    with True have "g - base ^ Suc (Suc k) < g - base ^ Suc k" by linarith
    from less.hyps [OF this] have "power_from base g (base ^ Suc (Suc k)) = g \<longleftrightarrow> (\<exists>j>Suc k. g = base ^ j)" .
    moreover have "power_from base g (base ^ Suc k) = power_from base g (base ^ Suc (Suc k))"
      using True assms by (subst power_from.simps) (simp add: mult.commute)
    moreover have "(\<exists>j>Suc k. g = base ^ j) \<longleftrightarrow> (\<exists>j>k. g = base ^ j)"
      using True by (metis Suc_lessD less_irrefl less_antisym not_less_eq)
    ultimately show ?thesis by simp
  next
    case False
    then have "power_from base g (base ^ Suc k) = base ^ Suc k"
      by (subst power_from.simps) simp
    moreover have "g = base ^ Suc k" if "k < j" "g = base ^ j" for j
    proof -
      have "base ^ Suc k \<le> base ^ j"
        using that(1) assms by (intro power_increasing) auto
      with False that(2) show ?thesis by simp
    qed
    ultimately show ?thesis by (metis lessI)
  qed
qed

text \<open>A block group holds a superblock backup exactly when its number is 0, 1 or a power of 3, 5
  or 7.\<close>

theorem has_super_iff: "has_super g \<longleftrightarrow> g = 0 \<or> (\<exists>base\<in>{3, 5, 7}. \<exists>k. g = base ^ k)"
proof (cases "g \<le> 1")
  case True
  have "g = 1 \<Longrightarrow> \<exists>k. g = 3 ^ k" by (rule exI [of _ 0]) simp
  with True show ?thesis by (auto simp: has_super_def le_Suc_eq)
next
  case False
  have p: "power_from base g base = g \<longleftrightarrow> (\<exists>k. g = base ^ k)" if "base \<in> {3, 5, 7}" for base
  proof -
    have "1 < base" using that by auto
    from power_from_spec [OF this, of g 0] False show ?thesis
      by (auto simp: gr0_conv_Suc) (metis One_nat_def Suc_le_D nat.exhaust power_0 le_refl)
  qed
  have parity: "g mod 2 \<noteq> 0" if "g = base ^ k" "base \<in> {3, 5, 7}" for base k
  proof -
    have "odd g" using that by auto
    then show ?thesis by (simp add: odd_iff_mod_2_eq_one)
  qed
  have powers: "list_ex (\<lambda>base. power_from base g base = g) [3, 5, 7]
      \<longleftrightarrow> (\<exists>base\<in>{3, 5, 7}. \<exists>k. g = base ^ k)"
    using p by simp
  have "g \<noteq> 0" using False by simp
  with parity False show ?thesis
    unfolding has_super_def powers by blast
qed

section \<open>Names and file types\<close>

definition validate_name :: "bytes \<Rightarrow> (fs_error, unit) res" where
  "validate_name nm =
     (if nm = [] \<or> 0 \<in> set nm \<or> 0x2F \<in> set nm then Err Invalid
      else if length nm > MAX_NAME then Err NameTooLong
      else Ok ())"

datatype file_type = Regular | Directory | Symlink | CharDevice | BlockDev | Fifo | Socket | Unknown

definition from_mode :: "nat \<Rightarrow> file_type" where
  "from_mode m =
     (let k = m AND S_IFMT in
      if k = S_IFREG then Regular
      else if k = S_IFDIR then Directory
      else if k = S_IFLNK then Symlink
      else if k = 0x2000 then CharDevice
      else if k = 0x6000 then BlockDev
      else if k = 0x1000 then Fifo
      else if k = 0xC000 then Socket
      else Unknown)"

definition from_dirent :: "nat \<Rightarrow> file_type" where
  "from_dirent t =
     (if t = 1 then Regular
      else if t = 2 then Directory
      else if t = 3 then CharDevice
      else if t = 4 then BlockDev
      else if t = 5 then Fifo
      else if t = 6 then Socket
      else if t = 7 then Symlink
      else Unknown)"

record fs_stat =
  st_ino :: nat
  st_mode :: nat
  st_file_type :: file_type
  st_uid :: nat
  st_gid :: nat
  st_size :: nat
  st_links :: nat
  st_blocks :: nat
  st_atime :: nat
  st_mtime :: nat
  st_ctime :: nat

text \<open>\<open>de_name\<close> holds the bytes of the name; where the code uses it as a string, \<open>utf8_lossy\<close> is applied.\<close>

record dir_entry =
  de_ino :: nat
  de_name :: bytes
  de_file_type :: file_type

record fs_usage =
  u_block_size :: nat
  u_total_blocks :: nat
  u_free_blocks :: nat
  u_total_inodes :: nat
  u_free_inodes :: nat

section \<open>The on-disk inode\<close>

text \<open>The 128 raw bytes of an inode.\<close>

type_synonym inode = bytes

definition inode_zeroed :: inode where "inode_zeroed = replicate 128 0"

definition i_mode :: "inode \<Rightarrow> nat" where [inode_defs]: "i_mode i = rd16 i 0"
definition i_set_mode :: "inode \<Rightarrow> nat \<Rightarrow> inode" where [inode_defs]: "i_set_mode i v = wr16 i 0 v"
definition i_size :: "inode \<Rightarrow> nat" where [inode_defs]: "i_size i = rd32 i 4"
definition i_set_size :: "inode \<Rightarrow> nat \<Rightarrow> inode" where [inode_defs]: "i_set_size i v = wr32 i 4 v"
definition i_atime :: "inode \<Rightarrow> nat" where [inode_defs]: "i_atime i = rd32 i 8"
definition i_set_atime :: "inode \<Rightarrow> nat \<Rightarrow> inode" where [inode_defs]: "i_set_atime i v = wr32 i 8 v"
definition i_ctime :: "inode \<Rightarrow> nat" where [inode_defs]: "i_ctime i = rd32 i 12"
definition i_set_ctime :: "inode \<Rightarrow> nat \<Rightarrow> inode" where [inode_defs]: "i_set_ctime i v = wr32 i 12 v"
definition i_mtime :: "inode \<Rightarrow> nat" where [inode_defs]: "i_mtime i = rd32 i 16"
definition i_set_mtime :: "inode \<Rightarrow> nat \<Rightarrow> inode" where [inode_defs]: "i_set_mtime i v = wr32 i 16 v"
definition i_set_dtime :: "inode \<Rightarrow> nat \<Rightarrow> inode" where [inode_defs]: "i_set_dtime i v = wr32 i 20 v"
definition i_links :: "inode \<Rightarrow> nat" where [inode_defs]: "i_links i = rd16 i 26"
definition i_set_links :: "inode \<Rightarrow> nat \<Rightarrow> inode" where [inode_defs]: "i_set_links i v = wr16 i 26 v"
definition i_blocks :: "inode \<Rightarrow> nat" where [inode_defs]: "i_blocks i = rd32 i 28"
definition i_set_blocks :: "inode \<Rightarrow> nat \<Rightarrow> inode" where [inode_defs]: "i_set_blocks i v = wr32 i 28 v"
definition i_flags :: "inode \<Rightarrow> nat" where [inode_defs]: "i_flags i = rd32 i 32"
definition i_set_flags :: "inode \<Rightarrow> nat \<Rightarrow> inode" where [inode_defs]: "i_set_flags i v = wr32 i 32 v"
definition i_block :: "inode \<Rightarrow> nat \<Rightarrow> nat" where [inode_defs]: "i_block i k = rd32 i (40 + 4 * k)"
definition i_set_block :: "inode \<Rightarrow> nat \<Rightarrow> nat \<Rightarrow> inode" where [inode_defs]: "i_set_block i k v = wr32 i (40 + 4 * k) v"
definition i_uid :: "inode \<Rightarrow> nat" where [inode_defs]: "i_uid i = rd16 i 2 OR push_bit 16 (rd16 i 120)"
definition i_gid :: "inode \<Rightarrow> nat" where [inode_defs]: "i_gid i = rd16 i 24 OR push_bit 16 (rd16 i 122)"

definition i_kind :: "inode \<Rightarrow> nat" where "i_kind i = (i_mode i AND S_IFMT)"
definition i_is_dir :: "inode \<Rightarrow> bool" where "i_is_dir i \<longleftrightarrow> i_kind i = S_IFDIR"
definition i_is_reg :: "inode \<Rightarrow> bool" where "i_is_reg i \<longleftrightarrow> i_kind i = S_IFREG"
definition i_is_lnk :: "inode \<Rightarrow> bool" where "i_is_lnk i \<longleftrightarrow> i_kind i = S_IFLNK"
definition i_is_fast_symlink :: "inode \<Rightarrow> bool" where
  "i_is_fast_symlink i \<longleftrightarrow> i_is_lnk i \<and> i_size i < FAST_SYMLINK_MAX"
definition i_has_block_pointers :: "inode \<Rightarrow> bool" where
  "i_has_block_pointers i \<longleftrightarrow> i_is_reg i \<or> i_is_dir i \<or> (i_is_lnk i \<and> \<not> i_is_fast_symlink i)"

text \<open>What the accessors read, as a record: the setters are updates of one field of it.\<close>

record inode_view =
  v_mode :: nat
  v_uid :: nat
  v_gid :: nat
  v_size :: nat
  v_atime :: nat
  v_ctime :: nat
  v_mtime :: nat
  v_links :: nat
  v_blocks :: nat
  v_flags :: nat
  v_block :: "nat list"

definition view :: "inode \<Rightarrow> inode_view" where
  "view i = \<lparr>v_mode = i_mode i, v_uid = i_uid i, v_gid = i_gid i, v_size = i_size i,
     v_atime = i_atime i, v_ctime = i_ctime i, v_mtime = i_mtime i, v_links = i_links i,
     v_blocks = i_blocks i, v_flags = i_flags i, v_block = map (i_block i) [0..<15]\<rparr>"

lemma rd16_wr16_other:
  "off + 2 \<le> length b \<Longrightarrow> p + 2 \<le> length b \<Longrightarrow> p + 2 \<le> off \<or> off + 2 \<le> p \<Longrightarrow> rd16 (wr16 b off v) p = rd16 b p"
  by (simp add: rd16_def subslice_wr16)

lemma rd16_wr32_other:
  "off + 4 \<le> length b \<Longrightarrow> p + 2 \<le> length b \<Longrightarrow> p + 2 \<le> off \<or> off + 4 \<le> p \<Longrightarrow> rd16 (wr32 b off v) p = rd16 b p"
  by (simp add: rd16_def subslice_wr32)

lemma rd32_wr16_other:
  "off + 2 \<le> length b \<Longrightarrow> p + 4 \<le> length b \<Longrightarrow> p + 4 \<le> off \<or> off + 2 \<le> p \<Longrightarrow> rd32 (wr16 b off v) p = rd32 b p"
  by (simp add: rd32_def subslice_wr16)

lemma rd32_wr32_other:
  "off + 4 \<le> length b \<Longrightarrow> p + 4 \<le> length b \<Longrightarrow> p + 4 \<le> off \<or> off + 4 \<le> p \<Longrightarrow> rd32 (wr32 b off v) p = rd32 b p"
  by (simp add: rd32_def subslice_wr32)

lemmas field_other = rd16_wr16_other rd16_wr32_other rd32_wr16_other rd32_wr32_other

lemma view_block_update:
  assumes "length i = 128" and "k < 15"
  shows "map (i_block (i_set_block i k v)) [0..<15] = (map (i_block i) [0..<15])[k := v mod u32_limit]"
proof (rule nth_equalityI)
  fix j assume "j < length (map (i_block (i_set_block i k v)) [0..<15])"
  then have j: "j < 15" by simp
  show "map (i_block (i_set_block i k v)) [0..<15] ! j = (map (i_block i) [0..<15])[k := v mod u32_limit] ! j"
  proof (cases "j = k")
    case True
    with assms show ?thesis by (simp add: inode_defs)
  next
    case False
    then have "40 + 4 * j + 4 \<le> 40 + 4 * k \<or> 40 + 4 * k + 4 \<le> 40 + 4 * j" by linarith
    with False assms j show ?thesis by (simp add: inode_defs rd32_wr32_other)
  qed
qed simp

text \<open>Every setter of the raw inode stores its value, truncated to the width of the field, where the
  getter of that field finds it, and leaves every other field alone.\<close>

theorem inode_setters_update_view:
  assumes "length i = 128"
  shows "view (i_set_mode i v) = (view i)\<lparr>v_mode := v mod 65536\<rparr>
    \<and> view (i_set_size i v) = (view i)\<lparr>v_size := v mod u32_limit\<rparr>
    \<and> view (i_set_atime i v) = (view i)\<lparr>v_atime := v mod u32_limit\<rparr>
    \<and> view (i_set_ctime i v) = (view i)\<lparr>v_ctime := v mod u32_limit\<rparr>
    \<and> view (i_set_mtime i v) = (view i)\<lparr>v_mtime := v mod u32_limit\<rparr>
    \<and> view (i_set_dtime i v) = view i
    \<and> view (i_set_links i v) = (view i)\<lparr>v_links := v mod 65536\<rparr>
    \<and> view (i_set_blocks i v) = (view i)\<lparr>v_blocks := v mod u32_limit\<rparr>
    \<and> view (i_set_flags i v) = (view i)\<lparr>v_flags := v mod u32_limit\<rparr>
    \<and> (k < 15 \<longrightarrow> view (i_set_block i k v) = (view i)\<lparr>v_block := (v_block (view i))[k := v mod u32_limit]\<rparr>)"
proof (intro conjI impI)
  assume "k < 15"
  with assms show "view (i_set_block i k v) = (view i)\<lparr>v_block := (v_block (view i))[k := v mod u32_limit]\<rparr>"
    using view_block_update [of i k v]
    by (simp add: view_def) (simp add: inode_defs field_other)
qed (use assms in \<open>simp add: view_def inode_defs field_other; fail\<close>)+

theorem inode_setters_update_view_witness:
  "view (i_set_links inode_zeroed 3) = (view inode_zeroed)\<lparr>v_links := 3\<rparr>"
  using inode_setters_update_view [of inode_zeroed 3 0] by (simp add: inode_zeroed_def)

end
