(* ===== verification/Ext2_Dirent.thy ===== *)
theory Ext2_Dirent
  imports Ext2_Base
begin

text \<open>
  Directory entries of the ext2 driver (\<^verbatim>\<open>src/fs/ext2/mod.rs\<close>): parsing and writing one entry,
  and the loops of the directory operations over the entries of one block. The loops
  have no effect but on the block's buffer, so they are functions of it.
\<close>

section \<open>Operations\<close>

record raw_dirent =
  d_inode :: nat
  d_rec_len :: nat
  d_name_len :: nat
  d_ftype :: nat

definition parse_dirent :: "bytes \<Rightarrow> nat \<Rightarrow> nat \<Rightarrow> (fs_error, raw_dirent) res" where
  "parse_dirent b off bs =
     (if off + 8 > bs then Err Corrupt
      else
        bind_res (rd16_at b (off + 4)) (\<lambda>rec_len.
        if off + 7 \<ge> length b then Panic
        else
          let name_len = unat (b ! (off + 6)) in
          if rec_len < 8 \<or> rec_len mod 4 \<noteq> 0 \<or> off + rec_len > bs \<or> 8 + name_len > rec_len
          then Err Corrupt
          else
            bind_res (rd32_at b off) (\<lambda>ino.
            Ok \<lparr>d_inode = ino, d_rec_len = rec_len, d_name_len = name_len,
                d_ftype = unat (b ! (off + 7))\<rparr>)))"

definition put_dirent :: "bytes \<Rightarrow> nat \<Rightarrow> nat \<Rightarrow> nat \<Rightarrow> bytes \<Rightarrow> nat \<Rightarrow> (fs_error, bytes) res" where
  "put_dirent buf off ino rec_len nm ft =
     bind_res (wr32_at buf off ino) (\<lambda>buf.
     bind_res (wr16_at buf (off + 4) rec_len) (\<lambda>buf.
     if off + 8 + length nm > length buf then Panic
     else Ok (blit (off + 8) nm (buf[off + 6 := of_nat (length nm), off + 7 := of_nat ft]))))"

definition dirent_name :: "bytes \<Rightarrow> nat \<Rightarrow> raw_dirent \<Rightarrow> bytes" where
  "dirent_name buf off e = subslice (off + 8) (d_name_len e) buf"

definition dirent_matches :: "bytes \<Rightarrow> nat \<Rightarrow> raw_dirent \<Rightarrow> bytes \<Rightarrow> bool" where
  "dirent_matches buf off e nm \<longleftrightarrow> d_inode e \<noteq> 0 \<and> d_name_len e = length nm \<and> dirent_name buf off e = nm"

lemma parse_dirent_rec_len:
  "parse_dirent b off bs = Ok e \<Longrightarrow> 8 \<le> d_rec_len e \<and> d_rec_len e mod 4 = 0 \<and> off + d_rec_len e \<le> bs
     \<and> 8 + d_name_len e \<le> d_rec_len e"
  by (auto simp: parse_dirent_def rd16_at_def rd32_at_def Let_def split: if_splits)

text \<open>The loop of \<open>dir_find\<close>.\<close>

function find_in_block :: "nat \<Rightarrow> bytes \<Rightarrow> bytes \<Rightarrow> nat \<Rightarrow> (fs_error, (nat \<times> nat) option) res" where
  "find_in_block bs buf nm off =
     (if off < bs then
        (case parse_dirent buf off bs of
           Ok e \<Rightarrow>
             if dirent_matches buf off e nm then Ok (Some (d_inode e, d_ftype e))
             else find_in_block bs buf nm (off + d_rec_len e)
         | Err x \<Rightarrow> Err x | Panic \<Rightarrow> Panic | Hang \<Rightarrow> Hang)
      else Ok None)"
  by pat_completeness auto
termination
  by (relation "measure (\<lambda>(bs, buf, nm, off). bs - off)") (auto dest: parse_dirent_rec_len)

text \<open>The loop of \<open>dir_add\<close>: the new contents of the block when some entry has room.\<close>

function add_in_block ::
  "nat \<Rightarrow> bytes \<Rightarrow> bytes \<Rightarrow> nat \<Rightarrow> nat \<Rightarrow> nat \<Rightarrow> (fs_error, bytes option) res" where
  "add_in_block bs buf nm child ft off =
     (if off < bs then
        (case parse_dirent buf off bs of
           Ok e \<Rightarrow>
             let used = (if d_inode e = 0 then 0 else align4 (8 + d_name_len e)) in
             if used > d_rec_len e then Panic
             else if d_rec_len e - used \<ge> align4 (8 + length nm) then
               (if d_inode e = 0
                then bind_res (put_dirent buf off child (d_rec_len e) nm ft) (\<lambda>buf. Ok (Some buf))
                else
                  bind_res (wr16_at buf (off + 4) used) (\<lambda>buf.
                  bind_res (put_dirent buf (off + used) child (d_rec_len e - used) nm ft) (\<lambda>buf.
                  Ok (Some buf))))
             else add_in_block bs buf nm child ft (off + d_rec_len e)
         | Err x \<Rightarrow> Err x | Panic \<Rightarrow> Panic | Hang \<Rightarrow> Hang)
      else Ok None)"
  by pat_completeness auto
termination
  by (relation "measure (\<lambda>(bs, buf, nm, child, ft, off). bs - off)") (auto dest: parse_dirent_rec_len)

text \<open>The loop of \<open>dir_remove\<close>: the new contents of the block and the inode removed.\<close>

function remove_in_block ::
  "nat \<Rightarrow> bytes \<Rightarrow> bytes \<Rightarrow> nat option \<Rightarrow> nat \<Rightarrow> (fs_error, (bytes \<times> nat) option) res" where
  "remove_in_block bs buf nm prev off =
     (if off < bs then
        (case parse_dirent buf off bs of
           Ok e \<Rightarrow>
             if dirent_matches buf off e nm then
               (case prev of
                  Some p \<Rightarrow>
                    bind_res (rd16_at buf (p + 4)) (\<lambda>pl.
                    bind_res (wr16_at buf (p + 4) (pl + d_rec_len e)) (\<lambda>buf.
                    Ok (Some (buf, d_inode e))))
                | None \<Rightarrow>
                    bind_res (wr32_at buf off 0) (\<lambda>buf. Ok (Some (buf, d_inode e))))
             else remove_in_block bs buf nm (Some off) (off + d_rec_len e)
         | Err x \<Rightarrow> Err x | Panic \<Rightarrow> Panic | Hang \<Rightarrow> Hang)
      else Ok None)"
  by pat_completeness auto
termination
  by (relation "measure (\<lambda>(bs, buf, nm, prev, off). bs - off)") (auto dest: parse_dirent_rec_len)

text \<open>The loop of \<open>dir_is_empty\<close>.\<close>

function empty_block :: "nat \<Rightarrow> bytes \<Rightarrow> nat \<Rightarrow> (fs_error, bool) res" where
  "empty_block bs buf off =
     (if off < bs then
        (case parse_dirent buf off bs of
           Ok e \<Rightarrow>
             if d_inode e \<noteq> 0 \<and> dirent_name buf off e \<noteq> [0x2E] \<and> dirent_name buf off e \<noteq> [0x2E, 0x2E]
             then Ok False
             else empty_block bs buf (off + d_rec_len e)
         | Err x \<Rightarrow> Err x | Panic \<Rightarrow> Panic | Hang \<Rightarrow> Hang)
      else Ok True)"
  by pat_completeness auto
termination
  by (relation "measure (\<lambda>(bs, buf, off). bs - off)") (auto dest: parse_dirent_rec_len)

text \<open>The loop of \<open>readdir\<close>.\<close>

function list_block :: "bool \<Rightarrow> nat \<Rightarrow> bytes \<Rightarrow> nat \<Rightarrow> (fs_error, dir_entry list) res" where
  "list_block filetype bs buf off =
     (if off < bs then
        (case parse_dirent buf off bs of
           Ok e \<Rightarrow>
             bind_res (list_block filetype bs buf (off + d_rec_len e)) (\<lambda>rest.
             Ok (if d_inode e \<noteq> 0
                 then \<lparr>de_ino = d_inode e, de_name = dirent_name buf off e,
                       de_file_type = (if filetype then from_dirent (d_ftype e) else Unknown)\<rparr> # rest
                 else rest))
         | Err x \<Rightarrow> Err x | Panic \<Rightarrow> Panic | Hang \<Rightarrow> Hang)
      else Ok [])"
  by pat_completeness auto
termination
  by (relation "measure (\<lambda>(filetype, bs, buf, off). bs - off)") (auto dest: parse_dirent_rec_len)

declare find_in_block.simps [simp del] add_in_block.simps [simp del] remove_in_block.simps [simp del]
  empty_block.simps [simp del] list_block.simps [simp del]

section \<open>Directory blocks as lists of entries\<close>

text \<open>An entry with the bytes that pad it to its record length, and its encoding.\<close>

record dent =
  t_ino :: nat
  t_name :: bytes
  t_ft :: u8
  t_pad :: bytes

definition rec_of :: "dent \<Rightarrow> nat" where
  "rec_of e = 8 + length (t_name e) + length (t_pad e)"

definition enc :: "dent \<Rightarrow> bytes" where
  "enc e = le_bytes 4 (t_ino e) @ le_bytes 2 (rec_of e) @ [of_nat (length (t_name e)), t_ft e]
     @ t_name e @ t_pad e"

definition dent_ok :: "dent \<Rightarrow> bool" where
  "dent_ok e \<longleftrightarrow> t_ino e < u32_limit \<and> rec_of e < 65536 \<and> rec_of e mod 4 = 0 \<and> length (t_name e) < 256"

definition encs :: "dent list \<Rightarrow> bytes" where
  "encs es = concat (map enc es)"

lemma length_enc [simp]: "length (enc e) = rec_of e"
  by (simp add: enc_def rec_of_def)

lemma encs_simps [simp]: "encs [] = []" "encs (e # es) = enc e @ encs es" "encs (es @ fs) = encs es @ encs fs"
  by (simp_all add: encs_def)

lemma rec_of_ge: "8 \<le> rec_of e"
  by (simp add: rec_of_def)

text \<open>Reading an entry that stands between other bytes.\<close>

lemma subslice_append: "subslice (length A + off) n (A @ B) = subslice off n B"
  by (simp add: subslice_def)

lemma drop_subslice: "drop off b = subslice off n b @ drop (off + n) b"
  using append_take_drop_id [of n "drop off b"] by (simp add: subslice_def add.commute)

lemma parse_enc:
  assumes "dent_ok e" and "length A + rec_of e \<le> bs" and "length (A @ enc e @ B) = bs"
  shows "parse_dirent (A @ enc e @ B) (length A) bs
    = Ok \<lparr>d_inode = t_ino e, d_rec_len = rec_of e, d_name_len = length (t_name e), d_ftype = unat (t_ft e)\<rparr>"
proof -
  have ino: "rd32 (A @ enc e @ B) (length A) = t_ino e"
    using assms(1) subslice_append [of A 0 4 "enc e @ B"]
    by (simp add: rd32_def enc_def dent_ok_def subslice_def)
  have rl: "rd16 (A @ enc e @ B) (length A + 4) = rec_of e"
    using assms(1) by (simp add: rd16_def subslice_append) (simp add: enc_def dent_ok_def subslice_def)
  have b: "(A @ enc e @ B) ! (length A + 6) = of_nat (length (t_name e))"
      "(A @ enc e @ B) ! (length A + 7) = t_ft e"
    by (simp_all add: nth_append enc_def)
  have nl: "unat (of_nat (length (t_name e)) :: u8) = length (t_name e)"
    using assms(1) by (simp add: unat_of_nat8 dent_ok_def)
  have "8 \<le> rec_of e" "8 + length (t_name e) \<le> rec_of e" "rec_of e mod 4 = 0"
    using assms(1) by (auto simp: dent_ok_def rec_of_def)
  with assms(2,3) ino rl b nl show ?thesis
    by (simp add: parse_dirent_def rd16_at_def rd32_at_def)
qed

lemma name_enc:
  "d_name_len r = length (t_name e) \<Longrightarrow> dirent_name (A @ enc e @ B) (length A) r = t_name e"
  by (simp add: dirent_name_def subslice_append) (simp add: enc_def subslice_def)

lemma matches_enc:
  "dirent_matches (A @ enc e @ B) (length A)
      \<lparr>d_inode = t_ino e, d_rec_len = rec_of e, d_name_len = length (t_name e), d_ftype = f\<rparr> nm
    \<longleftrightarrow> t_ino e \<noteq> 0 \<and> t_name e = nm"
  by (auto simp: dirent_matches_def name_enc)

definition names_entry :: "bytes \<Rightarrow> dent \<Rightarrow> bool" where
  "names_entry nm e \<longleftrightarrow> t_ino e \<noteq> 0 \<and> t_name e = nm"

definition all_ok :: "dent list \<Rightarrow> bool" where
  "all_ok es \<longleftrightarrow> (\<forall>e\<in>set es. dent_ok e)"

lemma all_ok_simps [simp]: "all_ok []" "all_ok (e # es) \<longleftrightarrow> dent_ok e \<and> all_ok es"
  "all_ok (es @ fs) \<longleftrightarrow> all_ok es \<and> all_ok fs"
  by (auto simp: all_ok_def)

lemma find_in_block_encs:
  assumes "all_ok es" and "length (A @ encs es) = bs"
  shows "find_in_block bs (A @ encs es) nm (length A)
    = Ok (map_option (\<lambda>e. (t_ino e, unat (t_ft e))) (List.find (names_entry nm) es))"
  using assms
proof (induction es arbitrary: A)
  case Nil
  then show ?case by (simp add: find_in_block.simps)
next
  case (Cons e es)
  have lt: "length A < bs" "length A + rec_of e \<le> bs"
    using Cons.prems(2) rec_of_ge [of e] by auto
  have p: "parse_dirent (A @ enc e @ encs es) (length A) bs
    = Ok \<lparr>d_inode = t_ino e, d_rec_len = rec_of e, d_name_len = length (t_name e), d_ftype = unat (t_ft e)\<rparr>"
    using Cons.prems lt by (intro parse_enc) auto
  show ?case
  proof (cases "names_entry nm e")
    case True
    then have "dirent_matches (A @ enc e @ encs es) (length A)
        \<lparr>d_inode = t_ino e, d_rec_len = rec_of e, d_name_len = length (t_name e), d_ftype = unat (t_ft e)\<rparr> nm"
      unfolding matches_enc names_entry_def .
    with lt p True show ?thesis
      by (subst find_in_block.simps) simp
  next
    case False
    then have "find_in_block bs (A @ encs (e # es)) nm (length A)
        = find_in_block bs ((A @ enc e) @ encs es) nm (length (A @ enc e))"
      using lt p by (subst find_in_block.simps) (auto simp: matches_enc names_entry_def)
    with Cons.IH [of "A @ enc e"] Cons.prems False show ?thesis by simp
  qed
qed

definition entry_of :: "bool \<Rightarrow> dent \<Rightarrow> dir_entry" where
  "entry_of filetype e = \<lparr>de_ino = t_ino e, de_name = t_name e,
     de_file_type = (if filetype then from_dirent (unat (t_ft e)) else Unknown)\<rparr>"

lemma list_block_encs:
  assumes "all_ok es" and "length (A @ encs es) = bs"
  shows "list_block filetype bs (A @ encs es) (length A)
    = Ok (map (entry_of filetype) (filter (\<lambda>e. t_ino e \<noteq> 0) es))"
  using assms
proof (induction es arbitrary: A)
  case Nil
  then show ?case by (simp add: list_block.simps)
next
  case (Cons e es)
  have lt: "length A < bs" "length A + rec_of e \<le> bs"
    using Cons.prems(2) rec_of_ge [of e] by auto
  have p: "parse_dirent (A @ enc e @ encs es) (length A) bs
    = Ok \<lparr>d_inode = t_ino e, d_rec_len = rec_of e, d_name_len = length (t_name e), d_ftype = unat (t_ft e)\<rparr>"
    using Cons.prems lt by (intro parse_enc) auto
  have "list_block filetype bs ((A @ enc e) @ encs es) (length (A @ enc e))
      = Ok (map (entry_of filetype) (filter (\<lambda>e. t_ino e \<noteq> 0) es))"
    using Cons.prems by (intro Cons.IH) auto
  with lt p show ?case
    by (subst list_block.simps) (simp add: entry_of_def name_enc)
qed

lemma empty_block_encs:
  assumes "all_ok es" and "length (A @ encs es) = bs"
  shows "empty_block bs (A @ encs es) (length A)
    = Ok (\<forall>e\<in>set es. t_ino e \<noteq> 0 \<longrightarrow> t_name e = [0x2E] \<or> t_name e = [0x2E, 0x2E])"
  using assms
proof (induction es arbitrary: A)
  case Nil
  then show ?case by (simp add: empty_block.simps)
next
  case (Cons e es)
  have lt: "length A < bs" "length A + rec_of e \<le> bs"
    using Cons.prems(2) rec_of_ge [of e] by auto
  have p: "parse_dirent (A @ enc e @ encs es) (length A) bs
    = Ok \<lparr>d_inode = t_ino e, d_rec_len = rec_of e, d_name_len = length (t_name e), d_ftype = unat (t_ft e)\<rparr>"
    using Cons.prems lt by (intro parse_enc) auto
  have "empty_block bs ((A @ enc e) @ encs es) (length (A @ enc e))
      = Ok (\<forall>e\<in>set es. t_ino e \<noteq> 0 \<longrightarrow> t_name e = [0x2E] \<or> t_name e = [0x2E, 0x2E])"
    using Cons.prems by (intro Cons.IH) auto
  with lt p show ?case
    by (subst empty_block.simps) (simp add: name_enc)
qed

text \<open>Conversely, every block the loops accept is such an encoding.\<close>

lemma parse_dirent_enc:
  assumes "parse_dirent buf off bs = Ok r" and "length buf = bs" and "bs < 65536"
  obtains e where "dent_ok e" and "rec_of e = d_rec_len r" and "t_ino e = d_inode r"
    and "drop off buf = enc e @ drop (off + d_rec_len r) buf"
proof -
  note len = parse_dirent_rec_len [OF assms(1)]
  have r: "d_rec_len r = rd16 buf (off + 4)" "d_name_len r = unat (buf ! (off + 6))" "d_inode r = rd32 buf off"
    using assms(1) by (auto simp: parse_dirent_def rd16_at_def rd32_at_def Let_def split: if_splits)
  define X where "X = subslice off (d_rec_len r) buf"
  have lX: "length X = d_rec_len r" using len assms(2) by (simp add: X_def)
  have split: "drop off buf = X @ drop (off + d_rec_len r) buf"
    unfolding X_def by (rule drop_subslice)
  define nl where "nl = d_name_len r"
  define e where "e = \<lparr>t_ino = d_inode r, t_name = subslice 8 nl X, t_ft = X ! 7, t_pad = drop (8 + nl) X\<rparr>"
  have ln: "length (t_name e) = nl" and rec: "rec_of e = d_rec_len r"
    using len lX by (simp_all add: e_def rec_of_def nl_def)
  have nth: "X ! k = buf ! (off + k)" if "k < 8" for k
    using that len assms(2) unfolding X_def by (intro nth_slice) auto
  have sub: "subslice off 4 buf = take 4 X" "subslice (off + 4) 2 buf = take 2 (drop 4 X)"
    using len by (simp_all add: X_def subslice_def add.commute min_def take_drop)
  have l4: "length (take 4 X) = 4" "length (take 2 (drop 4 X)) = 2"
    using len lX by (auto simp: min_def)
  have "le_bytes 4 (d_inode r) = take 4 X"
    using le_bytes_le_nat [of "take 4 X"] unfolding l4 r(3) rd32_def sub .
  moreover have "le_bytes 2 (d_rec_len r) = take 2 (drop 4 X)"
    using le_bytes_le_nat [of "take 2 (drop 4 X)"] unfolding l4 r(1) rd16_def sub .
  moreover have "of_nat nl = X ! 6"
    by (simp add: nl_def r(2) nth word_unat_eq_iff unat_of_nat8)
  ultimately have "enc e = take 4 X @ take 2 (drop 4 X) @ [X ! 6, X ! 7] @ subslice 8 nl X @ drop (8 + nl) X"
    by (simp add: enc_def ln rec) (simp add: e_def)
  also have "subslice 8 nl X @ drop (8 + nl) X = drop 8 X"
    by (rule drop_subslice [symmetric])
  also have "[X ! 6, X ! 7] @ drop 8 X = drop 6 X"
    using len lX Cons_nth_drop_Suc [of 6 X] Cons_nth_drop_Suc [of 7 X] by simp
  also have "take 2 (drop 4 X) @ drop 6 X = drop 4 X"
    using append_take_drop_id [of 2 "drop 4 X"] by simp
  finally have "enc e = X" by simp
  moreover have "dent_ok e"
    using len rec ln assms(3) rd32_less [of buf off] unat8_less [of "buf ! (off + 6)"]
    by (simp add: dent_ok_def nl_def r(2)) (simp add: e_def r(3))
  ultimately show thesis
    using that [of e] rec split by (simp add: e_def)
qed

lemma list_block_accepts:
  assumes "list_block filetype bs buf off = Ok l" and "length buf = bs" and "bs < 65536" and "off \<le> bs"
  shows "\<exists>es. all_ok es \<and> drop off buf = encs es"
  using assms
proof (induction filetype bs buf off arbitrary: l rule: list_block.induct)
  case (1 filetype bs buf off)
  show ?case
  proof (cases "off < bs")
    case False
    with "1.prems" show ?thesis by (intro exI [of _ "[]"]) simp
  next
    case True
    then obtain r l' where r: "parse_dirent buf off bs = Ok r"
      and l': "list_block filetype bs buf (off + d_rec_len r) = Ok l'"
      using "1.prems"(1)
      by (auto simp: list_block.simps [of filetype bs buf off] bind_res_def split: res.splits)
    have "off + d_rec_len r \<le> bs" using parse_dirent_rec_len [OF r] by simp
    from "1.IH" [OF True r l' "1.prems"(2,3) this]
    obtain es where es: "all_ok es" "drop (off + d_rec_len r) buf = encs es" by blast
    obtain e where "dent_ok e" "drop off buf = enc e @ drop (off + d_rec_len r) buf"
      by (rule parse_dirent_enc [OF r "1.prems"(2,3)])
    with es show ?thesis by (intro exI [of _ "e # es"]) simp
  qed
qed

section \<open>Adding an entry\<close>

lemma blit_append: "off = length A \<Longrightarrow> length v = length X \<Longrightarrow> blit off v (A @ X @ B) = A @ v @ B"
  by (simp add: blit_def)

lemma list_take_drop_8:
  assumes "8 + n \<le> length X"
  obtains X4 X2 c d Y Z where "X = X4 @ X2 @ [c, d] @ Y @ Z" and "length X4 = 4" and "length X2 = 2"
    and "length Y = n" and "Z = drop (8 + n) X"
proof
  show "X = take 4 X @ take 2 (drop 4 X) @ [X ! 6, X ! 7] @ take n (drop 8 X) @ drop (8 + n) X"
  proof -
    have "take n (drop 8 X) @ drop (8 + n) X = drop 8 X"
      using drop_subslice [of 8 X n] by (simp add: subslice_def)
    moreover have "[X ! 6, X ! 7] @ drop 8 X = drop 6 X"
      using assms Cons_nth_drop_Suc [of 6 X] Cons_nth_drop_Suc [of 7 X] by simp
    moreover have "take 2 (drop 4 X) @ drop 6 X = drop 4 X"
      using append_take_drop_id [of 2 "drop 4 X"] by simp
    ultimately show ?thesis by (metis append_assoc append_take_drop_id)
  qed
qed (use assms in auto)

lemma put_dirent_enc:
  assumes "length X = rl" and "8 + length nm \<le> rl"
  shows "put_dirent (A @ X @ B) (length A) ino rl nm ft
    = Ok (A @ enc \<lparr>t_ino = ino, t_name = nm, t_ft = of_nat ft, t_pad = drop (8 + length nm) X\<rparr> @ B)"
proof -
  obtain X4 X2 c d Y Z where X: "X = X4 @ X2 @ [c, d] @ Y @ Z" "length X4 = 4" "length X2 = 2"
      "length Y = length nm" "Z = drop (8 + length nm) X"
    by (rule list_take_drop_8 [of "length nm" X]) (use assms in simp)
  have "length X = 8 + length nm + length Z"
    unfolding X(1) using X(2-4) by simp
  then have rl: "rl = 8 + length nm + length Z"
    using assms(1) by simp
  have w32: "wr32 (A @ X @ B) (length A) ino = A @ le_bytes 4 ino @ X2 @ [c, d] @ Y @ Z @ B"
    using blit_append [of "length A" A "le_bytes 4 ino" X4] X(2) by (simp add: wr32_def X(1))
  have w16: "wr16 (A @ le_bytes 4 ino @ X2 @ [c, d] @ Y @ Z @ B) (length A + 4) rl
      = A @ le_bytes 4 ino @ le_bytes 2 rl @ [c, d] @ Y @ Z @ B"
    using blit_append [of "length A + 4" "A @ le_bytes 4 ino" "le_bytes 2 rl" X2] X(3) by (simp add: wr16_def)
  have upd: "(A @ le_bytes 4 ino @ le_bytes 2 rl @ [c, d] @ Y @ Z @ B)
        [length A + 6 := v, length A + 7 := w]
      = A @ le_bytes 4 ino @ le_bytes 2 rl @ [v, w] @ Y @ Z @ B" for v w
    by (simp add: list_update_append)
  have "blit (length A + 8) nm (A @ le_bytes 4 ino @ le_bytes 2 rl @ [v, w] @ Y @ Z @ B)
      = A @ le_bytes 4 ino @ le_bytes 2 rl @ [v, w] @ nm @ Z @ B" for v w
    using blit_append [of "length A + 8" "A @ le_bytes 4 ino @ le_bytes 2 rl @ [v, w]" nm Y] X(4) by simp
  moreover have "length A + 4 \<le> length (A @ X @ B)" "length A + 8 + length nm \<le> length (A @ X @ B)"
    using assms by auto
  ultimately show ?thesis
    using X(3,4) unfolding put_dirent_def wr32_at_def wr16_at_def rl
    by (simp add: w32 w16 [unfolded rl append_Cons append_Nil]
      upd [unfolded rl append_Cons append_Nil] enc_def rec_of_def flip: X(5))
qed

definition used_of :: "dent \<Rightarrow> nat" where
  "used_of e = (if t_ino e = 0 then 0 else align4 (8 + length (t_name e)))"

definition has_room :: "bytes \<Rightarrow> dent \<Rightarrow> bool" where
  "has_room nm e \<longleftrightarrow> align4 (8 + length nm) \<le> rec_of e - used_of e"

text \<open>The new entry takes the place of an unused one, or the slack behind a used one.\<close>

definition place :: "bytes \<Rightarrow> nat \<Rightarrow> nat \<Rightarrow> dent \<Rightarrow> dent list" where
  "place nm child ft e =
     (if t_ino e = 0
      then [\<lparr>t_ino = child, t_name = nm, t_ft = of_nat ft, t_pad = drop (8 + length nm) (enc e)\<rparr>]
      else
        let k = used_of e - 8 - length (t_name e) in
        [e\<lparr>t_pad := take k (t_pad e)\<rparr>,
         \<lparr>t_ino = child, t_name = nm, t_ft = of_nat ft, t_pad = drop (8 + length nm) (drop k (t_pad e))\<rparr>])"

lemma used_of_le:
  assumes "dent_ok e"
  shows "used_of e \<le> rec_of e" and "t_ino e \<noteq> 0 \<Longrightarrow> 8 + length (t_name e) \<le> used_of e \<and> 4 dvd used_of e"
proof -
  have s: "8 + length (t_name e) + 3 < u64_limit" "4 dvd rec_of e" "8 + length (t_name e) \<le> rec_of e"
    using assms by (auto simp: dent_ok_def rec_of_def)
  have a: "align4 (8 + length (t_name e)) = (8 + length (t_name e) + 3) div 4 * 4"
    using s(1) by (rule align4_eq)
  obtain m where m: "rec_of e = 4 * m" using s(2) by blast
  have "(8 + length (t_name e) + 3) div 4 \<le> m"
    using s(3) m by linarith
  then show "used_of e \<le> rec_of e"
    using a m by (simp add: used_of_def)
  show "t_ino e \<noteq> 0 \<Longrightarrow> 8 + length (t_name e) \<le> used_of e \<and> 4 dvd used_of e"
    using align4_ge [OF s(1)] by (simp add: used_of_def)
qed

lemma place_ok:
  assumes "dent_ok e" and "has_room nm e" and "length nm \<le> MAX_NAME" and "child < u32_limit"
  shows "all_ok (place nm child ft e)" and "sum_list (map rec_of (place nm child ft e)) = rec_of e"
proof -
  have need: "8 + length nm \<le> rec_of e - used_of e"
    using align4_ge [of "8 + length nm"] assms(2,3) by (simp add: has_room_def)
  have e: "rec_of e < 65536" "rec_of e mod 4 = 0" "t_ino e < u32_limit" "length (t_name e) < 256"
    using assms(1) by (auto simp: dent_ok_def)
  note u = used_of_le [OF assms(1)]
  show "sum_list (map rec_of (place nm child ft e)) = rec_of e"
  proof (cases "t_ino e = 0")
    case True
    with need show ?thesis by (simp add: place_def rec_of_def used_of_def)
  next
    case False
    with u need have k: "8 + length (t_name e) \<le> used_of e" "used_of e + 8 + length nm \<le> rec_of e"
      by auto
    then show ?thesis
      using False by (simp add: place_def Let_def rec_of_def min_def)
  qed
  show "all_ok (place nm child ft e)"
  proof (cases "t_ino e = 0")
    case True
    then have "rec_of \<lparr>t_ino = child, t_name = nm, t_ft = of_nat ft, t_pad = drop (8 + length nm) (enc e)\<rparr> = rec_of e"
      using need by (simp add: rec_of_def used_of_def)
    with True e assms(3,4) show ?thesis by (simp add: place_def dent_ok_def)
  next
    case False
    define k where "k = used_of e - 8 - length (t_name e)"
    let ?e1 = "e\<lparr>t_pad := take k (t_pad e)\<rparr>"
    let ?e2 = "\<lparr>t_ino = child, t_name = nm, t_ft = of_nat ft, t_pad = drop (8 + length nm) (drop k (t_pad e))\<rparr>"
    have b: "8 + length (t_name e) \<le> used_of e" "4 dvd used_of e" "used_of e + 8 + length nm \<le> rec_of e"
      using u(2) [OF False] need by auto
    have r1: "rec_of ?e1 = used_of e"
      using b by (simp add: rec_of_def k_def min_def)
    have r2: "rec_of ?e2 = rec_of e - used_of e"
      using b by (simp add: rec_of_def k_def)
    have "4 dvd rec_of e - used_of e"
      using b(2) e(2) by (simp add: dvd_diff_nat mod_0_imp_dvd)
    then have "dent_ok ?e1" "dent_ok ?e2"
      using r1 r2 b e assms(3,4) u(1) by (auto simp: dent_ok_def)
    with False show ?thesis by (simp add: place_def Let_def k_def)
  qed
qed

lemma add_at_entry:
  assumes "dent_ok e" and "has_room nm e" and "length nm \<le> MAX_NAME"
    and "length (A @ enc e @ B) = bs"
  shows "add_in_block bs (A @ enc e @ B) nm child ft (length A)
    = Ok (Some (A @ encs (place nm child ft e) @ B))"
proof -
  have need: "8 + length nm \<le> rec_of e - used_of e"
    using align4_ge [of "8 + length nm"] assms(2,3) by (simp add: has_room_def)
  have lt: "length A < bs" "length A + rec_of e \<le> bs"
    using assms(4) rec_of_ge [of e] by auto
  note p = parse_enc [OF assms(1) lt(2) assms(4)] and u = used_of_le [OF assms(1)]
  show ?thesis
  proof (cases "t_ino e = 0")
    case True
    then have "put_dirent (A @ enc e @ B) (length A) child (rec_of e) nm ft
        = Ok (A @ encs (place nm child ft e) @ B)"
      using need by (subst put_dirent_enc) (simp_all add: place_def used_of_def)
    with True lt p assms(2) show ?thesis
      by (subst add_in_block.simps) (simp add: has_room_def used_of_def)
  next
    case False
    define k where "k = used_of e - 8 - length (t_name e)"
    have b: "8 + length (t_name e) \<le> used_of e" "used_of e + 8 + length nm \<le> rec_of e"
      using u(2) [OF False] need by auto
    let ?e1 = "e\<lparr>t_pad := take k (t_pad e)\<rparr>" and ?X = "drop k (t_pad e)"
    have r1: "rec_of ?e1 = used_of e"
      using b by (simp add: rec_of_def k_def min_def)
    have "enc e = le_bytes 4 (t_ino e) @ le_bytes 2 (rec_of e) @ [of_nat (length (t_name e)), t_ft e]
        @ t_name e @ take k (t_pad e) @ ?X"
      by (simp add: enc_def)
    then have w: "wr16 (A @ enc e @ B) (length A + 4) (used_of e) = (A @ enc ?e1) @ ?X @ B"
      using blit_append [of "length A + 4" "A @ le_bytes 4 (t_ino e)" "le_bytes 2 (used_of e)" "le_bytes 2 (rec_of e)"] r1
      by (simp add: wr16_def) (simp add: enc_def)
    have len: "length ?X = rec_of e - used_of e"
      using b by (simp add: rec_of_def k_def)
    have "put_dirent ((A @ enc ?e1) @ ?X @ B) (length (A @ enc ?e1)) child (rec_of e - used_of e) nm ft
        = Ok (A @ encs (place nm child ft e) @ B)"
      using need False by (subst put_dirent_enc [OF len]) (simp_all add: place_def Let_def k_def)
    moreover have "length (A @ enc ?e1) = length A + used_of e"
      using r1 by simp
    moreover have "align4 (8 + length (t_name e)) = used_of e"
      using False by (simp add: used_of_def)
    ultimately show ?thesis
      using False lt p assms(2) w u(1) rec_of_ge [of e]
      by (subst add_in_block.simps) (simp add: has_room_def wr16_at_def)
  qed
qed

primrec add_list :: "bytes \<Rightarrow> nat \<Rightarrow> nat \<Rightarrow> dent list \<Rightarrow> dent list option" where
  "add_list nm child ft [] = None"
| "add_list nm child ft (e # es) =
     (if has_room nm e then Some (place nm child ft e @ es)
      else map_option (\<lambda>es'. e # es') (add_list nm child ft es))"

lemma add_in_block_encs:
  assumes "all_ok es" and "length (A @ encs es) = bs" and "length nm \<le> MAX_NAME"
  shows "add_in_block bs (A @ encs es) nm child ft (length A)
    = Ok (map_option (\<lambda>es'. A @ encs es') (add_list nm child ft es))"
  using assms(1,2)
proof (induction es arbitrary: A)
  case Nil
  then show ?case by (simp add: add_in_block.simps)
next
  case (Cons e es)
  show ?case
  proof (cases "has_room nm e")
    case True
    with Cons.prems add_at_entry [of e nm A "encs es" bs child ft] assms(3) show ?thesis by simp
  next
    case False
    have lt: "length A < bs" "length A + rec_of e \<le> bs"
      using Cons.prems(2) rec_of_ge [of e] by auto
    have p: "parse_dirent (A @ enc e @ encs es) (length A) bs
      = Ok \<lparr>d_inode = t_ino e, d_rec_len = rec_of e, d_name_len = length (t_name e), d_ftype = unat (t_ft e)\<rparr>"
      using Cons.prems lt by (intro parse_enc) auto
    have "add_in_block bs (A @ encs (e # es)) nm child ft (length A)
        = add_in_block bs ((A @ enc e) @ encs es) nm child ft (length (A @ enc e))"
      using lt p False used_of_le(1) [of e] Cons.prems(1)
      by (subst add_in_block.simps) (cases "t_ino e = 0"; simp add: has_room_def used_of_def Let_def)
    with Cons.IH [of "A @ enc e"] Cons.prems False show ?thesis
      by (simp add: option.map_comp comp_def)
  qed
qed

lemma add_list_ok:
  assumes "add_list nm child ft es = Some es'" and "all_ok es" and "length nm \<le> MAX_NAME" and "child < u32_limit"
  shows "all_ok es'" and "length (encs es') = length (encs es)"
  using assms(1,2)
proof (induction es arbitrary: es')
  case Nil
  { case 1 then show ?case by simp next case 2 then show ?case by simp }
next
  case (Cons e es)
  have len: "length (encs fs) = sum_list (map rec_of fs)" for fs
    by (simp add: encs_def length_concat comp_def)
  {
    case 1
    with Cons.IH(1) place_ok(1) assms(3,4) show ?case by (auto split: if_splits)
  next
    case 2
    with Cons.IH(2) place_ok(2) [OF _ _ assms(3,4)] show ?case
      by (auto simp: len split: if_splits)
  }
qed

lemma place_find:
  "child \<noteq> 0 \<Longrightarrow> \<not> names_entry nm e \<Longrightarrow>
    map_option (\<lambda>e. (t_ino e, unat (t_ft e))) (List.find (names_entry nm') (place nm child ft e @ es))
     = (if nm' = nm then Some (child, unat (of_nat ft :: u8))
        else map_option (\<lambda>e. (t_ino e, unat (t_ft e))) (List.find (names_entry nm') (e # es)))"
  by (auto simp: place_def names_entry_def Let_def)

lemma add_list_find:
  assumes "add_list nm child ft es = Some es'" and "child \<noteq> 0" and "List.find (names_entry nm) es = None"
  shows "map_option (\<lambda>e. (t_ino e, unat (t_ft e))) (List.find (names_entry nm') es')
    = (if nm' = nm then Some (child, unat (of_nat ft :: u8))
       else map_option (\<lambda>e. (t_ino e, unat (t_ft e))) (List.find (names_entry nm') es))"
  using assms(1,3)
proof (induction es arbitrary: es')
  case Nil
  then show ?case by simp
next
  case (Cons e es)
  then have ne: "\<not> names_entry nm e" by (auto split: if_splits)
  show ?case
  proof (cases "has_room nm e")
    case True
    with Cons.prems(1) have "es' = place nm child ft e @ es" by simp
    then show ?thesis
      by (simp only: place_find [OF assms(2) ne])
  next
    case False
    with Cons.prems obtain es'' where "es' = e # es''" "add_list nm child ft es = Some es''"
      by auto
    with Cons.IH Cons.prems(2) ne show ?thesis
      by (cases "nm' = nm") auto
  qed
qed

section \<open>Removing an entry\<close>

definition absorb :: "dent \<Rightarrow> dent \<Rightarrow> dent" where
  "absorb q e = q\<lparr>t_pad := t_pad q @ enc e\<rparr>"

primrec remove_after :: "bytes \<Rightarrow> dent \<Rightarrow> dent list \<Rightarrow> (dent list \<times> nat) option" where
  "remove_after nm q [] = None"
| "remove_after nm q (e # es) =
     (if names_entry nm e then Some (absorb q e # es, t_ino e)
      else map_option (\<lambda>(es', i). (q # es', i)) (remove_after nm e es))"

fun remove_list :: "bytes \<Rightarrow> dent list \<Rightarrow> (dent list \<times> nat) option" where
  "remove_list nm [] = None"
| "remove_list nm (e # es) =
     (if names_entry nm e then Some (e\<lparr>t_ino := 0\<rparr> # es, t_ino e) else remove_after nm e es)"

lemma rec_of_absorb [simp]: "rec_of (absorb q e) = rec_of q + rec_of e"
  by (simp add: absorb_def rec_of_def)

lemma remove_in_block_after:
  assumes "all_ok (q # es)" and "length (A @ enc q @ encs es) = bs" and "bs < 65536"
  shows "remove_in_block bs (A @ enc q @ encs es) nm (Some (length A)) (length A + rec_of q)
    = Ok (map_option (\<lambda>(es', i). (A @ encs es', i)) (remove_after nm q es))"
  using assms(1,2)
proof (induction es arbitrary: A q)
  case Nil
  then show ?case by (simp add: remove_in_block.simps)
next
  case (Cons e es)
  let ?buf = "A @ enc q @ enc e @ encs es" and ?off = "length A + rec_of q"
  have lt: "?off < bs" "?off + rec_of e \<le> bs"
    using Cons.prems(2) rec_of_ge [of e] by auto
  have p: "parse_dirent ?buf ?off bs
    = Ok \<lparr>d_inode = t_ino e, d_rec_len = rec_of e, d_name_len = length (t_name e), d_ftype = unat (t_ft e)\<rparr>"
    using parse_enc [of e "A @ enc q" bs "encs es"] Cons.prems lt by simp
  have m: "dirent_matches ?buf ?off
      \<lparr>d_inode = t_ino e, d_rec_len = rec_of e, d_name_len = length (t_name e), d_ftype = unat (t_ft e)\<rparr> nm
      \<longleftrightarrow> names_entry nm e"
    using matches_enc [of "A @ enc q" e "encs es"] by (simp add: names_entry_def)
  show ?case
  proof (cases "names_entry nm e")
    case True
    have "rd16 ?buf (length A + 4) = rec_of q"
      using Cons.prems(1) by (simp add: rd16_def subslice_append) (simp add: enc_def dent_ok_def subslice_def)
    moreover have "wr16 ?buf (length A + 4) (rec_of q + rec_of e) = A @ enc (absorb q e) @ encs es"
      using blit_append [of "length A + 4" "A @ le_bytes 4 (t_ino q)" "le_bytes 2 (rec_of q + rec_of e)" "le_bytes 2 (rec_of q)"]
      by (simp add: wr16_def enc_def [of q] enc_def [of "absorb q e"]) (simp add: absorb_def)
    moreover have "length A + 6 \<le> length ?buf" using rec_of_ge [of q] by simp
    ultimately show ?thesis
      using True lt p m by (subst remove_in_block.simps) (simp add: rd16_at_def wr16_at_def)
  next
    case False
    have "remove_in_block bs ?buf nm (Some (length A)) ?off
        = remove_in_block bs ((A @ enc q) @ enc e @ encs es) nm (Some (length (A @ enc q))) (length (A @ enc q) + rec_of e)"
      using False lt p m by (subst remove_in_block.simps) simp
    with Cons.IH [of e "A @ enc q"] Cons.prems False show ?thesis
      by (simp add: option.map_comp comp_def case_prod_beta)
  qed
qed

lemma remove_in_block_encs:
  assumes "all_ok es" and "length (encs es) = bs" and "bs < 65536"
  shows "remove_in_block bs (encs es) nm None 0 = Ok (map_option (\<lambda>(es', i). (encs es', i)) (remove_list nm es))"
proof (cases es)
  case Nil
  then show ?thesis using assms by (simp add: remove_in_block.simps)
next
  case (Cons e fs)
  have lt: "0 < bs" "rec_of e \<le> bs"
    using assms(2) rec_of_ge [of e] Cons by auto
  have p: "parse_dirent (enc e @ encs fs) 0 bs
    = Ok \<lparr>d_inode = t_ino e, d_rec_len = rec_of e, d_name_len = length (t_name e), d_ftype = unat (t_ft e)\<rparr>"
    using parse_enc [of e "[]" bs "encs fs"] assms Cons by simp
  have m: "dirent_matches (enc e @ encs fs) 0
      \<lparr>d_inode = t_ino e, d_rec_len = rec_of e, d_name_len = length (t_name e), d_ftype = unat (t_ft e)\<rparr> nm
      \<longleftrightarrow> names_entry nm e"
    using matches_enc [of "[]" e "encs fs"] by (simp add: names_entry_def)
  show ?thesis
  proof (cases "names_entry nm e")
    case True
    have "wr32 (enc e @ encs fs) 0 0 = enc (e\<lparr>t_ino := 0\<rparr>) @ encs fs"
      using blit_append [of 0 "[]" "le_bytes 4 0" "le_bytes 4 (t_ino e)"]
      by (simp add: wr32_def enc_def rec_of_def)
    then show ?thesis
      using True lt p m rec_of_ge [of e] Cons
      by (subst remove_in_block.simps) (simp add: wr32_at_def)
  next
    case False
    then show ?thesis
      using remove_in_block_after [of e fs "[]" bs nm] assms Cons lt p m
      by (subst remove_in_block.simps) simp
  qed
qed

lemma remove_after_ok:
  assumes "remove_after nm q es = Some (es', i)" and "all_ok (q # es)"
    and "length (encs (q # es)) < 65536"
  shows "all_ok es' \<and> length (encs es') = length (encs (q # es))"
  using assms
proof (induction es arbitrary: q es')
  case Nil
  then show ?case by simp
next
  case (Cons e es)
  show ?case
  proof (cases "names_entry nm e")
    case True
    have "dent_ok (absorb q e)"
      using Cons.prems(2,3) by (auto simp: dent_ok_def mod_add_eq [symmetric]) (auto simp: absorb_def)
    with True Cons.prems show ?thesis by auto
  next
    case False
    with Cons.prems(1) obtain es'' where "remove_after nm e es = Some (es'', i)" "es' = q # es''"
      by auto
    with Cons.IH [of e es''] Cons.prems(2,3) show ?thesis by auto
  qed
qed

lemma remove_list_ok:
  assumes "remove_list nm es = Some (es', i)" and "all_ok es" and "length (encs es) < 65536"
  shows "all_ok es' \<and> length (encs es') = length (encs es)"
proof (cases es)
  case Nil
  with assms show ?thesis by simp
next
  case (Cons e fs)
  with assms remove_after_ok [of nm e fs es' i] show ?thesis
    by (auto simp: dent_ok_def rec_of_def split: if_splits)
qed

text \<open>The names in use are pairwise different.\<close>

definition names_distinct :: "dent list \<Rightarrow> bool" where
  "names_distinct es \<longleftrightarrow> distinct (map t_name (filter (\<lambda>e. t_ino e \<noteq> 0) es))"

lemma find_None_if_notin:
  "nm \<notin> t_name ` {e \<in> set es. t_ino e \<noteq> 0} \<Longrightarrow> List.find (names_entry nm) es = None"
  by (auto simp: find_None_iff names_entry_def)

lemma names_entry_simps [simp]: "names_entry nm (absorb q e) \<longleftrightarrow> names_entry nm q"
  "\<not> names_entry nm (e\<lparr>t_ino := 0\<rparr>)" "t_ino (absorb q e) = t_ino q" "t_ft (absorb q e) = t_ft q"
  by (auto simp: names_entry_def absorb_def)

lemma names_entry_unique: "names_entry nm e \<Longrightarrow> names_entry nm' e \<Longrightarrow> nm' = nm"
  by (simp add: names_entry_def)

lemma remove_after_find:
  assumes "remove_after nm q es = Some (es', i)" and "\<not> names_entry nm q" and "names_distinct (q # es)"
  shows "map_option (\<lambda>e. (t_ino e, unat (t_ft e))) (List.find (names_entry nm') es')
    = (if nm' = nm then None else map_option (\<lambda>e. (t_ino e, unat (t_ft e))) (List.find (names_entry nm') (q # es)))"
  using assms
proof (induction es arbitrary: q es')
  case Nil
  then show ?case by simp
next
  case (Cons e es)
  show ?case
  proof (cases "names_entry nm e")
    case True
    with Cons.prems(1) have es': "es' = absorb q e # es" by simp
    have "List.find (names_entry nm) es = None"
      using True Cons.prems(3) by (intro find_None_if_notin) (auto simp: names_distinct_def names_entry_def split: if_splits)
    with True Cons.prems(2) show ?thesis
      unfolding es' by (cases "nm' = nm") (auto dest: names_entry_unique)
  next
    case False
    with Cons.prems(1) obtain es'' where es'': "remove_after nm e es = Some (es'', i)" "es' = q # es''"
      by auto
    have "names_distinct (e # es)"
      using Cons.prems(3) by (auto simp: names_distinct_def split: if_splits)
    from Cons.IH [OF es''(1) False this] es''(2) Cons.prems(2) show ?thesis
      by (cases "nm' = nm") auto
  qed
qed

lemma remove_list_find:
  assumes "remove_list nm es = Some (es', i)" and "names_distinct es"
  shows "map_option (\<lambda>e. (t_ino e, unat (t_ft e))) (List.find (names_entry nm') es')
    = (if nm' = nm then None else map_option (\<lambda>e. (t_ino e, unat (t_ft e))) (List.find (names_entry nm') es))"
proof (cases es)
  case Nil
  with assms show ?thesis by simp
next
  case (Cons e fs)
  show ?thesis
  proof (cases "names_entry nm e")
    case True
    with assms Cons have es': "es' = e\<lparr>t_ino := 0\<rparr> # fs" by simp
    have "List.find (names_entry nm) fs = None"
      using True assms(2) Cons by (intro find_None_if_notin) (auto simp: names_distinct_def names_entry_def)
    with True Cons show ?thesis
      unfolding es' by (cases "nm' = nm") (auto dest: names_entry_unique)
  next
    case False
    with assms Cons remove_after_find [of nm e fs es' i] show ?thesis by simp
  qed
qed

lemma remove_list_Some:
  "List.find (names_entry nm) es = Some e \<Longrightarrow> \<exists>es'. remove_list nm es = Some (es', t_ino e)"
proof -
  have after: "List.find (names_entry nm) fs = Some e \<Longrightarrow> \<exists>es'. remove_after nm q fs = Some (es', t_ino e)" for q fs
    by (induction fs arbitrary: q) (auto split: if_splits)
  show "List.find (names_entry nm) es = Some e \<Longrightarrow> \<exists>es'. remove_list nm es = Some (es', t_ino e)"
    using after by (cases es) (auto split: if_splits)
qed

section \<open>Properties\<close>

text \<open>A directory block as the driver sees it: its entries can be listed to the end.\<close>

definition dir_block :: "nat \<Rightarrow> bytes \<Rightarrow> bool" where
  "dir_block bs buf \<longleftrightarrow> length buf = bs \<and> bs < 65536 \<and> (\<exists>l. list_block True bs buf 0 = Ok l)"

text \<open>No name occurs twice among the entries in use.\<close>

definition block_names :: "nat \<Rightarrow> bytes \<Rightarrow> bytes list" where
  "block_names bs buf = (case list_block True bs buf 0 of Ok l \<Rightarrow> map de_name l | _ \<Rightarrow> [])"

lemma dir_block_encs:
  assumes "dir_block bs buf"
  obtains es where "all_ok es" and "buf = encs es" and "length (encs es) = bs" and "bs < 65536"
    and "block_names bs buf = map t_name (filter (\<lambda>e. t_ino e \<noteq> 0) es)"
proof -
  from assms obtain l where l: "list_block True bs buf 0 = Ok l" "length buf = bs" "bs < 65536"
    by (auto simp: dir_block_def)
  from list_block_accepts [OF l] obtain es where es: "all_ok es" "buf = encs es" by auto
  with l(2) list_block_encs [of es "[]" bs True]
  have "block_names bs buf = map t_name (filter (\<lambda>e. t_ino e \<noteq> 0) es)"
    by (simp add: block_names_def comp_def entry_of_def)
  with es l(2,3) that show thesis by blast
qed

lemma encs_dir_block:
  assumes "all_ok es" and "length (encs es) = bs" and "bs < 65536"
  shows "dir_block bs (encs es)" and "block_names bs (encs es) = map t_name (filter (\<lambda>e. t_ino e \<noteq> 0) es)"
  using assms list_block_encs [of es "[]" bs True]
  by (auto simp: dir_block_def block_names_def comp_def entry_of_def)

text \<open>C8: Adding a name to a directory block that does not hold it: the loop of \<open>dir_add\<close> never panics and
  never reports corruption on a well-formed block; when it finds room, the block stays well
  formed, the name is then found with its inode and type, and every other name is found as
  before.\<close>

theorem dir_block_add:
  assumes "dir_block bs buf" and "validate_name nm = Ok ()" and "0 < child" and "child < u32_limit" and "ft < 256"
    and "find_in_block bs buf nm 0 = Ok None"
  shows "add_in_block bs buf nm child ft 0 = Ok None
    \<or> (\<exists>buf'. add_in_block bs buf nm child ft 0 = Ok (Some buf') \<and> dir_block bs buf'
        \<and> find_in_block bs buf' nm 0 = Ok (Some (child, ft))
        \<and> (\<forall>nm'. nm' \<noteq> nm \<longrightarrow> find_in_block bs buf' nm' 0 = find_in_block bs buf nm' 0))"
proof -
  obtain es where es: "all_ok es" "buf = encs es" "length (encs es) = bs" "bs < 65536"
    by (rule dir_block_encs [OF assms(1)])
  have nm: "length nm \<le> MAX_NAME"
    using assms(2) by (auto simp: validate_name_def split: if_splits)
  have find: "find_in_block bs (encs fs) x 0
      = Ok (map_option (\<lambda>e. (t_ino e, unat (t_ft e))) (List.find (names_entry x) fs))"
    if "all_ok fs" "length (encs fs) = bs" for fs x
    using find_in_block_encs [of fs "[]" bs x] that by simp
  have absent: "List.find (names_entry nm) es = None"
    using assms(6) find [OF es(1,3)] es(2) by simp
  have add: "add_in_block bs buf nm child ft 0 = Ok (map_option encs (add_list nm child ft es))"
    using add_in_block_encs [of es "[]" bs nm child ft] es nm by simp
  show ?thesis
  proof (cases "add_list nm child ft es")
    case None
    with add show ?thesis by simp
  next
    case (Some es')
    note ok = add_list_ok [OF Some es(1) nm assms(4)]
    have len: "length (encs es') = bs" using ok(2) es(3) by simp
    have "unat (of_nat ft :: u8) = ft" using assms(5) by (simp add: unat_of_nat8)
    with add_list_find [OF Some _ absent] assms(3) find [OF ok(1) len] find [OF es(1,3)] es(2)
    have "find_in_block bs (encs es') x 0 = (if x = nm then Ok (Some (child, ft)) else find_in_block bs buf x 0)" for x
      by simp
    moreover have "dir_block bs (encs es')"
      by (rule encs_dir_block(1) [OF ok(1) len es(4)])
    ultimately show ?thesis using add Some by simp
  qed
qed

text \<open>C22: Removing a name that a directory block holds: the loop of \<open>dir_remove\<close> finds it, returns its inode,
  leaves a well-formed block in which the name is no longer found, and every other name is
  found as before.\<close>

theorem dir_block_remove:
  assumes "dir_block bs buf" and "distinct (block_names bs buf)"
    and "find_in_block bs buf nm 0 = Ok (Some (ino, ft))"
  shows "\<exists>buf'. remove_in_block bs buf nm None 0 = Ok (Some (buf', ino)) \<and> dir_block bs buf'
    \<and> find_in_block bs buf' nm 0 = Ok None
    \<and> (\<forall>nm'. nm' \<noteq> nm \<longrightarrow> find_in_block bs buf' nm' 0 = find_in_block bs buf nm' 0)"
proof -
  obtain es where es: "all_ok es" "buf = encs es" "length (encs es) = bs" "bs < 65536"
      "block_names bs buf = map t_name (filter (\<lambda>e. t_ino e \<noteq> 0) es)"
    by (rule dir_block_encs [OF assms(1)])
  have find: "find_in_block bs (encs fs) x 0
      = Ok (map_option (\<lambda>e. (t_ino e, unat (t_ft e))) (List.find (names_entry x) fs))"
    if "all_ok fs" "length (encs fs) = bs" for fs x
    using find_in_block_encs [of fs "[]" bs x] that by simp
  from assms(3) find [OF es(1,3), of nm] es(2)
  obtain e where e: "List.find (names_entry nm) es = Some e" "t_ino e = ino" by auto
  from remove_list_Some [OF e(1)] e(2) obtain es' where rm: "remove_list nm es = Some (es', ino)" by auto
  have "names_distinct es"
    using assms(2) es(5) by (simp add: names_distinct_def)
  note fs = remove_list_find [OF rm this]
  have ok: "all_ok es'" "length (encs es') = bs"
    using remove_list_ok [OF rm es(1)] es(3,4) by auto
  have "remove_in_block bs buf nm None 0 = Ok (Some (encs es', ino))"
    using remove_in_block_encs [OF es(1,3,4), of nm] rm es(2) by simp
  moreover have "find_in_block bs (encs es') x 0 = (if x = nm then Ok None else find_in_block bs buf x 0)" for x
    using fs [of x] find [OF ok] find [OF es(1,3)] es(2) by simp
  ultimately show ?thesis
    using encs_dir_block(1) [OF ok es(4)] by auto
qed

text \<open>A block of 24 bytes: the entries of an empty directory.\<close>

definition example_block :: bytes where
  "example_block = [2, 0, 0, 0, 12, 0, 1, 2, 0x2E, 0, 0, 0,
     2, 0, 0, 0, 36, 0, 2, 2, 0x2E, 0x2E, 0, 0, 0, 0, 0, 0, 0, 0, 0, 0, 0, 0, 0, 0,
     0, 0, 0, 0, 0, 0, 0, 0, 0, 0, 0, 0]"

lemmas dirent_eval = parse_dirent_def rd16_at_def rd32_at_def rd16_def rd32_def subslice_def
  dirent_matches_def dirent_name_def

lemma example_block_entries:
  "dir_block 48 example_block \<and> block_names 48 example_block = [[0x2E], [0x2E, 0x2E]]"
  by (simp add: dir_block_def block_names_def example_block_def list_block.simps dirent_eval)

theorem dir_block_add_witness:
  "add_in_block 48 example_block [0x61] 12 1 0 = Ok None
    \<or> (\<exists>buf'. add_in_block 48 example_block [0x61] 12 1 0 = Ok (Some buf') \<and> dir_block 48 buf'
        \<and> find_in_block 48 buf' [0x61] 0 = Ok (Some (12, 1)))"
proof -
  have "find_in_block 48 example_block [0x61] 0 = Ok None"
    by (simp add: example_block_def find_in_block.simps dirent_eval)
  from dir_block_add [OF _ _ _ _ _ this, of 12 1] example_block_entries show ?thesis
    by (auto simp: validate_name_def)
qed

theorem dir_block_remove_witness:
  "\<exists>buf'. remove_in_block 48 example_block [0x2E, 0x2E] None 0 = Ok (Some (buf', 2))
     \<and> find_in_block 48 buf' [0x2E, 0x2E] 0 = Ok None"
proof -
  have "find_in_block 48 example_block [0x2E, 0x2E] 0 = Ok (Some (2, 2))"
    by (simp add: example_block_def find_in_block.simps dirent_eval)
  from dir_block_remove [OF _ _ this] example_block_entries show ?thesis by auto
qed

end
