(* ===== verification/Ext2.thy ===== *)
theory Ext2
  imports Ext2_Dirent
begin

text \<open>
  The ext2 driver's core (\<^verbatim>\<open>src/fs/ext2/mod.rs\<close>): mounting, block and inode access, the
  block and inode allocators, the map from file blocks to disk blocks, and the directory
  operations. A driver state is the record \<open>ext2\<close>; operations are state-passing programs
  over it, generic in the device operations \<open>D\<close>. The unsigned 16-, 32- and 64-bit fields
  are natural numbers; an arithmetic overflow, which the checked build turns into a panic,
  is \<open>Panic\<close>. Mutations made before an error is returned are kept, as in the code.
\<close>

section \<open>The driver state\<close>

record 'd ext2 =
  x_dev :: 'd
  x_bs :: nat
  x_spb :: nat
  x_inodes_count :: nat
  x_blocks_count :: nat
  x_free_blocks :: nat
  x_free_inodes :: nat
  x_first_data_block :: nat
  x_bpg :: nat
  x_ipg :: nat
  x_inode_size :: nat
  x_first_ino :: nat
  x_ngroups :: nat
  x_filetype :: bool
  x_gdt :: bytes
  x_sb :: bytes
  x_dirty :: bool
  x_clock :: "nat \<Rightarrow> nat" \<comment> \<open>the clock's answer to its \<open>n\<close>th call\<close>
  x_ticks :: nat \<comment> \<open>calls of the clock so far\<close>

type_synonym ('d, 'a) fs = "('d ext2, fs_error, 'a) prog"

text \<open>32-bit arithmetic that panics on overflow.\<close>

definition add32 :: "nat \<Rightarrow> nat \<Rightarrow> ('s, 'e, nat) prog" where
  "add32 a b = (if a + b < u32_limit then returnR (a + b) else panicR)"

definition sub32 :: "nat \<Rightarrow> nat \<Rightarrow> ('s, 'e, nat) prog" where
  "sub32 a b = (if b \<le> a then returnR (a - b) else panicR)"

definition mul32 :: "nat \<Rightarrow> nat \<Rightarrow> ('s, 'e, nat) prog" where
  "mul32 a b = (if a * b < u32_limit then returnR (a * b) else panicR)"

definition add16 :: "nat \<Rightarrow> nat \<Rightarrow> ('s, 'e, nat) prog" where
  "add16 a b = (if a + b < 65536 then returnR (a + b) else panicR)"

text \<open>\<open>?\<close> on a device call: \<open>From<BlockError>\<close> wraps the error.\<close>

definition devR :: "('d, block_error, 'a) prog \<Rightarrow> ('d, 'a) fs" where
  "devR m = (\<lambda>s. case m (x_dev s) of
      (Ok a, d) \<Rightarrow> (Ok a, s\<lparr>x_dev := d\<rparr>)
    | (Err e, d) \<Rightarrow> (Err (Io e), s\<lparr>x_dev := d\<rparr>)
    | (Panic, d) \<Rightarrow> (Panic, s\<lparr>x_dev := d\<rparr>)
    | (Hang, d) \<Rightarrow> (Hang, s\<lparr>x_dev := d\<rparr>))"

definition clockR :: "('d, nat) fs" where
  "clockR = (\<lambda>s. (Ok (x_clock s (x_ticks s) mod u32_limit), s\<lparr>x_ticks := x_ticks s + 1\<rparr>))"

text \<open>\<open>if let Err(e) = m { let _ = cleanup; return Err(e) }\<close>.\<close>

definition on_errR :: "('s, 'e, 'a) prog \<Rightarrow> ('s, 'e, unit) prog \<Rightarrow> ('s, 'e, 'a) prog" where
  "on_errR m cleanup = (\<lambda>s. case m s of
      (Err e, s') \<Rightarrow> (case cleanup s' of
          (Panic, s'') \<Rightarrow> (Panic, s'') | (Hang, s'') \<Rightarrow> (Hang, s'') | (_, s'') \<Rightarrow> (Err e, s''))
    | r \<Rightarrow> r)"

section \<open>Mounting\<close>

definition is_power_of_two :: "nat \<Rightarrow> bool" where
  "is_power_of_two n \<longleftrightarrow> n \<noteq> 0 \<and> n AND (n - 1) = 0"

definition zero_clock :: "nat \<Rightarrow> nat" where
  "zero_clock n = 0"

text \<open>What \<open>mount\<close> derives from the superblock before it reads the group descriptors:
  inode size, first inode and whether entries carry a file type.\<close>

definition sb_features :: "bytes \<Rightarrow> (fs_error, nat \<times> nat \<times> bool) res" where
  "sb_features sb =
     (if rd32 sb 76 \<ge> 1 then
        (if rd32 sb 96 AND not32 INCOMPAT_FILETYPE \<noteq> 0
            \<or> rd32 sb 100 AND not32 (RO_COMPAT_SPARSE_SUPER OR RO_COMPAT_LARGE_FILE) \<noteq> 0
         then Err Unsupported
         else Ok (rd16 sb 88, rd32 sb 84, rd32 sb 96 AND INCOMPAT_FILETYPE \<noteq> 0))
      else Ok (128, 11, False))"

definition mount :: "'d dev_ops \<Rightarrow> 'd \<Rightarrow> (fs_error, 'd ext2) res \<times> 'd" where
  "mount D dev =
     (let io = (\<lambda>e. Io e) in
      case op_read_sectors D 2 1024 dev of
        (Err e, d) \<Rightarrow> (Err (io e), d) | (Panic, d) \<Rightarrow> (Panic, d) | (Hang, d) \<Rightarrow> (Hang, d)
      | (Ok sb, d) \<Rightarrow>
          if rd16 sb 56 \<noteq> EXT2_MAGIC then (Err BadSuperblock, d)
          else if rd32 sb 24 > 2 then (Err Unsupported, d)
          else
            let bs = push_bit (rd32 sb 24) 1024 in
            (case sb_features sb of
               Err e \<Rightarrow> (Err e, d) | Panic \<Rightarrow> (Panic, d) | Hang \<Rightarrow> (Hang, d)
             | Ok (inode_size, first_ino, filetype) \<Rightarrow>
                 if inode_size < 128 \<or> inode_size > bs \<or> \<not> is_power_of_two inode_size
                 then (Err Unsupported, d)
                 else
                   let blocks_count = rd32 sb 4; first_data_block = rd32 sb 20;
                       bpg = rd32 sb 32; ipg = rd32 sb 40; spb = bs div SECTOR_SIZE in
                   if bpg = 0 \<or> ipg = 0 \<or> bpg > bs * 8 \<or> ipg > bs * 8 \<or> blocks_count \<le> first_data_block
                   then (Err BadSuperblock, d)
                   else if blocks_count * spb > op_sector_count D d then (Err Corrupt, d)
                   else if blocks_count - first_data_block + bpg \<ge> u32_limit then (Panic, d)
                   else
                     let ngroups = (blocks_count - first_data_block + bpg - 1) div bpg in
                     if rd32 sb 0 \<noteq> ngroups * ipg then (Err BadSuperblock, d)
                     else
                       let gdt_blocks = (ngroups * 32 + bs - 1) div bs in
                       (case op_read_sectors D ((first_data_block + 1) * spb) (gdt_blocks * bs) d of
                          (Err e, d') \<Rightarrow> (Err (io e), d') | (Panic, d') \<Rightarrow> (Panic, d') | (Hang, d') \<Rightarrow> (Hang, d')
                        | (Ok gdt, d') \<Rightarrow>
                            (Ok \<lparr>x_dev = d', x_bs = bs, x_spb = spb, x_inodes_count = rd32 sb 0,
                                 x_blocks_count = blocks_count, x_free_blocks = rd32 sb 12,
                                 x_free_inodes = rd32 sb 16, x_first_data_block = first_data_block,
                                 x_bpg = bpg, x_ipg = ipg, x_inode_size = inode_size,
                                 x_first_ino = first_ino, x_ngroups = ngroups, x_filetype = filetype,
                                 x_gdt = gdt, x_sb = sb, x_dirty = False, x_clock = zero_clock,
                                 x_ticks = 0\<rparr>, d'))))"

definition set_clock :: "(nat \<Rightarrow> nat) \<Rightarrow> ('d, unit) fs" where
  "set_clock f = modifyR (\<lambda>s. s\<lparr>x_clock := f, x_ticks := 0\<rparr>)"

definition sync :: "'d dev_ops \<Rightarrow> ('d, unit) fs" where
  "sync D =
     bindR (\<lambda>s.
       if x_dirty s then
         bindR clockR (\<lambda>now.
         bindR (modifyR (\<lambda>s. s\<lparr>x_sb := wr32 (wr32 (wr32 (x_sb s) 12 (x_free_blocks s)) 16 (x_free_inodes s)) 48 now\<rparr>)) (\<lambda>_.
         bindR (\<lambda>s. devR (op_write_sectors D 2 (x_sb s)) s) (\<lambda>_.
         bindR (\<lambda>s. devR (op_write_sectors D ((x_first_data_block s + 1) * x_spb s) (x_gdt s)) s) (\<lambda>_.
         modifyR (\<lambda>s. s\<lparr>x_dirty := False\<rparr>))))) s
       else (Ok (), s)) (\<lambda>_.
     devR (op_flush D))"

definition into_device :: "'d dev_ops \<Rightarrow> ('d, 'd) fs" where
  "into_device D = bindR (sync D) (\<lambda>_. getsR x_dev)"

definition usage :: "'d ext2 \<Rightarrow> fs_usage" where
  "usage s = \<lparr>u_block_size = x_bs s, u_total_blocks = x_blocks_count s, u_free_blocks = x_free_blocks s,
     u_total_inodes = x_inodes_count s, u_free_inodes = x_free_inodes s\<rparr>"

section \<open>Raw block and inode access\<close>

definition read_block :: "'d dev_ops \<Rightarrow> nat \<Rightarrow> ('d, bytes) fs" where
  "read_block D blk = (\<lambda>s.
     if blk \<ge> x_blocks_count s then (Err Corrupt, s)
     else devR (op_read_sectors D (blk * x_spb s) (x_bs s)) s)"

definition write_block :: "'d dev_ops \<Rightarrow> nat \<Rightarrow> bytes \<Rightarrow> ('d, unit) fs" where
  "write_block D blk buf = (\<lambda>s.
     if blk \<ge> x_blocks_count s then (Err Corrupt, s)
     else if length buf < x_bs s then (Panic, s)
     else devR (op_write_sectors D (blk * x_spb s) (take (x_bs s) buf)) s)"

definition gd_off :: "nat \<Rightarrow> nat" where "gd_off g = g * 32"

definition gd_get32 :: "nat \<Rightarrow> ('d, nat) fs" where "gd_get32 off = (\<lambda>s. (rd32_at (x_gdt s) off, s))"
definition gd_get16 :: "nat \<Rightarrow> ('d, nat) fs" where "gd_get16 off = (\<lambda>s. (rd16_at (x_gdt s) off, s))"
definition gd_put16 :: "nat \<Rightarrow> nat \<Rightarrow> ('d, unit) fs" where
  "gd_put16 off v = (\<lambda>s. case wr16_at (x_gdt s) off v of
     Ok gdt \<Rightarrow> (Ok (), s\<lparr>x_gdt := gdt\<rparr>) | Err e \<Rightarrow> (Err e, s) | Panic \<Rightarrow> (Panic, s) | Hang \<Rightarrow> (Hang, s))"

definition gd_block_bitmap :: "nat \<Rightarrow> ('d, nat) fs" where "gd_block_bitmap g = gd_get32 (gd_off g)"
definition gd_inode_bitmap :: "nat \<Rightarrow> ('d, nat) fs" where "gd_inode_bitmap g = gd_get32 (gd_off g + 4)"
definition gd_inode_table :: "nat \<Rightarrow> ('d, nat) fs" where "gd_inode_table g = gd_get32 (gd_off g + 8)"
definition gd_free_blocks :: "nat \<Rightarrow> ('d, nat) fs" where "gd_free_blocks g = gd_get16 (gd_off g + 12)"
definition gd_free_inodes :: "nat \<Rightarrow> ('d, nat) fs" where "gd_free_inodes g = gd_get16 (gd_off g + 14)"
definition gd_used_dirs :: "nat \<Rightarrow> ('d, nat) fs" where "gd_used_dirs g = gd_get16 (gd_off g + 16)"
definition gd_set_free_blocks :: "nat \<Rightarrow> nat \<Rightarrow> ('d, unit) fs" where
  "gd_set_free_blocks g v = gd_put16 (gd_off g + 12) v"
definition gd_set_free_inodes :: "nat \<Rightarrow> nat \<Rightarrow> ('d, unit) fs" where
  "gd_set_free_inodes g v = gd_put16 (gd_off g + 14) v"
definition gd_set_used_dirs :: "nat \<Rightarrow> nat \<Rightarrow> ('d, unit) fs" where
  "gd_set_used_dirs g v = gd_put16 (gd_off g + 16) v"

definition inode_loc :: "nat \<Rightarrow> ('d, nat \<times> nat) fs" where
  "inode_loc ino = (\<lambda>s.
     if ino = 0 \<or> ino > x_inodes_count s then (Err Invalid, s)
     else
       let g = (ino - 1) div x_ipg s; idx = (ino - 1) mod x_ipg s; byte = idx * x_inode_size s in
       bindR (gd_inode_table g) (\<lambda>table.
       bindR (add32 table (byte div x_bs s)) (\<lambda>blk.
       returnR (blk, byte mod x_bs s))) s)"

definition read_inode :: "'d dev_ops \<Rightarrow> nat \<Rightarrow> ('d, inode) fs" where
  "read_inode D ino =
     bindR (inode_loc ino) (\<lambda>(blk, off).
     bindR (read_block D blk) (\<lambda>buf.
     if off + 128 \<le> length buf then returnR (subslice off 128 buf) else panicR))"

definition write_inode :: "'d dev_ops \<Rightarrow> nat \<Rightarrow> inode \<Rightarrow> ('d, unit) fs" where
  "write_inode D ino i =
     bindR (inode_loc ino) (\<lambda>(blk, off).
     bindR (read_block D blk) (\<lambda>buf.
     if off + 128 \<le> length buf then write_block D blk (blit off i buf) else panicR))"

section \<open>Allocation\<close>

text \<open>The loop of \<open>alloc_block\<close> over the groups, starting with the goal.\<close>

primrec alloc_block_loop :: "'d dev_ops \<Rightarrow> nat \<Rightarrow> nat list \<Rightarrow> ('d, nat) fs" where
  "alloc_block_loop D goal [] = throwR NoSpace"
| "alloc_block_loop D goal (k # ks) =
     bindR (add32 goal k) (\<lambda>gk s.
       let g = gk mod x_ngroups s in
       bindR (gd_free_blocks g) (\<lambda>f.
       if f = 0 then alloc_block_loop D goal ks
       else
         bindR (gd_block_bitmap g) (\<lambda>bb.
         bindR (read_block D bb) (\<lambda>bm s.
         bindR (liftR (bit_find_zero bm (x_bpg s))) (\<lambda>r.
         case r of
           None \<Rightarrow> alloc_block_loop D goal ks
         | Some b \<Rightarrow> (\<lambda>s.
             let blk = x_first_data_block s + g * x_bpg s + b in
             if blk \<ge> u32_limit then (Panic, s)
             else if blk \<ge> x_blocks_count s then (Err Corrupt, s)
             else
               bindR (write_block D bb (bit_set bm b)) (\<lambda>_.
               bindR (gd_free_blocks g) (\<lambda>f.
               bindR (sub32 f 1) (\<lambda>f'.
               bindR (gd_set_free_blocks g f') (\<lambda>_.
               bindR (getsR x_free_blocks) (\<lambda>n.
               bindR (sub32 n 1) (\<lambda>n'.
               bindR (modifyR (\<lambda>s. s\<lparr>x_free_blocks := n', x_dirty := True\<rparr>)) (\<lambda>_.
               returnR blk))))))) s)) s))) s)"

definition alloc_block :: "'d dev_ops \<Rightarrow> nat \<Rightarrow> ('d, nat) fs" where
  "alloc_block D goal = (\<lambda>s. alloc_block_loop D goal [0..<x_ngroups s] s)"

definition alloc_zeroed_block :: "'d dev_ops \<Rightarrow> nat \<Rightarrow> ('d, nat) fs" where
  "alloc_zeroed_block D goal =
     bindR (alloc_block D goal) (\<lambda>b.
     bindR (\<lambda>s. write_block D b (replicate (x_bs s) 0) s) (\<lambda>_. returnR b))"

definition free_block :: "'d dev_ops \<Rightarrow> nat \<Rightarrow> ('d, unit) fs" where
  "free_block D blk = (\<lambda>s.
     if blk < x_first_data_block s \<or> blk \<ge> x_blocks_count s then (Err Corrupt, s)
     else
       let rel = blk - x_first_data_block s; g = rel div x_bpg s; b = rel mod x_bpg s in
       bindR (gd_block_bitmap g) (\<lambda>bb.
       bindR (read_block D bb) (\<lambda>bm.
       if b div 8 \<ge> length bm then panicR
       else if \<not> bit_test bm b then throwR Corrupt
       else
         bindR (write_block D bb (bit_clear bm b)) (\<lambda>_.
         bindR (gd_free_blocks g) (\<lambda>f.
         bindR (add16 f 1) (\<lambda>f'.
         bindR (gd_set_free_blocks g f') (\<lambda>_.
         bindR (getsR x_free_blocks) (\<lambda>n.
         bindR (add32 n 1) (\<lambda>n'.
         modifyR (\<lambda>s. s\<lparr>x_free_blocks := n', x_dirty := True\<rparr>)))))))) ) s)"

primrec alloc_inode_loop :: "'d dev_ops \<Rightarrow> nat \<Rightarrow> bool \<Rightarrow> nat list \<Rightarrow> ('d, nat) fs" where
  "alloc_inode_loop D goal is_dir [] = throwR NoSpace"
| "alloc_inode_loop D goal is_dir (k # ks) =
     bindR (add32 goal k) (\<lambda>gk s.
       let g = gk mod x_ngroups s in
       bindR (gd_free_inodes g) (\<lambda>f.
       if f = 0 then alloc_inode_loop D goal is_dir ks
       else
         bindR (gd_inode_bitmap g) (\<lambda>ib.
         bindR (read_block D ib) (\<lambda>bm s.
         bindR (liftR (bit_find_zero bm (x_ipg s))) (\<lambda>r.
         case r of
           None \<Rightarrow> alloc_inode_loop D goal is_dir ks
         | Some b \<Rightarrow>
             bindR (write_block D ib (bit_set bm b)) (\<lambda>_.
             bindR (gd_free_inodes g) (\<lambda>f.
             bindR (sub32 f 1) (\<lambda>f'.
             bindR (gd_set_free_inodes g f') (\<lambda>_.
             bindR (if is_dir then
                      bindR (gd_used_dirs g) (\<lambda>d.
                      bindR (add16 d 1) (\<lambda>d'. gd_set_used_dirs g d'))
                    else returnR ()) (\<lambda>_.
             bindR (getsR x_free_inodes) (\<lambda>n.
             bindR (sub32 n 1) (\<lambda>n'.
             bindR (modifyR (\<lambda>s. s\<lparr>x_free_inodes := n', x_dirty := True\<rparr>)) (\<lambda>_ s.
             if g * x_ipg s + b + 1 < u32_limit then (Ok (g * x_ipg s + b + 1), s)
             else (Panic, s)))))))))) s))) s)"

definition alloc_inode :: "'d dev_ops \<Rightarrow> nat \<Rightarrow> bool \<Rightarrow> ('d, nat) fs" where
  "alloc_inode D goal is_dir = (\<lambda>s. alloc_inode_loop D goal is_dir [0..<x_ngroups s] s)"

definition free_inode :: "'d dev_ops \<Rightarrow> nat \<Rightarrow> bool \<Rightarrow> ('d, unit) fs" where
  "free_inode D ino was_dir = (\<lambda>s.
     if ino < x_first_ino s \<or> ino > x_inodes_count s then (Err Invalid, s)
     else if ino = 0 then (Panic, s)
     else
       let g = (ino - 1) div x_ipg s; b = (ino - 1) mod x_ipg s in
       bindR (gd_inode_bitmap g) (\<lambda>ib.
       bindR (read_block D ib) (\<lambda>bm.
       if b div 8 \<ge> length bm then panicR
       else if \<not> bit_test bm b then throwR Corrupt
       else
         bindR (write_block D ib (bit_clear bm b)) (\<lambda>_.
         bindR (gd_free_inodes g) (\<lambda>f.
         bindR (add16 f 1) (\<lambda>f'.
         bindR (gd_set_free_inodes g f') (\<lambda>_.
         bindR (if was_dir then bindR (gd_used_dirs g) (\<lambda>d. gd_set_used_dirs g (d - 1))
                else returnR ()) (\<lambda>_.
         bindR (getsR x_free_inodes) (\<lambda>n.
         bindR (add32 n 1) (\<lambda>n'.
         modifyR (\<lambda>s. s\<lparr>x_free_inodes := n', x_dirty := True\<rparr>))))))))))  s)"

section \<open>From file blocks to disk blocks\<close>

text \<open>Functions that take \<open>&mut Inode\<close> run on the driver state together with that inode, so that
  changes to the inode survive an error as they do in the code.\<close>

type_synonym ('d, 'a) fsi = "('d ext2 \<times> inode, fs_error, 'a) prog"

definition on_fs :: "('d, 'a) fs \<Rightarrow> ('d, 'a) fsi" where
  "on_fs m = (\<lambda>(s, i). case m s of (r, s') \<Rightarrow> (r, (s', i)))"

definition get_inode :: "('d, inode) fsi" where "get_inode = getsR snd"

definition upd_inode :: "(inode \<Rightarrow> inode) \<Rightarrow> ('d, unit) fsi" where
  "upd_inode f = modifyR (\<lambda>(s, i). (s, f i))"

text \<open>Running such a function on a local inode, whose changes are lost on an error.\<close>

definition run_inode :: "inode \<Rightarrow> ('d, 'a) fsi \<Rightarrow> ('d, 'a \<times> inode) fs" where
  "run_inode i m = (\<lambda>s. case m (s, i) of
      (Ok a, (s', i')) \<Rightarrow> (Ok (a, i'), s')
    | (Err e, (s', i')) \<Rightarrow> (Err e, s')
    | (Panic, (s', i')) \<Rightarrow> (Panic, s')
    | (Hang, (s', i')) \<Rightarrow> (Hang, s'))"

definition add_blocks :: "nat \<Rightarrow> ('d, unit) fsi" where
  "add_blocks n =
     bindR (getsR (\<lambda>(s, i). x_spb s)) (\<lambda>spb.
     bindR get_inode (\<lambda>i.
     bindR (mul32 n spb) (\<lambda>k.
     bindR (add32 (i_blocks i) k) (\<lambda>b.
     upd_inode (\<lambda>i. i_set_blocks i b)))))"

text \<open>The slot of the inode, the depth of the tree below it and the index in that tree of a
  file block beyond the twelve direct ones.\<close>

definition bmap_slot :: "nat \<Rightarrow> nat \<Rightarrow> (nat \<times> nat \<times> nat) option" where
  "bmap_slot ppb l =
     (let rel = l - 12 in
      if rel < ppb then Some (12, 1, rel)
      else let rel = rel - ppb in
        if rel < ppb * ppb then Some (13, 2, rel)
        else let rel = rel - ppb * ppb in
          if rel < ppb * ppb * ppb then Some (14, 3, rel)
          else None)"

text \<open>The loop of \<open>bmap\<close> down the indirect blocks; \<open>d\<close> is the number of levels below \<open>cur\<close>
  minus one.\<close>

fun bmap_walk :: "'d dev_ops \<Rightarrow> nat \<Rightarrow> bool \<Rightarrow> nat \<Rightarrow> nat \<Rightarrow> nat \<Rightarrow> nat \<Rightarrow> ('d, nat) fsi" where
  "bmap_walk D goal create ppb cur rel d =
     (let span = ppb ^ d; k = rel div span; rel' = rel mod span in
      bindR (on_fs (read_block D cur)) (\<lambda>buf.
      bindR (liftR (rd32_at buf (k * 4))) (\<lambda>next0.
      if next0 = 0 \<and> \<not> create then returnR 0
      else
        bindR (if next0 = 0 then
                 bindR (on_fs (alloc_zeroed_block D goal)) (\<lambda>next.
                 bindR (liftR (wr32_at buf (k * 4) next)) (\<lambda>buf'.
                 bindR (on_fs (write_block D cur buf')) (\<lambda>_.
                 bindR (add_blocks 1) (\<lambda>_. returnR next))))
               else returnR next0) (\<lambda>next.
        case d of 0 \<Rightarrow> returnR next | Suc d' \<Rightarrow> bmap_walk D goal create ppb next rel' d'))))"

declare bmap_walk.simps [simp del]

definition bmap :: "'d dev_ops \<Rightarrow> nat \<Rightarrow> nat \<Rightarrow> bool \<Rightarrow> ('d, nat) fsi" where
  "bmap D goal lblk create =
     bindR (getsR (\<lambda>(s, i). x_bs s div 4)) (\<lambda>ppb.
     bindR get_inode (\<lambda>i.
     if lblk < 12 then
       (let p = i_block i lblk in
        if p = 0 \<and> create then
          bindR (on_fs (alloc_zeroed_block D goal)) (\<lambda>p.
          bindR (upd_inode (\<lambda>i. i_set_block i lblk p)) (\<lambda>_.
          bindR (add_blocks 1) (\<lambda>_. returnR p)))
        else returnR p)
     else
       (case bmap_slot ppb lblk of
          None \<Rightarrow> throwR TooBig
        | Some (slot, depth, rel) \<Rightarrow>
            (let cur = i_block i slot in
             if cur = 0 \<and> \<not> create then returnR 0
             else
               bindR (if cur = 0 then
                        bindR (on_fs (alloc_zeroed_block D goal)) (\<lambda>cur.
                        bindR (upd_inode (\<lambda>i. i_set_block i slot cur)) (\<lambda>_.
                        bindR (add_blocks 1) (\<lambda>_. returnR cur)))
                      else returnR cur) (\<lambda>cur.
               bmap_walk D goal create ppb cur rel (depth - 1))))))"

text \<open>The loop of \<open>free_subtree\<close> over the pointers of an indirect block: the buffer, whether it
  changed, whether all kept pointers are zero, and the number of blocks freed. \<open>sub\<close> frees
  the tree below a pointer.\<close>

primrec free_entries ::
  "'d dev_ops \<Rightarrow> bool \<Rightarrow> (nat \<Rightarrow> nat \<Rightarrow> nat \<Rightarrow> ('d, bool \<times> nat) fs) \<Rightarrow> nat \<Rightarrow> nat \<Rightarrow> nat list
    \<Rightarrow> bytes \<times> bool \<times> bool \<times> nat \<Rightarrow> ('d, bytes \<times> bool \<times> bool \<times> nat) fs" where
  "free_entries D leaf sub span keep_from [] acc = returnR acc"
| "free_entries D leaf sub span keep_from (k # ks) acc =
     (case acc of (buf, changed, all_zero, freed) \<Rightarrow>
      bindR (liftR (rd32_at buf (k * 4))) (\<lambda>e.
      if e = 0 then free_entries D leaf sub span keep_from ks acc
      else
        let base = k * span in
        if base + span \<le> keep_from
        then free_entries D leaf sub span keep_from ks (buf, changed, False, freed)
        else if leaf then
          bindR (free_block D e) (\<lambda>_.
          bindR (add32 freed 1) (\<lambda>freed'.
          bindR (liftR (wr32_at buf (k * 4) 0)) (\<lambda>buf'.
          free_entries D leaf sub span keep_from ks (buf', True, all_zero, freed'))))
        else
          bindR (sub e (keep_from - base) freed) (\<lambda>(gone, freed').
          if gone then
            bindR (liftR (wr32_at buf (k * 4) 0)) (\<lambda>buf'.
            free_entries D leaf sub span keep_from ks (buf', True, all_zero, freed'))
          else free_entries D leaf sub span keep_from ks (buf, changed, False, freed'))))"

text \<open>\<open>free_subtree\<close>, by recursion on the depth.\<close>

primrec free_subtree :: "'d dev_ops \<Rightarrow> nat \<Rightarrow> nat \<Rightarrow> nat \<Rightarrow> nat \<Rightarrow> ('d, bool \<times> nat) fs" where
  "free_subtree D 0 = (\<lambda>blk keep_from freed. panicR)"
| "free_subtree D (Suc d) = (\<lambda>blk keep_from freed.
     bindR (getsR (\<lambda>s. x_bs s div 4)) (\<lambda>ppb.
     bindR (read_block D blk) (\<lambda>buf.
     bindR (free_entries D (d = 0) (free_subtree D d) (ppb ^ d) keep_from [0..<ppb] (buf, False, True, freed))
       (\<lambda>(buf, changed, all_zero, freed).
     bindR (if changed then write_block D blk buf else returnR ()) (\<lambda>_.
     if all_zero then
       bindR (free_block D blk) (\<lambda>_.
       bindR (add32 freed 1) (\<lambda>freed'. returnR (True, freed')))
     else returnR (False, freed))))))"

text \<open>The direct pointers and then the three trees of \<open>truncate_blocks\<close>.\<close>

primrec truncate_direct :: "'d dev_ops \<Rightarrow> nat list \<Rightarrow> nat \<Rightarrow> ('d, nat) fsi" where
  "truncate_direct D [] freed = returnR freed"
| "truncate_direct D (k # ks) freed =
     bindR get_inode (\<lambda>i.
     if i_block i k \<noteq> 0 then
       bindR (on_fs (free_block D (i_block i k))) (\<lambda>_.
       bindR (add32 freed 1) (\<lambda>freed'.
       bindR (upd_inode (\<lambda>i. i_set_block i k 0)) (\<lambda>_.
       truncate_direct D ks freed')))
     else truncate_direct D ks freed)"

definition tree_base :: "nat \<Rightarrow> nat \<Rightarrow> nat" where
  "tree_base ppb k = (if k = 0 then 12 else if k = 1 then 12 + ppb else 12 + ppb + ppb * ppb)"

definition tree_cover :: "nat \<Rightarrow> nat \<Rightarrow> nat" where
  "tree_cover ppb k = (if k = 0 then ppb else if k = 1 then ppb * ppb else ppb * ppb * ppb)"

primrec truncate_trees :: "'d dev_ops \<Rightarrow> nat \<Rightarrow> nat \<Rightarrow> nat list \<Rightarrow> nat \<Rightarrow> ('d, nat) fsi" where
  "truncate_trees D ppb keep [] freed = returnR freed"
| "truncate_trees D ppb keep (k # ks) freed =
     bindR get_inode (\<lambda>i.
     let p = i_block i (12 + k) in
     if p = 0 \<or> keep \<ge> tree_base ppb k + tree_cover ppb k then truncate_trees D ppb keep ks freed
     else
       bindR (on_fs (free_subtree D (k + 1) p (keep - tree_base ppb k) freed)) (\<lambda>(gone, freed').
       bindR (if gone then upd_inode (\<lambda>i. i_set_block i (12 + k) 0) else returnR ()) (\<lambda>_.
       truncate_trees D ppb keep ks freed')))"

definition truncate_blocks :: "'d dev_ops \<Rightarrow> nat \<Rightarrow> ('d, unit) fsi" where
  "truncate_blocks D keep =
     bindR get_inode (\<lambda>i.
     if \<not> i_has_block_pointers i then returnR ()
     else
       bindR (getsR (\<lambda>(s, i). (x_bs s div 4, x_spb s))) (\<lambda>(ppb, spb).
       bindR (truncate_direct D [keep..<12] 0) (\<lambda>freed.
       bindR (truncate_trees D ppb keep [0..<3] freed) (\<lambda>freed.
       bindR (mul32 freed spb) (\<lambda>n.
       upd_inode (\<lambda>i. i_set_blocks i (i_blocks i - n)))))))"

end
