(* ===== verification/Ext2_Api.thy ===== *)
theory Ext2_Api
  imports Ext2
begin

text \<open>
  The ext2 driver's directories and public interface (\<^verbatim>\<open>src/fs/ext2/mod.rs\<close>): directory
  lookup and update over all blocks of a directory, inode lifetime, file reading, writing
  and truncation, creation and removal of nodes, renaming, and path resolution. Strings are
  their UTF-8 bytes.
\<close>

section \<open>Directories\<close>

definition check_dir :: "'d dev_ops \<Rightarrow> nat \<Rightarrow> ('d, inode) fs" where
  "check_dir D ino =
     bindR (read_inode D ino) (\<lambda>i. if i_is_dir i then returnR i else throwR NotDir)"

text \<open>The loop over the blocks of a directory, shared by the operations below: \<open>step\<close> works on
  one mapped block and its buffer and either ends the search (\<open>Some\<close>) or goes on (\<open>None\<close>).\<close>

primrec each_block ::
  "'d dev_ops \<Rightarrow> (nat \<Rightarrow> bytes \<Rightarrow> ('d, 'a option) fsi) \<Rightarrow> nat list \<Rightarrow> ('d, 'a option) fsi" where
  "each_block D step [] = returnR None"
| "each_block D step (lb # lbs) =
     bindR (bmap D 0 lb False) (\<lambda>pb.
     if pb = 0 then each_block D step lbs
     else
       bindR (on_fs (read_block D pb)) (\<lambda>buf.
       bindR (step pb buf) (\<lambda>r.
       case r of Some a \<Rightarrow> returnR (Some a) | None \<Rightarrow> each_block D step lbs)))"

definition dir_blocks :: "('d, nat list) fsi" where
  "dir_blocks = getsR (\<lambda>(s, i). [0..<i_size i div x_bs s])"

definition dir_find :: "'d dev_ops \<Rightarrow> bytes \<Rightarrow> ('d, (nat \<times> nat) option) fsi" where
  "dir_find D nm =
     bindR dir_blocks (\<lambda>lbs.
     bindR (getsR (\<lambda>(s, i). x_bs s)) (\<lambda>bs.
     each_block D (\<lambda>pb buf. liftR (find_in_block bs buf nm 0)) lbs))"

text \<open>Clearing the index flag after a change to the directory.\<close>

definition clear_index :: "'d dev_ops \<Rightarrow> nat \<Rightarrow> ('d, unit) fsi" where
  "clear_index D dir_ino =
     bindR get_inode (\<lambda>dir.
     if i_flags dir AND INDEX_FL \<noteq> 0 then
       bindR (upd_inode (\<lambda>i. i_set_flags i (i_flags i AND not32 INDEX_FL))) (\<lambda>_.
       bindR get_inode (\<lambda>dir. on_fs (write_inode D dir_ino dir)))
     else returnR ())"

definition dir_add :: "'d dev_ops \<Rightarrow> nat \<Rightarrow> bytes \<Rightarrow> nat \<Rightarrow> nat \<Rightarrow> ('d, unit) fs" where
  "dir_add D dir_ino nm child ftype =
     bindR (liftR (validate_name nm)) (\<lambda>_.
     bindR (getsR (\<lambda>s. (x_bs s, if x_filetype s then ftype else 0, x_ipg s))) (\<lambda>(bs, ft, ipg).
     bindR (read_inode D dir_ino) (\<lambda>dir.
     bindR (run_inode dir (
       bindR dir_blocks (\<lambda>lbs.
       bindR (each_block D (\<lambda>pb buf.
         bindR (liftR (add_in_block bs buf nm child ft 0)) (\<lambda>r.
         case r of
           None \<Rightarrow> returnR None
         | Some buf' \<Rightarrow>
             bindR (on_fs (write_block D pb buf')) (\<lambda>_.
             bindR (clear_index D dir_ino) (\<lambda>_. returnR (Some ()))))) lbs) (\<lambda>done.
       case done of
         Some _ \<Rightarrow> returnR ()
       | None \<Rightarrow>
           bindR (sub32 dir_ino 1) (\<lambda>d1.
           bindR (bmap D (d1 div ipg) (length lbs) True) (\<lambda>pb.
           bindR (liftR (put_dirent (replicate bs 0) 0 child bs nm ft)) (\<lambda>buf.
           bindR (on_fs (write_block D pb buf)) (\<lambda>_.
           bindR get_inode (\<lambda>dir.
           bindR (add32 (i_size dir) bs) (\<lambda>sz.
           bindR (upd_inode (\<lambda>i. i_set_size i sz)) (\<lambda>_.
           bindR (upd_inode (\<lambda>i. i_set_flags i (i_flags i AND not32 INDEX_FL))) (\<lambda>_.
           bindR get_inode (\<lambda>dir. on_fs (write_inode D dir_ino dir))))))))))))))
     (\<lambda>_. returnR ()))))"

definition dir_remove :: "'d dev_ops \<Rightarrow> nat \<Rightarrow> bytes \<Rightarrow> ('d, nat) fs" where
  "dir_remove D dir_ino nm =
     bindR (getsR x_bs) (\<lambda>bs.
     bindR (read_inode D dir_ino) (\<lambda>dir.
     bindR (run_inode dir (
       bindR dir_blocks (\<lambda>lbs.
       each_block D (\<lambda>pb buf.
         bindR (liftR (remove_in_block bs buf nm None 0)) (\<lambda>r.
         case r of
           None \<Rightarrow> returnR None
         | Some (buf', ino) \<Rightarrow>
             bindR (on_fs (write_block D pb buf')) (\<lambda>_.
             bindR (clear_index D dir_ino) (\<lambda>_. returnR (Some ino))))) lbs)))
     (\<lambda>(r, _). case r of Some ino \<Rightarrow> returnR ino | None \<Rightarrow> throwR NotFound)))"

definition dir_is_empty :: "'d dev_ops \<Rightarrow> nat \<Rightarrow> ('d, bool) fs" where
  "dir_is_empty D dir_ino =
     bindR (getsR x_bs) (\<lambda>bs.
     bindR (read_inode D dir_ino) (\<lambda>dir.
     bindR (run_inode dir (
       bindR dir_blocks (\<lambda>lbs.
       each_block D (\<lambda>pb buf.
         bindR (liftR (empty_block bs buf 0)) (\<lambda>e.
         returnR (if e then None else Some ()))) lbs)))
     (\<lambda>(r, _). returnR (r = None))))"

definition dir_set_parent :: "'d dev_ops \<Rightarrow> nat \<Rightarrow> nat \<Rightarrow> ('d, unit) fs" where
  "dir_set_parent D dir_ino new_parent =
     bindR (read_inode D dir_ino) (\<lambda>dir.
     bindR (run_inode dir (bmap D 0 0 False)) (\<lambda>(pb, _).
     if pb = 0 then throwR Corrupt
     else
       bindR (getsR x_bs) (\<lambda>bs.
       bindR (read_block D pb) (\<lambda>buf.
       bindR (liftR (parse_dirent buf 0 bs)) (\<lambda>dot.
       bindR (liftR (parse_dirent buf (d_rec_len dot) bs)) (\<lambda>dotdot.
       bindR (liftR (wr32_at buf (d_rec_len dot) new_parent)) (\<lambda>buf'.
       write_block D pb buf')))))))"

section \<open>Inode lifetime\<close>

definition adj_links :: "'d dev_ops \<Rightarrow> nat \<Rightarrow> int \<Rightarrow> ('d, unit) fs" where
  "adj_links D ino delta =
     bindR (read_inode D ino) (\<lambda>i.
     let n = nat (max 0 (min 65535 (int (i_links i) + delta))) in
     bindR clockR (\<lambda>now.
     write_inode D ino (i_set_ctime (i_set_links i n) now)))"

definition destroy_inode :: "'d dev_ops \<Rightarrow> nat \<Rightarrow> ('d, unit) fs" where
  "destroy_inode D ino =
     bindR (read_inode D ino) (\<lambda>i.
     let was_dir = i_is_dir i in
     bindR (run_inode i (truncate_blocks D 0)) (\<lambda>(_, i).
     bindR clockR (\<lambda>now.
     let i = i_set_dtime (i_set_links i 0) now;
         i = (if i_has_block_pointers i then i_set_blocks (i_set_size i 0) 0 else i) in
     bindR (write_inode D ino i) (\<lambda>_.
     free_inode D ino was_dir))))"

definition touch_dir :: "'d dev_ops \<Rightarrow> nat \<Rightarrow> ('d, unit) fs" where
  "touch_dir D ino =
     bindR (read_inode D ino) (\<lambda>d.
     bindR clockR (\<lambda>now.
     write_inode D ino (i_set_ctime (i_set_mtime d now) now)))"

text \<open>The check that opens every operation that adds a name: a valid name, an existing
  directory that is not being removed, and no such entry yet.\<close>

definition fresh_name :: "'d dev_ops \<Rightarrow> inode \<Rightarrow> bytes \<Rightarrow> ('d, unit) fs" where
  "fresh_name D d nb =
     bindR (run_inode d (dir_find D nb)) (\<lambda>(r, _). if r \<noteq> None then throwR Exists else returnR ())"

definition goal_of :: "nat \<Rightarrow> ('d, nat) fs" where
  "goal_of dir = bindR (sub32 dir 1) (\<lambda>d1. getsR (\<lambda>s. d1 div x_ipg s))"

definition new_inode :: "nat \<Rightarrow> nat \<Rightarrow> nat \<Rightarrow> inode" where
  "new_inode mode links now =
     i_set_mtime (i_set_ctime (i_set_atime (i_set_links (i_set_mode inode_zeroed mode) links) now) now) now"

definition new_node :: "'d dev_ops \<Rightarrow> nat \<Rightarrow> bytes \<Rightarrow> nat \<Rightarrow> nat \<Rightarrow> ('d, nat) fs" where
  "new_node D dir nb mode ftype =
     bindR (liftR (validate_name nb)) (\<lambda>_.
     bindR (check_dir D dir) (\<lambda>d.
     if i_links d = 0 then throwR NotFound
     else
       bindR (fresh_name D d nb) (\<lambda>_.
       bindR (goal_of dir) (\<lambda>goal.
       bindR (alloc_inode D goal False) (\<lambda>ino.
       bindR clockR (\<lambda>now.
       bindR (on_errR
                (bindR (write_inode D ino (new_inode mode 1 now)) (\<lambda>_. dir_add D dir nb ino ftype))
                (free_inode D ino False)) (\<lambda>_.
       bindR (touch_dir D dir) (\<lambda>_.
       bindR (sync D) (\<lambda>_.
       returnR ino)))))))))"

section \<open>Reading\<close>

definition fs_root :: nat where "fs_root = ROOT_INO"

definition fs_stat_of :: "'d dev_ops \<Rightarrow> nat \<Rightarrow> ('d, fs_stat) fs" where
  "fs_stat_of D ino =
     bindR (read_inode D ino) (\<lambda>i.
     returnR \<lparr>st_ino = ino, st_mode = i_mode i, st_file_type = from_mode (i_mode i), st_uid = i_uid i,
       st_gid = i_gid i, st_size = i_size i, st_links = i_links i, st_blocks = i_blocks i,
       st_atime = i_atime i, st_mtime = i_mtime i, st_ctime = i_ctime i\<rparr>)"

definition lookup :: "'d dev_ops \<Rightarrow> nat \<Rightarrow> bytes \<Rightarrow> ('d, nat) fs" where
  "lookup D dir nb =
     (if length nb > MAX_NAME then throwR NameTooLong
      else
        bindR (check_dir D dir) (\<lambda>d.
        bindR (run_inode d (dir_find D nb)) (\<lambda>(r, _).
        case r of Some (i, _) \<Rightarrow> returnR i | None \<Rightarrow> throwR NotFound)))"

primrec readdir_loop :: "'d dev_ops \<Rightarrow> nat \<Rightarrow> bool \<Rightarrow> nat list \<Rightarrow> dir_entry list \<Rightarrow> ('d, dir_entry list) fsi" where
  "readdir_loop D bs filetype [] out = returnR out"
| "readdir_loop D bs filetype (lb # lbs) out =
     bindR (bmap D 0 lb False) (\<lambda>pb.
     if pb = 0 then readdir_loop D bs filetype lbs out
     else
       bindR (on_fs (read_block D pb)) (\<lambda>buf.
       bindR (liftR (list_block filetype bs buf 0)) (\<lambda>es.
       readdir_loop D bs filetype lbs (out @ es))))"

definition readdir :: "'d dev_ops \<Rightarrow> nat \<Rightarrow> ('d, dir_entry list) fs" where
  "readdir D dir =
     bindR (getsR (\<lambda>s. (x_bs s, x_filetype s))) (\<lambda>(bs, filetype).
     bindR (check_dir D dir) (\<lambda>d.
     bindR (run_inode d (bindR dir_blocks (\<lambda>lbs. readdir_loop D bs filetype lbs []))) (\<lambda>(out, _).
     returnR out)))"

text \<open>The loop of \<open>read\<close>: \<open>n\<close> bytes of the file from offset \<open>off\<close>, \<open>out\<close> of them done.\<close>

function read_loop :: "'d dev_ops \<Rightarrow> nat \<Rightarrow> nat \<Rightarrow> nat \<Rightarrow> bytes \<Rightarrow> ('d, bytes) fsi" where
  "read_loop D bs off n out =
     (if length out < n \<and> 0 < bs then
        (let pos = off + length out; lb = pos div bs; bo = pos mod bs;
             chunk = min (bs - bo) (n - length out) in
         bindR (bmap D 0 lb False) (\<lambda>pb.
         if pb = 0 then read_loop D bs off n (out @ replicate chunk 0)
         else
           bindR (on_fs (read_block D pb)) (\<lambda>tmp.
           if bo + chunk \<le> length tmp then read_loop D bs off n (out @ subslice bo chunk tmp)
           else panicR)))
      else returnR out)"
  by pat_completeness auto
termination
  by (relation "measure (\<lambda>(D, bs, off, n, out). n - length out)")
     (auto simp: min_def diff_less_mono2)

declare read_loop.simps [simp del]

text \<open>\<open>read\<close> into a buffer of \<open>len\<close> bytes; the model returns the bytes read.\<close>

definition fs_read :: "'d dev_ops \<Rightarrow> nat \<Rightarrow> nat \<Rightarrow> nat \<Rightarrow> ('d, bytes) fs" where
  "fs_read D ino off len =
     bindR (read_inode D ino) (\<lambda>i.
     if i_is_dir i then throwR IsDir
     else if \<not> i_is_reg i then throwR Invalid
     else if off \<ge> i_size i then returnR []
     else
       bindR (getsR x_bs) (\<lambda>bs.
       bindR (run_inode i (read_loop D bs off (min len (i_size i - off)) [])) (\<lambda>(out, _).
       returnR out)))"

section \<open>Writing\<close>

text \<open>The loop of \<open>write\<close>: returns the bytes done and the failure of \<open>bmap\<close> that ended it, if
  any.\<close>

function write_loop ::
  "'d dev_ops \<Rightarrow> nat \<Rightarrow> nat \<Rightarrow> nat \<Rightarrow> bytes \<Rightarrow> nat \<Rightarrow> ('d, nat \<times> fs_error option) fsi" where
  "write_loop D bs goal off dat donec =
     (if donec < length dat \<and> 0 < bs then
        (let pos = off + donec; lb = pos div bs; bo = pos mod bs;
             n = min (bs - bo) (length dat - donec) in
         (\<lambda>st. case bmap D goal lb True st of
            (Err e, st') \<Rightarrow> (Ok (donec, Some e), st')
          | (Panic, st') \<Rightarrow> (Panic, st')
          | (Hang, st') \<Rightarrow> (Hang, st')
          | (Ok pb, st') \<Rightarrow>
              bindR (if n = bs then returnR (subslice donec n dat)
                     else
                       bindR (on_fs (read_block D pb)) (\<lambda>buf.
                       if bo + n \<le> length buf then returnR (blit bo (subslice donec n dat) buf)
                       else panicR)) (\<lambda>buf.
              bindR (on_fs (write_block D pb buf)) (\<lambda>_.
              write_loop D bs goal off dat (donec + n))) st'))
      else returnR (donec, None))"
  by pat_completeness auto
termination
  by (relation "measure (\<lambda>(D, bs, goal, off, dat, donec). length dat - donec)")
     (auto simp: min_def diff_less_mono2)

declare write_loop.simps [simp del]

definition fs_write :: "'d dev_ops \<Rightarrow> nat \<Rightarrow> nat \<Rightarrow> bytes \<Rightarrow> ('d, nat) fs" where
  "fs_write D ino off dat =
     bindR (read_inode D ino) (\<lambda>i.
     if i_is_dir i then throwR IsDir
     else if \<not> i_is_reg i then throwR Invalid
     else if dat = [] then returnR 0
     else if off \<ge> MAX_FILE_SIZE then throwR TooBig
     else
       let len = (if off + length dat > MAX_FILE_SIZE then MAX_FILE_SIZE - off else length dat) in
       bindR (goal_of ino) (\<lambda>goal.
       bindR (getsR x_bs) (\<lambda>bs.
       bindR (run_inode i (
         bindR (write_loop D bs goal off (take len dat) 0) (\<lambda>(donec, failure).
         bindR (if donec > 0 then
                  bindR (on_fs clockR) (\<lambda>now.
                  upd_inode (\<lambda>i.
                    i_set_ctime (i_set_mtime
                      (if off + donec > i_size i then i_set_size i (off + donec) else i) now) now))
                else returnR ()) (\<lambda>_.
         returnR (donec, failure))))) (\<lambda>((donec, failure), i).
       bindR (write_inode D ino i) (\<lambda>_.
       bindR (sync D) (\<lambda>_.
       case failure of
         Some e \<Rightarrow> if donec = 0 then throwR e else returnR donec
       | None \<Rightarrow> returnR donec))))))"

definition fs_truncate :: "'d dev_ops \<Rightarrow> nat \<Rightarrow> nat \<Rightarrow> ('d, unit) fs" where
  "fs_truncate D ino sz =
     bindR (read_inode D ino) (\<lambda>i.
     if i_is_dir i then throwR IsDir
     else if \<not> i_is_reg i then throwR Invalid
     else if sz > MAX_FILE_SIZE then throwR TooBig
     else
       bindR (getsR x_bs) (\<lambda>bs.
       bindR (run_inode i (
         bindR (if sz < i_size i then
           bindR (truncate_blocks D ((sz + bs - 1) div bs)) (\<lambda>_.
           if sz mod bs \<noteq> 0 then
             bindR (bmap D 0 (sz div bs) False) (\<lambda>pb.
             if pb \<noteq> 0 then
               bindR (on_fs (read_block D pb)) (\<lambda>buf.
               on_fs (write_block D pb (take (sz mod bs) buf @ replicate (length buf - sz mod bs) 0)))
             else returnR ())
           else returnR ())
         else returnR ()) (\<lambda>_.
         bindR (upd_inode (\<lambda>i. i_set_size i sz)) (\<lambda>_.
         bindR (on_fs clockR) (\<lambda>now.
         upd_inode (\<lambda>i. i_set_ctime (i_set_mtime i now) now)))))) (\<lambda>(_, i).
       bindR (write_inode D ino i) (\<lambda>_.
       sync D))))"

section \<open>Creating and removing nodes\<close>

text \<open>\<open>let _ = m\<close>: an error of \<open>m\<close> is dropped.\<close>

definition ignoreR :: "('s, 'e, unit) prog \<Rightarrow> ('s, 'e, unit) prog" where
  "ignoreR m = (\<lambda>s. case m s of (Err e, s') \<Rightarrow> (Ok (), s') | r \<Rightarrow> r)"

definition fs_create :: "'d dev_ops \<Rightarrow> nat \<Rightarrow> bytes \<Rightarrow> nat \<Rightarrow> ('d, nat) fs" where
  "fs_create D dir nb mode = new_node D dir nb (S_IFREG OR (mode AND 0xFFF)) FT_REG"

definition fs_mkdir :: "'d dev_ops \<Rightarrow> nat \<Rightarrow> bytes \<Rightarrow> nat \<Rightarrow> ('d, nat) fs" where
  "fs_mkdir D dir nb mode =
     bindR (liftR (validate_name nb)) (\<lambda>_.
     bindR (check_dir D dir) (\<lambda>d.
     if i_links d = 0 then throwR NotFound
     else if i_links d \<ge> MAX_LINKS then throwR TooManyLinks
     else
       bindR (fresh_name D d nb) (\<lambda>_.
       bindR (goal_of dir) (\<lambda>goal.
       bindR (alloc_inode D goal True) (\<lambda>ino.
       bindR (on_errR (alloc_zeroed_block D goal) (free_inode D ino True)) (\<lambda>blk.
       bindR (getsR (\<lambda>s. (x_bs s, x_spb s, if x_filetype s then FT_DIR else 0))) (\<lambda>(bs, spb, ft).
       bindR (liftR (put_dirent (replicate bs 0) 0 ino 12 [0x2E] ft)) (\<lambda>buf.
       bindR (liftR (put_dirent buf 12 dir (bs - 12) [0x2E, 0x2E] ft)) (\<lambda>buf.
       bindR clockR (\<lambda>now.
       let i = i_set_block (i_set_blocks (i_set_size
                 (new_inode (S_IFDIR OR (mode AND 0xFFF)) 2 now) bs) spb) 0 blk in
       bindR (on_errR
                (bindR (write_block D blk buf) (\<lambda>_.
                 bindR (write_inode D ino i) (\<lambda>_.
                 dir_add D dir nb ino FT_DIR)))
                (bindR (ignoreR (free_block D blk)) (\<lambda>_. free_inode D ino True))) (\<lambda>_.
       bindR (adj_links D dir 1) (\<lambda>_.
       bindR (touch_dir D dir) (\<lambda>_.
       bindR (sync D) (\<lambda>_.
       returnR ino))))))))))))))"

text \<open>Where the text of a symbolic link goes: into the inode itself when it is short, and
  into a block of its own otherwise. Returns the inode and that block, or 0.\<close>

definition symlink_text ::
  "'d dev_ops \<Rightarrow> nat \<Rightarrow> nat \<Rightarrow> bytes \<Rightarrow> inode \<Rightarrow> ('d, inode \<times> nat) fs" where
  "symlink_text D goal ino tb i =
     (if length tb < FAST_SYMLINK_MAX then returnR (blit 40 tb i, 0)
      else
        bindR (on_errR (alloc_zeroed_block D goal) (free_inode D ino False)) (\<lambda>blk.
        bindR (getsR (\<lambda>s. (x_bs s, x_spb s))) (\<lambda>(bs, spb).
        bindR (on_errR (write_block D blk (blit 0 tb (replicate bs 0)))
                 (bindR (ignoreR (free_block D blk)) (\<lambda>_. free_inode D ino False))) (\<lambda>_.
        returnR (i_set_blocks (i_set_block i 0 blk) spb, blk)))))"

definition fs_symlink :: "'d dev_ops \<Rightarrow> nat \<Rightarrow> bytes \<Rightarrow> bytes \<Rightarrow> ('d, nat) fs" where
  "fs_symlink D dir nb tb =
     (if tb = [] then throwR Invalid
      else
        bindR (getsR x_bs) (\<lambda>bs.
        if length tb \<ge> bs then throwR NameTooLong
        else
          bindR (liftR (validate_name nb)) (\<lambda>_.
          bindR (check_dir D dir) (\<lambda>d.
          if i_links d = 0 then throwR NotFound
          else
            bindR (fresh_name D d nb) (\<lambda>_.
            bindR (goal_of dir) (\<lambda>goal.
            bindR (alloc_inode D goal False) (\<lambda>ino.
            bindR clockR (\<lambda>now.
            bindR (symlink_text D goal ino tb
                     (i_set_size (new_inode (S_IFLNK OR 0x1FF) 1 now) (length tb))) (\<lambda>(i, data_blk).
            bindR (on_errR
                     (bindR (write_inode D ino i) (\<lambda>_. dir_add D dir nb ino FT_SYMLINK))
                     (bindR (if data_blk \<noteq> 0 then ignoreR (free_block D data_blk) else returnR ()) (\<lambda>_.
                      free_inode D ino False))) (\<lambda>_.
            bindR (touch_dir D dir) (\<lambda>_.
            bindR (sync D) (\<lambda>_.
            returnR ino))))))))))))"

definition readlink :: "'d dev_ops \<Rightarrow> nat \<Rightarrow> ('d, bytes) fs" where
  "readlink D ino =
     bindR (read_inode D ino) (\<lambda>i.
     if \<not> i_is_lnk i then throwR Invalid
     else if i_is_fast_symlink i then returnR (subslice 40 (i_size i) i)
     else
       bindR (run_inode i (bmap D 0 0 False)) (\<lambda>(pb, _).
       bindR (getsR x_bs) (\<lambda>bs.
       if pb = 0 \<or> i_size i > bs then throwR Corrupt
       else bindR (read_block D pb) (\<lambda>buf. returnR (take (i_size i) buf)))))"

definition link_ftype :: "nat \<Rightarrow> nat" where
  "link_ftype kind =
     (if kind = S_IFREG then FT_REG else if kind = S_IFLNK then FT_SYMLINK
      else if kind = 0x2000 then 3 else if kind = 0x6000 then 4
      else if kind = 0x1000 then 5 else if kind = 0xC000 then 6 else 0)"

definition fs_link :: "'d dev_ops \<Rightarrow> nat \<Rightarrow> bytes \<Rightarrow> nat \<Rightarrow> ('d, unit) fs" where
  "fs_link D dir nb target =
     bindR (liftR (validate_name nb)) (\<lambda>_.
     bindR (read_inode D target) (\<lambda>t.
     if i_is_dir t then throwR IsDir
     else if i_links t \<ge> MAX_LINKS then throwR TooManyLinks
     else
       bindR (check_dir D dir) (\<lambda>d.
       bindR (fresh_name D d nb) (\<lambda>_.
       bindR (dir_add D dir nb target (link_ftype (i_kind t))) (\<lambda>_.
       bindR (adj_links D target 1) (\<lambda>_.
       bindR (touch_dir D dir) (\<lambda>_.
       sync D)))))))"

text \<open>\<open>dir_find(..)?.ok_or(NotFound)?\<close>.\<close>

definition must_find :: "'d dev_ops \<Rightarrow> inode \<Rightarrow> bytes \<Rightarrow> ('d, nat \<times> nat) fs" where
  "must_find D d nb =
     bindR (run_inode d (dir_find D nb)) (\<lambda>(r, _).
     case r of Some e \<Rightarrow> returnR e | None \<Rightarrow> throwR NotFound)"

definition fs_unlink :: "'d dev_ops \<Rightarrow> nat \<Rightarrow> bytes \<Rightarrow> ('d, unit) fs" where
  "fs_unlink D dir nb =
     bindR (liftR (validate_name nb)) (\<lambda>_.
     bindR (check_dir D dir) (\<lambda>d.
     bindR (must_find D d nb) (\<lambda>(ino, _).
     bindR (read_inode D ino) (\<lambda>i.
     if i_is_dir i then throwR IsDir
     else
       bindR (dir_remove D dir nb) (\<lambda>_.
       bindR (if i_links i \<le> 1 then destroy_inode D ino else adj_links D ino (- 1)) (\<lambda>_.
       bindR (touch_dir D dir) (\<lambda>_.
       sync D)))))))"

definition dot_name :: "bytes \<Rightarrow> bool" where
  "dot_name nb \<longleftrightarrow> nb = [0x2E] \<or> nb = [0x2E, 0x2E]"

definition fs_rmdir :: "'d dev_ops \<Rightarrow> nat \<Rightarrow> bytes \<Rightarrow> ('d, unit) fs" where
  "fs_rmdir D dir nb =
     bindR (liftR (validate_name nb)) (\<lambda>_.
     if dot_name nb then throwR Invalid
     else
       bindR (check_dir D dir) (\<lambda>d.
       bindR (must_find D d nb) (\<lambda>(ino, _).
       bindR (read_inode D ino) (\<lambda>i.
       if \<not> i_is_dir i then throwR NotDir
       else
         bindR (if ino = ROOT_INO then returnR False else dir_is_empty D ino) (\<lambda>e.
         if \<not> e then throwR NotEmpty
         else
           bindR (dir_remove D dir nb) (\<lambda>_.
           bindR (destroy_inode D ino) (\<lambda>_.
           bindR (adj_links D dir (- 1)) (\<lambda>_.
           bindR (touch_dir D dir) (\<lambda>_.
           sync D)))))))))"

section \<open>Renaming\<close>

text \<open>The walk of \<open>rename\<close> from the new directory up to the root, refusing to meet \<open>sino\<close>.
  On a corrupt disk whose parent entries form a cycle the loop of the code does not end;
  the fuel makes that \<open>Hang\<close>.\<close>

primrec ancestor_loop :: "'d dev_ops \<Rightarrow> nat \<Rightarrow> nat \<Rightarrow> nat \<Rightarrow> ('d, unit) fs" where
  "ancestor_loop D sino 0 = (\<lambda>cur s. (Hang, s))"
| "ancestor_loop D sino (Suc fuel) = (\<lambda>cur.
     if cur = sino then throwR Invalid
     else if cur = ROOT_INO then returnR ()
     else
       bindR (lookup D cur [0x2E, 0x2E]) (\<lambda>p.
       if p = cur then returnR () else ancestor_loop D sino fuel p))"

text \<open>Making room for the new name; \<open>True\<close> when the rename is thereby complete.\<close>

definition rename_replace ::
  "'d dev_ops \<Rightarrow> nat \<Rightarrow> bytes \<Rightarrow> nat \<Rightarrow> bytes \<Rightarrow> nat \<Rightarrow> bool \<Rightarrow> nat \<Rightarrow> ('d, bool) fs" where
  "rename_replace D old_dir on new_dir nn sino is_dir eino =
     (if eino = sino then
        bindR (dir_remove D old_dir on) (\<lambda>_.
        bindR (adj_links D sino (- 1)) (\<lambda>_.
        bindR (sync D) (\<lambda>_. returnR True)))
      else
        bindR (read_inode D eino) (\<lambda>ex.
        bindR (if i_is_dir ex then
                 (if \<not> is_dir then throwR IsDir
                  else bindR (dir_is_empty D eino) (\<lambda>e. if \<not> e then throwR NotEmpty else returnR ()))
               else if is_dir then throwR NotDir else returnR ()) (\<lambda>_.
        bindR (dir_remove D new_dir nn) (\<lambda>_.
        bindR (if i_is_dir ex then
                 bindR (destroy_inode D eino) (\<lambda>_. adj_links D new_dir (- 1))
               else if i_links ex \<le> 1 then destroy_inode D eino
               else adj_links D eino (- 1)) (\<lambda>_.
        returnR False)))))"

definition fs_rename ::
  "'d dev_ops \<Rightarrow> nat \<Rightarrow> nat \<Rightarrow> bytes \<Rightarrow> nat \<Rightarrow> bytes \<Rightarrow> ('d, unit) fs" where
  "fs_rename D fuel old_dir on new_dir nn =
     bindR (liftR (validate_name on)) (\<lambda>_.
     bindR (liftR (validate_name nn)) (\<lambda>_.
     if dot_name on \<or> dot_name nn then throwR Invalid
     else if old_dir = new_dir \<and> on = nn then returnR ()
     else
       bindR (check_dir D old_dir) (\<lambda>od.
       bindR (check_dir D new_dir) (\<lambda>nd.
       bindR (must_find D od on) (\<lambda>(sino, sft).
       bindR (read_inode D sino) (\<lambda>src.
       bindR (if i_is_dir src then ancestor_loop D sino fuel new_dir else returnR ()) (\<lambda>_.
       bindR (run_inode nd (dir_find D nn)) (\<lambda>(ex, _).
       bindR (case ex of
                Some (eino, _) \<Rightarrow> rename_replace D old_dir on new_dir nn sino (i_is_dir src) eino
              | None \<Rightarrow> returnR False) (\<lambda>complete.
       if complete then returnR ()
       else
         bindR (dir_add D new_dir nn sino sft) (\<lambda>_.
         bindR (dir_remove D old_dir on) (\<lambda>_.
         bindR (if i_is_dir src \<and> old_dir \<noteq> new_dir then
                  bindR (dir_set_parent D sino new_dir) (\<lambda>_.
                  bindR (adj_links D old_dir (- 1)) (\<lambda>_.
                  adj_links D new_dir 1))
                else returnR ()) (\<lambda>_.
         bindR (adj_links D sino 0) (\<lambda>_.
         bindR (touch_dir D old_dir) (\<lambda>_.
         bindR (touch_dir D new_dir) (\<lambda>_.
         sync D)))))))))))))))"

section \<open>Attributes\<close>

definition fs_chmod :: "'d dev_ops \<Rightarrow> nat \<Rightarrow> nat \<Rightarrow> ('d, unit) fs" where
  "fs_chmod D ino mode =
     bindR (read_inode D ino) (\<lambda>i.
     bindR clockR (\<lambda>now.
     bindR (write_inode D ino
              (i_set_ctime (i_set_mode i ((i_mode i AND S_IFMT) OR (mode AND 0xFFF))) now)) (\<lambda>_.
     sync D)))"

definition fs_chown :: "'d dev_ops \<Rightarrow> nat \<Rightarrow> nat \<Rightarrow> nat \<Rightarrow> ('d, unit) fs" where
  "fs_chown D ino uid gid =
     bindR (read_inode D ino) (\<lambda>i.
     bindR clockR (\<lambda>now.
     let i = wr16 (wr16 i 2 (uid mod 65536)) 120 (drop_bit 16 uid mod 65536);
         i = wr16 (wr16 i 24 (gid mod 65536)) 122 (drop_bit 16 gid mod 65536) in
     bindR (write_inode D ino (i_set_ctime i now)) (\<lambda>_.
     sync D)))"

section \<open>Paths\<close>

text \<open>\<open>path.split('/')\<close> without empty and \<open>.\<close> components.\<close>

fun split_slash :: "bytes \<Rightarrow> bytes list" where
  "split_slash [] = [[]]"
| "split_slash (c # cs) =
     (if c = 0x2F then [] # split_slash cs
      else case split_slash cs of [] \<Rightarrow> [[c]] | w # ws \<Rightarrow> (c # w) # ws)"

definition path_comps :: "bytes \<Rightarrow> bytes list" where
  "path_comps path = filter (\<lambda>c. c \<noteq> [] \<and> c \<noteq> [0x2E]) (split_slash path)"

text \<open>The loop of \<open>walk\<close> over the components; \<open>sub\<close> is the recursive call on the target of a
  link. The mutable count of links followed so far is threaded through.\<close>

primrec walk_loop ::
  "'d dev_ops \<Rightarrow> (nat \<Rightarrow> bytes \<Rightarrow> nat \<Rightarrow> ('d, nat \<times> nat) fs) \<Rightarrow> bool \<Rightarrow> bytes list \<Rightarrow> nat \<Rightarrow> nat
    \<Rightarrow> ('d, nat \<times> nat) fs" where
  "walk_loop D sub follow_last [] cur depth = returnR (cur, depth)"
| "walk_loop D sub follow_last (c # cs) cur depth =
     bindR (lookup D cur c) (\<lambda>next.
     bindR (read_inode D next) (\<lambda>ni.
     if i_is_lnk ni \<and> (cs \<noteq> [] \<or> follow_last) then
       if depth + 1 > MAX_SYMLOOP then throwR Loop
       else
         bindR (readlink D next) (\<lambda>raw.
         if \<not> utf8_valid raw then throwR Invalid
         else
           bindR (sub cur raw (depth + 1)) (\<lambda>(cur', depth').
           walk_loop D sub follow_last cs cur' depth'))
     else walk_loop D sub follow_last cs next depth))"

text \<open>\<open>walk\<close>, with fuel for its recursion on link targets: a nested call has a larger link
  count, which never passes \<open>MAX_SYMLOOP\<close>.\<close>

primrec fs_walk ::
  "'d dev_ops \<Rightarrow> nat \<Rightarrow> bool \<Rightarrow> nat \<Rightarrow> bytes \<Rightarrow> nat \<Rightarrow> ('d, nat \<times> nat) fs" where
  "fs_walk D 0 = (\<lambda>follow_last start path depth s. (Hang, s))"
| "fs_walk D (Suc fuel) = (\<lambda>follow_last start path depth.
     walk_loop D (fs_walk D fuel True) follow_last (path_comps path)
       (if path \<noteq> [] \<and> hd path = 0x2F then ROOT_INO else start) depth)"

definition fs_resolve :: "'d dev_ops \<Rightarrow> nat \<Rightarrow> bytes \<Rightarrow> bool \<Rightarrow> ('d, nat) fs" where
  "fs_resolve D cwd path follow_last =
     bindR (fs_walk D (Suc MAX_SYMLOOP) follow_last cwd path 0) (\<lambda>(cur, _). returnR cur)"

text \<open>\<open>trim_end_matches('/')\<close> and the split at the last slash.\<close>

definition trim_end_slash :: "bytes \<Rightarrow> bytes" where
  "trim_end_slash path = rev (dropWhile (\<lambda>c. c = 0x2F) (rev path))"

definition split_parent :: "bytes \<Rightarrow> (bytes \<times> bytes) option" where
  "split_parent path =
     (let t = trim_end_slash path;
          nm = rev (takeWhile (\<lambda>c. c \<noteq> 0x2F) (rev t)) in
      if t = [] then None
      else if nm = t then Some ([0x2E], t)
      else let p = length t - length nm - 1 in
        Some (if p = 0 then [0x2F] else take p t, nm))"

definition resolve_parent :: "'d dev_ops \<Rightarrow> nat \<Rightarrow> bytes \<Rightarrow> ('d, nat \<times> bytes) fs" where
  "resolve_parent D cwd path =
     (case split_parent path of
        None \<Rightarrow> throwR Invalid
      | Some (dirpart, nm) \<Rightarrow> bindR (fs_resolve D cwd dirpart True) (\<lambda>d. returnR (d, nm)))"

definition read_to_vec :: "'d dev_ops \<Rightarrow> nat \<Rightarrow> ('d, bytes) fs" where
  "read_to_vec D ino = bindR (fs_stat_of D ino) (\<lambda>st. fs_read D ino 0 (st_size st))"

function write_all :: "'d dev_ops \<Rightarrow> nat \<Rightarrow> bytes \<Rightarrow> nat \<Rightarrow> ('d, unit) fs" where
  "write_all D ino dat off =
     (if off < length dat then
        bindR (fs_write D ino off (drop off dat)) (\<lambda>n.
        if n = 0 then throwR NoSpace else write_all D ino dat (off + n))
      else returnR ())"
  by pat_completeness auto
termination
  by (relation "measure (\<lambda>(D, ino, dat, off). length dat - off)") auto

declare write_all.simps [simp del]

definition write_file :: "'d dev_ops \<Rightarrow> nat \<Rightarrow> bytes \<Rightarrow> bytes \<Rightarrow> ('d, nat) fs" where
  "write_file D cwd path dat =
     bindR (resolve_parent D cwd path) (\<lambda>(dir, nm).
     bindR (\<lambda>s. case lookup D dir nm s of
              (Ok i, s') \<Rightarrow> bindR (fs_truncate D i 0) (\<lambda>_. returnR i) s'
            | (Err NotFound, s') \<Rightarrow> fs_create D dir nm 0x1A4 s'
            | r \<Rightarrow> r) (\<lambda>ino.
     bindR (write_all D ino dat 0) (\<lambda>_. returnR ino)))"

end
