(* ===== verification/Ext2_Frame.thy ===== *)
theory Ext2_Frame
  imports Ext2_Api
begin

text \<open>
  What the operations of the ext2 driver leave alone. \<open>within G s r\<close> relates the state a
  program starts in to the outcome \<open>r\<close> it ends with. The locale \<open>framing\<close> asks of \<open>G\<close> that
  it is closed under sequencing and gives the rule for each construct of the model; the
  locale \<open>fs_reads\<close> adds that device reads respect \<open>G\<close> and shows it of every operation that
  only reads; \<open>fs_writes\<close> adds writes, the clock and the counters, for the others. The
  instances are that the geometry of the mounted file system never changes, that reading
  operations leave the disk unchanged, and that operations return.
\<close>

definition within :: "('s \<Rightarrow> bool \<Rightarrow> 's \<Rightarrow> bool) \<Rightarrow> 's \<Rightarrow> ('e, 'a) res \<times> 's \<Rightarrow> bool" where
  "within G s r \<longleftrightarrow> G s (fst r = Hang) (snd r)"

definition on_first :: "('s \<Rightarrow> bool \<Rightarrow> 's \<Rightarrow> bool) \<Rightarrow> 's \<times> 'i \<Rightarrow> bool \<Rightarrow> 's \<times> 'i \<Rightarrow> bool" where
  "on_first G p h q \<longleftrightarrow> G (fst p) h (fst q)"

section \<open>Pure functions return\<close>

named_theorems returns \<open>pure functions of the model do not hang\<close>

lemma bind_res_Hang [returns]: "bind_res r f = Hang \<longleftrightarrow> r = Hang \<or> (\<exists>x. r = Ok x \<and> f x = Hang)"
  by (cases r) auto

lemma at_returns [returns]:
  "rd16_at b off \<noteq> Hang" "rd32_at b off \<noteq> Hang" "wr16_at b off v \<noteq> Hang" "wr32_at b off v \<noteq> Hang"
  by (simp_all add: rd16_at_def rd32_at_def wr16_at_def wr32_at_def)

lemma validate_name_returns [returns]: "validate_name nm \<noteq> Hang"
  by (simp add: validate_name_def)

lemma parse_dirent_returns [returns]: "parse_dirent b off bs \<noteq> Hang"
  by (auto simp: parse_dirent_def Let_def returns split: if_splits)

lemma put_dirent_returns [returns]: "put_dirent buf off ino rec_len nm ft \<noteq> Hang"
  by (auto simp: put_dirent_def Let_def returns split: if_splits)

lemma find_in_block_returns [returns]: "find_in_block bs buf nm off \<noteq> Hang"
  by (induction bs buf nm off rule: find_in_block.induct)
     (subst find_in_block.simps, auto split: res.splits simp: returns)

lemma add_in_block_returns [returns]: "add_in_block bs buf nm child ft off \<noteq> Hang"
  by (induction bs buf nm child ft off rule: add_in_block.induct)
     (subst add_in_block.simps, auto split: res.splits simp: returns Let_def)

lemma remove_in_block_returns [returns]: "remove_in_block bs buf nm prev off \<noteq> Hang"
  by (induction bs buf nm prev off rule: remove_in_block.induct)
     (subst remove_in_block.simps,
      auto split: res.splits option.splits simp: returns Let_def)

lemma empty_block_returns [returns]: "empty_block bs buf off \<noteq> Hang"
  by (induction bs buf off rule: empty_block.induct)
     (subst empty_block.simps, auto split: res.splits simp: returns)

lemma list_block_returns [returns]: "list_block filetype bs buf off \<noteq> Hang"
  by (induction filetype bs buf off rule: list_block.induct)
     (subst list_block.simps, auto split: res.splits simp: returns)

lemma bit_find_zero_returns [returns]: "bit_find_zero b n \<noteq> Hang"
proof -
  have "scan_bytes b n xs \<noteq> Hang" for xs
    by (induction xs) (auto split: option.splits simp: Let_def)
  then show ?thesis by (simp add: bit_find_zero_def)
qed

section \<open>The rules\<close>

locale framing =
  fixes G :: "'s \<Rightarrow> bool \<Rightarrow> 's \<Rightarrow> bool"
  assumes G_refl: "G s False s"
    and G_trans: "G s False t \<Longrightarrow> G t h u \<Longrightarrow> G s h u"
begin

lemma w_done: "within G s (Ok a, s)" "within G s (Err e, s)" "within G s (Panic, s)"
  "within G s (returnR a s)" "within G s (throwR e s)" "within G s (panicR s)" "within G s (getsR f s)"
  by (simp_all add: within_def G_refl)

lemma w_lift: "r \<noteq> Hang \<Longrightarrow> within G s (liftR r s)"
  by (simp add: within_def G_refl)

lemma w_bind: "within G s (m s) \<Longrightarrow> (\<And>a t. within G t (f a t)) \<Longrightarrow> within G s (bindR m f s)"
  by (auto simp: within_def bindR_def split: prod.splits res.splits) (metis G_trans fst_conv snd_conv)

lemma w_bind_result:
  assumes "within G s (m s)" and "\<And>a t. m s = (Ok a, t) \<Longrightarrow> within G t (f a t)"
  shows "within G s (bindR m f s)"
  using assms by (auto simp: within_def bindR_def split: prod.splits res.splits) (metis G_trans fst_conv snd_conv)

lemma w_seq: "within G s (r, t) \<Longrightarrow> r \<noteq> Hang \<Longrightarrow> within G t x \<Longrightarrow> within G s x"
  by (simp add: within_def) (metis G_trans)

lemma w_if: "(c \<Longrightarrow> within G s x) \<Longrightarrow> (\<not> c \<Longrightarrow> within G s y) \<Longrightarrow> within G s (if c then x else y)"
  "(c \<Longrightarrow> within G s (m s)) \<Longrightarrow> (\<not> c \<Longrightarrow> within G s (m' s)) \<Longrightarrow> within G s ((if c then m else m') s)"
  by simp_all

lemma w_option: "within G s x \<Longrightarrow> (\<And>a. within G s (y a)) \<Longrightarrow> within G s (case r of None \<Rightarrow> x | Some a \<Rightarrow> y a)"
  "within G s (m s) \<Longrightarrow> (\<And>a. within G s (m' a s)) \<Longrightarrow> within G s ((case r of None \<Rightarrow> m | Some a \<Rightarrow> m' a) s)"
  by (cases r; simp)+

lemma w_prod: "(\<And>a b. within G s (x a b)) \<Longrightarrow> within G s (case p of (a, b) \<Rightarrow> x a b)"
  "(\<And>a b. within G s (m a b s)) \<Longrightarrow> within G s ((case p of (a, b) \<Rightarrow> m a b) s)"
  "(\<And>a b. within G s (k a b i s)) \<Longrightarrow> within G s ((case p of (a, b) \<Rightarrow> k a b) i s)"
  by (cases p; simp)+

lemma w_let: "within G s (f a) \<Longrightarrow> within G s (let x = a in f x)"
  "within G s (m a s) \<Longrightarrow> within G s ((let x = a in m x) s)"
  by simp_all

lemma w_on_err: "within G s (m s) \<Longrightarrow> (\<And>t. within G t (c t)) \<Longrightarrow> within G s (on_errR m c s)"
proof -
  assume m: "within G s (m s)" and c: "\<And>t. within G t (c t)"
  show ?thesis
  proof (cases "m s")
    case (Pair r t)
    show ?thesis
    proof (cases r)
      case (Err e)
      with Pair m have "G s False t" by (simp add: within_def)
      then have "within G s (c t)"
        using c [of t] unfolding within_def by (rule G_trans)
      with Pair Err show ?thesis
        by (auto simp: within_def on_errR_def split: prod.splits res.splits)
    qed (use Pair m in \<open>simp_all add: within_def on_errR_def\<close>)
  qed
qed

lemma w_ignore: "within G s (m s) \<Longrightarrow> within G s (ignoreR m s)"
  by (auto simp: within_def ignoreR_def split: prod.splits res.splits)

lemma w_arith: "within G s (add32 a b s)" "within G s (sub32 a b s)" "within G s (mul32 a b s)" "within G s (add16 a b s)"
  by (simp_all add: add32_def sub32_def mul32_def add16_def w_done(1,3) within_def G_refl)

lemmas w_rules = w_done w_lift w_bind w_if w_option w_prod w_let w_on_err w_ignore w_arith

end
lemma framing_on_first:
  assumes "framing G"
  shows "framing (on_first G)"
  using assms by (auto simp: framing_def on_first_def)

section \<open>Operations that read\<close>

text \<open>The block map without creation.\<close>

lemma bmap_walk_lookup:
  "bmap_walk D goal False ppb cur rel d =
     bindR (on_fs (read_block D cur)) (\<lambda>buf.
     bindR (liftR (rd32_at buf (rel div ppb ^ d * 4))) (\<lambda>next0.
     if next0 = 0 then returnR 0
     else case d of 0 \<Rightarrow> returnR next0 | Suc d' \<Rightarrow> bmap_walk D goal False ppb next0 (rel mod ppb ^ d) d'))"
  by (subst bmap_walk.simps) (simp add: Let_def cong: if_cong)

lemma bmap_lookup:
  "bmap D goal lblk False =
     bindR (getsR (\<lambda>(s, i). x_bs s div 4)) (\<lambda>ppb.
     bindR get_inode (\<lambda>i.
     if lblk < 12 then returnR (i_block i lblk)
     else
       case bmap_slot ppb lblk of
         None \<Rightarrow> throwR TooBig
       | Some (slot, depth, rel) \<Rightarrow>
           if i_block i slot = 0 then returnR 0
           else bmap_walk D goal False ppb (i_block i slot) rel (depth - 1)))"
  by (simp add: bmap_def Let_def cong: if_cong option.case_cong)

text \<open>The count of links followed only grows.\<close>

lemma walk_loop_depth:
  assumes "\<And>cur raw d t c d' t'. sub cur raw d t = (Ok (c, d'), t') \<Longrightarrow> d \<le> d'"
  shows "walk_loop D sub follow_last cs cur depth s = (Ok (c, d'), s') \<Longrightarrow> depth \<le> d'"
  by (induction cs arbitrary: cur depth s)
     (auto simp: bindR_eq_Ok split: if_splits dest!: assms, (meson Suc_leD le_trans)+)

lemma walk_depth: "fs_walk D fuel follow_last start path depth s = (Ok (c, d'), s') \<Longrightarrow> depth \<le> d'"
proof (induction fuel arbitrary: follow_last start path depth s c d' s')
  case (Suc fuel)
  from Suc.prems show ?case
    unfolding fs_walk.simps by (rule walk_loop_depth [rotated]) (rule Suc.IH)
qed simp

text \<open>Fuel for as many links as may still be followed is enough: more changes nothing.\<close>

lemma if_app_cong:
  "(c \<Longrightarrow> m t = n t) \<Longrightarrow> (\<not> c \<Longrightarrow> m' t = n' t) \<Longrightarrow> (if c then m else m') t = (if c then n else n') t"
  by simp

lemma walk_loop_cong:
  assumes same: "\<And>cur raw d t. depth < d \<Longrightarrow> d \<le> MAX_SYMLOOP \<Longrightarrow> sub' cur raw d t = sub cur raw d t"
    and grows: "\<And>cur raw d t c d' t'. sub cur raw d t = (Ok (c, d'), t') \<Longrightarrow> d \<le> d'"
    and d: "depth \<le> d"
  shows "walk_loop D sub' follow_last cs cur d s = walk_loop D sub follow_last cs cur d s"
  using d
proof (induction cs arbitrary: cur d s)
  case (Cons c cs)
  have "bindR (sub' cur raw (d + 1)) (\<lambda>(c, d'). walk_loop D sub' follow_last cs c d') t
      = bindR (sub cur raw (d + 1)) (\<lambda>(c, d'). walk_loop D sub follow_last cs c d') t"
    if "\<not> MAX_SYMLOOP < d + 1" for raw t
    using that Cons.prems by (intro bindR_cong same) (auto dest!: grows intro!: Cons.IH split: prod.splits)
  then have follow: "bindR (readlink D n) (\<lambda>raw. if \<not> utf8_valid raw then throwR Invalid
         else bindR (sub' cur raw (d + 1)) (\<lambda>(c, d'). walk_loop D sub' follow_last cs c d')) t
      = bindR (readlink D n) (\<lambda>raw. if \<not> utf8_valid raw then throwR Invalid
         else bindR (sub cur raw (d + 1)) (\<lambda>(c, d'). walk_loop D sub follow_last cs c d')) t"
    if "\<not> MAX_SYMLOOP < d + 1" for n t
    using that by (intro bindR_cong [OF refl]) simp
  show ?case
    unfolding walk_loop.simps
    by (intro bindR_cong [OF refl] if_app_cong follow Cons.IH Cons.prems refl)
qed simp

lemma walk_fuel:
  "MAX_SYMLOOP < fuel + depth \<Longrightarrow> depth \<le> MAX_SYMLOOP \<Longrightarrow> fuel \<le> fuel'
    \<Longrightarrow> fs_walk D fuel' follow_last start path depth s = fs_walk D fuel follow_last start path depth s"
proof (induction fuel arbitrary: fuel' follow_last start path depth s)
  case (Suc fuel)
  then obtain f where "fuel' = Suc f" "fuel \<le> f"
    by (metis Suc_le_D Suc_le_mono)
  with Suc show ?case
    unfolding \<open>fuel' = Suc f\<close> fs_walk.simps
    by (intro walk_loop_cong [where depth = depth] Suc.IH) (auto dest: walk_depth)
qed simp

locale fs_reads =
  fixes D :: "'d dev_ops" and G :: "'d ext2 \<Rightarrow> bool \<Rightarrow> 'd ext2 \<Rightarrow> bool"
  assumes G_framing: "framing G"
    and reads: "within G s (devR (op_read_sectors D lba len) s)"
begin

sublocale fs: framing G
  by (rule G_framing)

sublocale fsi: framing "on_first G"
  by (rule framing_on_first [OF G_framing])

lemma w_on_fs: "within G (fst p) (m (fst p)) \<Longrightarrow> within (on_first G) p (on_fs m p)"
  by (auto simp: within_def on_first_def on_fs_def split: prod.splits)

lemma w_run_inode: "within (on_first G) (s, i) (m (s, i)) \<Longrightarrow> within G s (run_inode i m s)"
  by (auto simp: within_def on_first_def run_inode_def split: prod.splits res.splits)

lemma w_inode: "within (on_first G) p (get_inode p)" "within (on_first G) p (upd_inode f p)"
  by (auto simp: within_def on_first_def get_inode_def upd_inode_def fs.G_refl split: prod.splits)

lemmas rules = fs.w_rules fsi.w_rules w_on_fs w_run_inode w_inode

lemma w_read_block: "within G s (read_block D blk s)"
  unfolding read_block_def by (intro rules reads)

lemma w_gd_get: "within G s (gd_get32 off s)" "within G s (gd_get16 off s)"
  by (simp_all add: within_def gd_get32_def gd_get16_def returns fs.G_refl)

lemma w_inode_loc: "within G s (inode_loc ino s)"
  unfolding inode_loc_def gd_inode_table_def by (intro rules w_gd_get)

lemma w_read_inode: "within G s (read_inode D ino s)"
  unfolding read_inode_def by (intro rules w_inode_loc w_read_block)

lemma w_bmap_walk: "within (on_first G) p (bmap_walk D goal False ppb cur rel d p)"
proof (induction d arbitrary: cur rel p)
  case 0
  show ?case
    by (subst bmap_walk_lookup) (unfold nat.case, intro rules w_read_block returns)
next
  case (Suc d)
  show ?case
    by (subst bmap_walk_lookup) (unfold nat.case, intro rules w_read_block returns Suc)
qed

lemma w_bmap: "within (on_first G) p (bmap D goal lblk False p)"
  unfolding bmap_lookup by (intro rules w_bmap_walk)

lemma w_each_block:
  assumes "\<And>pb buf q. within (on_first G) q (step pb buf q)"
  shows "within (on_first G) p (each_block D step lbs p)"
proof (induction lbs arbitrary: p)
  case (Cons lb lbs)
  then show ?case
    unfolding each_block.simps by (intro rules w_bmap w_read_block assms)
qed (auto intro: rules)

lemma w_dir_find: "within (on_first G) p (dir_find D nm p)"
  unfolding dir_find_def dir_blocks_def by (intro rules w_each_block returns)

lemma w_check_dir: "within G s (check_dir D ino s)"
  unfolding check_dir_def by (intro rules w_read_inode)

lemma w_lookup: "within G s (lookup D dir nb s)"
  unfolding lookup_def by (intro rules w_check_dir w_dir_find)

lemma w_must_find: "within G s (must_find D d nb s)"
  unfolding must_find_def by (intro rules w_dir_find)

lemma w_fresh_name: "within G s (fresh_name D d nb s)"
  unfolding fresh_name_def by (intro rules w_dir_find)

lemma w_stat: "within G s (fs_stat_of D ino s)"
  unfolding fs_stat_of_def by (intro rules w_read_inode)

lemma w_dir_is_empty: "within G s (dir_is_empty D ino s)"
  unfolding dir_is_empty_def dir_blocks_def by (intro rules w_read_inode w_each_block returns)

lemma w_readdir_loop: "within (on_first G) p (readdir_loop D bs filetype lbs out p)"
proof (induction lbs arbitrary: out p)
  case (Cons lb lbs)
  then show ?case
    unfolding readdir_loop.simps by (intro rules w_bmap w_read_block returns)
qed (auto intro: rules)

lemma w_readdir: "within G s (readdir D dir s)"
  unfolding readdir_def dir_blocks_def by (intro rules w_check_dir w_readdir_loop)

lemma w_read_loop: "within (on_first G) p (read_loop D bs off n out p)"
proof (induction "n - length out" arbitrary: out p rule: less_induct)
  case less
  show ?case
  proof (cases "length out < n \<and> 0 < bs")
    case True
    let ?chunk = "min (bs - (off + length out) mod bs) (n - length out)"
    have "0 < ?chunk"
      using True by simp
    then have shorter: "n - length (out @ c) < n - length out" if "length c = ?chunk" for c :: bytes
      using True that by (simp add: diff_less_mono2)
    show ?thesis
      by (subst read_loop.simps, simp only: True if_True Let_def simp_thms, intro rules w_bmap w_read_block)
         (rule less; rule shorter; simp)+
  next
    case False
    then show ?thesis
      by (subst read_loop.simps, simp only: if_False) (intro rules)
  qed
qed

lemma w_readlink: "within G s (readlink D ino s)"
  unfolding readlink_def by (intro rules w_read_inode w_bmap w_read_block)


lemma w_read: "within G s (fs_read D ino off len s)"
  unfolding fs_read_def by (intro rules w_read_inode w_read_loop)

lemma w_read_to_vec: "within G s (read_to_vec D ino s)"
  unfolding read_to_vec_def by (intro rules w_stat w_read)

lemma w_walk_loop:
  assumes sub: "\<And>cur raw d t. depth < d \<Longrightarrow> d \<le> MAX_SYMLOOP \<Longrightarrow> within G t (sub cur raw d t)"
    and grows: "\<And>cur raw d t c d' t'. sub cur raw d t = (Ok (c, d'), t') \<Longrightarrow> d \<le> d'"
    and d: "depth \<le> d"
  shows "within G s (walk_loop D sub follow_last cs cur d s)"
  using d
proof (induction cs arbitrary: cur d s)
  case (Cons c cs)
  have follow: "within G t (bindR (sub cur raw (d + 1)) (\<lambda>(c, d'). walk_loop D sub follow_last cs c d') t)"
    if "\<not> MAX_SYMLOOP < d + 1" for raw t
    using that Cons.prems
    by (intro fs.w_bind_result sub) (auto dest!: grows intro!: Cons.IH split: prod.splits)
  show ?case
    unfolding walk_loop.simps
    by (intro rules w_lookup w_read_inode w_readlink follow Cons)
qed (auto intro: rules)

lemma w_walk:
  "MAX_SYMLOOP < fuel + depth \<Longrightarrow> depth \<le> MAX_SYMLOOP
    \<Longrightarrow> within G s (fs_walk D fuel follow_last start path depth s)"
proof (induction fuel arbitrary: follow_last start path depth s)
  case (Suc fuel)
  then show ?case
    unfolding fs_walk.simps by (intro w_walk_loop [where depth = depth] Suc.IH) (auto dest: walk_depth)
qed simp

lemma w_resolve: "within G s (fs_resolve D cwd path follow_last s)"
  unfolding fs_resolve_def by (intro rules w_walk) simp_all

lemma w_resolve_parent: "within G s (resolve_parent D cwd path s)"
  unfolding resolve_parent_def by (intro rules w_resolve)

end

section \<open>Operations that write\<close>

locale fs_writes = fs_reads +
  assumes writes: "within G s (devR (op_write_sectors D lba b) s)"
    and flushes: "within G s (devR (op_flush D) s)"
    and G_ticks: "G s False (s\<lparr>x_ticks := n\<rparr>)"
    and G_sb: "G s False (s\<lparr>x_sb := wr32 (wr32 (wr32 (x_sb s) 12 fb) 16 fi) 48 c\<rparr>)"
    and G_gdt: "length g = length (x_gdt s) \<Longrightarrow> G s False (s\<lparr>x_gdt := g\<rparr>)"
    and G_clean: "G s False (s\<lparr>x_dirty := False\<rparr>)"
    and G_blocks: "G s False (s\<lparr>x_free_blocks := n, x_dirty := True\<rparr>)"
    and G_inodes: "G s False (s\<lparr>x_free_inodes := n, x_dirty := True\<rparr>)"
begin

lemma w_clock: "within G s (clockR s)"
  by (simp add: within_def clockR_def G_ticks)

lemma w_modify: "within G s (modifyR (\<lambda>s. s\<lparr>x_free_blocks := n, x_dirty := True\<rparr>) s)"
  "within G s (modifyR (\<lambda>s. s\<lparr>x_free_inodes := n, x_dirty := True\<rparr>) s)"
  "within G s (modifyR (\<lambda>s. s\<lparr>x_dirty := False\<rparr>) s)"
  "within G s (modifyR (\<lambda>s. s\<lparr>x_sb := wr32 (wr32 (wr32 (x_sb s) 12 (x_free_blocks s)) 16 (x_free_inodes s)) 48 c\<rparr>) s)"
  by (simp_all add: within_def G_blocks G_inodes G_clean G_sb)

lemma w_sync: "within G s (sync D s)"
  unfolding sync_def by (intro rules w_clock w_modify writes flushes)

lemma w_write_block: "within G s (write_block D blk buf s)"
  unfolding write_block_def by (intro rules writes)

lemma w_gd_put: "within G s (gd_put16 off v s)"
  by (auto simp: within_def gd_put16_def wr16_at_def wr16_def fs.G_refl intro!: G_gdt)

lemmas gd_defs = gd_block_bitmap_def gd_inode_bitmap_def gd_inode_table_def gd_free_blocks_def
  gd_free_inodes_def gd_used_dirs_def gd_set_free_blocks_def gd_set_free_inodes_def gd_set_used_dirs_def

lemmas wrules = rules w_clock w_modify w_sync w_write_block w_gd_get w_gd_put w_read_block w_read_inode
  w_bmap w_check_dir w_fresh_name w_must_find w_dir_find w_lookup w_inode_loc returns

lemma w_write_inode: "within G s (write_inode D ino i s)"
  unfolding write_inode_def by (intro wrules)

lemma w_alloc_block_loop: "within G s (alloc_block_loop D goal ks s)"
proof (induction ks arbitrary: s)
  case (Cons k ks)
  then show ?case
    unfolding alloc_block_loop.simps gd_defs by (intro wrules)
qed (auto intro: rules)

lemma w_alloc_zeroed_block: "within G s (alloc_zeroed_block D goal s)"
  unfolding alloc_zeroed_block_def alloc_block_def by (intro wrules w_alloc_block_loop)

lemma w_free_block: "within G s (free_block D blk s)"
  unfolding free_block_def gd_defs by (intro wrules)

lemma w_alloc_inode_loop: "within G s (alloc_inode_loop D goal is_dir ks s)"
proof (induction ks arbitrary: s)
  case (Cons k ks)
  then show ?case
    unfolding alloc_inode_loop.simps gd_defs by (intro wrules)
qed (auto intro: rules)

lemma w_alloc_inode: "within G s (alloc_inode D goal is_dir s)"
  unfolding alloc_inode_def by (rule w_alloc_inode_loop)

lemma w_free_inode: "within G s (free_inode D ino was_dir s)"
  unfolding free_inode_def gd_defs by (intro wrules)

lemma w_add_blocks: "within (on_first G) p (add_blocks n p)"
  unfolding add_blocks_def by (intro wrules)

lemma w_bmap_walk_create: "within (on_first G) p (bmap_walk D goal create ppb cur rel d p)"
proof (induction d arbitrary: cur rel p)
  case 0
  show ?case
    by (subst bmap_walk.simps) (unfold nat.case, intro wrules w_alloc_zeroed_block w_add_blocks)
next
  case (Suc d)
  show ?case
    by (subst bmap_walk.simps) (unfold nat.case, intro wrules w_alloc_zeroed_block w_add_blocks Suc)
qed

lemma w_bmap_create: "within (on_first G) p (bmap D goal lblk create p)"
  unfolding bmap_def by (intro wrules w_alloc_zeroed_block w_add_blocks w_bmap_walk_create)

lemma w_free_entries:
  assumes "\<And>e k f t. within G t (sub e k f t)"
  shows "within G s (free_entries D leaf sub span keep_from ks acc s)"
proof (induction ks arbitrary: acc s)
  case (Cons k ks)
  then show ?case
    unfolding free_entries.simps by (intro wrules w_free_block assms)
qed (auto intro: rules)

lemma w_free_subtree: "within G s (free_subtree D d blk keep_from freed s)"
proof (induction d arbitrary: blk keep_from freed s)
  case (Suc d)
  then show ?case
    unfolding free_subtree.simps by (intro wrules w_free_entries w_free_block)
qed (simp add: rules)

lemma w_truncate_direct: "within (on_first G) p (truncate_direct D ks freed p)"
proof (induction ks arbitrary: freed p)
  case (Cons k ks)
  then show ?case
    unfolding truncate_direct.simps by (intro wrules w_free_block)
qed (auto intro: rules)

lemma w_truncate_trees: "within (on_first G) p (truncate_trees D ppb keep ks freed p)"
proof (induction ks arbitrary: freed p)
  case (Cons k ks)
  then show ?case
    unfolding truncate_trees.simps by (intro wrules w_free_subtree)
qed (auto intro: rules)

lemma w_truncate_blocks: "within (on_first G) p (truncate_blocks D keep p)"
  unfolding truncate_blocks_def by (intro wrules w_truncate_direct w_truncate_trees)


lemma w_clear_index: "within (on_first G) p (clear_index D dir_ino p)"
  unfolding clear_index_def by (intro wrules w_write_inode)

lemma w_dir_add: "within G s (dir_add D dir_ino nm child ftype s)"
  unfolding dir_add_def dir_blocks_def
  by (intro wrules w_each_block w_clear_index w_bmap_create w_write_inode)

lemma w_dir_remove: "within G s (dir_remove D dir_ino nm s)"
  unfolding dir_remove_def dir_blocks_def by (intro wrules w_each_block w_clear_index)

lemma w_dir_set_parent: "within G s (dir_set_parent D dir_ino new_parent s)"
  unfolding dir_set_parent_def by (intro wrules)

lemma w_adj_links: "within G s (adj_links D ino delta s)"
  unfolding adj_links_def by (intro wrules w_write_inode)

lemma w_destroy_inode: "within G s (destroy_inode D ino s)"
  unfolding destroy_inode_def by (intro wrules w_write_inode w_truncate_blocks w_free_inode)

lemma w_touch_dir: "within G s (touch_dir D ino s)"
  unfolding touch_dir_def by (intro wrules w_write_inode)

lemma w_goal_of: "within G s (goal_of dir s)"
  unfolding goal_of_def by (intro wrules)

lemmas nrules = wrules w_write_inode w_dir_add w_dir_remove w_dir_set_parent w_adj_links w_destroy_inode
  w_touch_dir w_goal_of w_alloc_inode w_free_inode w_alloc_zeroed_block w_free_block w_dir_is_empty

lemma w_new_node: "within G s (new_node D dir nb mode ftype s)"
  unfolding new_node_def by (intro nrules)

lemma w_create: "within G s (fs_create D dir nb mode s)"
  unfolding fs_create_def by (rule w_new_node)

lemma w_mkdir: "within G s (fs_mkdir D dir nb mode s)"
  unfolding fs_mkdir_def by (intro nrules)

lemma w_symlink: "within G s (fs_symlink D dir nb tb s)"
  unfolding fs_symlink_def symlink_text_def by (intro nrules)

lemma w_link: "within G s (fs_link D dir nb target s)"
  unfolding fs_link_def by (intro nrules)

lemma w_unlink: "within G s (fs_unlink D dir nb s)"
  unfolding fs_unlink_def by (intro nrules)

lemma w_rmdir: "within G s (fs_rmdir D dir nb s)"
  unfolding fs_rmdir_def by (intro nrules)

lemma w_chmod: "within G s (fs_chmod D ino mode s)"
  unfolding fs_chmod_def by (intro nrules)

lemma w_chown: "within G s (fs_chown D ino uid gid s)"
  unfolding fs_chown_def by (intro nrules)

lemma w_ancestor_loop:
  assumes "\<And>s. G s True s"
  shows "within G s (ancestor_loop D sino fuel cur s)"
proof (induction fuel arbitrary: cur s)
  case 0
  then show ?case by (simp add: within_def assms)
next
  case (Suc fuel)
  then show ?case
    unfolding ancestor_loop.simps by (intro nrules)
qed

lemma w_rename:
  assumes "\<And>s. G s True s"
  shows "within G s (fs_rename D fuel old_dir on new_dir nn s)"
  unfolding fs_rename_def rename_replace_def by (intro nrules w_ancestor_loop assms)

lemma w_write_loop: "within (on_first G) p (write_loop D bs goal off dat donec p)"
proof (induction "length dat - donec" arbitrary: donec p rule: less_induct)
  case less
  show ?case
  proof (cases "donec < length dat \<and> 0 < bs")
    case True
    let ?lb = "(off + donec) div bs" and ?bo = "(off + donec) mod bs"
    let ?n = "min (bs - ?bo) (length dat - donec)"
    have "0 < ?n"
      using True by simp
    then have shorter: "length dat - (donec + ?n) < length dat - donec"
      using True by (simp add: diff_less_mono2)
    obtain r q where b: "bmap D goal ?lb True p = (r, q)"
      by (cases "bmap D goal ?lb True p")
    have "within (on_first G) q
        (bindR (if ?n = bs then returnR (subslice donec ?n dat)
                else bindR (on_fs (read_block D pb)) (\<lambda>buf.
                  if ?bo + ?n \<le> length buf then returnR (blit ?bo (subslice donec ?n dat) buf) else panicR)) (\<lambda>buf.
         bindR (on_fs (write_block D pb buf)) (\<lambda>_. write_loop D bs goal off dat (donec + ?n))) q)" for pb
      by (intro nrules less shorter)
    note rest = this
    have w: "within (on_first G) p (r, q)"
      using w_bmap_create [of p goal ?lb True] by (simp add: b)
    have unfold: "write_loop D bs goal off dat donec p = (case (r, q) of
            (Err e, st') \<Rightarrow> (Ok (donec, Some e), st')
          | (Panic, st') \<Rightarrow> (Panic, st') | (Hang, st') \<Rightarrow> (Hang, st')
          | (Ok pb, st') \<Rightarrow>
              bindR (if ?n = bs then returnR (subslice donec ?n dat)
                     else bindR (on_fs (read_block D pb)) (\<lambda>buf.
                       if ?bo + ?n \<le> length buf then returnR (blit ?bo (subslice donec ?n dat) buf) else panicR)) (\<lambda>buf.
              bindR (on_fs (write_block D pb buf)) (\<lambda>_. write_loop D bs goal off dat (donec + ?n))) st')"
      by (subst write_loop.simps) (simp only: True Let_def b simp_thms if_True)
    show ?thesis
    proof (cases r)
      case (Ok pb)
      then show ?thesis
        unfolding unfold using fsi.w_seq [OF w _ rest [of pb]] by simp
    qed (use w in \<open>simp_all add: unfold within_def\<close>)
  next
    case False
    then show ?thesis
      by (subst write_loop.simps, simp only: if_False) (intro rules)
  qed
qed

lemma w_write: "within G s (fs_write D ino off dat s)"
  unfolding fs_write_def by (intro nrules w_write_loop)

lemma w_truncate: "within G s (fs_truncate D ino sz s)"
  unfolding fs_truncate_def by (intro nrules w_truncate_blocks)

lemma w_write_all: "within G s (write_all D ino dat off s)"
proof (induction "length dat - off" arbitrary: off s rule: less_induct)
  case less
  show ?case
    by (subst write_all.simps) (intro nrules w_write less, simp_all)
qed

lemma w_write_file: "within G s (write_file D cwd path dat s)"
proof -
  have open_file: "within G t (case lookup D dir nm t of
      (Ok i, s') \<Rightarrow> bindR (fs_truncate D i 0) (\<lambda>_. returnR i) s'
    | (Err NotFound, s') \<Rightarrow> fs_create D dir nm 0x1A4 s' | r \<Rightarrow> r)" for dir nm t
  proof (cases "lookup D dir nm t")
    case (Pair r q)
    have w: "within G t (r, q)"
      using w_lookup [of t dir nm] by (simp add: Pair)
    have "within G q (bindR (fs_truncate D i 0) (\<lambda>_. returnR i) q)" for i
      by (intro rules w_truncate)
    note fs.w_seq [OF w _ this] fs.w_seq [OF w _ w_create]
    with w show ?thesis
      by (auto simp: Pair split: res.splits fs_error.splits)
  qed
  show ?thesis
    unfolding write_file_def by (intro rules w_resolve_parent open_file w_write_all)
qed

end

end
