(* ===== verification/Ext2_Sample.thy ===== *)
theory Ext2_Sample
  imports Ext2_Api
begin

text \<open>
  A small ext2 image on the RAM disk, on which properties of the driver are shown to apply:
  ten blocks of 1024 bytes (boot block, superblock, group descriptors, block bitmap, inode
  bitmap, two blocks of inode table, the root directory, its subdirectory \<open>a\<close> and one free
  block), one block group, sixteen inodes of which eleven are in use.
\<close>

definition blk0 :: bytes where "blk0 = replicate 1024 0"

definition sample_sb :: bytes where
  "sample_sb = wr16 (wr32 (wr32 (wr32 (wr32 (wr32 (wr32 (wr32 blk0 0 16) 4 10) 12 1) 16 5) 20 1) 32 8192) 40 16) 56 0xEF53"

definition sample_gdt :: bytes where
  "sample_gdt = wr16 (wr16 (wr16 (wr32 (wr32 (wr32 blk0 0 3) 4 4) 8 5) 12 1) 14 5) 16 2"

definition sample_bb :: bytes where
  "sample_bb = [0xFF, 0xFE] @ replicate 1022 0xFF"

definition sample_ib :: bytes where
  "sample_ib = [0xFF, 0x07] @ replicate 1022 0xFF"

definition dir_inode :: "nat \<Rightarrow> nat \<Rightarrow> inode" where
  "dir_inode links blk = i_set_block (i_set_blocks (i_set_size (new_inode 0x41ED links 0) 1024) 2) 0 blk"

definition sample_itab :: bytes where
  "sample_itab = blit 128 (dir_inode 3 7) blk0"

definition sample_itab2 :: bytes where
  "sample_itab2 = blit 256 (dir_inode 2 8) blk0"

definition sample_root_entries :: "dent list" where
  "sample_root_entries =
     [\<lparr>t_ino = 2, t_name = [0x2E], t_ft = 0, t_pad = replicate 3 0\<rparr>,
      \<lparr>t_ino = 2, t_name = [0x2E, 0x2E], t_ft = 0, t_pad = replicate 2 0\<rparr>,
      \<lparr>t_ino = 11, t_name = [0x61], t_ft = 0, t_pad = replicate 991 0\<rparr>]"

definition sample_a_entries :: "dent list" where
  "sample_a_entries =
     [\<lparr>t_ino = 11, t_name = [0x2E], t_ft = 0, t_pad = replicate 3 0\<rparr>,
      \<lparr>t_ino = 2, t_name = [0x2E, 0x2E], t_ft = 0, t_pad = replicate 1002 0\<rparr>]"

definition sample_blocks :: "bytes list" where
  "sample_blocks =
     [blk0, sample_sb, sample_gdt, sample_bb, sample_ib, sample_itab, sample_itab2,
      encs sample_root_entries, encs sample_a_entries, blk0]"

definition sample_disk :: ram_disk where
  "sample_disk = \<lparr>rd_data = concat sample_blocks\<rparr>"

definition sample_fs :: "ram_disk ext2" where
  "sample_fs = \<lparr>x_dev = sample_disk, x_bs = 1024, x_spb = 2, x_inodes_count = 16, x_blocks_count = 10,
     x_free_blocks = 1, x_free_inodes = 5, x_first_data_block = 1, x_bpg = 8192, x_ipg = 16,
     x_inode_size = 128, x_first_ino = 11, x_ngroups = 1, x_filetype = False, x_gdt = sample_gdt,
     x_sb = sample_sb, x_dirty = False, x_clock = zero_clock, x_ticks = 0\<rparr>"

lemma length_blk0 [simp]: "length blk0 = 1024"
  by (simp add: blk0_def)

lemma length_new_inode [simp]: "length (new_inode m l t) = 128"
  by (simp add: new_inode_def inode_zeroed_def inode_defs)

lemma length_dir_inode [simp]: "length (dir_inode l b) = 128"
  by (simp add: dir_inode_def inode_defs)

lemma length_sample [simp]:
  "length sample_sb = 1024" "length sample_gdt = 1024" "length sample_bb = 1024" "length sample_ib = 1024"
  "length sample_itab = 1024" "length sample_itab2 = 1024" "length (encs sample_root_entries) = 1024"
  "length (encs sample_a_entries) = 1024"
  by (simp_all add: sample_sb_def sample_gdt_def sample_bb_def sample_ib_def sample_itab_def
       sample_itab2_def sample_root_entries_def sample_a_entries_def rec_of_def)

lemma rd_blk0: "rd32 blk0 off = 0" "rd16 blk0 off = 0"
proof -
  have "le_nat (replicate n 0) = 0" for n
    by (induction n) auto
  then show "rd32 blk0 off = 0" "rd16 blk0 off = 0"
    by (simp_all add: rd32_def rd16_def blk0_def subslice_def)
qed

lemma sample_sb_fields:
  "rd32 sample_sb 0 = 16" "rd32 sample_sb 4 = 10" "rd32 sample_sb 12 = 1" "rd32 sample_sb 16 = 5"
  "rd32 sample_sb 20 = 1" "rd32 sample_sb 24 = 0" "rd32 sample_sb 32 = 8192" "rd32 sample_sb 40 = 16"
  "rd16 sample_sb 56 = 0xEF53" "rd32 sample_sb 76 = 0"
  by (simp_all add: sample_sb_def field_other rd_blk0)

lemma sample_gdt_fields:
  "rd32 sample_gdt 0 = 3" "rd32 sample_gdt 4 = 4" "rd32 sample_gdt 8 = 5"
  "rd16 sample_gdt 12 = 1" "rd16 sample_gdt 14 = 5" "rd16 sample_gdt 16 = 2"
  by (simp_all add: sample_gdt_def field_other)

lemma subslice_concat:
  assumes "\<forall>b\<in>set bs. length b = n" and "i < length bs"
  shows "subslice (i * n) n (concat bs) = bs ! i"
  using assms
proof (induction bs arbitrary: i)
  case (Cons b bs)
  then show ?case
    by (cases i) (auto simp: subslice_def)
qed simp

lemma length_sample_disk [simp]: "length (rd_data sample_disk) = 10240"
  by (simp add: sample_disk_def sample_blocks_def del: encs_simps)

lemma sample_block: "i < 10 \<Longrightarrow> subslice (i * 1024) 1024 (rd_data sample_disk) = sample_blocks ! i"
  unfolding sample_disk_def ram_disk.simps
  by (intro subslice_concat) (auto simp: sample_blocks_def simp del: encs_simps)

lemma sample_read:
  assumes "i < 10"
  shows "op_read_sectors ram_ops (i * 2) 1024 sample_disk = (Ok (sample_blocks ! i), sample_disk)"
proof -
  have "ram_range sample_disk (i * 2) 1024 = Ok (i * 1024, i * 1024 + 1024)"
    using assms by (simp add: ram_range_Ok)
  then show ?thesis
    using sample_block [OF assms] by (simp add: ram_ops_def ram_read_sectors_def bindR_def)
qed

lemma sample_mount: "mount ram_ops sample_disk = (Ok sample_fs, sample_disk)"
proof -
  have "op_read_sectors ram_ops 2 1024 sample_disk = (Ok sample_sb, sample_disk)"
    "op_read_sectors ram_ops 4 1024 sample_disk = (Ok sample_gdt, sample_disk)"
    using sample_read [of 1] sample_read [of 2] by (simp_all add: sample_blocks_def)
  moreover have "is_power_of_two 128"
    by (simp add: is_power_of_two_def)
  moreover have "op_sector_count ram_ops sample_disk = 20"
    by (simp add: ram_ops_def ram_sector_count_def)
  ultimately show ?thesis
    by (simp add: mount_def sample_sb_fields sb_features_def sample_fs_def Let_def)
qed

section \<open>Lookups in the image\<close>

lemma sample_fs_fields [simp]:
  "x_dev sample_fs = sample_disk" "x_bs sample_fs = 1024" "x_spb sample_fs = 2"
  "x_inodes_count sample_fs = 16" "x_blocks_count sample_fs = 10" "x_ipg sample_fs = 16"
  "x_inode_size sample_fs = 128" "x_gdt sample_fs = sample_gdt" "sample_fs\<lparr>x_dev := sample_disk\<rparr> = sample_fs"
  by (simp_all add: sample_fs_def)

lemma sample_read_block: "blk < 10 \<Longrightarrow> read_block ram_ops blk sample_fs = (Ok (sample_blocks ! blk), sample_fs)"
  using sample_read [of blk] by (simp add: read_block_def devR_def)

lemma sample_inode_loc:
  "inode_loc 2 sample_fs = (Ok (5, 128), sample_fs)" "inode_loc 11 sample_fs = (Ok (6, 256), sample_fs)"
  by (simp_all add: inode_loc_def gd_inode_table_def gd_get32_def gd_off_def rd32_at_def sample_gdt_fields
      bindR_def add32_def)

lemma sample_read_inode:
  "read_inode ram_ops 2 sample_fs = (Ok (dir_inode 3 7), sample_fs)"
  "read_inode ram_ops 11 sample_fs = (Ok (dir_inode 2 8), sample_fs)"
  using slice_blit_same [of 128 "dir_inode 3 7" blk0] slice_blit_same [of 256 "dir_inode 2 8" blk0]
  by (simp_all add: read_inode_def bindR_def sample_inode_loc sample_read_block sample_blocks_def
      sample_itab_def sample_itab2_def)

lemma dir_inode_fields:
  "i_is_dir (dir_inode l b)" "i_size (dir_inode l b) = 1024" "b < u32_limit \<Longrightarrow> i_block (dir_inode l b) 0 = b"
  by (simp_all add: dir_inode_def new_inode_def inode_zeroed_def inode_defs i_is_dir_def i_kind_def field_other)

lemma sample_check_dir:
  "check_dir ram_ops 2 sample_fs = (Ok (dir_inode 3 7), sample_fs)"
  "check_dir ram_ops 11 sample_fs = (Ok (dir_inode 2 8), sample_fs)"
  by (simp_all add: check_dir_def bindR_def sample_read_inode dir_inode_fields)

text \<open>A directory of one block.\<close>

lemma one_block_dir_find:
  assumes "read_block ram_ops blk sample_fs = (Ok (encs es), sample_fs)" "all_ok es" "length (encs es) = 1024"
    and "0 < blk" "blk < u32_limit" and "List.find (names_entry nm) es = Some e"
  shows "run_inode (dir_inode l blk) (dir_find ram_ops nm) sample_fs
    = (Ok (Some (t_ino e, unat (t_ft e)), dir_inode l blk), sample_fs)"
  using assms find_in_block_encs [of es "[]" 1024 nm]
  by (simp add: run_inode_def dir_find_def dir_blocks_def bindR_def bmap_def dir_inode_fields get_inode_def
      on_fs_def Let_def)

lemma sample_entries_ok: "all_ok sample_root_entries" "all_ok sample_a_entries"
  by (simp_all add: sample_root_entries_def sample_a_entries_def dent_ok_def rec_of_def)

lemma sample_find:
  "run_inode (dir_inode 3 7) (dir_find ram_ops [0x61]) sample_fs = (Ok (Some (11, 0), dir_inode 3 7), sample_fs)"
  "run_inode (dir_inode 2 8) (dir_find ram_ops [0x2E, 0x2E]) sample_fs = (Ok (Some (2, 0), dir_inode 2 8), sample_fs)"
  using one_block_dir_find [of 7 sample_root_entries "[0x61]" _ 3]
    one_block_dir_find [of 8 sample_a_entries "[0x2E, 0x2E]" _ 2]
  by (simp_all add: sample_read_block sample_blocks_def sample_entries_ok del: encs_simps)
     (simp_all add: sample_root_entries_def sample_a_entries_def names_entry_def)

end
