(* ===== verification/Ext2_Ops.thy ===== *)
theory Ext2_Ops
  imports Ext2_Frame Ext2_Sample
begin

text \<open>
  Requests to a mounted ext2 file system and what holds of every sequence of them: the
  geometry that \<open>mount\<close> checked stays as it was, reading requests leave the disk and the
  driver state unchanged, every request returns, and resolving a path and renaming follow
  only finitely many steps.
\<close>

section \<open>Geometry\<close>

definition geometry_of ::
  "'d ext2 \<Rightarrow> (nat \<times> nat \<times> nat \<times> nat \<times> nat \<times> nat) \<times> (nat \<times> nat \<times> nat \<times> nat \<times> bool \<times> nat)" where
  "geometry_of s = ((x_bs s, x_spb s, x_inodes_count s, x_blocks_count s, x_first_data_block s, x_bpg s),
     (x_ipg s, x_inode_size s, x_first_ino s, x_ngroups s, x_filetype s, length (x_gdt s)))"

definition keeps_geometry :: "'d ext2 \<Rightarrow> bool \<Rightarrow> 'd ext2 \<Rightarrow> bool" where
  "keeps_geometry s h s' \<longleftrightarrow> geometry_of s' = geometry_of s
     \<and> (length (x_sb s) = 1024 \<longrightarrow> length (x_sb s') = 1024)"

text \<open>The geometry a mounted file system has: a supported block size, inodes that do not
  straddle blocks, bitmaps that fit in one block, inode and block counts that match the
  number of groups, and a group descriptor for every group.\<close>

definition mounted :: "'d ext2 \<Rightarrow> bool" where
  "mounted s \<longleftrightarrow> x_bs s \<in> {1024, 2048, 4096} \<and> x_spb s * SECTOR_SIZE = x_bs s
     \<and> 128 \<le> x_inode_size s \<and> x_inode_size s dvd x_bs s
     \<and> 0 < x_bpg s \<and> x_bpg s \<le> x_bs s * 8 \<and> 0 < x_ipg s \<and> x_ipg s \<le> x_bs s * 8
     \<and> x_first_data_block s < x_blocks_count s \<and> 0 < x_ngroups s
     \<and> x_first_data_block s + (x_ngroups s - 1) * x_bpg s < x_blocks_count s
     \<and> x_blocks_count s \<le> x_first_data_block s + x_ngroups s * x_bpg s
     \<and> x_inodes_count s = x_ngroups s * x_ipg s
     \<and> x_ngroups s * 32 \<le> length (x_gdt s) \<and> length (x_sb s) = 1024"

lemma mounted_keeps: "keeps_geometry s h s' \<Longrightarrow> mounted s \<Longrightarrow> mounted s'"
  by (simp add: keeps_geometry_def geometry_of_def mounted_def)

lemma devR_state: "snd (devR m s) = s\<lparr>x_dev := snd (m (x_dev s))\<rparr>"
  by (auto simp: devR_def split: prod.splits res.splits)

interpretation geo: fs_writes D keeps_geometry for D
  by unfold_locales (auto simp: within_def keeps_geometry_def geometry_of_def devR_state wr32_def)

section \<open>Mounting\<close>

lemma mount_ngroups:
  assumes "first < blocks" and "0 < (bpg :: nat)"
  defines "n \<equiv> (blocks - first + bpg - 1) div bpg"
  shows "0 < n" and "first + (n - 1) * bpg < blocks" and "blocks \<le> first + n * bpg"
proof -
  let ?d = "blocks - first"
  have div: "n * bpg \<le> ?d + bpg - 1" "?d + bpg - 1 < n * bpg + bpg"
    unfolding n_def using \<open>0 < bpg\<close> div_mult_mod_eq [of "?d + bpg - 1" bpg] mod_less_divisor [of bpg "?d + bpg - 1"]
    by linarith+
  then show "blocks \<le> first + n * bpg"
    using assms by linarith
  then show "0 < n"
    using assms by (cases "n = 0") auto
  then have "(n - 1) * bpg + bpg = n * bpg"
    by (cases n) auto
  with div assms show "first + (n - 1) * bpg < blocks"
    by linarith
qed

lemma is_power_of_two_power: "is_power_of_two n \<Longrightarrow> \<exists>k. n = 2 ^ k"
proof (induction n rule: less_induct)
  case (less n)
  have rec: "n AND (n - 1) = of_bool (odd n \<and> odd (n - 1)) + 2 * ((n div 2) AND ((n - 1) div 2))"
    by (rule and_rec)
  show ?case
  proof (cases "even n")
    case True
    then obtain m where m: "n = 2 * m" "0 < m"
      using less.prems by (auto simp: is_power_of_two_def elim: evenE)
    moreover have "(n - 1) div 2 = m - 1"
      using m by simp
    ultimately have "is_power_of_two m"
      using less.prems rec by (simp add: is_power_of_two_def)
    then obtain k where "m = 2 ^ k"
      using less.IH [of m] m by auto
    then have "n = 2 ^ Suc k"
      using m by simp
    then show ?thesis ..
  next
    case False
    then obtain m where m: "n = 2 * m + 1" by (auto elim: oddE)
    then have "m = 0"
      using less.prems rec by (simp add: is_power_of_two_def)
    then have "n = 2 ^ 0" using m by simp
    then show ?thesis ..
  qed
qed

lemma power_of_two_dvd:
  assumes "is_power_of_two n" and "n \<le> 2 ^ k"
  shows "n dvd 2 ^ k"
  using assms is_power_of_two_power [of n] by (auto simp: le_imp_power_dvd)

lemma block_size_cases:
  assumes "log \<le> (2 :: nat)"
  defines "bs \<equiv> push_bit log (1024 :: nat)"
  shows "bs \<in> {1024, 2048, 4096}" and "bs div SECTOR_SIZE * SECTOR_SIZE = bs" and "\<exists>k. bs = 2 ^ k"
proof -
  have "log = 0 \<or> log = 1 \<or> log = 2" using assms(1) by auto
  then show "bs \<in> {1024, 2048, 4096}" "bs div SECTOR_SIZE * SECTOR_SIZE = bs"
    by (auto simp: bs_def push_bit_eq_mult)
  have "bs = 2 ^ (10 + log)"
    by (simp add: bs_def push_bit_eq_mult power_add)
  then show "\<exists>k. bs = 2 ^ k" by blast
qed

lemma mount_Ok:
  assumes "mount D dev = (Ok s, d)"
  obtains sb d1 gdt where "op_read_sectors D 2 1024 dev = (Ok sb, d1)" 
    and "op_read_sectors D ((x_first_data_block s + 1) * x_spb s)
           ((x_ngroups s * 32 + x_bs s - 1) div x_bs s * x_bs s) d1 = (Ok gdt, d)"
    and "x_sb s = sb" and "x_gdt s = gdt" and "x_dev s = d"
    and "rd32 sb 24 \<le> 2" and "x_bs s = push_bit (rd32 sb 24) 1024" and "x_spb s = x_bs s div SECTOR_SIZE"
    and "128 \<le> x_inode_size s" and "x_inode_size s \<le> x_bs s" and "is_power_of_two (x_inode_size s)"
    and "0 < x_bpg s" and "x_bpg s \<le> x_bs s * 8" and "0 < x_ipg s" and "x_ipg s \<le> x_bs s * 8"
    and "x_first_data_block s < x_blocks_count s" and "x_blocks_count s * x_spb s \<le> op_sector_count D d1"
    and "x_ngroups s = (x_blocks_count s - x_first_data_block s + x_bpg s - 1) div x_bpg s"
    and "x_inodes_count s = x_ngroups s * x_ipg s"
proof -
  obtain sb d1 where sb: "op_read_sectors D 2 1024 dev = (Ok sb, d1)"
    using assms by (auto simp: mount_def split: prod.splits res.splits)
  show ?thesis
    using assms sb
    by (auto simp: mount_def Let_def not_le not_less split: if_splits res.splits prod.splits intro!: that [of sb d1])
qed

lemma mount_mounted:
  assumes D: "block_device D contents" and m: "mount D dev = (Ok s, d)"
  shows "mounted s"
  using m
proof (rule mount_Ok)
  fix sb d1 gdt
  assume sb: "op_read_sectors D 2 1024 dev = (Ok sb, d1)" "x_sb s = sb"
    and gdt: "op_read_sectors D ((x_first_data_block s + 1) * x_spb s)
           ((x_ngroups s * 32 + x_bs s - 1) div x_bs s * x_bs s) d1 = (Ok gdt, d)" "x_gdt s = gdt"
    and bs: "rd32 sb 24 \<le> 2" "x_bs s = push_bit (rd32 sb 24) 1024" "x_spb s = x_bs s div SECTOR_SIZE"
    and ino: "128 \<le> x_inode_size s" "x_inode_size s \<le> x_bs s" "is_power_of_two (x_inode_size s)"
    and grp: "0 < x_bpg s" "x_bpg s \<le> x_bs s * 8" "0 < x_ipg s" "x_ipg s \<le> x_bs s * 8"
      "x_first_data_block s < x_blocks_count s"
      "x_ngroups s = (x_blocks_count s - x_first_data_block s + x_bpg s - 1) div x_bpg s"
      "x_inodes_count s = x_ngroups s * x_ipg s"
  have "x_inode_size s dvd x_bs s"
    using block_size_cases(3) [OF bs(1)] ino power_of_two_dvd by (auto simp: bs(2))
  moreover have "x_ngroups s * 32 \<le> length gdt"
  proof -
    have "length gdt = (x_ngroups s * 32 + x_bs s - 1) div x_bs s * x_bs s"
      by (rule block_device.read_length [OF D gdt(1)])
    moreover have "0 < x_bs s" using ino by simp
    ultimately show ?thesis
      using mount_ngroups(3) [of 0 "x_ngroups s * 32" "x_bs s"] by (cases "x_ngroups s = 0") auto
  qed
  ultimately show ?thesis
    using block_size_cases(1,2) [OF bs(1)] bs(2,3) ino(1) grp(1-5,7) mount_ngroups [OF grp(5,1), folded grp(6)]
      block_device.read_length [OF D sb(1)] sb(2) gdt(2)
    by (simp add: mounted_def)
qed

section \<open>Requests\<close>

datatype request = RCreate nat bytes nat | RMkdir nat bytes nat | RSymlink nat bytes bytes
  | RReadlink nat | RLink nat bytes nat | RUnlink nat bytes | RRmdir nat bytes
  | RRename nat bytes nat bytes | RChmod nat nat | RChown nat nat nat | RStat nat
  | RLookup nat bytes | RReaddir nat | RRead nat nat nat | RWrite nat nat bytes
  | RTruncate nat nat | RResolve nat bytes bool | RReadToVec nat | RWriteFile nat bytes bytes | RSync

definition voidR :: "('s, 'e, 'a) prog \<Rightarrow> ('s, 'e, unit) prog" where
  "voidR m = bindR m (\<lambda>_. returnR ())"

text \<open>The fuel of the upward walk of \<open>rename\<close>: one step more than there are inodes.\<close>

fun perform :: "'d dev_ops \<Rightarrow> request \<Rightarrow> ('d, unit) fs" where
  "perform D (RCreate dir nm mode) = voidR (fs_create D dir nm mode)"
| "perform D (RMkdir dir nm mode) = voidR (fs_mkdir D dir nm mode)"
| "perform D (RSymlink dir nm target) = voidR (fs_symlink D dir nm target)"
| "perform D (RReadlink ino) = voidR (readlink D ino)"
| "perform D (RLink dir nm target) = fs_link D dir nm target"
| "perform D (RUnlink dir nm) = fs_unlink D dir nm"
| "perform D (RRmdir dir nm) = fs_rmdir D dir nm"
| "perform D (RRename od on nd nn) = (\<lambda>s. fs_rename D (Suc (x_inodes_count s)) od on nd nn s)"
| "perform D (RChmod ino mode) = fs_chmod D ino mode"
| "perform D (RChown ino uid gid) = fs_chown D ino uid gid"
| "perform D (RStat ino) = voidR (fs_stat_of D ino)"
| "perform D (RLookup dir nm) = voidR (lookup D dir nm)"
| "perform D (RReaddir dir) = voidR (readdir D dir)"
| "perform D (RRead ino off len) = voidR (fs_read D ino off len)"
| "perform D (RWrite ino off dat) = voidR (fs_write D ino off dat)"
| "perform D (RTruncate ino sz) = fs_truncate D ino sz"
| "perform D (RResolve cwd path follow) = voidR (fs_resolve D cwd path follow)"
| "perform D (RReadToVec ino) = voidR (read_to_vec D ino)"
| "perform D (RWriteFile cwd path dat) = voidR (write_file D cwd path dat)"
| "perform D RSync = sync D"

fun reading :: "request \<Rightarrow> bool" where
  "reading (RReadlink ino) = True"
| "reading (RStat ino) = True"
| "reading (RLookup dir nm) = True"
| "reading (RReaddir dir) = True"
| "reading (RRead ino off len) = True"
| "reading (RResolve cwd path follow) = True"
| "reading (RReadToVec ino) = True"
| "reading _ = False"

text \<open>A sequence of requests; each starts in the state the one before it left, whether that
  one succeeded or not.\<close>

primrec perform_all :: "'d dev_ops \<Rightarrow> request list \<Rightarrow> 'd ext2 \<Rightarrow> 'd ext2" where
  "perform_all D [] s = s"
| "perform_all D (r # rs) s = perform_all D rs (snd (perform D r s))"

context fs_reads
begin

lemma w_void: "within G s (m s) \<Longrightarrow> within G s (voidR m s)"
  unfolding voidR_def by (intro rules)

lemma w_reading: "reading r \<Longrightarrow> within G s (perform D r s)"
  by (cases r) (auto intro!: w_void w_readlink w_stat w_lookup w_readdir w_read w_resolve w_read_to_vec)

end

context fs_writes
begin

lemmas perform_rules = w_void w_create w_mkdir w_symlink w_link w_unlink w_rmdir w_chmod w_chown
  w_write w_truncate w_write_file w_sync

lemma w_perform: "(\<forall>s. G s True s) \<or> (\<forall>od on nd nn. r \<noteq> RRename od on nd nn) \<Longrightarrow> within G s (perform D r s)"
  using w_reading [of r s] by (cases r) (auto intro!: perform_rules w_rename)

end

text \<open>C15: Mounting establishes the geometry invariant (supported block size, inodes inside blocks,
  bitmaps inside one block, counts that match the groups, a descriptor for each group), and no
  sequence of requests, successful or failing, changes the geometry.\<close>

theorem ext2_geometry_invariant:
  assumes "block_device D contents" and "mount D dev = (Ok s, d)"
  shows "mounted (perform_all D rs s) \<and> geometry_of (perform_all D rs s) = geometry_of s"
proof -
  have "within keeps_geometry t (perform D r t)" for r t
    by (rule geo.w_perform) (simp add: keeps_geometry_def)
  then have step: "keeps_geometry t False (snd (perform D r t))" for r t
    by (simp add: within_def keeps_geometry_def)
  have "mounted t \<Longrightarrow> mounted (perform_all D rs t) \<and> geometry_of (perform_all D rs t) = geometry_of t" for t
  proof (induction rs arbitrary: t)
    case (Cons r rs)
    with step [of t r] mounted_keeps [OF step] show ?case
      by (simp add: keeps_geometry_def)
  qed simp
  with mount_mounted [OF assms] show ?thesis by blast
qed

theorem ext2_geometry_invariant_witness:
  "mount ram_ops sample_disk = (Ok sample_fs, sample_disk)
   \<and> mounted (perform_all ram_ops [RMkdir 2 [0x61] 0x1ED, RRmdir 2 [0x61]] sample_fs)"
  using ext2_geometry_invariant [OF ram.block_device_axioms sample_mount] sample_mount by blast

section \<open>Reading requests change nothing\<close>

definition keeps_all :: "('d \<Rightarrow> bytes) \<Rightarrow> 'd ext2 \<Rightarrow> bool \<Rightarrow> 'd ext2 \<Rightarrow> bool" where
  "keeps_all contents s h s' \<longleftrightarrow> \<not> h \<and> contents (x_dev s') = contents (x_dev s)
     \<and> s'\<lparr>x_dev := x_dev s\<rparr> = s"

lemma keeps_all_trans:
  "keeps_all contents s False t \<Longrightarrow> keeps_all contents t h u \<Longrightarrow> keeps_all contents s h u"
  by (cases s; cases t; cases u) (simp add: keeps_all_def)

lemma ram_keeps_all:
  fixes s t :: "ram_disk ext2"
  assumes "keeps_all rd_data s h t"
  shows "t = s"
proof -
  have "x_dev t = x_dev s"
    using assms by (intro ram_disk.equality) (auto simp: keeps_all_def)
  moreover have "t\<lparr>x_dev := x_dev t\<rparr> = t"
    by (cases t) simp
  ultimately show ?thesis
    using assms unfolding keeps_all_def by metis
qed

context block_device
begin

lemma devR_read_outcome: "fst (devR (op_read_sectors D lba len) s) \<noteq> Hang"
  using read_returns [of lba len "x_dev s"] by (auto simp: devR_def split: prod.splits res.splits)

lemma devR_write_outcome: "fst (devR (op_write_sectors D lba b) s) \<noteq> Hang"
  using write_returns [of lba b "x_dev s"] by (auto simp: devR_def split: prod.splits res.splits)

lemma devR_flush_outcome: "fst (devR (op_flush D) s) \<noteq> Hang"
  using flush_returns [of "x_dev s"] by (auto simp: devR_def split: prod.splits res.splits)

lemma read_state: "contents (snd (op_read_sectors D lba len d)) = contents d"
  by (rule read_keeps [OF prod.collapse [symmetric]])

end

sublocale block_device \<subseteq> keep: fs_reads D "keeps_all contents"
proof (unfold_locales, goal_cases)
  case (2 s t h u)
  then show ?case by (rule keeps_all_trans)
qed (auto simp: within_def keeps_all_def devR_state read_state devR_read_outcome)

definition no_hang :: "'d ext2 \<Rightarrow> bool \<Rightarrow> 'd ext2 \<Rightarrow> bool" where
  "no_hang s h s' \<longleftrightarrow> \<not> h"

sublocale block_device \<subseteq> live: fs_writes D no_hang
  by unfold_locales
     (auto simp: within_def no_hang_def devR_read_outcome devR_write_outcome devR_flush_outcome)

context block_device
begin

lemma reading_keeps: "reading r \<Longrightarrow> within (keeps_all contents) s (perform D r s)"
  by (rule keep.w_reading)

lemma perform_returns: "\<forall>od on nd nn. r \<noteq> RRename od on nd nn \<Longrightarrow> fst (perform D r s) \<noteq> Hang"
  using live.w_perform [of r s] by (simp add: within_def no_hang_def)

end

text \<open>A request that reads (readlink, stat, lookup, readdir, read, resolve, read_to_vec) returns and
  leaves the contents of the device and every field of the driver state as they were, also
  when it fails.\<close>

theorem ext2_reads_change_nothing:
  assumes "block_device D contents" and "reading r"
  shows "fst (perform D r s) \<noteq> Hang
    \<and> contents (x_dev (snd (perform D r s))) = contents (x_dev s)
    \<and> (snd (perform D r s))\<lparr>x_dev := x_dev s\<rparr> = s"
  using block_device.reading_keeps [OF assms, of s] by (simp add: within_def keeps_all_def)

theorem ext2_reads_change_nothing_witness:
  "snd (perform ram_ops (RReaddir 2) sample_fs) = sample_fs"
  using ext2_reads_change_nothing [OF ram.block_device_axioms, of "RReaddir 2" sample_fs]
  by (intro ram_keeps_all [of _ False]) (simp add: keeps_all_def)



section \<open>Renaming directories\<close>

lemma ram_lookup_state: "snd (lookup ram_ops dir nm s) = s"
  using ram.keep.w_lookup [of s dir nm] ram_keeps_all by (simp add: within_def)

text \<open>\<open>p\<close> is the parent entry of the directory \<open>c\<close>, and \<open>goes_up\<close> is one step of the walk.\<close>

definition parent_of :: "ram_disk ext2 \<Rightarrow> nat \<Rightarrow> nat \<Rightarrow> bool" where
  "parent_of s c p \<longleftrightarrow> c \<noteq> ROOT_INO \<and> fst (lookup ram_ops c [0x2E, 0x2E] s) = Ok p"

definition goes_up :: "ram_disk ext2 \<Rightarrow> nat \<Rightarrow> nat \<Rightarrow> nat \<Rightarrow> bool" where
  "goes_up s sino c p \<longleftrightarrow> c \<noteq> sino \<and> parent_of s c p \<and> p \<noteq> c"

lemma goes_up_functional: "goes_up s sino c p \<Longrightarrow> goes_up s sino c q \<Longrightarrow> p = q"
  by (simp add: goes_up_def parent_of_def)

lemma lookup_valid:
  assumes "fst (lookup D c nm s) = Ok p"
  shows "c \<in> {1..x_inodes_count s}"
proof -
  obtain t where "lookup D c nm s = (Ok p, t)"
    using assms by (cases "lookup D c nm s") auto
  then obtain i u where "inode_loc c s = (Ok i, u)"
    by (auto simp: lookup_def check_dir_def read_inode_def bindR_eq_Ok split: if_splits)
  then show ?thesis
    by (auto simp: inode_loc_def split: if_splits)
qed

lemma goes_up_domain: "goes_up s sino c p \<Longrightarrow> c \<in> {1..x_inodes_count s}"
  by (auto simp: goes_up_def parent_of_def dest!: lookup_valid)

lemma ancestor_step:
  "goes_up s sino c p \<Longrightarrow> ancestor_loop ram_ops sino (Suc fuel) c s = ancestor_loop ram_ops sino fuel p s"
  using ram_lookup_state [of c "[0x2E, 0x2E]" s]
  by (cases "lookup ram_ops c [0x2E, 0x2E] s") (auto simp: goes_up_def parent_of_def bindR_def)

lemma ancestor_stop:
  "(\<And>p. \<not> goes_up s sino c p) \<Longrightarrow> fst (ancestor_loop ram_ops sino (Suc fuel) c s) \<noteq> Hang
     \<and> ancestor_loop ram_ops sino (Suc fuel) c s = ancestor_loop ram_ops sino (Suc fuel') c s"
  using ram_lookup_state [of c "[0x2E, 0x2E]" s] 
    ram.keep.w_lookup [of s c "[0x2E, 0x2E]"]
  by (cases "lookup ram_ops c [0x2E, 0x2E] s")
     (auto simp: goes_up_def parent_of_def bindR_def within_def keeps_all_def split: res.splits prod.splits)

lemma ancestor_path:
  "(goes_up s sino ^^ n) c p
    \<Longrightarrow> ancestor_loop ram_ops sino (n + fuel) c s = ancestor_loop ram_ops sino fuel p s"
proof (induction n arbitrary: c)
  case (Suc n)
  then obtain q where "goes_up s sino c q" "(goes_up s sino ^^ n) q p"
    by (metis relpowp_Suc_E2)
  with Suc.IH [of q] show ?case
    using ancestor_step [of s sino c q "n + fuel"] by simp
qed simp

text \<open>The walk stops within as many steps as there are inodes, or never.\<close>

lemma goes_up_short:
  assumes "(goes_up s sino ^^ n) c p" and "\<And>q. \<not> goes_up s sino p q"
  shows "n \<le> x_inodes_count s"
proof (rule ccontr)
  assume "\<not> n \<le> x_inodes_count s"
  then have card: "card {1..x_inodes_count s} < n" by simp
  have "\<exists>z. (goes_up s sino ^^ Suc n) c z"
    by (rule functional_path_endless [OF finite_atLeastAtMost _ _ assms(1) card])
       (erule goes_up_domain, erule (1) goes_up_functional)
  then obtain z where "(goes_up s sino ^^ Suc n) c z" by blast
  then obtain w where "(goes_up s sino ^^ n) c w" "goes_up s sino w z"
    by (metis relpowp_Suc_E)
  moreover have "w = p"
    by (rule functional_relpowp [OF _ calculation(1) assms(1)]) (erule (1) goes_up_functional)
  ultimately show False
    using assms(2) by blast
qed

lemma goes_up_endless:
  assumes "\<And>n p. (goes_up s sino ^^ n) c p \<Longrightarrow> \<exists>q. goes_up s sino p q"
  shows "\<exists>p. (goes_up s sino ^^ n) c p"
proof (induction n)
  case (Suc n)
  then show ?case using assms by (metis relpowp_Suc_I)
qed auto

lemma ancestor_fuel:
  assumes "x_inodes_count s < fuel"
  shows "ancestor_loop ram_ops sino fuel c s = ancestor_loop ram_ops sino (Suc (x_inodes_count s)) c s"
proof (cases "\<exists>n p. (goes_up s sino ^^ n) c p \<and> (\<forall>q. \<not> goes_up s sino p q)")
  case True
  then obtain n p where np: "(goes_up s sino ^^ n) c p" "\<And>q. \<not> goes_up s sino p q" by blast
  have "n \<le> x_inodes_count s" using goes_up_short [OF np] .
  then obtain k k' where k: "fuel = n + Suc k" "Suc (x_inodes_count s) = n + Suc k'"
    using assms by (metis add_Suc_right le_Suc_ex less_iff_Suc_add le_trans less_imp_le_nat add.assoc)
  show ?thesis
    unfolding k using ancestor_path [OF np(1)] ancestor_stop [OF np(2)] by metis
next
  case False
  have hang: "ancestor_loop ram_ops sino f c s = (Hang, s)" for f
  proof -
    obtain p where "(goes_up s sino ^^ f) c p"
      using goes_up_endless [of s sino c f] False by blast
    from ancestor_path [OF this, of 0] show ?thesis by simp
  qed
  show ?thesis by (simp only: hang)
qed

lemma below_goes_up:
  assumes "(parent_of s)\<^sup>*\<^sup>* c sino"
  shows "(goes_up s sino)\<^sup>*\<^sup>* c sino"
  using assms
proof (induction rule: converse_rtranclp_induct)
  case (step c p)
  then show ?case
    by (cases "c = sino \<or> p = c") (auto simp: goes_up_def intro: converse_rtranclp_into_rtranclp)
qed simp

lemma ancestor_refuses:
  assumes "(parent_of s)\<^sup>*\<^sup>* c sino" and "x_inodes_count s < fuel"
  shows "ancestor_loop ram_ops sino fuel c s = (Err Invalid, s)"
proof -
  obtain n where n: "(goes_up s sino ^^ n) c sino"
    using below_goes_up [OF assms(1)] by (auto simp: rtranclp_power)
  have "\<not> goes_up s sino sino q" for q by (simp add: goes_up_def)
  then have "n \<le> x_inodes_count s" using goes_up_short [OF n] by blast
  then obtain k where "fuel = n + Suc k"
    using assms(2) by (metis add_Suc_right le_Suc_ex less_iff_Suc_add le_trans less_imp_le_nat add.assoc)
  then show ?thesis
    using ancestor_path [OF n, of "Suc k"] by simp
qed

lemma ram_reads_state:
  "check_dir ram_ops d s = (r, t) \<Longrightarrow> t = s" "must_find ram_ops i nm s = (r', t) \<Longrightarrow> t = s"
  "read_inode ram_ops d s = (r'', t) \<Longrightarrow> t = s"
  using ram.keep.w_check_dir [of s d] ram.keep.w_must_find [of s i nm] ram.keep.w_read_inode [of s d]
  by (auto simp: within_def dest!: ram_keeps_all)

text \<open>The upward walk of \<open>rename\<close> needs no more fuel than there are inodes and one: with any larger
  amount \<open>rename\<close> does exactly the same, so it runs out of fuel only where the loop of the
  code runs forever (on a disk whose parent entries form a cycle).\<close>

theorem rename_fuel_sufficient:
  assumes "x_inodes_count s < fuel"
  shows "fs_rename ram_ops fuel od on nd nn s = perform ram_ops (RRename od on nd nn) s"
proof -
  have "(if c then ancestor_loop ram_ops sino fuel nd else returnR ()) s
      = (if c then ancestor_loop ram_ops sino (Suc (x_inodes_count s)) nd else returnR ()) s" for c sino
    using ancestor_fuel [OF assms] by simp
  then show ?thesis
    unfolding perform.simps fs_rename_def liftR_def
    by (intro bindR_cong [OF refl] if_app_cong refl)
       (auto dest!: ram_reads_state(1) ram_reads_state(2) intro!: bindR_cong dest: ram_reads_state(3))
qed

theorem rename_fuel_sufficient_witness:
  "fs_rename ram_ops 100 2 [0x61] 11 [0x62] sample_fs = perform ram_ops (RRename 2 [0x61] 11 [0x62]) sample_fs"
  by (rule rename_fuel_sufficient) simp



end
