(* ===== verification/Fs_Front.thy ===== *)
theory Fs_Front
  imports Ext2_Ops
begin

text \<open>
  The kernel's file system (\<^verbatim>\<open>src/fs.rs\<close>): a wrapper over ext2 that works with paths and mounts the
  first drive with a file system when it is first used. The drives found by the ATA driver are an
  argument, as is the device interface. Names and paths are their bytes.
\<close>

section \<open>The file system\<close>

record 'd file_system =
  inner :: "'d ext2 option"

type_synonym ('d, 'a) ff = "('d file_system, fs_error, 'a) prog"

datatype fs_entry = EFile bytes | EDir bytes

definition file_system_new :: "'d file_system" where
  "file_system_new = \<lparr>inner = None\<rparr>"

text \<open>The loop of \<open>fs\<close> over the drives.\<close>

primrec mount_first :: "'d dev_ops \<Rightarrow> 'd list \<Rightarrow> fs_error \<Rightarrow> ('d, unit) ff" where
  "mount_first D [] last_error = throwR last_error"
| "mount_first D (drive # rest) last_error = (\<lambda>s.
     case fst (mount D drive) of
       Ok x \<Rightarrow> (Ok (), s\<lparr>inner := Some x\<rparr>)
     | Err e \<Rightarrow> mount_first D rest e s
     | Panic \<Rightarrow> (Panic, s)
     | Hang \<Rightarrow> (Hang, s))"

definition fs_ready :: "'d dev_ops \<Rightarrow> 'd list \<Rightarrow> ('d, unit) ff" where
  "fs_ready D drives = (\<lambda>s.
     if inner s = None then
       (if drives = [] then (Err NotFound, s) else mount_first D drives NotFound s)
     else (Ok (), s))"

text \<open>An operation on the mounted file system that \<open>fs\<close> returns.\<close>

definition on_inner :: "('d, 'a) fs \<Rightarrow> ('d, 'a) ff" where
  "on_inner m = (\<lambda>s. case inner s of
     Some x \<Rightarrow> (case m x of (r, x') \<Rightarrow> (r, s\<lparr>inner := Some x'\<rparr>))
   | None \<Rightarrow> (Err NotFound, s))"

definition with_fs :: "'d dev_ops \<Rightarrow> 'd list \<Rightarrow> ('d, 'a) fs \<Rightarrow> ('d, 'a) ff" where
  "with_fs D drives m = bindR (fs_ready D drives) (\<lambda>_. on_inner m)"

definition ff_mount :: "'d dev_ops \<Rightarrow> 'd list \<Rightarrow> ('d, unit) ff" where
  "ff_mount D drives = fs_ready D drives"

definition ff_sync :: "'d dev_ops \<Rightarrow> 'd list \<Rightarrow> ('d, unit) ff" where
  "ff_sync D drives = with_fs D drives (sync D)"

definition at_path :: "'d dev_ops \<Rightarrow> bytes \<Rightarrow> bool \<Rightarrow> (nat \<Rightarrow> ('d, 'a) fs) \<Rightarrow> ('d, 'a) fs" where
  "at_path D path follow m = bindR (fs_resolve D ROOT_INO path follow) m"

definition at_parent :: "'d dev_ops \<Rightarrow> bytes \<Rightarrow> (nat \<Rightarrow> bytes \<Rightarrow> ('d, 'a) fs) \<Rightarrow> ('d, 'a) fs" where
  "at_parent D path m = bindR (resolve_parent D ROOT_INO path) (\<lambda>(dir, nm). m dir nm)"

definition ff_read :: "'d dev_ops \<Rightarrow> 'd list \<Rightarrow> bytes \<Rightarrow> ('d, bytes) ff" where
  "ff_read D drives path = with_fs D drives (at_path D path True (read_to_vec D))"

definition ff_write :: "'d dev_ops \<Rightarrow> 'd list \<Rightarrow> bytes \<Rightarrow> bytes \<Rightarrow> ('d, unit) ff" where
  "ff_write D drives path dat =
     with_fs D drives (bindR (write_file D ROOT_INO path dat) (\<lambda>_. returnR ()))"

definition ff_readdir :: "'d dev_ops \<Rightarrow> 'd list \<Rightarrow> bytes \<Rightarrow> ('d, dir_entry list) ff" where
  "ff_readdir D drives path = with_fs D drives (at_path D path True (readdir D))"

definition to_entry :: "dir_entry \<Rightarrow> fs_entry" where
  "to_entry e = (if de_file_type e = Directory then EDir (utf8_lossy (de_name e)) else EFile (utf8_lossy (de_name e)))"

definition ff_list_entries :: "'d dev_ops \<Rightarrow> 'd list \<Rightarrow> bytes \<Rightarrow> ('d, fs_entry list) ff" where
  "ff_list_entries D drives path =
     bindR (with_fs D drives (at_path D path True (readdir D))) (\<lambda>entries.
     returnR (map to_entry (filter (\<lambda>e. \<not> dot_name (utf8_lossy (de_name e))) entries)))"

definition ff_list :: "'d dev_ops \<Rightarrow> 'd list \<Rightarrow> bytes \<Rightarrow> ('d, bytes list) ff" where
  "ff_list D drives path =
     bindR (ff_list_entries D drives path) (\<lambda>entries.
     returnR (map (\<lambda>e. case e of EDir nm \<Rightarrow> nm @ [0x2F] | EFile nm \<Rightarrow> nm) entries))"

definition ff_remove :: "'d dev_ops \<Rightarrow> 'd list \<Rightarrow> bytes \<Rightarrow> ('d, unit) ff" where
  "ff_remove D drives path = with_fs D drives (at_parent D path (fs_unlink D))"

definition ff_mkdir :: "'d dev_ops \<Rightarrow> 'd list \<Rightarrow> bytes \<Rightarrow> ('d, unit) ff" where
  "ff_mkdir D drives path =
     with_fs D drives (at_parent D path (\<lambda>dir nm. bindR (fs_mkdir D dir nm 0x1ED) (\<lambda>_. returnR ())))"

definition touch_in :: "'d dev_ops \<Rightarrow> nat \<Rightarrow> bytes \<Rightarrow> ('d, unit) fs" where
  "touch_in D dir nm = (\<lambda>x. case lookup D dir nm x of
     (Ok ino, x1) \<Rightarrow>
       bindR (fs_stat_of D ino) (\<lambda>st. if st_file_type st = Directory then throwR IsDir else returnR ()) x1
   | (Err e, x1) \<Rightarrow>
       if e = NotFound then bindR (fs_create D dir nm 0x1A4) (\<lambda>_. returnR ()) x1 else (Err e, x1)
   | (Panic, x1) \<Rightarrow> (Panic, x1)
   | (Hang, x1) \<Rightarrow> (Hang, x1))"

definition ff_touch :: "'d dev_ops \<Rightarrow> 'd list \<Rightarrow> bytes \<Rightarrow> ('d, unit) ff" where
  "ff_touch D drives path = with_fs D drives (at_parent D path (touch_in D))"

definition ff_rmdir :: "'d dev_ops \<Rightarrow> 'd list \<Rightarrow> bytes \<Rightarrow> ('d, unit) ff" where
  "ff_rmdir D drives path = with_fs D drives (at_parent D path (fs_rmdir D))"

text \<open>The walk of \<open>rename\<close> takes the fuel that is enough for it.\<close>

definition ff_rename :: "'d dev_ops \<Rightarrow> 'd list \<Rightarrow> bytes \<Rightarrow> bytes \<Rightarrow> ('d, unit) ff" where
  "ff_rename D drives old new =
     with_fs D drives (at_parent D old (\<lambda>old_dir old_name. at_parent D new (\<lambda>new_dir new_name x.
       fs_rename D (Suc (x_inodes_count x)) old_dir old_name new_dir new_name x)))"

definition ff_read_file :: "'d dev_ops \<Rightarrow> 'd list \<Rightarrow> bytes \<Rightarrow> ('d, bytes) ff" where
  "ff_read_file D drives path = ff_read D drives path"

definition ff_read_at :: "'d dev_ops \<Rightarrow> 'd list \<Rightarrow> bytes \<Rightarrow> nat \<Rightarrow> nat \<Rightarrow> ('d, bytes) ff" where
  "ff_read_at D drives path off len = with_fs D drives (at_path D path True (\<lambda>ino. fs_read D ino off len))"

definition ff_write_at :: "'d dev_ops \<Rightarrow> 'd list \<Rightarrow> bytes \<Rightarrow> nat \<Rightarrow> bytes \<Rightarrow> ('d, nat) ff" where
  "ff_write_at D drives path off dat = with_fs D drives (at_path D path True (\<lambda>ino. fs_write D ino off dat))"

definition ff_readlink :: "'d dev_ops \<Rightarrow> 'd list \<Rightarrow> bytes \<Rightarrow> ('d, bytes) ff" where
  "ff_readlink D drives path = with_fs D drives (at_path D path False (readlink D))"

definition ff_write_file :: "'d dev_ops \<Rightarrow> 'd list \<Rightarrow> bytes \<Rightarrow> bytes \<Rightarrow> ('d, unit) ff" where
  "ff_write_file D drives path dat = ff_write D drives path dat"

definition ff_stat :: "'d dev_ops \<Rightarrow> 'd list \<Rightarrow> bytes \<Rightarrow> ('d, fs_stat) ff" where
  "ff_stat D drives path = with_fs D drives (at_path D path True (fs_stat_of D))"

section \<open>Requests\<close>

datatype ff_request = FMount | FSync | FRead bytes | FWrite bytes bytes | FList bytes | FRemove bytes
  | FMkdir bytes | FTouch bytes | FRmdir bytes | FRename bytes bytes | FReadAt bytes nat nat
  | FWriteAt bytes nat bytes | FReaddir bytes | FReadlink bytes | FStat bytes

fun ff_perform :: "'d dev_ops \<Rightarrow> 'd list \<Rightarrow> ff_request \<Rightarrow> ('d, unit) ff" where
  "ff_perform D drives FMount = ff_mount D drives"
| "ff_perform D drives FSync = ff_sync D drives"
| "ff_perform D drives (FRead path) = voidR (ff_read D drives path)"
| "ff_perform D drives (FWrite path dat) = ff_write D drives path dat"
| "ff_perform D drives (FList path) = voidR (ff_list D drives path)"
| "ff_perform D drives (FRemove path) = ff_remove D drives path"
| "ff_perform D drives (FMkdir path) = ff_mkdir D drives path"
| "ff_perform D drives (FTouch path) = ff_touch D drives path"
| "ff_perform D drives (FRmdir path) = ff_rmdir D drives path"
| "ff_perform D drives (FRename old new) = ff_rename D drives old new"
| "ff_perform D drives (FReadAt path off len) = voidR (ff_read_at D drives path off len)"
| "ff_perform D drives (FWriteAt path off dat) = voidR (ff_write_at D drives path off dat)"
| "ff_perform D drives (FReaddir path) = voidR (ff_readdir D drives path)"
| "ff_perform D drives (FReadlink path) = voidR (ff_readlink D drives path)"
| "ff_perform D drives (FStat path) = voidR (ff_stat D drives path)"

primrec ff_perform_all :: "'d dev_ops \<Rightarrow> 'd list \<Rightarrow> ff_request list \<Rightarrow> 'd file_system \<Rightarrow> 'd file_system" where
  "ff_perform_all D drives [] s = s"
| "ff_perform_all D drives (r # rs) s = ff_perform_all D drives rs (snd (ff_perform D drives r s))"

text \<open>The ext2 part of a request: what it does once a drive is mounted.\<close>

fun inner_part :: "'d dev_ops \<Rightarrow> ff_request \<Rightarrow> ('d, unit) fs" where
  "inner_part D FMount = returnR ()"
| "inner_part D FSync = sync D"
| "inner_part D (FRead path) = voidR (at_path D path True (read_to_vec D))"
| "inner_part D (FWrite path dat) = voidR (write_file D ROOT_INO path dat)"
| "inner_part D (FList path) = voidR (at_path D path True (readdir D))"
| "inner_part D (FRemove path) = at_parent D path (fs_unlink D)"
| "inner_part D (FMkdir path) = at_parent D path (\<lambda>dir nm. voidR (fs_mkdir D dir nm 0x1ED))"
| "inner_part D (FTouch path) = at_parent D path (touch_in D)"
| "inner_part D (FRmdir path) = at_parent D path (fs_rmdir D)"
| "inner_part D (FRename old new) = at_parent D old (\<lambda>od on. at_parent D new (\<lambda>nd nn. perform D (RRename od on nd nn)))"
| "inner_part D (FReadAt path off len) = voidR (at_path D path True (\<lambda>ino. fs_read D ino off len))"
| "inner_part D (FWriteAt path off dat) = voidR (at_path D path True (\<lambda>ino. fs_write D ino off dat))"
| "inner_part D (FReaddir path) = voidR (at_path D path True (readdir D))"
| "inner_part D (FReadlink path) = voidR (at_path D path False (readlink D))"
| "inner_part D (FStat path) = voidR (at_path D path True (fs_stat_of D))"

lemma void_inner: "voidR (with_fs D drives m) = with_fs D drives (voidR m)"
  by (rule ext) (auto simp: voidR_def with_fs_def bindR_def on_inner_def split: prod.splits res.splits option.splits)

lemma void_list: "voidR (ff_list D drives path) = voidR (ff_readdir D drives path)"
  by (rule ext)
     (auto simp: voidR_def ff_list_def ff_list_entries_def ff_readdir_def bindR_def split: prod.splits res.splits)

lemma mount_inner: "fs_ready D drives = with_fs D drives (returnR ())"
proof (rule ext)
  fix s :: "'a file_system"
  have "mount_first D ds e t = (Ok (), u) \<Longrightarrow> \<exists>x. inner u = Some x" for ds e t u
    by (induction ds arbitrary: e) (auto split: res.splits)
  then show "fs_ready D drives s = with_fs D drives (returnR ()) s"
    by (cases s) (fastforce simp: with_fs_def bindR_def fs_ready_def on_inner_def split: prod.splits res.splits option.splits)
qed

lemma ff_perform_inner: "ff_perform D drives r = with_fs D drives (inner_part D r)"
  by (cases r)
     (simp_all add: ff_mount_def mount_inner ff_sync_def ff_read_def ff_write_def void_list ff_readdir_def ff_remove_def
       ff_mkdir_def ff_touch_def ff_rmdir_def ff_rename_def ff_read_at_def ff_write_at_def ff_readlink_def ff_stat_def
       void_inner voidR_def [symmetric])

context fs_reads
begin

lemma w_at_path: "(\<And>ino t. within G t (m ino t)) \<Longrightarrow> within G s (at_path D path follow m s)"
  unfolding at_path_def by (intro rules w_resolve)

lemma w_at_parent: "(\<And>dir nm t. within G t (m dir nm t)) \<Longrightarrow> within G s (at_parent D path m s)"
  unfolding at_parent_def by (intro rules w_resolve_parent)

end

context fs_writes
begin

lemma w_touch_in: "within G s (touch_in D dir nm s)"
proof -
  have "within G s (lookup D dir nm s)" by (rule w_lookup)
  moreover have "within G t (bindR (fs_stat_of D ino) (\<lambda>st. if st_file_type st = Directory then throwR IsDir else returnR ()) t)"
    for ino t by (intro rules w_stat)
  moreover have "within G t (bindR (fs_create D dir nm 0x1A4) (\<lambda>_. returnR ()) t)" for t by (intro rules w_create)
  ultimately show ?thesis
    by (auto simp: touch_in_def split: prod.split res.split intro: fs.w_seq) (simp_all add: within_def)
qed

lemma w_inner_part:
  "(\<forall>s. G s True s) \<or> (\<forall>old new. r \<noteq> FRename old new) \<Longrightarrow> within G s (inner_part D r s)"
  by (cases r)
     (auto simp del: perform.simps intro!: fs.w_done w_at_path w_at_parent w_void w_sync w_read_to_vec w_write_file w_readdir
       w_unlink w_mkdir w_touch_in w_rmdir w_perform w_read w_write w_readlink w_stat)

end

section \<open>One file system, mounted once\<close>

definition front_ok :: "'d file_system \<Rightarrow> bool" where
  "front_ok s \<longleftrightarrow> (\<forall>x. inner s = Some x \<longrightarrow> mounted x)"

lemma inner_part_geometry: "keeps_geometry x False (snd (inner_part D r x))"
  using geo.w_inner_part [of r x D] by (simp add: within_def keeps_geometry_def)

lemma mount_first_mounted:
  assumes "block_device D contents" and "mount_first D drives e s = (r, s')" and "inner s = None"
  shows "(\<forall>x. inner s' = Some x \<longrightarrow> mounted x) \<and> (r = Ok () \<longleftrightarrow> inner s' \<noteq> None)"
  using assms(2)
proof (induction drives arbitrary: e)
  case (Cons drive rest)
  obtain q d where m: "mount D drive = (q, d)" by (cases "mount D drive")
  show ?case
  proof (cases q)
    case (Ok x)
    then show ?thesis using mount_mounted [OF assms(1), of drive x d] m Cons.prems by auto
  next
    case (Err e)
    then show ?thesis using Cons m by simp
  qed (use Cons.prems m assms(3) in auto)
qed (use assms(3) in auto)

lemma with_fs_mounted:
  assumes D: "block_device D contents" and s: "front_ok s"
  shows "front_ok (snd (ff_perform D drives r s))"
    and "inner s = Some x \<Longrightarrow> \<exists>x'. inner (snd (ff_perform D drives r s)) = Some x' \<and> geometry_of x' = geometry_of x"
proof -
  have run: "front_ok t \<Longrightarrow> front_ok (snd (on_inner (inner_part D r) t))" for t
    using mounted_keeps [OF inner_part_geometry, of _ D r]
    by (cases "inner t") (auto simp: front_ok_def on_inner_def case_prod_beta)
  show "front_ok (snd (ff_perform D drives r s))"
  proof (cases "inner s")
    case (Some y)
    then show ?thesis using run [OF s] by (simp add: ff_perform_inner with_fs_def bindR_def fs_ready_def)
  next
    case None
    obtain q t where m: "mount_first D drives NotFound s = (q, t)" by (cases "mount_first D drives NotFound s")
    have "front_ok t" using mount_first_mounted [OF D m None] by (simp add: front_ok_def)
    with run [of t] m None s show ?thesis
      by (auto simp: ff_perform_inner with_fs_def bindR_def fs_ready_def split: res.splits)
  qed
  show "\<exists>x'. inner (snd (ff_perform D drives r s)) = Some x' \<and> geometry_of x' = geometry_of x" if "inner s = Some x"
    using that inner_part_geometry [of x D r]
    by (auto simp: ff_perform_inner with_fs_def bindR_def fs_ready_def on_inner_def keeps_geometry_def split: prod.splits)
qed

lemma ff_perform_drives: "inner s = Some x \<Longrightarrow> ff_perform D drives r s = ff_perform D drives' r s"
  by (simp add: ff_perform_inner with_fs_def bindR_def fs_ready_def)

text \<open>The file system is mounted by the first operation that finds one, on a device that keeps the
  block contract; from then on it stays mounted with the same geometry, whatever the operations
  do, and the drives are never looked at again.\<close>

theorem file_system_mounted_once:
  assumes "block_device D contents"
  shows "front_ok (ff_perform_all D drives rs file_system_new)
    \<and> (inner (ff_perform_all D drives rs file_system_new) = Some x \<longrightarrow>
        (\<exists>x'. inner (ff_perform_all D drives (rs @ rs') file_system_new) = Some x' \<and> mounted x' \<and> geometry_of x' = geometry_of x)
        \<and> ff_perform_all D drives (rs @ rs') file_system_new
          = ff_perform_all D drives' rs' (ff_perform_all D drives rs file_system_new))"
proof -
  have ok: "front_ok t \<Longrightarrow> front_ok (ff_perform_all D drives qs t)" for qs t
    by (induction qs arbitrary: t) (simp_all add: with_fs_mounted(1) [OF assms])
  have stays: "front_ok t \<Longrightarrow> inner t = Some y \<Longrightarrow> (\<exists>x'. inner (ff_perform_all D drives qs t) = Some x' \<and> geometry_of x' = geometry_of y)
      \<and> ff_perform_all D drives qs t = ff_perform_all D drives' qs t" for qs t y
  proof (induction qs arbitrary: t y)
    case (Cons q qs)
    obtain y' where y': "inner (snd (ff_perform D drives q t)) = Some y'" "geometry_of y' = geometry_of y"
      using with_fs_mounted(2) [OF assms Cons.prems] by blast
    with Cons.IH [OF with_fs_mounted(1) [OF assms Cons.prems(1)] y'(1)] ff_perform_drives [OF Cons.prems(2), of D drives q drives']
    show ?case by auto
  qed simp
  have app: "ff_perform_all D drives (as @ bs) t = ff_perform_all D drives bs (ff_perform_all D drives as t)" for as bs t
    by (induction as arbitrary: t) simp_all
  have "front_ok file_system_new" by (simp add: front_ok_def file_system_new_def)
  then have "front_ok (ff_perform_all D drives rs file_system_new)" by (rule ok)
  with stays [OF this] ok [OF this, of rs'] show ?thesis
    unfolding app by (metis front_ok_def)
qed

theorem file_system_mounted_once_witness:
  "\<exists>x. inner (ff_perform_all ram_ops [sample_disk] [FMount] file_system_new) = Some x
     \<and> (\<exists>x'. inner (ff_perform_all ram_ops [sample_disk] ([FMount] @ [FTouch [0x61]]) file_system_new) = Some x' \<and> mounted x')"
proof -
  have "inner (ff_perform_all ram_ops [sample_disk] [FMount] file_system_new) = Some sample_fs"
    by (simp add: ff_mount_def fs_ready_def file_system_new_def sample_mount)
  with file_system_mounted_once [OF ram.block_device_axioms, of "[sample_disk]" "[FMount]" sample_fs "[FTouch [0x61]]" "[]"]
  show ?thesis by blast
qed

end
