(* ===== verification/Fb.thy ===== *)
theory Fb
  imports Prelude
begin

text \<open>
  The framebuffer (\<^verbatim>\<open>src/fb.rs\<close>) and glyph drawing (\<^verbatim>\<open>src/font.rs\<close>). The backbuffer and the
  hardware framebuffer are memories addressed by pixel and by byte; raw pointer writes are
  updates of them, so that writing outside the screen is visible as a change there. The
  dirty rectangle is kept as in the code. \<open>expect\<close> on a missing framebuffer and shifts by 32
  or more are \<open>Panic\<close>. What the boot loader reports is an argument of \<open>fb_init\<close>.
\<close>

abbreviation (input) MAX_WIDTH :: nat where "MAX_WIDTH \<equiv> 1920"
abbreviation (input) MAX_HEIGHT :: nat where "MAX_HEIGHT \<equiv> 1080"
abbreviation (input) BYTES_PER_PIXEL :: nat where "BYTES_PER_PIXEL \<equiv> 4"

record color =
  c_r :: u8
  c_g :: u8
  c_b :: u8

definition BLACK :: color where "BLACK = \<lparr>c_r = 0, c_g = 0, c_b = 0\<rparr>"
definition WHITE :: color where "WHITE = \<lparr>c_r = 255, c_g = 255, c_b = 255\<rparr>"
definition RED :: color where "RED = \<lparr>c_r = 255, c_g = 0, c_b = 0\<rparr>"
definition GREEN :: color where "GREEN = \<lparr>c_r = 0, c_g = 255, c_b = 0\<rparr>"
definition BLUE :: color where "BLUE = \<lparr>c_r = 0, c_g = 0, c_b = 255\<rparr>"

definition from_name :: "string \<Rightarrow> color option" where
  "from_name nm =
     (if nm = ''black'' then Some BLACK
      else if nm = ''red'' then Some RED
      else if nm = ''green'' then Some GREEN
      else if nm = ''white'' then Some WHITE
      else if nm = ''blue'' then Some BLUE
      else None)"

record info =
  fi_width :: nat
  fi_height :: nat
  fi_pitch :: nat
  fi_red :: nat
  fi_green :: nat
  fi_blue :: nat

text \<open>The static variables of the module, and the memory behind the framebuffer address.\<close>

record fb =
  fb_info :: "info option"
  fb_back :: "nat \<Rightarrow> u32"
  fb_front :: "nat \<Rightarrow> u8"
  fb_dirty :: bool
  fb_min_x :: nat
  fb_min_y :: nat
  fb_max_x :: nat
  fb_max_y :: nat

type_synonym 'a fbp = "(fb, unit, 'a) prog"

text \<open>What the boot loader says of a framebuffer.\<close>

record fb_desc =
  ds_width :: nat
  ds_height :: nat
  ds_pitch :: nat
  ds_bpp :: nat
  ds_red :: nat
  ds_green :: nat
  ds_blue :: nat

definition usize_add :: "nat \<Rightarrow> nat \<Rightarrow> ('s, 'e, nat) prog" where
  "usize_add a b = (if a + b < u64_limit then returnR (a + b) else panicR)"

definition sat_add :: "nat \<Rightarrow> nat \<Rightarrow> nat" where
  "sat_add a b = min (a + b) (u64_limit - 1)"

section \<open>Drawing\<close>

definition fb_get_info :: "info fbp" where
  "fb_get_info = (\<lambda>s. case fb_info s of Some i \<Rightarrow> (Ok i, s) | None \<Rightarrow> (Panic, s))"

definition mark_dirty :: "nat \<Rightarrow> nat \<Rightarrow> nat \<Rightarrow> nat \<Rightarrow> unit fbp" where
  "mark_dirty x y width height =
     bindR fb_get_info (\<lambda>i.
     if width = 0 \<or> height = 0 then returnR ()
     else if x \<ge> fi_width i \<or> y \<ge> fi_height i then returnR ()
     else
       let max_x = min (sat_add x width) (fi_width i);
           max_y = min (sat_add y height) (fi_height i) in
       if max_x \<le> x \<or> max_y \<le> y then returnR ()
       else modifyR (\<lambda>s.
         if \<not> fb_dirty s then
           s\<lparr>fb_dirty := True, fb_min_x := x, fb_min_y := y, fb_max_x := max_x, fb_max_y := max_y\<rparr>
         else
           s\<lparr>fb_min_x := min (fb_min_x s) x, fb_min_y := min (fb_min_y s) y,
             fb_max_x := max (fb_max_x s) max_x, fb_max_y := max (fb_max_y s) max_y\<rparr>))"

definition color_to_u32 :: "color \<Rightarrow> u32 fbp" where
  "color_to_u32 c =
     bindR fb_get_info (\<lambda>i.
     if fi_red i \<ge> 32 \<or> fi_green i \<ge> 32 \<or> fi_blue i \<ge> 32 then panicR
     else returnR (push_bit (fi_red i) (ucast (c_r c)) OR push_bit (fi_green i) (ucast (c_g c))
                   OR push_bit (fi_blue i) (ucast (c_b c))))"

text \<open>Writing \<open>n\<close> pixels from index \<open>p\<close>, and \<open>ptr::copy\<close> of \<open>n\<close> pixels.\<close>

definition fill_at :: "nat \<Rightarrow> nat \<Rightarrow> u32 \<Rightarrow> (nat \<Rightarrow> u32) \<Rightarrow> nat \<Rightarrow> u32" where
  "fill_at p n v back = (\<lambda>k. if p \<le> k \<and> k < p + n then v else back k)"

definition copy_at :: "nat \<Rightarrow> nat \<Rightarrow> nat \<Rightarrow> (nat \<Rightarrow> u32) \<Rightarrow> nat \<Rightarrow> u32" where
  "copy_at src dst n back = (\<lambda>k. if dst \<le> k \<and> k < dst + n then back (src + (k - dst)) else back k)"

definition put_pixel :: "nat \<Rightarrow> nat \<Rightarrow> color \<Rightarrow> unit fbp" where
  "put_pixel x y c =
     bindR fb_get_info (\<lambda>i.
     if x \<ge> fi_width i \<or> y \<ge> fi_height i then returnR ()
     else
       bindR (color_to_u32 c) (\<lambda>pixel.
       bindR (modifyR (\<lambda>s. s\<lparr>fb_back := fill_at (y * fi_width i + x) 1 pixel (fb_back s)\<rparr>)) (\<lambda>_.
       mark_dirty x y 1 1)))"

definition fb_clear :: "color \<Rightarrow> unit fbp" where
  "fb_clear c =
     bindR fb_get_info (\<lambda>i.
     bindR (color_to_u32 c) (\<lambda>pixel.
     bindR (modifyR (\<lambda>s. s\<lparr>fb_back := fill_at 0 (fi_width i * fi_height i) pixel (fb_back s)\<rparr>)) (\<lambda>_.
     mark_dirty 0 0 (fi_width i) (fi_height i))))"

text \<open>The loop of \<open>draw_rect\<close> over the rows.\<close>

definition fill_rows :: "nat \<Rightarrow> nat \<Rightarrow> nat \<Rightarrow> u32 \<Rightarrow> nat list \<Rightarrow> (nat \<Rightarrow> u32) \<Rightarrow> nat \<Rightarrow> u32" where
  "fill_rows w x n v rows back = fold (\<lambda>py b. fill_at (py * w + x) n v b) rows back"

definition draw_rect :: "nat \<Rightarrow> nat \<Rightarrow> nat \<Rightarrow> nat \<Rightarrow> color \<Rightarrow> unit fbp" where
  "draw_rect x y width height c =
     bindR fb_get_info (\<lambda>i.
     if width = 0 \<or> height = 0 then returnR ()
     else if x \<ge> fi_width i \<or> y \<ge> fi_height i then returnR ()
     else
       let end_x = min (sat_add x width) (fi_width i);
           end_y = min (sat_add y height) (fi_height i) in
       if end_x \<le> x \<or> end_y \<le> y then returnR ()
       else
         bindR (color_to_u32 c) (\<lambda>pixel.
         bindR (modifyR (\<lambda>s. s\<lparr>fb_back := fill_rows (fi_width i) x (end_x - x) pixel [y..<end_y] (fb_back s)\<rparr>)) (\<lambda>_.
         mark_dirty x y (end_x - x) (end_y - y))))"

text \<open>The loop of \<open>copy_rect\<close>; it runs from the last row when it moves downward.\<close>

definition copy_rows ::
  "nat \<Rightarrow> nat \<Rightarrow> nat \<Rightarrow> nat \<Rightarrow> nat \<Rightarrow> nat \<Rightarrow> nat list \<Rightarrow> (nat \<Rightarrow> u32) \<Rightarrow> nat \<Rightarrow> u32" where
  "copy_rows w src_x src_y dst_x dst_y n rows back =
     fold (\<lambda>row b. copy_at ((src_y + row) * w + src_x) ((dst_y + row) * w + dst_x) n b) rows back"

definition copy_rect :: "nat \<Rightarrow> nat \<Rightarrow> nat \<Rightarrow> nat \<Rightarrow> nat \<Rightarrow> nat \<Rightarrow> unit fbp" where
  "copy_rect src_x src_y dst_x dst_y width height =
     bindR fb_get_info (\<lambda>i.
     if width = 0 \<or> height = 0 then returnR ()
     else if src_x \<ge> fi_width i \<or> src_y \<ge> fi_height i \<or> dst_x \<ge> fi_width i \<or> dst_y \<ge> fi_height i then returnR ()
     else
       let width = min (min width (fi_width i - src_x)) (fi_width i - dst_x);
           height = min (min height (fi_height i - src_y)) (fi_height i - dst_y) in
       if width = 0 \<or> height = 0 then returnR ()
       else
         bindR (modifyR (\<lambda>s. s\<lparr>fb_back := copy_rows (fi_width i) src_x src_y dst_x dst_y width
                  (if dst_y > src_y then rev [0..<height] else [0..<height]) (fb_back s)\<rparr>)) (\<lambda>_.
         mark_dirty dst_x dst_y width height))"

definition scroll_up :: "nat \<Rightarrow> color \<Rightarrow> unit fbp" where
  "scroll_up pixels c =
     bindR fb_get_info (\<lambda>i.
     if pixels = 0 then returnR ()
     else if pixels \<ge> fi_height i then fb_clear c
     else
       bindR (copy_rect 0 pixels 0 0 (fi_width i) (fi_height i - pixels)) (\<lambda>_.
       draw_rect 0 (fi_height i - pixels) (fi_width i) pixels c))"

definition scroll_down :: "nat \<Rightarrow> color \<Rightarrow> unit fbp" where
  "scroll_down pixels c =
     bindR fb_get_info (\<lambda>i.
     if pixels = 0 then returnR ()
     else if pixels \<ge> fi_height i then fb_clear c
     else
       bindR (copy_rect 0 0 0 pixels (fi_width i) (fi_height i - pixels)) (\<lambda>_.
       draw_rect 0 0 (fi_width i) pixels c))"

section \<open>Presenting\<close>

text \<open>The bytes of the backbuffer, as \<open>present\<close> reads it through a byte pointer.\<close>

definition pixel_byte :: "u32 \<Rightarrow> nat \<Rightarrow> u8" where
  "pixel_byte p k = ucast (drop_bit (8 * k) p)"

definition back_byte :: "(nat \<Rightarrow> u32) \<Rightarrow> nat \<Rightarrow> u8" where
  "back_byte back a = pixel_byte (back (a div 4)) (a mod 4)"

definition copy_front :: "(nat \<Rightarrow> u32) \<Rightarrow> nat \<Rightarrow> nat \<Rightarrow> nat \<Rightarrow> (nat \<Rightarrow> u8) \<Rightarrow> nat \<Rightarrow> u8" where
  "copy_front back src dst n front =
     (\<lambda>a. if dst \<le> a \<and> a < dst + n then back_byte back (src + (a - dst)) else front a)"

definition present :: "unit fbp" where
  "present =
     bindR fb_get_info (\<lambda>i s.
     if \<not> fb_dirty s then (Ok (), s)
     else
       let min_x = fb_min_x s; min_y = fb_min_y s; max_x = fb_max_x s; max_y = fb_max_y s;
           s = s\<lparr>fb_dirty := False\<rparr> in
       if min_x \<ge> max_x \<or> min_y \<ge> max_y then (Ok (), s)
       else
         let row_size = (max_x - min_x) * BYTES_PER_PIXEL in
         (Ok (), s\<lparr>fb_front := fold (\<lambda>y. copy_front (fb_back s)
            (y * fi_width i * BYTES_PER_PIXEL + min_x * BYTES_PER_PIXEL)
            (y * fi_pitch i + min_x * BYTES_PER_PIXEL) row_size) [min_y..<max_y] (fb_front s)\<rparr>))"

definition present_full :: "unit fbp" where
  "present_full =
     bindR fb_get_info (\<lambda>i.
     bindR (mark_dirty 0 0 (fi_width i) (fi_height i)) (\<lambda>_. present))"

definition fb_width :: "nat fbp" where "fb_width = bindR fb_get_info (\<lambda>i. returnR (fi_width i))"
definition fb_height :: "nat fbp" where "fb_height = bindR fb_get_info (\<lambda>i. returnR (fi_height i))"
definition fb_pitch :: "nat fbp" where "fb_pitch = bindR fb_get_info (\<lambda>i. returnR (fi_pitch i))"

definition fb_init :: "fb_desc list option \<Rightarrow> unit fbp" where
  "fb_init response =
     (case response of
        None \<Rightarrow> panicR
      | Some [] \<Rightarrow> panicR
      | Some (d # _) \<Rightarrow>
          if ds_bpp d \<noteq> 32 then panicR
          else if ds_width d = 0 \<or> ds_height d = 0 then panicR
          else if ds_width d > MAX_WIDTH then panicR
          else if ds_height d > MAX_HEIGHT then panicR
          else
            bindR (modifyR (\<lambda>s. s\<lparr>fb_info := Some \<lparr>fi_width = ds_width d, fi_height = ds_height d,
                fi_pitch = ds_pitch d, fi_red = ds_red d, fi_green = ds_green d, fi_blue = ds_blue d\<rparr>,
                fb_dirty := False, fb_min_x := 0, fb_min_y := 0, fb_max_x := 0, fb_max_y := 0\<rparr>)) (\<lambda>_.
            bindR (fb_clear BLACK) (\<lambda>_.
            present)))"

section \<open>Glyphs\<close>

text \<open>A font: its file and the fields of the PSF2 header.\<close>

record font =
  ft_data :: bytes
  ft_header_size :: nat
  ft_glyph_count :: nat
  ft_glyph_size :: nat

definition font_read_u32 :: "bytes \<Rightarrow> nat \<Rightarrow> (unit, nat) res" where
  "font_read_u32 dat off = (if off + 4 \<le> length dat then Ok (le_nat (subslice off 4 dat)) else Panic)"

definition font_new :: "bytes \<Rightarrow> (unit, font) res" where
  "font_new dat =
     (if length dat < 32 then Panic
      else if take 4 dat \<noteq> [0x72, 0xb5, 0x4a, 0x86] then Panic
      else
        bind_res (font_read_u32 dat 4) (\<lambda>version.
        if version \<noteq> 0 then Panic
        else
          bind_res (font_read_u32 dat 8) (\<lambda>header_size.
          bind_res (font_read_u32 dat 16) (\<lambda>glyph_count.
          bind_res (font_read_u32 dat 20) (\<lambda>glyph_size.
          bind_res (font_read_u32 dat 28) (\<lambda>width.
          bind_res (font_read_u32 dat 24) (\<lambda>height.
          if width \<noteq> 16 then Panic
          else if height \<noteq> 32 then Panic
          else Ok \<lparr>ft_data = dat, ft_header_size = header_size, ft_glyph_count = glyph_count,
                   ft_glyph_size = glyph_size\<rparr>)))))))"

definition glyph :: "font \<Rightarrow> nat \<Rightarrow> (unit, bytes) res" where
  "glyph f index =
     (if index \<ge> ft_glyph_count f then Ok []
      else
        let offset = ft_header_size f + index * ft_glyph_size f in
        if offset + ft_glyph_size f \<le> length (ft_data f)
        then Ok (subslice offset (ft_glyph_size f) (ft_data f)) else Panic)"

text \<open>Whether the pixel of a glyph drawn at \<open>(col, row)\<close> is set: every second pixel of the font.\<close>

definition glyph_bit :: "bytes \<Rightarrow> nat \<Rightarrow> nat \<Rightarrow> (unit, bool) res" where
  "glyph_bit g row col =
     (let k = (row * 2) * 2 + (col * 2) div 8 in
      if k < length g then Ok (g ! k AND push_bit (7 - (col * 2) mod 8) 1 \<noteq> 0) else Panic)"

primrec draw_cells :: "bytes \<Rightarrow> nat \<Rightarrow> nat \<Rightarrow> color \<Rightarrow> (nat \<times> nat) list \<Rightarrow> unit fbp" where
  "draw_cells g x y c [] = returnR ()"
| "draw_cells g x y c (rc # rest) =
     bindR (liftR (glyph_bit g (fst rc) (snd rc))) (\<lambda>on.
     bindR (if on then
              bindR (usize_add x (snd rc)) (\<lambda>px.
              bindR (usize_add y (fst rc)) (\<lambda>py.
              put_pixel px py c))
            else returnR ()) (\<lambda>_.
     draw_cells g x y c rest))"

definition draw_char :: "font \<Rightarrow> nat \<Rightarrow> nat \<Rightarrow> u8 \<Rightarrow> color \<Rightarrow> unit fbp" where
  "draw_char f x y character c =
     bindR (liftR (glyph f (unat character))) (\<lambda>g.
     if g = [] then returnR ()
     else draw_cells g x y c (List.product [0..<16] [0..<8]))"

primrec draw_text_from :: "font \<Rightarrow> nat \<Rightarrow> bytes \<Rightarrow> color \<Rightarrow> nat \<Rightarrow> nat \<Rightarrow> unit fbp" where
  "draw_text_from f x [] c cursor_x cursor_y = returnR ()"
| "draw_text_from f x (ch # rest) c cursor_x cursor_y =
     (if ch = 0x0A then bindR (usize_add cursor_y 16) (\<lambda>cy. draw_text_from f x rest c x cy)
      else if ch = 0x0D then draw_text_from f x rest c x cursor_y
      else if ch = 0x09 then bindR (usize_add cursor_x (8 * 4)) (\<lambda>cx. draw_text_from f x rest c cx cursor_y)
      else if 0x20 \<le> ch \<and> ch \<le> 0x7E then
        bindR (draw_char f cursor_x cursor_y ch c) (\<lambda>_.
        bindR (usize_add cursor_x 8) (\<lambda>cx. draw_text_from f x rest c cx cursor_y))
      else draw_text_from f x rest c cursor_x cursor_y)"

definition draw_text :: "font \<Rightarrow> nat \<Rightarrow> nat \<Rightarrow> bytes \<Rightarrow> color \<Rightarrow> unit fbp" where
  "draw_text f x y txt c = draw_text_from f x txt c x y"

end
