(* ===== verification/Console.thy ===== *)
theory Console
  imports Fb
begin

text \<open>
  The text console (\<^verbatim>\<open>src/console.rs\<close>): a ring buffer of character cells with scrollback, the
  cursor, the viewport, output, rendering into the framebuffer, the keyboard line editor and the
  global console with its serial mirror. The state \<open>terminal\<close> has the console, the framebuffer and
  the static variables of the module. The shell is an argument of the operation that runs it;
  formatted output takes the formatted text.
\<close>

abbreviation (input) CHAR_WIDTH :: nat where "CHAR_WIDTH \<equiv> 8"
abbreviation (input) CHAR_HEIGHT :: nat where "CHAR_HEIGHT \<equiv> 16"
abbreviation (input) INPUT_SIZE :: nat where "INPUT_SIZE \<equiv> 256"
abbreviation (input) MAX_COLUMNS :: nat where "MAX_COLUMNS \<equiv> 240"
abbreviation (input) MAX_ROWS :: nat where "MAX_ROWS \<equiv> 67"
abbreviation (input) SCROLLBACK_ROWS :: nat where "SCROLLBACK_ROWS \<equiv> 402"

record cell =
  ce_char :: u8
  ce_fg :: color
  ce_bg :: color

definition EMPTY :: cell where
  "EMPTY = \<lparr>ce_char = 0x20, ce_fg = WHITE, ce_bg = BLACK\<rparr>"

text \<open>\<open>con_cells\<close> is the memory of the static array \<open>CELLS\<close>, addressed by cell.\<close>

record console =
  con_font :: font
  con_cursor_x :: nat
  con_cursor_line :: nat
  con_view_top :: nat
  con_columns :: nat
  con_rows :: nat
  con_fg :: color
  con_bg :: color
  con_cells :: "nat \<Rightarrow> cell"
  con_input :: bytes
  con_input_len :: nat
  con_line_ready :: bool

record terminal =
  tm_con :: console
  tm_fb :: fb
  tm_init :: bool
  tm_mirror :: bool
  tm_serial :: bytes

type_synonym 'a tp = "(terminal, unit, 'a) prog"

definition on_fb :: "'a fbp \<Rightarrow> 'a tp" where
  "on_fb m = (\<lambda>s. case m (tm_fb s) of (r, f) \<Rightarrow> (r, s\<lparr>tm_fb := f\<rparr>))"

definition get_con :: "(console \<Rightarrow> 'a) \<Rightarrow> 'a tp" where
  "get_con f = getsR (\<lambda>s. f (tm_con s))"

definition upd_con :: "(console \<Rightarrow> console) \<Rightarrow> unit tp" where
  "upd_con f = modifyR (\<lambda>s. s\<lparr>tm_con := f (tm_con s)\<rparr>)"

section \<open>Construction and cells\<close>

definition console_new :: "font \<Rightarrow> nat \<Rightarrow> nat \<Rightarrow> console" where
  "console_new f width height = \<lparr>con_font = f, con_cursor_x = 0, con_cursor_line = 0, con_view_top = 0,
     con_columns = min (width div CHAR_WIDTH) MAX_COLUMNS, con_rows = min (height div CHAR_HEIGHT) MAX_ROWS,
     con_fg = WHITE, con_bg = BLACK, con_cells = (\<lambda>_. EMPTY),
     con_input = replicate INPUT_SIZE 0, con_input_len = 0, con_line_ready = False\<rparr>"

definition cell_index :: "nat \<Rightarrow> nat \<Rightarrow> nat" where
  "cell_index line column = line mod SCROLLBACK_ROWS * MAX_COLUMNS + column"

definition get_cell :: "console \<Rightarrow> nat \<Rightarrow> nat \<Rightarrow> cell" where
  "get_cell c line column = con_cells c (cell_index line column)"

definition set_cell :: "nat \<Rightarrow> nat \<Rightarrow> cell \<Rightarrow> console \<Rightarrow> console" where
  "set_cell line column ce c = c\<lparr>con_cells := (con_cells c)(cell_index line column := ce)\<rparr>"

definition clear_line :: "nat \<Rightarrow> console \<Rightarrow> console" where
  "clear_line line c = c\<lparr>con_cells := (\<lambda>k.
     if cell_index line 0 \<le> k \<and> k < cell_index line 0 + MAX_COLUMNS then EMPTY else con_cells c k)\<rparr>"

definition con_clear :: "unit tp" where
  "con_clear =
     bindR (upd_con (\<lambda>c. c\<lparr>con_cells := (\<lambda>k. if k < MAX_COLUMNS * SCROLLBACK_ROWS then EMPTY else con_cells c k),
       con_cursor_x := 0, con_cursor_line := 0, con_view_top := 0, con_input_len := 0, con_line_ready := False\<rparr>)) (\<lambda>_.
     bindR (get_con con_bg) (\<lambda>bg.
     on_fb (fb_clear bg)))"

definition set_foreground :: "color \<Rightarrow> unit tp" where
  "set_foreground col = upd_con (\<lambda>c. c\<lparr>con_fg := col\<rparr>)"

definition set_background :: "color \<Rightarrow> unit tp" where
  "set_background col = upd_con (\<lambda>c. c\<lparr>con_bg := col\<rparr>)"

definition get_background :: "color tp" where "get_background = get_con con_bg"
definition get_foreground :: "color tp" where "get_foreground = get_con con_fg"

section \<open>The viewport\<close>

definition live_view_top :: "console \<Rightarrow> nat" where
  "live_view_top c = con_cursor_line c - (con_rows c - 1)"

definition oldest_valid_line :: "console \<Rightarrow> nat" where
  "oldest_valid_line c = con_cursor_line c - (SCROLLBACK_ROWS - 1)"

definition is_scrolled :: "console \<Rightarrow> bool" where
  "is_scrolled c \<longleftrightarrow> con_view_top c \<noteq> live_view_top c"

definition cursor_row :: "console \<Rightarrow> nat" where
  "cursor_row c = con_cursor_line c - con_view_top c"

text \<open>Painting one cell at a position of the screen; the body shared by \<open>render_cell\<close> and
  \<open>render_row\<close>.\<close>

definition paint_cell :: "font \<Rightarrow> cell \<Rightarrow> nat \<Rightarrow> nat \<Rightarrow> unit fbp" where
  "paint_cell f ce x y =
     bindR (draw_rect x y CHAR_WIDTH CHAR_HEIGHT (ce_bg ce)) (\<lambda>_.
     if ce_char ce \<noteq> 0x20 then draw_char f x y (ce_char ce) (ce_fg ce) else returnR ())"

definition render_cell :: "nat \<Rightarrow> nat \<Rightarrow> unit tp" where
  "render_cell row column =
     bindR (get_con id) (\<lambda>c.
     if row \<ge> con_rows c \<or> column \<ge> con_columns c then returnR ()
     else
       bindR (usize_add (con_view_top c) row) (\<lambda>line.
       on_fb (paint_cell (con_font c) (get_cell c line column) (column * CHAR_WIDTH) (row * CHAR_HEIGHT))))"

primrec render_columns :: "console \<Rightarrow> nat \<Rightarrow> nat \<Rightarrow> nat list \<Rightarrow> unit fbp" where
  "render_columns c line y [] = returnR ()"
| "render_columns c line y (column # rest) =
     bindR (paint_cell (con_font c) (get_cell c line column) (column * CHAR_WIDTH) y) (\<lambda>_.
     render_columns c line y rest)"

definition render_row :: "nat \<Rightarrow> unit tp" where
  "render_row row =
     bindR (get_con id) (\<lambda>c.
     if row \<ge> con_rows c then returnR ()
     else
       bindR (usize_add (con_view_top c) row) (\<lambda>line.
       on_fb (render_columns c line (row * CHAR_HEIGHT) [0..<con_columns c])))"

primrec render_rows :: "nat list \<Rightarrow> unit tp" where
  "render_rows [] = returnR ()"
| "render_rows (row # rest) = bindR (render_row row) (\<lambda>_. render_rows rest)"

definition render :: "unit tp" where
  "render = bindR (get_con con_rows) (\<lambda>rows. render_rows [0..<rows])"

definition follow_bottom :: "unit tp" where
  "follow_bottom =
     bindR (get_con id) (\<lambda>c.
     if \<not> is_scrolled c then returnR ()
     else
       bindR (upd_con (\<lambda>c. c\<lparr>con_view_top := live_view_top c\<rparr>)) (\<lambda>_. render))"

definition con_scroll_up :: "nat \<Rightarrow> unit tp" where
  "con_scroll_up lines =
     bindR (get_con id) (\<lambda>c.
     if lines = 0 \<or> con_rows c = 0 then returnR ()
     else
       let live_top = live_view_top c; oldest = oldest_valid_line c;
           current_offset = live_top - con_view_top c; max_offset = live_top - oldest;
           new_offset = min (sat_add current_offset lines) max_offset;
           actual_lines = new_offset - current_offset in
       if actual_lines = 0 then returnR ()
       else
         let visible_lines = min actual_lines (con_rows c) in
         bindR (upd_con (\<lambda>c. c\<lparr>con_view_top := live_top - new_offset\<rparr>)) (\<lambda>_.
         bindR (on_fb (scroll_down (visible_lines * CHAR_HEIGHT) (con_bg c))) (\<lambda>_.
         render_rows [0..<visible_lines])))"

definition con_scroll_down :: "nat \<Rightarrow> unit tp" where
  "con_scroll_down lines =
     bindR (get_con id) (\<lambda>c.
     if lines = 0 \<or> con_rows c = 0 then returnR ()
     else
       let live_top = live_view_top c; old_view = con_view_top c;
           new_view = min (sat_add old_view lines) live_top;
           actual_lines = new_view - old_view in
       if actual_lines = 0 then returnR ()
       else
         let visible_lines = min actual_lines (con_rows c) in
         bindR (upd_con (\<lambda>c. c\<lparr>con_view_top := new_view\<rparr>)) (\<lambda>_.
         bindR (on_fb (scroll_up (visible_lines * CHAR_HEIGHT) (con_bg c))) (\<lambda>_.
         render_rows [con_rows c - visible_lines..<con_rows c])))"

section \<open>Output\<close>

definition newline :: "unit tp" where
  "newline =
     bindR (upd_con (\<lambda>c. c\<lparr>con_cursor_x := 0\<rparr>)) (\<lambda>_.
     bindR (get_con id) (\<lambda>c.
     if con_rows c = 0 then returnR ()
     else
       bindR (usize_add (con_cursor_line c) 1) (\<lambda>next_line.
       if next_line < con_rows c then upd_con (\<lambda>c. c\<lparr>con_cursor_line := next_line\<rparr>)
       else
         bindR (on_fb (scroll_up CHAR_HEIGHT (con_bg c))) (\<lambda>_.
         bindR (upd_con (\<lambda>c. c\<lparr>con_cursor_line := next_line\<rparr>)) (\<lambda>_.
         bindR (upd_con (\<lambda>c. c\<lparr>con_view_top := live_view_top c\<rparr>)) (\<lambda>_.
         bindR (upd_con (clear_line next_line)) (\<lambda>_.
         render_row (con_rows c - 1))))))))"

definition write_cell :: "u8 \<Rightarrow> unit tp" where
  "write_cell character =
     bindR (get_con id) (\<lambda>c.
     if con_columns c = 0 \<or> con_rows c = 0 then returnR ()
     else
       bindR (if con_cursor_x c \<ge> con_columns c then newline else returnR ()) (\<lambda>_.
       bindR (get_con id) (\<lambda>c.
       let line = con_cursor_line c; column = con_cursor_x c in
       bindR (upd_con (set_cell line column \<lparr>ce_char = character, ce_fg = con_fg c, ce_bg = con_bg c\<rparr>)) (\<lambda>_.
       bindR (render_cell (line - con_view_top c) column) (\<lambda>_.
       bindR (upd_con (\<lambda>c. c\<lparr>con_cursor_x := con_cursor_x c + 1\<rparr>)) (\<lambda>_.
       bindR (get_con id) (\<lambda>c.
       if con_cursor_x c \<ge> con_columns c then newline else returnR ())))))))"

definition backspace :: "unit tp" where
  "backspace =
     bindR (get_con id) (\<lambda>c.
     if con_cursor_x c = 0 \<and> con_cursor_line c = 0 then returnR ()
     else
       bindR (if con_cursor_x c = 0 then
                bindR (upd_con (\<lambda>c. c\<lparr>con_cursor_line := con_cursor_line c - 1\<rparr>)) (\<lambda>_.
                bindR (upd_con (\<lambda>c. c\<lparr>con_view_top := live_view_top c\<rparr>)) (\<lambda>_.
                upd_con (\<lambda>c. c\<lparr>con_cursor_x := con_columns c - 1\<rparr>)))
              else upd_con (\<lambda>c. c\<lparr>con_cursor_x := con_cursor_x c - 1\<rparr>)) (\<lambda>_.
       bindR (upd_con (\<lambda>c. set_cell (con_cursor_line c) (con_cursor_x c) EMPTY c)) (\<lambda>_.
       bindR (get_con id) (\<lambda>c.
       render_cell (cursor_row c) (con_cursor_x c)))))"

definition put_char :: "u8 \<Rightarrow> unit tp" where
  "put_char character =
     bindR follow_bottom (\<lambda>_.
     if character = 0x0A then newline
     else if character = 0x0D then upd_con (\<lambda>c. c\<lparr>con_cursor_x := 0\<rparr>)
     else if character = 0x09 then
       bindR (get_con id) (\<lambda>c.
       let next_tab = (con_cursor_x c div 4 + 1) * 4 in
       if next_tab \<ge> con_columns c then newline
       else upd_con (\<lambda>c. c\<lparr>con_cursor_x := next_tab\<rparr>))
     else if character = 8 then backspace
     else if 0x20 \<le> character \<and> character \<le> 0x7E then write_cell character
     else returnR ())"

primrec write_str :: "bytes \<Rightarrow> unit tp" where
  "write_str [] = returnR ()"
| "write_str (b # bs) = bindR (put_char b) (\<lambda>_. write_str bs)"

section \<open>Keyboard\<close>

text \<open>A key is the code point of a Rust \<open>char\<close>.\<close>

definition con_receive_key :: "nat \<Rightarrow> unit tp" where
  "con_receive_key key =
     (if key = 0x0A \<or> key = 0x0D then
        bindR (put_char 0x0A) (\<lambda>_. upd_con (\<lambda>c. c\<lparr>con_line_ready := True\<rparr>))
      else if key = 0x08 \<or> key = 0x7F then
        bindR (get_con id) (\<lambda>c.
        if con_input_len c > 0 \<and> con_cursor_x c > 2 then
          bindR (upd_con (\<lambda>c. c\<lparr>con_input_len := con_input_len c - 1\<rparr>)) (\<lambda>_. put_char 8)
        else returnR ())
      else if 0x20 \<le> key \<and> key < 0x7F then
        bindR (get_con id) (\<lambda>c.
        if con_input_len c < INPUT_SIZE then
          bindR (upd_con (\<lambda>c. c\<lparr>con_input := (con_input c)[con_input_len c := of_nat key],
                              con_input_len := con_input_len c + 1\<rparr>)) (\<lambda>_.
          put_char (of_nat key))
        else returnR ())
      else returnR ())"

text \<open>\<open>read_line\<close> into a buffer of \<open>size\<close> bytes: the bytes copied to its front.\<close>

definition con_read_line :: "nat \<Rightarrow> bytes option tp" where
  "con_read_line buf_size =
     bindR (get_con id) (\<lambda>c.
     if \<not> con_line_ready c then returnR None
     else
       let n = min (con_input_len c) buf_size in
       if n > length (con_input c) then panicR
       else
         bindR (upd_con (\<lambda>c. c\<lparr>con_input_len := 0, con_line_ready := False\<rparr>)) (\<lambda>_.
         returnR (Some (take n (con_input c)))))"

section \<open>The global console\<close>

definition with_console :: "'a tp \<Rightarrow> 'a tp" where
  "with_console f = (\<lambda>s. if \<not> tm_init s then (Panic, s) else f s)"

definition prompt :: "unit tp" where
  "prompt = bindR (put_char 0x24) (\<lambda>_. put_char 0x20)"

definition console_init :: "font \<Rightarrow> unit tp" where
  "console_init f =
     bindR (on_fb fb_width) (\<lambda>width.
     bindR (on_fb fb_height) (\<lambda>height.
     bindR (modifyR (\<lambda>s. s\<lparr>tm_con := console_new f width height, tm_init := True\<rparr>)) (\<lambda>_.
     bindR (with_console con_clear) (\<lambda>_.
     bindR (with_console prompt) (\<lambda>_.
     on_fb present)))))"

definition write_fmt :: "bytes \<Rightarrow> unit tp" where
  "write_fmt txt = bindR (with_console (write_str txt)) (\<lambda>_. on_fb present)"

definition write_fmt_color :: "color \<Rightarrow> bytes \<Rightarrow> unit tp" where
  "write_fmt_color col txt =
     bindR (with_console (
       bindR (get_con con_fg) (\<lambda>old_color.
       bindR (set_foreground col) (\<lambda>_.
       bindR (write_str txt) (\<lambda>_.
       set_foreground old_color))))) (\<lambda>_.
     on_fb present)"

definition console_scroll_up :: "nat \<Rightarrow> unit tp" where
  "console_scroll_up lines = bindR (with_console (con_scroll_up lines)) (\<lambda>_. on_fb present)"

definition console_scroll_down :: "nat \<Rightarrow> unit tp" where
  "console_scroll_down lines = bindR (with_console (con_scroll_down lines)) (\<lambda>_. on_fb present)"

text \<open>\<open>execute\<close> is the shell.\<close>

definition console_receive_key :: "(bytes \<Rightarrow> unit tp) \<Rightarrow> nat \<Rightarrow> unit tp" where
  "console_receive_key execute key =
     (if key = 0x0A \<or> key = 0x0D then
        bindR (with_console (bindR (con_receive_key key) (\<lambda>_. con_read_line INPUT_SIZE))) (\<lambda>line.
        bindR (case line of
                 Some command \<Rightarrow>
                   bindR (if utf8_valid command then execute command else returnR ()) (\<lambda>_.
                   with_console prompt)
               | None \<Rightarrow> returnR ()) (\<lambda>_.
        on_fb present))
      else
        bindR (with_console (con_receive_key key)) (\<lambda>_. on_fb present))"

definition console_read_line :: "nat \<Rightarrow> bytes option tp" where
  "console_read_line buf_size = with_console (con_read_line buf_size)"

definition console_clear :: "unit tp" where
  "console_clear = bindR (with_console con_clear) (\<lambda>_. on_fb present)"

definition set_serial_mirror :: "bool \<Rightarrow> unit tp" where
  "set_serial_mirror enabled = modifyR (\<lambda>s. s\<lparr>tm_mirror := enabled\<rparr>)"

definition serial_mirror_enabled :: "bool tp" where
  "serial_mirror_enabled = getsR tm_mirror"

definition write_fmt_mirrored :: "bytes \<Rightarrow> unit tp" where
  "write_fmt_mirrored txt =
     bindR (write_fmt txt) (\<lambda>_.
     bindR serial_mirror_enabled (\<lambda>on.
     if on then modifyR (\<lambda>s. s\<lparr>tm_serial := tm_serial s @ txt\<rparr>) else returnR ()))"

definition write_fmt_color_mirrored :: "color \<Rightarrow> bytes \<Rightarrow> unit tp" where
  "write_fmt_color_mirrored col txt =
     bindR (write_fmt_color col txt) (\<lambda>_.
     bindR serial_mirror_enabled (\<lambda>on.
     if on then modifyR (\<lambda>s. s\<lparr>tm_serial := tm_serial s @ txt\<rparr>) else returnR ()))"

section \<open>Printing macros\<close>

definition mirror :: "bytes \<Rightarrow> unit tp" where
  "mirror txt =
     bindR serial_mirror_enabled (\<lambda>on.
     if on then modifyR (\<lambda>s. s\<lparr>tm_serial := tm_serial s @ txt\<rparr>) else returnR ())"

definition console_print :: "bytes \<Rightarrow> unit tp" where
  "console_print txt = bindR (write_fmt txt) (\<lambda>_. mirror txt)"

definition console_println :: "bytes \<Rightarrow> unit tp" where
  "console_println txt = bindR (write_fmt (txt @ [0x0A])) (\<lambda>_. mirror (txt @ [0x0A]))"

definition console_print_color :: "color \<Rightarrow> bytes \<Rightarrow> unit tp" where
  "console_print_color col txt = bindR (write_fmt_color col txt) (\<lambda>_. mirror txt)"

definition console_println_color :: "color \<Rightarrow> bytes \<Rightarrow> unit tp" where
  "console_println_color col txt = bindR (write_fmt_color col (txt @ [0x0A])) (\<lambda>_. mirror (txt @ [0x0A]))"

end
