(* ===== verification/Kernel.thy ===== *)
theory Kernel
  imports Fs_Front Console Elf Frame
begin

text \<open>
  The state that system calls and processes work on: the static variables of \<^verbatim>\<open>src/syscall.rs\<close> and
  \<^verbatim>\<open>src/user.rs\<close> with the file system, the console, the frame allocator and the page tables, and the
  machine around them. The page tables belong to the \<open>x86_64\<close> crate: \<open>pager_ops\<close> has the operations of
  its \<open>Mapper\<close> trait that the kernel uses. User memory is indexed by virtual address.
\<close>

section \<open>Page tables\<close>

text \<open>The flags of a page; every page is present.\<close>

record page_flags =
  fl_writable :: bool
  fl_no_execute :: bool
  fl_user :: bool

text \<open>\<open>translate_page\<close>, \<open>map_to\<close>, \<open>unmap\<close> and \<open>update_flags\<close>; \<open>map_to\<close> may take frames for page tables
  from the allocator it is given. \<open>pg_writable\<close> says whether a store to a mapped page succeeds or faults.\<close>

record 'm pager_ops =
  pg_translate :: "nat \<Rightarrow> 'm \<Rightarrow> nat option"
  pg_writable :: "nat \<Rightarrow> 'm \<Rightarrow> bool"
  pg_map_to :: "nat \<Rightarrow> nat \<Rightarrow> page_flags \<Rightarrow> 'm \<times> frame_allocator \<Rightarrow> bool \<times> 'm \<times> frame_allocator"
  pg_unmap :: "nat \<Rightarrow> 'm \<Rightarrow> nat option \<times> 'm"
  pg_update_flags :: "nat \<Rightarrow> page_flags \<Rightarrow> 'm \<Rightarrow> bool \<times> 'm"

section \<open>The kernel\<close>

record open_file =
  of_path :: bytes
  of_offset :: nat
  of_flags :: nat

record ('d, 'm) kernel =
  k_fs :: "'d file_system"
  k_term :: terminal
  k_fds :: "open_file option list option"
  k_fds_locked :: bool
  k_mapper :: "'m option"
  k_frames :: "frame_allocator option"
  k_pages :: "nat list"
  k_brk :: nat
  k_mmap_next :: nat
  k_mem :: "nat \<Rightarrow> u8"
  k_exit_requested :: bool
  k_exit_status :: nat
  k_return_rsp :: nat
  k_fs_base :: nat
  k_gs_base :: nat

text \<open>What the kernel is built with and runs on: the device interface and the drives, the page tables,
  \<open>PhysFrame::containing_address\<close> and \<open>Page::containing_address(VirtAddr::new(a))\<close> (with \<open>None\<close> for their
  panics), the features of the ELF loader, and the user program, which runs until it exits.\<close>

record ('d, 'm) machine =
  mc_dev :: "'d dev_ops"
  mc_drives :: "'d list"
  mc_pager :: "'m pager_ops"
  mc_containing :: "nat \<Rightarrow> nat option"
  mc_page :: "nat \<Rightarrow> nat option"
  mc_elf :: elf_features
  mc_run :: "nat \<Rightarrow> nat \<Rightarrow> ('d, 'm) kernel \<Rightarrow> nat \<times> ('d, 'm) kernel"

abbreviation PAGE_SIZE :: nat where "PAGE_SIZE \<equiv> 4096"
abbreviation USER_MAX :: nat where "USER_MAX \<equiv> 0x0000800000000000"

text \<open>The file system lock is taken for single calls only, so it is not part of the state.\<close>

definition on_files :: "('d, 'a) ff \<Rightarrow> ('d, 'm) kernel \<Rightarrow> (fs_error, 'a) res \<times> ('d, 'm) kernel" where
  "on_files m k = (case m (k_fs k) of (r, f) \<Rightarrow> (r, k\<lparr>k_fs := f\<rparr>))"

text \<open>The page of an address.\<close>

definition page_of :: "nat \<Rightarrow> nat" where
  "page_of a = a div PAGE_SIZE * PAGE_SIZE"

definition in_page :: "nat \<Rightarrow> nat \<Rightarrow> bool" where
  "in_page p a \<longleftrightarrow> p \<le> a \<and> a < p + PAGE_SIZE"

end
