(* ===== verification/Kmem.thy ===== *)
theory Kmem
  imports Kernel Buddy Text
begin

text \<open>
  Setting up kernel memory (\<^verbatim>\<open>src/kmem/mod.rs\<close>, \<^verbatim>\<open>src/kmem/heap.rs\<close>): the frame allocator and the page
  tables from what the boot loader provides, the pages of the kernel heap, and the memory report.
  The page tables are those of \<open>Kernel\<close>; the register CR3 and the boot loader's answers are arguments.
\<close>

section \<open>Initialization\<close>

text \<open>The answers of the boot loader: the offset of the direct map and the memory map.\<close>

record boot_info =
  bi_hhdm :: "nat option"
  bi_memmap :: "entry list option"

text \<open>\<open>init\<close>: the mapper is the one that \<open>OffsetPageTable::new\<close> makes for the table in CR3; \<open>virt\<close> is
  \<open>VirtAddr::new\<close>, with \<open>None\<close> for its panic.\<close>

definition kmem_init :: "(nat \<Rightarrow> nat option) \<Rightarrow> (nat \<Rightarrow> 'm) \<Rightarrow> (nat \<Rightarrow> nat) \<Rightarrow> boot_info \<Rightarrow> (unit, 'm \<times> frame_allocator) res" where
  "kmem_init virt offset_page_table memory bi =
     (case bi_hhdm bi of
        None \<Rightarrow> Panic
      | Some off \<Rightarrow>
          (case bi_memmap bi of
             None \<Rightarrow> Panic
           | Some mm \<Rightarrow>
               (case virt off of
                  None \<Rightarrow> Panic
                | Some v \<Rightarrow> Ok (offset_page_table v, frame_new mm v memory))))"

definition hhdm_to_virt :: "(nat \<Rightarrow> nat option) \<Rightarrow> boot_info \<Rightarrow> nat \<Rightarrow> (unit, nat) res" where
  "hhdm_to_virt virt bi phys =
     (case bi_hhdm bi of
        None \<Rightarrow> Panic
      | Some off \<Rightarrow>
          (case checked_add off phys of
             None \<Rightarrow> Panic
           | Some a \<Rightarrow> (case virt a of None \<Rightarrow> Panic | Some v \<Rightarrow> Ok v)))"

section \<open>The kernel heap\<close>

datatype map_error = FrameAllocationFailed | MapToFailed

record 'm memory =
  me_mapper :: 'm
  me_frames :: frame_allocator
  me_heap :: buddy

type_synonym ('m, 'a) mp = "('m memory, map_error, 'a) prog"

definition take_frame :: "('d, 'm) machine \<Rightarrow> ('m, nat) mp" where
  "take_frame X = (\<lambda>s.
     case allocate_frame (mc_containing X) (me_frames s) of
       (Ok (Some f), fa) \<Rightarrow> (Ok f, s\<lparr>me_frames := fa\<rparr>)
     | (Ok None, fa) \<Rightarrow> (Err FrameAllocationFailed, s\<lparr>me_frames := fa\<rparr>)
     | (Err u, fa) \<Rightarrow> (Panic, s\<lparr>me_frames := fa\<rparr>)
     | (Panic, fa) \<Rightarrow> (Panic, s\<lparr>me_frames := fa\<rparr>)
     | (Hang, fa) \<Rightarrow> (Hang, s\<lparr>me_frames := fa\<rparr>))"

definition heap_flags :: page_flags where
  "heap_flags = \<lparr>fl_writable = True, fl_no_execute = False, fl_user = False\<rparr>"

definition map_heap_page :: "('d, 'm) machine \<Rightarrow> nat \<Rightarrow> nat \<Rightarrow> ('m, unit) mp" where
  "map_heap_page X page frame = (\<lambda>s.
     case pg_map_to (mc_pager X) page frame heap_flags (me_mapper s, me_frames s) of
       (ok, m, fa) \<Rightarrow> (if ok then Ok () else Err MapToFailed, s\<lparr>me_mapper := m, me_frames := fa\<rparr>))"

primrec map_heap :: "('d, 'm) machine \<Rightarrow> nat list \<Rightarrow> ('m, unit) mp" where
  "map_heap X [] = returnR ()"
| "map_heap X (page # pages) =
     bindR (take_frame X) (\<lambda>frame.
     bindR (map_heap_page X page frame) (\<lambda>_.
     map_heap X pages))"

text \<open>\<open>Page::range_inclusive\<close>.\<close>

definition page_range :: "nat \<Rightarrow> nat \<Rightarrow> nat list" where
  "page_range a b = map (\<lambda>i. a + i * PAGE_SIZE) [0..<(b - a) div PAGE_SIZE + 1]"

definition init_buddy :: "('m, unit) mp" where
  "init_buddy = (\<lambda>s.
     case buddy_init HEAP_START HEAP_SIZE (me_heap s) of
       (Ok u, b) \<Rightarrow> (Ok u, s\<lparr>me_heap := b\<rparr>)
     | (Err u, b) \<Rightarrow> (Panic, s\<lparr>me_heap := b\<rparr>)
     | (Panic, b) \<Rightarrow> (Panic, s\<lparr>me_heap := b\<rparr>)
     | (Hang, b) \<Rightarrow> (Hang, s\<lparr>me_heap := b\<rparr>))"

definition init_heap :: "('d, 'm) machine \<Rightarrow> ('m, unit) mp" where
  "init_heap X =
     (case mc_page X HEAP_START of
        None \<Rightarrow> panicR
      | Some first \<Rightarrow>
          (case mc_page X (HEAP_START + HEAP_SIZE - 1) of
             None \<Rightarrow> panicR
           | Some lst \<Rightarrow>
               bindR (map_heap X (page_range first lst)) (\<lambda>_.
               init_buddy)))"

section \<open>The memory report\<close>

definition kib :: "nat \<Rightarrow> nat" where "kib b = b div 1024"
definition mib :: "nat \<Rightarrow> nat" where "mib b = b div (1024 * 1024)"

definition percent_x100 :: "nat \<Rightarrow> nat \<Rightarrow> nat" where
  "percent_x100 part tot = (if tot = 0 then 0 else part * 10000 div tot mod u64_limit)"

definition percent_line :: "string \<Rightarrow> nat \<Rightarrow> nat \<Rightarrow> bytes" where
  "percent_line label part tot =
     (let p = percent_x100 part tot in
      str ''  '' @ pad_right 20 (str label) @ str '' '' @ show_nat (p div 100) @ str ''.'' @ show_nat (p mod 100) @ str ''%'')"

fun memory_type_name :: "memmap_type \<Rightarrow> string" where
  "memory_type_name USABLE = ''USABLE''"
| "memory_type_name RESERVED = ''RESERVED''"
| "memory_type_name ACPI_RECLAIMABLE = ''ACPI RECLAIMABLE''"
| "memory_type_name ACPI_NVS = ''ACPI NVS''"
| "memory_type_name BAD_MEMORY = ''BAD MEMORY''"
| "memory_type_name BOOTLOADER_RECLAIMABLE = ''BOOTLOADER RECLAIMABLE''"
| "memory_type_name EXECUTABLE_AND_MODULES = ''EXECUTABLE / MODULES''"
| "memory_type_name FRAMEBUFFER = ''FRAMEBUFFER''"
| "memory_type_name (OTHER_TYPE _) = ''UNKNOWN''"

definition region_contains :: "nat \<Rightarrow> nat \<Rightarrow> nat \<Rightarrow> bool" where
  "region_contains base len a = (case checked_add base len of None \<Rightarrow> False | Some e \<Rightarrow> base \<le> a \<and> a < e)"

record mem_totals =
  mt_map :: nat
  mt_usable :: nat
  mt_reserved :: nat
  mt_reclaim :: nat
  mt_nvs :: nat
  mt_boot :: nat
  mt_kernel :: nat
  mt_fb :: nat
  mt_bad :: nat
  mt_other :: nat
  mt_regions :: nat
  mt_first :: "nat option"
  mt_last :: "nat option"
  mt_largest_base :: nat
  mt_largest :: nat

definition totals_zero :: mem_totals where
  "totals_zero = \<lparr>mt_map = 0, mt_usable = 0, mt_reserved = 0, mt_reclaim = 0, mt_nvs = 0, mt_boot = 0, mt_kernel = 0,
     mt_fb = 0, mt_bad = 0, mt_other = 0, mt_regions = 0, mt_first = None, mt_last = None, mt_largest_base = 0, mt_largest = 0\<rparr>"

definition account_usable :: "nat \<Rightarrow> nat \<Rightarrow> nat \<Rightarrow> mem_totals \<Rightarrow> mem_totals" where
  "account_usable base len stop t =
     (let t1 = t\<lparr>mt_usable := saturating_add (mt_usable t) len, mt_regions := mt_regions t + 1,
                mt_first := Some (case mt_first t of None \<Rightarrow> base | Some old \<Rightarrow> min old base),
                mt_last := Some (case mt_last t of None \<Rightarrow> stop | Some old \<Rightarrow> max old stop)\<rparr>
      in if len > mt_largest t then t1\<lparr>mt_largest := len, mt_largest_base := base\<rparr> else t1)"

fun account_type :: "memmap_type \<Rightarrow> nat \<Rightarrow> nat \<Rightarrow> nat \<Rightarrow> mem_totals \<Rightarrow> mem_totals" where
  "account_type USABLE base len stop t = account_usable base len stop t"
| "account_type RESERVED base len stop t = t\<lparr>mt_reserved := saturating_add (mt_reserved t) len\<rparr>"
| "account_type ACPI_RECLAIMABLE base len stop t = t\<lparr>mt_reclaim := saturating_add (mt_reclaim t) len\<rparr>"
| "account_type ACPI_NVS base len stop t = t\<lparr>mt_nvs := saturating_add (mt_nvs t) len\<rparr>"
| "account_type BOOTLOADER_RECLAIMABLE base len stop t = t\<lparr>mt_boot := saturating_add (mt_boot t) len\<rparr>"
| "account_type EXECUTABLE_AND_MODULES base len stop t = t\<lparr>mt_kernel := saturating_add (mt_kernel t) len\<rparr>"
| "account_type FRAMEBUFFER base len stop t = t\<lparr>mt_fb := saturating_add (mt_fb t) len\<rparr>"
| "account_type BAD_MEMORY base len stop t = t\<lparr>mt_bad := saturating_add (mt_bad t) len\<rparr>"
| "account_type (OTHER_TYPE _) base len stop t = t\<lparr>mt_other := saturating_add (mt_other t) len\<rparr>"

definition account :: "entry \<Rightarrow> mem_totals \<Rightarrow> mem_totals" where
  "account e t =
     (case checked_add (e_base e) (e_length e) of
        None \<Rightarrow> t
      | Some stop \<Rightarrow>
          account_type (e_type e) (e_base e) (e_length e) stop (t\<lparr>mt_map := saturating_add (mt_map t) (e_length e)\<rparr>))"

definition mem_totals_of :: "entry list \<Rightarrow> mem_totals" where
  "mem_totals_of entries = fold account entries totals_zero"

definition usable_frame_sum :: "entry list \<Rightarrow> (unit, nat) res" where
  "usable_frame_sum entries =
     (let n = sum_list (map (\<lambda>e. e_length e div PAGE_SIZE) (filter e_usable entries))
      in if n < u64_limit then Ok n else Panic)"

text \<open>The lines of the report, section by section. A line \<open>label: value\<close> has its label as printed.\<close>

definition field :: "string \<Rightarrow> bytes \<Rightarrow> bytes" where
  "field label v = str label @ v"

definition report_header :: "bytes list" where
  "report_header = [[], str ''========================================'', str ''       KERNEL MEMORY ANALYSIS'',
     str ''========================================'']"

definition report_error :: "string \<Rightarrow> bytes list" where
  "report_error what = [[], str ''[ERROR]'', str what]"

definition report_hhdm :: "nat \<Rightarrow> bytes list" where
  "report_hhdm off = [[], str ''[HHDM]'', field ''  Offset:             '' (show_addr off),
     field ''  Page aligned:       '' (show_bool (off mod PAGE_SIZE = 0))]"

definition report_physical :: "mem_totals \<Rightarrow> bytes list" where
  "report_physical t =
     [[], str ''[PHYSICAL MEMORY]'', field ''  Address-map bytes:  '' (show_nat (mt_map t)),
      field ''  Address-map span:   '' (show_nat (mib (mt_map t)) @ str '' MiB''),
      field ''  Usable RAM:         '' (show_nat (mib (mt_usable t)) @ str '' MiB''),
      field ''  Usable regions:     '' (show_nat (mt_regions t)),
      field ''  Largest usable:     '' (show_nat (mib (mt_largest t)) @ str '' MiB'')]
     @ (if mt_largest t \<noteq> 0 then [field ''  Largest base:       '' (show_addr (mt_largest_base t))] else [])
     @ [[], percent_line ''Usable'' (mt_usable t) (mt_map t), percent_line ''Reserved'' (mt_reserved t) (mt_map t),
        percent_line ''Bootloader'' (mt_boot t) (mt_map t), percent_line ''Kernel/modules'' (mt_kernel t) (mt_map t),
        percent_line ''Framebuffer'' (mt_fb t) (mt_map t)]"

definition report_types :: "mem_totals \<Rightarrow> bytes list" where
  "report_types t =
     (let k = (\<lambda>n. show_nat (kib n) @ str '' KiB'') in
      [[], str ''[MEMORY MAP TYPES]'', field ''  RESERVED:           '' (k (mt_reserved t)),
       field ''  ACPI reclaimable:   '' (k (mt_reclaim t)), field ''  ACPI NVS:           '' (k (mt_nvs t)),
       field ''  Bootloader reclaim: '' (k (mt_boot t)), field ''  Kernel/modules:     '' (k (mt_kernel t)),
       field ''  Framebuffer:        '' (k (mt_fb t)), field ''  Bad memory:         '' (k (mt_bad t)),
       field ''  Other:              '' (k (mt_other t))])"

definition addr_or_none :: "nat option \<Rightarrow> bytes" where
  "addr_or_none a = (case a of Some x \<Rightarrow> show_addr x | None \<Rightarrow> str ''NONE'')"

definition saturating_mul :: "nat \<Rightarrow> nat \<Rightarrow> nat" where
  "saturating_mul a b = min (a * b) (u64_limit - 1)"

definition report_frames :: "nat \<Rightarrow> mem_totals \<Rightarrow> bytes list" where
  "report_frames frames t =
     [[], str ''[PHYSICAL FRAMES]'', field ''  Frame size:         '' (show_nat PAGE_SIZE @ str '' bytes''),
      field ''  Usable frames:      '' (show_nat frames),
      field ''  Usable frame RAM:   '' (show_nat (mib (saturating_mul frames PAGE_SIZE)) @ str '' MiB''),
      field ''  First usable:       '' (addr_or_none (mt_first t)),
      field ''  Last usable end:    '' (addr_or_none (mt_last t))]"

definition report_allocator :: "nat \<Rightarrow> nat \<Rightarrow> bytes list" where
  "report_allocator frames free =
     [[], str ''[FRAME ALLOCATOR]'', field ''  Total usable:       '' (show_nat frames @ str '' frames''),
      field ''  Reported free:      '' (show_nat free @ str '' frames''),
      field ''  Reported free RAM:  '' (show_nat (mib (saturating_mul free PAGE_SIZE)) @ str '' MiB'')]
     @ (if frames > 0 then [percent_line ''Free frame share'' free frames] else [])"

definition lowest_address :: "entry list \<Rightarrow> nat" where
  "lowest_address entries = fold (\<lambda>e a. min a (e_base e)) entries (u64_limit - 1)"

definition highest_address :: "entry list \<Rightarrow> nat" where
  "highest_address entries =
     fold (\<lambda>e a. case checked_add (e_base e) (e_length e) of Some stop \<Rightarrow> max a stop | None \<Rightarrow> a) entries 0"

definition report_space :: "entry list \<Rightarrow> bytes list" where
  "report_space entries =
     (let lo = lowest_address entries; hi = highest_address entries in
      [[], str ''[PHYSICAL ADDRESS SPACE]'',
       field ''  Lowest mapped:      '' (if lo \<noteq> u64_limit - 1 then show_addr lo else str ''NONE''),
       field ''  Highest boundary:   '' (show_addr hi),
       field ''  Boundary span:      '' (show_nat (mib (hi - lo)) @ str '' MiB'')])"

definition region_line :: "nat \<times> entry \<Rightarrow> bytes" where
  "region_line ie = (case ie of (i, e) \<Rightarrow>
     str ''  #'' @ pad_right 2 (show_nat i) @ str '' '' @ show_addr (e_base e) @ str '' - ''
     @ show_addr (case checked_add (e_base e) (e_length e) of Some stop \<Rightarrow> stop | None \<Rightarrow> u64_limit - 1)
     @ str '' | '' @ pad_left 8 (show_nat (kib (e_length e))) @ str '' KiB | '' @ str (memory_type_name (e_type e)))"

definition report_regions :: "entry list \<Rightarrow> bytes list" where
  "report_regions entries = [[], str ''[MEMORY MAP REGIONS]''] @ map region_line (enumerate 0 entries)"

text \<open>CR3 and the text of its flags; the kind of a region is below \<open>2 ^ 32\<close>.\<close>

definition report_tables :: "nat \<Rightarrow> nat \<Rightarrow> bytes \<Rightarrow> entry list \<Rightarrow> bytes list" where
  "report_tables off cr3 flags entries =
     [[], str ''[PAGE TABLES]'', field ''  CR3 physical:      '' (show_addr cr3),
      field ''  CR3 virtual:       '' (case checked_add off cr3 of Some v \<Rightarrow> show_addr v | None \<Rightarrow> str ''OVERFLOW''),
      field ''  CR3 flags:         '' flags, field ''  Page size:         '' (show_nat PAGE_SIZE @ str '' bytes''),
      field ''  CR3 aligned:       '' (show_bool (cr3 mod PAGE_SIZE = 0)),
      field ''  CR3 region:        ''
        (case List.find (\<lambda>e. region_contains (e_base e) (e_length e) cr3) entries of
           Some e \<Rightarrow> str (memory_type_name (e_type e)) | None \<Rightarrow> str ''NOT FOUND'')]"

definition hhdm_pair :: "string \<Rightarrow> string \<Rightarrow> nat \<Rightarrow> nat option \<Rightarrow> bytes list" where
  "hhdm_pair phys virt off a =
     (case a of
        None \<Rightarrow> []
      | Some p \<Rightarrow>
          (case checked_add off p of
             Some v \<Rightarrow> [field phys (show_addr p), field virt (show_addr v)]
           | None \<Rightarrow> [field virt (str ''OVERFLOW'')]))"

definition report_conversion :: "nat \<Rightarrow> mem_totals \<Rightarrow> bytes list" where
  "report_conversion off t =
     [[], str ''[HHDM ADDRESS CONVERSION]'']
     @ hhdm_pair ''  First physical:    '' ''  First HHDM VA:     '' off (mt_first t)
     @ hhdm_pair ''  Last physical:     '' ''  Last HHDM VA:      '' off (mt_last t)"

abbreviation HEAP_PAGES :: nat where "HEAP_PAGES \<equiv> (HEAP_SIZE + PAGE_SIZE - 1) div PAGE_SIZE"

definition report_heap :: "bytes list" where
  "report_heap =
     [[], str ''[KERNEL HEAP]'', field ''  Start:             '' (show_addr HEAP_START),
      field ''  End:               '' (show_addr (HEAP_START + HEAP_SIZE)),
      field ''  Size:              '' (show_nat (kib HEAP_SIZE) @ str '' KiB''),
      field ''  Size:              '' (show_nat (mib HEAP_SIZE) @ str '' MiB''),
      field ''  Pages:             '' (show_nat HEAP_PAGES),
      field ''  Start aligned:     '' (show_bool (HEAP_START mod PAGE_SIZE = 0)),
      field ''  Size aligned:      '' (show_bool (HEAP_SIZE mod PAGE_SIZE = 0)),
      field ''  End aligned:       '' (show_bool ((HEAP_START + HEAP_SIZE) mod PAGE_SIZE = 0))]"

definition report_layout :: "nat \<Rightarrow> bytes list" where
  "report_layout off =
     [[], str ''[ADDRESS SPACE]'', field ''  HHDM base:         '' (show_addr off),
      field ''  Heap base:         '' (show_addr HEAP_START), field ''  Heap < HHDM:       '' (show_bool (HEAP_START < off)),
      field ''  Heap end:          '' (show_addr (HEAP_START + HEAP_SIZE)),
      field ''  Heap overlaps HHDM: '' (show_bool (HEAP_START < off \<and> HEAP_START + HEAP_SIZE > off))]"

definition report_capacity :: "nat \<Rightarrow> bytes list" where
  "report_capacity frames =
     [[], str ''[FRAME CAPACITY]'', field ''  Heap pages:        '' (show_nat HEAP_PAGES),
      field ''  Usable frames:     '' (show_nat frames)]
     @ (if frames > 0 then [percent_line ''Heap / usable'' HEAP_PAGES frames] else [])
     @ (if HEAP_PAGES > frames then [str ''  WARNING:           Heap exceeds usable frames''] else [])"

definition report_alignment :: "nat \<Rightarrow> nat \<Rightarrow> mem_totals \<Rightarrow> bytes list" where
  "report_alignment off cr3 t =
     [[], str ''[ALIGNMENT]'', field ''  Page size:         '' (show_nat PAGE_SIZE),
      field ''  HHDM aligned:      '' (show_bool (off mod PAGE_SIZE = 0)),
      field ''  CR3 aligned:       '' (show_bool (cr3 mod PAGE_SIZE = 0)),
      field ''  Heap aligned:      '' (show_bool (HEAP_START mod PAGE_SIZE = 0))]
     @ (case mt_first t of Some b \<Rightarrow> [field ''  First frame:       '' (show_bool (b mod PAGE_SIZE = 0))] | None \<Rightarrow> [])"

definition report_summary :: "nat \<Rightarrow> nat \<Rightarrow> nat \<Rightarrow> nat \<Rightarrow> bytes list" where
  "report_summary off cr3 frames free =
     [[], str ''[SUMMARY]'', field ''  RAM usable:        '' (show_nat (mib (saturating_mul frames PAGE_SIZE)) @ str '' MiB''),
      field ''  Usable frames:     '' (show_nat frames), field ''  Free frames:       '' (show_nat free),
      field ''  Heap:              '' (show_nat (mib HEAP_SIZE) @ str '' MiB''), field ''  Heap pages:        '' (show_nat HEAP_PAGES),
      field ''  HHDM:              '' (show_addr off), field ''  CR3:               '' (show_addr cr3), [],
      str ''========================================'', str ''       END MEMORY ANALYSIS'',
      str ''========================================'', []]"

primrec print_green :: "bytes list \<Rightarrow> unit tp" where
  "print_green [] = returnR ()"
| "print_green (l # ls) = bindR (console_println_color GREEN l) (\<lambda>_. print_green ls)"

text \<open>The walk of the free list may not end (\<open>Hang\<close>).\<close>

definition mem_analyze :: "boot_info \<Rightarrow> nat \<Rightarrow> bytes \<Rightarrow> frame_allocator \<Rightarrow> unit tp" where
  "mem_analyze bi cr3 flags fa =
     bindR (print_green report_header) (\<lambda>_.
     case bi_hhdm bi of
       None \<Rightarrow> print_green (report_error ''  Limine HHDM response unavailable'')
     | Some off \<Rightarrow>
         (case bi_memmap bi of
            None \<Rightarrow> print_green (report_error ''  Limine memory-map response unavailable'')
          | Some entries \<Rightarrow>
              (let t = mem_totals_of entries in
               bindR (print_green (report_hhdm off @ report_physical t @ report_types t)) (\<lambda>_.
               bindR (liftR (usable_frame_sum entries)) (\<lambda>frames.
               bindR (print_green (report_frames frames t)) (\<lambda>_.
               case free_frame_count fa of
                 None \<Rightarrow> (\<lambda>s. (Hang, s))
               | Some free \<Rightarrow>
                   print_green (report_allocator frames free @ report_space entries @ report_regions entries
                     @ report_tables off cr3 flags entries @ report_conversion off t @ report_heap @ report_layout off
                     @ report_capacity frames @ report_alignment off cr3 t @ report_summary off cr3 frames free)))))))"

end
