(* ===== verification/User.thy ===== *)
theory User
  imports Kernel
begin

text \<open>
  Processes (\<^verbatim>\<open>src/user.rs\<close>): the memory of the one process that runs at a time, \<open>brk\<close> and anonymous
  mappings, loading an ELF image, the initial stack and cleaning up.
\<close>

abbreviation (input) PIE_BASE :: nat where "PIE_BASE \<equiv> 0x0000004000000000"
abbreviation (input) USER_STACK_TOP :: nat where "USER_STACK_TOP \<equiv> 0x00007ffffffe0000"
abbreviation (input) USER_STACK_PAGES :: nat where "USER_STACK_PAGES \<equiv> 16"
abbreviation (input) HEAP_BASE :: nat where "HEAP_BASE \<equiv> 0x0000100000000000"
abbreviation (input) MMAP_BASE :: nat where "MMAP_BASE \<equiv> 0x0000200000000000"

datatype user_error = UElf elf_error | UFs | OutOfMemory | MappingFailed | InvalidAddress
  | AlreadyMapped | StackOverflow | Enter

type_synonym ('d, 'm, 'a) up = "(('d, 'm) kernel, user_error, 'a) prog"

section \<open>Memory\<close>

definition page_down :: "nat \<Rightarrow> nat" where
  "page_down v = v AND not64 0xfff"

definition page_up :: "nat \<Rightarrow> (user_error, nat) res" where
  "page_up v = (if v + 0xfff < u64_limit then Ok ((v + 0xfff) AND not64 0xfff) else Panic)"

text \<open>The addresses of a loop that starts at \<open>first\<close> and steps by pages while below \<open>bound\<close>.\<close>

definition page_steps :: "nat \<Rightarrow> nat \<Rightarrow> nat list" where
  "page_steps first bound = map (\<lambda>i. first + i * PAGE_SIZE) [0..<(bound - first + (PAGE_SIZE - 1)) div PAGE_SIZE]"

definition containing_page :: "('d, 'm) machine \<Rightarrow> nat \<Rightarrow> ('d, 'm, nat) up" where
  "containing_page X a = (case mc_page X a of Some p \<Rightarrow> returnR p | None \<Rightarrow> panicR)"

definition get_mapper :: "('d, 'm, 'm) up" where
  "get_mapper = (\<lambda>k. case k_mapper k of Some m \<Rightarrow> (Ok m, k) | None \<Rightarrow> (Err MappingFailed, k))"

definition get_allocator :: "('d, 'm, frame_allocator) up" where
  "get_allocator = (\<lambda>k. case k_frames k of Some f \<Rightarrow> (Ok f, k) | None \<Rightarrow> (Err OutOfMemory, k))"

definition alloc_frame :: "('d, 'm) machine \<Rightarrow> ('d, 'm, nat) up" where
  "alloc_frame X =
     bindR get_allocator (\<lambda>fa k.
     case allocate_frame (mc_containing X) fa of
       (Ok (Some f), fa') \<Rightarrow> (Ok f, k\<lparr>k_frames := Some fa'\<rparr>)
     | (Ok None, fa') \<Rightarrow> (Err OutOfMemory, k\<lparr>k_frames := Some fa'\<rparr>)
     | (Err u, fa') \<Rightarrow> (Panic, k\<lparr>k_frames := Some fa'\<rparr>)
     | (Panic, fa') \<Rightarrow> (Panic, k\<lparr>k_frames := Some fa'\<rparr>)
     | (Hang, fa') \<Rightarrow> (Hang, k\<lparr>k_frames := Some fa'\<rparr>))"

definition free_frame :: "nat \<Rightarrow> ('d, 'm, unit) up" where
  "free_frame f =
     bindR get_allocator (\<lambda>fa k.
     case deallocate_frame f fa of
       (Ok u, fa') \<Rightarrow> (Ok u, k\<lparr>k_frames := Some fa'\<rparr>)
     | (Err u, fa') \<Rightarrow> (Panic, k\<lparr>k_frames := Some fa'\<rparr>)
     | (Panic, fa') \<Rightarrow> (Panic, k\<lparr>k_frames := Some fa'\<rparr>)
     | (Hang, fa') \<Rightarrow> (Hang, k\<lparr>k_frames := Some fa'\<rparr>))"

text \<open>Filling a frame with zeros through the direct map.\<close>

definition zero_frame :: "nat \<Rightarrow> ('d, 'm, unit) up" where
  "zero_frame f =
     modifyR (\<lambda>k. k\<lparr>k_frames := map_option (\<lambda>fa. fa\<lparr>phys_mem := (\<lambda>a.
       if phys_to_virt fa f \<le> a \<and> a < phys_to_virt fa f + PAGE_SIZE then 0 else phys_mem fa a)\<rparr>) (k_frames k)\<rparr>)"

text \<open>\<open>map_to\<close> of a page to a frame that has been filled with zeros: its result, and the new contents of
  the page when it is mapped.\<close>

definition map_page :: "('d, 'm) machine \<Rightarrow> nat \<Rightarrow> nat \<Rightarrow> page_flags \<Rightarrow> ('d, 'm, bool) up" where
  "map_page X page frame flags =
     bindR get_mapper (\<lambda>m.
     bindR get_allocator (\<lambda>fa k.
     case pg_map_to (mc_pager X) page frame flags (m, fa) of
       (ok, m', fa') \<Rightarrow>
         (Ok ok, k\<lparr>k_mapper := Some m', k_frames := Some fa',
            k_mem := (\<lambda>a. if ok \<and> in_page page a then 0 else k_mem k a)\<rparr>)))"

definition translate :: "('d, 'm) machine \<Rightarrow> nat \<Rightarrow> ('d, 'm, nat option) up" where
  "translate X page = bindR get_mapper (\<lambda>m. returnR (pg_translate (mc_pager X) page m))"

definition push_page :: "nat \<Rightarrow> ('d, 'm, unit) up" where
  "push_page p = modifyR (\<lambda>k. k\<lparr>k_pages := k_pages k @ [p]\<rparr>)"

definition user_flags :: "bool \<Rightarrow> bool \<Rightarrow> page_flags" where
  "user_flags writable executable = \<lparr>fl_writable = writable, fl_no_execute = \<not> executable, fl_user = True\<rparr>"

primrec map_pages :: "('d, 'm) machine \<Rightarrow> page_flags \<Rightarrow> nat list \<Rightarrow> ('d, 'm, unit) up" where
  "map_pages X flags [] = returnR ()"
| "map_pages X flags (addr # rest) =
     bindR (containing_page X addr) (\<lambda>page.
     bindR (translate X page) (\<lambda>t.
     if t \<noteq> None then map_pages X flags rest
     else
       bindR (alloc_frame X) (\<lambda>frame.
       bindR (zero_frame frame) (\<lambda>_.
       bindR (map_page X page frame flags) (\<lambda>ok.
       if \<not> ok then throwR MappingFailed
       else bindR (push_page page) (\<lambda>_. map_pages X flags rest))))))"

definition map_anonymous :: "('d, 'm) machine \<Rightarrow> nat \<Rightarrow> nat \<Rightarrow> bool \<Rightarrow> bool \<Rightarrow> ('d, 'm, nat) up" where
  "map_anonymous X start len writable executable =
     (if len = 0 then returnR start
      else
        let first = page_down start in
        (case checked_add start len of
           None \<Rightarrow> throwR InvalidAddress
         | Some stop \<Rightarrow>
             bindR (liftR (page_up stop)) (\<lambda>bound.
             if first \<ge> USER_MAX \<or> bound > USER_MAX \<or> bound \<le> first then throwR InvalidAddress
             else
               bindR get_mapper (\<lambda>_.
               bindR get_allocator (\<lambda>_.
               bindR (map_pages X (user_flags writable executable) (page_steps first bound)) (\<lambda>_.
               returnR start))))))"

definition current_brk :: "('d, 'm, nat) up" where
  "current_brk = getsR k_brk"

definition set_brk :: "('d, 'm) machine \<Rightarrow> nat \<Rightarrow> ('d, 'm, nat) up" where
  "set_brk X new_brk =
     bindR current_brk (\<lambda>old.
     if new_brk \<le> old then
       bindR (modifyR (\<lambda>k. k\<lparr>k_brk := new_brk\<rparr>)) (\<lambda>_. returnR new_brk)
     else
       bindR (map_anonymous X old (new_brk - old) True False) (\<lambda>_.
       bindR (modifyR (\<lambda>k. k\<lparr>k_brk := new_brk\<rparr>)) (\<lambda>_. returnR new_brk)))"

primrec protect_pages :: "('d, 'm) machine \<Rightarrow> page_flags \<Rightarrow> nat list \<Rightarrow> ('d, 'm, unit) up" where
  "protect_pages X flags [] = returnR ()"
| "protect_pages X flags (addr # rest) =
     bindR (containing_page X addr) (\<lambda>page.
     bindR (translate X page) (\<lambda>t.
     if t = None then throwR InvalidAddress
     else
       bindR get_mapper (\<lambda>m k.
       case pg_update_flags (mc_pager X) page flags m of
         (ok, m') \<Rightarrow>
           if ok then protect_pages X flags rest (k\<lparr>k_mapper := Some m'\<rparr>)
           else (Err MappingFailed, k\<lparr>k_mapper := Some m'\<rparr>))))"

definition mprotect :: "('d, 'm) machine \<Rightarrow> nat \<Rightarrow> nat \<Rightarrow> bool \<Rightarrow> bool \<Rightarrow> ('d, 'm, unit) up" where
  "mprotect X start len writable executable =
     (if len = 0 then throwR InvalidAddress
      else case checked_add start len of
        None \<Rightarrow> throwR InvalidAddress
      | Some stop \<Rightarrow>
          bindR (liftR (page_up stop)) (\<lambda>bound.
          bindR get_mapper (\<lambda>_.
          protect_pages X (user_flags writable executable) (page_steps (page_down start) bound))))"

text \<open>\<open>Vec::swap_remove\<close>.\<close>

definition swap_remove :: "nat \<Rightarrow> 'a list \<Rightarrow> 'a list" where
  "swap_remove i xs = (if i < length xs then butlast (xs[i := last xs]) else xs)"

fun position :: "('a \<Rightarrow> bool) \<Rightarrow> 'a list \<Rightarrow> nat option" where
  "position P [] = None"
| "position P (x # xs) = (if P x then Some 0 else map_option Suc (position P xs))"

text \<open>Unmapping one page and returning its frame; whether it was mapped.\<close>

definition release_page :: "('d, 'm) machine \<Rightarrow> nat \<Rightarrow> ('d, 'm, bool) up" where
  "release_page X page =
     bindR get_mapper (\<lambda>m k.
     case pg_unmap (mc_pager X) page m of
       (None, m') \<Rightarrow> (Ok False, k\<lparr>k_mapper := Some m'\<rparr>)
     | (Some f, m') \<Rightarrow> bindR (free_frame f) (\<lambda>_. returnR True) (k\<lparr>k_mapper := Some m'\<rparr>))"

primrec unmap_pages :: "('d, 'm) machine \<Rightarrow> nat list \<Rightarrow> ('d, 'm, unit) up" where
  "unmap_pages X [] = returnR ()"
| "unmap_pages X (addr # rest) =
     bindR (containing_page X addr) (\<lambda>page.
     bindR (getsR k_pages) (\<lambda>pages.
     case position (\<lambda>p. p = page) pages of
       None \<Rightarrow> unmap_pages X rest
     | Some pos \<Rightarrow>
         bindR (release_page X page) (\<lambda>ok.
         bindR (if ok then modifyR (\<lambda>k. k\<lparr>k_pages := swap_remove pos (k_pages k)\<rparr>) else returnR ()) (\<lambda>_.
         unmap_pages X rest))))"

definition munmap :: "('d, 'm) machine \<Rightarrow> nat \<Rightarrow> nat \<Rightarrow> ('d, 'm, unit) up" where
  "munmap X start len =
     (if len = 0 then throwR InvalidAddress
      else case checked_add start len of
        None \<Rightarrow> throwR InvalidAddress
      | Some stop \<Rightarrow>
          bindR (liftR (page_up stop)) (\<lambda>bound.
          bindR get_mapper (\<lambda>_.
          bindR get_allocator (\<lambda>_.
          unmap_pages X (page_steps (page_down start) bound)))))"

definition mmap_anon :: "('d, 'm) machine \<Rightarrow> nat \<Rightarrow> bool \<Rightarrow> bool \<Rightarrow> ('d, 'm, nat) up" where
  "mmap_anon X len writable executable =
     bindR (getsR k_mmap_next) (\<lambda>next.
     bindR (liftR (page_up next)) (\<lambda>addr.
     case checked_add addr len of
       None \<Rightarrow> throwR InvalidAddress
     | Some stop \<Rightarrow>
         bindR (liftR (page_up stop)) (\<lambda>n.
         bindR (modifyR (\<lambda>k. k\<lparr>k_mmap_next := n\<rparr>)) (\<lambda>_.
         map_anonymous X addr len writable executable))))"

section \<open>Cleaning up\<close>

text \<open>\<open>fds\<close>: taking the lock of the file descriptor table, which is created with the three standard
  descriptors. A second attempt by the same processor spins forever.\<close>

definition std_file :: open_file where
  "std_file = \<lparr>of_path = [], of_offset = 0, of_flags = 0\<rparr>"

definition lock_fds :: "(('d, 'm) kernel, 'e, open_file option list) prog" where
  "lock_fds = (\<lambda>k.
     if k_fds_locked k then (Hang, k)
     else
       let table = (case k_fds k of Some t \<Rightarrow> t | None \<Rightarrow> [Some std_file, Some std_file, Some std_file]) in
       (Ok table, k\<lparr>k_fds_locked := True, k_fds := Some table\<rparr>))"

definition unlock_fds :: "(('d, 'm) kernel, 'e, unit) prog" where
  "unlock_fds = modifyR (\<lambda>k. k\<lparr>k_fds_locked := False\<rparr>)"

definition store_fds :: "open_file option list \<Rightarrow> (('d, 'm) kernel, 'e, unit) prog" where
  "store_fds table = modifyR (\<lambda>k. k\<lparr>k_fds := Some table\<rparr>)"

definition reset_process_fds :: "(('d, 'm) kernel, 'e, unit) prog" where
  "reset_process_fds =
     bindR lock_fds (\<lambda>table.
     bindR (store_fds (take 3 table)) (\<lambda>_.
     unlock_fds))"

text \<open>The pages are taken from the end of the list.\<close>

primrec release_all :: "('d, 'm) machine \<Rightarrow> nat list \<Rightarrow> ('d, 'm, unit) up" where
  "release_all X [] = returnR ()"
| "release_all X (page # rest) =
     bindR (modifyR (\<lambda>k. k\<lparr>k_pages := butlast (k_pages k)\<rparr>)) (\<lambda>_.
     bindR (release_page X page) (\<lambda>_.
     release_all X rest))"

definition cleanup_process :: "('d, 'm) machine \<Rightarrow> ('d, 'm, unit) up" where
  "cleanup_process X = (\<lambda>k.
     if k_mapper k = None \<or> k_frames k = None then (Ok (), k)
     else
       bindR (release_all X (rev (k_pages k))) (\<lambda>_.
       bindR (modifyR (\<lambda>k. k\<lparr>k_brk := HEAP_BASE, k_mmap_next := MMAP_BASE\<rparr>)) (\<lambda>_.
       reset_process_fds)) k)"

section \<open>Loading a program\<close>

record page_spec =
  sp_page :: nat
  sp_flags :: page_flags

text \<open>The or of two sets of flags.\<close>

definition or_flags :: "page_flags \<Rightarrow> page_flags \<Rightarrow> page_flags" where
  "or_flags a b = \<lparr>fl_writable = fl_writable a \<or> fl_writable b, fl_no_execute = fl_no_execute a \<or> fl_no_execute b,
     fl_user = fl_user a \<or> fl_user b\<rparr>"

fun add_spec :: "nat \<Rightarrow> page_flags \<Rightarrow> page_spec list \<Rightarrow> page_spec list" where
  "add_spec page flags [] = [\<lparr>sp_page = page, sp_flags = flags\<rparr>]"
| "add_spec page flags (s # rest) =
     (if sp_page s = page then s\<lparr>sp_flags := or_flags (sp_flags s) flags\<rparr> # rest
      else s # add_spec page flags rest)"

definition segment_flags :: "nat \<Rightarrow> page_flags" where
  "segment_flags p = \<lparr>fl_writable = (p AND 2 \<noteq> 0), fl_no_execute = (p AND 1 = 0), fl_user = True\<rparr>"

primrec segment_pages :: "('d, 'm) machine \<Rightarrow> page_flags \<Rightarrow> nat list \<Rightarrow> page_spec list \<Rightarrow> ('d, 'm, page_spec list) up" where
  "segment_pages X flags [] specs = returnR specs"
| "segment_pages X flags (addr # rest) specs =
     bindR (containing_page X addr) (\<lambda>page. segment_pages X flags rest (add_spec page flags specs))"

primrec load_specs :: "('d, 'm) machine \<Rightarrow> nat \<Rightarrow> program_header list \<Rightarrow> page_spec list \<Rightarrow> ('d, 'm, page_spec list) up" where
  "load_specs X bias [] specs = returnR specs"
| "load_specs X bias (ph # rest) specs =
     (case checked_add (p_vaddr ph) bias of
        None \<Rightarrow> throwR InvalidAddress
      | Some start \<Rightarrow>
          (case checked_add start (p_memsz ph) of
             None \<Rightarrow> throwR InvalidAddress
           | Some stop \<Rightarrow>
               if start \<ge> USER_MAX \<or> stop > USER_MAX \<or> stop \<le> start then throwR InvalidAddress
               else
                 bindR (liftR (page_up stop)) (\<lambda>bound.
                 bindR (segment_pages X (segment_flags (p_flags ph)) (page_steps (page_down start) bound) specs) (\<lambda>specs.
                 load_specs X bias rest specs))))"

definition stack_flags :: page_flags where
  "stack_flags = \<lparr>fl_writable = True, fl_no_execute = True, fl_user = True\<rparr>"

primrec stack_specs :: "('d, 'm) machine \<Rightarrow> nat list \<Rightarrow> page_spec list \<Rightarrow> ('d, 'm, page_spec list) up" where
  "stack_specs X [] specs = returnR specs"
| "stack_specs X (addr # rest) specs =
     bindR (containing_page X addr) (\<lambda>page.
     if page \<in> set (map sp_page specs) then throwR InvalidAddress
     else stack_specs X rest (specs @ [\<lparr>sp_page = page, sp_flags = stack_flags\<rparr>]))"

primrec map_specs :: "('d, 'm) machine \<Rightarrow> page_spec list \<Rightarrow> ('d, 'm, unit) up" where
  "map_specs X [] = returnR ()"
| "map_specs X (sp # rest) =
     bindR (translate X (sp_page sp)) (\<lambda>t.
     if t \<noteq> None then throwR AlreadyMapped
     else
       bindR (alloc_frame X) (\<lambda>frame.
       bindR (zero_frame frame) (\<lambda>_.
       bindR (map_page X (sp_page sp) frame (sp_flags sp)) (\<lambda>ok.
       if \<not> ok then bindR (free_frame frame) (\<lambda>_. throwR MappingFailed)
       else
         bindR (translate X (sp_page sp)) (\<lambda>t.
         if t = None then throwR MappingFailed
         else bindR (push_page (sp_page sp)) (\<lambda>_. map_specs X rest))))))"

definition store_bytes :: "nat \<Rightarrow> bytes \<Rightarrow> (nat \<Rightarrow> u8) \<Rightarrow> nat \<Rightarrow> u8" where
  "store_bytes a bs mem = (\<lambda>x. if a \<le> x \<and> x < a + length bs then bs ! (x - a) else mem x)"

text \<open>The loop that copies the bytes of a segment page by page.\<close>

function copy_segment :: "('d, 'm) machine \<Rightarrow> nat \<Rightarrow> bytes \<Rightarrow> ('d, 'm, unit) up" where
  "copy_segment X va src =
     (if src = [] then returnR ()
      else
        bindR (containing_page X va) (\<lambda>page.
        bindR (translate X page) (\<lambda>t.
        if t = None then throwR MappingFailed
        else
          let n = min (PAGE_SIZE - va mod PAGE_SIZE) (length src) in
          bindR (modifyR (\<lambda>k. k\<lparr>k_mem := store_bytes va (take n src) (k_mem k)\<rparr>)) (\<lambda>_.
          copy_segment X (va + n) (drop n src)))))"
  by pat_completeness auto
termination
  by (relation "measure (\<lambda>(X, va, src). length src)") auto

declare copy_segment.simps [simp del]

primrec copy_segments :: "('d, 'm) machine \<Rightarrow> bytes \<Rightarrow> nat \<Rightarrow> program_header list \<Rightarrow> ('d, 'm, unit) up" where
  "copy_segments X img bias [] = returnR ()"
| "copy_segments X img bias (ph # rest) =
     (if p_vaddr ph + bias \<ge> u64_limit \<or> p_offset ph + p_filesz ph \<ge> u64_limit
        \<or> p_offset ph + p_filesz ph > length img then panicR
      else
        bindR (copy_segment X (p_vaddr ph + bias) (subslice (p_offset ph) (p_filesz ph) img)) (\<lambda>_.
        copy_segments X img bias rest))"

text \<open>A store to a user address; a page that is not mapped or not writable faults.\<close>

definition can_store :: "('d, 'm) machine \<Rightarrow> ('d, 'm) kernel \<Rightarrow> nat \<Rightarrow> bool" where
  "can_store X k a = (case (mc_page X a, k_mapper k) of
     (Some p, Some m) \<Rightarrow> pg_translate (mc_pager X) p m \<noteq> None \<and> pg_writable (mc_pager X) p m | _ \<Rightarrow> False)"

definition poke :: "('d, 'm) machine \<Rightarrow> nat \<Rightarrow> bytes \<Rightarrow> (('d, 'm) kernel, 'e, unit) prog" where
  "poke X a bs = (\<lambda>k.
     if list_all (can_store X k) [a..<a + length bs]
     then (Ok (), k\<lparr>k_mem := store_bytes a bs (k_mem k)\<rparr>) else (Panic, k))"

definition stack_sub :: "nat \<Rightarrow> nat \<Rightarrow> ('d, 'm, nat) up" where
  "stack_sub sp n = (if n \<le> sp then returnR (sp - n) else throwR StackOverflow)"

text \<open>Copies the strings, the last argument first; returns the stack pointer and the addresses in the
  order of the arguments.\<close>

primrec push_strings :: "('d, 'm) machine \<Rightarrow> bytes list \<Rightarrow> nat \<Rightarrow> nat list \<Rightarrow> ('d, 'm, nat \<times> nat list) up" where
  "push_strings X [] sp ptrs = returnR (sp, ptrs)"
| "push_strings X (arg # rest) sp ptrs =
     bindR (stack_sub sp (length arg + 1)) (\<lambda>sp.
     bindR (poke X sp (arg @ [0])) (\<lambda>_.
     push_strings X rest sp (sp # ptrs)))"

primrec push_words :: "('d, 'm) machine \<Rightarrow> nat list \<Rightarrow> nat \<Rightarrow> ('d, 'm, nat) up" where
  "push_words X [] sp = returnR sp"
| "push_words X (w # rest) sp =
     bindR (stack_sub sp 8) (\<lambda>sp.
     bindR (poke X sp (le_bytes 8 w)) (\<lambda>_.
     push_words X rest sp))"

definition build_stack :: "('d, 'm) machine \<Rightarrow> bytes list \<Rightarrow> ('d, 'm, nat) up" where
  "build_stack X args =
     bindR (push_strings X (rev args) USER_STACK_TOP []) (\<lambda>(sp, ptrs).
     push_words X ([0, 0] @ rev ptrs @ [length args]) (sp AND not64 0xf))"

definition ends_with_ox :: "bytes \<Rightarrow> bool" where
  "ends_with_ox path \<longleftrightarrow> length path \<ge> 3 \<and> drop (length path - 3) path = [0x2E, 0x6F, 0x78]"

text \<open>\<open>?\<close> on a \<open>Result\<close> of the file system.\<close>

definition files_or :: "'e \<Rightarrow> ('d, 'a) ff \<Rightarrow> (('d, 'm) kernel, 'e, 'a) prog" where
  "files_or e m = (\<lambda>k. case on_files m k of
     (Ok x, k') \<Rightarrow> (Ok x, k') | (Err _, k') \<Rightarrow> (Err e, k') | (Panic, k') \<Rightarrow> (Panic, k') | (Hang, k') \<Rightarrow> (Hang, k'))"

definition elf_or :: "(elf_error, 'a) res \<Rightarrow> ('d, 'm, 'a) up" where
  "elf_or r = (\<lambda>k. case r of Ok x \<Rightarrow> (Ok x, k) | Err e \<Rightarrow> (Err (UElf e), k) | Panic \<Rightarrow> (Panic, k) | Hang \<Rightarrow> (Hang, k))"

text \<open>On an error, clean up and return it.\<close>

definition or_cleanup :: "('d, 'm) machine \<Rightarrow> ('d, 'm, 'a) up \<Rightarrow> ('d, 'm, 'a) up" where
  "or_cleanup X m = (\<lambda>k. case m k of
     (Err e, k') \<Rightarrow> bindR (cleanup_process X) (\<lambda>_. throwR e) k' | r \<Rightarrow> r)"

definition load_image :: "('d, 'm) machine \<Rightarrow> bytes \<Rightarrow> elf64 \<Rightarrow> program_header list \<Rightarrow> ('d, 'm, page_spec list) up" where
  "load_image X img elf headers =
     (let bias = (if kind elf = ET_DYN then PIE_BASE else 0) in
      bindR (load_specs X bias headers []) (\<lambda>specs.
      bindR (stack_specs X (map (\<lambda>i. USER_STACK_TOP - USER_STACK_PAGES * PAGE_SIZE + i * PAGE_SIZE) [0..<USER_STACK_PAGES]) specs) (\<lambda>specs.
      bindR (or_cleanup X (
        bindR get_mapper (\<lambda>_.
        bindR get_allocator (\<lambda>_.
        bindR (map_specs X specs) (\<lambda>_.
        copy_segments X img bias headers))))) (\<lambda>_.
      returnR specs))))"

text \<open>Entering the program and cleaning up when it has ended.\<close>

definition run_image :: "('d, 'm) machine \<Rightarrow> elf64 \<Rightarrow> page_spec list \<Rightarrow> nat \<Rightarrow> ('d, 'm, nat) up" where
  "run_image X elf specs sp =
     (case checked_add (entry_point elf) (if kind elf = ET_DYN then PIE_BASE else 0) of
        None \<Rightarrow> throwR InvalidAddress
      | Some ent \<Rightarrow>
          if \<not> (\<exists>s\<in>set specs. in_page (sp_page s) ent)
          then bindR (cleanup_process X) (\<lambda>_. throwR InvalidAddress)
          else
            bindR (modifyR (\<lambda>k. k\<lparr>k_exit_requested := False, k_return_rsp := 0\<rparr>)) (\<lambda>_.
            bindR (\<lambda>k. case mc_run X ent sp k of (st, k') \<Rightarrow> (Ok st, k')) (\<lambda>status.
            bindR (cleanup_process X) (\<lambda>_.
            bindR (modifyR (\<lambda>k. k\<lparr>k_exit_requested := False\<rparr>)) (\<lambda>_.
            returnR status)))))"

definition exec :: "('d, 'm) machine \<Rightarrow> bytes \<Rightarrow> bytes list \<Rightarrow> ('d, 'm, nat) up" where
  "exec X path argv =
     (if \<not> ends_with_ox path then throwR InvalidAddress
      else
        bindR (files_or UFs (ff_read_file (mc_dev X) (mc_drives X) path)) (\<lambda>img.
        bindR (elf_or (elf_parse (mc_elf X) img)) (\<lambda>elf.
        bindR (elf_or (elf_load_headers elf img)) (\<lambda>headers.
        bindR (load_image X img elf headers) (\<lambda>specs.
        bindR (build_stack X (path # argv)) (\<lambda>sp.
        run_image X elf specs sp))))))"

end
