(* ===== verification/User_Correct.thy ===== *)
theory User_Correct
  imports User Frame_Correct
begin

text \<open>
  The memory of processes: the pages of a process are mapped to frames of their own, whatever sequence
  of memory requests a program makes, and cleaning up returns all of them. The documented behaviour of
  the page tables is the hypothesis \<open>paging_ok\<close>.
\<close>

section \<open>Pages\<close>

lemma page_down_eq: "v < u64_limit \<Longrightarrow> page_down v = page_of v"
  using and_not64_mask [of 12 v] by (simp add: page_down_def page_of_def)

lemma page_up_eq: "page_up v = (if v + 0xfff < u64_limit then Ok (page_of (v + 0xfff)) else Panic)"
  using and_not64_mask [of 12 "v + 0xfff"] by (simp add: page_up_def page_of_def)

lemma page_of_aligned [simp]: "PAGE_SIZE dvd page_of a"
  by (simp add: page_of_def)

lemma page_of_le: "page_of a \<le> a" and page_of_gt: "a < page_of a + PAGE_SIZE"
  using div_mult_mod_eq [of a PAGE_SIZE] mod_less_divisor [of PAGE_SIZE a] by (simp_all add: page_of_def)

lemma page_of_id: "PAGE_SIZE dvd p \<Longrightarrow> page_of p = p"
  by (simp add: page_of_def)

lemma page_of_eq_iff: "PAGE_SIZE dvd p \<Longrightarrow> page_of a = p \<longleftrightarrow> in_page p a"
  using page_of_le [of a] page_of_gt [of a] aligned_below [of p "page_of a"] aligned_below [of "page_of a" p]
  by (fastforce simp: in_page_def)

lemma page_of_mono: "a \<le> b \<Longrightarrow> page_of a \<le> page_of b"
  by (simp add: page_of_def div_le_mono)

lemma USER_MAX_aligned: "PAGE_SIZE dvd USER_MAX"
  by simp

lemma page_of_below: "a < USER_MAX \<Longrightarrow> page_of a + PAGE_SIZE \<le> USER_MAX"
  using page_of_le [of a] by (intro aligned_below) simp_all

lemma set_page_steps:
  assumes "PAGE_SIZE dvd first"
  shows "a \<in> set (page_steps first bound) \<longleftrightarrow> PAGE_SIZE dvd a \<and> first \<le> a \<and> a < bound"
proof
  assume "a \<in> set (page_steps first bound)"
  then obtain i where i: "a = first + i * PAGE_SIZE" "i < (bound - first + (PAGE_SIZE - 1)) div PAGE_SIZE"
    by (auto simp: page_steps_def)
  then have "i + 1 \<le> (bound - first + (PAGE_SIZE - 1)) div PAGE_SIZE" by simp
  then have "(i + 1) * PAGE_SIZE \<le> bound - first + (PAGE_SIZE - 1)"
    by (simp add: less_eq_div_iff_mult_less_eq)
  with i(1) assms show "PAGE_SIZE dvd a \<and> first \<le> a \<and> a < bound" by auto
next
  assume a: "PAGE_SIZE dvd a \<and> first \<le> a \<and> a < bound"
  then obtain i where i: "a = first + i * PAGE_SIZE"
    using assms by (metis dvd_diff_nat le_add_diff_inverse dvd_div_mult_self)
  with a have "(i + 1) * PAGE_SIZE \<le> bound - first + (PAGE_SIZE - 1)" by auto
  then have "i + 1 \<le> (bound - first + (PAGE_SIZE - 1)) div PAGE_SIZE"
    by (simp add: less_eq_div_iff_mult_less_eq)
  with i show "a \<in> set (page_steps first bound)" by (auto simp: page_steps_def)
qed

lemma distinct_page_steps: "distinct (page_steps first bound)"
  by (simp add: page_steps_def distinct_map inj_on_def)

section \<open>The page tables\<close>

text \<open>What a call of \<open>map_to\<close> may do with the allocator: take frames, and write to frames that are held.\<close>

inductive table_step ::
  "(nat \<Rightarrow> nat option) \<Rightarrow> nat set \<Rightarrow> frame_allocator \<times> nat set \<Rightarrow> frame_allocator \<times> nat set \<Rightarrow> bool"
  for containing held where
  take: "allocate_frame containing s = (Ok (Some f), s') \<Longrightarrow> table_step containing held (s, new) (s', insert f new)"
| none: "allocate_frame containing s = (Ok None, s') \<Longrightarrow> table_step containing held (s, new) (s', new)"
| store: "(\<And>x. mem x \<noteq> phys_mem s x \<Longrightarrow>
      \<exists>f\<in>held \<union> new. {x..<x + 8} \<inter> {phys_to_virt s f..<phys_to_virt s f + FRAME_SIZE} \<noteq> {}) \<Longrightarrow>
    table_step containing held (s, new) (s\<lparr>phys_mem := mem\<rparr>, new)"

text \<open>The documented behaviour of \<open>VirtAddr::new\<close>, \<open>Page::containing_address\<close> and the \<open>Mapper\<close>; \<open>tb\<close> gives the
  frames that hold the tables. \<open>map_to\<close> and \<open>update_flags\<close> change the entry of one page, \<open>unmap\<close> removes
  it and returns its frame; only \<open>map_to\<close> adds tables.\<close>

definition page_api :: "(nat \<Rightarrow> nat option) \<Rightarrow> bool" where
  "page_api pg \<longleftrightarrow> (\<forall>a < USER_MAX. pg a = Some (page_of a)) \<and> (\<forall>a p. pg a = Some p \<longrightarrow> p = page_of a)"

definition map_to_ok :: "(nat \<Rightarrow> nat option) \<Rightarrow> 'm pager_ops \<Rightarrow> ('m \<Rightarrow> nat set) \<Rightarrow> bool" where
  "map_to_ok containing P tb \<longleftrightarrow> (\<forall>p f fl m fa ok m' fa'. pg_map_to P p f fl (m, fa) = (ok, m', fa') \<longrightarrow>
     (\<forall>q. pg_translate P q m' = (if ok \<and> q = p then Some f else pg_translate P q m)
        \<and> pg_writable P q m' = (if ok \<and> q = p then fl_writable fl else pg_writable P q m))
     \<and> tb m \<subseteq> tb m'
     \<and> (\<forall>held. insert f (tb m) \<subseteq> held \<longrightarrow> (table_step containing held)\<^sup>*\<^sup>* (fa, {}) (fa', tb m' - tb m)))"

definition unmap_ok :: "'m pager_ops \<Rightarrow> ('m \<Rightarrow> nat set) \<Rightarrow> bool" where
  "unmap_ok P tb \<longleftrightarrow> (\<forall>p m r m'. pg_unmap P p m = (r, m') \<longrightarrow> r = pg_translate P p m \<and> tb m' = tb m
     \<and> (\<forall>q. pg_translate P q m' = (if q = p then None else pg_translate P q m)
        \<and> (q \<noteq> p \<longrightarrow> pg_writable P q m' = pg_writable P q m)))"

definition update_ok :: "'m pager_ops \<Rightarrow> ('m \<Rightarrow> nat set) \<Rightarrow> bool" where
  "update_ok P tb \<longleftrightarrow> (\<forall>p fl m ok m'. pg_update_flags P p fl m = (ok, m') \<longrightarrow> (ok \<longleftrightarrow> pg_translate P p m \<noteq> None)
     \<and> tb m' = tb m \<and> (\<forall>q. pg_translate P q m' = pg_translate P q m
        \<and> pg_writable P q m' = (if ok \<and> q = p then fl_writable fl else pg_writable P q m)))"

definition paging_ok :: "('d, 'm) machine \<Rightarrow> ('m \<Rightarrow> nat set) \<Rightarrow> bool" where
  "paging_ok X tb \<longleftrightarrow> phys_frame_api (mc_containing X) \<and> page_api (mc_page X)
     \<and> map_to_ok (mc_containing X) (mc_pager X) tb \<and> unmap_ok (mc_pager X) tb \<and> update_ok (mc_pager X) tb"

lemma table_steps_inv:
  assumes "(table_step containing held)\<^sup>*\<^sup>* c c'" and "\<exists>xs. frame_inv (fst c) xs (held \<union> snd c)"
    and "held \<inter> snd c = {}" and "phys_frame_api containing"
  shows "(\<exists>xs. frame_inv (fst c') xs (held \<union> snd c')) \<and> held \<inter> snd c' = {}"
  using assms(1)
proof (induction rule: rtranclp_induct)
  case base
  from assms(2,3) show ?case by blast
next
  case (step c' c'')
  obtain s new where c': "c' = (s, new)" by (cases c')
  with step.IH obtain xs where inv: "frame_inv s xs (held \<union> new)" and dis: "held \<inter> new = {}" by auto
  note al = frame_inv_alloc [OF inv assms(4)]
  from step.hyps(2) show ?case unfolding c'
  proof (cases rule: table_step.cases)
    case (take f s')
    with al dis show ?thesis by auto
  next
    case (none s')
    with al dis show ?thesis by auto
  next
    case (store mem)
    with frame_inv_store [OF inv] dis show ?thesis by auto
  qed
qed

lemma map_to_okD:
  assumes "map_to_ok containing P tb" and "pg_map_to P p f fl (m, fa) = (ok, m', fa')"
  shows "\<forall>q. pg_translate P q m' = (if ok \<and> q = p then Some f else pg_translate P q m)
        \<and> pg_writable P q m' = (if ok \<and> q = p then fl_writable fl else pg_writable P q m)"
    and "tb m \<subseteq> tb m'"
    and "insert f (tb m) \<subseteq> held \<Longrightarrow> (table_step containing held)\<^sup>*\<^sup>* (fa, {}) (fa', tb m' - tb m)"
proof -
  note D = assms(1) [unfolded map_to_ok_def, rule_format, OF assms(2)]
  from D show "\<forall>q. pg_translate P q m' = (if ok \<and> q = p then Some f else pg_translate P q m)
        \<and> pg_writable P q m' = (if ok \<and> q = p then fl_writable fl else pg_writable P q m)" by (rule conjunct1)
  from D show "tb m \<subseteq> tb m'" by (elim conjE)
  from D show "insert f (tb m) \<subseteq> held \<Longrightarrow> (table_step containing held)\<^sup>*\<^sup>* (fa, {}) (fa', tb m' - tb m)"
    by (elim conjE) (erule allE, erule mp)
qed

lemma unmap_okD:
  assumes "unmap_ok P tb" and "pg_unmap P p m = (r, m')"
  shows "r = pg_translate P p m" and "tb m' = tb m"
    and "\<forall>q. pg_translate P q m' = (if q = p then None else pg_translate P q m)
        \<and> (q \<noteq> p \<longrightarrow> pg_writable P q m' = pg_writable P q m)"
  using assms(1) [unfolded unmap_ok_def, rule_format, OF assms(2)] by - (elim conjE, assumption)+

lemma update_okD:
  assumes "update_ok P tb" and "pg_update_flags P p fl m = (ok, m')"
  shows "ok \<longleftrightarrow> pg_translate P p m \<noteq> None" and "tb m' = tb m"
    and "\<forall>q. pg_translate P q m' = pg_translate P q m
        \<and> pg_writable P q m' = (if ok \<and> q = p then fl_writable fl else pg_writable P q m)"
  using assms(1) [unfolded update_ok_def, rule_format, OF assms(2)] by - (elim conjE, assumption)+

section \<open>Ownership of frames\<close>

text \<open>The frames the process's pages are mapped to.\<close>

definition frames_of :: "('d, 'm) machine \<Rightarrow> 'm \<Rightarrow> nat list \<Rightarrow> nat set" where
  "frames_of X m ps = {f. \<exists>p\<in>set ps. pg_translate (mc_pager X) p m = Some f}"

definition pages_ok :: "('d, 'm) machine \<Rightarrow> 'm \<Rightarrow> nat list \<Rightarrow> bool" where
  "pages_ok X m ps \<longleftrightarrow> distinct ps \<and> inj_on (\<lambda>p. pg_translate (mc_pager X) p m) (set ps)
     \<and> (\<forall>p\<in>set ps. PAGE_SIZE dvd p \<and> p < USER_MAX \<and> pg_translate (mc_pager X) p m \<noteq> None)"

text \<open>The frames in use are those of the page tables, those of the pages of the process, and \<open>others\<close>,
  held by the rest of the kernel; no frame is in two of these sets, and no two pages share a frame.\<close>

definition owns :: "('d, 'm) machine \<Rightarrow> ('m \<Rightarrow> nat set) \<Rightarrow> nat set \<Rightarrow> ('d, 'm) kernel \<Rightarrow> bool" where
  "owns X tb others k \<longleftrightarrow> (\<exists>m fa xs. k_mapper k = Some m \<and> k_frames k = Some fa
     \<and> frame_inv fa xs (others \<union> tb m \<union> frames_of X m (k_pages k))
     \<and> others \<inter> tb m = {} \<and> (others \<union> tb m) \<inter> frames_of X m (k_pages k) = {} \<and> pages_ok X m (k_pages k))"

lemma owns_cong:
  "k_mapper k' = k_mapper k \<Longrightarrow> k_frames k' = k_frames k \<Longrightarrow> k_pages k' = k_pages k \<Longrightarrow> owns X tb others k' = owns X tb others k"
  by (simp add: owns_def)

lemma owns_frames:
  assumes "owns X tb others k" and "k_frames k = Some fa"
    and "\<And>xs out. frame_inv fa xs out \<Longrightarrow> others \<subseteq> out \<Longrightarrow> \<exists>ys. frame_inv fa' ys (out \<union> new)"
    and "\<And>xs out. frame_inv fa xs out \<Longrightarrow> others \<subseteq> out \<Longrightarrow> out \<inter> new = {}"
  shows "owns X tb (others \<union> new) (k\<lparr>k_frames := Some fa'\<rparr>) \<and> others \<inter> new = {}"
proof -
  from assms(1,2) obtain m xs where o: "k_mapper k = Some m"
      "frame_inv fa xs (others \<union> tb m \<union> frames_of X m (k_pages k))" "others \<inter> tb m = {}"
      "(others \<union> tb m) \<inter> frames_of X m (k_pages k) = {}" "pages_ok X m (k_pages k)"
    by (auto simp: owns_def)
  from assms(3) [OF o(2)] obtain ys where "frame_inv fa' ys (others \<union> tb m \<union> frames_of X m (k_pages k) \<union> new)" by blast
  moreover have "(others \<union> tb m \<union> frames_of X m (k_pages k)) \<inter> new = {}"
    using assms(4) [OF o(2)] by blast
  moreover have "others \<union> tb m \<union> frames_of X m (k_pages k) \<union> new = others \<union> new \<union> tb m \<union> frames_of X m (k_pages k)" by blast
  ultimately show ?thesis using o by (auto simp: owns_def)
qed

lemma owns_alloc:
  assumes "owns X tb others k" and "paging_ok X tb"
  shows "\<exists>fa'. alloc_frame X k = (Err OutOfMemory, k\<lparr>k_frames := Some fa'\<rparr>) \<and> owns X tb others (k\<lparr>k_frames := Some fa'\<rparr>)
    \<or> (\<exists>f. alloc_frame X k = (Ok f, k\<lparr>k_frames := Some fa'\<rparr>)
        \<and> owns X tb (insert f others) (k\<lparr>k_frames := Some fa'\<rparr>) \<and> f \<notin> others)"
proof -
  from assms(1) obtain fa m xs where fa: "k_frames k = Some fa"
      "frame_inv fa xs (others \<union> tb m \<union> frames_of X m (k_pages k))"
    by (auto simp: owns_def)
  have api: "phys_frame_api (mc_containing X)" using assms(2) by (simp add: paging_ok_def)
  from frame_inv_alloc [OF fa(2) api] obtain r fa' where r: "allocate_frame (mc_containing X) fa = (Ok r, fa')" by blast
  note any = frame_inv_alloc [OF _ api, of fa, unfolded r]
  show ?thesis
  proof (cases r)
    case None
    have "owns X tb (others \<union> {}) (k\<lparr>k_frames := Some fa'\<rparr>) \<and> others \<inter> {} = {}"
      by (rule owns_frames [OF assms(1) fa(1)]) (use any None in fastforce)+
    with None r fa(1) show ?thesis by (auto simp: alloc_frame_def get_allocator_def bindR_def)
  next
    case (Some f)
    have "owns X tb (others \<union> {f}) (k\<lparr>k_frames := Some fa'\<rparr>) \<and> others \<inter> {f} = {}"
      by (rule owns_frames [OF assms(1) fa(1)]) (use any Some in fastforce)+
    with Some r fa(1) show ?thesis by (auto simp: alloc_frame_def get_allocator_def bindR_def)
  qed
qed

lemma owns_zero:
  assumes "owns X tb others k" and "f \<in> others"
  shows "\<exists>fa'. zero_frame f k = (Ok (), k\<lparr>k_frames := Some fa'\<rparr>) \<and> owns X tb others (k\<lparr>k_frames := Some fa'\<rparr>)"
proof -
  from assms(1) obtain fa where fa: "k_frames k = Some fa" by (auto simp: owns_def)
  let ?mem = "\<lambda>a. if phys_to_virt fa f \<le> a \<and> a < phys_to_virt fa f + PAGE_SIZE then 0 else phys_mem fa a"
  let ?fa = "fa\<lparr>phys_mem := ?mem\<rparr>"
  have inv: "frame_inv ?fa xs out" if "frame_inv fa xs out" and "others \<subseteq> out" for xs out
  proof (rule frame_inv_store [OF that(1)])
    fix x assume "?mem x \<noteq> phys_mem fa x"
    then have "phys_to_virt fa f \<le> x \<and> x < phys_to_virt fa f + PAGE_SIZE" by (simp split: if_splits)
    then have "x \<in> {x..<x + 8} \<inter> {phys_to_virt fa f..<phys_to_virt fa f + FRAME_SIZE}" by simp
    with assms(2) that(2) show "\<exists>f\<in>out. {x..<x + 8} \<inter> {phys_to_virt fa f..<phys_to_virt fa f + FRAME_SIZE} \<noteq> {}"
      by blast
  qed
  have "owns X tb (others \<union> {}) (k\<lparr>k_frames := Some ?fa\<rparr>) \<and> others \<inter> {} = {}"
    by (rule owns_frames [OF assms(1) fa]) (use inv in auto)
  with fa show ?thesis by (auto simp: zero_frame_def)
qed

lemma owns_map:
  assumes "owns X tb others k" and "f \<in> others" and "paging_ok X tb"
    and "k_mapper k = Some m" and "pg_translate (mc_pager X) p m = None"
  shows "\<exists>ok m' fa'. let k' = k\<lparr>k_mapper := Some m', k_frames := Some fa',
      k_mem := (\<lambda>a. if ok \<and> in_page p a then 0 else k_mem k a)\<rparr> in
    map_page X p f fl k = (Ok ok, k') \<and> owns X tb others k'
    \<and> (\<forall>q. pg_translate (mc_pager X) q m' = (if ok \<and> q = p then Some f else pg_translate (mc_pager X) q m)
        \<and> pg_writable (mc_pager X) q m' = (if ok \<and> q = p then fl_writable fl else pg_writable (mc_pager X) q m))"
proof -
  let ?F = "frames_of X m (k_pages k)"
  from assms(1,4) obtain fa xs where o: "k_frames k = Some fa" "frame_inv fa xs (others \<union> tb m \<union> ?F)"
      "others \<inter> tb m = {}" "(others \<union> tb m) \<inter> ?F = {}" "pages_ok X m (k_pages k)"
    by (auto simp: owns_def)
  obtain ok m' fa' where mt: "pg_map_to (mc_pager X) p f fl (m, fa) = (ok, m', fa')"
    by (metis prod_cases3)
  have laws: "phys_frame_api (mc_containing X)" "map_to_ok (mc_containing X) (mc_pager X) tb"
    using assms(3) by (auto simp: paging_ok_def)
  note tr = map_to_okD(1) [OF laws(2) mt] and sub = map_to_okD(2) [OF laws(2) mt]
  have steps: "(table_step (mc_containing X) (others \<union> tb m \<union> ?F))\<^sup>*\<^sup>* (fa, {}) (fa', tb m' - tb m)"
    using assms(2) by (intro map_to_okD(3) [OF laws(2) mt]) blast
  obtain ys where new: "frame_inv fa' ys (others \<union> tb m \<union> ?F \<union> (tb m' - tb m))"
      "(others \<union> tb m \<union> ?F) \<inter> (tb m' - tb m) = {}"
    using table_steps_inv [OF steps _ _ laws(1)] o(2) by auto
  have notin: "p \<notin> set (k_pages k)" using o(5) assms(5) by (auto simp: pages_ok_def)
  have same: "pg_translate (mc_pager X) q m' = pg_translate (mc_pager X) q m" if "q \<in> set (k_pages k)" for q
    using tr that notin by auto
  then have "frames_of X m' (k_pages k) = ?F" "pages_ok X m' (k_pages k)"
    using o(5) by (auto simp: frames_of_def pages_ok_def inj_on_def)
  moreover have "others \<union> tb m \<union> ?F \<union> (tb m' - tb m) = others \<union> tb m' \<union> ?F" using sub by blast
  ultimately have "owns X tb others (k\<lparr>k_mapper := Some m', k_frames := Some fa', k_mem := g\<rparr>)" for g
    using new o(3,4) by (auto simp: owns_def)
  with mt tr o(1) assms(4) show ?thesis
    by (intro exI [of _ ok] exI [of _ m'] exI [of _ fa'])
      (simp add: map_page_def get_mapper_def get_allocator_def bindR_def Let_def)
qed

lemma owns_push:
  assumes "owns X tb others k" and "f \<in> others" and "k_mapper k = Some m"
    and "pg_translate (mc_pager X) p m = Some f" and "PAGE_SIZE dvd p" and "p < USER_MAX" and "p \<notin> set (k_pages k)"
  shows "owns X tb (others - {f}) (k\<lparr>k_pages := k_pages k @ [p]\<rparr>)"
proof -
  let ?F = "frames_of X m (k_pages k)"
  from assms(1,3) obtain fa xs where o: "k_frames k = Some fa" "frame_inv fa xs (others \<union> tb m \<union> ?F)"
      "others \<inter> tb m = {}" "(others \<union> tb m) \<inter> ?F = {}" "pages_ok X m (k_pages k)"
    by (auto simp: owns_def)
  have F: "frames_of X m (k_pages k @ [p]) = insert f ?F"
    using assms(4) by (auto simp: frames_of_def)
  have "f \<notin> ?F" using o(4) assms(2) by blast
  then have "\<forall>q\<in>set (k_pages k). pg_translate (mc_pager X) q m \<noteq> Some f" by (simp add: frames_of_def)
  then have "pages_ok X m (k_pages k @ [p])"
    using o(5) assms(4-7) by (auto simp: pages_ok_def inj_on_def)
  moreover have "others - {f} \<union> tb m \<union> insert f ?F = others \<union> tb m \<union> ?F" using assms(2) by blast
  ultimately show ?thesis
    using o assms(2,3) by (auto simp: owns_def F)
qed

lemma owns_release:
  assumes "owns X tb others (k\<lparr>k_pages := ps\<rparr>)" and "p \<in> set ps" and "paging_ok X tb" and "k_mapper k = Some m"
  shows "\<exists>m' fa'. let k' = k\<lparr>k_mapper := Some m', k_frames := Some fa'\<rparr> in
    release_page X p k = (Ok True, k')
    \<and> (\<forall>ps'. distinct ps' \<longrightarrow> set ps' = set ps - {p} \<longrightarrow> owns X tb others (k'\<lparr>k_pages := ps'\<rparr>))
    \<and> (\<forall>q. pg_translate (mc_pager X) q m' = (if q = p then None else pg_translate (mc_pager X) q m)
        \<and> (q \<noteq> p \<longrightarrow> pg_writable (mc_pager X) q m' = pg_writable (mc_pager X) q m))"
proof -
  let ?F = "frames_of X m ps"
  from assms(1,4) obtain fa xs where o: "k_frames k = Some fa" "frame_inv fa xs (others \<union> tb m \<union> ?F)"
      "others \<inter> tb m = {}" "(others \<union> tb m) \<inter> ?F = {}" "pages_ok X m ps"
    by (auto simp: owns_def)
  obtain r m' where um: "pg_unmap (mc_pager X) p m = (r, m')" by (metis surj_pair)
  have law: "unmap_ok (mc_pager X) tb" using assms(3) by (simp add: paging_ok_def)
  note r = unmap_okD(1,2) [OF law um] and tr = unmap_okD(3) [OF law um]
  from o(5) assms(2) obtain f where f: "pg_translate (mc_pager X) p m = Some f" by (auto simp: pages_ok_def)
  then have fF: "f \<in> ?F" using assms(2) by (auto simp: frames_of_def)
  then obtain fa' where fa': "deallocate_frame f fa = (Ok (), fa')"
      "frame_inv fa' (f # xs) (others \<union> tb m \<union> ?F - {f})"
    using frame_inv_give [OF o(2), of f] by blast
  have own: "owns X tb others (k\<lparr>k_mapper := Some m', k_frames := Some fa', k_pages := ps'\<rparr>)"
    if ps': "distinct ps'" "set ps' = set ps - {p}" for ps'
  proof -
    have inj: "q = p" if "q \<in> set ps" "pg_translate (mc_pager X) q m = Some f" for q
      using o(5) that assms(2) f unfolding pages_ok_def inj_on_def by metis
    have tr': "pg_translate (mc_pager X) q m' = pg_translate (mc_pager X) q m" if "q \<in> set ps'" for q
      using tr that ps'(2) by auto
    have F: "frames_of X m' ps' = ?F - {f}"
      using inj f by (auto simp: frames_of_def tr' ps'(2))
    moreover have "pages_ok X m' ps'"
      using o(5) ps' tr' by (auto simp: pages_ok_def inj_on_def)
    moreover have "others \<union> tb m \<union> (?F - {f}) = others \<union> tb m \<union> ?F - {f}" using o(4) fF by blast
    ultimately show ?thesis
      using fa'(2) o(3,4) r(2) by (auto simp: owns_def)
  qed
  with um r f fa'(1) o(1) assms(4) tr show ?thesis
    by (intro exI [of _ m'] exI [of _ fa'])
      (simp add: release_page_def get_mapper_def get_allocator_def free_frame_def bindR_def Let_def)
qed

section \<open>Changes of the memory of a process\<close>

definition is_mapped :: "('d, 'm) machine \<Rightarrow> ('d, 'm) kernel \<Rightarrow> nat \<Rightarrow> bool" where
  "is_mapped X k p \<longleftrightarrow> (\<exists>m. k_mapper k = Some m \<and> pg_translate (mc_pager X) p m \<noteq> None)"

definition is_writable :: "('d, 'm) machine \<Rightarrow> ('d, 'm) kernel \<Rightarrow> nat \<Rightarrow> bool" where
  "is_writable X k p \<longleftrightarrow> (\<exists>m. k_mapper k = Some m \<and> pg_writable (mc_pager X) p m)"

text \<open>Where a page is mapped, whether it is writable, and what it holds.\<close>

definition frame_at :: "('d, 'm) machine \<Rightarrow> ('d, 'm) kernel \<Rightarrow> nat \<Rightarrow> nat option" where
  "frame_at X k p = Option.bind (k_mapper k) (pg_translate (mc_pager X) p)"

definition same_page :: "('d, 'm) machine \<Rightarrow> nat \<Rightarrow> ('d, 'm) kernel \<Rightarrow> ('d, 'm) kernel \<Rightarrow> bool" where
  "same_page X p k k' \<longleftrightarrow> frame_at X k' p = frame_at X k p \<and> is_writable X k' p = is_writable X k p
     \<and> (\<forall>a. in_page p a \<longrightarrow> k_mem k' a = k_mem k a)"

definition fresh_page :: "('d, 'm) machine \<Rightarrow> bool \<Rightarrow> nat \<Rightarrow> ('d, 'm) kernel \<Rightarrow> bool" where
  "fresh_page X w p k \<longleftrightarrow> is_mapped X k p \<and> is_writable X k p = w \<and> (\<forall>a. in_page p a \<longrightarrow> k_mem k a = 0)"

text \<open>Everything but the memory of the process.\<close>

definition same_rest :: "('d, 'm) kernel \<Rightarrow> ('d, 'm) kernel \<Rightarrow> bool" where
  "same_rest k k' \<longleftrightarrow> k' = k\<lparr>k_mapper := k_mapper k', k_frames := k_frames k', k_pages := k_pages k', k_mem := k_mem k'\<rparr>"

lemma same_rest_refl [simp]: "same_rest k k"
  by (simp add: same_rest_def)

lemma same_rest_trans: "same_rest k k' \<Longrightarrow> same_rest k' k'' \<Longrightarrow> same_rest k k''"
  unfolding same_rest_def by (drule arg_cong [where f = "\<lambda>x. x\<lparr>k_mapper := k_mapper k'', k_frames := k_frames k'', k_pages := k_pages k'', k_mem := k_mem k''\<rparr>"]) simp

lemma is_mapped_frame_at: "is_mapped X k p \<longleftrightarrow> frame_at X k p \<noteq> None"
  by (auto simp: is_mapped_def frame_at_def Option.bind_eq_None_conv)

lemma frame_at_Some [simp]: "k_mapper k = Some m \<Longrightarrow> frame_at X k p = pg_translate (mc_pager X) p m"
  by (simp add: frame_at_def)

lemma is_writable_Some [simp]: "k_mapper k = Some m \<Longrightarrow> is_writable X k p = pg_writable (mc_pager X) p m"
  by (simp add: is_writable_def)

lemma same_page_refl [simp]: "same_page X p k k"
  by (simp add: same_page_def)

lemma same_page_trans: "same_page X p k k' \<Longrightarrow> same_page X p k' k'' \<Longrightarrow> same_page X p k k''"
  by (simp add: same_page_def)

text \<open>New pages of \<open>ps\<close> have appeared, filled with zeros; all pages that were mapped are as before.\<close>

definition same_or_new :: "('d, 'm) machine \<Rightarrow> bool \<Rightarrow> nat set \<Rightarrow> ('d, 'm) kernel \<Rightarrow> ('d, 'm) kernel \<Rightarrow> nat \<Rightarrow> bool" where
  "same_or_new X w ps k k' p \<longleftrightarrow> same_page X p k k'
     \<or> p \<in> ps \<and> \<not> is_mapped X k p \<and> fresh_page X w p k' \<and> p \<in> set (k_pages k')"

definition grown :: "('d, 'm) machine \<Rightarrow> bool \<Rightarrow> nat set \<Rightarrow> ('d, 'm) kernel \<Rightarrow> ('d, 'm) kernel \<Rightarrow> bool" where
  "grown X w ps k k' \<longleftrightarrow> same_rest k k' \<and> (\<forall>p. PAGE_SIZE dvd p \<longrightarrow> same_or_new X w ps k k' p)
     \<and> set (k_pages k) \<subseteq> set (k_pages k')"

lemma grown_refl: "grown X w ps k k"
  by (simp add: grown_def same_or_new_def)

lemma same_page_mapped: "same_page X p k k' \<Longrightarrow> is_mapped X k' p = is_mapped X k p"
  by (simp add: same_page_def is_mapped_frame_at)

lemma same_page_fresh: "same_page X p k k' \<Longrightarrow> fresh_page X w p k \<Longrightarrow> fresh_page X w p k'"
  by (simp add: same_page_def fresh_page_def is_mapped_frame_at)

lemma same_or_new_trans:
  assumes "same_or_new X w ps k k' p" and "same_or_new X w ps k' k'' p" and "set (k_pages k') \<subseteq> set (k_pages k'')"
  shows "same_or_new X w ps k k'' p"
proof (cases "same_page X p k k'")
  case True
  note mapped = same_page_mapped [OF True]
  show ?thesis
  proof (cases "same_page X p k' k''")
    case True
    with \<open>same_page X p k k'\<close> show ?thesis
      unfolding same_or_new_def by (blast intro: same_page_trans)
  next
    case False
    with assms(2) mapped show ?thesis by (simp add: same_or_new_def)
  qed
next
  case False
  with assms(1) have n: "p \<in> ps" "\<not> is_mapped X k p" "fresh_page X w p k'" "p \<in> set (k_pages k')"
    by (auto simp: same_or_new_def)
  then have "same_page X p k' k''"
    using assms(2) by (simp add: same_or_new_def fresh_page_def)
  from same_page_fresh [OF this n(3)] n assms(3) show ?thesis
    by (auto simp: same_or_new_def)
qed

lemma grown_trans: "grown X w ps k k' \<Longrightarrow> grown X w ps k' k'' \<Longrightarrow> grown X w ps k k''"
  unfolding grown_def by (metis same_or_new_trans same_rest_trans subset_trans)

lemma grown_mapped: "grown X w ps k k' \<Longrightarrow> PAGE_SIZE dvd p \<Longrightarrow> is_mapped X k p \<Longrightarrow> is_mapped X k' p"
  by (auto simp: grown_def same_or_new_def dest: same_page_mapped)

text \<open>The outcome of a request for memory: when a frame could not be mapped, it is lost.\<close>

definition outcome :: "('d, 'm) machine \<Rightarrow> ('m \<Rightarrow> nat set) \<Rightarrow> nat set \<Rightarrow> (user_error, 'a) res \<times> ('d, 'm) kernel \<Rightarrow> bool" where
  "outcome X tb others rk \<longleftrightarrow> fst rk \<noteq> Hang \<and>
     (owns X tb others (snd rk) \<or> fst rk = Err MappingFailed \<and> (\<exists>f. owns X tb (insert f others) (snd rk)))"

text \<open>Taking a frame, clearing it and mapping a page to it.\<close>

lemma grown_frames: "grown X w ps k (k\<lparr>k_frames := fa\<rparr>)"
  by (simp add: grown_def same_rest_def same_or_new_def same_page_def frame_at_def is_writable_def)

lemma new_page:
  fixes F :: "nat \<Rightarrow> bool \<Rightarrow> ('d, 'm, 'a) up" and fl :: page_flags
  assumes "owns X tb others k" and "paging_ok X tb" and "\<not> is_mapped X k p" and "PAGE_SIZE dvd p" and "p < USER_MAX"
  defines "M \<equiv> bindR (alloc_frame X) (\<lambda>f. bindR (zero_frame f) (\<lambda>_. bindR (map_page X p f fl) (F f)))"
  obtains k1 where "M k = (Err OutOfMemory, k1)" and "owns X tb others k1" and "grown X (fl_writable fl) ps k k1"
  | f k1 where "M k = F f False k1" and "owns X tb (insert f others) k1" and "f \<notin> others"
      and "grown X (fl_writable fl) ps k k1"
  | f k1 where "M k = F f True k1" and "is_mapped X k1 p"
      and "owns X tb others (k1\<lparr>k_pages := k_pages k1 @ [p]\<rparr>)"
      and "p \<in> ps \<Longrightarrow> grown X (fl_writable fl) ps k (k1\<lparr>k_pages := k_pages k1 @ [p]\<rparr>)"
proof -
  consider (full) fa where "alloc_frame X k = (Err OutOfMemory, k\<lparr>k_frames := Some fa\<rparr>)" "owns X tb others (k\<lparr>k_frames := Some fa\<rparr>)"
    | (got) fa f where "alloc_frame X k = (Ok f, k\<lparr>k_frames := Some fa\<rparr>)"
        "owns X tb (insert f others) (k\<lparr>k_frames := Some fa\<rparr>)" "f \<notin> others"
    using owns_alloc [OF assms(1,2)] by blast
  then show thesis
  proof cases
    case full
    then have "M k = (Err OutOfMemory, k\<lparr>k_frames := Some fa\<rparr>)" by (simp add: M_def bindR_def)
    with full(2) grown_frames show thesis by (blast intro: that(1))
  next
    case got
    let ?ka = "k\<lparr>k_frames := Some fa\<rparr>"
    obtain fb where z: "zero_frame f ?ka = (Ok (), ?ka\<lparr>k_frames := Some fb\<rparr>)"
        "owns X tb (insert f others) (?ka\<lparr>k_frames := Some fb\<rparr>)"
      using owns_zero [OF got(2), of f] by blast
    let ?kz = "k\<lparr>k_frames := Some fb\<rparr>"
    have z': "zero_frame f ?ka = (Ok (), ?kz)" "owns X tb (insert f others) ?kz" using z by simp_all
    from assms(1) obtain m where m: "k_mapper k = Some m" by (auto simp: owns_def)
    then have none: "pg_translate (mc_pager X) p m = None"
      using assms(3) by (simp add: is_mapped_def)
    have "k_mapper ?kz = Some m" using m by simp
    from owns_map [OF z'(2) insertI1 assms(2) this none, where fl = fl, unfolded Let_def] m
    obtain ok m' fa' where mp: "map_page X p f fl ?kz = (Ok ok, k\<lparr>k_mapper := Some m', k_frames := Some fa',
          k_mem := (\<lambda>a. if ok \<and> in_page p a then 0 else k_mem k a)\<rparr>)"
        "owns X tb (insert f others) (k\<lparr>k_mapper := Some m', k_frames := Some fa',
          k_mem := (\<lambda>a. if ok \<and> in_page p a then 0 else k_mem k a)\<rparr>)"
      and tr: "\<forall>q. pg_translate (mc_pager X) q m' = (if ok \<and> q = p then Some f else pg_translate (mc_pager X) q m)
        \<and> pg_writable (mc_pager X) q m' = (if ok \<and> q = p then fl_writable fl else pg_writable (mc_pager X) q m)"
      by (auto simp: Let_def cong: if_cong)
    let ?km = "k\<lparr>k_mapper := Some m', k_frames := Some fa', k_mem := (\<lambda>a. if ok \<and> in_page p a then 0 else k_mem k a)\<rparr>"
    have run: "M k = F f ok ?km"
      using got(1) z'(1) mp(1) by (simp add: M_def bindR_def)
    have sp: "same_page X q k (?km\<lparr>k_pages := qs\<rparr>)" if "\<not> ok \<or> q \<noteq> p" "PAGE_SIZE dvd q" for q qs
    proof -
      have "\<not> (ok \<and> in_page p a)" if "in_page q a" for a
        using that \<open>\<not> ok \<or> q \<noteq> p\<close> \<open>PAGE_SIZE dvd q\<close> assms(4) page_of_eq_iff by metis
      with tr m that(1) show ?thesis by (auto simp: same_page_def frame_at_def is_writable_def)
    qed
    show thesis
    proof (cases ok)
      case False
      have "grown X (fl_writable fl) ps k ?km"
        using sp [of _ "k_pages k"] False by (simp add: grown_def same_or_new_def same_rest_def)
      with run mp(2) got(3) False show thesis by (intro that(2) [of f ?km]) simp_all
    next
      case True
      let ?kp = "?km\<lparr>k_pages := k_pages ?km @ [p]\<rparr>"
      have new: "fresh_page X (fl_writable fl) p ?kp"
        using tr True by (simp add: fresh_page_def is_mapped_def is_writable_def)
      have "grown X (fl_writable fl) ps k ?kp" if "p \<in> ps"
      proof -
        have "same_or_new X (fl_writable fl) ps k ?kp q" if "PAGE_SIZE dvd q" for q
          using sp [of q "k_pages k @ [p]"] that new assms(3) \<open>p \<in> ps\<close> by (cases "q = p") (auto simp: same_or_new_def)
        then show ?thesis by (auto simp: grown_def same_rest_def)
      qed
      moreover have "p \<notin> set (k_pages k)"
        using assms(1) m none by (auto simp: owns_def pages_ok_def)
      then have "owns X tb (insert f others - {f}) ?kp"
        using tr True assms(4,5) mp(2) by (intro owns_push [where m = m']) simp_all
      moreover have "is_mapped X ?km p" using tr True by (simp add: is_mapped_def)
      ultimately show thesis
        using run True got(3) by (intro that(3) [of f ?km]) simp_all
    qed
  qed
qed

text \<open>\<open>mapping_run\<close>: the outcome of a loop that maps the pages \<open>as\<close>.\<close>

definition mapping_run :: "('d, 'm) machine \<Rightarrow> ('m \<Rightarrow> nat set) \<Rightarrow> nat set \<Rightarrow> bool \<Rightarrow> nat set \<Rightarrow> nat set
    \<Rightarrow> ('d, 'm) kernel \<Rightarrow> (user_error, unit) res \<times> ('d, 'm) kernel \<Rightarrow> bool" where
  "mapping_run X tb others w ps as k rk \<longleftrightarrow>
     (fst rk = Ok () \<or> fst rk = Err OutOfMemory \<or> fst rk = Err MappingFailed) \<and> outcome X tb others rk
     \<and> grown X w ps k (snd rk) \<and> (fst rk = Ok () \<longrightarrow> (\<forall>a\<in>as. is_mapped X (snd rk) a))"

lemma mapping_run_step:
  assumes "mapping_run X tb others w ps as k1 rk" and "grown X w ps k k1" and "is_mapped X k1 a" and "PAGE_SIZE dvd a"
  shows "mapping_run X tb others w ps (insert a as) k rk"
proof -
  have g: "grown X w ps k1 (snd rk)" using assms(1) by (simp add: mapping_run_def)
  from grown_trans [OF assms(2) g] grown_mapped [OF g assms(4,3)] assms(1) show ?thesis
    by (simp add: mapping_run_def)
qed

lemma containing_page_user:
  assumes "paging_ok X tb" and "a < USER_MAX"
  shows "containing_page X a k = (Ok (page_of a), k)"
proof -
  have "mc_page X a = Some (page_of a)"
    using assms unfolding paging_ok_def page_api_def by blast
  then show ?thesis by (simp add: containing_page_def)
qed

lemma translate_owned:
  "owns X tb others k \<Longrightarrow> \<exists>t. translate X p k = (Ok t, k) \<and> (t = None \<longleftrightarrow> \<not> is_mapped X k p)"
  by (auto simp: owns_def translate_def get_mapper_def bindR_def is_mapped_def)

lemma map_pages_spec:
  assumes "owns X tb others k" and "paging_ok X tb" and "\<forall>a\<in>set as. PAGE_SIZE dvd a \<and> a < USER_MAX" and "set as \<subseteq> ps"
  shows "mapping_run X tb others (fl_writable fl) ps (set as) k (map_pages X fl as k)"
  using assms
proof (induction as arbitrary: k)
  case Nil
  then show ?case by (simp add: mapping_run_def outcome_def grown_refl)
next
  case (Cons a as)
  then have a: "PAGE_SIZE dvd a" "a < USER_MAX" "a \<in> ps" by auto
  have cp: "containing_page X a k = (Ok a, k)"
    using containing_page_user [OF Cons.prems(2) a(2)] a(1) by (simp add: page_of_id)
  obtain t where t: "translate X a k = (Ok t, k)" "t = None \<longleftrightarrow> \<not> is_mapped X k a"
    using translate_owned [OF Cons.prems(1)] by blast
  show ?case
  proof (cases "is_mapped X k a")
    case True
    then have "map_pages X fl (a # as) k = map_pages X fl as k"
      using cp t by (simp add: bindR_def)
    with Cons.IH [OF Cons.prems(1,2)] Cons.prems(3,4) mapping_run_step [OF _ grown_refl True a(1)] show ?thesis by simp
  next
    case False
    let ?F = "\<lambda>f ok. if \<not> ok then throwR MappingFailed else bindR (push_page a) (\<lambda>_. map_pages X fl as)"
    have run: "map_pages X fl (a # as) k
        = bindR (alloc_frame X) (\<lambda>f. bindR (zero_frame f) (\<lambda>_. bindR (map_page X a f fl) (?F f))) k"
      using cp t False by (simp add: bindR_Ok_apply)
    show ?thesis
    proof (cases rule: new_page [OF Cons.prems(1,2) False a(1,2), where fl = fl and ps = ps and F = ?F])
      case (1 k1)
      with run show ?thesis by (simp add: mapping_run_def outcome_def)
    next
      case (2 f k1)
      with run show ?thesis by (auto simp: mapping_run_def outcome_def)
    next
      case (3 f k1)
      let ?k2 = "k1\<lparr>k_pages := k_pages k1 @ [a]\<rparr>"
      have "map_pages X fl (a # as) k = map_pages X fl as ?k2"
        using run 3(1) by (simp add: push_page_def bindR_def)
      moreover have "is_mapped X ?k2 a" using 3(2) by (simp add: is_mapped_def)
      ultimately show ?thesis
        using Cons.IH [OF 3(3) Cons.prems(2)] Cons.prems(3,4) mapping_run_step [OF _ 3(4) [OF a(3)] _ a(1)] by simp
    qed
  qed
qed

text \<open>The pages of a range of addresses that \<open>map_anonymous\<close> accepts.\<close>

definition range_pages :: "nat \<Rightarrow> nat \<Rightarrow> nat set" where
  "range_pages start len = {p. PAGE_SIZE dvd p \<and> page_of start \<le> p \<and> p < page_of (start + len + 0xfff)}"

lemma range_pages_cover: "start \<le> a \<Longrightarrow> a < start + len \<Longrightarrow> page_of a \<in> range_pages start len"
  using page_of_mono [of start a] page_of_gt [of "start + len + 0xfff"] aligned_below [of "page_of (start + len + 0xfff)" "page_of a"]
    page_of_le [of a]
  by (force simp: range_pages_def not_less)

lemma range_pages_only:
  assumes "p \<in> range_pages start len" and "0 < len"
  shows "\<exists>a. in_page p a \<and> start \<le> a \<and> a < start + len"
proof -
  have p: "PAGE_SIZE dvd p" "page_of start \<le> p" "p < page_of (start + len + 0xfff)"
    using assms(1) by (auto simp: range_pages_def)
  then have "p + PAGE_SIZE \<le> page_of (start + len + 0xfff)" by (intro aligned_below) simp_all
  then have "p < start + len" using page_of_le [of "start + len + 0xfff"] by simp
  moreover have "start < p + PAGE_SIZE" using page_of_gt [of start] p(2) by simp
  ultimately show ?thesis using assms(2)
    by (intro exI [of _ "max p start"]) (auto simp: in_page_def)
qed

lemma map_anonymous_spec:
  fixes len :: nat and w x :: bool
  assumes "owns X tb others k" and "paging_ok X tb" and "start < u64_limit"
  defines "rk \<equiv> map_anonymous X start len w x k"
  shows "outcome X tb others rk" and "grown X w (range_pages start len) k (snd rk)"
    and "fst rk = Ok v \<Longrightarrow> v = start \<and> (\<forall>a. start \<le> a \<longrightarrow> a < start + len \<longrightarrow> a < USER_MAX \<and> is_mapped X (snd rk) (page_of a))"
proof -
  let ?b = "page_of (start + len + 0xfff)" and ?f = "page_of start"
  have idle: "rk = (r, k) \<Longrightarrow> r \<noteq> Hang \<Longrightarrow> outcome X tb others rk \<and> grown X w (range_pages start len) k (snd rk)" for r
    using assms(1) by (simp add: outcome_def grown_refl)
  have "outcome X tb others rk \<and> grown X w (range_pages start len) k (snd rk)
    \<and> (\<forall>v. fst rk = Ok v \<longrightarrow> v = start \<and> (\<forall>a. start \<le> a \<longrightarrow> a < start + len \<longrightarrow> a < USER_MAX \<and> is_mapped X (snd rk) (page_of a)))"
  proof (cases "0 < len \<and> start + len + 0xfff < u64_limit \<and> \<not> (?f \<ge> USER_MAX \<or> ?b > USER_MAX \<or> ?b \<le> ?f)")
    case False
    then have "rk = (Ok start, k) \<and> len = 0 \<or> rk = (Err InvalidAddress, k) \<or> rk = (Panic, k)"
      using assms(3) unfolding rk_def
      by (auto simp: map_anonymous_def Let_def checked_add_def page_down_eq page_up_eq bindR_def)
    with idle show ?thesis by auto
  next
    case True
    from assms(1) obtain m fa where mf: "k_mapper k = Some m" "k_frames k = Some fa" by (auto simp: owns_def)
    let ?as = "page_steps ?f ?b" and ?fl = "user_flags w x"
    have as: "set ?as = range_pages start len"
      by (auto simp: set_page_steps range_pages_def)
    have rk: "rk = bindR (map_pages X ?fl ?as) (\<lambda>_. returnR start) k"
      using True mf assms(3) unfolding rk_def
      by (simp add: map_anonymous_def Let_def checked_add_def page_down_eq page_up_eq bindR_def get_mapper_def get_allocator_def)
    have "\<forall>a\<in>set ?as. PAGE_SIZE dvd a \<and> a < USER_MAX"
      using True by (auto simp: set_page_steps)
    from map_pages_spec [OF assms(1,2) this, of "range_pages start len" ?fl] as
    have run: "mapping_run X tb others w (range_pages start len) (range_pages start len) k (map_pages X ?fl ?as k)"
      by (simp add: user_flags_def)
    obtain r k' where r: "map_pages X ?fl ?as k = (r, k')" by (cases "map_pages X ?fl ?as k")
    have below: "a < USER_MAX" if "start \<le> a" "a < start + len" for a
    proof -
      have "page_of a < USER_MAX" using range_pages_cover [OF that] True by (simp add: range_pages_def)
      then have "page_of a + PAGE_SIZE \<le> USER_MAX" by (intro aligned_below) simp_all
      with page_of_gt [of a] show ?thesis by simp
    qed
    from run r rk show ?thesis
      using below range_pages_cover
      by (cases r) (auto simp: mapping_run_def outcome_def bindR_def)
  qed
  then show "outcome X tb others rk" and "grown X w (range_pages start len) k (snd rk)"
    and "fst rk = Ok v \<Longrightarrow> v = start \<and> (\<forall>a. start \<le> a \<longrightarrow> a < start + len \<longrightarrow> a < USER_MAX \<and> is_mapped X (snd rk) (page_of a))"
    by blast+
qed

section \<open>Protection, release and clean-up\<close>

text \<open>Only the protection of the pages \<open>ps\<close> has changed.\<close>

definition reprotected :: "('d, 'm) machine \<Rightarrow> nat set \<Rightarrow> ('d, 'm) kernel \<Rightarrow> ('d, 'm) kernel \<Rightarrow> bool" where
  "reprotected X ps k k' \<longleftrightarrow> (\<exists>m'. k' = k\<lparr>k_mapper := Some m'\<rparr>) \<and> frame_at X k' = frame_at X k
     \<and> (\<forall>p. p \<notin> ps \<longrightarrow> is_writable X k' p = is_writable X k p)"

lemma owns_reprotected:
  assumes "owns X tb others k" and "k_mapper k = Some m" and "tb m' = tb m"
    and "\<And>q. pg_translate (mc_pager X) q m' = pg_translate (mc_pager X) q m"
  shows "owns X tb others (k\<lparr>k_mapper := Some m'\<rparr>)"
  using assms by (auto simp: owns_def frames_of_def pages_ok_def inj_on_def)

lemma reprotected_refl: "owns X tb others k \<Longrightarrow> reprotected X ps k k"
  by (force simp: owns_def reprotected_def intro: exI [of _ "the (k_mapper k)"])

lemma protect_pages_spec:
  fixes fl :: page_flags and as :: "nat list"
  assumes "owns X tb others k" and "paging_ok X tb"
  defines "rk \<equiv> protect_pages X fl as k"
  shows "fst rk \<noteq> Hang \<and> owns X tb others (snd rk) \<and> reprotected X (page_of ` set as) k (snd rk)
    \<and> (fst rk = Ok () \<longrightarrow> (\<forall>a\<in>set as. is_mapped X (snd rk) (page_of a) \<and> is_writable X (snd rk) (page_of a) = fl_writable fl))"
  using assms(1) unfolding rk_def
proof (induction as arbitrary: k)
  case Nil
  then show ?case by (simp add: reprotected_refl)
next
  case (Cons a as)
  from Cons.prems obtain m where m: "k_mapper k = Some m" by (auto simp: owns_def)
  note k = reprotected_refl [OF Cons.prems]
  show ?case
  proof (cases "mc_page X a")
    case None
    with Cons.prems k show ?thesis by (simp add: containing_page_def bindR_def)
  next
    case (Some p)
    then have p: "p = page_of a"
      using assms(2) unfolding paging_ok_def page_api_def by blast
    show ?thesis
    proof (cases "is_mapped X k p")
      case False
      with Cons.prems k Some m show ?thesis
        by (simp add: containing_page_def bindR_def translate_def get_mapper_def is_mapped_def)
    next
      case True
      obtain ok m' where u: "pg_update_flags (mc_pager X) p fl m = (ok, m')" by (metis surj_pair)
      have law: "update_ok (mc_pager X) tb" using assms(2) by (simp add: paging_ok_def)
      note up = update_okD [OF law u]
      have ok: ok using True up(1) m by (simp add: is_mapped_def)
      let ?k1 = "k\<lparr>k_mapper := Some m'\<rparr>"
      have step: "protect_pages X fl (a # as) k = protect_pages X fl as ?k1"
        using Some True m u ok by (auto simp: containing_page_def bindR_def translate_def get_mapper_def is_mapped_def)
      have own: "owns X tb others ?k1"
        by (rule owns_reprotected [OF Cons.prems m up(2)]) (use up(3) in simp)
      have r1: "frame_at X ?k1 = frame_at X k" "\<And>q. is_writable X ?k1 q = (if q = p then fl_writable fl else is_writable X k q)"
        using up(3) m ok by (auto simp: frame_at_def is_writable_def fun_eq_iff)
      from Cons.IH [OF own] obtain r k' where ih: "protect_pages X fl as ?k1 = (r, k')" "r \<noteq> Hang" "owns X tb others k'"
          "reprotected X (page_of ` set as) ?k1 k'"
          "r = Ok () \<longrightarrow> (\<forall>a\<in>set as. is_mapped X k' (page_of a) \<and> is_writable X k' (page_of a) = fl_writable fl)"
        by (metis prod.collapse)
      have "reprotected X (page_of ` set (a # as)) k k'"
        using ih(4) r1 p by (auto simp: reprotected_def)
      moreover have "is_mapped X k' p" "p \<in> page_of ` set as \<or> is_writable X k' p = fl_writable fl"
        using ih(4) r1 True by (auto simp: reprotected_def is_mapped_frame_at)
      ultimately show ?thesis
        using ih step p by auto
    qed
  qed
qed

text \<open>Those of the pages \<open>ps\<close> that belong to the process have been unmapped.\<close>

definition shrunk :: "('d, 'm) machine \<Rightarrow> nat set \<Rightarrow> ('d, 'm) kernel \<Rightarrow> ('d, 'm) kernel \<Rightarrow> bool" where
  "shrunk X ps k k' \<longleftrightarrow> same_rest k k' \<and> k_mem k' = k_mem k \<and> set (k_pages k') = set (k_pages k) - ps
     \<and> (\<forall>p. frame_at X k' p = (if p \<in> ps \<inter> set (k_pages k) then None else frame_at X k p)
          \<and> (p \<notin> ps \<inter> set (k_pages k) \<longrightarrow> is_writable X k' p = is_writable X k p))"

lemma shrunk_refl: "ps \<inter> set (k_pages k) = {} \<Longrightarrow> shrunk X ps k k"
  by (auto simp: shrunk_def)

lemma shrunk_trans:
  assumes "shrunk X ps k k'" and "shrunk X qs k' k''"
  shows "shrunk X (ps \<union> qs) k k''"
proof -
  have "same_rest k k''" using assms same_rest_trans unfolding shrunk_def by blast
  with assms show ?thesis by (auto simp: shrunk_def)
qed

lemma release_page_spec:
  assumes "owns X tb others k" and "paging_ok X tb" and "p \<in> set (k_pages k)" and "distinct qs"
    and "set qs = set (k_pages k) - {p}"
  obtains k' where "\<And>rs. release_page X p (k\<lparr>k_pages := rs\<rparr>) = (Ok True, k'\<lparr>k_pages := rs\<rparr>)"
    and "k_pages k' = qs" and "owns X tb others k'" and "shrunk X {p} k k'"
proof -
  from assms(1) obtain m where m: "k_mapper k = Some m" by (auto simp: owns_def)
  have own: "owns X tb others (k\<lparr>k_pages := k_pages k\<rparr>)" using assms(1) by simp
  from owns_release [OF own assms(3,2) m, unfolded Let_def] obtain m' fa' where
    rel: "release_page X p k = (Ok True, k\<lparr>k_mapper := Some m', k_frames := Some fa'\<rparr>)"
    and own': "\<And>ps'. distinct ps' \<Longrightarrow> set ps' = set (k_pages k) - {p} \<Longrightarrow>
        owns X tb others (k\<lparr>k_mapper := Some m', k_frames := Some fa', k_pages := ps'\<rparr>)"
    and tr: "\<And>q. pg_translate (mc_pager X) q m' = (if q = p then None else pg_translate (mc_pager X) q m)
        \<and> (q \<noteq> p \<longrightarrow> pg_writable (mc_pager X) q m' = pg_writable (mc_pager X) q m)"
    by auto
  let ?k' = "k\<lparr>k_mapper := Some m', k_frames := Some fa', k_pages := qs\<rparr>"
  have "release_page X p (k\<lparr>k_pages := rs\<rparr>) = (Ok True, ?k'\<lparr>k_pages := rs\<rparr>)" for rs
  proof -
    have "fst (release_page X p (k\<lparr>k_pages := rs\<rparr>)) = fst (release_page X p k)
        \<and> snd (release_page X p (k\<lparr>k_pages := rs\<rparr>)) = (snd (release_page X p k))\<lparr>k_pages := rs\<rparr>"
      by (simp add: release_page_def get_mapper_def free_frame_def get_allocator_def bindR_def
          split: option.splits prod.splits res.splits)
    with rel show ?thesis by (auto intro: prod_eqI)
  qed
  moreover have "shrunk X {p} k ?k'"
    using tr m assms(3,5) by (auto simp: shrunk_def same_rest_def frame_at_def is_writable_def)
  ultimately show thesis
    using own' [OF assms(4,5)] by (intro that [of ?k']) simp_all
qed

lemma position_SomeD: "position P xs = Some i \<Longrightarrow> i < length xs \<and> P (xs ! i)"
  by (induction xs arbitrary: i) (auto split: if_splits)

lemma position_None: "position P xs = None \<longleftrightarrow> (\<forall>x\<in>set xs. \<not> P x)"
  by (induction xs) auto

lemma swap_remove_distinct:
  assumes "distinct xs" and "i < length xs"
  shows "distinct (swap_remove i xs) \<and> set (swap_remove i xs) = set xs - {xs ! i}"
proof -
  obtain ys z where xs: "xs = ys @ [z]" using assms(2) by (cases xs rule: rev_cases) auto
  show ?thesis
  proof (cases "i = length ys")
    case True
    with assms(1) xs show ?thesis by (auto simp: swap_remove_def)
  next
    case False
    then have i: "i < length ys" using assms(2) xs by simp
    with assms(1) xs show ?thesis
      by (auto simp: swap_remove_def list_update_append nth_append butlast_append set_update_distinct
          intro: distinct_list_update)
  qed
qed

lemma owns_distinct: "owns X tb others k \<Longrightarrow> distinct (k_pages k)"
  by (auto simp: owns_def pages_ok_def)

lemma unmap_pages_spec:
  fixes as :: "nat list"
  assumes "owns X tb others k" and "paging_ok X tb"
  shows "\<exists>r k' ps. unmap_pages X as k = (r, k') \<and> owns X tb others k' \<and> shrunk X ps k k' \<and> ps \<subseteq> page_of ` set as
    \<and> (r = Ok () \<and> ps = page_of ` set as \<or> r = Panic)"
  using assms(1)
proof (induction as arbitrary: k)
  case Nil
  then show ?case using shrunk_refl [of "{}" k X] by auto
next
  case (Cons a as)
  show ?case
  proof (cases "mc_page X a")
    case None
    with Cons.prems shrunk_refl [of "{}" k X] show ?thesis
      by (auto simp: containing_page_def bindR_def intro!: exI [of _ "{}"])
  next
    case (Some p)
    then have p: "p = page_of a"
      using assms(2) unfolding paging_ok_def page_api_def by blast
    have "\<exists>k1. unmap_pages X (a # as) k = unmap_pages X as k1 \<and> owns X tb others k1 \<and> shrunk X {p} k k1"
    proof (cases "position (\<lambda>q. q = p) (k_pages k)")
      case None
      then have "shrunk X {p} k k" by (intro shrunk_refl) (auto simp: position_None)
      with None Cons.prems Some show ?thesis by (auto simp: containing_page_def bindR_def)
    next
      case (Some i)
      then have i: "i < length (k_pages k)" "k_pages k ! i = p" using position_SomeD [of _ "k_pages k" i] by auto
      note sr = swap_remove_distinct [OF owns_distinct [OF Cons.prems] i(1)]
      obtain k1 where k1: "\<And>rs. release_page X p (k\<lparr>k_pages := rs\<rparr>) = (Ok True, k1\<lparr>k_pages := rs\<rparr>)"
          "k_pages k1 = swap_remove i (k_pages k)" "owns X tb others k1" "shrunk X {p} k k1"
        using release_page_spec [OF Cons.prems assms(2), of p "swap_remove i (k_pages k)"] sr i by (metis nth_mem)
      have "release_page X p k = (Ok True, k1\<lparr>k_pages := k_pages k\<rparr>)"
        using k1(1) [of "k_pages k"] by simp
      moreover have "k1\<lparr>k_pages := swap_remove i (k_pages k)\<rparr> = k1" using k1(2) by simp
      ultimately have "unmap_pages X (a # as) k = unmap_pages X as k1"
        using Some \<open>mc_page X a = Some p\<close> by (simp add: containing_page_def bindR_def)
      with k1 show ?thesis by blast
    qed
    then obtain k1 where k1: "unmap_pages X (a # as) k = unmap_pages X as k1" "owns X tb others k1" "shrunk X {p} k k1"
      by blast
    from Cons.IH [OF k1(2)] obtain r k' ps where "unmap_pages X as k1 = (r, k')" "owns X tb others k'" "shrunk X ps k1 k'"
        "ps \<subseteq> page_of ` set as" "r = Ok () \<and> ps = page_of ` set as \<or> r = Panic"
      by blast
    with k1 p shrunk_trans [OF k1(3), of ps k'] show ?thesis
      by (intro exI [of _ r] exI [of _ k'] exI [of _ "{p} \<union> ps"]) auto
  qed
qed

lemma release_all_spec:
  assumes "owns X tb others k" and "paging_ok X tb" and "k_pages k = rev ps"
  shows "\<exists>k'. release_all X ps k = (Ok (), k') \<and> owns X tb others k' \<and> shrunk X (set ps) k k' \<and> k_pages k' = []"
  using assms(1,3)
proof (induction ps arbitrary: k)
  case Nil
  then show ?case by (simp add: shrunk_refl)
next
  case (Cons p ps)
  have d: "distinct (rev ps @ [p])" using owns_distinct [OF Cons.prems(1)] Cons.prems(2) by simp
  then have "distinct (rev ps)" "set (rev ps) = set (k_pages k) - {p}" "p \<in> set (k_pages k)"
    using Cons.prems(2) by auto
  then obtain k1 where k1: "\<And>rs. release_page X p (k\<lparr>k_pages := rs\<rparr>) = (Ok True, k1\<lparr>k_pages := rs\<rparr>)"
      "k_pages k1 = rev ps" "owns X tb others k1" "shrunk X {p} k k1"
    using release_page_spec [OF Cons.prems(1) assms(2), of p "rev ps"] by metis
  have "k1\<lparr>k_pages := rev ps\<rparr> = k1" using k1(2) by simp
  then have step: "release_all X (p # ps) k = release_all X ps k1"
    using k1(1) [of "rev ps"] Cons.prems(2) by (simp add: bindR_def butlast_append)
  from Cons.IH [OF k1(3,2)] obtain k' where ih: "release_all X ps k1 = (Ok (), k')" "owns X tb others k'"
      "shrunk X (set ps) k1 k'" "k_pages k' = []"
    by blast
  have "shrunk X (set (p # ps)) k k'" using shrunk_trans [OF k1(4) ih(3)] by simp
  with step ih show ?case by auto
qed

end
