(* ===== verification/Process.thy ===== *)
theory Process
  imports User_Correct
begin

text \<open>
  Processes as the kernel runs them: sequences of memory requests, the clean-up when a process ends, and
  running a program from start to end.
\<close>

section \<open>Requests\<close>

datatype mem_request = MapAt nat nat bool bool | MapAnon nat bool bool | Brk nat
  | Protect nat nat bool bool | Unmap nat nat

fun valid_request :: "mem_request \<Rightarrow> bool" where
  "valid_request (MapAt a len w x) \<longleftrightarrow> a < u64_limit \<and> len < u64_limit"
| "valid_request (MapAnon len w x) \<longleftrightarrow> len < u64_limit"
| "valid_request (Brk a) \<longleftrightarrow> a < u64_limit"
| "valid_request (Protect a len w x) \<longleftrightarrow> a < u64_limit \<and> len < u64_limit"
| "valid_request (Unmap a len) \<longleftrightarrow> a < u64_limit \<and> len < u64_limit"

fun mem_perform :: "('d, 'm) machine \<Rightarrow> mem_request \<Rightarrow> ('d, 'm, nat) up" where
  "mem_perform X (MapAt a len w x) = map_anonymous X a len w x"
| "mem_perform X (MapAnon len w x) = mmap_anon X len w x"
| "mem_perform X (Brk a) = set_brk X a"
| "mem_perform X (Protect a len w x) = bindR (mprotect X a len w x) (\<lambda>_. returnR 0)"
| "mem_perform X (Unmap a len) = bindR (munmap X a len) (\<lambda>_. returnR 0)"

text \<open>The break is a 64-bit value.\<close>

definition proc_ok :: "('d, 'm) machine \<Rightarrow> ('m \<Rightarrow> nat set) \<Rightarrow> nat set \<Rightarrow> ('d, 'm) kernel \<Rightarrow> bool" where
  "proc_ok X tb others k \<longleftrightarrow> owns X tb others k \<and> k_brk k < u64_limit"

lemma grown_brk: "grown X w ps k k' \<Longrightarrow> k_brk k' = k_brk k"
  by (auto simp: grown_def same_rest_def dest: arg_cong [where f = k_brk])

lemma shrunk_brk: "shrunk X ps k k' \<Longrightarrow> k_brk k' = k_brk k"
  by (auto simp: shrunk_def same_rest_def dest: arg_cong [where f = k_brk])

text \<open>One request keeps the ownership of frames; when it fails to map a frame, that frame is lost.\<close>

definition kept :: "('d, 'm) machine \<Rightarrow> ('m \<Rightarrow> nat set) \<Rightarrow> nat set \<Rightarrow> (user_error, 'a) res \<times> ('d, 'm) kernel \<Rightarrow> bool" where
  "kept X tb others rk \<longleftrightarrow> fst rk \<noteq> Hang \<and>
     (proc_ok X tb others (snd rk) \<or> fst rk = Err MappingFailed \<and> (\<exists>f. proc_ok X tb (insert f others) (snd rk)))"

lemma kept_idle: "proc_ok X tb others k \<Longrightarrow> r \<noteq> Hang \<Longrightarrow> kept X tb others (r, k)"
  by (simp add: kept_def)

lemma kept_outcome: "outcome X tb others rk \<Longrightarrow> k_brk (snd rk) < u64_limit \<Longrightarrow> kept X tb others rk"
  by (auto simp: outcome_def kept_def proc_ok_def)

lemma map_anonymous_kept:
  assumes "proc_ok X tb others k" and "paging_ok X tb" and "start < u64_limit"
  shows "kept X tb others (map_anonymous X start len w x k)"
proof -
  have own: "owns X tb others k" using assms(1) by (simp add: proc_ok_def)
  note spec = map_anonymous_spec [OF own assms(2,3), where len = len and w = w and x = x]
  have "k_brk (snd (map_anonymous X start len w x k)) < u64_limit"
    using grown_brk [OF spec(2)] assms(1) by (simp add: proc_ok_def)
  with spec(1) show ?thesis by (rule kept_outcome)
qed

lemma mmap_anon_kept:
  assumes "proc_ok X tb others k" and "paging_ok X tb"
  shows "kept X tb others (mmap_anon X len w x k)"
proof -
  let ?k = "\<lambda>n. k\<lparr>k_mmap_next := n\<rparr>" and ?a = "page_of (k_mmap_next k + 0xfff)"
  have pk: "proc_ok X tb others (?k n)" for n
    using assms(1) owns_cong [of "?k n" k X tb others] by (simp add: proc_ok_def)
  have "kept X tb others (map_anonymous X ?a len w x (?k n))" if "k_mmap_next k + 0xfff < u64_limit" for n
    using page_of_le [of "k_mmap_next k + 0xfff"] that by (intro map_anonymous_kept [OF pk assms(2)]) simp
  then show ?thesis
    using assms(1) by (auto simp: mmap_anon_def bindR_def page_up_eq kept_idle split: option.split)
qed

lemma set_brk_kept:
  assumes "proc_ok X tb others k" and "paging_ok X tb" and "a < u64_limit"
  shows "kept X tb others (set_brk X a k)"
proof -
  have upd: "proc_ok X tb os (k'\<lparr>k_brk := a\<rparr>)" if "proc_ok X tb os k'" for os k'
    using that assms(3) owns_cong [of "k'\<lparr>k_brk := a\<rparr>" k' X tb os] by (simp add: proc_ok_def)
  have b: "k_brk k < u64_limit" using assms(1) by (simp add: proc_ok_def)
  obtain r k' where rk: "map_anonymous X (k_brk k) (a - k_brk k) True False k = (r, k')" by (metis surj_pair)
  from map_anonymous_kept [OF assms(1,2) b] rk have "kept X tb others (r, k')" by metis
  with rk upd assms(1) show ?thesis
    by (cases r) (auto simp: set_brk_def current_brk_def bindR_def kept_def)
qed

lemma mprotect_kept:
  assumes "proc_ok X tb others k" and "paging_ok X tb"
  shows "kept X tb others (mem_perform X (Protect a len w x) k)"
proof -
  have own: "owns X tb others k" using assms(1) by (simp add: proc_ok_def)
  then obtain m where m: "k_mapper k = Some m" by (auto simp: owns_def)
  have run: "kept X tb others (bindR (protect_pages X fl as) (\<lambda>_. returnR (0 :: nat)) k)" for fl as
    using protect_pages_spec [OF own assms(2), of fl as] assms(1)
    by (cases "protect_pages X fl as k"; cases "fst (protect_pages X fl as k)")
      (auto simp: bindR_def kept_def proc_ok_def reprotected_def)
  show ?thesis
    using assms(1) m run [of "user_flags w x"]
    by (auto simp: mprotect_def bindR_assoc bindR_def page_up_eq get_mapper_def kept_idle split: option.split)
qed

lemma munmap_kept:
  assumes "proc_ok X tb others k" and "paging_ok X tb"
  shows "kept X tb others (mem_perform X (Unmap a len) k)"
proof -
  have own: "owns X tb others k" using assms(1) by (simp add: proc_ok_def)
  then obtain m fa where m: "k_mapper k = Some m" "k_frames k = Some fa" by (auto simp: owns_def)
  have run: "kept X tb others (bindR (unmap_pages X as) (\<lambda>_. returnR (0 :: nat)) k)" for as
    using unmap_pages_spec [OF own assms(2), of as] assms(1)
    by (auto simp: bindR_def kept_def proc_ok_def dest: shrunk_brk)
  show ?thesis
    using assms(1) m run
    by (auto simp: munmap_def bindR_assoc bindR_def page_up_eq get_mapper_def get_allocator_def kept_idle split: option.split)
qed

lemma mem_perform_kept:
  assumes "proc_ok X tb others k" and "paging_ok X tb" and "valid_request r"
  shows "kept X tb others (mem_perform X r k)"
  using assms(3) map_anonymous_kept [OF assms(1,2)] mmap_anon_kept [OF assms(1,2)] set_brk_kept [OF assms(1,2)]
    mprotect_kept [OF assms(1,2)] munmap_kept [OF assms(1,2)]
  by (cases r) auto

section \<open>Cleaning up\<close>

lemma cleanup_process_spec:
  assumes "owns X tb others k" and "paging_ok X tb" and "\<not> k_fds_locked k"
  shows "\<exists>k'. cleanup_process X k = (Ok (), k') \<and> owns X tb others k' \<and> k_pages k' = []
    \<and> (\<forall>p. frame_at X k' p = (if p \<in> set (k_pages k) then None else frame_at X k p))
    \<and> k_brk k' = HEAP_BASE \<and> k_mmap_next k' = MMAP_BASE \<and> \<not> k_fds_locked k' \<and> k_fs k' = k_fs k
    \<and> k_fds k' = Some (take 3 (case k_fds k of Some t \<Rightarrow> t | None \<Rightarrow> [Some std_file, Some std_file, Some std_file]))"
proof -
  from assms(1) obtain m fa where m: "k_mapper k = Some m" "k_frames k = Some fa" by (auto simp: owns_def)
  obtain k1 where k1: "release_all X (rev (k_pages k)) k = (Ok (), k1)" "owns X tb others k1"
      "shrunk X (set (rev (k_pages k))) k k1" "k_pages k1 = []"
    using release_all_spec [OF assms(1,2), of "rev (k_pages k)"] by auto
  let ?t = "case k_fds k of Some t \<Rightarrow> t | None \<Rightarrow> [Some std_file, Some std_file, Some std_file]"
  let ?k2 = "k1\<lparr>k_brk := HEAP_BASE, k_mmap_next := MMAP_BASE, k_fds_locked := False, k_fds := Some (take 3 ?t)\<rparr>"
  have same: "k_fds k1 = k_fds k" "k_fds_locked k1 = k_fds_locked k" "k_fs k1 = k_fs k"
    using k1(3) by (auto simp: shrunk_def same_rest_def dest: arg_cong [where f = k_fds]
        arg_cong [where f = k_fds_locked] arg_cong [where f = k_fs])
  have "cleanup_process X k = (Ok (), ?k2)"
    using m k1(1) same assms(3)
    by (simp add: cleanup_process_def bindR_def reset_process_fds_def lock_fds_def unlock_fds_def store_fds_def Let_def)
  moreover have "owns X tb others ?k2" using k1(2) owns_cong [of ?k2 k1] by simp
  moreover have "frame_at X ?k2 p = (if p \<in> set (k_pages k) then None else frame_at X k p)" for p
    using k1(3) by (auto simp: shrunk_def frame_at_def)
  ultimately show ?thesis using k1(4) same by (intro exI [of _ ?k2]) simp
qed

section \<open>Running a program\<close>

lemma owns_free:
  assumes "owns X tb (insert f others) k" and "f \<notin> others"
  shows "\<exists>fa'. free_frame f k = (Ok (), k\<lparr>k_frames := Some fa'\<rparr>) \<and> owns X tb others (k\<lparr>k_frames := Some fa'\<rparr>)"
proof -
  from assms(1) obtain m fa xs where o: "k_mapper k = Some m" "k_frames k = Some fa"
      "frame_inv fa xs (insert f others \<union> tb m \<union> frames_of X m (k_pages k))" "insert f others \<inter> tb m = {}"
      "(insert f others \<union> tb m) \<inter> frames_of X m (k_pages k) = {}" "pages_ok X m (k_pages k)"
    by (auto simp: owns_def)
  from frame_inv_give [OF o(3), of f] obtain fa' where fa': "deallocate_frame f fa = (Ok (), fa')"
      "frame_inv fa' (f # xs) (insert f others \<union> tb m \<union> frames_of X m (k_pages k) - {f})"
    by auto
  have "insert f others \<union> tb m \<union> frames_of X m (k_pages k) - {f} = others \<union> tb m \<union> frames_of X m (k_pages k)"
    using o(4,5) assms(2) by auto
  with fa'(2) o have "owns X tb others (k\<lparr>k_frames := Some fa'\<rparr>)" by (auto simp: owns_def)
  with fa'(1) o(2) show ?thesis by (auto simp: free_frame_def get_allocator_def bindR_def)
qed

definition user_specs :: "page_spec list \<Rightarrow> bool" where
  "user_specs specs \<longleftrightarrow> (\<forall>s\<in>set specs. PAGE_SIZE dvd sp_page s \<and> sp_page s < USER_MAX)"

lemma map_specs_spec:
  assumes "owns X tb others k" and "paging_ok X tb" and "user_specs specs"
  shows "\<exists>r k'. map_specs X specs k = (r, k') \<and> owns X tb others k' \<and> same_rest k k'
    \<and> (r = Ok () \<or> (\<exists>e. r = Err e)) \<and> (r = Ok () \<longrightarrow> (\<forall>s\<in>set specs. sp_page s \<in> set (k_pages k')))
    \<and> set (k_pages k) \<subseteq> set (k_pages k')"
  using assms(1,3)
proof (induction specs arbitrary: k)
  case Nil
  then show ?case by simp
next
  case (Cons sp specs)
  let ?p = "sp_page sp" and ?fl = "sp_flags sp"
  have p: "PAGE_SIZE dvd ?p" "?p < USER_MAX" and sp: "user_specs specs"
    using Cons.prems(2) by (auto simp: user_specs_def)
  obtain t where t: "translate X ?p k = (Ok t, k)" "t = None \<longleftrightarrow> \<not> is_mapped X k ?p"
    using translate_owned [OF Cons.prems(1)] by blast
  show ?case
  proof (cases "is_mapped X k ?p")
    case True
    with t Cons.prems(1) show ?thesis by (auto simp: bindR_def)
  next
    case False
    let ?F = "\<lambda>f ok. if \<not> ok then bindR (free_frame f) (\<lambda>_. throwR MappingFailed)
         else bindR (translate X ?p) (\<lambda>t. if t = None then throwR MappingFailed
           else bindR (push_page ?p) (\<lambda>_. map_specs X specs))"
    have run: "map_specs X (sp # specs) k
        = bindR (alloc_frame X) (\<lambda>f. bindR (zero_frame f) (\<lambda>_. bindR (map_page X ?p f ?fl) (?F f))) k"
      using t False by (simp add: bindR_Ok_apply)
    show ?thesis
    proof (cases rule: new_page [OF Cons.prems(1) assms(2) False p, where fl = ?fl and ps = "{?p}" and F = ?F])
      case (1 k1)
      with run show ?thesis by (auto simp: grown_def)
    next
      case (2 f k1)
      from owns_free [OF 2(2,3)] obtain fa' where fr: "free_frame f k1 = (Ok (), k1\<lparr>k_frames := Some fa'\<rparr>)"
          "owns X tb others (k1\<lparr>k_frames := Some fa'\<rparr>)" by blast
      have "same_rest k1 (k1\<lparr>k_frames := Some fa'\<rparr>)" by (simp add: same_rest_def)
      then have "same_rest k (k1\<lparr>k_frames := Some fa'\<rparr>)"
        using 2(4) same_rest_trans unfolding grown_def by blast
      with run 2(1,4) fr show ?thesis by (auto simp: bindR_def grown_def)
    next
      case (3 f k1)
      let ?k2 = "k1\<lparr>k_pages := k_pages k1 @ [?p]\<rparr>"
      have g: "same_rest k ?k2" "set (k_pages k) \<subseteq> set (k_pages ?k2)" using 3(4) by (simp_all add: grown_def)
      from 3(2) obtain m where m: "k_mapper k1 = Some m" "pg_translate (mc_pager X) ?p m \<noteq> None"
        by (auto simp: is_mapped_def)
      then have "?F f True k1 = map_specs X specs ?k2"
        by (auto simp: push_page_def bindR_def translate_def get_mapper_def)
      then have "map_specs X (sp # specs) k = map_specs X specs ?k2"
        unfolding run 3(1) .
      with Cons.IH [OF 3(3) sp] show ?thesis
        using g same_rest_trans [OF g(1)] by fastforce
    qed
  qed
qed

text \<open>Programs that change user memory only, and return.\<close>

definition mem_only :: "('d, 'm, 'a) up \<Rightarrow> bool" where
  "mem_only m \<longleftrightarrow> (\<forall>k. \<exists>r g. m k = (r, k\<lparr>k_mem := g\<rparr>) \<and> r \<noteq> Hang)"

lemma mem_only_stay: "(\<And>k. \<exists>r. m k = (r, k) \<and> r \<noteq> Hang) \<Longrightarrow> mem_only m"
  unfolding mem_only_def
proof
  fix k assume "\<And>k. \<exists>r. m k = (r, k) \<and> r \<noteq> Hang"
  then obtain r where "m k = (r, k\<lparr>k_mem := k_mem k\<rparr>)" "r \<noteq> Hang" by force
  then show "\<exists>r g. m k = (r, k\<lparr>k_mem := g\<rparr>) \<and> r \<noteq> Hang" by blast
qed

lemma mem_only_bind:
  assumes "mem_only m" and "\<And>x. mem_only (f x)"
  shows "mem_only (bindR m f)"
  unfolding mem_only_def
proof
  fix k
  from assms(1) obtain r g where r: "m k = (r, k\<lparr>k_mem := g\<rparr>)" "r \<noteq> Hang" unfolding mem_only_def by blast
  show "\<exists>r g. bindR m f k = (r, k\<lparr>k_mem := g\<rparr>) \<and> r \<noteq> Hang"
  proof (cases r)
    case (Ok x)
    from assms(2) [of x] obtain r' g' where "f x (k\<lparr>k_mem := g\<rparr>) = (r', k\<lparr>k_mem := g\<rparr>\<lparr>k_mem := g'\<rparr>)" "r' \<noteq> Hang"
      unfolding mem_only_def by blast
    moreover have "bindR m f k = f x (k\<lparr>k_mem := g\<rparr>)" using r Ok by (simp only: bindR_Ok_apply)
    ultimately have "bindR m f k = (r', k\<lparr>k_mem := g'\<rparr>)" by simp
    with \<open>r' \<noteq> Hang\<close> show ?thesis by blast
  next
    case (Err e)
    with r have "bindR m f k = (Err e, k\<lparr>k_mem := g\<rparr>)" by (simp only: bindR_Err_apply)
    then show ?thesis by blast
  next
    case Panic
    with r have "bindR m f k = (Panic, k\<lparr>k_mem := g\<rparr>)" by (simp only: bindR_Panic_apply)
    then show ?thesis by blast
  qed (use r in simp)
qed

lemma mem_only_basic:
  "r \<noteq> Hang \<Longrightarrow> mem_only (Pair r)" "mem_only (returnR x)" "mem_only (throwR e)" "mem_only panicR" "mem_only (containing_page X a)"
  "mem_only (translate X p)" "mem_only (stack_sub sp n)" "mem_only get_mapper" "mem_only get_allocator"
  by (rule mem_only_stay; simp add: containing_page_def translate_def get_mapper_def get_allocator_def stack_sub_def bindR_def
      split: option.split)+

lemma mem_only_poke: "mem_only (poke X a bs)"
proof -
  have "\<exists>r :: (user_error, unit) res. \<exists>g. poke X a bs k = (r, k\<lparr>k_mem := g\<rparr>) \<and> r \<noteq> Hang" for k
    by (cases "list_all (can_store X k) [a..<a + length bs]") (auto simp: poke_def intro: exI [of _ "k_mem k"])
  then show ?thesis by (simp add: mem_only_def)
qed

lemma mem_only_modify: "mem_only (modifyR (\<lambda>k. k\<lparr>k_mem := f (k_mem k)\<rparr>))"
  by (auto simp: mem_only_def)

lemmas mem_only_intros = mem_only_basic mem_only_poke mem_only_modify mem_only_bind

lemma mem_only_copy_segment: "mem_only (copy_segment X va src)"
proof (induction X va src rule: copy_segment.induct)
  case (1 X va src)
  let ?n = "min (PAGE_SIZE - va mod PAGE_SIZE) (length src)"
  have "mem_only (copy_segment X (va + ?n) (drop ?n src))" if "src \<noteq> []"
    using 1 [OF that, of "Some 0" ?n] by simp
  then show ?case
    by (subst copy_segment.simps) (auto simp: Let_def intro!: mem_only_intros)
qed

lemma mem_only_copy_segments: "mem_only (copy_segments X img bias phs)"
  by (induction phs) (auto intro!: mem_only_intros mem_only_copy_segment)

lemma mem_only_push_strings: "mem_only (push_strings X args sp ptrs)"
  by (induction args arbitrary: sp ptrs) (auto intro!: mem_only_intros)

lemma mem_only_push_words: "mem_only (push_words X ws sp)"
  by (induction ws arbitrary: sp) (auto intro!: mem_only_intros)

lemma mem_only_build_stack: "mem_only (build_stack X args)"
  unfolding build_stack_def by (auto intro!: mem_only_intros mem_only_push_strings mem_only_push_words)

text \<open>The pages of an image are user pages; computing them changes nothing.\<close>

lemma add_spec_pages: "sp_page ` set (add_spec p fl specs) = insert p (sp_page ` set specs)"
  by (induction specs) auto

lemma user_specs_image: "user_specs specs \<longleftrightarrow> (\<forall>p\<in>sp_page ` set specs. PAGE_SIZE dvd p \<and> p < USER_MAX)"
  unfolding user_specs_def by blast

lemma add_spec_user: "user_specs specs \<Longrightarrow> PAGE_SIZE dvd p \<Longrightarrow> p < USER_MAX \<Longrightarrow> user_specs (add_spec p fl specs)"
  unfolding user_specs_image add_spec_pages by blast

lemma segment_pages_spec:
  assumes "paging_ok X tb" and "\<forall>a\<in>set as. a < USER_MAX" and "user_specs specs"
  shows "\<exists>specs'. segment_pages X fl as specs k = (Ok specs', k) \<and> user_specs specs'"
  using assms(2,3)
proof (induction as arbitrary: specs)
  case (Cons a as)
  then have a: "a < USER_MAX" by simp
  then have "page_of a < USER_MAX" using page_of_le [of a] by simp
  with add_spec_user [OF Cons.prems(2)] have "user_specs (add_spec (page_of a) fl specs)" by simp
  from Cons.IH [OF _ this] Cons.prems(1)
  obtain specs' where "segment_pages X fl as (add_spec (page_of a) fl specs) k = (Ok specs', k)" "user_specs specs'" by auto
  then show ?case
    by (simp add: bindR_def containing_page_user [OF assms(1) a])
qed simp

lemma load_specs_spec:
  assumes "paging_ok X tb" and "user_specs specs"
  shows "\<exists>r. load_specs X bias phs specs k = (r, k) \<and> r \<noteq> Hang \<and> (\<forall>specs'. r = Ok specs' \<longrightarrow> user_specs specs')"
  using assms(2)
proof (induction phs arbitrary: specs)
  case (Cons ph phs)
  show ?case
  proof (cases "\<exists>start stop. checked_add (p_vaddr ph) bias = Some start \<and> checked_add start (p_memsz ph) = Some stop
      \<and> \<not> (start \<ge> USER_MAX \<or> stop > USER_MAX \<or> stop \<le> start)")
    case False
    then show ?thesis by (auto split: option.splits)
  next
    case True
    then obtain start stop where s: "checked_add (p_vaddr ph) bias = Some start" "checked_add start (p_memsz ph) = Some stop"
        "start < USER_MAX" "stop \<le> USER_MAX" "start < stop" by auto
    have up: "page_up stop = Ok (page_of (stop + 0xfff))" using s(4) by (simp add: page_up_eq)
    have "page_of (stop + 0xfff) \<le> USER_MAX"
      using page_of_mono [of "stop + 0xfff" "USER_MAX + 0xfff"] s(4) by (simp add: page_of_def)
    then have "\<forall>a\<in>set (page_steps (page_down start) (page_of (stop + 0xfff))). a < USER_MAX"
      using s(3) by (auto simp: page_down_eq set_page_steps)
    from segment_pages_spec [OF assms(1) this Cons.prems, of "segment_flags (p_flags ph)" k]
    obtain specs' where sp: "segment_pages X (segment_flags (p_flags ph)) (page_steps (page_down start) (page_of (stop + 0xfff))) specs k = (Ok specs', k)"
        "user_specs specs'" by blast
    from Cons.IH [OF sp(2)] s up sp(1) show ?thesis by (simp add: bindR_def)
  qed
qed simp

lemma stack_specs_spec:
  assumes "paging_ok X tb" and "user_specs specs" and "\<forall>a\<in>set as. a < USER_MAX"
  shows "\<exists>r. stack_specs X as specs k = (r, k) \<and> r \<noteq> Hang \<and> (\<forall>specs'. r = Ok specs' \<longrightarrow> user_specs specs')"
  using assms(2,3)
proof (induction as arbitrary: specs)
  case (Cons a as)
  then have a: "a < USER_MAX" by simp
  then have "page_of a < USER_MAX" using page_of_le [of a] by simp
  with Cons show ?case
    by (auto simp: bindR_def containing_page_user [OF assms(1) a] user_specs_def)
qed simp

lemma mem_only_owns:
  assumes "mem_only m" and "m k = (r, k')"
  shows "r \<noteq> Hang \<and> owns X tb others k' = owns X tb others k \<and> k_pages k' = k_pages k \<and> k_fds_locked k' = k_fds_locked k
    \<and> k_brk k' = k_brk k"
proof -
  from assms obtain g where "k' = k\<lparr>k_mem := g\<rparr>" "r \<noteq> Hang" unfolding mem_only_def by (metis prod.inject)
  then show ?thesis using owns_cong [of k' k] by simp
qed

text \<open>The invariant of a running process, and the state between processes.\<close>

definition running :: "('d, 'm) machine \<Rightarrow> ('m \<Rightarrow> nat set) \<Rightarrow> nat set \<Rightarrow> ('d, 'm) kernel \<Rightarrow> bool" where
  "running X tb others k \<longleftrightarrow> proc_ok X tb others k \<and> \<not> k_fds_locked k"

definition idle :: "('d, 'm) machine \<Rightarrow> ('m \<Rightarrow> nat set) \<Rightarrow> nat set \<Rightarrow> ('d, 'm) kernel \<Rightarrow> bool" where
  "idle X tb others k \<longleftrightarrow> running X tb others k \<and> k_pages k = []"

lemma cleanup_idle:
  assumes "owns X tb others k" and "paging_ok X tb" and "\<not> k_fds_locked k"
  obtains k' where "cleanup_process X k = (Ok (), k')" and "idle X tb others k'"
proof -
  from cleanup_process_spec [OF assms] obtain k' where k': "cleanup_process X k = (Ok (), k')" "owns X tb others k'"
      "k_pages k' = []" "k_brk k' = HEAP_BASE" "\<not> k_fds_locked k'" by blast
  then show thesis by (intro that [of k']) (simp_all add: idle_def running_def proc_ok_def)
qed

lemma running_fs: "running X tb others k \<Longrightarrow> running X tb others (k\<lparr>k_fs := f\<rparr>)"
  using owns_cong [of "k\<lparr>k_fs := f\<rparr>" k] by (simp add: running_def proc_ok_def)

lemma idle_fs: "idle X tb others k \<Longrightarrow> idle X tb others (k\<lparr>k_fs := f\<rparr>)"
  using owns_cong [of "k\<lparr>k_fs := f\<rparr>" k] by (simp add: idle_def running_def proc_ok_def)

lemma load_image_spec:
  assumes "running X tb others k" and "paging_ok X tb" and "load_image X img elf phs k = (r, k')"
  shows "r \<noteq> Hang" and "r = Ok specs \<Longrightarrow> running X tb others k'" and "r = Err e \<Longrightarrow> running X tb others k' \<and> (k_pages k = [] \<longrightarrow> k_pages k' = [])"
proof -
  let ?bias = "if kind elf = ET_DYN then PIE_BASE else 0"
  let ?stack = "map (\<lambda>i. USER_STACK_TOP - USER_STACK_PAGES * PAGE_SIZE + i * PAGE_SIZE) [0..<USER_STACK_PAGES]"
  obtain r1 where r1: "load_specs X ?bias phs [] k = (r1, k)" "r1 \<noteq> Hang" "\<And>s. r1 = Ok s \<Longrightarrow> user_specs s"
    using load_specs_spec [OF assms(2), of "[]" ?bias phs k] by (auto simp: user_specs_def)
  have body: "r \<noteq> Hang \<and> (\<forall>s. r = Ok s \<longrightarrow> running X tb others k') \<and> (\<forall>e. r = Err e \<longrightarrow> running X tb others k' \<and> (k_pages k = [] \<longrightarrow> k_pages k' = []))"
    if s2: "stack_specs X ?stack s k = (Ok s2, k)" "user_specs s2" and s1: "r1 = Ok s" for s s2
  proof -
    from assms(1) obtain m fa where m: "k_mapper k = Some m" "k_frames k = Some fa" by (auto simp: running_def proc_ok_def owns_def)
    have own: "owns X tb others k" using assms(1) by (simp add: running_def proc_ok_def)
    obtain r3 k3 where r3: "map_specs X s2 k = (r3, k3)" "owns X tb others k3" "same_rest k k3" "r3 = Ok () \<or> (\<exists>e. r3 = Err e)"
      using map_specs_spec [OF own assms(2) s2(2)] by blast
    have lk: "\<not> k_fds_locked k3" "k_brk k3 < u64_limit"
      using r3(3) assms(1) by (auto simp: same_rest_def running_def proc_ok_def
          dest: arg_cong [where f = k_fds_locked] arg_cong [where f = k_brk])
    let ?M = "bindR get_mapper (\<lambda>_. bindR get_allocator (\<lambda>_. bindR (map_specs X s2) (\<lambda>_. copy_segments X img ?bias phs)))"
    obtain r4 k4 where r4: "?M k = (r4, k4)" by (metis surj_pair)
    have k4: "owns X tb others k4 \<and> \<not> k_fds_locked k4 \<and> k_brk k4 < u64_limit \<and> r4 \<noteq> Hang"
    proof (cases "r3 = Ok ()")
      case True
      then have "copy_segments X img ?bias phs k3 = (r4, k4)"
        using r4 m r3(1) by (simp add: bindR_def get_mapper_def get_allocator_def)
      from mem_only_owns [OF mem_only_copy_segments this] r3(2) lk show ?thesis by auto
    next
      case False
      then show ?thesis using r3 r4 m lk by (auto simp: bindR_def get_mapper_def get_allocator_def)
    qed
    then obtain k5 where k5: "cleanup_process X k4 = (Ok (), k5)" "idle X tb others k5"
      using cleanup_idle [OF _ assms(2)] by blast
    have "(r, k') = bindR (or_cleanup X ?M) (\<lambda>_. returnR s2) k"
      using assms(3) r1(1) s1 s2(1) by (simp add: load_image_def Let_def bindR_def)
    with r4 k4 k5 show ?thesis by (cases r4) (auto simp: or_cleanup_def bindR_def idle_def running_def proc_ok_def)
  qed
  have "r \<noteq> Hang \<and> (\<forall>s. r = Ok s \<longrightarrow> running X tb others k') \<and> (\<forall>e. r = Err e \<longrightarrow> running X tb others k' \<and> (k_pages k = [] \<longrightarrow> k_pages k' = []))"
  proof (cases r1)
    case (Ok s)
    have "\<forall>a\<in>set ?stack. a < USER_MAX" by auto
    with stack_specs_spec [OF assms(2) r1(3) [OF Ok], of ?stack k]
    obtain r2 where r2: "stack_specs X ?stack s k = (r2, k)" "r2 \<noteq> Hang" "\<And>s. r2 = Ok s \<Longrightarrow> user_specs s" by blast
    show ?thesis
    proof (cases r2)
      case (Ok s2)
      with body [of s s2] r2 \<open>r1 = Ok s\<close> show ?thesis by blast
    qed (use assms(1,3) r1(1) r2 Ok in \<open>auto simp: load_image_def Let_def bindR_def\<close>)
  qed (use assms(1,3) r1 in \<open>auto simp: load_image_def Let_def bindR_def\<close>)
  then show "r \<noteq> Hang" and "r = Ok specs \<Longrightarrow> running X tb others k'" and "r = Err e \<Longrightarrow> running X tb others k' \<and> (k_pages k = [] \<longrightarrow> k_pages k' = [])"
    by blast+
qed

section \<open>A small machine\<close>

text \<open>Page tables as a finite map; the first mapping takes a frame for the table.\<close>

type_synonym small_pager = "(nat \<Rightarrow> (nat \<times> page_flags) option) \<times> nat option"

definition small_tables :: "small_pager \<Rightarrow> nat set" where
  "small_tables m = set_option (snd m)"

definition small_map_to :: "nat \<Rightarrow> nat \<Rightarrow> page_flags \<Rightarrow> small_pager \<times> frame_allocator \<Rightarrow> bool \<times> small_pager \<times> frame_allocator" where
  "small_map_to p f fl = (\<lambda>((t, tab), fa).
     if t p \<noteq> None then (False, (t, tab), fa)
     else if tab \<noteq> None then (True, (t(p \<mapsto> (f, fl)), tab), fa)
     else case allocate_frame containing_frame fa of
       (Ok (Some g), fa') \<Rightarrow> (True, (t(p \<mapsto> (f, fl)), Some g), fa')
     | (Ok None, fa') \<Rightarrow> (False, (t, None), fa')
     | _ \<Rightarrow> (False, (t, None), fa))"

definition small_pager_ops :: "small_pager pager_ops" where
  "small_pager_ops = \<lparr>pg_translate = (\<lambda>p m. map_option fst (fst m p)),
     pg_writable = (\<lambda>p m. case fst m p of Some (f, fl) \<Rightarrow> fl_writable fl | None \<Rightarrow> False),
     pg_map_to = small_map_to,
     pg_unmap = (\<lambda>p m. (map_option fst (fst m p), (fst m)(p := None), snd m)),
     pg_update_flags = (\<lambda>p fl m. (fst m p \<noteq> None, (fst m)(p := map_option (\<lambda>x. (fst x, fl)) (fst m p)), snd m))\<rparr>"

definition user_page :: "nat \<Rightarrow> nat option" where
  "user_page a = (if a < USER_MAX then Some (page_of a) else None)"

definition small_machine :: "(ram_disk, small_pager) machine" where
  "small_machine = \<lparr>mc_dev = ram_ops, mc_drives = [], mc_pager = small_pager_ops, mc_containing = containing_frame,
     mc_page = user_page, mc_elf = \<lparr>elf_et_dyn = True, elf_et_exec = True\<rparr>, mc_run = (\<lambda>ent sp k. (0, k))\<rparr>"

definition small_terminal :: terminal where
  "small_terminal = \<lparr>tm_con = \<lparr>con_font = \<lparr>ft_data = [], ft_header_size = 0, ft_glyph_count = 0, ft_glyph_size = 0\<rparr>,
       con_cursor_x = 0, con_cursor_line = 0, con_view_top = 0, con_columns = 1, con_rows = 1, con_fg = WHITE, con_bg = BLACK,
       con_cells = (\<lambda>_. EMPTY), con_input = replicate 256 0, con_input_len = 0, con_line_ready = False\<rparr>,
     tm_fb = \<lparr>fb_info = None, fb_back = (\<lambda>_. 0), fb_front = (\<lambda>_. 0), fb_dirty = False, fb_min_x = 0, fb_min_y = 0,
       fb_max_x = 0, fb_max_y = 0\<rparr>, tm_init = False, tm_mirror = False, tm_serial = []\<rparr>"

text \<open>The kernel after boot: no process, and all frames free.\<close>

definition small_kernel :: "(ram_disk, small_pager) kernel" where
  "small_kernel = \<lparr>k_fs = file_system_new, k_term = small_terminal, k_fds = None, k_fds_locked = False,
     k_mapper = Some (Map.empty, None), k_frames = Some example_frames, k_pages = [], k_brk = HEAP_BASE, k_mmap_next = MMAP_BASE,
     k_mem = (\<lambda>_. 0), k_exit_requested = False, k_exit_status = 0, k_return_rsp = 0, k_fs_base = 0, k_gs_base = 0\<rparr>"

lemma small_map_to_ok: "map_to_ok containing_frame small_pager_ops small_tables"
  unfolding map_to_ok_def
proof (intro allI impI)
  fix p f fl m fa ok m' fa'
  assume r: "pg_map_to small_pager_ops p f fl (m, fa) = (ok, m', fa')"
  obtain t tab where m: "m = (t, tab)" by (cases m)
  let ?C = "(\<forall>q. pg_translate small_pager_ops q m' = (if ok \<and> q = p then Some f else pg_translate small_pager_ops q m)
        \<and> pg_writable small_pager_ops q m' = (if ok \<and> q = p then fl_writable fl else pg_writable small_pager_ops q m))
     \<and> small_tables m \<subseteq> small_tables m'
     \<and> (\<forall>held. insert f (small_tables m) \<subseteq> held \<longrightarrow>
          (table_step containing_frame held)\<^sup>*\<^sup>* (fa, {}) (fa', small_tables m' - small_tables m))"
  consider "t p \<noteq> None" | "t p = None" "tab \<noteq> None" | "t p = None" "tab = None" by blast
  then show ?C
  proof cases
    case 3
    obtain res fa1 where a: "allocate_frame containing_frame fa = (res, fa1)" by (metis surj_pair)
    have none: "?C" if "ok = False" "m' = m" "fa' = fa"
      using that m by (auto simp: small_tables_def)
    show ?thesis
    proof (cases "\<exists>x. res = Ok x")
      case False
      with r m 3 a show ?thesis by (intro none) (auto simp: small_pager_ops_def small_map_to_def split: res.splits)
    next
      case True
      then obtain x where x: "res = Ok x" by blast
      show ?thesis
      proof (cases x)
        case None
        then have "table_step containing_frame held (fa, {}) (fa1, {})" for held
          using a x by (intro table_step.none) simp
        moreover have "ok = False" "m' = m" "fa' = fa1"
          using r m 3 a x None by (auto simp: small_pager_ops_def small_map_to_def)
        ultimately show ?thesis by auto
      next
        case (Some g)
        then have "table_step containing_frame held (fa, {}) (fa1, {g})" for held
          using a x by (intro table_step.take) simp
        moreover have "ok = True" "m' = (t(p \<mapsto> (f, fl)), Some g)" "fa' = fa1"
          using r m 3 a x Some by (auto simp: small_pager_ops_def small_map_to_def)
        ultimately show ?thesis
          using m 3 by (auto simp: small_tables_def small_pager_ops_def)
      qed
    qed
  qed (use r m in \<open>auto simp: small_pager_ops_def small_map_to_def small_tables_def\<close>)
qed

lemma small_paging_ok: "paging_ok small_machine small_tables"
proof -
  have "unmap_ok small_pager_ops small_tables" "update_ok small_pager_ops small_tables"
    by (auto simp: unmap_ok_def update_ok_def small_pager_ops_def small_tables_def split: option.splits)
  moreover have "page_api user_page" by (auto simp: page_api_def user_page_def)
  ultimately show ?thesis
    using small_map_to_ok containing_frame_api by (simp add: paging_ok_def small_machine_def)
qed

lemma small_kernel_idle: "idle small_machine small_tables {} small_kernel"
proof -
  obtain xs where "frame_inv example_frames xs {}"
    using frame_reachable_inv(1) [OF example_frames_reachable] by blast
  then show ?thesis
    by (auto simp: idle_def running_def proc_ok_def owns_def small_kernel_def small_tables_def frames_of_def pages_ok_def)
qed

text \<open>The kernel with a process that has one writable page.\<close>

definition mapped_kernel :: "(ram_disk, small_pager) kernel" where
  "mapped_kernel = small_kernel\<lparr>k_mapper := Some ([0x400000 \<mapsto> (0x10000, user_flags True False)], None),
     k_frames := Some (snd (allocate_frame containing_frame example_frames)), k_pages := [0x400000]\<rparr>"

lemma mapped_kernel_running: "running small_machine small_tables {} mapped_kernel"
proof -
  let ?fa = "snd (allocate_frame containing_frame example_frames)"
  have "allocate_frame containing_frame example_frames = (Ok (Some 0x10000), ?fa)"
    by (metis prod.collapse example_frames_alloc)
  then have "frame_step containing_frame (example_frames, {}) (?fa, insert 0x10000 {})" by (rule frame_step.take)
  then have "frame_reachable containing_frame example_frames ?fa {0x10000}"
    using example_frames_reachable by (auto simp: frame_reachable_def)
  from frame_reachable_inv(1) [OF this] obtain xs where "frame_inv ?fa xs {0x10000}" by blast
  moreover have "frames_of small_machine ([0x400000 \<mapsto> (0x10000, user_flags True False)], None) [0x400000] = {0x10000}"
    by (auto simp: frames_of_def small_machine_def small_pager_ops_def)
  ultimately show ?thesis
    by (auto simp: running_def proc_ok_def owns_def mapped_kernel_def small_kernel_def small_tables_def pages_ok_def
        small_machine_def small_pager_ops_def)
qed

section \<open>Properties\<close>



text \<open>When a process ends, \<open>cleanup_process\<close> returns: every page of the process is unmapped and its frame
  is free again, so the held frames are those of the page tables and of the rest of the kernel;
  other mappings are untouched, the break and the mapping address start over, and the file
  descriptors above the standard ones are closed.\<close>

theorem cleanup_returns_frames:
  assumes "running X tb others k" and "paging_ok X tb"
  shows "\<exists>k' m fa xs. cleanup_process X k = (Ok (), k') \<and> k_mapper k' = Some m \<and> k_frames k' = Some fa
    \<and> k_pages k' = [] \<and> frame_inv fa xs (others \<union> tb m)
    \<and> (\<forall>p. frame_at X k' p = (if p \<in> set (k_pages k) then None else frame_at X k p))
    \<and> k_brk k' = HEAP_BASE \<and> k_mmap_next k' = MMAP_BASE
    \<and> (\<exists>t. k_fds k' = Some t \<and> length t \<le> 3)"
proof -
  have "owns X tb others k" "\<not> k_fds_locked k" using assms(1) by (auto simp: running_def proc_ok_def)
  from cleanup_process_spec [OF this(1) assms(2) this(2)] obtain k' where k': "cleanup_process X k = (Ok (), k')"
      "owns X tb others k'" "k_pages k' = []" "\<forall>p. frame_at X k' p = (if p \<in> set (k_pages k) then None else frame_at X k p)"
      "k_brk k' = HEAP_BASE" "k_mmap_next k' = MMAP_BASE"
      "\<exists>t. k_fds k' = Some (take 3 t)" by blast
  from k'(2,3) obtain m fa xs where "k_mapper k' = Some m" "k_frames k' = Some fa" "frame_inv fa xs (others \<union> tb m)"
    by (auto simp: owns_def frames_of_def)
  with k' show ?thesis by auto
qed

theorem cleanup_returns_frames_witness:
  "\<exists>k'. cleanup_process small_machine mapped_kernel = (Ok (), k') \<and> k_pages k' = [] \<and> frame_at small_machine k' 0x400000 = None"
proof -
  have "0x400000 \<in> set (k_pages mapped_kernel)" by (simp add: mapped_kernel_def)
  with cleanup_returns_frames [OF mapped_kernel_running small_paging_ok] show ?thesis by (metis (full_types))
qed

end
