(* ===== verification/Kmem_Correct.thy ===== *)
theory Kmem_Correct
  imports Kmem Process Buddy_System
begin

text \<open>
  The memory the kernel sets up: after \<open>init_heap\<close> every page of the kernel heap has a frame of its own,
  the heap is initialized, and the state is one in which processes can run (\<open>idle\<close>). The memory
  report counts every region once.
\<close>

section \<open>Heap pages\<close>

text \<open>The kernel with the memory \<open>s\<close>, in which \<open>ps\<close> counts as the pages of a process.\<close>

definition in_kernel :: "'m memory \<Rightarrow> nat list \<Rightarrow> ('d, 'm) kernel \<Rightarrow> ('d, 'm) kernel" where
  "in_kernel s ps k = k\<lparr>k_mapper := Some (me_mapper s), k_frames := Some (me_frames s), k_pages := ps\<rparr>"

lemma in_kernel_simps [simp]:
  "k_mapper (in_kernel s ps k) = Some (me_mapper s)" "k_frames (in_kernel s ps k) = Some (me_frames s)"
  "k_pages (in_kernel s ps k) = ps"
  by (simp_all add: in_kernel_def)

lemma take_frame_spec:
  assumes "owns X tb others (in_kernel s ps k)" and "paging_ok X tb"
  shows "(\<exists>fa. take_frame X s = (Err FrameAllocationFailed, s\<lparr>me_frames := fa\<rparr>))
    \<or> (\<exists>f fa. take_frame X s = (Ok f, s\<lparr>me_frames := fa\<rparr>) \<and> f \<notin> others
        \<and> owns X tb (insert f others) (in_kernel (s\<lparr>me_frames := fa\<rparr>) ps k))"
proof -
  have same: "(in_kernel s ps k)\<lparr>k_frames := Some fa\<rparr> = in_kernel (s\<lparr>me_frames := fa\<rparr>) ps k" for fa
    by (simp add: in_kernel_def)
  have run: "alloc_frame X (in_kernel s ps k) = (case take_frame X s of
      (Ok f, s') \<Rightarrow> (Ok f, in_kernel s' ps k) | (Err e, s') \<Rightarrow> (Err OutOfMemory, in_kernel s' ps k)
    | (Panic, s') \<Rightarrow> (Panic, in_kernel s' ps k) | (Hang, s') \<Rightarrow> (Hang, in_kernel s' ps k))"
    by (auto simp: alloc_frame_def take_frame_def get_allocator_def bindR_def same split: prod.splits res.splits option.splits)
  have keep: "\<exists>fa. take_frame X s = (r, s\<lparr>me_frames := fa\<rparr>)" if "take_frame X s = (r, s')" for r s'
    using that by (auto simp: take_frame_def split: prod.splits res.splits option.splits)
  have err: "e = FrameAllocationFailed" if "take_frame X s = (Err e, s')" for e s'
    using that by (auto simp: take_frame_def split: prod.splits res.splits option.splits)
  obtain r fa where r: "take_frame X s = (r, s\<lparr>me_frames := fa\<rparr>)"
    using keep by (metis prod.exhaust)
  have inj: "in_kernel (s\<lparr>me_frames := fa\<rparr>) ps k = in_kernel (s\<lparr>me_frames := fb\<rparr>) ps k \<Longrightarrow> fa = fb" for fb
    by (metis in_kernel_simps(2) memory.select_convs(2) memory.surjective memory.update_convs(2) option.inject)
  from owns_alloc [OF assms] show ?thesis
    unfolding run r same by (cases r) (use err r inj in auto)
qed

lemma map_heap_page_spec:
  assumes "owns X tb others (in_kernel s ps k)" and "f \<in> others" and "paging_ok X tb"
    and "pg_translate (mc_pager X) p (me_mapper s) = None" and "PAGE_SIZE dvd p" and "p < USER_MAX" and "p \<notin> set ps"
    and "map_heap_page X p f s = (r, s')"
  shows "(r = Ok () \<or> r = Err MapToFailed) \<and> me_heap s' = me_heap s
    \<and> (r = Ok () \<longrightarrow> owns X tb (others - {f}) (in_kernel s' (ps @ [p]) k)
        \<and> (\<forall>q. pg_translate (mc_pager X) q (me_mapper s') = (if q = p then Some f else pg_translate (mc_pager X) q (me_mapper s))))"
proof -
  obtain ok m' fa' where mt: "pg_map_to (mc_pager X) p f heap_flags (me_mapper s, me_frames s) = (ok, m', fa')"
    by (metis prod_cases3)
  then have s': "s' = s\<lparr>me_mapper := m', me_frames := fa'\<rparr>" "r = (if ok then Ok () else Err MapToFailed)"
    using assms(8) by (auto simp: map_heap_page_def)
  have m: "k_mapper (in_kernel s ps k) = Some (me_mapper s)" by simp
  let ?mem = "\<lambda>a. if ok \<and> in_page p a then 0 else k_mem (in_kernel s ps k) a"
  from owns_map [OF assms(1-3) m assms(4), where fl = heap_flags]
  have o: "owns X tb others ((in_kernel s ps k)\<lparr>k_mapper := Some m', k_frames := Some fa', k_mem := ?mem\<rparr>)"
    and tr: "\<forall>q. pg_translate (mc_pager X) q m' = (if ok \<and> q = p then Some f else pg_translate (mc_pager X) q (me_mapper s))"
    using mt by (auto simp: map_page_def get_mapper_def get_allocator_def bindR_def Let_def dest: arg_cong [where f = k_mapper] arg_cong [where f = k_frames] arg_cong [where f = k_mem])
  have "owns X tb others (in_kernel s' ps k)"
    using o by (subst owns_cong [of _ "(in_kernel s ps k)\<lparr>k_mapper := Some m', k_frames := Some fa', k_mem := ?mem\<rparr>"]) (simp_all add: s'(1))
  moreover have "(in_kernel s' ps k)\<lparr>k_pages := ps @ [p]\<rparr> = in_kernel s' (ps @ [p]) k" by (simp add: in_kernel_def)
  ultimately have "owns X tb (others - {f}) (in_kernel s' (ps @ [p]) k)" if ok
    using owns_push [of X tb others "in_kernel s' ps k" f m' p] assms(2,5-7) tr that s'(1) by simp
  with s' tr show ?thesis by auto
qed

text \<open>The loop over the pages of the heap.\<close>

lemma map_heap_spec:
  assumes "owns X tb others (in_kernel s ps k)" and "paging_ok X tb" and "distinct (ps @ pages)"
    and "\<forall>p\<in>set pages. pg_translate (mc_pager X) p (me_mapper s) = None \<and> PAGE_SIZE dvd p \<and> p < USER_MAX"
    and "map_heap X pages s = (r, s')"
  shows "(r = Ok () \<or> r = Err FrameAllocationFailed \<or> r = Err MapToFailed) \<and> me_heap s' = me_heap s
    \<and> (r = Ok () \<longrightarrow> owns X tb others (in_kernel s' (ps @ pages) k)
        \<and> (\<forall>q. q \<notin> set pages \<longrightarrow> pg_translate (mc_pager X) q (me_mapper s') = pg_translate (mc_pager X) q (me_mapper s)))"
  using assms
proof (induction pages arbitrary: s ps)
  case Nil
  then show ?case by simp
next
  case (Cons p pages)
  from take_frame_spec [OF Cons.prems(1,2)] show ?case
  proof (elim disjE exE conjE)
    fix fa assume "take_frame X s = (Err FrameAllocationFailed, s\<lparr>me_frames := fa\<rparr>)"
    with Cons.prems(5) show ?case by (auto simp: bindR_def)
  next
    fix f fa
    let ?s = "s\<lparr>me_frames := fa\<rparr>"
    assume t: "take_frame X s = (Ok f, ?s)" "f \<notin> others" "owns X tb (insert f others) (in_kernel ?s ps k)"
    obtain r1 s1 where m: "map_heap_page X p f ?s = (r1, s1)" by (metis prod.exhaust)
    have un: "pg_translate (mc_pager X) p (me_mapper ?s) = None" using Cons.prems(4) by simp
    note spec = map_heap_page_spec [OF t(3) insertI1 Cons.prems(2) un _ _ _ m]
    show ?case
    proof (cases "r1 = Ok ()")
      case False
      then show ?thesis using spec Cons.prems t(1) m by (auto simp: bindR_def)
    next
      case True
      then have s1: "owns X tb others (in_kernel s1 (ps @ [p]) k)" "me_heap s1 = me_heap s"
          "\<forall>q. pg_translate (mc_pager X) q (me_mapper s1) = (if q = p then Some f else pg_translate (mc_pager X) q (me_mapper s))"
        using spec Cons.prems(3,4) t(2) by auto
      have run: "map_heap X pages s1 = (r, s')" using Cons.prems(5) t(1) m True by (simp add: bindR_def)
      have "\<forall>q\<in>set pages. pg_translate (mc_pager X) q (me_mapper s1) = None \<and> PAGE_SIZE dvd q \<and> q < USER_MAX"
        using s1(3) Cons.prems(3,4) by auto
      from Cons.IH [OF s1(1) Cons.prems(2) _ this run] Cons.prems(3) s1(2,3) show ?thesis by auto
    qed
  qed
qed

definition heap_pages :: "nat list" where
  "heap_pages = page_range HEAP_START (page_of (HEAP_START + HEAP_SIZE - 1))"

lemma heap_pages_eq: "heap_pages = map (\<lambda>i. HEAP_START + i * PAGE_SIZE) [0..<25600]"
  by (simp add: heap_pages_def page_range_def page_of_def)

lemma heap_pages_facts: "distinct heap_pages" "p \<in> set heap_pages \<Longrightarrow> PAGE_SIZE dvd p \<and> p < USER_MAX"
  by (auto simp: heap_pages_eq distinct_map inj_on_def intro!: dvd_add)

lemma heap_address_page:
  assumes "HEAP_START \<le> a" and "a < HEAP_START + HEAP_SIZE"
  shows "page_of a \<in> set heap_pages"
proof -
  obtain d where a: "a = HEAP_START + d" using assms(1) le_Suc_ex by blast
  have "(c * PAGE_SIZE + d) div PAGE_SIZE = c + d div PAGE_SIZE" for c :: nat by simp
  from this [of "0x444444440"] have "page_of a = HEAP_START + d div PAGE_SIZE * PAGE_SIZE"
    by (simp add: a page_of_def)
  moreover have "d div PAGE_SIZE < 25600" using assms(2) a by simp
  ultimately show ?thesis by (auto simp: heap_pages_eq)
qed

lemma init_heap_run:
  assumes "paging_ok X tb"
  shows "init_heap X = bindR (map_heap X heap_pages) (\<lambda>_. init_buddy)"
proof -
  have "page_api (mc_page X)" using assms by (simp add: paging_ok_def)
  then have "mc_page X HEAP_START = Some HEAP_START" "mc_page X (HEAP_START + HEAP_SIZE - 1) = Some (page_of (HEAP_START + HEAP_SIZE - 1))"
    unfolding page_api_def by (auto simp: page_of_def)
  then show ?thesis by (simp add: init_heap_def heap_pages_def)
qed

lemma owns_set_aside:
  assumes "owns X tb others (in_kernel s ps k)"
  shows "owns X tb (others \<union> frames_of X (me_mapper s) ps) (in_kernel s [] k)"
proof -
  have "others \<union> frames_of X (me_mapper s) ps \<union> tb (me_mapper s) \<union> frames_of X (me_mapper s) []
      = others \<union> tb (me_mapper s) \<union> frames_of X (me_mapper s) ps"
    by (auto simp: frames_of_def)
  with assms show ?thesis by (auto simp: owns_def pages_ok_def frames_of_def)
qed

text \<open>The range the heap is initialized with.\<close>

lemma init_buddy_kernel:
  assumes "me_heap s = buddy_new mem"
  obtains b where "init_buddy s = (Ok (), s\<lparr>me_heap := b\<rparr>)" and "initialized b"
    and "(\<Union>z\<in>set (zone_list b). zblk z) = {HEAP_START..<HEAP_START + HEAP_SIZE}"
proof -
  obtain b where b: "buddy_init HEAP_START HEAP_SIZE (buddy_new mem) = (Ok (), b)"
    using kernel_heap_zones [of mem] by (auto split: prod.splits)
  have "0 < HEAP_START" "HEAP_START mod 2 ^ MIN_ORDER = 0" "2 ^ MIN_ORDER \<le> HEAP_SIZE" by simp_all
  then show thesis
  proof (cases rule: buddy_init_cases [where s = "buddy_new mem"])
    case (ok s' F)
    with b heap_invD(1) [OF ok(2)] assms show thesis by (intro that [of b]) (simp_all add: init_buddy_def)
  qed (use b in simp)
qed

lemma init_heap_spec:
  assumes "paging_ok X tb" and "idle X tb others (in_kernel s [] k)"
    and "\<forall>p\<in>set heap_pages. pg_translate (mc_pager X) p (me_mapper s) = None"
    and "me_heap s = buddy_new mem" and "init_heap X s = (r, s')"
  shows "(r = Ok () \<or> r = Err FrameAllocationFailed \<or> r = Err MapToFailed)
    \<and> (r = Ok () \<longrightarrow>
        (\<forall>a. HEAP_START \<le> a \<longrightarrow> a < HEAP_START + HEAP_SIZE \<longrightarrow>
          (\<exists>f. pg_translate (mc_pager X) (page_of a) (me_mapper s') = Some f \<and> f \<notin> others \<union> tb (me_mapper s')))
        \<and> inj_on (\<lambda>p. pg_translate (mc_pager X) p (me_mapper s')) (set heap_pages)
        \<and> (\<forall>q. q \<notin> set heap_pages \<longrightarrow> pg_translate (mc_pager X) q (me_mapper s') = pg_translate (mc_pager X) q (me_mapper s))
        \<and> initialized (me_heap s') \<and> (\<Union>z\<in>set (zone_list (me_heap s')). zblk z) = {HEAP_START..<HEAP_START + HEAP_SIZE}
        \<and> idle X tb (others \<union> frames_of X (me_mapper s') heap_pages) (in_kernel s' [] k))"
proof -
  obtain r1 s1 where run: "map_heap X heap_pages s = (r1, s1)" by (metis prod.exhaust)
  have own: "owns X tb others (in_kernel s [] k)" using assms(2) by (simp add: idle_def running_def proc_ok_def)
  have pages: "\<forall>p\<in>set heap_pages. pg_translate (mc_pager X) p (me_mapper s) = None \<and> PAGE_SIZE dvd p \<and> p < USER_MAX"
    using assms(3) heap_pages_facts(2) by blast
  have "distinct ([] @ heap_pages)" using heap_pages_facts(1) by simp
  note spec = map_heap_spec [OF own assms(1) this pages run, unfolded append_Nil]
  show ?thesis
  proof (cases "r1 = Ok ()")
    case False
    then show ?thesis using spec run assms(5) init_heap_run [OF assms(1)] by (auto simp: bindR_def)
  next
    case True
    with spec have h: "me_heap s1 = buddy_new mem" and o: "owns X tb others (in_kernel s1 heap_pages k)"
      and rest: "\<forall>q. q \<notin> set heap_pages \<longrightarrow> pg_translate (mc_pager X) q (me_mapper s1) = pg_translate (mc_pager X) q (me_mapper s)"
      using assms(4) by auto
    from init_buddy_kernel [OF h] obtain b where b: "init_buddy s1 = (Ok (), s1\<lparr>me_heap := b\<rparr>)" "initialized b"
        "(\<Union>z\<in>set (zone_list b). zblk z) = {HEAP_START..<HEAP_START + HEAP_SIZE}" .
    have rs: "r = Ok ()" "s' = s1\<lparr>me_heap := b\<rparr>"
      using assms(5) b(1) run True init_heap_run [OF assms(1)] by (auto simp: bindR_def)
    have ik: "in_kernel s' ps k = in_kernel s1 ps k" for ps by (simp add: rs(2) in_kernel_def)
    from o have po: "pages_ok X (me_mapper s1) heap_pages"
        and dis: "(others \<union> tb (me_mapper s1)) \<inter> frames_of X (me_mapper s1) heap_pages = {}"
      by (auto simp: owns_def)
    have mapped: "\<exists>f. pg_translate (mc_pager X) (page_of a) (me_mapper s1) = Some f \<and> f \<notin> others \<union> tb (me_mapper s1)"
      if "HEAP_START \<le> a" "a < HEAP_START + HEAP_SIZE" for a
      using po dis heap_address_page [OF that] by (fastforce simp: pages_ok_def frames_of_def)
    have "idle X tb (others \<union> frames_of X (me_mapper s1) heap_pages) (in_kernel s1 [] k)"
      using owns_set_aside [OF o] assms(2) by (simp add: idle_def running_def proc_ok_def in_kernel_def)
    then have "idle X tb (others \<union> frames_of X (me_mapper s') heap_pages) (in_kernel s' [] k)"
      by (simp add: ik) (simp add: rs(2))
    with mapped po rest b(2,3) rs show ?thesis by (simp add: pages_ok_def)
  qed
qed

section \<open>A machine with 256 MiB\<close>

definition big_frames :: frame_allocator where
  "big_frames = frame_new [\<lparr>e_base = 0x100000, e_length = 0x10000000, e_type = USABLE\<rparr>] 0 (\<lambda>_. 0)"

definition big_memory :: "small_pager memory" where
  "big_memory = \<lparr>me_mapper = (Map.empty, None), me_frames = big_frames, me_heap = buddy_new (\<lambda>_. 0)\<rparr>"

text \<open>At most \<open>n\<close> frames of that machine are taken.\<close>

definition taken :: "nat \<Rightarrow> frame_allocator \<Rightarrow> bool" where
  "taken n fa \<longleftrightarrow> (\<exists>xs out. frame_inv fa xs out \<and> finite out \<and> card out \<le> n)
     \<and> usable_frames fa = usable_frames big_frames \<and> is_reserved fa = (\<lambda>_. False)"

lemma big_frame_inv: "\<exists>xs. frame_inv big_frames xs {}"
proof -
  have "frame_start big_frames"
    by (simp add: frame_start_def big_frames_def frame_new_def reserved_ok_def reserved_list_def map_filter_def map_ok_def)
  then have "frame_reachable containing_frame big_frames big_frames {}"
    using containing_frame_api by (simp add: frame_reachable_def)
  from frame_reachable_inv(1) [OF this] show ?thesis by blast
qed

lemma card_big_frames: "0x10000 \<le> card (usable_frames big_frames)" "finite (usable_frames big_frames)"
proof -
  have u: "usable_frames big_frames = {f. FRAME_SIZE dvd f \<and> 0x100000 \<le> f \<and> f + FRAME_SIZE \<le> 0x10100000}"
    by (simp add: usable_frames_def big_frames_def frame_new_def region_frames_def e_usable_def)
  then have "usable_frames big_frames \<subseteq> {..0x10100000}" by auto
  then show fin: "finite (usable_frames big_frames)" by (rule finite_subset) simp
  let ?f = "\<lambda>i. 0x100000 + i * FRAME_SIZE"
  have "?f ` {..<0x10000} \<subseteq> usable_frames big_frames"
    unfolding u by (auto intro!: dvd_add)
  moreover have "card (?f ` {..<0x10000}) = 0x10000" by (subst card_image) (auto simp: inj_on_def)
  ultimately show "0x10000 \<le> card (usable_frames big_frames)" using card_mono [OF fin] by metis
qed

lemma taken_alloc:
  assumes "taken n fa" and "n < 0x10000"
  obtains f fa' where "allocate_frame containing_frame fa = (Ok (Some f), fa')" and "taken (Suc n) fa'"
proof -
  from assms(1) obtain xs out where o: "frame_inv fa xs out" "finite out" "card out \<le> n"
      "usable_frames fa = usable_frames big_frames" "is_reserved fa = (\<lambda>_. False)"
    by (auto simp: taken_def)
  from frame_inv_alloc [OF o(1) containing_frame_api] obtain r fa' ys where r: "allocate_frame containing_frame fa = (Ok r, fa')"
      "memory_map fa' = memory_map fa" "is_reserved fa' = is_reserved fa"
      "case r of Some f \<Rightarrow> f \<notin> out \<and> f \<in> usable_frames fa \<and> \<not> is_reserved fa f \<and> frame_inv fa' ys (insert f out)
        | None \<Rightarrow> frame_inv fa' ys out \<and> {f \<in> usable_frames fa. \<not> is_reserved fa f} \<subseteq> out"
    by blast
  show thesis
  proof (cases r)
    case None
    then have "card (usable_frames big_frames) \<le> card out" using r(4) o by (intro card_mono) auto
    with card_big_frames(1) o(3) assms(2) show thesis by simp
  next
    case (Some f)
    moreover have "usable_frames fa' = usable_frames fa" using r(2) by (simp add: usable_frames_def)
    ultimately have "taken (Suc n) fa'" using r o by (auto simp: taken_def intro!: exI [of _ ys] exI [of _ "insert f out"])
    with r(1) Some that show thesis by blast
  qed
qed

lemma big_map_heap:
  assumes "taken (2 * n) (me_frames s)" and "n + length pages \<le> 0x7FFF" and "distinct pages"
    and "\<forall>p\<in>set pages. fst (me_mapper s) p = None"
  shows "fst (map_heap small_machine pages s) = Ok ()"
  using assms
proof (induction pages arbitrary: n s)
  case Nil
  then show ?case by simp
next
  case (Cons p pages)
  obtain t tab where m: "me_mapper s = (t, tab)" by (cases "me_mapper s")
  from Cons.prems(2) obtain f fa where f: "allocate_frame containing_frame (me_frames s) = (Ok (Some f), fa)" "taken (Suc (2 * n)) fa"
    using taken_alloc [OF Cons.prems(1)] by auto
  from Cons.prems(2) obtain g fb where g: "allocate_frame containing_frame fa = (Ok (Some g), fb)" "taken (2 * Suc n) fb"
    using taken_alloc [OF f(2)] by auto
  obtain s1 where s1: "map_heap_page small_machine p f (s\<lparr>me_frames := fa\<rparr>) = (Ok (), s1)"
      "taken (2 * Suc n) (me_frames s1)" "\<forall>q\<in>set pages. fst (me_mapper s1) q = None"
  proof (cases tab)
    case None
    let ?s = "s\<lparr>me_frames := fb, me_mapper := (t(p \<mapsto> (f, heap_flags)), Some g)\<rparr>"
    show thesis
      by (rule that [of ?s]) (use None g m Cons.prems(3,4) in
          \<open>auto simp: map_heap_page_def small_machine_def small_pager_ops_def small_map_to_def\<close>)
  next
    case (Some h)
    have "taken (2 * Suc n) fa" using f(2) by (auto simp: taken_def intro: le_SucI)
    let ?s = "s\<lparr>me_frames := fa, me_mapper := (t(p \<mapsto> (f, heap_flags)), Some h)\<rparr>"
    show thesis
      by (rule that [of ?s]) (use Some m Cons.prems(3,4) \<open>taken (2 * Suc n) fa\<close> in
          \<open>auto simp: map_heap_page_def small_machine_def small_pager_ops_def small_map_to_def\<close>)
  qed
  have "take_frame small_machine s = (Ok f, s\<lparr>me_frames := fa\<rparr>)" using f(1) by (simp add: take_frame_def small_machine_def)
  with s1 Cons.IH [OF s1(2) _ _ s1(3)] Cons.prems(2,3) show ?case by (simp add: bindR_def)
qed

lemma big_facts:
  shows "idle small_machine small_tables {} (in_kernel big_memory [] small_kernel)"
    and "pg_translate (mc_pager small_machine) p (me_mapper big_memory) = None"
    and "\<exists>s'. init_heap small_machine big_memory = (Ok (), s')"
proof -
  have fresh: "taken (2 * 0) (me_frames big_memory)"
  proof -
    have "\<exists>xs out. frame_inv big_frames xs out \<and> finite out \<and> card out \<le> 2 * 0"
      using big_frame_inv finite.emptyI card.empty by (metis le_numeral_extra(3) mult_0_right)
    moreover have "is_reserved big_frames = (\<lambda>_. False)"
      by (auto simp: is_reserved_def reserved_list_def big_frames_def frame_new_def map_filter_def)
    ultimately show ?thesis by (simp add: taken_def big_memory_def)
  qed
  show un: "pg_translate (mc_pager small_machine) p (me_mapper big_memory) = None" for p
    by (simp add: small_machine_def small_pager_ops_def big_memory_def)
  have "fst (map_heap small_machine heap_pages big_memory) = Ok ()"
    by (rule big_map_heap [OF fresh]) (simp_all add: heap_pages_facts, simp_all add: heap_pages_eq big_memory_def)
  then obtain s1 where m: "map_heap small_machine heap_pages big_memory = (Ok (), s1)" by (metis prod.collapse)
  have own: "owns small_machine small_tables {} (in_kernel big_memory [] small_kernel)"
    using big_frame_inv by (auto simp: owns_def big_memory_def small_tables_def frames_of_def pages_ok_def)
  then show "idle small_machine small_tables {} (in_kernel big_memory [] small_kernel)"
    by (simp add: idle_def running_def proc_ok_def in_kernel_def small_kernel_def)
  have "me_heap s1 = buddy_new (\<lambda>_. 0)"
    using map_heap_spec [OF own small_paging_ok _ _ m] heap_pages_facts un by (auto simp: big_memory_def)
  then obtain b where "init_buddy s1 = (Ok (), s1\<lparr>me_heap := b\<rparr>)" by (rule init_buddy_kernel)
  with m show "\<exists>s'. init_heap small_machine big_memory = (Ok (), s')"
    by (simp add: init_heap_run [OF small_paging_ok] bindR_def)
qed

section \<open>Properties\<close>

text \<open>C18: \<open>init_heap\<close> on a range that was not mapped returns, with an error only for want of a frame or
  when the page tables refuse a page. When it succeeds, every address of the kernel heap lies in a
  mapped page; each heap page has a frame of its own, which neither the page tables nor the rest
  of the kernel hold; all other pages are as before; the zones of the heap cover its range exactly;
  and processes can be run with the frames of the heap set aside.\<close>

theorem heap_frames_exclusive:
  assumes "paging_ok X tb" and "idle X tb others (in_kernel s [] k)"
    and "\<forall>p\<in>set heap_pages. pg_translate (mc_pager X) p (me_mapper s) = None"
    and "me_heap s = buddy_new mem" and "init_heap X s = (r, s')"
  shows "(r = Ok () \<or> r = Err FrameAllocationFailed \<or> r = Err MapToFailed)
    \<and> (r = Ok () \<longrightarrow>
        (\<forall>a. HEAP_START \<le> a \<longrightarrow> a < HEAP_START + HEAP_SIZE \<longrightarrow>
          (\<exists>f. pg_translate (mc_pager X) (page_of a) (me_mapper s') = Some f \<and> f \<notin> others \<union> tb (me_mapper s')))
        \<and> inj_on (\<lambda>p. pg_translate (mc_pager X) p (me_mapper s')) (set heap_pages)
        \<and> (\<forall>q. q \<notin> set heap_pages \<longrightarrow> pg_translate (mc_pager X) q (me_mapper s') = pg_translate (mc_pager X) q (me_mapper s))
        \<and> initialized (me_heap s') \<and> (\<Union>z\<in>set (zone_list (me_heap s')). zblk z) = {HEAP_START..<HEAP_START + HEAP_SIZE}
        \<and> idle X tb (others \<union> frames_of X (me_mapper s') heap_pages) (in_kernel s' [] k))"
  by (rule init_heap_spec [OF assms])

theorem heap_frames_exclusive_witness:
  "\<exists>s'. init_heap small_machine big_memory = (Ok (), s') \<and> initialized (me_heap s')
     \<and> (\<exists>f. pg_translate (mc_pager small_machine) HEAP_START (me_mapper s') = Some f)"
proof -
  obtain s' where run: "init_heap small_machine big_memory = (Ok (), s')" using big_facts(3) by blast
  have "me_heap big_memory = buddy_new (\<lambda>_. 0)" by (simp add: big_memory_def)
  from heap_frames_exclusive [OF small_paging_ok big_facts(1) _ this run] big_facts(2) run
  show ?thesis by (auto simp: page_of_def dest!: spec [of _ HEAP_START])
qed

section \<open>The memory report\<close>

text \<open>The regions that the report counts, and the size of those that satisfy \<open>P\<close>, as a 64-bit number.\<close>

definition fits :: "entry \<Rightarrow> bool" where
  "fits e = (checked_add (e_base e) (e_length e) \<noteq> None)"

definition counted :: "entry list \<Rightarrow> entry list" where
  "counted entries = filter fits entries"

definition size_of :: "(entry \<Rightarrow> bool) \<Rightarrow> entry list \<Rightarrow> nat" where
  "size_of P entries = min (sum_list (map e_length (filter P (counted entries)))) (u64_limit - 1)"

lemma size_of_Nil [simp]: "size_of P [] = 0"
  by (simp add: size_of_def counted_def)

lemma size_of_snoc:
  "size_of P (entries @ [e]) =
     (if P e \<and> fits e then saturating_add (size_of P entries) (e_length e) else size_of P entries)"
  by (auto simp: size_of_def counted_def saturating_add_def min_def)

lemma size_of_mono: "size_of P entries \<le> size_of (\<lambda>_. True) entries"
proof -
  have "sum_list (map e_length (filter P es)) \<le> sum_list (map e_length es)" for es
    by (induction es) auto
  then show ?thesis unfolding size_of_def by (metis (no_types, lifting) filter_True min.mono order_refl)
qed

lemma percent_bounded: "part \<le> tot \<Longrightarrow> percent_x100 part tot \<le> 10000"
proof -
  assume "part \<le> tot"
  then have "part * 10000 div tot \<le> tot * 10000 div tot" by (intro div_le_mono) simp
  then have "tot \<noteq> 0 \<Longrightarrow> part * 10000 div tot \<le> 10000" by simp
  then show ?thesis unfolding percent_x100_def using mod_less_eq_dividend order_trans by auto
qed

lemma mem_totals_snoc: "mem_totals_of (entries @ [e]) = account e (mem_totals_of entries)"
  by (simp add: mem_totals_of_def)

lemma mem_totals_Nil: "mem_totals_of [] = totals_zero"
  by (simp add: mem_totals_of_def)

lemma account_fits:
  "account e t = (if fits e then account_type (e_type e) (e_base e) (e_length e) (e_base e + e_length e)
     (t\<lparr>mt_map := saturating_add (mt_map t) (e_length e)\<rparr>) else t)"
  by (simp add: account_def fits_def checked_add_def)

lemma account_fields:
  "mt_map (account e t) = (if fits e then saturating_add (mt_map t) (e_length e) else mt_map t)"
    "mt_usable (account e t) = (if e_type e = USABLE \<and> fits e then saturating_add (mt_usable t) (e_length e) else mt_usable t)"
    "mt_reserved (account e t) = (if e_type e = RESERVED \<and> fits e then saturating_add (mt_reserved t) (e_length e) else mt_reserved t)"
    "mt_reclaim (account e t) = (if e_type e = ACPI_RECLAIMABLE \<and> fits e then saturating_add (mt_reclaim t) (e_length e) else mt_reclaim t)"
    "mt_nvs (account e t) = (if e_type e = ACPI_NVS \<and> fits e then saturating_add (mt_nvs t) (e_length e) else mt_nvs t)"
    "mt_boot (account e t) = (if e_type e = BOOTLOADER_RECLAIMABLE \<and> fits e then saturating_add (mt_boot t) (e_length e) else mt_boot t)"
    "mt_kernel (account e t) = (if e_type e = EXECUTABLE_AND_MODULES \<and> fits e then saturating_add (mt_kernel t) (e_length e) else mt_kernel t)"
    "mt_fb (account e t) = (if e_type e = FRAMEBUFFER \<and> fits e then saturating_add (mt_fb t) (e_length e) else mt_fb t)"
    "mt_bad (account e t) = (if e_type e = BAD_MEMORY \<and> fits e then saturating_add (mt_bad t) (e_length e) else mt_bad t)"
    "mt_other (account e t) = (if (\<exists>n. e_type e = OTHER_TYPE n) \<and> fits e then saturating_add (mt_other t) (e_length e) else mt_other t)"
    "mt_regions (account e t) = (if e_type e = USABLE \<and> fits e then mt_regions t + 1 else mt_regions t)"
    "mt_largest (account e t) = (if e_type e = USABLE \<and> fits e then max (mt_largest t) (e_length e) else mt_largest t)"
    "mt_first (account e t) = (if e_type e = USABLE \<and> fits e
          then Some (case mt_first t of None \<Rightarrow> e_base e | Some old \<Rightarrow> min old (e_base e)) else mt_first t)"
    "mt_last (account e t) = (if e_type e = USABLE \<and> fits e
          then Some (case mt_last t of None \<Rightarrow> e_base e + e_length e | Some old \<Rightarrow> max old (e_base e + e_length e)) else mt_last t)"
  by (cases "e_type e"; simp add: account_fits account_usable_def Let_def max_def)+

lemma counted_snoc: "counted (entries @ [e]) = counted entries @ (if fits e then [e] else [])"
  by (simp add: counted_def)

definition usable_of :: "entry list \<Rightarrow> entry list" where
  "usable_of entries = filter (\<lambda>e. e_type e = USABLE) (counted entries)"

lemma usable_of_snoc:
  "usable_of (entries @ [e]) = usable_of entries @ (if e_type e = USABLE \<and> fits e then [e] else [])"
  by (simp add: usable_of_def counted_snoc)

lemma usable_of_Nil [simp]: "usable_of [] = []"
  by (simp add: usable_of_def counted_def)

lemmas totals_simps = mem_totals_Nil totals_zero_def mem_totals_snoc account_fields usable_of_snoc size_of_snoc

lemma mem_totals_bounds:
  "mt_regions (mem_totals_of entries) = length (usable_of entries)
   \<and> mt_largest (mem_totals_of entries) = Max (insert 0 (e_length ` set (usable_of entries)))
   \<and> mt_first (mem_totals_of entries) = (if usable_of entries = [] then None else Some (Min (e_base ` set (usable_of entries))))
   \<and> mt_last (mem_totals_of entries) =
     (if usable_of entries = [] then None else Some (Max ((\<lambda>e. e_base e + e_length e) ` set (usable_of entries))))"
proof (induction entries rule: rev_induct)
  case Nil
  show ?case by (simp add: totals_simps)
next
  case (snoc e entries)
  show ?case
  proof (cases "e_type e = USABLE \<and> fits e")
    case True
    then have u: "usable_of (entries @ [e]) = usable_of entries @ [e]" by (simp add: usable_of_snoc)
    have "Max (insert 0 (e_length ` set (usable_of entries @ [e]))) = max (Max (insert 0 (e_length ` set (usable_of entries)))) (e_length e)"
      by (simp add: insert_commute [of 0] max.commute del: Max_insert) (subst Max_insert; simp)
    with True snoc u show ?thesis
      by (simp add: mem_totals_snoc account_fields min.commute max.commute)
  next
    case False
    then have "usable_of (entries @ [e]) = usable_of entries" by (auto simp: usable_of_snoc)
    with snoc show ?thesis by (simp only: mem_totals_snoc account_fields if_not_P [OF False])
  qed
qed

lemma mem_totals_types:
  "mt_map (mem_totals_of entries) = size_of (\<lambda>_. True) entries"
  "mt_usable (mem_totals_of entries) = size_of (\<lambda>e. e_type e = USABLE) entries"
  "mt_reserved (mem_totals_of entries) = size_of (\<lambda>e. e_type e = RESERVED) entries"
  "mt_reclaim (mem_totals_of entries) = size_of (\<lambda>e. e_type e = ACPI_RECLAIMABLE) entries"
  "mt_nvs (mem_totals_of entries) = size_of (\<lambda>e. e_type e = ACPI_NVS) entries"
  "mt_boot (mem_totals_of entries) = size_of (\<lambda>e. e_type e = BOOTLOADER_RECLAIMABLE) entries"
  "mt_kernel (mem_totals_of entries) = size_of (\<lambda>e. e_type e = EXECUTABLE_AND_MODULES) entries"
  "mt_fb (mem_totals_of entries) = size_of (\<lambda>e. e_type e = FRAMEBUFFER) entries"
  "mt_bad (mem_totals_of entries) = size_of (\<lambda>e. e_type e = BAD_MEMORY) entries"
  "mt_other (mem_totals_of entries) = size_of (\<lambda>e. \<exists>n. e_type e = OTHER_TYPE n) entries"
  by (induction entries rule: rev_induct) (simp_all add: totals_simps)


end
