(* ===== verification/Ext2_Alloc.thy ===== *)
theory Ext2_Alloc
  imports Ext2_Ops
begin

text \<open>
  Block allocation, raw inode access and the device behind them. \<open>disk_block\<close> is the contents
  of a block on the device, \<open>block_used\<close> the bit of a block in the bitmap of its group. A
  successful allocation takes a block that was free and marks exactly that block; freeing is
  its inverse; a block that is not in use cannot be freed; what is written to an inode is read
  back and other inodes keep their contents.
\<close>

section \<open>Blocks on the device\<close>

definition disk_block :: "('d \<Rightarrow> bytes) \<Rightarrow> 'd ext2 \<Rightarrow> nat \<Rightarrow> bytes" where
  "disk_block contents s blk = subslice (blk * x_bs s) (x_bs s) (contents (x_dev s))"

text \<open>The device has all the blocks that the superblock announces.\<close>

definition fits :: "('d \<Rightarrow> bytes) \<Rightarrow> 'd ext2 \<Rightarrow> bool" where
  "fits contents s \<longleftrightarrow> x_blocks_count s * x_bs s \<le> length (contents (x_dev s))"

lemma fits_block: "fits contents s \<Longrightarrow> blk < x_blocks_count s \<Longrightarrow> blk * x_bs s + x_bs s \<le> length (contents (x_dev s))"
  unfolding fits_def
  by (metis Suc_leI add.commute le_trans mult_Suc mult_le_mono1)

lemma length_disk_block: "fits contents s \<Longrightarrow> blk < x_blocks_count s \<Longrightarrow> length (disk_block contents s blk) = x_bs s"
  using fits_block [of contents s blk] by (simp add: disk_block_def)

lemma blocks_apart: "a \<noteq> b \<Longrightarrow> a * n + n \<le> b * n \<or> b * n + n \<le> (a * n :: nat)"
  by (metis Suc_leI add.commute linorder_neqE_nat mult_Suc mult_le_mono1)

lemma mounted_sectors: "mounted s \<Longrightarrow> blk * x_spb s * SECTOR_SIZE = blk * x_bs s"
  unfolding mounted_def by (metis mult.assoc)

context block_device
begin

lemma devR_read_Ok:
  "devR (op_read_sectors D lba len) s = (Ok b, t) \<Longrightarrow>
     b = subslice (lba * SECTOR_SIZE) len (contents (x_dev s)) \<and> keeps_all contents s False t"
  by (auto simp: devR_def keeps_all_def split: prod.splits res.splits dest: read_ok read_keeps)

lemma devR_write_Ok:
  "devR (op_write_sectors D lba b) s = (Ok (), t) \<Longrightarrow>
     lba * SECTOR_SIZE + length b \<le> length (contents (x_dev s))
     \<and> (\<exists>d. contents d = blit (lba * SECTOR_SIZE) b (contents (x_dev s)) \<and> t = s\<lparr>x_dev := d\<rparr>)"
  by (auto simp: devR_def split: prod.splits res.splits dest: write_ok)

lemma read_block_Ok:
  assumes "read_block D blk s = (Ok b, t)" and "mounted s"
  shows "blk < x_blocks_count s" and "b = disk_block contents s blk" and "keeps_all contents s False t"
  using assms devR_read_Ok [of "blk * x_spb s" "x_bs s" s b t] mounted_sectors [of s blk]
  by (auto simp: read_block_def disk_block_def split: if_splits)

lemma write_block_Ok:
  assumes "write_block D blk buf s = (Ok (), t)" and "mounted s" and "length buf = x_bs s"
  shows "blk < x_blocks_count s" and "blk * x_bs s + x_bs s \<le> length (contents (x_dev s))"
    and "\<exists>d. contents d = blit (blk * x_bs s) buf (contents (x_dev s)) \<and> t = s\<lparr>x_dev := d\<rparr>"
  using assms devR_write_Ok [of "blk * x_spb s" buf s t] mounted_sectors [of s blk]
  by (auto simp: write_block_def split: if_splits)

end

lemma keeps_all_same:
  assumes "keeps_all contents s False t"
  shows "disk_block contents t blk = disk_block contents s blk" "x_gdt t = x_gdt s" "x_bs t = x_bs s"
    "x_free_blocks t = x_free_blocks s" "x_ngroups t = x_ngroups s" "x_bpg t = x_bpg s"
    "x_first_data_block t = x_first_data_block s" "x_blocks_count t = x_blocks_count s"
    "x_free_inodes t = x_free_inodes s" "x_ipg t = x_ipg s" "x_inodes_count t = x_inodes_count s"
    "x_inode_size t = x_inode_size s" "x_first_ino t = x_first_ino s" "contents (x_dev t) = contents (x_dev s)"
    "mounted t = mounted s" "fits contents t = fits contents s" "t\<lparr>x_dev := d\<rparr> = s\<lparr>x_dev := d\<rparr>"
  using assms
  by (cases s; cases t; simp add: keeps_all_def disk_block_def mounted_def fits_def)+

text \<open>Writing a block changes that block only.\<close>

lemma disk_block_write:
  assumes "fits contents s" and "blk < x_blocks_count s" and "length buf = x_bs s"
    and "contents (x_dev t) = blit (blk * x_bs s) buf (contents (x_dev s))" and "x_bs t = x_bs s"
  shows "disk_block contents t blk = buf"
    and "b < x_blocks_count s \<Longrightarrow> b \<noteq> blk \<Longrightarrow> disk_block contents t b = disk_block contents s b"
  using assms fits_block [OF assms(1,2)] fits_block [OF assms(1), of b] blocks_apart [of b blk "x_bs s"]
    slice_blit_same [of "blk * x_bs s" buf "contents (x_dev s)"]
  by (simp_all add: disk_block_def slice_blit_other)

lemma mounted_updates [simp]:
  "mounted (s\<lparr>x_dev := d\<rparr>) = mounted s" "mounted (s\<lparr>x_free_blocks := n\<rparr>) = mounted s"
  "mounted (s\<lparr>x_dirty := b\<rparr>) = mounted s"
  by (simp_all add: mounted_def)

section \<open>The block bitmaps\<close>

definition bitmap_of :: "'d ext2 \<Rightarrow> nat \<Rightarrow> nat" where
  "bitmap_of s g = rd32 (x_gdt s) (g * 32)"

definition block_used :: "('d \<Rightarrow> bytes) \<Rightarrow> 'd ext2 \<Rightarrow> nat \<Rightarrow> bool" where
  "block_used contents s blk = bit_test
     (disk_block contents s (bitmap_of s ((blk - x_first_data_block s) div x_bpg s)))
     ((blk - x_first_data_block s) mod x_bpg s)"

text \<open>Every group has a bitmap block of its own, inside the file system.\<close>

definition bitmaps_ok :: "'d ext2 \<Rightarrow> bool" where
  "bitmaps_ok s \<longleftrightarrow> inj_on (bitmap_of s) {..<x_ngroups s} \<and> (\<forall>g<x_ngroups s. bitmap_of s g < x_blocks_count s)"

lemma group_of_block:
  assumes "mounted s" and "x_first_data_block s \<le> blk" and "blk < x_blocks_count s"
  shows "(blk - x_first_data_block s) div x_bpg s < x_ngroups s"
proof -
  have "blk - x_first_data_block s < x_ngroups s * x_bpg s"
    using assms by (auto simp: mounted_def)
  then show ?thesis by (rule less_mult_imp_div_less)
qed

text \<open>The effect of changing bit \<open>b\<close> of group \<open>g\<close>: the bitmap block becomes \<open>f\<close> of what it was,
  and the free counts of the group and of the file system become \<open>n\<close> and \<open>m\<close>.\<close>

definition bitmap_step ::
  "('d \<Rightarrow> bytes) \<Rightarrow> (bytes \<Rightarrow> bytes) \<Rightarrow> nat \<Rightarrow> nat \<Rightarrow> nat \<Rightarrow> 'd ext2 \<Rightarrow> 'd ext2 \<Rightarrow> bool" where
  "bitmap_step contents f g n m s s' \<longleftrightarrow>
     (\<exists>d. contents d = blit (bitmap_of s g * x_bs s) (f (disk_block contents s (bitmap_of s g)))
         (contents (x_dev s))
       \<and> s' = s\<lparr>x_dev := d, x_gdt := wr16 (x_gdt s) (g * 32 + 12) n, x_free_blocks := m, x_dirty := True\<rparr>)"

lemma bitmap_step_gdt:
  assumes "mounted s" and "g < x_ngroups s" and "h < x_ngroups s"
  shows "rd32 (wr16 (x_gdt s) (g * 32 + 12) n) (h * 32) = rd32 (x_gdt s) (h * 32)"
proof (rule rd32_wr16_other)
  have "x_ngroups s * 32 \<le> length (x_gdt s)" using assms(1) by (simp add: mounted_def)
  with assms(2,3) show "g * 32 + 12 + 2 \<le> length (x_gdt s)" "h * 32 + 4 \<le> length (x_gdt s)" by linarith+
  show "h * 32 + 4 \<le> g * 32 + 12 \<or> g * 32 + 12 + 2 \<le> h * 32"
    by (cases "h \<le> g") auto
qed

lemma bitmap_step_used:
  assumes st: "mounted s" "fits contents s" "bitmaps_ok s"
    and step: "bitmap_step contents f g n m s s'" and g: "g < x_ngroups s"
    and len: "\<And>bm. length (f bm) = length bm"
    and blk: "x_first_data_block s \<le> blk" "blk < x_blocks_count s"
  shows "block_used contents s' blk =
    (if (blk - x_first_data_block s) div x_bpg s = g
     then bit_test (f (disk_block contents s (bitmap_of s g))) ((blk - x_first_data_block s) mod x_bpg s)
     else block_used contents s blk)"
proof -
  let ?h = "(blk - x_first_data_block s) div x_bpg s"
  have h: "?h < x_ngroups s"
    using group_of_block [OF st(1) blk] .
  have bm: "bitmap_of s g < x_blocks_count s" "bitmap_of s ?h < x_blocks_count s"
    using st(3) g h by (auto simp: bitmaps_ok_def)
  obtain d where d: "contents d = blit (bitmap_of s g * x_bs s) (f (disk_block contents s (bitmap_of s g)))
        (contents (x_dev s))"
    and s': "s' = s\<lparr>x_dev := d, x_gdt := wr16 (x_gdt s) (g * 32 + 12) n, x_free_blocks := m, x_dirty := True\<rparr>"
    using step by (auto simp: bitmap_step_def)
  have bo: "bitmap_of s' ?h = bitmap_of s ?h"
    using bitmap_step_gdt [OF st(1) g h] by (simp add: bitmap_of_def s')
  have lf: "length (f (disk_block contents s (bitmap_of s g))) = x_bs s"
    using length_disk_block [OF st(2) bm(1)] by (simp add: len)
  have w: "contents (x_dev s') = blit (bitmap_of s g * x_bs s) (f (disk_block contents s (bitmap_of s g)))
      (contents (x_dev s))" "x_bs s' = x_bs s"
    using d by (simp_all add: s')
  note db = disk_block_write [OF st(2) bm(1) lf w]
  have "bitmap_of s ?h \<noteq> bitmap_of s g" if "?h \<noteq> g"
    using st(3) g h that by (auto simp: bitmaps_ok_def inj_on_def)
  then show ?thesis
    using db(1) db(2) [OF bm(2)] bo by (auto simp: block_used_def s')
qed

section \<open>Allocating and freeing a block\<close>

lemma gd_calls:
  assumes "mounted s" and "g < x_ngroups s"
  shows "gd_free_blocks g s = (Ok (rd16 (x_gdt s) (g * 32 + 12)), s)"
    and "gd_block_bitmap g s = (Ok (bitmap_of s g), s)"
    and "gd_set_free_blocks g n s = (Ok (), s\<lparr>x_gdt := wr16 (x_gdt s) (g * 32 + 12) n\<rparr>)"
proof -
  have "x_ngroups s * 32 \<le> length (x_gdt s)" using assms(1) by (simp add: mounted_def)
  with assms(2) have "g * 32 + 14 \<le> length (x_gdt s)" by linarith
  then show "gd_free_blocks g s = (Ok (rd16 (x_gdt s) (g * 32 + 12)), s)"
    "gd_block_bitmap g s = (Ok (bitmap_of s g), s)"
    "gd_set_free_blocks g n s = (Ok (), s\<lparr>x_gdt := wr16 (x_gdt s) (g * 32 + 12) n\<rparr>)"
    by (simp_all add: gd_free_blocks_def gd_get16_def gd_block_bitmap_def gd_get32_def gd_set_free_blocks_def
        gd_put16_def gd_off_def rd16_at_def rd32_at_def wr16_at_def bitmap_of_def)
qed

definition commit_alloc :: "nat \<Rightarrow> ('d, unit) fs" where
  "commit_alloc g =
     bindR (gd_free_blocks g) (\<lambda>f.
     bindR (sub32 f 1) (\<lambda>f'.
     bindR (gd_set_free_blocks g f') (\<lambda>_.
     bindR (getsR x_free_blocks) (\<lambda>n.
     bindR (sub32 n 1) (\<lambda>n'.
     modifyR (\<lambda>s. s\<lparr>x_free_blocks := n', x_dirty := True\<rparr>))))))"

definition commit_free :: "nat \<Rightarrow> ('d, unit) fs" where
  "commit_free g =
     bindR (gd_free_blocks g) (\<lambda>f.
     bindR (add16 f 1) (\<lambda>f'.
     bindR (gd_set_free_blocks g f') (\<lambda>_.
     bindR (getsR x_free_blocks) (\<lambda>n.
     bindR (add32 n 1) (\<lambda>n'.
     modifyR (\<lambda>s. s\<lparr>x_free_blocks := n', x_dirty := True\<rparr>))))))"

definition took_block :: "('d \<Rightarrow> bytes) \<Rightarrow> 'd ext2 \<Rightarrow> nat \<Rightarrow> 'd ext2 \<Rightarrow> bool" where
  "took_block contents s blk s' \<longleftrightarrow>
     (\<exists>g b. g < x_ngroups s \<and> b < x_bpg s \<and> blk = x_first_data_block s + g * x_bpg s + b
        \<and> blk < x_blocks_count s \<and> \<not> bit_test (disk_block contents s (bitmap_of s g)) b
        \<and> 0 < rd16 (x_gdt s) (g * 32 + 12) \<and> 0 < x_free_blocks s \<and> bitmap_of s g < x_blocks_count s
        \<and> bitmap_step contents (\<lambda>bm. bit_set bm b) g (rd16 (x_gdt s) (g * 32 + 12) - 1) (x_free_blocks s - 1) s s')"

definition freed_block :: "('d \<Rightarrow> bytes) \<Rightarrow> 'd ext2 \<Rightarrow> nat \<Rightarrow> 'd ext2 \<Rightarrow> bool" where
  "freed_block contents s blk s' \<longleftrightarrow>
     (let g = (blk - x_first_data_block s) div x_bpg s; b = (blk - x_first_data_block s) mod x_bpg s in
      x_first_data_block s \<le> blk \<and> blk < x_blocks_count s \<and> bit_test (disk_block contents s (bitmap_of s g)) b
      \<and> bitmap_of s g < x_blocks_count s
      \<and> bitmap_step contents (\<lambda>bm. bit_clear bm b) g (rd16 (x_gdt s) (g * 32 + 12) + 1) (x_free_blocks s + 1) s s')"

lemma alloc_block_loop_eq:
  assumes "goal + k < u32_limit" and "gd_free_blocks ((goal + k) mod x_ngroups s) s = (Ok f, s)" and "f \<noteq> 0"
    and "gd_block_bitmap ((goal + k) mod x_ngroups s) s = (Ok bb, s)"
    and "read_block D bb s = (Ok bm, t)" and "(bit_find_zero bm (x_bpg t) :: (fs_error, nat option) res) = Ok (Some b)"
  shows "alloc_block_loop D goal (k # ks) s =
    (let blk = x_first_data_block t + (goal + k) mod x_ngroups s * x_bpg t + b in
     if blk \<ge> u32_limit then (Panic, t)
     else if blk \<ge> x_blocks_count t then (Err Corrupt, t)
     else bindR (write_block D bb (bit_set bm b)) (\<lambda>_.
          bindR (commit_alloc ((goal + k) mod x_ngroups s)) (\<lambda>_. returnR blk)) t)"
  using assms by (simp add: add32_def Let_def commit_alloc_def bindR_assoc bindR_Ok_apply)

lemma keeps_all_step:
  "keeps_all contents s False t \<Longrightarrow> bitmap_step contents f g n m t s' \<Longrightarrow> bitmap_step contents f g n m s s'"
  by (cases s; cases t) (simp add: keeps_all_def bitmap_step_def bitmap_of_def disk_block_def)

lemma keeps_all_took: "keeps_all contents s False t \<Longrightarrow> took_block contents t blk s' \<Longrightarrow> took_block contents s blk s'"
  unfolding took_block_def
  by (auto simp: keeps_all_same bitmap_of_def dest: keeps_all_step)

context block_device
begin

text \<open>The tail of both operations: write the changed bitmap, then the counters.\<close>

lemma bitmap_written:
  assumes "write_block D (bitmap_of s g) (f (disk_block contents s (bitmap_of s g))) t = (Ok (), u)"
    and "mounted s" and "fits contents s" and "keeps_all contents s False t"
    and "bitmap_of s g < x_blocks_count s" and "\<And>bm. length (f bm) = length bm"
  shows "bitmap_step contents f g n m s
    (u\<lparr>x_gdt := wr16 (x_gdt s) (g * 32 + 12) n, x_free_blocks := m, x_dirty := True\<rparr>)"
proof -
  have "length (f (disk_block contents s (bitmap_of s g))) = x_bs t"
    using assms(3-6) by (simp add: length_disk_block keeps_all_same)
  from write_block_Ok(3) [OF assms(1) _ this] assms(2,4)
  obtain d where "contents d = blit (bitmap_of s g * x_bs s) (f (disk_block contents s (bitmap_of s g)))
      (contents (x_dev s))" "u = t\<lparr>x_dev := d\<rparr>"
    by (auto simp: keeps_all_same)
  then show ?thesis
    using assms(4) unfolding bitmap_step_def by (auto simp: keeps_all_same)
qed

lemma find_zero_Some:
  assumes "(bit_find_zero bm n :: (fs_error, nat option) res) = Ok (Some b)" and "n \<le> x_bs s * 8" and "length bm = x_bs s"
  shows "b < n \<and> \<not> bit_test bm b"
proof -
  have "(n + 7) div 8 \<le> length bm" using assms(2,3) by linarith
  from scan_bytes_spec [OF this, where byte = 0 and ?'e = fs_error] assms(1) show ?thesis
    by (auto simp: bit_find_zero_def first_zero_def)
qed

lemma alloc_block_loop_found:
  assumes "gd_free_blocks ((goal + k) mod x_ngroups s) s = (Ok f, s)" and "f \<noteq> 0"
    and "gd_block_bitmap ((goal + k) mod x_ngroups s) s = (Ok bb, s)"
    and "read_block D bb s = (Ok bm, t)" and "(bit_find_zero bm (x_bpg t) :: (fs_error, nat option) res) = Ok (Some b)"
    and "alloc_block_loop D goal (k # ks) s = (Ok blk, s')"
  shows "blk = x_first_data_block t + (goal + k) mod x_ngroups s * x_bpg t + b \<and> blk < x_blocks_count t
    \<and> (\<exists>u. write_block D bb (bit_set bm b) t = (Ok (), u)
         \<and> commit_alloc ((goal + k) mod x_ngroups s) u = (Ok (), s'))"
proof -
  have "goal + k < u32_limit"
    using assms(6) by (auto simp: add32_def bindR_eq_Ok split: if_splits)
  note eq = alloc_block_loop_eq [OF this assms(1-5)]
  show ?thesis
    using assms(6) unfolding eq by (auto simp: Let_def bindR_eq_Ok split: if_splits)
qed

lemma alloc_block_loop_Ok:
  assumes "alloc_block_loop D goal ks s = (Ok blk, s')" and "mounted s" and "fits contents s"
  shows "took_block contents s blk s'"
  using assms
proof (induction ks arbitrary: s)
  case (Cons k ks)
  let ?g = "(goal + k) mod x_ngroups s"
  have g: "?g < x_ngroups s"
    using Cons.prems(2) by (simp add: mounted_def)
  note gd = gd_calls [OF Cons.prems(2) g]
  show ?case
  proof (cases "rd16 (x_gdt s) (?g * 32 + 12) = 0")
    case True
    then show ?thesis
      using Cons by (auto simp: add32_def bindR_eq_Ok gd Let_def split: if_splits)
  next
    case False
    then obtain bm t where t: "read_block D (bitmap_of s ?g) s = (Ok bm, t)"
      using Cons.prems(1) by (auto simp: add32_def bindR_eq_Ok gd Let_def split: if_splits)
    note rb = read_block_Ok [OF t Cons.prems(2)]
    show ?thesis
    proof (cases "bit_find_zero bm (x_bpg t) :: (fs_error, nat option) res")
      case (Ok r)
      show ?thesis
      proof (cases r)
        case None
        with False t Ok Cons.prems(1) have "alloc_block_loop D goal ks t = (Ok blk, s')"
          by (auto simp: add32_def bindR_eq_Ok gd Let_def split: if_splits)
        with Cons.IH Cons.prems(2,3) rb(3) show ?thesis
          by (auto simp: keeps_all_same intro: keeps_all_took)
      next
        case (Some b)
        have b: "b < x_bpg s" "\<not> bit_test bm b"
          using find_zero_Some [of bm "x_bpg s" b] Ok Some rb Cons.prems(2,3)
          by (auto simp: keeps_all_same length_disk_block mounted_def)
        obtain u where u: "write_block D (bitmap_of s ?g) (bit_set bm b) t = (Ok (), u)"
          and blk: "blk = x_first_data_block s + ?g * x_bpg s + b" "blk < x_blocks_count s"
          and rest: "commit_alloc ?g u = (Ok (), s')"
          using alloc_block_loop_found [OF gd(1) False gd(2) t Ok [unfolded Some] Cons.prems(1)] rb(3)
          by (auto simp: keeps_all_same)
        have st: "mounted t" "length (bit_set bm b) = x_bs t"
          using rb Cons.prems(2,3) by (auto simp: keeps_all_same length_disk_block)
        from write_block_Ok(3) [OF u st] obtain d where d: "u = t\<lparr>x_dev := d\<rparr>" by blast
        have "mounted u" "?g < x_ngroups u"
          using st(1) g rb(3) by (simp_all add: d keeps_all_same)
        with rest rb(3) have s': "s' = u\<lparr>x_gdt := wr16 (x_gdt s) (?g * 32 + 12) (rd16 (x_gdt s) (?g * 32 + 12) - 1),
            x_free_blocks := x_free_blocks s - 1, x_dirty := True\<rparr>" "0 < x_free_blocks s"
          by (auto simp: commit_alloc_def bindR_eq_Ok gd_calls sub32_def d keeps_all_same split: if_splits)
        show ?thesis
          unfolding took_block_def
          using g b blk rb(1,2) False s' bitmap_written [where f = "\<lambda>bm. bit_set bm b", OF u [unfolded rb(2)] Cons.prems(2,3) rb(3,1)]
          by (intro exI [of _ ?g] exI [of _ b]) auto
      qed
    qed (use False t Cons.prems(1) in \<open>auto simp: add32_def bindR_eq_Ok gd Let_def split: if_splits\<close>)
  qed
qed simp


lemma alloc_block_Ok:
  assumes "alloc_block D goal s = (Ok blk, s')" and "mounted s" and "fits contents s"
  shows "took_block contents s blk s'"
  using assms alloc_block_loop_Ok by (simp add: alloc_block_def)

lemma free_block_run:
  assumes "mounted s" and "fits contents s" and "x_first_data_block s \<le> blk" and "blk < x_blocks_count s"
  defines "g \<equiv> (blk - x_first_data_block s) div x_bpg s" and "b \<equiv> (blk - x_first_data_block s) mod x_bpg s"
  shows "free_block D blk s = (case read_block D (bitmap_of s g) s of
      (Ok bm, t) \<Rightarrow>
        if \<not> bit_test bm b then (Err Corrupt, t)
        else bindR (write_block D (bitmap_of s g) (bit_clear bm b)) (\<lambda>_. commit_free g) t
    | (Err e, t) \<Rightarrow> (Err e, t) | (Panic, t) \<Rightarrow> (Panic, t) | (Hang, t) \<Rightarrow> (Hang, t))"
proof -
  have g: "g < x_ngroups s"
    unfolding g_def using assms(1,3,4) by (rule group_of_block)
  have len: "b div 8 < length bm" if "read_block D (bitmap_of s g) s = (Ok bm, t)" for bm t
  proof -
    have "length bm = x_bs s"
      using read_block_Ok [OF that assms(1)] assms(2) by (simp add: length_disk_block)
    moreover have "0 < x_bpg s" "x_bpg s \<le> x_bs s * 8"
      using assms(1) by (auto simp: mounted_def)
    then have "b < x_bs s * 8"
      unfolding b_def by (meson mod_less_divisor less_le_trans)
    ultimately show ?thesis by linarith
  qed
  show ?thesis
    using assms(3,4) len
    by (auto simp: free_block_def Let_def bindR_Ok_apply [where m = "gd_block_bitmap g", OF gd_calls(2) [OF assms(1) g]] commit_free_def
        bindR_def [of "read_block D (bitmap_of s g)"] not_le g_def [symmetric] b_def [symmetric]
        split: prod.splits res.splits)
qed


lemma free_block_Ok:
  assumes "free_block D blk s = (Ok (), s')" and "mounted s" and "fits contents s"
  shows "freed_block contents s blk s'"
proof -
  let ?g = "(blk - x_first_data_block s) div x_bpg s" and ?b = "(blk - x_first_data_block s) mod x_bpg s"
  have rng: "x_first_data_block s \<le> blk" "blk < x_blocks_count s"
    using assms(1) by (auto simp: free_block_def split: if_splits)
  have g: "?g < x_ngroups s"
    using assms(2) rng by (rule group_of_block)
  obtain bm t where t: "read_block D (bitmap_of s ?g) s = (Ok bm, t)" and bt: "bit_test bm ?b"
    and c: "bindR (write_block D (bitmap_of s ?g) (bit_clear bm ?b)) (\<lambda>_. commit_free ?g) t = (Ok (), s')"
    using assms(1) free_block_run [OF assms(2,3) rng] by (auto split: prod.splits res.splits if_splits)
  note rb = read_block_Ok [OF t assms(2)]
  obtain u where u: "write_block D (bitmap_of s ?g) (bit_clear bm ?b) t = (Ok (), u)" "commit_free ?g u = (Ok (), s')"
    using c by (auto simp: bindR_eq_Ok)
  have st: "mounted t" "length (bit_clear bm ?b) = x_bs t"
    using rb assms(2,3) by (auto simp: keeps_all_same length_disk_block)
  from write_block_Ok(3) [OF u(1) st] obtain d where d: "u = t\<lparr>x_dev := d\<rparr>" by blast
  have "mounted u" "?g < x_ngroups u"
    using st(1) g rb(3) by (simp_all add: d keeps_all_same)
  with u(2) rb(3) have s': "s' = u\<lparr>x_gdt := wr16 (x_gdt s) (?g * 32 + 12) (rd16 (x_gdt s) (?g * 32 + 12) + 1),
      x_free_blocks := x_free_blocks s + 1, x_dirty := True\<rparr>"
    by (auto simp: commit_free_def bindR_eq_Ok gd_calls add16_def add32_def d keeps_all_same split: if_splits)
  show ?thesis
    unfolding freed_block_def
    using rng bt rb(1,2) s' bitmap_written [where f = "\<lambda>bm. bit_clear bm ?b", OF u(1) [unfolded rb(2)] assms(2,3) rb(3,1)]
    by simp
qed

lemma read_block_outcome:
  "fst (read_block D blk s) \<noteq> Panic \<and> fst (read_block D blk s) \<noteq> Hang
   \<and> (\<forall>e. fst (read_block D blk s) = Err e \<longrightarrow> e = Corrupt \<or> (\<exists>x. e = Io x))"
  using read_returns [of "blk * x_spb s" "x_bs s" "x_dev s"]
  by (auto simp: read_block_def devR_def split: prod.splits res.splits if_splits)

lemma free_unused_fails:
  assumes "mounted s" and "fits contents s" and "x_first_data_block s \<le> blk" and "blk < x_blocks_count s"
    and "\<not> block_used contents s blk"
  shows "\<exists>e t. free_block D blk s = (Err e, t) \<and> keeps_all contents s False t \<and> (e = Corrupt \<or> (\<exists>x. e = Io x))"
proof -
  let ?g = "(blk - x_first_data_block s) div x_bpg s"
  obtain r t where t: "read_block D (bitmap_of s ?g) s = (r, t)" by (cases "read_block D (bitmap_of s ?g) s")
  have k: "keeps_all contents s False t"
    using keep.w_read_block [of s "bitmap_of s ?g"] by (simp add: t within_def keeps_all_def)
  show ?thesis
  proof (cases r)
    case (Ok bm)
    with read_block_Ok(2) [of "bitmap_of s ?g" s bm t] t assms(1,5)
    have "\<not> bit_test bm ((blk - x_first_data_block s) mod x_bpg s)" by (simp add: block_used_def)
    with Ok t k show ?thesis
      by (simp add: free_block_run [OF assms(1-4)])
  qed (use t k read_block_outcome [of "bitmap_of s ?g" s] in \<open>auto simp: free_block_run [OF assms(1-4)]\<close>)
qed

end

section \<open>Histories of the block allocator\<close>

text \<open>A state in which the allocator works: mounted, on a large enough device, with proper
  bitmaps.\<close>

definition alloc_ready :: "('d \<Rightarrow> bytes) \<Rightarrow> 'd ext2 \<Rightarrow> bool" where
  "alloc_ready contents s \<longleftrightarrow> mounted s \<and> fits contents s \<and> bitmaps_ok s"

definition data_range :: "'d ext2 \<Rightarrow> nat set" where
  "data_range s = {x_first_data_block s..<x_blocks_count s}"

lemma bitmap_step_ready:
  assumes "alloc_ready contents s" and "bitmap_step contents f g n m s s'" and "g < x_ngroups s"
    and "\<And>bm. length (f bm) = length bm"
  shows "alloc_ready contents s'" and "data_range s' = data_range s" and "x_free_blocks s' = m"
proof -
  have st: "mounted s" "fits contents s" "bitmaps_ok s" using assms(1) by (auto simp: alloc_ready_def)
  obtain d where d: "contents d = blit (bitmap_of s g * x_bs s) (f (disk_block contents s (bitmap_of s g)))
        (contents (x_dev s))"
    and s': "s' = s\<lparr>x_dev := d, x_gdt := wr16 (x_gdt s) (g * 32 + 12) n, x_free_blocks := m, x_dirty := True\<rparr>"
    using assms(2) by (auto simp: bitmap_step_def)
  have g: "bitmap_of s g < x_blocks_count s" using st(3) assms(3) by (auto simp: bitmaps_ok_def)
  have "x_ngroups s * 32 \<le> length (x_gdt s)" using st(1) by (simp add: mounted_def)
  then have "g * 32 + 12 + 2 \<le> length (x_gdt s)" using assms(3) by linarith
  then have "mounted s'" using st(1) by (simp add: s' mounted_def)
  moreover have "length (contents d) = length (contents (x_dev s))"
    unfolding d using fits_block [OF st(2) g] length_disk_block [OF st(2) g] by (intro length_blit) (simp add: assms(4))
  then have "fits contents s'" using st(2) by (simp add: s' fits_def)
  moreover have "bitmap_of s' h = bitmap_of s h" if "h < x_ngroups s" for h
    using bitmap_step_gdt [OF st(1) assms(3) that] by (simp add: s' bitmap_of_def)
  then have "bitmaps_ok s'"
    using st(3) by (auto simp: bitmaps_ok_def s' inj_on_def)
  ultimately show "alloc_ready contents s'" by (simp add: alloc_ready_def)
  show "data_range s' = data_range s" "x_free_blocks s' = m" by (simp_all add: s' data_range_def)
qed

lemma block_split:
  assumes "mounted s" and "b < x_bpg s"
  shows "(x_first_data_block s + g * x_bpg s + b - x_first_data_block s) div x_bpg s = g"
    and "(x_first_data_block s + g * x_bpg s + b - x_first_data_block s) mod x_bpg s = b"
  using assms by (simp_all add: mounted_def)

lemma block_join:
  assumes "x_first_data_block s \<le> blk"
  shows "blk = x_first_data_block s + (blk - x_first_data_block s) div x_bpg s * x_bpg s
    + (blk - x_first_data_block s) mod x_bpg s"
  using assms div_mult_mod_eq [of "blk - x_first_data_block s" "x_bpg s"] by linarith

lemma bitmap_bit_in:
  assumes "alloc_ready contents s" and "g < x_ngroups s" and "b < x_bpg s"
  shows "b div 8 < length (disk_block contents s (bitmap_of s g))"
proof -
  have "bitmap_of s g < x_blocks_count s" "fits contents s" "x_bpg s \<le> x_bs s * 8"
    using assms(1,2) by (auto simp: alloc_ready_def bitmaps_ok_def mounted_def)
  then show ?thesis using assms(3) by (simp add: length_disk_block)
qed

lemma took_block_used:
  assumes rdy: "alloc_ready contents s" and took: "took_block contents s blk s'"
  shows "blk \<in> data_range s \<and> \<not> block_used contents s blk \<and> alloc_ready contents s'
    \<and> data_range s' = data_range s \<and> x_free_blocks s = Suc (x_free_blocks s')
    \<and> (\<forall>c\<in>data_range s. block_used contents s' c = (c = blk \<or> block_used contents s c))"
proof -
  have st: "mounted s" "fits contents s" "bitmaps_ok s" using rdy by (auto simp: alloc_ready_def)
  obtain g b where gb: "g < x_ngroups s" "b < x_bpg s" "blk = x_first_data_block s + g * x_bpg s + b"
    "blk < x_blocks_count s" "\<not> bit_test (disk_block contents s (bitmap_of s g)) b" "0 < x_free_blocks s"
    and step: "bitmap_step contents (\<lambda>bm. bit_set bm b) g (rd16 (x_gdt s) (g * 32 + 12) - 1) (x_free_blocks s - 1) s s'"
    using took by (auto simp: took_block_def)
  note r = bitmap_step_ready [OF rdy step gb(1) length_bit_set]
  have used: "block_used contents s' c = (c = blk \<or> block_used contents s c)"
    if "c \<in> data_range s" for c
  proof -
    let ?h = "(c - x_first_data_block s) div x_bpg s" and ?i = "(c - x_first_data_block s) mod x_bpg s"
    have c: "x_first_data_block s \<le> c" "c < x_blocks_count s" using that by (auto simp: data_range_def)
    have "c = blk \<longleftrightarrow> ?h = g \<and> ?i = b"
      using block_split [OF st(1) gb(2), of g] block_join [OF c(1)] by (auto simp: gb(3))
    then show ?thesis
      using bitmap_step_used [OF st step gb(1) length_bit_set c] bit_test_set [OF bitmap_bit_in [OF rdy gb(1,2)]]
      by (auto simp: block_used_def [of _ s])
  qed
  moreover have "\<not> block_used contents s blk"
    using gb(5) block_split [OF st(1) gb(2), of g] by (simp add: block_used_def gb(3))
  ultimately show ?thesis
    using r gb by (simp add: data_range_def)
qed

lemma freed_block_used:
  assumes rdy: "alloc_ready contents s" and freed: "freed_block contents s blk s'"
  shows "blk \<in> data_range s \<and> block_used contents s blk \<and> alloc_ready contents s'
    \<and> data_range s' = data_range s \<and> x_free_blocks s' = Suc (x_free_blocks s)
    \<and> (\<forall>c\<in>data_range s. block_used contents s' c = (c \<noteq> blk \<and> block_used contents s c))"
proof -
  let ?g = "(blk - x_first_data_block s) div x_bpg s" and ?b = "(blk - x_first_data_block s) mod x_bpg s"
  have st: "mounted s" "fits contents s" "bitmaps_ok s" using rdy by (auto simp: alloc_ready_def)
  have blk: "x_first_data_block s \<le> blk" "blk < x_blocks_count s"
    and bt: "bit_test (disk_block contents s (bitmap_of s ?g)) ?b"
    and step: "bitmap_step contents (\<lambda>bm. bit_clear bm ?b) ?g (rd16 (x_gdt s) (?g * 32 + 12) + 1) (x_free_blocks s + 1) s s'"
    using freed by (auto simp: freed_block_def Let_def)
  have g: "?g < x_ngroups s" by (rule group_of_block [OF st(1) blk])
  have b: "?b < x_bpg s" using st(1) by (simp add: mounted_def)
  note r = bitmap_step_ready [OF rdy step g length_bit_clear]
  have used: "block_used contents s' c = (c \<noteq> blk \<and> block_used contents s c)"
    if "c \<in> data_range s" for c
  proof -
    let ?h = "(c - x_first_data_block s) div x_bpg s" and ?i = "(c - x_first_data_block s) mod x_bpg s"
    have c: "x_first_data_block s \<le> c" "c < x_blocks_count s" using that by (auto simp: data_range_def)
    have "c = blk \<longleftrightarrow> ?h = ?g \<and> ?i = ?b"
      using block_join [OF c(1)] block_join [OF blk(1)] by metis
    then show ?thesis
      using bitmap_step_used [OF st step g length_bit_clear c] bit_test_clear [OF bitmap_bit_in [OF rdy g b]]
      by (auto simp: block_used_def [of _ s])
  qed
  then show ?thesis
    using r blk bt by (simp add: data_range_def block_used_def [of _ s])
qed

lemma wr16_restore:
  assumes "off + 2 \<le> length g" and "0 < rd16 g off"
  shows "wr16 (wr16 g off (rd16 g off - 1)) off (rd16 (wr16 g off (rd16 g off - 1)) off + 1) = g"
proof -
  have "rd16 (wr16 g off (rd16 g off - 1)) off = rd16 g off - 1"
    using assms rd16_less [of g off] by simp
  moreover have "wr16 g off (rd16 g off) = g"
    using le_bytes_le_nat [of "subslice off 2 g"] assms(1) by (simp add: wr16_def rd16_def)
  ultimately show ?thesis
    using assms by (simp add: wr16_def blit_blit)
qed

lemma clear_set_bit:
  fixes w p :: u8
  assumes "w AND p = 0"
  shows "(w OR p) AND NOT p = w"
proof (rule bit_word_eqI)
  fix n assume "n < LENGTH(8)"
  moreover have "\<not> (bit w n \<and> bit p n)"
    using arg_cong [OF assms, of "\<lambda>v. bit v n"] by (simp add: bit_simps)
  ultimately show "bit ((w OR p) AND NOT p) n = bit w n"
    by (auto simp: bit_simps)
qed

lemma bit_clear_set: "\<not> bit_test bm b \<Longrightarrow> bit_clear (bit_set bm b) b = bm"
  by (cases "b div 8 < length bm") (simp_all add: bit_test_def bit_set_def bit_clear_def clear_set_bit not_less list_update_beyond)

lemma took_freed:
  assumes rdy: "alloc_ready contents s" and took: "took_block contents s blk s1"
    and freed: "freed_block contents s1 blk s2"
  shows "contents (x_dev s2) = contents (x_dev s) \<and> x_gdt s2 = x_gdt s \<and> x_free_blocks s2 = x_free_blocks s"
proof -
  have st: "mounted s" "fits contents s" using rdy by (auto simp: alloc_ready_def)
  obtain g b where gb: "g < x_ngroups s" "b < x_bpg s" "blk = x_first_data_block s + g * x_bpg s + b"
    "\<not> bit_test (disk_block contents s (bitmap_of s g)) b" "0 < x_free_blocks s" "0 < rd16 (x_gdt s) (g * 32 + 12)"
    "bitmap_of s g < x_blocks_count s"
    and step: "bitmap_step contents (\<lambda>bm. bit_set bm b) g (rd16 (x_gdt s) (g * 32 + 12) - 1) (x_free_blocks s - 1) s s1"
    using took by (auto simp: took_block_def)
  let ?B = "bitmap_of s g" and ?bm = "disk_block contents s (bitmap_of s g)" and ?C = "contents (x_dev s)"
  obtain d where d: "contents d = blit (?B * x_bs s) (bit_set ?bm b) ?C"
    and s1: "s1 = s\<lparr>x_dev := d, x_gdt := wr16 (x_gdt s) (g * 32 + 12) (rd16 (x_gdt s) (g * 32 + 12) - 1),
        x_free_blocks := x_free_blocks s - 1, x_dirty := True\<rparr>"
    using step by (auto simp: bitmap_step_def)
  have len: "length ?bm = x_bs s" "?B * x_bs s + x_bs s \<le> length ?C"
    using length_disk_block [OF st(2) gb(7)] fits_block [OF st(2) gb(7)] by auto
  have B1: "bitmap_of s1 g = ?B"
    using bitmap_step_gdt [OF st(1) gb(1,1)] by (simp add: s1 bitmap_of_def)
  have bm1: "disk_block contents s1 ?B = bit_set ?bm b"
    using len slice_blit_same [of "?B * x_bs s" "bit_set ?bm b" ?C] by (simp add: disk_block_def s1 d)
  obtain d' where d': "contents d' = blit (?B * x_bs s) (bit_clear (bit_set ?bm b) b) (contents d)"
    and s2: "x_dev s2 = d'" "x_free_blocks s2 = x_free_blocks s1 + 1"
      "x_gdt s2 = wr16 (x_gdt s1) (g * 32 + 12) (rd16 (x_gdt s1) (g * 32 + 12) + 1)"
    using freed block_split [OF st(1) gb(2), of g] B1 bm1
    by (auto simp: freed_block_def Let_def bitmap_step_def gb(3) s1)
  have "contents d' = blit (?B * x_bs s) ?bm ?C"
    using d d' len gb(4) by (simp add: bit_clear_set blit_blit)
  also have "\<dots> = ?C"
    using len by (simp add: disk_block_def)
  finally have "contents (x_dev s2) = ?C" by (simp add: s2)
  moreover have "x_ngroups s * 32 \<le> length (x_gdt s)" using st(1) by (simp add: mounted_def)
  then have "g * 32 + 12 + 2 \<le> length (x_gdt s)" using gb(1) by linarith
  then have "x_gdt s2 = x_gdt s"
    using wr16_restore [of "g * 32 + 12" "x_gdt s"] gb(6) by (simp add: s2 s1)
  ultimately show ?thesis
    using gb(5) by (simp add: s2 s1)
qed

text \<open>Histories of successful allocations and frees, with the blocks handed out and not yet
  freed.\<close>

inductive block_history :: "'d dev_ops \<Rightarrow> ('d \<Rightarrow> bytes) \<Rightarrow> 'd ext2 \<Rightarrow> nat set \<Rightarrow> bool"
  for D contents where
  start: "alloc_ready contents s \<Longrightarrow> block_history D contents s {}"
| alloc: "block_history D contents s H \<Longrightarrow> alloc_block D goal s = (Ok b, s')
    \<Longrightarrow> block_history D contents s' (insert b H)"
| free: "block_history D contents s H \<Longrightarrow> b \<in> H \<Longrightarrow> free_block D b s = (Ok (), s')
    \<Longrightarrow> block_history D contents s' (H - {b})"

lemma block_history_inv:
  assumes "block_device D contents" and "block_history D contents s H"
  shows "alloc_ready contents s \<and> H \<subseteq> data_range s \<and> (\<forall>b\<in>H. block_used contents s b)"
  using assms(2)
proof induction
  case (alloc s H goal b s')
  then have "took_block contents s b s'"
    by (auto intro!: block_device.alloc_block_Ok [OF assms(1)] simp: alloc_ready_def)
  with took_block_used [of contents s b s'] alloc.IH show ?case by auto
next
  case (free s H b s')
  then have "freed_block contents s b s'"
    by (auto intro!: block_device.free_block_Ok [OF assms(1)] simp: alloc_ready_def)
  with freed_block_used [of contents s b s'] free.IH show ?case by auto
qed simp

text \<open>C6: In every history of the block allocator a successful allocation returns a data block that is
  in range, not handed out already and not marked in the bitmaps; it marks that block and no
  other and lowers the free count by one.\<close>

theorem ext2_block_allocation:
  assumes "block_device D contents" and "block_history D contents s H" and "alloc_block D goal s = (Ok b, s')"
  shows "b \<in> data_range s \<and> b \<notin> H \<and> \<not> block_used contents s b
    \<and> (\<forall>c\<in>data_range s. block_used contents s' c = (c = b \<or> block_used contents s c))
    \<and> x_free_blocks s = Suc (x_free_blocks s')"
proof -
  note inv = block_history_inv [OF assms(1,2)]
  have "took_block contents s b s'"
    using inv by (intro block_device.alloc_block_Ok [OF assms(1,3)]) (auto simp: alloc_ready_def)
  with took_block_used [of contents s b s'] inv show ?thesis by auto
qed

lemma sample_alloc_fields [simp]:
  "x_ngroups sample_fs = 1" "x_bpg sample_fs = 8192" "x_first_data_block sample_fs = 1" "x_free_blocks sample_fs = 1"
  by (simp_all add: sample_fs_def)

lemma sample_ready: "alloc_ready rd_data sample_fs"
proof -
  have "bitmaps_ok sample_fs"
    by (simp add: bitmaps_ok_def bitmap_of_def sample_gdt_fields inj_on_def)
  then show ?thesis
    using mount_mounted [OF ram.block_device_axioms sample_mount] by (simp add: alloc_ready_def fits_def)
qed

lemma sample_find_zero: "(bit_find_zero sample_bb 8192 :: (fs_error, nat option) res) = Ok (Some 8)"
proof -
  have bb: "sample_bb ! 0 = 0xFF" "sample_bb ! Suc 0 = 0xFE" "Suc 0 < length sample_bb"
    by (simp_all add: sample_bb_def)
  have bits: "scan_bits sample_bb 8192 (Suc 0) (0 # ks) = Some (Some 8)" for ks
    using bb(2) by (simp add: bit_test_def)
  have "[0..<8] = 0 # [Suc 0..<8]" by (rule upt_conv_Cons) simp
  then have "scan_bytes sample_bb 8192 (0 # Suc 0 # xs) = (Ok (Some 8) :: (fs_error, nat option) res)" for xs
    using bb by (simp only: scan_bytes.simps bits) simp
  moreover have "[0..<1024] = 0 # [Suc 0..<1024]" "[Suc 0..<1024] = Suc 0 # [Suc (Suc 0)..<1024]"
    by (rule upt_conv_Cons, simp)+
  moreover have "(8192 + 7) div 8 = (1024 :: nat)" by simp
  ultimately show ?thesis
    by (simp only: bit_find_zero_def)
qed

lemma sample_write:
  assumes "blk < 10" and "length buf = 1024"
  shows "write_block ram_ops blk buf sample_fs
    = (Ok (), sample_fs\<lparr>x_dev := sample_disk\<lparr>rd_data := blit (blk * 1024) buf (rd_data sample_disk)\<rparr>\<rparr>)"
proof -
  have "ram_range sample_disk (blk * 2) 1024 = Ok (blk * 1024, blk * 1024 + 1024)"
    using assms by (simp add: ram_range_Ok)
  then show ?thesis
    using assms by (simp add: write_block_def devR_def ram_ops_def ram_write_sectors_def bindR_def)
qed

lemma sample_alloc: "\<exists>s'. alloc_block ram_ops 0 sample_fs = (Ok 9, s')"
proof -
  have m: "mounted sample_fs" using sample_ready by (simp add: alloc_ready_def)
  have bm: "bitmap_of sample_fs 0 = 3" by (simp add: bitmap_of_def sample_gdt_fields)
  have r: "read_block ram_ops 3 sample_fs = (Ok sample_bb, sample_fs)"
    by (simp add: sample_read_block sample_blocks_def)
  have f: "rd16 (x_gdt sample_fs) 12 = 1" by (simp add: sample_gdt_fields)
  have "alloc_block ram_ops 0 sample_fs = bindR (write_block ram_ops 3 (bit_set sample_bb 8)) (\<lambda>_.
        bindR (commit_alloc 0) (\<lambda>_. returnR 9)) sample_fs"
    using alloc_block_loop_eq [of 0 0 sample_fs 1 3 ram_ops sample_bb sample_fs 8 "[]"] gd_calls [OF m, of 0] bm r f
      sample_find_zero
    by (simp add: alloc_block_def Let_def del: alloc_block_loop.simps)
  moreover define u where "u = sample_fs\<lparr>x_dev := sample_disk\<lparr>rd_data := blit 3072 (bit_set sample_bb 8) (rd_data sample_disk)\<rparr>\<rparr>"
  moreover have "mounted u" "x_ngroups u = 1" "x_free_blocks u = 1" "x_gdt u = sample_gdt"
    using m by (simp_all add: u_def)
  ultimately show ?thesis
    using sample_write [of 3 "bit_set sample_bb 8"] gd_calls [of u 0] f
    by (simp add: bindR_def commit_alloc_def sub32_def)
qed

theorem ext2_block_allocation_witness:
  "\<exists>s'. alloc_block ram_ops 0 sample_fs = (Ok 9, s') \<and> \<not> block_used rd_data sample_fs 9 \<and> block_used rd_data s' 9"
proof -
  obtain s' where s': "alloc_block ram_ops 0 sample_fs = (Ok 9, s')"
    using sample_alloc by blast
  from ext2_block_allocation [OF ram.block_device_axioms start [OF sample_ready] this] s' show ?thesis
    by (auto simp: data_range_def)
qed

text \<open>C33: Freeing is the inverse of allocating: when a block just allocated is freed again, the disk, the
  group descriptors and the free count are exactly as before; and a block that is not marked
  in use cannot be freed: the attempt fails and changes nothing on the disk or in the driver.\<close>

theorem ext2_free_inverts_alloc:
  assumes "block_device D contents" and "alloc_ready contents s"
  shows "(alloc_block D goal s = (Ok b, s1) \<longrightarrow> free_block D b s1 = (Ok (), s2) \<longrightarrow>
           contents (x_dev s2) = contents (x_dev s) \<and> x_gdt s2 = x_gdt s \<and> x_free_blocks s2 = x_free_blocks s)
    \<and> (c \<in> data_range s \<and> \<not> block_used contents s c \<longrightarrow>
         (\<exists>e t. free_block D c s = (Err e, t) \<and> contents (x_dev t) = contents (x_dev s)
            \<and> t\<lparr>x_dev := x_dev s\<rparr> = s))"
proof (intro conjI impI)
  show "\<exists>e t. free_block D c s = (Err e, t) \<and> contents (x_dev t) = contents (x_dev s) \<and> t\<lparr>x_dev := x_dev s\<rparr> = s"
    if "c \<in> data_range s \<and> \<not> block_used contents s c"
    using block_device.free_unused_fails [OF assms(1), of s c] assms(2) that
    by (auto simp: alloc_ready_def data_range_def keeps_all_def)
next
  assume a: "alloc_block D goal s = (Ok b, s1)" and f: "free_block D b s1 = (Ok (), s2)"
  have st: "mounted s" "fits contents s" using assms(2) by (auto simp: alloc_ready_def)
  have took: "took_block contents s b s1"
    by (rule block_device.alloc_block_Ok [OF assms(1) a st])
  then have "alloc_ready contents s1"
    using took_block_used [OF assms(2)] by blast
  then have "freed_block contents s1 b s2"
    by (intro block_device.free_block_Ok [OF assms(1) f]) (auto simp: alloc_ready_def)
  note restore = took_freed [OF assms(2) took this]
  show "contents (x_dev s2) = contents (x_dev s)" "x_gdt s2 = x_gdt s" "x_free_blocks s2 = x_free_blocks s"
    using restore by blast+
qed

theorem ext2_free_inverts_alloc_witness:
  "\<not> block_used rd_data sample_fs 9
   \<and> (\<exists>e t. free_block ram_ops 9 sample_fs = (Err e, t) \<and> rd_data (x_dev t) = rd_data sample_disk)"
proof -
  obtain s' where s': "alloc_block ram_ops 0 sample_fs = (Ok 9, s')"
    using sample_alloc by blast
  have "took_block rd_data sample_fs 9 s'"
    using sample_ready by (intro ram.alloc_block_Ok [OF s']) (auto simp: alloc_ready_def)
  then have "\<not> block_used rd_data sample_fs 9"
    using took_block_used [OF sample_ready] by blast
  with ext2_free_inverts_alloc [OF ram.block_device_axioms sample_ready, of 0 9 s' s' 9] show ?thesis
    by (auto simp: data_range_def)
qed

end
