(* ===== verification/Ext2_Inode.thy ===== *)
theory Ext2_Inode
  imports Ext2_Alloc
begin

text \<open>
  Inodes on the disk: where \<open>inode_loc\<close> puts them, that they do not overlap, and that
  \<open>write_inode\<close> and \<open>read_inode\<close> store and fetch exactly the bytes of one inode.
\<close>

lemma blit_within:
  assumes "off + length v \<le> n" and "p + n \<le> length C"
  shows "blit p (blit off v (subslice p n C)) C = blit (p + off) v C"
  by (rule nth_equalityI) (use assms in \<open>auto simp: nth_blit nth_slice\<close>)

definition table_of :: "'d ext2 \<Rightarrow> nat \<Rightarrow> nat" where
  "table_of s g = rd32 (x_gdt s) (g * 32 + 8)"

text \<open>The byte address of an inode on the device.\<close>

definition inode_addr :: "'d ext2 \<Rightarrow> nat \<Rightarrow> nat" where
  "inode_addr s ino = table_of s ((ino - 1) div x_ipg s) * x_bs s + (ino - 1) mod x_ipg s * x_inode_size s"

definition disk_inode :: "('d \<Rightarrow> bytes) \<Rightarrow> 'd ext2 \<Rightarrow> nat \<Rightarrow> inode" where
  "disk_inode contents s ino = subslice (inode_addr s ino) 128 (contents (x_dev s))"

text \<open>The inode tables of different groups do not overlap.\<close>

definition tables_ok :: "'d ext2 \<Rightarrow> bool" where
  "tables_ok s \<longleftrightarrow> (\<forall>g<x_ngroups s. \<forall>h<x_ngroups s. g \<noteq> h \<longrightarrow>
     table_of s g * x_bs s + x_ipg s * x_inode_size s \<le> table_of s h * x_bs s
     \<or> table_of s h * x_bs s + x_ipg s * x_inode_size s \<le> table_of s g * x_bs s)"

definition inode_nums :: "'d ext2 \<Rightarrow> nat set" where
  "inode_nums s = {1..x_inodes_count s}"

lemma inode_group:
  assumes "mounted s" and "ino \<in> inode_nums s"
  shows "(ino - 1) div x_ipg s < x_ngroups s" and "(ino - 1) mod x_ipg s < x_ipg s"
proof -
  have "ino - 1 < x_ngroups s * x_ipg s"
    using assms by (auto simp: mounted_def inode_nums_def)
  then show "(ino - 1) div x_ipg s < x_ngroups s" by (rule less_mult_imp_div_less)
  show "(ino - 1) mod x_ipg s < x_ipg s" using assms(1) by (simp add: mounted_def)
qed

lemma inode_addr_apart:
  assumes "mounted s" and "tables_ok s" and "a \<in> inode_nums s" and "b \<in> inode_nums s" and "a \<noteq> b"
  shows "inode_addr s a + 128 \<le> inode_addr s b \<or> inode_addr s b + 128 \<le> inode_addr s a"
proof -
  let ?g = "(a - 1) div x_ipg s" and ?h = "(b - 1) div x_ipg s"
  let ?i = "(a - 1) mod x_ipg s" and ?j = "(b - 1) mod x_ipg s"
  have sz: "128 \<le> x_inode_size s" using assms(1) by (simp add: mounted_def)
  show ?thesis
  proof (cases "?g = ?h")
    case True
    have "a - 1 \<noteq> b - 1" using assms(3-5) by (auto simp: inode_nums_def)
    then have "?i \<noteq> ?j" using True by (metis div_mult_mod_eq)
    from blocks_apart [OF this, of "x_inode_size s"] sz True show ?thesis
      by (auto simp: inode_addr_def)
  next
    case False
    have last: "k * x_inode_size s + 128 \<le> x_ipg s * x_inode_size s" if "k < x_ipg s" for k
    proof -
      have "Suc k * x_inode_size s \<le> x_ipg s * x_inode_size s" using that by (intro mult_le_mono1) simp
      with sz show ?thesis by simp
    qed
    have "table_of s ?g * x_bs s + x_ipg s * x_inode_size s \<le> table_of s ?h * x_bs s
        \<or> table_of s ?h * x_bs s + x_ipg s * x_inode_size s \<le> table_of s ?g * x_bs s"
      using assms(2) False inode_group [OF assms(1)] assms(3,4) unfolding tables_ok_def by blast
    with last [OF inode_group(2) [OF assms(1,3)]] last [OF inode_group(2) [OF assms(1,4)]] show ?thesis
      unfolding inode_addr_def by linarith
  qed
qed

lemma inode_loc_Ok:
  assumes "inode_loc ino s = (Ok (blk, off), t)" and "mounted s"
  shows "t = s" and "ino \<in> inode_nums s" and "blk * x_bs s + off = inode_addr s ino" and "off + 128 \<le> x_bs s"
proof -
  have ino: "ino \<in> inode_nums s"
    using assms(1) by (auto simp: inode_loc_def inode_nums_def split: if_splits)
  let ?g = "(ino - 1) div x_ipg s" and ?byte = "(ino - 1) mod x_ipg s * x_inode_size s"
  have "x_ngroups s * 32 \<le> length (x_gdt s)" using assms(2) by (simp add: mounted_def)
  then have "?g * 32 + 12 \<le> length (x_gdt s)" using inode_group(1) [OF assms(2) ino] by linarith
  then have "t = s \<and> blk = table_of s ?g + ?byte div x_bs s \<and> off = ?byte mod x_bs s"
    using assms(1) ino
    by (auto simp: inode_loc_def inode_nums_def Let_def gd_inode_table_def gd_get32_def gd_off_def rd32_at_def
        bindR_eq_Ok add32_def table_of_def split: if_splits)
  then have r: "t = s" "blk = table_of s ?g + ?byte div x_bs s" "off = ?byte mod x_bs s" by auto
  show "t = s" "ino \<in> inode_nums s" by (rule r, rule ino)
  show "blk * x_bs s + off = inode_addr s ino"
    using div_mult_mod_eq [of ?byte "x_bs s"] by (simp add: r inode_addr_def add_mult_distrib)
  have sz: "128 \<le> x_inode_size s" "0 < x_bs s" and "x_inode_size s dvd x_bs s"
    using assms(2) by (auto simp: mounted_def)
  then obtain k where k: "x_bs s = k * x_inode_size s" by (metis dvd_div_mult_self)
  have "off = ((ino - 1) mod x_ipg s mod k) * x_inode_size s"
    unfolding r(3) k by (rule mod_mult_mult2)
  moreover have "0 < k" using k sz by (cases k) auto
  then have "Suc ((ino - 1) mod x_ipg s mod k) * x_inode_size s \<le> k * x_inode_size s"
    by (intro mult_le_mono1) (simp add: Suc_le_eq)
  ultimately show "off + 128 \<le> x_bs s"
    using sz by (simp add: k)
qed

context block_device
begin

lemma read_inode_Ok:
  assumes "read_inode D ino s = (Ok i, t)" and "mounted s" and "fits contents s"
  shows "i = disk_inode contents s ino" and "ino \<in> inode_nums s"
proof -
  obtain blk off s0 buf where loc0: "inode_loc ino s = (Ok (blk, off), s0)"
    and rd0: "read_block D blk s0 = (Ok buf, t)" and i: "i = subslice off 128 buf"
    using assms(1) by (auto simp: read_inode_def bindR_eq_Ok split: if_splits)
  note loc = loc0 [unfolded inode_loc_Ok(1) [OF loc0 assms(2)]]
    and rd = rd0 [unfolded inode_loc_Ok(1) [OF loc0 assms(2)]]
  note l = inode_loc_Ok [OF loc assms(2)] and b = read_block_Ok [OF rd assms(2)]
  show "ino \<in> inode_nums s" by (rule l)
  have "subslice off 128 (subslice (blk * x_bs s) (x_bs s) C) = subslice (blk * x_bs s + off) 128 C" for C :: bytes
    using l(4) by (simp add: subslice_def take_drop min_def) (simp add: drop_take add.commute)
  then show "i = disk_inode contents s ino"
    using l(3) by (simp add: i b(2) disk_block_def disk_inode_def)
qed

lemma write_inode_Ok:
  assumes "write_inode D ino i s = (Ok (), t)" and "mounted s" and "fits contents s" and "length i = 128"
  shows "ino \<in> inode_nums s" and "inode_addr s ino + 128 \<le> length (contents (x_dev s))"
    and "\<exists>d. contents d = blit (inode_addr s ino) i (contents (x_dev s)) \<and> t = s\<lparr>x_dev := d\<rparr>"
proof -
  obtain blk off s0 buf u where loc0: "inode_loc ino s = (Ok (blk, off), s0)"
    and rd0: "read_block D blk s0 = (Ok buf, u)" and wr: "write_block D blk (blit off i buf) u = (Ok (), t)"
    using assms(1) by (auto simp: write_inode_def bindR_eq_Ok split: if_splits)
  note loc = loc0 [unfolded inode_loc_Ok(1) [OF loc0 assms(2)]]
    and rd = rd0 [unfolded inode_loc_Ok(1) [OF loc0 assms(2)]]
  note l = inode_loc_Ok [OF loc assms(2)] and b = read_block_Ok [OF rd assms(2)]
  have len: "length buf = x_bs s" using b(1,2) assms(3) by (simp add: length_disk_block)
  then have "mounted u" "length (blit off i buf) = x_bs u"
    using b(3) assms(2,4) l(4) by (simp_all add: keeps_all_same)
  note w = write_block_Ok [OF wr this]
  show "ino \<in> inode_nums s" by (rule l)
  have cap: "blk * x_bs s + x_bs s \<le> length (contents (x_dev s))"
    using fits_block [OF assms(3) b(1)] .
  then show "inode_addr s ino + 128 \<le> length (contents (x_dev s))"
    using l(3,4) by linarith
  obtain d where d: "contents d = blit (blk * x_bs s) (blit off i buf) (contents (x_dev s))" "t = s\<lparr>x_dev := d\<rparr>"
    using w(3) b(3) by (auto simp: keeps_all_same)
  have "contents d = blit (inode_addr s ino) i (contents (x_dev s))"
    using d(1) blit_within [of off i "x_bs s" "blk * x_bs s" "contents (x_dev s)"] l(3,4) cap assms(4)
    by (simp add: b(2) disk_block_def)
  with d(2) show "\<exists>d. contents d = blit (inode_addr s ino) i (contents (x_dev s)) \<and> t = s\<lparr>x_dev := d\<rparr>"
    by blast
qed

end

text \<open>C21: What is written to an inode is what the disk holds for it afterwards and what reading it
  returns; every other inode, and with it everything a read of that inode returns, is unchanged.\<close>

theorem ext2_inode_roundtrip:
  assumes "block_device D contents" and "mounted s" and "fits contents s" and "tables_ok s"
    and "write_inode D ino i s = (Ok (), t)" and "length i = 128"
  shows "disk_inode contents t ino = i
    \<and> (\<forall>j u. read_inode D ino t = (Ok j, u) \<longrightarrow> j = i)
    \<and> (\<forall>other \<in> inode_nums s - {ino}. inode_addr s other + 128 \<le> length (contents (x_dev s)) \<longrightarrow>
         disk_inode contents t other = disk_inode contents s other
         \<and> (\<forall>j u. read_inode D other t = (Ok j, u) \<longrightarrow> j = disk_inode contents s other))"
proof -
  note w = block_device.write_inode_Ok [OF assms(1,5,2,3,6)]
  obtain d where d: "contents d = blit (inode_addr s ino) i (contents (x_dev s))" "t = s\<lparr>x_dev := d\<rparr>"
    using w(3) by blast
  have addr: "inode_addr t a = inode_addr s a" for a
    by (simp add: d(2) inode_addr_def table_of_def)
  have same: "disk_inode contents t ino = i"
    using w(2) assms(6) slice_blit_same [of "inode_addr s ino" i "contents (x_dev s)"]
    by (simp add: disk_inode_def addr) (simp add: d)
  have other: "disk_inode contents t a = disk_inode contents s a"
    if "a \<in> inode_nums s" "a \<noteq> ino" "inode_addr s a + 128 \<le> length (contents (x_dev s))" for a
    using inode_addr_apart [OF assms(2,4) that(1) w(1) that(2)] that(3) w(2) assms(6)
    by (simp add: disk_inode_def addr slice_blit_other) (simp add: d slice_blit_other)
  have "mounted t" "fits contents t"
    using assms(2,3,6) w(2) by (simp_all add: d fits_def)
  note rd = block_device.read_inode_Ok(1) [OF assms(1) _ this]
  show ?thesis
    using same other rd by blast
qed

theorem ext2_inode_roundtrip_witness:
  "\<exists>t. write_inode ram_ops 11 inode_zeroed sample_fs = (Ok (), t)
     \<and> disk_inode rd_data t 11 = inode_zeroed \<and> disk_inode rd_data t 2 = disk_inode rd_data sample_fs 2"
proof -
  have st: "mounted sample_fs" "fits rd_data sample_fs"
    using sample_ready by (auto simp: alloc_ready_def)
  have tab: "tables_ok sample_fs"
    by (simp add: tables_ok_def)
  have "read_block ram_ops 6 sample_fs = (Ok sample_itab2, sample_fs)"
    by (simp add: sample_read_block sample_blocks_def)
  moreover have "length (inode_zeroed) = 128" by (simp add: inode_zeroed_def)
  ultimately obtain t where t: "write_inode ram_ops 11 inode_zeroed sample_fs = (Ok (), t)"
    using sample_write [of 6 "blit 256 inode_zeroed sample_itab2"]
    by (simp add: write_inode_def bindR_def sample_inode_loc)
  have "inode_addr sample_fs 2 + 128 \<le> 10240"
    by (simp add: inode_addr_def table_of_def sample_gdt_fields)
  with ext2_inode_roundtrip [OF ram.block_device_axioms st tab t] t show ?thesis
    by (auto simp: inode_zeroed_def inode_nums_def)
qed

end
