(* ===== verification/Fb_Correct.thy ===== *)
theory Fb_Correct
  imports Fb
begin

text \<open>
  The framebuffer operations as changes of a screen of pixels: rectangles are filled and
  copied as if at once although the code works row by row in place, scrolling moves the
  picture, nothing outside the screen is touched, and the dirty rectangle always covers every
  pixel in which the hardware framebuffer differs from the backbuffer, so that \<open>present\<close>
  shows exactly what was drawn.
\<close>

section \<open>Rows of a memory\<close>

lemma row_interval:
  assumes "x + n \<le> (w :: nat)" and "0 < w"
  shows "p * w + x \<le> k \<and> k < p * w + x + n \<longleftrightarrow> k div w = p \<and> x \<le> k mod w \<and> k mod w < x + n"
proof
  assume "p * w + x \<le> k \<and> k < p * w + x + n"
  then have "k = p * w + (k - p * w)" "k - p * w < w" using assms by linarith+
  then have "k div w = p" "k mod w = k - p * w"
    using assms(2) by (metis div_mult_self3 div_less add.right_neutral mod_mult_self3 mod_less neq0_conv)+
  with \<open>p * w + x \<le> k \<and> k < p * w + x + n\<close> show "k div w = p \<and> x \<le> k mod w \<and> k mod w < x + n" by linarith
next
  assume "k div w = p \<and> x \<le> k mod w \<and> k mod w < x + n"
  moreover have "k = k div w * w + k mod w" by simp
  ultimately show "p * w + x \<le> k \<and> k < p * w + x + n" by (metis add.assoc add_le_cancel_left add_less_cancel_left)
qed

lemma fill_at_row:
  assumes "x + n \<le> w" and "0 < w"
  shows "fill_at (p * w + x) n v back k
    = (if k div w = p \<and> x \<le> k mod w \<and> k mod w < x + n then v else back k)"
  using row_interval [OF assms, of p k] by (simp add: fill_at_def)

lemma fill_rows_rect:
  assumes "x + n \<le> w" and "0 < w" and "y \<le> e"
  shows "fill_rows w x n v [y..<e] back k
    = (if y \<le> k div w \<and> k div w < e \<and> x \<le> k mod w \<and> k mod w < x + n then v else back k)"
  using assms(3)
proof (induction e arbitrary: k)
  case (Suc e)
  then show ?case
    using fill_at_row [OF assms(1,2)] by (cases "y = Suc e") (auto simp: fill_rows_def)
qed (simp add: fill_rows_def)

lemma copy_at_row:
  assumes "x + n \<le> w" and "0 < w"
  shows "copy_at src (p * w + x) n back k
    = (if k div w = p \<and> x \<le> k mod w \<and> k mod w < x + n then back (src + (k mod w - x)) else back k)"
proof -
  have "k - (p * w + x) = k mod w - x" if "k div w = p" "x \<le> k mod w"
    using that div_mult_mod_eq [of k w] by (metis diff_add_inverse diff_diff_left)
  then show ?thesis
    using row_interval [OF assms, of p k] by (auto simp: copy_at_def)
qed

text \<open>The source of a pixel of a copied rectangle.\<close>

definition copied :: "nat \<Rightarrow> nat \<Rightarrow> nat \<Rightarrow> nat \<Rightarrow> nat \<Rightarrow> nat \<Rightarrow> nat \<Rightarrow> nat \<Rightarrow> (nat \<Rightarrow> u32) \<Rightarrow> nat \<Rightarrow> u32" where
  "copied w src_x src_y dst_x dst_y n lo hi back k =
     (if dst_y + lo \<le> k div w \<and> k div w < dst_y + hi \<and> dst_x \<le> k mod w \<and> k mod w < dst_x + n
      then back ((src_y + (k div w - dst_y)) * w + src_x + (k mod w - dst_x)) else back k)"

text \<open>Copying one more row reads a row of the source that has not been written yet.\<close>

lemma copied_row:
  assumes "dst_x + n \<le> w" and "src_x + n \<le> w" and "0 < w"
    and "src_y + r < dst_y + lo \<or> dst_y + hi \<le> src_y + r"
  shows "copy_at ((src_y + r) * w + src_x) ((dst_y + r) * w + dst_x) n
      (copied w src_x src_y dst_x dst_y n lo hi back) k
    = (if k div w = dst_y + r \<and> dst_x \<le> k mod w \<and> k mod w < dst_x + n
       then back ((src_y + r) * w + src_x + (k mod w - dst_x))
       else copied w src_x src_y dst_x dst_y n lo hi back k)"
proof -
  have "copied w src_x src_y dst_x dst_y n lo hi back ((src_y + r) * w + src_x + c)
      = back ((src_y + r) * w + src_x + c)" if "c < n" for c
  proof -
    have "src_x + c < w" using that assms(2) by linarith
    then have "((src_y + r) * w + src_x + c) div w = src_y + r"
      using assms(3) by (metis add.assoc div_mult_self3 div_less add.right_neutral neq0_conv)
    with assms(4) show ?thesis by (auto simp: copied_def)
  qed
  from this [of "k mod w - dst_x"] show ?thesis
    unfolding copy_at_row [OF assms(1,3)] by auto
qed

lemma copy_rows_up:
  assumes "dst_x + n \<le> w" and "src_x + n \<le> w" and "0 < w" and "dst_y \<le> src_y"
  shows "copy_rows w src_x src_y dst_x dst_y n [0..<h] back = copied w src_x src_y dst_x dst_y n 0 h back"
proof (induction h)
  case (Suc h)
  have "copy_rows w src_x src_y dst_x dst_y n [0..<Suc h] back
      = copy_at ((src_y + h) * w + src_x) ((dst_y + h) * w + dst_x) n
          (copy_rows w src_x src_y dst_x dst_y n [0..<h] back)"
    by (simp add: copy_rows_def)
  then show ?case
    unfolding Suc using copied_row [OF assms(1-3), of src_y h dst_y 0 h "back"] assms(4)
    by (intro ext) (auto simp: copied_def)
qed (auto simp: copy_rows_def copied_def fun_eq_iff)

lemma copy_rows_down:
  assumes "dst_x + n \<le> w" and "src_x + n \<le> w" and "0 < w" and "src_y < dst_y" and "m \<le> h"
  shows "copy_rows w src_x src_y dst_x dst_y n (rev [m..<h]) back = copied w src_x src_y dst_x dst_y n m h back"
  using assms(5)
proof (induction "h - m" arbitrary: m)
  case (Suc d)
  then have m: "m < h" "d = h - Suc m" by auto
  have "rev [m..<h] = rev [Suc m..<h] @ [m]"
    using m(1) by (simp add: upt_conv_Cons)
  then have "copy_rows w src_x src_y dst_x dst_y n (rev [m..<h]) back
      = copy_at ((src_y + m) * w + src_x) ((dst_y + m) * w + dst_x) n
          (copy_rows w src_x src_y dst_x dst_y n (rev [Suc m..<h]) back)"
    by (simp add: copy_rows_def)
  then show ?case
    unfolding Suc.hyps(1) [OF m(2) Suc_leI [OF m(1)]]
    using copied_row [OF assms(1-3), of src_y m dst_y "Suc m" h "back"] assms(4) m(1)
    by (intro ext) (auto simp: copied_def)
qed (auto simp: copy_rows_def copied_def fun_eq_iff)

section \<open>The screen\<close>

text \<open>An initialized framebuffer: the checks of \<open>fb_init\<close> passed, its rows do not overlap, and the
  color channels lie inside a pixel.\<close>

definition screen_ok :: "info \<Rightarrow> bool" where
  "screen_ok i \<longleftrightarrow> 0 < fi_width i \<and> fi_width i \<le> MAX_WIDTH \<and> 0 < fi_height i \<and> fi_height i \<le> MAX_HEIGHT
     \<and> fi_width i * BYTES_PER_PIXEL \<le> fi_pitch i \<and> fi_red i < 32 \<and> fi_green i < 32 \<and> fi_blue i < 32"

definition pixel :: "info \<Rightarrow> fb \<Rightarrow> nat \<Rightarrow> nat \<Rightarrow> u32" where
  "pixel i s x y = fb_back s (y * fi_width i + x)"

definition color_word :: "info \<Rightarrow> color \<Rightarrow> u32" where
  "color_word i c = push_bit (fi_red i) (ucast (c_r c)) OR push_bit (fi_green i) (ucast (c_g c))
     OR push_bit (fi_blue i) (ucast (c_b c))"

lemma pixel_index:
  assumes "x < w"
  shows "(y * w + x) div w = y" and "(y * w + x) mod w = (x :: nat)"
  using assms by (simp_all add: div_mult_self3)

lemma get_info [simp]: "fb_info s = Some i \<Longrightarrow> fb_get_info s = (Ok i, s)"
  by (simp add: fb_get_info_def)

lemma color_word_run: "fb_info s = Some i \<Longrightarrow> screen_ok i \<Longrightarrow> color_to_u32 c s = (Ok (color_word i c), s)"
  by (simp add: color_to_u32_def bindR_def screen_ok_def color_word_def)

text \<open>A region of the screen covered by the dirty rectangle.\<close>

definition in_dirty :: "fb \<Rightarrow> nat \<Rightarrow> nat \<Rightarrow> bool" where
  "in_dirty s x y \<longleftrightarrow> fb_dirty s \<and> fb_min_x s \<le> x \<and> x < fb_max_x s \<and> fb_min_y s \<le> y \<and> y < fb_max_y s"

definition dirty_ok :: "info \<Rightarrow> fb \<Rightarrow> bool" where
  "dirty_ok i s \<longleftrightarrow> (fb_dirty s \<longrightarrow> fb_min_x s < fb_max_x s \<and> fb_max_x s \<le> fi_width i
     \<and> fb_min_y s < fb_max_y s \<and> fb_max_y s \<le> fi_height i)"

text \<open>What a drawing operation does: the pixels of the screen become \<open>f\<close> of what they were, the
  memory behind the screen and the hardware framebuffer stay, and the dirty rectangle grows to
  cover every pixel that changed.\<close>

definition drawn :: "info \<Rightarrow> ((nat \<Rightarrow> nat \<Rightarrow> u32) \<Rightarrow> nat \<Rightarrow> nat \<Rightarrow> u32) \<Rightarrow> fb \<Rightarrow> fb \<Rightarrow> bool" where
  "drawn i f s s' \<longleftrightarrow> fb_info s' = Some i \<and> fb_front s' = fb_front s \<and> dirty_ok i s'
     \<and> (\<forall>x<fi_width i. \<forall>y<fi_height i. pixel i s' x y = f (pixel i s) x y)
     \<and> (\<forall>k. fi_width i * fi_height i \<le> k \<longrightarrow> fb_back s' k = fb_back s k)
     \<and> (\<forall>x<fi_width i. \<forall>y<fi_height i. in_dirty s x y \<or> pixel i s' x y \<noteq> pixel i s x y \<longrightarrow> in_dirty s' x y)"

definition draws :: "info \<Rightarrow> unit fbp \<Rightarrow> ((nat \<Rightarrow> nat \<Rightarrow> u32) \<Rightarrow> nat \<Rightarrow> nat \<Rightarrow> u32) \<Rightarrow> bool" where
  "draws i m f \<longleftrightarrow> (\<forall>s. fb_info s = Some i \<longrightarrow> dirty_ok i s \<longrightarrow> (\<exists>s'. m s = (Ok (), s') \<and> drawn i f s s'))"

text \<open>Functions of pictures that depend on the screen only.\<close>

definition local_to :: "info \<Rightarrow> ((nat \<Rightarrow> nat \<Rightarrow> u32) \<Rightarrow> nat \<Rightarrow> nat \<Rightarrow> u32) \<Rightarrow> bool" where
  "local_to i f \<longleftrightarrow> (\<forall>p q. (\<forall>x<fi_width i. \<forall>y<fi_height i. p x y = q x y) \<longrightarrow>
     (\<forall>x<fi_width i. \<forall>y<fi_height i. f p x y = f q x y))"

lemma local_toD:
  "local_to i f \<Longrightarrow> (\<And>x y. x < fi_width i \<Longrightarrow> y < fi_height i \<Longrightarrow> p x y = q x y) \<Longrightarrow>
     x < fi_width i \<Longrightarrow> y < fi_height i \<Longrightarrow> f p x y = f q x y"
  unfolding local_to_def by blast

lemma drawn_pixel:
  "drawn i f s s' \<Longrightarrow> x < fi_width i \<Longrightarrow> y < fi_height i \<Longrightarrow> pixel i s' x y = f (pixel i s) x y"
  unfolding drawn_def by blast

lemma drawn_dirty:
  "drawn i f s s' \<Longrightarrow> x < fi_width i \<Longrightarrow> y < fi_height i \<Longrightarrow>
     in_dirty s x y \<or> pixel i s' x y \<noteq> pixel i s x y \<Longrightarrow> in_dirty s' x y"
  unfolding drawn_def by blast

lemma drawn_trans:
  assumes "drawn i f s s1" and "drawn i f' s1 s2" and "local_to i f'"
  shows "drawn i (f' \<circ> f) s s2"
proof -
  have "pixel i s2 x y = (f' \<circ> f) (pixel i s) x y" if "x < fi_width i" "y < fi_height i" for x y
    using drawn_pixel [OF assms(2) that] local_toD [OF assms(3) drawn_pixel [OF assms(1)] that] by simp
  moreover have "in_dirty s2 x y" if "x < fi_width i" "y < fi_height i"
      "in_dirty s x y \<or> pixel i s2 x y \<noteq> pixel i s x y" for x y
    using drawn_dirty [OF assms(1) that(1,2)] drawn_dirty [OF assms(2) that(1,2)] that(3) by metis
  ultimately show ?thesis
    using assms(1,2) unfolding drawn_def by simp
qed

lemma draws_bind:
  assumes "draws i m f" and "draws i m' f'" and "local_to i f'"
  shows "draws i (bindR m (\<lambda>_. m')) (f' \<circ> f)"
  unfolding draws_def
proof (intro allI impI)
  fix s assume "fb_info s = Some i" "dirty_ok i s"
  then obtain s1 where s1: "m s = (Ok (), s1)" "drawn i f s s1"
    using assms(1) by (auto simp: draws_def)
  then obtain s2 where s2: "m' s1 = (Ok (), s2)" "drawn i f' s1 s2"
    using assms(2) by (auto simp: draws_def drawn_def)
  show "\<exists>s'. bindR m (\<lambda>_. m') s = (Ok (), s') \<and> drawn i (f' \<circ> f) s s'"
    using s1 s2 drawn_trans [OF s1(2) s2(2) assms(3)] by (auto simp: bindR_def)
qed

lemma draws_return: "draws i (returnR ()) (\<lambda>p. p)"
  by (auto simp: draws_def drawn_def)

text \<open>Every operation looks at the information first.\<close>

lemma draws_info: "draws i (k i) f \<Longrightarrow> draws i (bindR fb_get_info k) f"
  by (simp add: draws_def bindR_def)

lemma draws_color: "screen_ok i \<Longrightarrow> draws i (k (color_word i c)) f \<Longrightarrow> draws i (bindR (color_to_u32 c) k) f"
  by (simp add: draws_def bindR_def color_word_run)

text \<open>A change of the backbuffer inside a rectangle, followed by marking that rectangle.\<close>

lemma mark_dirty_run:
  assumes "fb_info s = Some i" and "screen_ok i" and "0 < w" and "0 < h"
    and "x + w \<le> fi_width i" and "y + h \<le> fi_height i" and "dirty_ok i s"
  shows "\<exists>s'. mark_dirty x y w h s = (Ok (), s') \<and> fb_info s' = Some i \<and> fb_front s' = fb_front s
    \<and> fb_back s' = fb_back s \<and> dirty_ok i s'
    \<and> (\<forall>a b. in_dirty s a b \<or> (x \<le> a \<and> a < x + w \<and> y \<le> b \<and> b < y + h) \<longrightarrow> in_dirty s' a b)"
proof -
  have m: "min (sat_add x w) (fi_width i) = x + w" "min (sat_add y h) (fi_height i) = y + h"
    using assms by (auto simp: sat_add_def screen_ok_def)
  have run: "mark_dirty x y w h s = (Ok (), if \<not> fb_dirty s then
        s\<lparr>fb_dirty := True, fb_min_x := x, fb_min_y := y, fb_max_x := x + w, fb_max_y := y + h\<rparr>
      else
        s\<lparr>fb_min_x := min (fb_min_x s) x, fb_min_y := min (fb_min_y s) y,
          fb_max_x := max (fb_max_x s) (x + w), fb_max_y := max (fb_max_y s) (y + h)\<rparr>)"
    using assms(1,3-6) by (simp add: mark_dirty_def bindR_def Let_def m)
  show ?thesis
  proof (cases "fb_dirty s")
    case True
    with assms(1,3-7) show ?thesis
      by (simp add: run dirty_ok_def in_dirty_def) (simp add: min_def max_def)
  next
    case False
    with assms(1,3-7) show ?thesis
      by (simp add: run dirty_ok_def in_dirty_def)
  qed
qed

lemma draws_mark:
  assumes "screen_ok i" and "0 < w" and "0 < h" and "x + w \<le> fi_width i" and "y + h \<le> fi_height i"
    and f: "\<And>p a b. a < fi_width i \<Longrightarrow> b < fi_height i \<Longrightarrow> \<not> (x \<le> a \<and> a < x + w \<and> y \<le> b \<and> b < y + h)
        \<Longrightarrow> f p a b = p a b"
    and g: "\<And>mem a b. a < fi_width i \<Longrightarrow> b < fi_height i \<Longrightarrow>
        g mem (b * fi_width i + a) = f (\<lambda>a b. mem (b * fi_width i + a)) a b"
    and out: "\<And>mem k. fi_width i * fi_height i \<le> k \<Longrightarrow> g mem k = mem k"
  shows "draws i (bindR (modifyR (\<lambda>s. s\<lparr>fb_back := g (fb_back s)\<rparr>)) (\<lambda>_. mark_dirty x y w h)) f"
  unfolding draws_def
proof (intro allI impI)
  fix s assume s: "fb_info s = Some i" "dirty_ok i s"
  let ?s = "s\<lparr>fb_back := g (fb_back s)\<rparr>"
  have "fb_info ?s = Some i" "dirty_ok i ?s" using s by (simp_all add: dirty_ok_def)
  from mark_dirty_run [OF this(1) assms(1-5) this(2)]
  obtain s' where s': "mark_dirty x y w h ?s = (Ok (), s')" "fb_info s' = Some i" "fb_front s' = fb_front s"
      "fb_back s' = g (fb_back s)" "dirty_ok i s'"
    and d: "\<And>a b. in_dirty ?s a b \<or> (x \<le> a \<and> a < x + w \<and> y \<le> b \<and> b < y + h) \<Longrightarrow> in_dirty s' a b"
    by auto
  have px: "pixel i s' a b = f (pixel i s) a b" if "a < fi_width i" "b < fi_height i" for a b
    using g [OF that, of "fb_back s"] by (simp add: pixel_def [abs_def] s'(4))
  have "in_dirty s' a b" if "a < fi_width i" "b < fi_height i" "in_dirty s a b \<or> pixel i s' a b \<noteq> pixel i s a b" for a b
    using that px [OF that(1,2)] f [OF that(1,2), of "pixel i s"] d [of a b] by (auto simp: in_dirty_def)
  with s' px out show "\<exists>s'. bindR (modifyR (\<lambda>s. s\<lparr>fb_back := g (fb_back s)\<rparr>)) (\<lambda>_. mark_dirty x y w h) s = (Ok (), s')
      \<and> drawn i f s s'"
    by (auto simp: bindR_def drawn_def)
qed

lemma draws_cong:
  assumes "draws i m f" and "\<And>p x y. x < fi_width i \<Longrightarrow> y < fi_height i \<Longrightarrow> f p x y = g p x y"
  shows "draws i m g"
  using assms unfolding draws_def drawn_def by fastforce

section \<open>What the operations draw\<close>

definition fill_pic :: "nat \<Rightarrow> nat \<Rightarrow> nat \<Rightarrow> nat \<Rightarrow> u32 \<Rightarrow> (nat \<Rightarrow> nat \<Rightarrow> u32) \<Rightarrow> nat \<Rightarrow> nat \<Rightarrow> u32" where
  "fill_pic x y w h v p a b = (if x \<le> a \<and> a < x + w \<and> y \<le> b \<and> b < y + h then v else p a b)"

definition copy_pic ::
  "info \<Rightarrow> nat \<Rightarrow> nat \<Rightarrow> nat \<Rightarrow> nat \<Rightarrow> nat \<Rightarrow> nat \<Rightarrow> (nat \<Rightarrow> nat \<Rightarrow> u32) \<Rightarrow> nat \<Rightarrow> nat \<Rightarrow> u32" where
  "copy_pic i src_x src_y dst_x dst_y w h p a b =
     (if dst_x \<le> a \<and> a < dst_x + w \<and> src_x + (a - dst_x) < fi_width i
       \<and> dst_y \<le> b \<and> b < dst_y + h \<and> src_y + (b - dst_y) < fi_height i
      then p (src_x + (a - dst_x)) (src_y + (b - dst_y)) else p a b)"

definition up_pic :: "info \<Rightarrow> nat \<Rightarrow> u32 \<Rightarrow> (nat \<Rightarrow> nat \<Rightarrow> u32) \<Rightarrow> nat \<Rightarrow> nat \<Rightarrow> u32" where
  "up_pic i n v p a b = (if b + n < fi_height i then p a (b + n) else v)"

definition down_pic :: "info \<Rightarrow> nat \<Rightarrow> u32 \<Rightarrow> (nat \<Rightarrow> nat \<Rightarrow> u32) \<Rightarrow> nat \<Rightarrow> nat \<Rightarrow> u32" where
  "down_pic i n v p a b = (if n \<le> b then p a (b - n) else v)"

lemma local_pics: "local_to i (fill_pic x y w h v)" "local_to i (copy_pic i sx sy dx dy w h)"
  "local_to i (up_pic i n v)" "local_to i (down_pic i n v)"
  by (auto simp: local_to_def fill_pic_def copy_pic_def up_pic_def down_pic_def)

lemma index_bound: "a < w \<Longrightarrow> b < h \<Longrightarrow> b * w + a < w * (h :: nat)"
proof -
  assume "a < w" "b < h"
  then have "b * w + a < Suc b * w" by simp
  also have "\<dots> \<le> h * w" using \<open>b < h\<close> by (intro mult_le_mono1) simp
  finally show ?thesis by (simp add: mult.commute)
qed

lemma row_bound: "0 < w \<Longrightarrow> w * h \<le> k \<Longrightarrow> h \<le> k div (w :: nat)"
  by (metis div_le_mono nonzero_mult_div_cancel_left less_numeral_extra(3))

lemma draws_clear: "screen_ok i \<Longrightarrow> draws i (fb_clear c) (\<lambda>p a b. color_word i c)"
  unfolding fb_clear_def
  by (intro draws_info draws_color draws_mark)
     (auto simp: screen_ok_def fill_at_def index_bound)

lemma draws_put_pixel: "screen_ok i \<Longrightarrow> draws i (put_pixel x y c) (fill_pic x y 1 1 (color_word i c))"
proof (cases "x \<ge> fi_width i \<or> y \<ge> fi_height i")
  case True
  then have "draws i (put_pixel x y c) (\<lambda>p. p)"
    unfolding put_pixel_def by (intro draws_info) (simp add: draws_return)
  then show ?thesis
    by (rule draws_cong) (use True in \<open>auto simp: fill_pic_def\<close>)
next
  case False
  assume ok: "screen_ok i"
  have pos: "0 < fi_width i" using ok by (simp add: screen_ok_def)
  have row: "fill_at (y * fi_width i + x) 1 v mem k
      = (if k div fi_width i = y \<and> x \<le> k mod fi_width i \<and> k mod fi_width i < x + 1 then v else mem k)" for v mem k
    using False pos by (intro fill_at_row) auto
  show ?thesis
    using False pos row_bound [OF pos, of "fi_height i"] unfolding put_pixel_def
    by (intro draws_info, simp only: False if_False, intro draws_color draws_mark ok)
       (auto simp: row fill_pic_def pixel_index simp del: One_nat_def dest: leD)
qed

lemma draws_draw_rect:
  assumes ok: "screen_ok i"
  shows "draws i (draw_rect x y w h c) (fill_pic x y w h (color_word i c))"
proof (cases "w = 0 \<or> h = 0 \<or> x \<ge> fi_width i \<or> y \<ge> fi_height i")
  case True
  then have "draws i (draw_rect x y w h c) (\<lambda>p. p)"
    unfolding draw_rect_def by (intro draws_info) (auto simp: draws_return)
  then show ?thesis
    by (rule draws_cong) (use True in \<open>auto simp: fill_pic_def\<close>)
next
  case False
  let ?W = "fi_width i" and ?H = "fi_height i"
  define ex where "ex = min (sat_add x w) ?W"
  define ey where "ey = min (sat_add y h) ?H"
  have pos: "0 < ?W" using ok by (simp add: screen_ok_def)
  have e: "ex = min (x + w) ?W" "ey = min (y + h) ?H"
    using ok by (auto simp: ex_def ey_def sat_add_def screen_ok_def)
  then have lt: "x < ex" "y < ey" "ex \<le> ?W" "ey \<le> ?H"
    using False by auto
  have rows: "fill_rows ?W x (ex - x) v [y..<ey] mem k
      = (if y \<le> k div ?W \<and> k div ?W < ey \<and> x \<le> k mod ?W \<and> k mod ?W < x + (ex - x) then v else mem k)" for v mem k
    using lt pos by (intro fill_rows_rect) auto
  have "draws i (bindR (modifyR (\<lambda>s. s\<lparr>fb_back := fill_rows ?W x (ex - x) (color_word i c) [y..<ey] (fb_back s)\<rparr>))
      (\<lambda>_. mark_dirty x y (ex - x) (ey - y))) (fill_pic x y w h (color_word i c))"
  proof (rule draws_mark [OF ok])
    show "fill_rows ?W x (ex - x) (color_word i c) [y..<ey] mem k = mem k" if "?W * ?H \<le> k" for mem k
      using row_bound [OF pos that] lt(4) by (simp add: rows)
    show "fill_rows ?W x (ex - x) (color_word i c) [y..<ey] mem (b * ?W + a)
        = fill_pic x y w h (color_word i c) (\<lambda>a b. mem (b * ?W + a)) a b" if "a < ?W" "b < ?H" for mem a b
      unfolding rows pixel_index [OF that(1)] fill_pic_def using that lt e by auto
    show "fill_pic x y w h (color_word i c) p a b = p a b"
      if "a < ?W" "b < ?H" "\<not> (x \<le> a \<and> a < x + (ex - x) \<and> y \<le> b \<and> b < y + (ey - y))" for p a b
      using that lt e by (auto simp: fill_pic_def)
  qed (use lt in auto)
  then show ?thesis
    using False lt unfolding draw_rect_def
    by (intro draws_info) (simp add: Let_def flip: ex_def ey_def, intro draws_color ok, simp)
qed

lemma draws_copy_rect:
  assumes ok: "screen_ok i"
  shows "draws i (copy_rect sx sy dx dy w h) (copy_pic i sx sy dx dy w h)"
proof (cases "w = 0 \<or> h = 0 \<or> sx \<ge> fi_width i \<or> sy \<ge> fi_height i \<or> dx \<ge> fi_width i \<or> dy \<ge> fi_height i")
  case True
  then have "draws i (copy_rect sx sy dx dy w h) (\<lambda>p. p)"
    unfolding copy_rect_def by (intro draws_info) (auto simp: draws_return)
  then show ?thesis
    by (rule draws_cong) (use True in \<open>auto simp: copy_pic_def\<close>)
next
  case False
  let ?W = "fi_width i" and ?H = "fi_height i"
  define n where "n = min (min w (?W - sx)) (?W - dx)"
  define m where "m = min (min h (?H - sy)) (?H - dy)"
  define rows where "rows = (if dy > sy then rev [0..<m] else [0..<m])"
  have pos: "0 < ?W" using ok by (simp add: screen_ok_def)
  have nm: "0 < n" "0 < m" "dx + n \<le> ?W" "sx + n \<le> ?W" "dy + m \<le> ?H" "sy + m \<le> ?H"
    using False by (auto simp: n_def m_def)
  have cp: "copy_rows ?W sx sy dx dy n rows mem = copied ?W sx sy dx dy n 0 m mem" for mem
    using copy_rows_up [OF nm(3,4) pos, of dy sy m mem] copy_rows_down [OF nm(3,4) pos, of sy dy 0 m mem]
    by (simp add: rows_def)
  have "draws i (bindR (modifyR (\<lambda>s. s\<lparr>fb_back := copy_rows ?W sx sy dx dy n rows (fb_back s)\<rparr>))
      (\<lambda>_. mark_dirty dx dy n m)) (copy_pic i sx sy dx dy w h)"
  proof (rule draws_mark [OF ok nm(1,2,3,5)])
    show "copy_rows ?W sx sy dx dy n rows mem k = mem k" if "?W * ?H \<le> k" for mem k
      using row_bound [OF pos that] nm(5) by (simp add: cp copied_def)
    show "copy_rows ?W sx sy dx dy n rows mem (b * ?W + a)
        = copy_pic i sx sy dx dy w h (\<lambda>a b. mem (b * ?W + a)) a b" if "a < ?W" "b < ?H" for mem a b
      using that unfolding cp copied_def copy_pic_def pixel_index [OF that(1)]
      by (auto simp: n_def m_def add.assoc)
    show "copy_pic i sx sy dx dy w h p a b = p a b"
      if "a < ?W" "b < ?H" "\<not> (dx \<le> a \<and> a < dx + n \<and> dy \<le> b \<and> b < dy + m)" for p a b
      using that by (auto simp: copy_pic_def n_def m_def)
  qed
  then show ?thesis
    using False nm unfolding copy_rect_def
    by (intro draws_info) (simp add: Let_def rows_def flip: n_def m_def)
qed

lemma draws_scroll_up:
  assumes ok: "screen_ok i"
  shows "draws i (scroll_up n c) (if n = 0 then (\<lambda>p. p) else up_pic i n (color_word i c))"
proof -
  let ?W = "fi_width i" and ?H = "fi_height i" and ?v = "color_word i c"
  consider "n = 0" | "n \<ge> ?H" "n \<noteq> 0" | "0 < n" "n < ?H" by linarith
  then show ?thesis
  proof cases
    case 1
    then show ?thesis
      unfolding scroll_up_def by (intro draws_info) (simp add: draws_return)
  next
    case 2
    then show ?thesis
      unfolding scroll_up_def
      by (intro draws_info) (simp, rule draws_cong [OF draws_clear [OF ok]], simp add: up_pic_def)
  next
    case 3
    have "draws i (bindR (copy_rect 0 n 0 0 ?W (?H - n)) (\<lambda>_. draw_rect 0 (?H - n) ?W n c))
        (fill_pic 0 (?H - n) ?W n ?v \<circ> copy_pic i 0 n 0 0 ?W (?H - n))"
      by (intro draws_bind draws_copy_rect draws_draw_rect ok local_pics)
    then have "draws i (bindR (copy_rect 0 n 0 0 ?W (?H - n)) (\<lambda>_. draw_rect 0 (?H - n) ?W n c)) (up_pic i n ?v)"
      by (rule draws_cong) (use 3 in \<open>auto simp: fill_pic_def copy_pic_def up_pic_def add.commute\<close>)
    with 3 show ?thesis
      unfolding scroll_up_def by (intro draws_info) simp
  qed
qed

lemma draws_scroll_down:
  assumes ok: "screen_ok i"
  shows "draws i (scroll_down n c) (if n = 0 then (\<lambda>p. p) else down_pic i n (color_word i c))"
proof -
  let ?W = "fi_width i" and ?H = "fi_height i" and ?v = "color_word i c"
  consider "n = 0" | "n \<ge> ?H" "n \<noteq> 0" | "0 < n" "n < ?H" by linarith
  then show ?thesis
  proof cases
    case 1
    then show ?thesis
      unfolding scroll_down_def by (intro draws_info) (simp add: draws_return)
  next
    case 2
    then show ?thesis
      unfolding scroll_down_def
      by (intro draws_info) (simp, rule draws_cong [OF draws_clear [OF ok]], simp add: down_pic_def)
  next
    case 3
    have "draws i (bindR (copy_rect 0 0 0 n ?W (?H - n)) (\<lambda>_. draw_rect 0 0 ?W n c))
        (fill_pic 0 0 ?W n ?v \<circ> copy_pic i 0 0 0 n ?W (?H - n))"
      by (intro draws_bind draws_copy_rect draws_draw_rect ok local_pics)
    then have "draws i (bindR (copy_rect 0 0 0 n ?W (?H - n)) (\<lambda>_. draw_rect 0 0 ?W n c)) (down_pic i n ?v)"
      by (rule draws_cong) (use 3 in \<open>auto simp: fill_pic_def copy_pic_def down_pic_def\<close>)
    with 3 show ?thesis
      unfolding scroll_down_def by (intro draws_info) simp
  qed
qed

section \<open>Presenting\<close>

text \<open>The hardware framebuffer shows the pixel at \<open>(x, y)\<close>.\<close>

definition displayed :: "info \<Rightarrow> fb \<Rightarrow> nat \<Rightarrow> nat \<Rightarrow> bool" where
  "displayed i s x y \<longleftrightarrow> (\<forall>k<4. fb_front s (y * fi_pitch i + x * 4 + k) = pixel_byte (pixel i s x y) k)"

text \<open>The invariant: what is not shown is inside the dirty rectangle.\<close>

definition synced :: "info \<Rightarrow> fb \<Rightarrow> bool" where
  "synced i s \<longleftrightarrow> fb_info s = Some i \<and> dirty_ok i s
     \<and> (\<forall>x<fi_width i. \<forall>y<fi_height i. \<not> in_dirty s x y \<longrightarrow> displayed i s x y)"

lemma drawn_synced:
  assumes "synced i s" and "drawn i f s s'"
  shows "synced i s'"
proof -
  have "displayed i s' x y" if "x < fi_width i" "y < fi_height i" "\<not> in_dirty s' x y" for x y
  proof -
    have "pixel i s' x y = pixel i s x y" "\<not> in_dirty s x y" "fb_front s' = fb_front s"
      using drawn_dirty [OF assms(2) that(1,2)] that(3) assms(2) by (auto simp: drawn_def)
    with assms(1) that(1,2) show ?thesis
      by (simp add: synced_def displayed_def)
  qed
  with assms(2) show ?thesis
    by (auto simp: synced_def drawn_def)
qed

lemma present_rows:
  assumes "mx * 4 \<le> p" and "lx \<le> mx" and "0 < p" and "my \<le> ny"
  shows "fold (\<lambda>y. copy_front mem (y * w * 4 + lx * 4) (y * p + lx * 4) ((mx - lx) * 4)) [my..<ny] front a
    = (if my \<le> a div p \<and> a div p < ny \<and> lx * 4 \<le> a mod p \<and> a mod p < mx * 4
       then back_byte mem (a div p * w * 4 + a mod p) else front a)"
  using assms(4)
proof (induction ny arbitrary: a)
  case (Suc ny)
  have int: "y * p + lx * 4 \<le> a \<and> a < y * p + lx * 4 + (mx - lx) * 4 \<longleftrightarrow>
      a div p = y \<and> lx * 4 \<le> a mod p \<and> a mod p < lx * 4 + (mx - lx) * 4" for y a
    by (rule row_interval) (use assms in auto)
  have off: "lx * 4 + (a - (a div p * p + lx * 4)) = a mod p" if "lx * 4 \<le> a mod p"
    using that div_mult_mod_eq [of a p] by (metis add.commute add_diff_cancel_left diff_add_inverse2 le_add_diff_inverse)
  show ?case
  proof (cases "my = Suc ny")
    case False
    then have le: "my \<le> ny" using Suc.prems by simp
    then have "fold (\<lambda>y. copy_front mem (y * w * 4 + lx * 4) (y * p + lx * 4) ((mx - lx) * 4)) [my..<Suc ny] front a
      = copy_front mem (ny * w * 4 + lx * 4) (ny * p + lx * 4) ((mx - lx) * 4)
          (fold (\<lambda>y. copy_front mem (y * w * 4 + lx * 4) (y * p + lx * 4) ((mx - lx) * 4)) [my..<ny] front) a"
      by simp
    with le show ?thesis
      unfolding copy_front_def int Suc.IH [OF le] using assms(2) off
      by (auto simp: add.assoc)
  qed auto
qed auto

lemma present_run:
  assumes ok: "screen_ok i" and s: "synced i s"
  shows "\<exists>s'. present s = (Ok (), s') \<and> synced i s' \<and> \<not> fb_dirty s' \<and> fb_back s' = fb_back s
    \<and> (\<forall>x<fi_width i. \<forall>y<fi_height i. displayed i s' x y)
    \<and> (\<forall>a. fi_width i * 4 \<le> a mod fi_pitch i \<or> fi_height i \<le> a div fi_pitch i \<longrightarrow> fb_front s' a = fb_front s a)"
proof (cases "fb_dirty s")
  case False
  then have "displayed i s x y" if "x < fi_width i" "y < fi_height i" for x y
    using s that by (auto simp: synced_def in_dirty_def)
  with False s show ?thesis
    by (auto simp: present_def bindR_def synced_def)
next
  case True
  let ?W = "fi_width i" and ?P = "fi_pitch i"
  have inf: "fb_info s = Some i" and d: "fb_min_x s < fb_max_x s" "fb_max_x s \<le> ?W"
      "fb_min_y s < fb_max_y s" "fb_max_y s \<le> fi_height i"
    using s True by (auto simp: synced_def dirty_ok_def)
  have p: "0 < ?P" "fb_max_x s * 4 \<le> ?P" "?W * 4 \<le> ?P"
    using ok d(2) by (auto simp: screen_ok_def)
  define fr where "fr = fold (\<lambda>y. copy_front (fb_back s) (y * ?W * 4 + fb_min_x s * 4) (y * ?P + fb_min_x s * 4)
      ((fb_max_x s - fb_min_x s) * 4)) [fb_min_y s..<fb_max_y s] (fb_front s)"
  have fr: "fr a = (if fb_min_y s \<le> a div ?P \<and> a div ?P < fb_max_y s \<and> fb_min_x s * 4 \<le> a mod ?P
      \<and> a mod ?P < fb_max_x s * 4 then back_byte (fb_back s) (a div ?P * ?W * 4 + a mod ?P) else fb_front s a)" for a
    unfolding fr_def using p d by (intro present_rows) auto
  let ?s = "s\<lparr>fb_dirty := False, fb_front := fr\<rparr>"
  have run: "present s = (Ok (), ?s)"
    using True inf d by (simp add: present_def bindR_def Let_def fr_def)
  have "displayed i ?s x y" if xy: "x < ?W" "y < fi_height i" for x y
    unfolding displayed_def
  proof (intro allI impI)
    fix k :: nat assume "k < 4"
    then have "x * 4 + k < ?P" using xy(1) p(3) by linarith
    from pixel_index [OF this, of y] have dm: "(y * ?P + x * 4 + k) div ?P = y" "(y * ?P + x * 4 + k) mod ?P = x * 4 + k"
      by (simp_all add: add.assoc)
    have bb: "back_byte (fb_back s) (y * ?W * 4 + (x * 4 + k)) = pixel_byte (pixel i s x y) k"
    proof -
      have "y * ?W * 4 + (x * 4 + k) = (y * ?W + x) * 4 + k" by simp
      then show ?thesis
        using pixel_index [OF \<open>k < 4\<close>, of "y * ?W + x"] by (simp add: back_byte_def pixel_def)
    qed
    show "fb_front ?s (y * ?P + x * 4 + k) = pixel_byte (pixel i ?s x y) k"
    proof (cases "in_dirty s x y")
      case True
      then show ?thesis
        using bb \<open>k < 4\<close> by (simp add: fr dm in_dirty_def pixel_def)
    next
      case False
      then have "fb_front s (y * ?P + x * 4 + k) = pixel_byte (pixel i s x y) k"
        using s xy \<open>k < 4\<close> by (simp add: synced_def displayed_def)
      with bb show ?thesis by (simp add: fr dm pixel_def)
    qed
  qed
  moreover have "fr a = fb_front s a" if "?W * 4 \<le> a mod ?P \<or> fi_height i \<le> a div ?P" for a
    using that d by (auto simp: fr)
  ultimately show ?thesis
    using inf by (simp add: run synced_def dirty_ok_def)
qed

section \<open>Sequences of drawing operations\<close>

datatype draw_op = Pixel nat nat color | Clear color | Rect nat nat nat nat color
  | Copy nat nat nat nat nat nat | Up nat color | Down nat color | Present

fun draw :: "draw_op \<Rightarrow> unit fbp" where
  "draw (Pixel x y c) = put_pixel x y c"
| "draw (Clear c) = fb_clear c"
| "draw (Rect x y w h c) = draw_rect x y w h c"
| "draw (Copy sx sy dx dy w h) = copy_rect sx sy dx dy w h"
| "draw (Up n c) = scroll_up n c"
| "draw (Down n c) = scroll_down n c"
| "draw Present = present"

text \<open>The abstract picture.\<close>

fun paint :: "info \<Rightarrow> draw_op \<Rightarrow> (nat \<Rightarrow> nat \<Rightarrow> u32) \<Rightarrow> nat \<Rightarrow> nat \<Rightarrow> u32" where
  "paint i (Pixel x y c) = fill_pic x y 1 1 (color_word i c)"
| "paint i (Clear c) = (\<lambda>p a b. color_word i c)"
| "paint i (Rect x y w h c) = fill_pic x y w h (color_word i c)"
| "paint i (Copy sx sy dx dy w h) = copy_pic i sx sy dx dy w h"
| "paint i (Up n c) = (if n = 0 then (\<lambda>p. p) else up_pic i n (color_word i c))"
| "paint i (Down n c) = (if n = 0 then (\<lambda>p. p) else down_pic i n (color_word i c))"
| "paint i Present = (\<lambda>p. p)"

primrec draw_all :: "draw_op list \<Rightarrow> unit fbp" where
  "draw_all [] = returnR ()"
| "draw_all (op # ops) = bindR (draw op) (\<lambda>_. draw_all ops)"

lemma draws_op: "screen_ok i \<Longrightarrow> op \<noteq> Present \<Longrightarrow> draws i (draw op) (paint i op)"
  using draws_scroll_up draws_scroll_down
  by (cases op) (auto simp: draws_put_pixel draws_clear draws_draw_rect draws_copy_rect simp del: One_nat_def)

lemma local_paint: "local_to i (paint i op)"
  by (cases op) (auto simp: local_pics local_to_def [of _ "\<lambda>p. p"] local_to_def [of _ "\<lambda>p a b. _"])

text \<open>One operation on a synchronized screen.\<close>

lemma draw_step:
  assumes ok: "screen_ok i" and s: "synced i s"
  shows "\<exists>s'. draw op s = (Ok (), s') \<and> synced i s'
    \<and> (\<forall>x<fi_width i. \<forall>y<fi_height i. pixel i s' x y = paint i op (pixel i s) x y)
    \<and> (\<forall>k\<ge>fi_width i * fi_height i. fb_back s' k = fb_back s k)
    \<and> (\<forall>a. fi_width i * 4 \<le> a mod fi_pitch i \<or> fi_height i \<le> a div fi_pitch i \<longrightarrow> fb_front s' a = fb_front s a)"
proof (cases "op = Present")
  case True
  obtain s' where "present s = (Ok (), s')" "synced i s'" "fb_back s' = fb_back s"
    "\<forall>a. fi_width i * 4 \<le> a mod fi_pitch i \<or> fi_height i \<le> a div fi_pitch i \<longrightarrow> fb_front s' a = fb_front s a"
    using present_run [OF assms] by blast
  with True show ?thesis by (simp add: pixel_def)
next
  case False
  have "fb_info s = Some i" "dirty_ok i s" using s by (auto simp: synced_def)
  then obtain s' where s': "draw op s = (Ok (), s')" "drawn i (paint i op) s s'"
    using draws_op [OF ok False] unfolding draws_def by blast
  then show ?thesis
    using drawn_synced [OF s s'(2)] by (auto simp: drawn_def)
qed

lemma draw_all_run:
  assumes ok: "screen_ok i" and "synced i s"
  shows "\<exists>s'. draw_all ops s = (Ok (), s') \<and> synced i s'
    \<and> (\<forall>x<fi_width i. \<forall>y<fi_height i. pixel i s' x y = fold (paint i) ops (pixel i s) x y)
    \<and> (\<forall>k\<ge>fi_width i * fi_height i. fb_back s' k = fb_back s k)
    \<and> (\<forall>a. fi_width i * 4 \<le> a mod fi_pitch i \<or> fi_height i \<le> a div fi_pitch i \<longrightarrow> fb_front s' a = fb_front s a)"
  using assms(2)
proof (induction ops arbitrary: s)
  case (Cons op ops)
  obtain s1 where s1: "draw op s = (Ok (), s1)" "synced i s1"
    and p1: "\<And>x y. x < fi_width i \<Longrightarrow> y < fi_height i \<Longrightarrow> pixel i s1 x y = paint i op (pixel i s) x y"
    and o1: "\<forall>k\<ge>fi_width i * fi_height i. fb_back s1 k = fb_back s k"
      "\<forall>a. fi_width i * 4 \<le> a mod fi_pitch i \<or> fi_height i \<le> a div fi_pitch i \<longrightarrow> fb_front s1 a = fb_front s a"
    using draw_step [OF ok Cons.prems, of op] by blast
  obtain s2 where s2: "draw_all ops s1 = (Ok (), s2)" "synced i s2"
    and p2: "\<And>x y. x < fi_width i \<Longrightarrow> y < fi_height i \<Longrightarrow> pixel i s2 x y = fold (paint i) ops (pixel i s1) x y"
    and o2: "\<forall>k\<ge>fi_width i * fi_height i. fb_back s2 k = fb_back s1 k"
      "\<forall>a. fi_width i * 4 \<le> a mod fi_pitch i \<or> fi_height i \<le> a div fi_pitch i \<longrightarrow> fb_front s2 a = fb_front s1 a"
    using Cons.IH [OF s1(2)] by blast
  have "local_to i (fold (paint i) ops)"
    by (induction ops) (use local_paint in \<open>auto simp: local_to_def\<close>)
  then have "fold (paint i) ops (pixel i s1) x y = fold (paint i) ops (paint i op (pixel i s)) x y"
    if "x < fi_width i" "y < fi_height i" for x y
    by (rule local_toD) (use p1 that in auto)
  with p2 o1 o2 s1 s2 show ?case
    by (auto simp: bindR_def)
qed simp

text \<open>C9: Drawing refines painting: after any sequence of drawing operations on an initialized screen,
  followed by \<open>present\<close>, every pixel of the hardware framebuffer shows the color that painting
  the same sequence gives; no operation fails, and neither the backbuffer behind the screen nor
  the padding of the hardware framebuffer is touched.\<close>

theorem fb_shows_what_is_drawn:
  assumes "screen_ok i" and "synced i s"
  shows "\<exists>s'. draw_all (ops @ [Present]) s = (Ok (), s') \<and> synced i s'
    \<and> (\<forall>x<fi_width i. \<forall>y<fi_height i. displayed i s' x y \<and> pixel i s' x y = fold (paint i) ops (pixel i s) x y)
    \<and> (\<forall>k\<ge>fi_width i * fi_height i. fb_back s' k = fb_back s k)
    \<and> (\<forall>a. fi_width i * 4 \<le> a mod fi_pitch i \<or> fi_height i \<le> a div fi_pitch i \<longrightarrow> fb_front s' a = fb_front s a)"
proof -
  have app: "draw_all (xs @ [Present]) = bindR (draw_all xs) (\<lambda>_. present)" for xs
    by (induction xs) (auto simp: bindR_assoc fun_eq_iff bindR_def split: prod.splits res.splits)
  obtain s1 where s1: "draw_all ops s = (Ok (), s1)" "synced i s1"
    "\<forall>x<fi_width i. \<forall>y<fi_height i. pixel i s1 x y = fold (paint i) ops (pixel i s) x y"
    "\<forall>k\<ge>fi_width i * fi_height i. fb_back s1 k = fb_back s k"
    "\<forall>a. fi_width i * 4 \<le> a mod fi_pitch i \<or> fi_height i \<le> a div fi_pitch i \<longrightarrow> fb_front s1 a = fb_front s a"
    using draw_all_run [OF assms, of ops] by blast
  obtain s2 where s2: "present s1 = (Ok (), s2)" "synced i s2" "fb_back s2 = fb_back s1"
    "\<forall>x<fi_width i. \<forall>y<fi_height i. displayed i s2 x y"
    "\<forall>a. fi_width i * 4 \<le> a mod fi_pitch i \<or> fi_height i \<le> a div fi_pitch i \<longrightarrow> fb_front s2 a = fb_front s1 a"
    using present_run [OF assms(1) s1(2)] by blast
  then have "pixel i s2 = pixel i s1" by (simp add: pixel_def fun_eq_iff)
  with s1 s2 show ?thesis
    by (intro exI [of _ s2]) (simp add: app bindR_def)
qed

definition desc_info :: "fb_desc \<Rightarrow> info" where
  "desc_info d = \<lparr>fi_width = ds_width d, fi_height = ds_height d, fi_pitch = ds_pitch d,
     fi_red = ds_red d, fi_green = ds_green d, fi_blue = ds_blue d\<rparr>"

lemma fb_init_run:
  assumes "ds_bpp d = 32" and ok: "screen_ok (desc_info d)"
  shows "\<exists>s'. fb_init (Some (d # ds)) s = (Ok (), s') \<and> synced (desc_info d) s'
    \<and> (\<forall>x<ds_width d. \<forall>y<ds_height d. displayed (desc_info d) s' x y \<and> pixel (desc_info d) s' x y = 0)"
proof -
  let ?i = "desc_info d"
  let ?s = "s\<lparr>fb_info := Some ?i, fb_dirty := False, fb_min_x := 0, fb_min_y := 0, fb_max_x := 0, fb_max_y := 0\<rparr>"
  have dim: "0 < ds_width d" "ds_width d \<le> MAX_WIDTH" "0 < ds_height d" "ds_height d \<le> MAX_HEIGHT"
    and i: "fi_width ?i = ds_width d" "fi_height ?i = ds_height d"
    using ok by (simp_all add: screen_ok_def desc_info_def)
  have run: "fb_init (Some (d # ds)) s = bindR (fb_clear BLACK) (\<lambda>_. present) ?s"
    using assms(1) dim by (simp add: fb_init_def bindR_def desc_info_def)
  define s1 where "s1 = ?s\<lparr>fb_back := fill_at 0 (ds_width d * ds_height d) (color_word ?i BLACK) (fb_back s),
      fb_dirty := True, fb_max_x := ds_width d, fb_max_y := ds_height d\<rparr>"
  have clear: "fb_clear BLACK ?s = (Ok (), s1)"
    using dim i ok by (simp add: fb_clear_def bindR_def color_word_run mark_dirty_def Let_def sat_add_def s1_def)
  have "synced ?i s1"
    using dim by (auto simp: synced_def s1_def dirty_ok_def in_dirty_def i)
  from present_run [OF ok this] obtain s2 where s2: "present s1 = (Ok (), s2)" "synced ?i s2" "fb_back s2 = fb_back s1"
    "\<forall>x<fi_width ?i. \<forall>y<fi_height ?i. displayed ?i s2 x y"
    by blast
  have "pixel ?i s2 x y = 0" if "x < ds_width d" "y < ds_height d" for x y
    using index_bound [OF that] by (simp add: pixel_def s2(3) s1_def fill_at_def i color_word_def BLACK_def)
  with s2 i show ?thesis
    by (intro exI [of _ s2]) (simp add: run bindR_def clear)
qed

text \<open>Initialization accepts a 32-bit framebuffer within the supported size, panics without one or on
  any other, and leaves a black screen on display with everything in sync.\<close>

theorem fb_init_black_screen:
  assumes "ds_width d * BYTES_PER_PIXEL \<le> ds_pitch d" and "ds_red d < 32" "ds_green d < 32" "ds_blue d < 32"
  shows "(if ds_bpp d = 32 \<and> 0 < ds_width d \<and> ds_width d \<le> MAX_WIDTH \<and> 0 < ds_height d \<and> ds_height d \<le> MAX_HEIGHT
     then \<exists>s'. fb_init (Some (d # ds)) s = (Ok (), s') \<and> synced (desc_info d) s'
        \<and> (\<forall>x<ds_width d. \<forall>y<ds_height d. displayed (desc_info d) s' x y \<and> pixel (desc_info d) s' x y = 0)
     else fb_init (Some (d # ds)) s = (Panic, s))
    \<and> fb_init None s = (Panic, s) \<and> fb_init (Some []) s = (Panic, s)"
proof -
  have "fb_init (Some (d # ds)) s = (Panic, s)"
    if "\<not> (ds_bpp d = 32 \<and> 0 < ds_width d \<and> ds_width d \<le> MAX_WIDTH \<and> 0 < ds_height d \<and> ds_height d \<le> MAX_HEIGHT)"
    using that by (auto simp: fb_init_def)
  moreover have "screen_ok (desc_info d)"
    if "0 < ds_width d" "ds_width d \<le> MAX_WIDTH" "0 < ds_height d" "ds_height d \<le> MAX_HEIGHT"
    using that assms by (simp add: screen_ok_def desc_info_def)
  ultimately show ?thesis
    using fb_init_run [of d ds s] by (auto simp: fb_init_def)
qed

definition vga :: fb_desc where
  "vga = \<lparr>ds_width = 640, ds_height = 480, ds_pitch = 2560, ds_bpp = 32, ds_red = 16, ds_green = 8, ds_blue = 0\<rparr>"

definition fb_off :: fb where
  "fb_off = \<lparr>fb_info = None, fb_back = (\<lambda>_. 0), fb_front = (\<lambda>_. 0xAA), fb_dirty = False,
     fb_min_x = 0, fb_min_y = 0, fb_max_x = 0, fb_max_y = 0\<rparr>"

theorem fb_init_black_screen_witness:
  "\<exists>s'. fb_init (Some [vga]) fb_off = (Ok (), s') \<and> synced (desc_info vga) s'"
  using fb_init_black_screen [of vga "[]" fb_off] by (auto simp: vga_def)

theorem fb_shows_what_is_drawn_witness:
  "\<exists>s s'. synced (desc_info vga) s \<and> draw_all ([Rect 10 10 20 20 RED, Up 16 BLACK] @ [Present]) s = (Ok (), s')
     \<and> displayed (desc_info vga) s' 15 2"
proof -
  have ok: "screen_ok (desc_info vga)" by (simp add: screen_ok_def desc_info_def vga_def)
  then obtain s where s: "synced (desc_info vga) s"
    using fb_init_run [of vga "[]" fb_off] by (auto simp: vga_def)
  from fb_shows_what_is_drawn [OF ok s, of "[Rect 10 10 20 20 RED, Up 16 BLACK]"] s show ?thesis
    by (auto simp: desc_info_def vga_def)
qed

section \<open>Glyphs\<close>

text \<open>The pixels a glyph sets, among the given cells.\<close>

definition glyph_pic ::
  "bytes \<Rightarrow> nat \<Rightarrow> nat \<Rightarrow> u32 \<Rightarrow> (nat \<times> nat) set \<Rightarrow> (nat \<Rightarrow> nat \<Rightarrow> u32) \<Rightarrow> nat \<Rightarrow> nat \<Rightarrow> u32" where
  "glyph_pic g x y v cells p a b =
     (if x \<le> a \<and> y \<le> b \<and> (b - y, a - x) \<in> cells \<and> glyph_bit g (b - y) (a - x) = Ok True then v else p a b)"

lemma local_glyph: "local_to i (glyph_pic g x y v cells)"
  by (auto simp: local_to_def glyph_pic_def)

lemma draws_cells:
  assumes ok: "screen_ok i" and "\<forall>rc\<in>set cells. glyph_bit g (fst rc) (snd rc) \<noteq> Panic \<and> x + snd rc < u64_limit \<and> y + fst rc < u64_limit"
  shows "draws i (draw_cells g x y c cells) (glyph_pic g x y (color_word i c) (set cells))"
  using assms(2)
proof (induction cells)
  case Nil
  show ?case
    unfolding draw_cells.simps by (rule draws_cong [OF draws_return]) (simp add: glyph_pic_def)
next
  case (Cons rc cells)
  let ?v = "color_word i c"
  obtain r k where rc: "rc = (r, k)" by (cases rc)
  obtain on where on: "glyph_bit g r k = Ok on"
    using Cons.prems by (auto simp: rc glyph_bit_def Let_def split: if_splits)
  have lim: "x + k < u64_limit" "y + r < u64_limit" using Cons.prems by (auto simp: rc)
  have IH: "draws i (draw_cells g x y c cells) (glyph_pic g x y ?v (set cells))"
    using Cons by simp
  have unf: "draw_cells g x y c (rc # cells)
      = bindR (if on then put_pixel (x + k) (y + r) c else returnR ()) (\<lambda>_. draw_cells g x y c cells)"
    by (rule ext) (simp add: rc on bindR_def usize_add_def lim)
  show ?case
  proof (cases on)
    case True
    have "draws i (bindR (put_pixel (x + k) (y + r) c) (\<lambda>_. draw_cells g x y c cells))
        (glyph_pic g x y ?v (set cells) \<circ> fill_pic (x + k) (y + r) 1 1 ?v)"
      by (intro draws_bind draws_put_pixel IH ok local_glyph)
    moreover have "fill_pic (x + k) (y + r) 1 1 ?v p a b = (if a = x + k \<and> b = y + r then ?v else p a b)" for p a b
      by (auto simp: fill_pic_def)
    ultimately show ?thesis
      unfolding unf using True on
      by (simp only: if_True) (erule draws_cong, auto simp: glyph_pic_def rc)
  next
    case False
    with IH show ?thesis
      unfolding unf using on by (simp, elim draws_cong) (auto simp: glyph_pic_def rc)
  qed
qed

lemma draws_char_bits:
  assumes "screen_ok i" and "glyph f (unat ch) = Ok g" and "length g = 64" and "x + 8 \<le> u64_limit" and "y + 16 \<le> u64_limit"
  shows "draws i (draw_char f x y ch c) (\<lambda>p a b.
    if x \<le> a \<and> a < x + 8 \<and> y \<le> b \<and> b < y + 16 \<and> bit (g ! ((b - y) * 4 + (a - x) div 4)) (7 - (a - x) * 2 mod 8)
    then color_word i c else p a b)"
proof -
  have bits: "glyph_bit g r k = Ok (bit (g ! (r * 4 + k div 4)) (7 - k * 2 mod 8))" if "r < 16" "k < 8" for r k
  proof -
    have "r * 2 * 2 + k * 2 div 8 = r * 4 + k div 4" by simp
    moreover have "r * 4 + k div 4 < 64" using that by linarith
    ultimately show ?thesis
      using assms(3) by (simp add: glyph_bit_def Let_def push_bit_eq_mult and_exp_eq_0_iff_not_bit mult.commute [of 4])
  qed
  have "draws i (draw_cells g x y c (List.product [0..<16] [0..<8])) (glyph_pic g x y (color_word i c) ({0..<16} \<times> {0..<8}))"
    using draws_cells [OF assms(1), of "List.product [0..<16] [0..<8]" g x y c] bits assms(4,5)
    by (fastforce simp del: upt_rec_numeral)
  moreover have "g \<noteq> []" using assms(3) by auto
  ultimately have "draws i (draw_char f x y ch c) (glyph_pic g x y (color_word i c) ({0..<16} \<times> {0..<8}))"
    using assms(2) unfolding draws_def by (simp add: draw_char_def bindR_def del: upt_rec_numeral)
  then show ?thesis
    by (rule draws_cong) (auto simp: glyph_pic_def bits)
qed

text \<open>Drawing a character of a font whose glyphs have 64 bytes sets exactly the pixels that every
  second row and column of the glyph has set, clipped to the screen, and changes nothing else
  on it.\<close>

theorem draw_char_exact:
  assumes "screen_ok i" and "glyph f (unat ch) = Ok g" and "length g = 64" and "x + 8 \<le> u64_limit" and "y + 16 \<le> u64_limit"
  shows "draws i (draw_char f x y ch c) (\<lambda>p a b.
    if x \<le> a \<and> a < x + 8 \<and> y \<le> b \<and> b < y + 16 \<and> bit (g ! ((b - y) * 4 + (a - x) div 4)) (7 - (a - x) * 2 mod 8)
    then color_word i c else p a b)"
  using assms by (rule draws_char_bits)

definition tiny_font :: font where
  "tiny_font = \<lparr>ft_data = replicate 64 0xFF, ft_header_size = 0, ft_glyph_count = 1, ft_glyph_size = 64\<rparr>"

theorem draw_char_exact_witness:
  "draws (desc_info vga) (draw_char tiny_font 8 16 0 WHITE) (\<lambda>p a b.
     if 8 \<le> a \<and> a < 16 \<and> 16 \<le> b \<and> b < 32 \<and> bit (replicate 64 (0xFF :: u8) ! ((b - 16) * 4 + (a - 8) div 4)) (7 - (a - 8) * 2 mod 8)
     then color_word (desc_info vga) WHITE else p a b)"
proof -
  have "screen_ok (desc_info vga)" by (simp add: screen_ok_def desc_info_def vga_def)
  moreover have "glyph tiny_font (unat (0 :: u8)) = Ok (replicate 64 0xFF)"
    by (simp add: glyph_def tiny_font_def subslice_def)
  ultimately show ?thesis
    using draw_char_exact [of "desc_info vga" tiny_font 0 "replicate 64 0xFF" 8 16 WHITE] by simp
qed

end
