(* ===== verification/Console_Correct.thy ===== *)
theory Console_Correct
  imports Console Fb_Correct
begin

text \<open>
  The console keeps the screen in step with its cells: after every operation the framebuffer
  shows, cell for cell, the lines of the ring buffer that the viewport covers, although output
  only redraws the cells that changed and scrolling only moves pixels. The cursor stays inside
  the grid, the viewport inside the retained history, and only the cell array is written.
\<close>

section \<open>Painting cells\<close>

text \<open>Glyphs are absent or have the size that \<open>draw_char\<close> expects.\<close>

definition font_ok :: "font \<Rightarrow> bool" where
  "font_ok f \<longleftrightarrow> (\<forall>ch :: u8. \<exists>g. glyph f (unat ch) = Ok g \<and> (g = [] \<or> length g = 64))"

definition glyph_on :: "font \<Rightarrow> u8 \<Rightarrow> nat \<Rightarrow> nat \<Rightarrow> bool" where
  "glyph_on f ch dx dy \<longleftrightarrow> (case glyph f (unat ch) of
     Ok g \<Rightarrow> g \<noteq> [] \<and> bit (g ! (dy * 4 + dx div 4)) (7 - dx * 2 mod 8) | _ \<Rightarrow> False)"

definition cell_pixel :: "info \<Rightarrow> font \<Rightarrow> cell \<Rightarrow> nat \<Rightarrow> nat \<Rightarrow> u32" where
  "cell_pixel i f ce dx dy =
     color_word i (if ce_char ce \<noteq> 0x20 \<and> glyph_on f (ce_char ce) dx dy then ce_fg ce else ce_bg ce)"

definition cell_pic :: "info \<Rightarrow> font \<Rightarrow> cell \<Rightarrow> nat \<Rightarrow> nat \<Rightarrow> (nat \<Rightarrow> nat \<Rightarrow> u32) \<Rightarrow> nat \<Rightarrow> nat \<Rightarrow> u32" where
  "cell_pic i f ce x y p a b =
     (if x \<le> a \<and> a < x + 8 \<and> y \<le> b \<and> b < y + 16 then cell_pixel i f ce (a - x) (b - y) else p a b)"

lemma local_cell: "local_to i (cell_pic i f ce x y)"
  by (auto simp: local_to_def cell_pic_def)

text \<open>\<open>draw_char\<close>, also for a character without a glyph.\<close>

definition char_pic :: "info \<Rightarrow> font \<Rightarrow> u8 \<Rightarrow> color \<Rightarrow> nat \<Rightarrow> nat \<Rightarrow> (nat \<Rightarrow> nat \<Rightarrow> u32) \<Rightarrow> nat \<Rightarrow> nat \<Rightarrow> u32" where
  "char_pic i f ch c x y p a b =
     (if x \<le> a \<and> a < x + 8 \<and> y \<le> b \<and> b < y + 16 \<and> glyph_on f ch (a - x) (b - y) then color_word i c else p a b)"

lemma draws_char:
  assumes "screen_ok i" and "font_ok f" and "x + 8 \<le> u64_limit" and "y + 16 \<le> u64_limit"
  shows "draws i (draw_char f x y ch c) (char_pic i f ch c x y)"
proof -
  obtain g where g: "glyph f (unat ch) = Ok g" "g = [] \<or> length g = 64"
    using assms(2) by (auto simp: font_ok_def)
  show ?thesis
  proof (cases "g = []")
    case True
    with g(1) have "draws i (draw_char f x y ch c) (\<lambda>p. p)"
      by (simp add: draws_def draw_char_def bindR_def drawn_def)
    then show ?thesis
      by (rule draws_cong) (use g True in \<open>simp add: char_pic_def glyph_on_def\<close>)
  next
    case False
    then have "draws i (draw_char f x y ch c) (\<lambda>p a b.
      if x \<le> a \<and> a < x + 8 \<and> y \<le> b \<and> b < y + 16 \<and> bit (g ! ((b - y) * 4 + (a - x) div 4)) (7 - (a - x) * 2 mod 8)
      then color_word i c else p a b)"
      using g assms by (intro draws_char_bits) auto
    then show ?thesis
      by (rule draws_cong) (use g False in \<open>simp add: char_pic_def glyph_on_def\<close>)
  qed
qed

lemma draws_paint_cell:
  assumes "screen_ok i" and "font_ok f" and "x + 8 \<le> u64_limit" and "y + 16 \<le> u64_limit"
  shows "draws i (paint_cell f ce x y) (cell_pic i f ce x y)"
proof (cases "ce_char ce = 0x20")
  case True
  have "draws i (bindR (draw_rect x y 8 16 (ce_bg ce)) (\<lambda>_. returnR ())) ((\<lambda>p. p) \<circ> fill_pic x y 8 16 (color_word i (ce_bg ce)))"
    by (intro draws_bind draws_draw_rect draws_return assms) (simp add: local_to_def)
  then have "draws i (paint_cell f ce x y) (fill_pic x y 8 16 (color_word i (ce_bg ce)))"
    using True by (simp add: paint_cell_def comp_def)
  then show ?thesis
    by (rule draws_cong) (use True in \<open>simp add: cell_pic_def fill_pic_def cell_pixel_def\<close>)
next
  case False
  have "draws i (bindR (draw_rect x y 8 16 (ce_bg ce)) (\<lambda>_. draw_char f x y (ce_char ce) (ce_fg ce)))
      (char_pic i f (ce_char ce) (ce_fg ce) x y \<circ> fill_pic x y 8 16 (color_word i (ce_bg ce)))"
    by (intro draws_bind draws_draw_rect draws_char assms) (auto simp: local_to_def char_pic_def)
  then have "draws i (paint_cell f ce x y)
      (char_pic i f (ce_char ce) (ce_fg ce) x y \<circ> fill_pic x y 8 16 (color_word i (ce_bg ce)))"
    using False by (simp add: paint_cell_def)
  then show ?thesis
    by (rule draws_cong) (use False in \<open>auto simp: cell_pic_def char_pic_def fill_pic_def cell_pixel_def\<close>)
qed

text \<open>A row of cells.\<close>

definition row_pic :: "info \<Rightarrow> console \<Rightarrow> nat \<Rightarrow> nat \<Rightarrow> nat \<Rightarrow> (nat \<Rightarrow> nat \<Rightarrow> u32) \<Rightarrow> nat \<Rightarrow> nat \<Rightarrow> u32" where
  "row_pic i c line y n p a b =
     (if a div 8 < n \<and> y \<le> b \<and> b < y + 16
      then cell_pixel i (con_font c) (get_cell c line (a div 8)) (a mod 8) (b - y) else p a b)"

lemma local_row: "local_to i (row_pic i c line y n)"
  by (auto simp: local_to_def row_pic_def)

lemma cell_column: "col * 8 \<le> a \<and> a < col * 8 + 8 \<longleftrightarrow> a div 8 = (col :: nat)"
  by auto

lemma draws_columns:
  assumes "screen_ok i" and "font_ok (con_font c)" and "\<forall>col\<in>set cols. col * 8 + 8 \<le> u64_limit" and "y + 16 \<le> u64_limit"
  shows "draws i (render_columns c line y cols) (\<lambda>p a b.
    if a div 8 \<in> set cols \<and> y \<le> b \<and> b < y + 16
    then cell_pixel i (con_font c) (get_cell c line (a div 8)) (a mod 8) (b - y) else p a b)"
  using assms(3)
proof (induction cols)
  case Nil
  show ?case unfolding render_columns.simps by (rule draws_cong [OF draws_return]) simp
next
  case (Cons col cols)
  let ?rest = "\<lambda>p a b. if a div 8 \<in> set cols \<and> y \<le> b \<and> b < y + 16
    then cell_pixel i (con_font c) (get_cell c line (a div 8)) (a mod 8) (b - y) else p a b"
  have "draws i (bindR (paint_cell (con_font c) (get_cell c line col) (col * 8) y) (\<lambda>_. render_columns c line y cols))
      (?rest \<circ> cell_pic i (con_font c) (get_cell c line col) (col * 8) y)"
    using Cons assms by (intro draws_bind draws_paint_cell) (auto simp: local_to_def)
  then show ?case
    unfolding render_columns.simps
  proof (rule draws_cong)
    fix p a b
    have "a - col * 8 = a mod 8" if "a div 8 = col"
      using that by (metis minus_div_mult_eq_mod)
    then show "(?rest \<circ> cell_pic i (con_font c) (get_cell c line col) (col * 8) y) p a b
      = (if a div 8 \<in> set (col # cols) \<and> y \<le> b \<and> b < y + 16
         then cell_pixel i (con_font c) (get_cell c line (a div 8)) (a mod 8) (b - y) else p a b)"
      using cell_column [of col a] by (auto simp: cell_pic_def)
  qed
qed

section \<open>Programs that paint\<close>

text \<open>A program that starts with the console \<open>c\<close> leaves the console \<open>c'\<close> and changes the picture on
  the screen by \<open>f\<close>.\<close>

definition paints ::
  "info \<Rightarrow> console \<Rightarrow> unit tp \<Rightarrow> console \<Rightarrow> ((nat \<Rightarrow> nat \<Rightarrow> u32) \<Rightarrow> nat \<Rightarrow> nat \<Rightarrow> u32) \<Rightarrow> bool" where
  "paints i c m c' f \<longleftrightarrow> (\<forall>s. tm_con s = c \<longrightarrow> synced i (tm_fb s) \<longrightarrow>
     (\<exists>fb. m s = (Ok (), s\<lparr>tm_con := c', tm_fb := fb\<rparr>) \<and> synced i fb
       \<and> (\<forall>x<fi_width i. \<forall>y<fi_height i. pixel i fb x y = f (pixel i (tm_fb s)) x y)))"

lemma paintsE:
  assumes "paints i c m c' f" and "tm_con s = c" and "synced i (tm_fb s)"
  obtains fb where "m s = (Ok (), s\<lparr>tm_con := c', tm_fb := fb\<rparr>)" and "synced i fb"
    and "\<And>x y. x < fi_width i \<Longrightarrow> y < fi_height i \<Longrightarrow> pixel i fb x y = f (pixel i (tm_fb s)) x y"
  using assms unfolding paints_def by blast

lemma paints_on_fb:
  assumes "draws i m f"
  shows "paints i c (on_fb m) c f"
  unfolding paints_def
proof (intro allI impI)
  fix s :: terminal assume "tm_con s = c" "synced i (tm_fb s)"
  moreover from this obtain fb where "m (tm_fb s) = (Ok (), fb)" "drawn i f (tm_fb s) fb"
    using assms by (auto simp: draws_def synced_def)
  ultimately show "\<exists>fb. on_fb m s = (Ok (), s\<lparr>tm_con := c, tm_fb := fb\<rparr>) \<and> synced i fb
     \<and> (\<forall>x<fi_width i. \<forall>y<fi_height i. pixel i fb x y = f (pixel i (tm_fb s)) x y)"
    by (intro exI [of _ fb]) (auto simp: on_fb_def drawn_synced drawn_pixel)
qed

lemma paints_bind:
  assumes "paints i c m c1 f" and "paints i c1 m' c2 f'" and "local_to i f'"
  shows "paints i c (bindR m (\<lambda>_. m')) c2 (f' \<circ> f)"
  unfolding paints_def
proof (intro allI impI)
  fix s :: terminal assume s: "tm_con s = c" "synced i (tm_fb s)"
  obtain g where g: "m s = (Ok (), s\<lparr>tm_con := c1, tm_fb := g\<rparr>)" "synced i g"
    "\<And>x y. x < fi_width i \<Longrightarrow> y < fi_height i \<Longrightarrow> pixel i g x y = f (pixel i (tm_fb s)) x y"
    using paintsE [OF assms(1) s] by blast
  obtain h where h: "m' (s\<lparr>tm_con := c1, tm_fb := g\<rparr>) = (Ok (), s\<lparr>tm_con := c2, tm_fb := h\<rparr>)" "synced i h"
    "\<And>x y. x < fi_width i \<Longrightarrow> y < fi_height i \<Longrightarrow> pixel i h x y = f' (pixel i g) x y"
    using paintsE [OF assms(2), of "s\<lparr>tm_con := c1, tm_fb := g\<rparr>"] s g(2) by auto
  have "pixel i h x y = (f' \<circ> f) (pixel i (tm_fb s)) x y" if "x < fi_width i" "y < fi_height i" for x y
    using h(3) [OF that] local_toD [OF assms(3) g(3) that] by simp
  with g(1) h(1,2) show "\<exists>fb. bindR m (\<lambda>_. m') s = (Ok (), s\<lparr>tm_con := c2, tm_fb := fb\<rparr>) \<and> synced i fb
     \<and> (\<forall>x<fi_width i. \<forall>y<fi_height i. pixel i fb x y = (f' \<circ> f) (pixel i (tm_fb s)) x y)"
    by (auto simp: bindR_def)
qed

lemma paints_upd: "paints i c (upd_con h) (h c) (\<lambda>p. p)"
proof -
  have "s\<lparr>tm_con := x\<rparr> = s\<lparr>tm_con := x, tm_fb := tm_fb s\<rparr>" for s :: terminal and x by simp
  then show ?thesis unfolding paints_def upd_con_def modifyR_apply by metis
qed

lemma paints_return: "paints i c (returnR ()) c (\<lambda>p. p)"
proof -
  have "s = s\<lparr>tm_con := tm_con s, tm_fb := tm_fb s\<rparr>" for s :: terminal by simp
  then show ?thesis unfolding paints_def returnR_apply by metis
qed

lemma paints_cong:
  assumes "paints i c m c' f" and "\<And>p x y. x < fi_width i \<Longrightarrow> y < fi_height i \<Longrightarrow> f p x y = g p x y"
  shows "paints i c m c' g"
  using assms unfolding paints_def by fastforce

lemma paints_get: "paints i c (k (f c)) c' g \<Longrightarrow> paints i c (bindR (get_con f) k) c' g"
  by (simp add: paints_def bindR_def get_con_def)

lemma paints_add: "a + b < u64_limit \<Longrightarrow> paints i c (k (a + b)) c' g \<Longrightarrow> paints i c (bindR (usize_add a b) k) c' g"
  by (simp add: usize_add_def)

lemma paints_upd_bind: "paints i (h c) m c' f \<Longrightarrow> paints i c (bindR (upd_con h) (\<lambda>_. m)) c' f"
  unfolding paints_def
proof (intro allI impI)
  fix s :: terminal
  assume m: "\<forall>s. tm_con s = h c \<longrightarrow> synced i (tm_fb s) \<longrightarrow> (\<exists>fb. m s = (Ok (), s\<lparr>tm_con := c', tm_fb := fb\<rparr>) \<and> synced i fb
       \<and> (\<forall>x<fi_width i. \<forall>y<fi_height i. pixel i fb x y = f (pixel i (tm_fb s)) x y))"
    and s: "tm_con s = c" "synced i (tm_fb s)"
  then show "\<exists>fb. bindR (upd_con h) (\<lambda>_. m) s = (Ok (), s\<lparr>tm_con := c', tm_fb := fb\<rparr>) \<and> synced i fb
       \<and> (\<forall>x<fi_width i. \<forall>y<fi_height i. pixel i fb x y = f (pixel i (tm_fb s)) x y)"
    using m [rule_format, of "s\<lparr>tm_con := h c\<rparr>"] by (simp add: bindR_def upd_con_def)
qed

section \<open>Rendering\<close>

text \<open>The grid fits the screen.\<close>

definition grid_ok :: "info \<Rightarrow> console \<Rightarrow> bool" where
  "grid_ok i c \<longleftrightarrow> screen_ok i \<and> font_ok (con_font c) \<and> con_columns c = fi_width i div 8
     \<and> con_rows c = fi_height i div 16 \<and> con_view_top c + con_rows c \<le> u64_limit"

lemma grid_bounds:
  assumes "grid_ok i c"
  shows "con_columns c \<le> 240" "con_rows c \<le> 67" "con_columns c * 8 \<le> fi_width i" "con_rows c * 16 \<le> fi_height i"
  using assms by (auto simp: grid_ok_def screen_ok_def)

text \<open>The pixel that the cell under a position of the screen asks for.\<close>

definition cell_at :: "info \<Rightarrow> console \<Rightarrow> nat \<Rightarrow> nat \<Rightarrow> u32" where
  "cell_at i c a b = cell_pixel i (con_font c) (get_cell c (con_view_top c + b div 16) (a div 8)) (a mod 8) (b mod 16)"

definition rows_pic :: "info \<Rightarrow> console \<Rightarrow> nat set \<Rightarrow> (nat \<Rightarrow> nat \<Rightarrow> u32) \<Rightarrow> nat \<Rightarrow> nat \<Rightarrow> u32" where
  "rows_pic i c R p a b = (if a div 8 < con_columns c \<and> b div 16 \<in> R then cell_at i c a b else p a b)"

lemma local_rows: "local_to i (rows_pic i c R)"
  by (auto simp: local_to_def rows_pic_def)

lemma cell_row: "row * 16 \<le> b \<and> b < row * 16 + 16 \<longleftrightarrow> b div 16 = (row :: nat)"
  by auto

lemma in_cell: "a div 8 = col \<Longrightarrow> a - col * 8 = a mod (8 :: nat)" "b div 16 = row \<Longrightarrow> b - row * 16 = b mod (16 :: nat)"
  by (metis minus_div_mult_eq_mod)+

lemma paints_render_cell:
  assumes g: "grid_ok i c" and "row < con_rows c" and "col < con_columns c"
  shows "paints i c (render_cell row col) c (\<lambda>p a b. if a div 8 = col \<and> b div 16 = row then cell_at i c a b else p a b)"
proof -
  have "paints i c (render_cell row col) c
      (cell_pic i (con_font c) (get_cell c (con_view_top c + row) col) (col * 8) (row * 16))"
    unfolding render_cell_def
    using assms grid_bounds [OF g]
    by (intro paints_get) (auto simp: grid_ok_def intro!: paints_add paints_on_fb draws_paint_cell)
  then show ?thesis
    by (rule paints_cong)
       (use cell_column cell_row in \<open>auto simp: cell_pic_def cell_at_def in_cell\<close>)
qed

lemma paints_render_row:
  assumes g: "grid_ok i c" and "row < con_rows c"
  shows "paints i c (render_row row) c (rows_pic i c {row})"
proof -
  note g' = g [unfolded grid_ok_def] grid_bounds [OF g]
  have "draws i (render_columns c (con_view_top c + row) (row * 16) [0..<con_columns c]) (\<lambda>p a b.
      if a div 8 \<in> set [0..<con_columns c] \<and> row * 16 \<le> b \<and> b < row * 16 + 16
      then cell_pixel i (con_font c) (get_cell c (con_view_top c + row) (a div 8)) (a mod 8) (b - row * 16) else p a b)"
    by (rule draws_columns) (use g' assms(2) in auto)
  then have "paints i c (on_fb (render_columns c (con_view_top c + row) (row * 16) [0..<con_columns c])) c (\<lambda>p a b.
      if a div 8 \<in> set [0..<con_columns c] \<and> row * 16 \<le> b \<and> b < row * 16 + 16
      then cell_pixel i (con_font c) (get_cell c (con_view_top c + row) (a div 8)) (a mod 8) (b - row * 16) else p a b)"
    by (rule paints_on_fb)
  then have "paints i c (render_row row) c (\<lambda>p a b. if a div 8 \<in> set [0..<con_columns c] \<and> row * 16 \<le> b \<and> b < row * 16 + 16
      then cell_pixel i (con_font c) (get_cell c (con_view_top c + row) (a div 8)) (a mod 8) (b - row * 16) else p a b)"
    unfolding render_row_def using g' assms(2) by (intro paints_get) (auto intro!: paints_add)
  then show ?thesis
    by (rule paints_cong) (use cell_row in \<open>auto simp: rows_pic_def cell_at_def in_cell\<close>)
qed

lemma paints_render_rows:
  assumes g: "grid_ok i c" and "set rows \<subseteq> {..<con_rows c}"
  shows "paints i c (render_rows rows) c (rows_pic i c (set rows))"
  using assms(2)
proof (induction rows)
  case Nil
  show ?case unfolding render_rows.simps by (rule paints_cong [OF paints_return]) (simp add: rows_pic_def)
next
  case (Cons row rows)
  then have "paints i c (render_rows (row # rows)) c (rows_pic i c (set rows) \<circ> rows_pic i c {row})"
    unfolding render_rows.simps by (intro paints_bind [OF paints_render_row [OF g] _ local_rows]) auto
  then show ?case by (rule paints_cong) (auto simp: rows_pic_def)
qed

lemma paints_render: "grid_ok i c \<Longrightarrow> paints i c render c (rows_pic i c {..<con_rows c})"
  unfolding render_def using paints_render_rows [of i c "[0..<con_rows c]"]
  by (intro paints_get) (simp add: atLeast0LessThan)

section \<open>Keeping the screen in step\<close>

definition matches :: "info \<Rightarrow> console \<Rightarrow> (nat \<Rightarrow> nat \<Rightarrow> u32) \<Rightarrow> bool" where
  "matches i c p \<longleftrightarrow> (\<forall>a b. a div 8 < con_columns c \<longrightarrow> b div 16 < con_rows c \<longrightarrow> p a b = cell_at i c a b)"

lemma matchesD: "matches i c p \<Longrightarrow> a div 8 < con_columns c \<Longrightarrow> b div 16 < con_rows c \<Longrightarrow> p a b = cell_at i c a b"
  by (simp add: matches_def)

text \<open>The program takes the console from \<open>c\<close> to \<open>c'\<close>, and the screen with it.\<close>

definition tracks :: "info \<Rightarrow> console \<Rightarrow> unit tp \<Rightarrow> console \<Rightarrow> bool" where
  "tracks i c m c' \<longleftrightarrow> (\<forall>s. tm_con s = c \<longrightarrow> synced i (tm_fb s) \<longrightarrow> matches i c (pixel i (tm_fb s)) \<longrightarrow>
     (\<exists>fb. m s = (Ok (), s\<lparr>tm_con := c', tm_fb := fb\<rparr>) \<and> synced i fb \<and> matches i c' (pixel i fb)))"

lemma tracks_bind: "tracks i c m c1 \<Longrightarrow> tracks i c1 m' c2 \<Longrightarrow> tracks i c (bindR m (\<lambda>_. m')) c2"
  unfolding tracks_def
proof (intro allI impI)
  fix s :: terminal
  assume m: "\<forall>s. tm_con s = c \<longrightarrow> synced i (tm_fb s) \<longrightarrow> matches i c (pixel i (tm_fb s)) \<longrightarrow>
     (\<exists>fb. m s = (Ok (), s\<lparr>tm_con := c1, tm_fb := fb\<rparr>) \<and> synced i fb \<and> matches i c1 (pixel i fb))"
    and m': "\<forall>s. tm_con s = c1 \<longrightarrow> synced i (tm_fb s) \<longrightarrow> matches i c1 (pixel i (tm_fb s)) \<longrightarrow>
     (\<exists>fb. m' s = (Ok (), s\<lparr>tm_con := c2, tm_fb := fb\<rparr>) \<and> synced i fb \<and> matches i c2 (pixel i fb))"
    and s: "tm_con s = c" "synced i (tm_fb s)" "matches i c (pixel i (tm_fb s))"
  obtain fb where fb: "m s = (Ok (), s\<lparr>tm_con := c1, tm_fb := fb\<rparr>)" "synced i fb" "matches i c1 (pixel i fb)"
    using m s by blast
  then show "\<exists>fb. bindR m (\<lambda>_. m') s = (Ok (), s\<lparr>tm_con := c2, tm_fb := fb\<rparr>) \<and> synced i fb \<and> matches i c2 (pixel i fb)"
    using m' [rule_format, of "s\<lparr>tm_con := c1, tm_fb := fb\<rparr>"] by (auto simp: bindR_def)
qed

lemma tracks_get: "tracks i c (k (f c)) c' \<Longrightarrow> tracks i c (bindR (get_con f) k) c'"
  by (simp add: tracks_def bindR_def get_con_def)

lemma tracks_if:
  "(b \<Longrightarrow> tracks i c m x) \<Longrightarrow> (\<not> b \<Longrightarrow> tracks i c m' x') \<Longrightarrow> tracks i c (if b then m else m') (if b then x else x')"
  by simp

lemma tracks_return: "tracks i c (returnR ()) c"
proof -
  have "s = s\<lparr>tm_con := tm_con s, tm_fb := tm_fb s\<rparr>" for s :: terminal by simp
  then show ?thesis unfolding tracks_def returnR_apply by metis
qed

lemma tracks_paints:
  assumes "paints i c m c' f" and "grid_ok i c'"
    and "\<And>p. matches i c p \<Longrightarrow> matches i c' (f p)"
  shows "tracks i c m c'"
  unfolding tracks_def
proof (intro allI impI)
  fix s :: terminal
  assume s: "tm_con s = c" "synced i (tm_fb s)" "matches i c (pixel i (tm_fb s))"
  obtain fb where fb: "m s = (Ok (), s\<lparr>tm_con := c', tm_fb := fb\<rparr>)" "synced i fb"
    "\<And>x y. x < fi_width i \<Longrightarrow> y < fi_height i \<Longrightarrow> pixel i fb x y = f (pixel i (tm_fb s)) x y"
    using paintsE [OF assms(1) s(1,2)] by blast
  have "pixel i fb a b = cell_at i c' a b" if "a div 8 < con_columns c'" "b div 16 < con_rows c'" for a b
  proof -
    have "a < fi_width i" "b < fi_height i" using that grid_bounds(3,4) [OF assms(2)] by linarith+
    then show ?thesis using fb(3) matchesD [OF assms(3) [OF s(3)] that] by simp
  qed
  with fb(1,2) show "\<exists>fb. m s = (Ok (), s\<lparr>tm_con := c', tm_fb := fb\<rparr>) \<and> synced i fb \<and> matches i c' (pixel i fb)"
    by (auto simp: matches_def)
qed

text \<open>Changes that do not concern what is visible.\<close>

definition same_view :: "console \<Rightarrow> console \<Rightarrow> bool" where
  "same_view c c' \<longleftrightarrow> con_font c' = con_font c \<and> con_cells c' = con_cells c \<and> con_view_top c' = con_view_top c
     \<and> con_columns c' = con_columns c \<and> con_rows c' = con_rows c"

lemma same_view_matches: "same_view c c' \<Longrightarrow> matches i c' p = matches i c p"
  by (simp add: same_view_def matches_def cell_at_def get_cell_def)

lemma same_view_grid: "same_view c c' \<Longrightarrow> grid_ok i c' = grid_ok i c"
  by (simp add: same_view_def grid_ok_def)

lemma tracks_upd: "grid_ok i c \<Longrightarrow> same_view c (h c) \<Longrightarrow> tracks i c (upd_con h) (h c)"
  by (rule tracks_paints [OF paints_upd]) (simp_all add: same_view_grid same_view_matches)

subsection \<open>Following the output\<close>

definition follow_c :: "console \<Rightarrow> console" where
  "follow_c c = c\<lparr>con_view_top := live_view_top c\<rparr>"

definition view_ok :: "info \<Rightarrow> console \<Rightarrow> bool" where
  "view_ok i c \<longleftrightarrow> grid_ok i c \<and> con_cursor_line c < u64_limit \<and> con_view_top c \<le> live_view_top c"

lemma view_grid: "view_ok i c \<Longrightarrow> grid_ok i c"
  by (simp add: view_ok_def)

lemma live_bound: "grid_ok i c \<Longrightarrow> con_cursor_line c < u64_limit \<Longrightarrow> live_view_top c + con_rows c \<le> u64_limit"
  using grid_bounds(2) [of i c] by (auto simp: live_view_top_def)

lemma live_update [simp]:
  "live_view_top (c\<lparr>con_view_top := v\<rparr>) = live_view_top c" "live_view_top (c\<lparr>con_cursor_x := x\<rparr>) = live_view_top c"
  "live_view_top (c\<lparr>con_cells := cs\<rparr>) = live_view_top c"
  by (simp_all add: live_view_top_def)

lemma grid_follow: "grid_ok i c \<Longrightarrow> con_cursor_line c < u64_limit \<Longrightarrow> grid_ok i (follow_c c)"
  using live_bound [of i c] by (simp add: grid_ok_def follow_c_def)

lemma matches_rows: "matches i c (rows_pic i c {..<con_rows c} p)"
  by (simp add: matches_def rows_pic_def)

lemma tracks_follow:
  assumes "view_ok i c"
  shows "tracks i c follow_bottom (follow_c c)"
proof (cases "is_scrolled c")
  case False
  then have "follow_c c = c" by (simp add: follow_c_def is_scrolled_def)
  then show ?thesis using False unfolding follow_bottom_def by (intro tracks_get) (simp add: tracks_return)
next
  case True
  have g: "grid_ok i (follow_c c)" using assms by (intro grid_follow) (auto simp: view_ok_def)
  have "paints i c follow_bottom (follow_c c) (rows_pic i (follow_c c) {..<con_rows (follow_c c)})"
    unfolding follow_bottom_def
    by (intro paints_get) (use True in \<open>auto intro!: paints_upd_bind paints_render g simp: follow_c_def [symmetric]\<close>)
  then show ?thesis by (rule tracks_paints [OF _ g]) (rule matches_rows)
qed

subsection \<open>Moving the picture\<close>

text \<open>Pixels moved by whole rows show the cells of the lines that come into their place.\<close>

lemma matches_up:
  assumes "grid_ok i c" and "matches i c p" and "a div 8 < con_columns c" and "b div 16 + n < con_rows c"
  shows "up_pic i (n * 16) v p a b
    = cell_pixel i (con_font c) (get_cell c (con_view_top c + n + b div 16) (a div 8)) (a mod 8) (b mod 16)"
proof -
  have "(b + n * 16) div 16 = b div 16 + n" "(b + n * 16) mod 16 = b mod 16" by simp_all
  moreover from this have "b + n * 16 < fi_height i" using assms(4) grid_bounds(4) [OF assms(1)] by linarith
  ultimately show ?thesis
    using matchesD [OF assms(2,3), of "b + n * 16"] assms(4) by (simp add: up_pic_def cell_at_def ac_simps)
qed

lemma matches_down:
  assumes "matches i c p" and "a div 8 < con_columns c" and "b div 16 < con_rows c" and "n \<le> b div 16"
  shows "down_pic i (n * 16) v p a b
    = cell_pixel i (con_font c) (get_cell c (con_view_top c + (b div 16 - n)) (a div 8)) (a mod 8) (b mod 16)"
proof -
  have "n * 16 \<le> b" using assms(4) by linarith
  then obtain k where k: "b = k + n * 16" by (metis le_add_diff_inverse2)
  then have "b div 16 = k div 16 + n" "b mod 16 = k mod 16" by simp_all
  then show ?thesis
    using matchesD [OF assms(1,2), of k] assms(3) by (simp add: k down_pic_def cell_at_def)
qed

subsection \<open>The ring of lines\<close>

lemma cell_index_eq:
  assumes "col < 240" and "col' < 240"
  shows "cell_index l col = cell_index l' col' \<longleftrightarrow> l mod 402 = l' mod 402 \<and> col = col'"
proof
  assume e: "cell_index l col = cell_index l' col'"
  have "cell_index l col div 240 = l mod 402" "cell_index l' col' div 240 = l' mod 402"
    "cell_index l col mod 240 = col" "cell_index l' col' mod 240 = col'"
    using assms by (simp_all add: cell_index_def div_mult_self3)
  with e show "l mod 402 = l' mod 402 \<and> col = col'" by simp
qed (simp add: cell_index_def)

lemma cell_index_bound: "col < 240 \<Longrightarrow> cell_index l col < 240 * 402"
  using mod_less_divisor [of 402 l] unfolding cell_index_def by linarith

lemma get_cell_set:
  "col < 240 \<Longrightarrow> col' < 240 \<Longrightarrow> get_cell (set_cell l col ce c) l' col'
     = (if l mod 402 = l' mod 402 \<and> col = col' then ce else get_cell c l' col')"
  using cell_index_eq [of col' col l' l] by (auto simp: get_cell_def set_cell_def)

lemma get_cell_clear:
  assumes "col < 240"
  shows "get_cell (clear_line l c) l' col = (if l mod 402 = l' mod 402 then EMPTY else get_cell c l' col)"
proof -
  have "cell_index l 0 \<le> cell_index l' col \<and> cell_index l' col < cell_index l 0 + 240 \<longleftrightarrow> l mod 402 = l' mod 402"
    using assms unfolding cell_index_def by linarith
  then show ?thesis by (simp add: get_cell_def clear_line_def)
qed

text \<open>Two lines of a window of the size of the ring are different in the ring.\<close>

lemma ring_distinct: "l < k \<Longrightarrow> k < l + 402 \<Longrightarrow> k mod 402 \<noteq> l mod (402 :: nat)"
  by (metis add_diff_inverse_nat dvd_imp_le less_diff_conv2 linorder_not_less mod_eq_dvd_iff_nat nat_less_le
      zero_less_diff add.commute order_less_imp_le)

subsection \<open>A new line\<close>

definition newline_c :: "console \<Rightarrow> console" where
  "newline_c c =
     (let c0 = c\<lparr>con_cursor_x := 0\<rparr>; next_line = con_cursor_line c + 1 in
      if con_rows c = 0 then c0
      else if next_line < con_rows c then c0\<lparr>con_cursor_line := next_line\<rparr>
      else clear_line next_line (follow_c (c0\<lparr>con_cursor_line := next_line\<rparr>)))"

lemma clear_line_fields [simp]:
  "con_font (clear_line l c) = con_font c" "con_columns (clear_line l c) = con_columns c" "con_rows (clear_line l c) = con_rows c"
  "con_view_top (clear_line l c) = con_view_top c" "con_cursor_line (clear_line l c) = con_cursor_line c"
  "con_cursor_x (clear_line l c) = con_cursor_x c" "con_bg (clear_line l c) = con_bg c" "con_fg (clear_line l c) = con_fg c"
  "con_input (clear_line l c) = con_input c" "con_input_len (clear_line l c) = con_input_len c"
  "con_line_ready (clear_line l c) = con_line_ready c" "live_view_top (clear_line l c) = live_view_top c"
  by (simp_all add: clear_line_def live_view_top_def)

lemma set_cell_fields [simp]:
  "con_font (set_cell l k e c) = con_font c" "con_columns (set_cell l k e c) = con_columns c" "con_rows (set_cell l k e c) = con_rows c"
  "con_view_top (set_cell l k e c) = con_view_top c" "con_cursor_line (set_cell l k e c) = con_cursor_line c"
  "con_cursor_x (set_cell l k e c) = con_cursor_x c" "con_bg (set_cell l k e c) = con_bg c" "con_fg (set_cell l k e c) = con_fg c"
  "con_input (set_cell l k e c) = con_input c" "con_input_len (set_cell l k e c) = con_input_len c"
  "con_line_ready (set_cell l k e c) = con_line_ready c" "live_view_top (set_cell l k e c) = live_view_top c"
  by (simp_all add: set_cell_def live_view_top_def)

lemma grid_clear_line [simp]: "grid_ok i (clear_line l c) = grid_ok i c"
  by (simp add: grid_ok_def)

lemma grid_set_cell [simp]: "grid_ok i (set_cell l k e c) = grid_ok i c"
  by (simp add: grid_ok_def)

text \<open>The part of \<open>newline\<close> that scrolls.\<close>

lemma matches_newline:
  assumes g: "grid_ok i c" and m: "matches i c p"
    and c': "c' = clear_line (con_view_top c + con_rows c) d" "con_view_top d = con_view_top c + 1"
      "con_cells d = con_cells c" "con_columns d = con_columns c" "con_rows d = con_rows c" "con_font d = con_font c"
  shows "matches i c' (rows_pic i c' {con_rows c - 1} (up_pic i 16 v p))"
  unfolding matches_def
proof (intro allI impI)
  fix a b assume "a div 8 < con_columns c'" "b div 16 < con_rows c'"
  then have ab: "a div 8 < con_columns c" "b div 16 < con_rows c" by (simp_all add: c')
  note gb = grid_bounds [OF g]
  show "rows_pic i c' {con_rows c - 1} (up_pic i 16 v p) a b = cell_at i c' a b"
  proof (cases "b div 16 = con_rows c - 1")
    case True
    then show ?thesis using ab by (simp add: rows_pic_def c')
  next
    case False
    with ab have lt: "b div 16 + 1 < con_rows c" by simp
    then have "(con_view_top c + con_rows c) mod 402 \<noteq> (con_view_top c + 1 + b div 16) mod 402"
      using gb(2) by (intro ring_distinct) auto
    then have "get_cell c' (con_view_top c + 1 + b div 16) (a div 8) = get_cell c (con_view_top c + 1 + b div 16) (a div 8)"
      using ab gb(1) by (simp add: c'(1) get_cell_clear) (simp add: get_cell_def c')
    then show ?thesis
      using matches_up [OF g m ab(1) lt] False by (simp add: rows_pic_def cell_at_def c')
  qed
qed

lemma tracks_newline:
  assumes v: "view_ok i c" and bot: "con_view_top c = live_view_top c" and lim: "con_cursor_line c + 1 < u64_limit"
  shows "tracks i c newline (newline_c c)"
proof -
  note g = view_grid [OF v]
  let ?c0 = "c\<lparr>con_cursor_x := 0\<rparr>" and ?n = "con_cursor_line c + 1"
  have g0: "grid_ok i ?c0" using g by (simp add: grid_ok_def)
  consider "con_rows c = 0" | "0 < con_rows c" "?n < con_rows c" | "0 < con_rows c" "con_rows c \<le> ?n" by linarith
  then show ?thesis
  proof cases
    case 1
    then have "paints i c newline (newline_c c) (\<lambda>p. p)"
      unfolding newline_def by (intro paints_upd_bind paints_get) (simp add: paints_return newline_c_def Let_def)
    then show ?thesis
      by (rule tracks_paints) (use 1 g0 in \<open>simp_all add: newline_c_def matches_def\<close>)
  next
    case 2
    have "paints i ?c0 (upd_con (\<lambda>c. c\<lparr>con_cursor_line := ?n\<rparr>)) (?c0\<lparr>con_cursor_line := ?n\<rparr>) (\<lambda>p. p)"
      by (rule paints_upd)
    then have "paints i c newline (newline_c c) (\<lambda>p. p)"
      unfolding newline_def using 2 lim
      by (intro paints_upd_bind paints_get) (auto simp: newline_c_def Let_def intro!: paints_add)
    then show ?thesis
      by (rule tracks_paints) (use 2 g0 in \<open>simp_all add: newline_c_def grid_ok_def matches_def cell_at_def get_cell_def\<close>)
  next
    case 3
    let ?d = "follow_c (?c0\<lparr>con_cursor_line := ?n\<rparr>)"
    have nc: "newline_c c = clear_line ?n ?d" using 3 by (simp add: newline_c_def)
    have gn: "grid_ok i (newline_c c)"
      unfolding nc grid_clear_line using g lim by (intro grid_follow) (simp_all add: grid_ok_def)
    have vt: "con_view_top c + con_rows c = ?n" "con_view_top ?d = con_view_top c + 1"
      using 3 bot by (auto simp: follow_c_def live_view_top_def)
    let ?up = "up_pic i 16 (color_word i (con_bg c))"
    have up: "paints i ?c0 (on_fb (Fb.scroll_up 16 (con_bg c))) ?c0 ?up"
      using paints_on_fb [OF draws_scroll_up [of i 16 "con_bg c"]] g by (simp add: grid_ok_def)
    have "paints i ?c0 (bindR (upd_con (\<lambda>c. c\<lparr>con_cursor_line := ?n\<rparr>)) (\<lambda>_.
         bindR (upd_con (\<lambda>c. c\<lparr>con_view_top := live_view_top c\<rparr>)) (\<lambda>_.
         bindR (upd_con (clear_line ?n)) (\<lambda>_. render_row (con_rows c - 1))))) (newline_c c)
         (rows_pic i (newline_c c) {con_rows c - 1})"
      using paints_render_row [OF gn, of "con_rows c - 1"] 3 by (intro paints_upd_bind) (simp add: nc follow_c_def)
    then have "paints i c newline (newline_c c) (rows_pic i (newline_c c) {con_rows c - 1} \<circ> ?up)"
      unfolding newline_def using paints_bind [OF up _ local_rows] 3 lim
      by (intro paints_upd_bind paints_get) (auto intro!: paints_add)
    then show ?thesis
    proof (rule tracks_paints [OF _ gn])
      fix p assume p: "matches i c p"
      have "newline_c c = clear_line (con_view_top c + con_rows c) ?d" unfolding vt(1) nc ..
      then show "matches i (newline_c c) ((rows_pic i (newline_c c) {con_rows c - 1} \<circ> ?up) p)"
        unfolding comp_def using vt(2) by (rule matches_newline [OF g p]) (simp_all add: follow_c_def)
    qed
  qed
qed

subsection \<open>Cells\<close>

lemma get_cell_x [simp]: "get_cell (c\<lparr>con_cursor_x := x\<rparr>) = get_cell c"
  by (simp add: fun_eq_iff get_cell_def)

lemma tracks_set_cell:
  assumes g: "grid_ok i c" and "col < 240" and "con_view_top c \<le> line"
    and "line < con_view_top c + con_rows c \<or> con_rows c = 0" and "col < con_columns c \<or> con_columns c = 0"
  shows "tracks i c (bindR (upd_con (set_cell line col ce)) (\<lambda>_. render_cell (line - con_view_top c) col)) (set_cell line col ce c)"
proof (cases "con_rows c = 0 \<or> con_columns c = 0")
  case True
  then have "paints i (set_cell line col ce c) (render_cell (line - con_view_top c) col) (set_cell line col ce c) (\<lambda>p. p)"
    unfolding render_cell_def by (intro paints_get) (auto simp: paints_return)
  then show ?thesis
    by (rule tracks_paints [OF paints_upd_bind]) (use g True in \<open>auto simp: matches_def\<close>)
next
  case False
  let ?c = "set_cell line col ce c" and ?row = "line - con_view_top c"
  have r: "?row < con_rows c" "col < con_columns c" using False assms(3-5) by auto
  have "paints i ?c (render_cell ?row col) ?c (\<lambda>p a b. if a div 8 = col \<and> b div 16 = ?row then cell_at i ?c a b else p a b)"
    using r g by (intro paints_render_cell) simp_all
  then show ?thesis
  proof (rule tracks_paints [OF paints_upd_bind])
    fix p assume p: "matches i c p"
    have "p a b = cell_at i ?c a b" if ab: "a div 8 < con_columns c" "b div 16 < con_rows c" "\<not> (a div 8 = col \<and> b div 16 = ?row)" for a b
    proof -
      have "line mod 402 \<noteq> (con_view_top c + b div 16) mod 402" if "b div 16 \<noteq> ?row"
        using that r ab(2) assms(3) grid_bounds(2) [OF g] ring_distinct [of line "con_view_top c + b div 16"]
          ring_distinct [of "con_view_top c + b div 16" line] by linarith
      then have "get_cell ?c (con_view_top c + b div 16) (a div 8) = get_cell c (con_view_top c + b div 16) (a div 8)"
        using ab assms(2) grid_bounds(1) [OF g] by (subst get_cell_set) auto
      then show ?thesis using matchesD [OF p ab(1,2)] by (simp add: cell_at_def)
    qed
    then show "matches i ?c (\<lambda>a b. if a div 8 = col \<and> b div 16 = ?row then cell_at i ?c a b else p a b)"
      by (simp add: matches_def)
  qed (use g in simp)
qed

text \<open>The invariant of the cursor.\<close>

definition con_ok :: "info \<Rightarrow> console \<Rightarrow> bool" where
  "con_ok i c \<longleftrightarrow> view_ok i c \<and> (con_cursor_x c < con_columns c \<or> con_cursor_x c = 0)"

lemma con_okD:
  assumes "con_ok i c"
  shows "grid_ok i c" "view_ok i c" "con_cursor_line c < u64_limit" "con_view_top c \<le> live_view_top c" "con_cursor_x c < 240"
    "con_cursor_x c < con_columns c \<or> con_cursor_x c = 0"
  using assms grid_bounds(1) [of i c] by (auto simp: con_ok_def view_ok_def)

definition write_c :: "u8 \<Rightarrow> console \<Rightarrow> console" where
  "write_c ch c =
     (if con_columns c = 0 \<or> con_rows c = 0 then c
      else
        let c1 = (set_cell (con_cursor_line c) (con_cursor_x c) \<lparr>ce_char = ch, ce_fg = con_fg c, ce_bg = con_bg c\<rparr> c)
                   \<lparr>con_cursor_x := con_cursor_x c + 1\<rparr> in
        if con_cursor_x c1 \<ge> con_columns c then newline_c c1 else c1)"

lemma bottom_row:
  assumes "con_view_top c = live_view_top c"
  shows "con_view_top c \<le> con_cursor_line c" "con_cursor_line c < con_view_top c + con_rows c \<or> con_rows c = 0"
  using assms by (auto simp: live_view_top_def)

lemma tracks_write_cell:
  assumes ok: "con_ok i c" and bot: "con_view_top c = live_view_top c" and lim: "con_cursor_line c + 1 < u64_limit"
  shows "tracks i c (write_cell ch) (write_c ch c)"
proof (cases "con_columns c = 0 \<or> con_rows c = 0")
  case True
  then show ?thesis
    unfolding write_cell_def by (intro tracks_get) (auto simp: tracks_return write_c_def)
next
  case False
  note o = con_okD [OF ok]
  let ?ce = "\<lparr>ce_char = ch, ce_fg = con_fg c, ce_bg = con_bg c\<rparr>"
  let ?s = "set_cell (con_cursor_line c) (con_cursor_x c) ?ce c"
  let ?c = "?s\<lparr>con_cursor_x := con_cursor_x c + 1\<rparr>"
  have x: "con_cursor_x c < con_columns c" using False o(6) by auto
  have v: "view_ok i ?c" using o(2) by (simp add: view_ok_def grid_ok_def)
  have set: "tracks i c (bindR (upd_con (set_cell (con_cursor_line c) (con_cursor_x c) ?ce)) (\<lambda>_.
      render_cell (con_cursor_line c - con_view_top c) (con_cursor_x c))) ?s"
    using o x bottom_row [OF bot] by (intro tracks_set_cell) auto
  have upd: "tracks i ?s (upd_con (\<lambda>c. c\<lparr>con_cursor_x := con_cursor_x c + 1\<rparr>)) ?c"
    using tracks_upd [of i ?s "\<lambda>c. c\<lparr>con_cursor_x := con_cursor_x c + 1\<rparr>"] o(1) by (simp add: same_view_def)
  have fin: "tracks i ?c (bindR (get_con id) (\<lambda>c. if con_cursor_x c \<ge> con_columns c then newline else returnR ())) (write_c ch c)"
  proof (cases "con_columns c \<le> con_cursor_x c + 1")
    case True
    then have "write_c ch c = newline_c ?c" using False by (simp add: write_c_def Let_def)
    then show ?thesis
      using tracks_newline [OF v] bot lim True by (intro tracks_get) simp
  next
    case wide: False
    then have "write_c ch c = ?c" using False by (simp add: write_c_def Let_def)
    then show ?thesis using wide by (intro tracks_get) (simp add: tracks_return)
  qed
  have rest: "tracks i c (bindR (upd_con (set_cell (con_cursor_line c) (con_cursor_x c) ?ce)) (\<lambda>_.
      bindR (render_cell (con_cursor_line c - con_view_top c) (con_cursor_x c)) (\<lambda>_.
      bindR (upd_con (\<lambda>c. c\<lparr>con_cursor_x := con_cursor_x c + 1\<rparr>)) (\<lambda>_.
      bindR (get_con id) (\<lambda>c. if con_cursor_x c \<ge> con_columns c then newline else returnR ()))))) (write_c ch c)"
    using tracks_bind [OF set tracks_bind [OF upd fin]] by (simp only: bindR_assoc)
  have "\<not> con_columns c \<le> con_cursor_x c" using x by simp
  with rest False show ?thesis
    unfolding write_cell_def by (intro tracks_get) (simp add: Let_def tracks_get del: One_nat_def add_Suc_right)
qed

definition step_back :: "console \<Rightarrow> console" where
  "step_back c =
     (if con_cursor_x c = 0
      then (follow_c (c\<lparr>con_cursor_line := con_cursor_line c - 1\<rparr>))\<lparr>con_cursor_x := con_columns c - 1\<rparr>
      else c\<lparr>con_cursor_x := con_cursor_x c - 1\<rparr>)"

definition erase_c :: "console \<Rightarrow> console" where
  "erase_c c = set_cell (con_cursor_line c) (con_cursor_x c) EMPTY c"

definition back_c :: "console \<Rightarrow> console" where
  "back_c c = (if con_cursor_x c = 0 \<and> con_cursor_line c = 0 then c else erase_c (step_back c))"

lemma paints_step_back:
  "paints i c (if con_cursor_x c = 0 then
                bindR (upd_con (\<lambda>c. c\<lparr>con_cursor_line := con_cursor_line c - 1\<rparr>)) (\<lambda>_.
                bindR (upd_con (\<lambda>c. c\<lparr>con_view_top := live_view_top c\<rparr>)) (\<lambda>_.
                upd_con (\<lambda>c. c\<lparr>con_cursor_x := con_columns c - 1\<rparr>)))
              else upd_con (\<lambda>c. c\<lparr>con_cursor_x := con_cursor_x c - 1\<rparr>)) (step_back c) (\<lambda>p. p)"
  using paints_upd [of i "follow_c (c\<lparr>con_cursor_line := con_cursor_line c - 1\<rparr>)" "\<lambda>c. c\<lparr>con_cursor_x := con_columns c - 1\<rparr>"]
    paints_upd [of i c "\<lambda>c. c\<lparr>con_cursor_x := con_cursor_x c - 1\<rparr>"]
  by (auto simp: step_back_def follow_c_def intro!: paints_upd_bind)

text \<open>The case that \<open>backspace\<close> does not redraw: it goes back over the start of a line of a scrolled
  screen.\<close>

definition wraps_back :: "console \<Rightarrow> bool" where
  "wraps_back c \<longleftrightarrow> con_cursor_x c = 0 \<and> con_rows c \<le> con_cursor_line c \<and> con_cursor_line c \<noteq> 0"

lemma tracks_backspace:
  assumes ok: "con_ok i c" and bot: "con_view_top c = live_view_top c" and nw: "\<not> wraps_back c"
  shows "tracks i c backspace (back_c c)"
proof (cases "con_cursor_x c = 0 \<and> con_cursor_line c = 0")
  case True
  then show ?thesis unfolding backspace_def by (intro tracks_get) (simp add: tracks_return back_c_def)
next
  case False
  note o = con_okD [OF ok]
  let ?m = "if con_cursor_x c = 0 then
                bindR (upd_con (\<lambda>c. c\<lparr>con_cursor_line := con_cursor_line c - 1\<rparr>)) (\<lambda>_.
                bindR (upd_con (\<lambda>c. c\<lparr>con_view_top := live_view_top c\<rparr>)) (\<lambda>_.
                upd_con (\<lambda>c. c\<lparr>con_cursor_x := con_columns c - 1\<rparr>)))
              else upd_con (\<lambda>c. c\<lparr>con_cursor_x := con_cursor_x c - 1\<rparr>)"
  define c1 where "c1 = step_back c"
  have sv: "same_view c c1"
    using nw bot False by (auto simp: c1_def step_back_def same_view_def wraps_back_def live_view_top_def follow_c_def)
  have b1: "con_view_top c1 = live_view_top c1"
    using bot by (simp add: c1_def step_back_def follow_c_def)
  have c1: "con_rows c1 = con_rows c" "con_columns c1 = con_columns c" "con_cursor_x c1 < 240"
    "con_cursor_x c1 < con_columns c \<or> con_columns c = 0"
    using o(5,6) grid_bounds(1) [OF o(1)] by (auto simp: c1_def step_back_def follow_c_def)
  have "paints i c ?m c1 (\<lambda>p. p)" unfolding c1_def by (rule paints_step_back)
  then have m: "tracks i c ?m c1"
    by (rule tracks_paints) (use sv o(1) in \<open>simp_all add: same_view_grid same_view_matches\<close>)
  have "tracks i c1 (bindR (upd_con (set_cell (con_cursor_line c1) (con_cursor_x c1) EMPTY)) (\<lambda>_.
      render_cell (con_cursor_line c1 - con_view_top c1) (con_cursor_x c1))) (erase_c c1)"
    unfolding erase_c_def
    by (rule tracks_set_cell) (use bottom_row [OF b1] o(1) sv c1 in \<open>auto simp: same_view_grid\<close>)
  then have "tracks i c1 (bindR (upd_con (\<lambda>c. set_cell (con_cursor_line c) (con_cursor_x c) EMPTY c)) (\<lambda>_.
       bindR (get_con id) (\<lambda>c. render_cell (cursor_row c) (con_cursor_x c)))) (erase_c c1)"
    unfolding tracks_def by (auto simp: bindR_def upd_con_def get_con_def cursor_row_def)
  from tracks_bind [OF m this] False show ?thesis
    unfolding backspace_def back_c_def c1_def [symmetric] by (intro tracks_get) auto
qed

subsection \<open>Characters\<close>

definition put_c :: "u8 \<Rightarrow> console \<Rightarrow> console" where
  "put_c ch c0 =
     (let c = follow_c c0; next_tab = (con_cursor_x c div 4 + 1) * 4 in
      if ch = 0x0A then newline_c c
      else if ch = 0x0D then c\<lparr>con_cursor_x := 0\<rparr>
      else if ch = 0x09 then (if next_tab \<ge> con_columns c then newline_c c else c\<lparr>con_cursor_x := next_tab\<rparr>)
      else if ch = 8 then back_c c
      else if 0x20 \<le> ch \<and> ch \<le> 0x7E then write_c ch c
      else c)"

lemma follow_fields [simp]:
  "con_font (follow_c c) = con_font c" "con_columns (follow_c c) = con_columns c" "con_rows (follow_c c) = con_rows c"
  "con_cursor_x (follow_c c) = con_cursor_x c" "con_cursor_line (follow_c c) = con_cursor_line c"
  "con_cells (follow_c c) = con_cells c" "con_view_top (follow_c c) = live_view_top c" "live_view_top (follow_c c) = live_view_top c"
  "con_fg (follow_c c) = con_fg c" "con_bg (follow_c c) = con_bg c" "con_input (follow_c c) = con_input c"
  "con_input_len (follow_c c) = con_input_len c" "con_line_ready (follow_c c) = con_line_ready c"
  by (simp_all add: follow_c_def)

lemma con_ok_follow: "con_ok i c \<Longrightarrow> con_ok i (follow_c c)"
  by (simp add: con_ok_def view_ok_def grid_follow)

lemma tracks_put_char:
  assumes ok: "con_ok i c" and lim: "con_cursor_line c + 1 < u64_limit" and nw: "ch = 8 \<Longrightarrow> \<not> wraps_back c"
  shows "tracks i c (put_char ch) (put_c ch c)"
proof -
  let ?f = "follow_c c"
  let ?tab = "(con_cursor_x ?f div 4 + 1) * 4"
  note f = con_ok_follow [OF ok]
  note o = con_okD [OF f]
  have bot: "con_view_top ?f = live_view_top ?f" by simp
  have nl: "tracks i ?f newline (newline_c ?f)" using tracks_newline [OF o(2) bot] lim by simp
  have x: "tracks i ?f (upd_con (\<lambda>c. c\<lparr>con_cursor_x := k\<rparr>)) (?f\<lparr>con_cursor_x := k\<rparr>)" for k
    using tracks_upd [OF o(1), of "\<lambda>c. c\<lparr>con_cursor_x := k\<rparr>"] by (simp add: same_view_def)
  have tab: "tracks i ?f (bindR (get_con id) (\<lambda>c.
       if (con_cursor_x c div 4 + 1) * 4 \<ge> con_columns c then newline
       else upd_con (\<lambda>d. d\<lparr>con_cursor_x := (con_cursor_x c div 4 + 1) * 4\<rparr>)))
     (if ?tab \<ge> con_columns ?f then newline_c ?f else ?f\<lparr>con_cursor_x := ?tab\<rparr>)"
    by (rule tracks_get) (unfold id_apply, intro tracks_if nl x)
  have bs: "tracks i ?f backspace (back_c ?f)" if "ch = 8"
    using tracks_backspace [OF f bot] nw [OF that] by (simp add: wraps_back_def)
  have wr: "tracks i ?f (write_cell ch) (write_c ch ?f)" using tracks_write_cell [OF f bot] lim by simp
  show ?thesis
    unfolding put_char_def put_c_def Let_def
    by (intro tracks_bind [OF tracks_follow] tracks_if nl x tab bs wr tracks_return con_okD(2) [OF ok])
qed

lemma con_ok_newline:
  assumes "view_ok i c" and "con_cursor_line c + 1 < u64_limit"
  shows "con_ok i (newline_c c)"
proof -
  have "grid_ok i (c\<lparr>con_cursor_x := 0, con_cursor_line := con_cursor_line c + 1\<rparr>)" using assms by (simp add: view_ok_def grid_ok_def)
  with assms grid_follow [OF this] show ?thesis
    by (auto simp: con_ok_def view_ok_def newline_c_def Let_def grid_ok_def live_view_top_def)
qed

lemma con_ok_erase [simp]: "con_ok i (erase_c c) = con_ok i c"
  by (simp add: erase_c_def con_ok_def view_ok_def)

lemma con_ok_step_back:
  assumes "con_ok i c"
  shows "con_ok i (step_back c)"
proof -
  let ?d = "follow_c (c\<lparr>con_cursor_line := con_cursor_line c - 1\<rparr>)"
  have "grid_ok i (c\<lparr>con_cursor_line := con_cursor_line c - 1\<rparr>)" using con_okD(1) [OF assms] by (simp add: grid_ok_def)
  then have "grid_ok i ?d" using con_okD(3) [OF assms] by (intro grid_follow) simp_all
  then have "con_ok i (?d\<lparr>con_cursor_x := con_columns c - 1\<rparr>)"
    using con_okD(3) [OF assms] by (auto simp: con_ok_def view_ok_def grid_ok_def)
  moreover have "con_ok i (c\<lparr>con_cursor_x := con_cursor_x c - 1\<rparr>)"
    using assms by (auto simp: con_ok_def view_ok_def grid_ok_def)
  ultimately show ?thesis by (simp add: step_back_def)
qed

lemma con_ok_put:
  assumes ok: "con_ok i c" and lim: "con_cursor_line c + 1 < u64_limit"
  shows "con_ok i (put_c ch c)"
proof -
  note o = con_okD [OF con_ok_follow [OF ok]]
  have nl: "con_ok i (newline_c (follow_c c))" using con_ok_newline o(2) lim by simp
  have wr: "con_ok i (write_c ch (follow_c c))"
  proof -
    define d where "d = (set_cell (con_cursor_line c) (con_cursor_x c) \<lparr>ce_char = ch, ce_fg = con_fg c, ce_bg = con_bg c\<rparr> (follow_c c))
      \<lparr>con_cursor_x := con_cursor_x c + 1\<rparr>"
    have "view_ok i d" using o(2) by (simp add: d_def view_ok_def grid_ok_def)
    moreover from this have "con_ok i (newline_c d)" using lim by (intro con_ok_newline) (simp_all add: d_def)
    moreover have "write_c ch (follow_c c) = (if con_columns c = 0 \<or> con_rows c = 0 then follow_c c
        else if con_cursor_x d \<ge> con_columns c then newline_c d else d)" by (simp add: write_c_def d_def)
    moreover have "con_columns d = con_columns c" by (simp add: d_def)
    ultimately show ?thesis using con_ok_follow [OF ok] by (auto simp: con_ok_def)
  qed
  have bk: "con_ok i (back_c (follow_c c))"
    using con_ok_step_back [OF con_ok_follow [OF ok]] con_ok_follow [OF ok]
    by (simp add: back_c_def)
  have tab: "con_ok i ((follow_c c)\<lparr>con_cursor_x := k\<rparr>)" if "k = 0 \<or> k < con_columns c" for k
    using o that by (auto simp: con_ok_def view_ok_def grid_ok_def)
  show ?thesis using nl wr bk tab con_ok_follow [OF ok] by (auto simp: put_c_def Let_def)
qed

subsection \<open>Scrolling\<close>

definition up_c :: "nat \<Rightarrow> console \<Rightarrow> console" where
  "up_c n c = (if con_rows c = 0 then c else c\<lparr>con_view_top := max (con_view_top c - n) (oldest_valid_line c)\<rparr>)"

definition down_c :: "nat \<Rightarrow> console \<Rightarrow> console" where
  "down_c n c = (if con_rows c = 0 then c else c\<lparr>con_view_top := min (con_view_top c + n) (live_view_top c)\<rparr>)"

lemma get_cell_view [simp]: "get_cell (c\<lparr>con_view_top := v\<rparr>) = get_cell c"
  by (simp add: fun_eq_iff get_cell_def)

lemma matches_view_up:
  assumes g: "grid_ok i c" and "matches i c p" and "v \<le> con_view_top c"
    and n: "n = min (con_view_top c - v) (con_rows c)" "0 < n"
  shows "matches i (c\<lparr>con_view_top := v\<rparr>) (rows_pic i (c\<lparr>con_view_top := v\<rparr>) {0..<n} (down_pic i (n * 16) w p))"
  unfolding matches_def
proof (intro allI impI)
  let ?c = "c\<lparr>con_view_top := v\<rparr>"
  fix a b assume "a div 8 < con_columns ?c" "b div 16 < con_rows ?c"
  then have ab: "a div 8 < con_columns c" "b div 16 < con_rows c" by simp_all
  show "rows_pic i ?c {0..<n} (down_pic i (n * 16) w p) a b = cell_at i ?c a b"
  proof (cases "b div 16 < n")
    case False
    then have "con_view_top c + (b div 16 - n) = v + b div 16" using n(1) assms(3) ab(2) by auto
    then show ?thesis
      using matches_down [OF assms(2) ab, of n w] False by (simp add: rows_pic_def cell_at_def)
  qed (use ab in \<open>simp add: rows_pic_def\<close>)
qed

lemma matches_view_down:
  assumes g: "grid_ok i c" and "matches i c p" and "con_view_top c \<le> v"
    and n: "n = min (v - con_view_top c) (con_rows c)" "0 < n"
  shows "matches i (c\<lparr>con_view_top := v\<rparr>)
    (rows_pic i (c\<lparr>con_view_top := v\<rparr>) {con_rows c - n..<con_rows c} (up_pic i (n * 16) w p))"
  unfolding matches_def
proof (intro allI impI)
  let ?c = "c\<lparr>con_view_top := v\<rparr>"
  fix a b assume "a div 8 < con_columns ?c" "b div 16 < con_rows ?c"
  then have ab: "a div 8 < con_columns c" "b div 16 < con_rows c" by simp_all
  show "rows_pic i ?c {con_rows c - n..<con_rows c} (up_pic i (n * 16) w p) a b = cell_at i ?c a b"
  proof (cases "b div 16 + n < con_rows c")
    case True
    then have "con_view_top c + n + b div 16 = v + b div 16" using n(1) assms(3) by auto
    then show ?thesis
      using matches_up [OF g assms(2) ab(1) True, of w] True by (simp add: rows_pic_def cell_at_def)
  qed (use ab in \<open>auto simp: rows_pic_def\<close>)
qed

lemma grid_view: "grid_ok i c \<Longrightarrow> v + con_rows c \<le> u64_limit \<Longrightarrow> grid_ok i (c\<lparr>con_view_top := v\<rparr>)"
  by (simp add: grid_ok_def)

lemma tracks_scroll_up:
  assumes ok: "con_ok i c" and h: "oldest_valid_line c \<le> con_view_top c"
  shows "tracks i c (con_scroll_up n) (up_c n c)"
proof -
  note o = con_okD [OF ok]
  let ?l = "live_view_top c" and ?o = "oldest_valid_line c"
  define off where "off = min (sat_add (?l - con_view_top c) n) (?l - ?o)"
  define v where "v = max (con_view_top c - n) ?o"
  have lb: "?l < u64_limit" using o(3) by (simp add: live_view_top_def)
  then have v: "?l - off = v" "off - (?l - con_view_top c) = con_view_top c - v" "v \<le> con_view_top c"
    using o(4) h by (auto simp: off_def v_def sat_add_def min_def max_def)
  show ?thesis
  proof (cases "n = 0 \<or> con_rows c = 0 \<or> con_view_top c - v = 0")
    case True
    then have "up_c n c = c" using v(3) h by (auto simp: up_c_def v_def)
    then show ?thesis
      using True unfolding con_scroll_up_def by (intro tracks_get) (auto simp: Let_def off_def [symmetric] v tracks_return simp del: diff_is_0_eq diff_is_0_eq')
  next
    case False
    define k where "k = min (con_view_top c - v) (con_rows c)"
    have k: "0 < k" "k \<le> con_rows c" using False by (auto simp: k_def)
    let ?c = "c\<lparr>con_view_top := v\<rparr>"
    have c: "up_c n c = ?c" using False by (simp add: up_c_def v_def)
    have g: "grid_ok i ?c" using o(1) v(3) by (intro grid_view) (auto simp: grid_ok_def)
    have "paints i ?c (on_fb (Fb.scroll_down (k * 16) (con_bg c))) ?c (down_pic i (k * 16) (color_word i (con_bg c)))"
      using paints_on_fb [OF draws_scroll_down [of i "k * 16" "con_bg c"]] k g by (simp add: grid_ok_def)
    from paints_bind [OF this paints_render_rows [OF g, of "[0..<k]"] local_rows]
    have "paints i c (bindR (upd_con (\<lambda>c. c\<lparr>con_view_top := v\<rparr>)) (\<lambda>_.
        bindR (on_fb (Fb.scroll_down (k * 16) (con_bg c))) (\<lambda>_. render_rows [0..<k]))) ?c
        (rows_pic i ?c {0..<k} \<circ> down_pic i (k * 16) (color_word i (con_bg c)))"
      using k by (intro paints_upd_bind) (auto simp: subset_iff)
    then have "tracks i c (bindR (upd_con (\<lambda>c. c\<lparr>con_view_top := v\<rparr>)) (\<lambda>_.
        bindR (on_fb (Fb.scroll_down (k * 16) (con_bg c))) (\<lambda>_. render_rows [0..<k]))) ?c"
      unfolding comp_def by (rule tracks_paints) (intro g matches_view_up [OF o(1) _ v(3) k_def k(1)])+
    then show ?thesis
      using False unfolding con_scroll_up_def c
      by (intro tracks_get) (auto simp: Let_def off_def [symmetric] v k_def simp del: diff_is_0_eq diff_is_0_eq')
  qed
qed

lemma tracks_scroll_down:
  assumes ok: "con_ok i c"
  shows "tracks i c (con_scroll_down n) (down_c n c)"
proof -
  note o = con_okD [OF ok]
  let ?l = "live_view_top c"
  define v where "v = min (sat_add (con_view_top c) n) ?l"
  have lb: "?l < u64_limit" using o(3) by (simp add: live_view_top_def)
  then have v: "v = min (con_view_top c + n) ?l" "con_view_top c \<le> v"
    using o(4) by (auto simp: v_def sat_add_def)
  show ?thesis
  proof (cases "n = 0 \<or> con_rows c = 0 \<or> v - con_view_top c = 0")
    case True
    then have "down_c n c = c" using v o(4) by (auto simp: down_c_def)
    then show ?thesis
      using True unfolding con_scroll_down_def by (intro tracks_get) (auto simp: Let_def v_def [symmetric] tracks_return)
  next
    case False
    define k where "k = min (v - con_view_top c) (con_rows c)"
    have k: "0 < k" "k \<le> con_rows c" using False by (auto simp: k_def)
    let ?c = "c\<lparr>con_view_top := v\<rparr>"
    have c: "down_c n c = ?c" using False v(1) by (simp add: down_c_def)
    have g: "grid_ok i ?c" using o(1) live_bound [OF o(1,3)] v(1) by (intro grid_view) auto
    have "paints i ?c (on_fb (Fb.scroll_up (k * 16) (con_bg c))) ?c (up_pic i (k * 16) (color_word i (con_bg c)))"
      using paints_on_fb [OF draws_scroll_up [of i "k * 16" "con_bg c"]] k g by (simp add: grid_ok_def)
    from paints_bind [OF this paints_render_rows [OF g, of "[con_rows c - k..<con_rows c]"] local_rows]
    have "paints i c (bindR (upd_con (\<lambda>c. c\<lparr>con_view_top := v\<rparr>)) (\<lambda>_.
        bindR (on_fb (Fb.scroll_up (k * 16) (con_bg c))) (\<lambda>_. render_rows [con_rows c - k..<con_rows c]))) ?c
        (rows_pic i ?c {con_rows c - k..<con_rows c} \<circ> up_pic i (k * 16) (color_word i (con_bg c)))"
      using k by (intro paints_upd_bind) (auto simp: subset_iff)
    then have "tracks i c (bindR (upd_con (\<lambda>c. c\<lparr>con_view_top := v\<rparr>)) (\<lambda>_.
        bindR (on_fb (Fb.scroll_up (k * 16) (con_bg c))) (\<lambda>_. render_rows [con_rows c - k..<con_rows c]))) ?c"
      unfolding comp_def by (rule tracks_paints) (intro g matches_view_down [OF o(1) _ v(2) k_def k(1)])+
    then show ?thesis
      using False unfolding con_scroll_down_def c
      by (intro tracks_get) (auto simp: Let_def v_def [symmetric] k_def)
  qed
qed

subsection \<open>Clearing\<close>

definition clear_c :: "console \<Rightarrow> console" where
  "clear_c c = c\<lparr>con_cells := (\<lambda>k. if k < MAX_COLUMNS * SCROLLBACK_ROWS then EMPTY else con_cells c k),
     con_cursor_x := 0, con_cursor_line := 0, con_view_top := 0, con_input_len := 0, con_line_ready := False\<rparr>"

lemma get_cell_cleared: "col < 240 \<Longrightarrow> get_cell (clear_c c) l col = EMPTY"
  using cell_index_bound [of col l] by (simp add: get_cell_def clear_c_def)

text \<open>Clearing paints with the background color of the console, the empty cells have a black
  background: the screen shows the cells when the two agree.\<close>

lemma paints_clear:
  assumes g: "grid_ok i c" and bg: "con_bg c = BLACK"
  shows "paints i c con_clear (clear_c c) (\<lambda>p a b. color_word i BLACK)"
proof -
  have "paints i (clear_c c) (on_fb (fb_clear BLACK)) (clear_c c) (\<lambda>p a b. color_word i BLACK)"
    using g by (intro paints_on_fb draws_clear) (simp add: grid_ok_def)
  then show ?thesis
    unfolding con_clear_def
    by (intro paints_upd_bind paints_get) (simp add: clear_c_def [symmetric] bg, simp add: clear_c_def bg)
qed

lemma grid_clear: "grid_ok i c \<Longrightarrow> grid_ok i (clear_c c)"
  using grid_bounds(2) [of i c] by (simp add: grid_ok_def clear_c_def)

lemma matches_clear:
  assumes "grid_ok i c"
  shows "matches i (clear_c c) (\<lambda>a b. color_word i BLACK)"
  using grid_bounds(1) [OF grid_clear [OF assms]]
  by (auto simp: matches_def cell_at_def get_cell_cleared cell_pixel_def EMPTY_def)

lemma tracks_clear:
  assumes g: "grid_ok i c" and bg: "con_bg c = BLACK"
  shows "tracks i c con_clear (clear_c c)"
  by (intro tracks_paints [OF paints_clear [OF assms] grid_clear [OF g]] matches_clear g)

end
