(* ===== verification/Console_Page.thy ===== *)
theory Console_Page
  imports Console_Correct
begin

text \<open>
  What the console promises: an unbounded page of text, a window on it and a line of input. The
  ring of cells keeps the last 402 lines of the page, and the screen shows the window. Operations
  of the console refine operations of the page, cell for cell and pixel for pixel.
\<close>

section \<open>The page\<close>

record page =
  pg_cols :: nat
  pg_rows :: nat
  pg_text :: "nat \<Rightarrow> nat \<Rightarrow> cell"
  pg_x :: nat
  pg_line :: nat
  pg_top :: nat
  pg_fg :: color
  pg_bg :: color
  pg_input :: bytes
  pg_ready :: bool

definition p_live :: "page \<Rightarrow> nat" where
  "p_live p = pg_line p - (pg_rows p - 1)"

definition p_follow :: "page \<Rightarrow> page" where
  "p_follow p = p\<lparr>pg_top := p_live p\<rparr>"

definition p_set :: "cell \<Rightarrow> page \<Rightarrow> page" where
  "p_set ce p = p\<lparr>pg_text := (pg_text p)(pg_line p := (pg_text p (pg_line p))(pg_x p := ce))\<rparr>"

definition p_newline :: "page \<Rightarrow> page" where
  "p_newline p = (if pg_rows p = 0 then p\<lparr>pg_x := 0\<rparr> else p_follow (p\<lparr>pg_x := 0, pg_line := pg_line p + 1\<rparr>))"

definition p_write :: "u8 \<Rightarrow> page \<Rightarrow> page" where
  "p_write ch p =
     (if pg_cols p = 0 \<or> pg_rows p = 0 then p
      else
        let q = (p_set \<lparr>ce_char = ch, ce_fg = pg_fg p, ce_bg = pg_bg p\<rparr> p)\<lparr>pg_x := pg_x p + 1\<rparr> in
        if pg_x q \<ge> pg_cols p then p_newline q else q)"

definition p_back :: "page \<Rightarrow> page" where
  "p_back p =
     (if pg_x p = 0 \<and> pg_line p = 0 then p
      else if pg_x p = 0 then p_set EMPTY (p_follow (p\<lparr>pg_line := pg_line p - 1, pg_x := pg_cols p - 1\<rparr>))
      else p_set EMPTY (p\<lparr>pg_x := pg_x p - 1\<rparr>))"

definition p_put :: "u8 \<Rightarrow> page \<Rightarrow> page" where
  "p_put ch p0 =
     (let p = p_follow p0; tab = (pg_x p div 4 + 1) * 4 in
      if ch = 0x0A then p_newline p
      else if ch = 0x0D then p\<lparr>pg_x := 0\<rparr>
      else if ch = 0x09 then (if tab \<ge> pg_cols p then p_newline p else p\<lparr>pg_x := tab\<rparr>)
      else if ch = 8 then p_back p
      else if 0x20 \<le> ch \<and> ch \<le> 0x7E then p_write ch p
      else p)"

definition p_up :: "nat \<Rightarrow> page \<Rightarrow> page" where
  "p_up n p = (if pg_rows p = 0 then p else p\<lparr>pg_top := max (pg_top p - n) (pg_line p - 401)\<rparr>)"

definition p_down :: "nat \<Rightarrow> page \<Rightarrow> page" where
  "p_down n p = (if pg_rows p = 0 then p else p\<lparr>pg_top := min (pg_top p + n) (p_live p)\<rparr>)"

definition p_clear :: "page \<Rightarrow> page" where
  "p_clear p = p\<lparr>pg_text := (\<lambda>_ _. EMPTY), pg_x := 0, pg_line := 0, pg_top := 0, pg_input := [], pg_ready := False\<rparr>"

definition p_key :: "nat \<Rightarrow> page \<Rightarrow> page" where
  "p_key k p =
     (if k = 0x0A \<or> k = 0x0D then (p_put 0x0A p)\<lparr>pg_ready := True\<rparr>
      else if k = 0x08 \<or> k = 0x7F then
        (if pg_input p \<noteq> [] \<and> pg_x p > 2 then p_put 8 (p\<lparr>pg_input := butlast (pg_input p)\<rparr>) else p)
      else if 0x20 \<le> k \<and> k < 0x7F then
        (if length (pg_input p) < 256 then p_put (of_nat k) (p\<lparr>pg_input := pg_input p @ [of_nat k]\<rparr>) else p)
      else p)"

section \<open>The ring of cells refines the page\<close>

definition ring :: "(nat \<Rightarrow> cell) \<Rightarrow> console \<Rightarrow> page \<Rightarrow> bool" where
  "ring out c p \<longleftrightarrow> con_columns c = pg_cols p \<and> con_rows c = pg_rows p \<and> pg_cols p \<le> 240 \<and> pg_rows p \<le> 67
     \<and> con_cursor_x c = pg_x p \<and> con_cursor_line c = pg_line p \<and> con_view_top c = pg_top p
     \<and> con_fg c = pg_fg p \<and> con_bg c = pg_bg p
     \<and> con_line_ready c = pg_ready p \<and> length (con_input c) = 256 \<and> con_input_len c \<le> 256
     \<and> pg_input p = take (con_input_len c) (con_input c)
     \<and> pg_line p - 401 \<le> pg_top p
     \<and> (\<forall>l col. col < pg_cols p \<longrightarrow> l \<le> pg_line p \<or> l < pg_rows p \<longrightarrow> pg_line p < l + 402 \<longrightarrow>
          get_cell c l col = pg_text p l col)
     \<and> (\<forall>l col. pg_line p < l \<longrightarrow> pg_rows p \<le> l \<longrightarrow> pg_text p l col = EMPTY)
     \<and> (\<forall>k\<ge>240 * 402. con_cells c k = out k)"

lemma ring_live: "ring out c p \<Longrightarrow> live_view_top c = p_live p"
  by (simp add: ring_def live_view_top_def p_live_def)

lemma ring_follow: "ring out c p \<Longrightarrow> ring out (follow_c c) (p_follow p)"
  by (auto simp: ring_def p_follow_def p_live_def live_view_top_def get_cell_def)

lemma ring_x: "ring out c p \<Longrightarrow> ring out (c\<lparr>con_cursor_x := x\<rparr>) (p\<lparr>pg_x := x\<rparr>)"
  by (simp add: ring_def)

lemma ring_set:
  assumes r: "ring out c p" and x: "con_cursor_x c < 240"
  shows "ring out (set_cell (con_cursor_line c) (con_cursor_x c) ce c) (p_set ce p)"
proof -
  have "get_cell (set_cell (con_cursor_line c) (con_cursor_x c) ce c) l col = pg_text (p_set ce p) l col"
    if a: "col < pg_cols p" "l \<le> pg_line p \<or> l < pg_rows p" "pg_line p < l + 402" for l col
  proof -
    have "pg_line p mod 402 \<noteq> l mod 402" if "l \<noteq> pg_line p"
    proof -
      have "pg_rows p \<le> 67" using r by (simp add: ring_def)
      with a have "l < pg_line p + 402" by linarith
      then show ?thesis
        using that a(3) ring_distinct [of l "pg_line p"] ring_distinct [of "pg_line p" l] by (metis nat_neq_iff)
    qed
    then show ?thesis
      using a x r by (subst get_cell_set) (auto simp: ring_def p_set_def)
  qed
  moreover have "con_cells (set_cell (con_cursor_line c) (con_cursor_x c) ce c) k = out k" if "240 * 402 \<le> k" for k
    using cell_index_bound [OF x, of "con_cursor_line c"] r that by (auto simp: ring_def set_cell_def)
  ultimately show ?thesis using r by (auto simp: ring_def p_set_def)
qed

lemma ring_newline:
  assumes r: "ring out c p" and bot: "pg_top p = p_live p"
  shows "ring out (newline_c c) (p_newline p)"
proof -
  consider "pg_rows p = 0" | "0 < pg_rows p" "pg_line p + 1 < pg_rows p" | "0 < pg_rows p" "pg_rows p \<le> pg_line p + 1"
    by linarith
  then show ?thesis
  proof cases
    case 1
    then show ?thesis using ring_x [OF r] r by (simp add: newline_c_def p_newline_def ring_def)
  next
    case 2
    then show ?thesis
      using r bot by (auto simp: newline_c_def p_newline_def ring_def p_follow_def p_live_def get_cell_def)
  next
    case 3
    let ?n = "pg_line p + 1"
    let ?d = "follow_c (c\<lparr>con_cursor_x := 0, con_cursor_line := ?n\<rparr>)"
    have nc: "newline_c c = clear_line ?n ?d" "p_newline p = p_follow (p\<lparr>pg_x := 0, pg_line := ?n\<rparr>)"
      using 3 r by (simp_all add: newline_c_def p_newline_def ring_def)
    have "get_cell (clear_line ?n ?d) l col = pg_text p l col"
      if a: "col < pg_cols p" "l \<le> ?n \<or> l < pg_rows p" "?n < l + 402" for l col
    proof (cases "l = ?n")
      case True
      then show ?thesis using a 3 r by (subst get_cell_clear) (auto simp: ring_def)
    next
      case False
      with a 3 have "l < ?n" by linarith
      with a have "?n mod 402 \<noteq> l mod 402" by (intro ring_distinct)
      then have "get_cell (clear_line ?n ?d) l col = get_cell c l col"
        using a r by (subst get_cell_clear) (auto simp: ring_def get_cell_def)
      with a \<open>l < ?n\<close> r show ?thesis by (simp add: ring_def)
    qed
    moreover have "con_cells (clear_line ?n ?d) k = out k" if "240 * 402 \<le> k" for k
      using cell_index_bound [of 239 ?n] r that by (auto simp: ring_def clear_line_def cell_index_def)
    ultimately show ?thesis
      unfolding nc using r 3 by (auto simp: ring_def p_follow_def p_live_def live_view_top_def)
  qed
qed

lemma ring_write:
  assumes r: "ring out c p" and bot: "pg_top p = p_live p" and x: "con_cursor_x c < 240"
  shows "ring out (write_c ch c) (p_write ch p)"
proof -
  let ?c = "(set_cell (con_cursor_line c) (con_cursor_x c) \<lparr>ce_char = ch, ce_fg = con_fg c, ce_bg = con_bg c\<rparr> c)
    \<lparr>con_cursor_x := con_cursor_x c + 1\<rparr>"
  let ?p = "(p_set \<lparr>ce_char = ch, ce_fg = pg_fg p, ce_bg = pg_bg p\<rparr> p)\<lparr>pg_x := pg_x p + 1\<rparr>"
  have "ring out ?c ?p"
    using ring_x [OF ring_set [OF r x]] r by (simp add: ring_def)
  moreover from this have "ring out (newline_c ?c) (p_newline ?p)"
    by (rule ring_newline) (use bot in \<open>simp add: p_set_def p_live_def\<close>)
  moreover have "con_columns c = pg_cols p" "con_rows c = pg_rows p" "con_cursor_x c = pg_x p"
    using r by (simp_all add: ring_def)
  ultimately show ?thesis using r by (simp add: write_c_def p_write_def Let_def p_set_def)
qed

text \<open>Backspace over the start of a line keeps the ring as long as no line has been scrolled away.\<close>

lemma ring_move:
  assumes r: "ring out c p" and l: "pg_line p < pg_rows p" "k < pg_rows p"
  shows "ring out (c\<lparr>con_cursor_line := k, con_view_top := 0, con_cursor_x := x\<rparr>) (p\<lparr>pg_line := k, pg_x := x, pg_top := 0\<rparr>)"
proof -
  have "get_cell c j col = pg_text p j col" if "col < pg_cols p" "j \<le> k \<or> j < pg_rows p" for j col
  proof -
    have "pg_rows p \<le> 67" using r by (simp add: ring_def)
    with l that have "j < pg_rows p" "pg_line p < j + 402" by linarith+
    with r that show ?thesis by (simp add: ring_def)
  qed
  moreover have "pg_text p j col = EMPTY" if "pg_rows p \<le> j" for j col
    using r l that by (simp add: ring_def)
  moreover have "get_cell (c\<lparr>con_cursor_line := k, con_view_top := 0, con_cursor_x := x\<rparr>) = get_cell c"
    by (simp add: fun_eq_iff get_cell_def)
  moreover have "k \<le> 401" using r l by (simp add: ring_def)
  ultimately show ?thesis using r by (simp add: ring_def)
qed

lemma ring_step_back:
  assumes r: "ring out c p" and bot: "pg_top p = p_live p" and nw: "\<not> wraps_back c" and z: "\<not> (pg_x p = 0 \<and> pg_line p = 0)"
  shows "ring out (step_back c)
    (if pg_x p = 0 then p_follow (p\<lparr>pg_line := pg_line p - 1, pg_x := pg_cols p - 1\<rparr>) else p\<lparr>pg_x := pg_x p - 1\<rparr>)"
proof (cases "pg_x p = 0")
  case True
  have eq: "con_cursor_x c = pg_x p" "con_cursor_line c = pg_line p" "con_rows c = pg_rows p" "con_columns c = pg_cols p"
    using r by (simp_all add: ring_def)
  then have l: "pg_line p < pg_rows p" using True nw z by (auto simp: wraps_back_def)
  then have "step_back c = c\<lparr>con_cursor_line := pg_line p - 1, con_view_top := 0, con_cursor_x := pg_cols p - 1\<rparr>"
    using True eq by (simp add: step_back_def follow_c_def live_view_top_def)
  moreover have "p_follow (p\<lparr>pg_line := pg_line p - 1, pg_x := pg_cols p - 1\<rparr>)
      = p\<lparr>pg_line := pg_line p - 1, pg_x := pg_cols p - 1, pg_top := 0\<rparr>"
    using l by (simp add: p_follow_def p_live_def)
  ultimately show ?thesis using ring_move [OF r l, of "pg_line p - 1"] l True by simp
next
  case False
  moreover have "con_cursor_x c = pg_x p" using r by (simp add: ring_def)
  ultimately show ?thesis using ring_x [OF r] by (simp add: step_back_def)
qed

lemma ring_back:
  assumes r: "ring out c p" and ok: "con_ok i c" and "pg_top p = p_live p" and "\<not> wraps_back c"
  shows "ring out (back_c c) (p_back p)"
proof (cases "pg_x p = 0 \<and> pg_line p = 0")
  case True
  then show ?thesis using r by (simp add: back_c_def p_back_def ring_def)
next
  case False
  then have "back_c c = erase_c (step_back c)" using r by (auto simp: back_c_def ring_def)
  moreover have "con_cursor_x (step_back c) < 240" by (rule con_okD(5) [OF con_ok_step_back [OF ok]])
  ultimately show ?thesis
    using ring_set [OF ring_step_back [OF r assms(3,4) False]] False by (auto simp: p_back_def erase_c_def split: if_splits)
qed

lemma ring_put:
  assumes r: "ring out c p" and ok: "con_ok i c" and "ch = 8 \<Longrightarrow> \<not> wraps_back c"
  shows "ring out (put_c ch c) (p_put ch p)"
proof -
  let ?c = "follow_c c" and ?p = "p_follow p"
  have f: "ring out ?c ?p" by (rule ring_follow [OF r])
  have bot: "pg_top ?p = p_live ?p" by (simp add: p_follow_def p_live_def)
  note o = con_ok_follow [OF ok]
  have bk: "ring out (back_c ?c) (p_back ?p)" if "ch = 8"
    using ring_back [OF f o bot] assms(3) [OF that] by (simp add: wraps_back_def)
  have "con_columns ?c = pg_cols ?p" "con_cursor_x ?c = pg_x ?p" using f by (simp_all add: ring_def)
  then show ?thesis
    using ring_newline [OF f bot] ring_x [OF f] bk ring_write [OF f bot con_okD(5) [OF o]] f
    by (simp add: put_c_def p_put_def Let_def del: follow_fields)
qed

section \<open>Operations of the console\<close>

text \<open>The console \<open>c\<close> holds the page \<open>p\<close>, and \<open>m\<close> brings them to the page \<open>p'\<close> with the screen in step.\<close>

definition holds :: "(nat \<Rightarrow> cell) \<Rightarrow> info \<Rightarrow> font \<Rightarrow> console \<Rightarrow> page \<Rightarrow> bool" where
  "holds out i f c p \<longleftrightarrow> con_ok i c \<and> con_font c = f \<and> ring out c p"

definition refines :: "(nat \<Rightarrow> cell) \<Rightarrow> info \<Rightarrow> font \<Rightarrow> console \<Rightarrow> unit tp \<Rightarrow> page \<Rightarrow> bool" where
  "refines out i f c m p' \<longleftrightarrow> (\<exists>c'. tracks i c m c' \<and> holds out i f c' p')"

lemma refinesI: "tracks i c m c' \<Longrightarrow> holds out i f c' p' \<Longrightarrow> refines out i f c m p'"
  unfolding refines_def by blast

lemma refines_bind:
  "refines out i f c m p1 \<Longrightarrow> (\<And>c1. holds out i f c1 p1 \<Longrightarrow> refines out i f c1 m' p2)
    \<Longrightarrow> refines out i f c (bindR m (\<lambda>_. m')) p2"
  unfolding refines_def using tracks_bind by blast

lemma refines_get: "refines out i f c (k (g c)) p \<Longrightarrow> refines out i f c (bindR (get_con g) k) p"
  unfolding refines_def using tracks_get by blast

lemma refines_return: "holds out i f c p \<Longrightarrow> refines out i f c (returnR ()) p"
  by (rule refinesI [OF tracks_return])

lemma holds_line: "holds out i f c p \<Longrightarrow> con_cursor_line c = pg_line p"
  by (simp add: holds_def ring_def)

lemma refines_upd:
  assumes "holds out i f c p" and "same_view c (h c)" and "con_ok i (h c)" and "ring out (h c) p'"
  shows "refines out i f c (upd_con h) p'"
  using assms tracks_upd [of i c h] con_okD(1) [of i c] by (intro refinesI [where c' = "h c"]) (auto simp: holds_def same_view_def)

text \<open>The backspace that the screen does not follow.\<close>

definition p_wraps :: "page \<Rightarrow> bool" where
  "p_wraps p \<longleftrightarrow> pg_x p = 0 \<and> pg_rows p \<le> pg_line p \<and> pg_line p \<noteq> 0"

lemma put_c_font: "con_font (put_c ch c) = con_font c"
  by (simp add: put_c_def Let_def newline_c_def write_c_def back_c_def erase_c_def step_back_def)

lemma refines_put:
  assumes "holds out i f c p" and "pg_line p + 1 < u64_limit" and "ch = 8 \<Longrightarrow> \<not> p_wraps p"
  shows "refines out i f c (put_char ch) (p_put ch p)"
proof -
  have c: "con_ok i c" "ring out c p" "con_cursor_line c + 1 < u64_limit" "ch = 8 \<Longrightarrow> \<not> wraps_back c"
    using assms by (auto simp: holds_def ring_def p_wraps_def wraps_back_def)
  show ?thesis
    using tracks_put_char [OF c(1,3,4)] con_ok_put [OF c(1,3)] ring_put [OF c(2,1,4)] assms(1)
    by (intro refinesI) (auto simp: holds_def put_c_font)
qed

lemma p_line_put: "pg_line (p_put ch p) \<le> pg_line p + 1"
  by (auto simp: p_put_def Let_def p_newline_def p_write_def p_back_def p_follow_def p_set_def)

fun tame_text :: "bytes \<Rightarrow> page \<Rightarrow> bool" where
  "tame_text [] p = True"
| "tame_text (ch # rest) p = ((ch = 8 \<longrightarrow> \<not> p_wraps p) \<and> tame_text rest (p_put ch p))"

lemma refines_write_str:
  assumes "holds out i f c p" and "pg_line p + length txt < u64_limit" and "tame_text txt p"
  shows "refines out i f c (write_str txt) (fold p_put txt p) \<and> pg_line (fold p_put txt p) \<le> pg_line p + length txt"
  using assms
proof (induction "txt" arbitrary: c p)
  case (Cons ch bs)
  have "refines out i f c (put_char ch) (p_put ch p)" using Cons.prems by (intro refines_put) auto
  moreover have "pg_line (p_put ch p) + length bs < u64_limit" using p_line_put [of ch p] Cons.prems(2) by simp
  ultimately show ?case
  proof (intro conjI)
    assume put: "refines out i f c (put_char ch) (p_put ch p)" and lim: "pg_line (p_put ch p) + length bs < u64_limit"
    have IH: "holds out i f c1 (p_put ch p) \<Longrightarrow> refines out i f c1 (write_str bs) (fold p_put bs (p_put ch p))
        \<and> pg_line (fold p_put bs (p_put ch p)) \<le> pg_line (p_put ch p) + length bs" for c1
      using Cons.prems(3) lim by (intro Cons.IH) auto
    show "refines out i f c (write_str (ch # bs)) (fold p_put (ch # bs) p)"
      using refines_bind [OF put] IH by simp
    show "pg_line (fold p_put (ch # bs) p) \<le> pg_line p + length (ch # bs)"
      using put IH p_line_put [of ch p] by (force simp: refines_def)
  qed
qed (simp add: refines_return)

text \<open>The colors and the line of input do not concern the screen.\<close>

lemma con_ok_update:
  "con_ok i (c\<lparr>con_fg := col\<rparr>) = con_ok i c" "con_ok i (c\<lparr>con_bg := col\<rparr>) = con_ok i c"
  "con_ok i (c\<lparr>con_line_ready := b\<rparr>) = con_ok i c" "con_ok i (c\<lparr>con_input_len := n\<rparr>) = con_ok i c"
  "con_ok i (c\<lparr>con_input := xs\<rparr>) = con_ok i c"
  by (simp_all add: con_ok_def view_ok_def grid_ok_def live_view_top_def)

lemma refines_fg:
  assumes h: "holds out i f c p"
  shows "refines out i f c (set_foreground col) (p\<lparr>pg_fg := col\<rparr>)"
  unfolding set_foreground_def using h
  by (intro refines_upd [OF h]) (simp_all add: holds_def con_ok_update ring_def get_cell_def same_view_def)

lemma refines_bg:
  assumes h: "holds out i f c p"
  shows "refines out i f c (set_background col) (p\<lparr>pg_bg := col\<rparr>)"
  unfolding set_background_def using h
  by (intro refines_upd [OF h]) (simp_all add: holds_def con_ok_update ring_def get_cell_def same_view_def)

text \<open>Scrolling and clearing.\<close>

lemma refines_up:
  assumes "holds out i f c p"
  shows "refines out i f c (con_scroll_up n) (p_up n p)"
proof (rule refinesI)
  have o: "con_ok i c" "ring out c p" "con_font c = f" "oldest_valid_line c \<le> con_view_top c"
    using assms by (auto simp: holds_def ring_def oldest_valid_line_def)
  show "tracks i c (con_scroll_up n) (up_c n c)" by (rule tracks_scroll_up [OF o(1,4)])
  have "con_ok i (up_c n c)"
    using o(1,4) con_okD(4) [OF o(1)] by (auto simp: up_c_def con_ok_def view_ok_def grid_ok_def)
  moreover have "ring out (up_c n c) (p_up n p)"
    using o(2) by (auto simp: ring_def up_c_def p_up_def oldest_valid_line_def)
  ultimately show "holds out i f (up_c n c) (p_up n p)" using o(3) by (simp add: holds_def up_c_def)
qed

lemma refines_down:
  assumes "holds out i f c p"
  shows "refines out i f c (con_scroll_down n) (p_down n p)"
proof (rule refinesI)
  have o: "con_ok i c" "ring out c p" "con_font c = f" using assms by (auto simp: holds_def)
  note l = ring_live [OF o(2)] live_bound [OF con_okD(1,3) [OF o(1)]]
  show "tracks i c (con_scroll_down n) (down_c n c)" by (rule tracks_scroll_down [OF o(1)])
  have "con_ok i (down_c n c)"
    using o(1) l(2) by (auto simp: down_c_def con_ok_def view_ok_def grid_ok_def)
  moreover have "ring out (down_c n c) (p_down n p)"
    using o(2) l(1) by (auto simp: ring_def down_c_def p_down_def p_live_def)
  ultimately show "holds out i f (down_c n c) (p_down n p)" using o(3) by (simp add: holds_def down_c_def)
qed

lemma refines_clear:
  assumes "holds out i f c p" and "pg_bg p = BLACK"
  shows "refines out i f c con_clear (p_clear p)"
proof (rule refinesI)
  have o: "con_ok i c" "ring out c p" "con_font c = f" "con_bg c = BLACK" using assms by (auto simp: holds_def ring_def)
  show "tracks i c con_clear (clear_c c)" by (rule tracks_clear [OF con_okD(1) [OF o(1)] o(4)])
  have "con_ok i (clear_c c)"
    using o(1) grid_bounds(2) [OF con_okD(1) [OF o(1)]] by (auto simp: clear_c_def con_ok_def view_ok_def grid_ok_def)
  moreover have "ring out (clear_c c) (p_clear p)"
  proof -
    have "get_cell (clear_c c) l col = EMPTY" if "col < pg_cols p" for l col
      using o(2) that by (intro get_cell_cleared) (simp add: ring_def)
    then show ?thesis using o(2) by (simp add: ring_def p_clear_def) (simp add: clear_c_def)
  qed
  ultimately show "holds out i f (clear_c c) (p_clear p)" using o(3) by (simp add: holds_def clear_c_def)
qed

text \<open>The keyboard.\<close>

lemma ring_erase_input:
  assumes "ring out c p"
  shows "ring out (c\<lparr>con_input_len := con_input_len c - 1\<rparr>) (p\<lparr>pg_input := butlast (pg_input p)\<rparr>)"
  using assms le_trans [OF diff_le_self, of "con_input_len c" 256 1] by (simp add: ring_def get_cell_def butlast_take)

lemma ring_add_input:
  assumes "ring out c p" and "con_input_len c < 256"
  shows "ring out (c\<lparr>con_input := (con_input c)[con_input_len c := b], con_input_len := con_input_len c + 1\<rparr>)
    (p\<lparr>pg_input := pg_input p @ [b]\<rparr>)"
  using assms by (simp add: ring_def get_cell_def take_Suc_conv_app_nth)

lemma ring_ready: "ring out c p \<Longrightarrow> ring out (c\<lparr>con_line_ready := b\<rparr>) (p\<lparr>pg_ready := b\<rparr>)"
  by (simp add: ring_def get_cell_def)

lemma ring_input: "ring out c p \<Longrightarrow> length (pg_input p) = con_input_len c \<and> (pg_input p = [] \<longleftrightarrow> con_input_len c = 0)"
  by (auto simp: ring_def)

lemma refines_input:
  assumes h: "holds out i f c p" and "ring out (h c) p'" and "same_view c (h c)" and "con_ok i (h c)"
    and "pg_line p' = pg_line p" and "pg_line p + 1 < u64_limit" and "ch = 8 \<Longrightarrow> \<not> p_wraps p'"
  shows "refines out i f c (bindR (upd_con h) (\<lambda>_. put_char ch)) (p_put ch p')"
  using assms by (intro refines_bind [OF refines_upd [OF h]] refines_put) auto

lemma refines_key:
  assumes h: "holds out i f c p" and lim: "pg_line p + 1 < u64_limit"
  shows "refines out i f c (con_receive_key k) (p_key k p)"
proof -
  have r: "ring out c p" "con_cursor_x c = pg_x p" "con_ok i c" using h by (simp_all add: holds_def ring_def)
  note inp = ring_input [OF r(1)]
  consider "k = 0x0A \<or> k = 0x0D" | "k = 8 \<or> k = 0x7F" | "0x20 \<le> k" "k < 0x7F" | "k < 0x20 \<or> 0x7F < k" "k \<notin> {0x0A, 0x0D, 8}"
    by force
  then show ?thesis
  proof cases
    case 1
    have "refines out i f c (bindR (put_char 0x0A) (\<lambda>_. upd_con (\<lambda>c. c\<lparr>con_line_ready := True\<rparr>)))
        ((p_put 0x0A p)\<lparr>pg_ready := True\<rparr>)"
    proof (rule refines_bind [OF refines_put [OF h lim]])
      fix c1 assume "holds out i f c1 (p_put 0x0A p)"
      then show "refines out i f c1 (upd_con (\<lambda>c. c\<lparr>con_line_ready := True\<rparr>)) ((p_put 0x0A p)\<lparr>pg_ready := True\<rparr>)"
        by (intro refines_upd) (auto simp: holds_def con_ok_update same_view_def intro: ring_ready)
    qed simp
    then show ?thesis using 1 by (simp add: con_receive_key_def p_key_def)
  next
    case 2
    have "refines out i f c (bindR (upd_con (\<lambda>c. c\<lparr>con_input_len := con_input_len c - 1\<rparr>)) (\<lambda>_. put_char 8))
        (p_put 8 (p\<lparr>pg_input := butlast (pg_input p)\<rparr>))" if "pg_x p > 2"
      using h r lim that ring_erase_input
      by (intro refines_input) (auto simp: con_ok_update same_view_def p_wraps_def)
    then have "refines out i f c (bindR (get_con id) (\<lambda>c. if con_input_len c > 0 \<and> con_cursor_x c > 2 then
          bindR (upd_con (\<lambda>c. c\<lparr>con_input_len := con_input_len c - 1\<rparr>)) (\<lambda>_. put_char 8) else returnR ()))
        (if pg_input p \<noteq> [] \<and> pg_x p > 2 then p_put 8 (p\<lparr>pg_input := butlast (pg_input p)\<rparr>) else p)"
      using inp r h by (intro refines_get) (auto simp: refines_return)
    moreover have "\<not> (k = 0x0A \<or> k = 0x0D)" using 2 by auto
    ultimately show ?thesis using 2 by (simp add: con_receive_key_def p_key_def)
  next
    case 3
    have n8: "(of_nat k :: u8) \<noteq> 8"
    proof
      assume "(of_nat k :: u8) = 8"
      then have "unat (of_nat k :: u8) = 8" by simp
      then show False using 3 by (simp add: unsigned_of_nat take_bit_eq_mod)
    qed
    have "refines out i f c (bindR (upd_con (\<lambda>c. c\<lparr>con_input := (con_input c)[con_input_len c := of_nat k],
          con_input_len := con_input_len c + 1\<rparr>)) (\<lambda>_. put_char (of_nat k)))
        (p_put (of_nat k) (p\<lparr>pg_input := pg_input p @ [of_nat k]\<rparr>))" if "con_input_len c < 256"
      using h r lim that ring_add_input n8
      by (intro refines_input) (auto simp: con_ok_update same_view_def)
    then have "refines out i f c (bindR (get_con id) (\<lambda>c. if con_input_len c < 256 then
          bindR (upd_con (\<lambda>c. c\<lparr>con_input := (con_input c)[con_input_len c := of_nat k],
                              con_input_len := con_input_len c + 1\<rparr>)) (\<lambda>_. put_char (of_nat k)) else returnR ()))
        (if length (pg_input p) < 256 then p_put (of_nat k) (p\<lparr>pg_input := pg_input p @ [of_nat k]\<rparr>) else p)"
      using inp h by (intro refines_get) (auto simp: refines_return)
    then show ?thesis using 3 by (simp add: con_receive_key_def p_key_def)
  next
    case 4
    then show ?thesis using refines_return [OF h] by (auto simp: con_receive_key_def p_key_def)
  qed
qed

section \<open>The terminal\<close>

definition showing :: "(nat \<Rightarrow> cell) \<Rightarrow> info \<Rightarrow> font \<Rightarrow> terminal \<Rightarrow> page \<Rightarrow> bool" where
  "showing out i f s p \<longleftrightarrow> tm_init s \<and> holds out i f (tm_con s) p \<and> synced i (tm_fb s)
     \<and> matches i (tm_con s) (pixel i (tm_fb s))"

text \<open>The framebuffer shows the window of the page, pixel for pixel.\<close>

definition visible :: "info \<Rightarrow> font \<Rightarrow> terminal \<Rightarrow> page \<Rightarrow> bool" where
  "visible i f s p \<longleftrightarrow> (\<forall>row<pg_rows p. \<forall>col<pg_cols p. \<forall>dx<8. \<forall>dy<16.
     displayed i (tm_fb s) (col * 8 + dx) (row * 16 + dy)
     \<and> pixel i (tm_fb s) (col * 8 + dx) (row * 16 + dy) = cell_pixel i f (pg_text p (pg_top p + row) col) dx dy)"

lemma showing_run:
  assumes "showing out i f s p" and "refines out i f (tm_con s) m p'"
  shows "\<exists>s'. m s = (Ok (), s') \<and> showing out i f s' p'"
proof -
  obtain c' where c: "tracks i (tm_con s) m c'" "holds out i f c' p'" using assms(2) by (auto simp: refines_def)
  then obtain fb where "m s = (Ok (), s\<lparr>tm_con := c', tm_fb := fb\<rparr>)" "synced i fb" "matches i c' (pixel i fb)"
    using assms(1) unfolding tracks_def showing_def by blast
  with c(2) assms(1) show ?thesis by (auto simp: showing_def)
qed

lemma showing_cell:
  assumes s: "showing out i f s p" and row: "row < pg_rows p" and col: "col < pg_cols p" and d: "dx < 8" "dy < 16"
  shows "pixel i (tm_fb s) (col * 8 + dx) (row * 16 + dy) = cell_pixel i f (pg_text p (pg_top p + row) col) dx dy"
    and "col * 8 + dx < fi_width i" and "row * 16 + dy < fi_height i"
proof -
  have h: "con_ok i (tm_con s)" "con_font (tm_con s) = f" "ring out (tm_con s) p" "matches i (tm_con s) (pixel i (tm_fb s))"
    using s by (auto simp: showing_def holds_def)
  note g = grid_bounds [OF con_okD(1) [OF h(1)]]
  have eq: "con_columns (tm_con s) = pg_cols p" "con_rows (tm_con s) = pg_rows p" "con_view_top (tm_con s) = pg_top p"
    using h(3) by (simp_all add: ring_def)
  have dv: "(col * 8 + dx) div 8 = col" "(col * 8 + dx) mod 8 = dx" "(row * 16 + dy) div 16 = row" "(row * 16 + dy) mod 16 = dy"
    using d by simp_all
  show "col * 8 + dx < fi_width i" "row * 16 + dy < fi_height i" using g(3,4) eq row col d by linarith+
  have top: "pg_top p \<le> p_live p" using con_okD(4) [OF h(1)] ring_live [OF h(3)] eq(3) by simp
  have "pg_top p + row \<le> pg_line p \<or> pg_top p + row < pg_rows p" "pg_line p < pg_top p + row + 402"
    using top row h(3) by (auto simp: p_live_def ring_def)
  with h(3) col have "get_cell (tm_con s) (pg_top p + row) col = pg_text p (pg_top p + row) col"
    unfolding ring_def by blast
  with matchesD [OF h(4), of "col * 8 + dx" "row * 16 + dy"] row col
  show "pixel i (tm_fb s) (col * 8 + dx) (row * 16 + dy) = cell_pixel i f (pg_text p (pg_top p + row) col) dx dy"
    using d by (simp add: dv eq cell_at_def h(2))
qed

lemma showing_present:
  assumes s: "showing out i f s p"
  shows "\<exists>s'. on_fb present s = (Ok (), s') \<and> showing out i f s' p \<and> visible i f s' p"
proof -
  have "screen_ok i" "synced i (tm_fb s)" using s by (auto simp: showing_def holds_def con_ok_def view_ok_def grid_ok_def)
  then obtain fb where fb: "present (tm_fb s) = (Ok (), fb)" "synced i fb" "fb_back fb = fb_back (tm_fb s)"
    "\<forall>x<fi_width i. \<forall>y<fi_height i. displayed i fb x y"
    using present_run by blast
  have sh: "showing out i f (s\<lparr>tm_fb := fb\<rparr>) p" using s fb(2,3) by (simp add: showing_def pixel_def [abs_def])
  have "visible i f (s\<lparr>tm_fb := fb\<rparr>) p"
    using showing_cell [OF sh] fb(4) by (simp add: visible_def)
  with sh fb(1) show ?thesis by (simp add: on_fb_def)
qed

lemma showing_op:
  assumes s: "showing out i f s p" and m: "refines out i f (tm_con s) m p'"
  shows "\<exists>s'. bindR (with_console m) (\<lambda>_. on_fb present) s = (Ok (), s') \<and> showing out i f s' p' \<and> visible i f s' p'"
proof -
  obtain s1 where "m s = (Ok (), s1)" "showing out i f s1 p'" using showing_run [OF s m] by blast
  with showing_present s show ?thesis by (auto simp: bindR_def with_console_def showing_def)
qed

end
