(* ===== verification/Console_Ops.thy ===== *)
theory Console_Ops
  imports Console_Page
begin

text \<open>
  The public operations of the console over the page: what is on display after any sequence of
  them, the state after initialization, and the line that the keyboard editor hands to the shell.
\<close>

section \<open>Requests\<close>

datatype con_op = Print bytes | PrintIn color bytes | ScrollUp nat | ScrollDown nat | Cls | Typed nat
  | Ink color | Paper color

fun run_op :: "(bytes \<Rightarrow> unit tp) \<Rightarrow> con_op \<Rightarrow> unit tp" where
  "run_op execute (Print txt) = write_fmt txt"
| "run_op execute (PrintIn col txt) = write_fmt_color col txt"
| "run_op execute (ScrollUp n) = console_scroll_up n"
| "run_op execute (ScrollDown n) = console_scroll_down n"
| "run_op execute Cls = console_clear"
| "run_op execute (Typed k) = console_receive_key execute k"
| "run_op execute (Ink col) = with_console (set_foreground col)"
| "run_op execute (Paper col) = with_console (set_background col)"

primrec run_ops :: "(bytes \<Rightarrow> unit tp) \<Rightarrow> con_op list \<Rightarrow> unit tp" where
  "run_ops execute [] = returnR ()"
| "run_ops execute (op # ops) = bindR (run_op execute op) (\<lambda>_. run_ops execute ops)"

fun p_op :: "con_op \<Rightarrow> page \<Rightarrow> page" where
  "p_op (Print txt) p = fold p_put txt p"
| "p_op (PrintIn col txt) p = (fold p_put txt (p\<lparr>pg_fg := col\<rparr>))\<lparr>pg_fg := pg_fg p\<rparr>"
| "p_op (ScrollUp n) p = p_up n p"
| "p_op (ScrollDown n) p = p_down n p"
| "p_op Cls p = p_clear p"
| "p_op (Typed k) p = p_key k p"
| "p_op (Ink col) p = p\<lparr>pg_fg := col\<rparr>"
| "p_op (Paper col) p = p\<lparr>pg_bg := col\<rparr>"

text \<open>The requests covered: no backspace over the start of a line once the screen has scrolled, no
  clearing with a colored background, and no key that runs the shell.\<close>

fun tame :: "con_op \<Rightarrow> page \<Rightarrow> bool" where
  "tame (Print txt) p = tame_text txt p"
| "tame (PrintIn col txt) p = tame_text txt (p\<lparr>pg_fg := col\<rparr>)"
| "tame Cls p = (pg_bg p = BLACK)"
| "tame (Typed k) p = (k \<noteq> 0x0A \<and> k \<noteq> 0x0D)"
| "tame _ p = True"

primrec tame_all :: "con_op list \<Rightarrow> page \<Rightarrow> bool" where
  "tame_all [] p = True"
| "tame_all (op # ops) p = (tame op p \<and> tame_all ops (p_op op p))"

text \<open>A bound on the lines that a request adds.\<close>

fun cost :: "con_op \<Rightarrow> nat" where
  "cost (Print txt) = length txt"
| "cost (PrintIn col txt) = length txt"
| "cost (Typed k) = 1"
| "cost _ = 0"

lemma p_line_key: "pg_line (p_key k p) \<le> pg_line p + 1"
proof -
  have "pg_line (p_put ch (p\<lparr>pg_input := xs\<rparr>)) \<le> pg_line p + 1" for ch xs
    using p_line_put [of ch "p\<lparr>pg_input := xs\<rparr>"] by simp
  then show ?thesis using p_line_put [of 10 p] by (simp add: p_key_def)
qed

lemma p_line_text: "pg_line (fold p_put txt p) \<le> pg_line p + length txt"
proof (induction "txt" arbitrary: p)
  case (Cons ch bs)
  show ?case using Cons [of "p_put ch p"] p_line_put [of ch p] by simp
qed simp

lemma p_line_op: "pg_line (p_op op p) \<le> pg_line p + cost op"
proof (cases op)
  case (PrintIn col bs)
  then show ?thesis using p_line_text [of bs "p\<lparr>pg_fg := col\<rparr>"] by simp
qed (simp_all add: p_line_text p_line_key [simplified] p_up_def p_down_def p_clear_def)

lemma visible_update:
  "visible i f (s\<lparr>tm_con := c\<rparr>) (p\<lparr>pg_fg := col\<rparr>) = visible i f s p"
  "visible i f (s\<lparr>tm_con := c\<rparr>) (p\<lparr>pg_bg := col\<rparr>) = visible i f s p"
  by (simp_all add: visible_def)

lemma run_op_shows:
  assumes s: "showing out i f s p" and v: "visible i f s p" and lim: "pg_line p + cost op + 1 < u64_limit" and t: "tame op p"
  shows "\<exists>s'. run_op execute op s = (Ok (), s') \<and> showing out i f s' (p_op op p) \<and> visible i f s' (p_op op p)"
proof (cases op)
  case (Print bs)
  have "refines out i f (tm_con s) (write_str bs) (fold p_put bs p)"
    using s lim t Print by (intro conjunct1 [OF refines_write_str]) (auto simp: showing_def)
  then show ?thesis using showing_op [OF s] Print by (simp add: write_fmt_def)
next
  case (PrintIn col bs)
  let ?q = "p\<lparr>pg_fg := col\<rparr>"
  have h: "holds out i f (tm_con s) p" using s by (simp add: showing_def)
  have "refines out i f (tm_con s) (bindR (get_con con_fg) (\<lambda>old_color. bindR (set_foreground col) (\<lambda>_.
       bindR (write_str bs) (\<lambda>_. set_foreground old_color)))) (p_op op p)"
  proof (intro refines_get refines_bind [OF refines_fg [OF h]])
    fix c1 assume c1: "holds out i f c1 ?q"
    have w: "refines out i f c1 (write_str bs) (fold p_put bs ?q)"
      using c1 lim t PrintIn by (intro conjunct1 [OF refines_write_str]) auto
    have "con_fg (tm_con s) = pg_fg p" using h by (simp add: holds_def ring_def)
    then show "refines out i f c1 (bindR (write_str bs) (\<lambda>_. set_foreground (con_fg (tm_con s)))) (p_op op p)"
      using refines_bind [OF w] refines_fg PrintIn by simp
  qed
  then show ?thesis using showing_op [OF s] PrintIn by (simp add: write_fmt_color_def)
next
  case (ScrollUp n)
  then show ?thesis using showing_op [OF s refines_up] s by (simp add: console_scroll_up_def showing_def)
next
  case (ScrollDown n)
  then show ?thesis using showing_op [OF s refines_down] s by (simp add: console_scroll_down_def showing_def)
next
  case Cls
  then show ?thesis using showing_op [OF s refines_clear] s t by (simp add: console_clear_def showing_def)
next
  case (Typed k)
  have "refines out i f (tm_con s) (con_receive_key k) (p_key k p)"
    using s lim Typed by (intro refines_key) (auto simp: showing_def)
  then show ?thesis using showing_op [OF s] t Typed by (simp add: console_receive_key_def)
next
  case (Ink col)
  have "\<exists>s'. set_foreground col s = (Ok (), s') \<and> showing out i f s' (p_op op p)"
    using showing_run [OF s refines_fg] s Ink by (auto simp: showing_def)
  then show ?thesis
    using s v Ink by (auto simp: with_console_def showing_def set_foreground_def upd_con_def visible_update)
next
  case (Paper col)
  have "\<exists>s'. set_background col s = (Ok (), s') \<and> showing out i f s' (p_op op p)"
    using showing_run [OF s refines_bg] s Paper by (auto simp: showing_def)
  then show ?thesis
    using s v Paper by (auto simp: with_console_def showing_def set_background_def upd_con_def visible_update)
qed

lemma run_ops_show:
  assumes "showing out i f s p" and "visible i f s p" and "tame_all ops p"
    and "pg_line p + sum_list (map cost ops) + 1 < u64_limit"
  shows "\<exists>s'. run_ops execute ops s = (Ok (), s') \<and> showing out i f s' (fold p_op ops p) \<and> visible i f s' (fold p_op ops p)"
  using assms
proof (induction ops arbitrary: s p)
  case (Cons op ops)
  obtain s1 where s1: "run_op execute op s = (Ok (), s1)" "showing out i f s1 (p_op op p)" "visible i f s1 (p_op op p)"
    using run_op_shows [OF Cons.prems(1,2), of op execute] Cons.prems(3,4) by auto
  moreover have "pg_line (p_op op p) + sum_list (map cost ops) + 1 < u64_limit"
    using p_line_op [of op p] Cons.prems(4) by simp
  ultimately show ?case
    using Cons.IH [OF s1(2,3)] Cons.prems(3) by (simp add: bindR_def)
qed simp


section \<open>Initialization\<close>

definition blank_page :: "info \<Rightarrow> page" where
  "blank_page i = \<lparr>pg_cols = fi_width i div 8, pg_rows = fi_height i div 16, pg_text = (\<lambda>_ _. EMPTY), pg_x = 0, pg_line = 0,
     pg_top = 0, pg_fg = WHITE, pg_bg = BLACK, pg_input = [], pg_ready = False\<rparr>"

lemma blank_holds:
  assumes "screen_ok i" and "font_ok f"
  shows "holds (\<lambda>_. EMPTY) i f (clear_c (console_new f (fi_width i) (fi_height i))) (blank_page i)"
proof -
  have "fi_width i div 8 \<le> 240" "fi_height i div 16 \<le> 67" using assms(1) by (auto simp: screen_ok_def)
  then show ?thesis
    using assms by (simp add: holds_def ring_def con_ok_def view_ok_def grid_ok_def clear_c_def console_new_def blank_page_def
        live_view_top_def get_cell_def EMPTY_def)
qed

lemma console_init_run:
  assumes "screen_ok i" and "synced i (tm_fb s)" and "font_ok f"
  shows "\<exists>s'. console_init f s = (Ok (), s') \<and> showing (\<lambda>_. EMPTY) i f s' (fold p_put [0x24, 0x20] (blank_page i))
    \<and> visible i f s' (fold p_put [0x24, 0x20] (blank_page i))"
proof -
  let ?n = "console_new f (fi_width i) (fi_height i)"
  let ?s = "s\<lparr>tm_con := ?n, tm_init := True\<rparr>"
  have info: "fb_info (tm_fb s) = Some i" using assms(2) by (simp add: synced_def)
  have "fi_width i div 8 \<le> 240" "fi_height i div 16 \<le> 67" using assms(1) by (auto simp: screen_ok_def)
  then have g: "grid_ok i ?n" using assms(1,3) by (simp add: grid_ok_def console_new_def)
  obtain fb where fb: "con_clear ?s = (Ok (), ?s\<lparr>tm_con := clear_c ?n, tm_fb := fb\<rparr>)" "synced i fb"
    "\<And>x y. x < fi_width i \<Longrightarrow> y < fi_height i \<Longrightarrow> pixel i fb x y = color_word i BLACK"
    using paintsE [OF paints_clear [OF g], of ?s] assms(2) by (auto simp: console_new_def)
  have "matches i (clear_c ?n) (pixel i fb)"
    unfolding matches_def
  proof (intro allI impI)
    fix a b assume ab: "a div 8 < con_columns (clear_c ?n)" "b div 16 < con_rows (clear_c ?n)"
    then have "a < fi_width i" "b < fi_height i" using grid_bounds(3,4) [OF grid_clear [OF g]] by linarith+
    then show "pixel i fb a b = cell_at i (clear_c ?n) a b" using fb(3) matchesD [OF matches_clear [OF g] ab] by simp
  qed
  then have sh: "showing (\<lambda>_. EMPTY) i f (?s\<lparr>tm_con := clear_c ?n, tm_fb := fb\<rparr>) (blank_page i)"
    using blank_holds [OF assms(1,3)] fb(2) by (simp add: showing_def)
  have "refines (\<lambda>_. EMPTY) i f (tm_con (?s\<lparr>tm_con := clear_c ?n, tm_fb := fb\<rparr>)) (write_str [0x24, 0x20])
      (fold p_put [0x24, 0x20] (blank_page i))"
    using sh by (intro conjunct1 [OF refines_write_str]) (simp_all add: showing_def blank_page_def)
  moreover have "write_str [0x24, 0x20] = prompt"
    by (simp add: prompt_def) (rule ext, auto simp: bindR_def split: prod.splits res.splits)
  ultimately have "\<exists>s'. bindR (with_console prompt) (\<lambda>_. on_fb present) (?s\<lparr>tm_con := clear_c ?n, tm_fb := fb\<rparr>) = (Ok (), s')
      \<and> showing (\<lambda>_. EMPTY) i f s' (fold p_put [0x24, 0x20] (blank_page i))
      \<and> visible i f s' (fold p_put [0x24, 0x20] (blank_page i))"
    using showing_op [OF sh] by simp
  then show ?thesis
    using fb(1) by (simp add: console_init_def bindR_def on_fb_def fb_width_def fb_height_def info with_console_def)
qed

text \<open>On an initialized framebuffer the console starts with the prompt on an otherwise black
  screen, on display.\<close>

theorem console_init_prompt:
  assumes "screen_ok i" and "synced i (tm_fb s)" and "font_ok f"
  shows "\<exists>s'. console_init f s = (Ok (), s') \<and> showing (\<lambda>_. EMPTY) i f s' (fold p_put [0x24, 0x20] (blank_page i))
    \<and> visible i f s' (fold p_put [0x24, 0x20] (blank_page i))"
  by (rule console_init_run [OF assms])

section \<open>The line editor\<close>

lemma p_put_input: "pg_input (p_put ch p) = pg_input p"
  by (simp add: p_put_def Let_def p_newline_def p_write_def p_back_def p_follow_def p_set_def)

lemma typed_input:
  assumes "\<forall>k\<in>set ks. 0x20 \<le> k \<and> k < 0x7F" and "length (pg_input p) \<le> 256"
  shows "pg_input (fold p_key ks p) = take 256 (pg_input p @ map of_nat ks)"
  using assms
proof (induction ks arbitrary: p)
  case (Cons k ks)
  have "pg_input (p_key k p) = (if length (pg_input p) < 256 then pg_input p @ [of_nat k] else pg_input p)"
    using Cons.prems(1) by (simp add: p_key_def p_put_input)
  then show ?case using Cons by (cases "length (pg_input p) < 256") (auto simp: take_Cons')
qed simp

lemma fold_typed: "fold p_op (map Typed ks) p = fold p_key ks p"
  by (induction ks arbitrary: p) simp_all

lemma tame_typed: "\<forall>k\<in>set ks. k \<noteq> 0x0A \<and> k \<noteq> 0x0D \<Longrightarrow> tame_all (map Typed ks) p"
  by (induction ks arbitrary: p) simp_all

lemma cost_typed: "sum_list (map (cost \<circ> Typed) ks) = length ks"
  by (induction ks) simp_all

lemma utf8_ascii: "\<forall>b\<in>set bs. b < 0x80 \<Longrightarrow> utf8_valid bs"
  by (induction bs) simp_all

text \<open>The page after a line has been entered and taken.\<close>

definition entered :: "page \<Rightarrow> page" where
  "entered p = (p_put 0x0A p)\<lparr>pg_input := [], pg_ready := False\<rparr>"

lemma read_line_shows:
  assumes "showing out i f s p" and "pg_ready p"
  shows "\<exists>s'. con_read_line 256 s = (Ok (Some (pg_input p)), s') \<and> showing out i f s' (p\<lparr>pg_input := [], pg_ready := False\<rparr>)"
proof -
  let ?c = "(tm_con s)\<lparr>con_input_len := 0, con_line_ready := False\<rparr>"
  have h: "con_line_ready (tm_con s)" "con_input_len (tm_con s) \<le> 256" "length (con_input (tm_con s)) = 256"
    "pg_input p = take (con_input_len (tm_con s)) (con_input (tm_con s))" "ring out (tm_con s) p"
    using assms by (auto simp: showing_def holds_def ring_def)
  have "ring out ?c (p\<lparr>pg_input := [], pg_ready := False\<rparr>)" using h(5) by (simp add: ring_def get_cell_def)
  moreover have "same_view (tm_con s) ?c" by (simp add: same_view_def)
  ultimately have "showing out i f (s\<lparr>tm_con := ?c\<rparr>) (p\<lparr>pg_input := [], pg_ready := False\<rparr>)"
    using assms(1) by (simp add: showing_def holds_def con_ok_update same_view_matches)
  moreover have "con_read_line 256 s = (Ok (Some (pg_input p)), s\<lparr>tm_con := ?c\<rparr>)"
    using h(1-4) by (simp add: con_read_line_def bindR_def get_con_def upd_con_def)
  ultimately show ?thesis by blast
qed

text \<open>C24: A line typed on the keyboard and entered reaches the shell byte for byte (the first 256
  bytes of it), the screen shows it, the editor is empty again when the shell runs, and the prompt
  follows.\<close>

theorem typed_line_reaches_shell:
  assumes "showing out i f s p" and "visible i f s p" and "pg_input p = []"
    and ks: "\<forall>k\<in>set ks. 0x20 \<le> k \<and> k < 0x7F" and "pg_line p + length ks + 2 < u64_limit" and k: "enter = 0x0A \<or> enter = 0x0D"
  shows "\<exists>s1 s2. run_ops execute (map Typed ks) s = (Ok (), s1) \<and> visible i f s1 (fold p_key ks p)
    \<and> showing out i f s2 (entered (fold p_key ks p))
    \<and> console_receive_key execute enter s1
        = bindR (bindR (execute (take 256 (map of_nat ks))) (\<lambda>_. with_console prompt)) (\<lambda>_. on_fb present) s2"
proof -
  let ?p = "fold p_key ks p" and ?cmd = "take 256 (map of_nat ks) :: bytes"
  have input: "pg_input ?p = ?cmd" using typed_input [OF ks] assms(3) by simp
  have ne: "\<forall>k\<in>set ks. k \<noteq> 0x0A \<and> k \<noteq> 0x0D" using ks by auto
  have line: "pg_line ?p \<le> pg_line p + length ks"
  proof (induction ks arbitrary: p)
    case (Cons k ks)
    show ?case using Cons [of "p_key k p"] p_line_key [of k p] by (simp del: One_nat_def)
  qed simp
  obtain s1 where s1: "run_ops execute (map Typed ks) s = (Ok (), s1)" "showing out i f s1 ?p" "visible i f s1 ?p"
    using run_ops_show [OF assms(1,2) tame_typed [OF ne], of execute] assms(5) by (simp add: cost_typed fold_typed) blast
  have "refines out i f (tm_con s1) (con_receive_key enter) (p_key enter ?p)"
    using s1(2) line assms(5) by (intro refines_key) (auto simp: showing_def)
  then obtain s1' where s1': "con_receive_key enter s1 = (Ok (), s1')" "showing out i f s1' ((p_put 0x0A ?p)\<lparr>pg_ready := True\<rparr>)"
    using showing_run [OF s1(2)] k by (auto simp: p_key_def)
  obtain s2 where s2: "con_read_line 256 s1' = (Ok (Some ?cmd), s2)" "showing out i f s2 (entered ?p)"
    using read_line_shows [OF s1'(2)] by (auto simp: p_put_input input entered_def)
  have "utf8_valid ?cmd"
  proof (rule utf8_ascii, rule ballI)
    fix b assume "b \<in> set ?cmd"
    then have "b \<in> set (map of_nat ks)" by (rule in_set_takeD)
    then obtain k where "b = of_nat k" "k < 0x7F" using ks by auto
    then show "b < 0x80" by (simp add: word_less_nat_alt unsigned_of_nat take_bit_eq_mod)
  qed
  moreover have "tm_init s1" using s1(2) by (simp add: showing_def)
  ultimately have "console_receive_key execute enter s1
      = bindR (bindR (execute ?cmd) (\<lambda>_. with_console prompt)) (\<lambda>_. on_fb present) s2"
    using k s1'(1) s2(1) by (simp add: console_receive_key_def bindR_def with_console_def)
  with s1(1,3) s2(2) show ?thesis by blast
qed

section \<open>Where the screen is left behind\<close>

text \<open>A backspace at the start of a line, once the screen has scrolled, moves the window up by one
  line but redraws one cell only: every other pixel stays, so the screen no longer shows the
  window.\<close>

theorem backspace_wrap_not_redrawn:
  assumes "showing out i f s p" and "p_wraps p" and "0 < pg_rows p" and "0 < pg_cols p" and "pg_top p = p_live p"
  shows "\<exists>s'. put_char 8 s = (Ok (), s') \<and> con_view_top (tm_con s') + 1 = pg_top p
    \<and> (\<forall>x<fi_width i. \<forall>y<fi_height i. \<not> (x div 8 = pg_cols p - 1 \<and> y div 16 = pg_rows p - 1) \<longrightarrow>
         pixel i (tm_fb s') x y = pixel i (tm_fb s) x y)"
proof -
  let ?c = "tm_con s" and ?c1 = "step_back (tm_con s)" and ?e = "erase_c (step_back (tm_con s))"
  have ok: "con_ok i ?c" and r: "ring out ?c p" using assms(1) by (auto simp: showing_def holds_def)
  have eq: "con_cursor_x ?c = 0" "con_cursor_line ?c = pg_line p" "con_rows ?c = pg_rows p" "con_columns ?c = pg_cols p"
    "con_view_top ?c = pg_top p" "pg_line p \<noteq> 0" "pg_rows p \<le> pg_line p"
    using r assms(2) by (auto simp: ring_def p_wraps_def)
  have follow: "follow_bottom s = (Ok (), s)"
    using eq(5) ring_live [OF r] assms(5) by (simp add: follow_bottom_def bindR_def get_con_def is_scrolled_def)
  have e: "con_rows ?e = pg_rows p" "con_columns ?e = pg_cols p" "con_cursor_x ?e = pg_cols p - 1" "con_view_top ?e + 1 = pg_top p"
    "cursor_row ?e = pg_rows p - 1" "grid_ok i ?e"
    using eq assms(3,5) con_okD(1) [OF con_ok_step_back [OF ok]]
    by (auto simp: erase_c_def step_back_def cursor_row_def follow_c_def live_view_top_def p_live_def)
  have "paints i ?e (render_cell (pg_rows p - 1) (pg_cols p - 1)) ?e
      (\<lambda>q a b. if a div 8 = pg_cols p - 1 \<and> b div 16 = pg_rows p - 1 then cell_at i ?e a b else q a b)"
    using e assms(3,4) by (intro paints_render_cell) simp_all
  then have "paints i ?c1 (bindR (upd_con (\<lambda>c. set_cell (con_cursor_line c) (con_cursor_x c) EMPTY c)) (\<lambda>_.
       bindR (get_con id) (\<lambda>c. render_cell (cursor_row c) (con_cursor_x c)))) ?e
      (\<lambda>q a b. if a div 8 = pg_cols p - 1 \<and> b div 16 = pg_rows p - 1 then cell_at i ?e a b else q a b)"
    using e by (intro paints_upd_bind paints_get) (simp add: erase_c_def)
  from paints_bind [OF paints_step_back this] have "paints i ?c backspace ?e
      (\<lambda>q a b. if a div 8 = pg_cols p - 1 \<and> b div 16 = pg_rows p - 1 then cell_at i ?e a b else q a b)"
    unfolding backspace_def comp_def using eq(1,2,6) by (intro paints_get) (auto simp: local_to_def)
  from paintsE [OF this refl] assms(1) obtain fb where fb: "backspace s = (Ok (), s\<lparr>tm_con := ?e, tm_fb := fb\<rparr>)"
    "\<And>x y. x < fi_width i \<Longrightarrow> y < fi_height i \<Longrightarrow> pixel i fb x y
       = (if x div 8 = pg_cols p - 1 \<and> y div 16 = pg_rows p - 1 then cell_at i ?e x y else pixel i (tm_fb s) x y)"
    unfolding showing_def by metis
  then show ?thesis using e(4) follow by (simp add: put_char_def bindR_def)
qed

section \<open>A booted terminal\<close>

text \<open>A font with one glyph, a filled box for the character 0.\<close>

definition box_font :: font where
  "box_font = \<lparr>ft_data = replicate 96 0xFF, ft_header_size = 32, ft_glyph_count = 1, ft_glyph_size = 64\<rparr>"

lemma box_font_ok: "font_ok box_font"
  by (auto simp: font_ok_def box_font_def glyph_def subslice_def)

definition tiny :: fb_desc where
  "tiny = \<lparr>ds_width = 16, ds_height = 16, ds_pitch = 64, ds_bpp = 32, ds_red = 16, ds_green = 8, ds_blue = 0\<rparr>"

definition term_off :: "fb \<Rightarrow> terminal" where
  "term_off fb = \<lparr>tm_con = console_new box_font 0 0, tm_fb = fb, tm_init = False, tm_mirror = False, tm_serial = []\<rparr>"

lemma vga_ok: "screen_ok (desc_info vga)" and tiny_ok: "screen_ok (desc_info tiny)"
  by (simp_all add: screen_ok_def desc_info_def vga_def tiny_def)

lemma vga_synced: "\<exists>fb. fb_init (Some [vga]) fb_off = (Ok (), fb) \<and> synced (desc_info vga) fb"
  using fb_init_run [of vga "[]" fb_off] vga_ok by (auto simp: vga_def)

lemma tiny_synced: "\<exists>fb. fb_init (Some [tiny]) fb_off = (Ok (), fb) \<and> synced (desc_info tiny) fb"
  using fb_init_run [of tiny "[]" fb_off] tiny_ok by (auto simp: tiny_def)

definition prompt_page :: "info \<Rightarrow> page" where
  "prompt_page i = fold p_put [0x24, 0x20] (blank_page i)"

lemma prompt_line: "pg_line (prompt_page i) \<le> 2"
  using p_line_text [of "[0x24, 0x20]" "blank_page i"] by (simp add: prompt_page_def blank_page_def)

theorem console_init_prompt_witness:
  "\<exists>fb s'. fb_init (Some [vga]) fb_off = (Ok (), fb) \<and> console_init box_font (term_off fb) = (Ok (), s')
     \<and> visible (desc_info vga) box_font s' (prompt_page (desc_info vga))"
proof -
  obtain fb where "fb_init (Some [vga]) fb_off = (Ok (), fb)" "synced (desc_info vga) fb" using vga_synced by blast
  with console_init_prompt [OF vga_ok, of "term_off fb" box_font] box_font_ok show ?thesis
    by (auto simp: term_off_def prompt_page_def)
qed

lemma booted:
  assumes "screen_ok i" and "synced i fb"
  shows "\<exists>s. showing (\<lambda>_. EMPTY) i box_font s (prompt_page i) \<and> visible i box_font s (prompt_page i)"
proof -
  show ?thesis using console_init_run [OF assms(1), of "term_off fb" box_font] assms(2) box_font_ok
    by (auto simp: term_off_def prompt_page_def)
qed


theorem typed_line_reaches_shell_witness:
  "\<exists>s s1 s2. run_ops (\<lambda>_. returnR ()) (map Typed [0x6C, 0x73]) s = (Ok (), s1)
     \<and> showing (\<lambda>_. EMPTY) (desc_info vga) box_font s2 (entered (fold p_key [0x6C, 0x73] (prompt_page (desc_info vga))))"
proof -
  let ?p = "prompt_page (desc_info vga)"
  obtain s where s: "showing (\<lambda>_. EMPTY) (desc_info vga) box_font s ?p" "visible (desc_info vga) box_font s ?p"
    using booted [OF vga_ok] vga_synced by blast
  have "pg_input ?p = []" by (simp add: prompt_page_def p_put_input blank_page_def)
  with typed_line_reaches_shell [OF s, of "[0x6C, 0x73]" "0x0A" "\<lambda>_. returnR ()"] prompt_line [of "desc_info vga"]
  show ?thesis by force
qed

theorem backspace_wrap_not_redrawn_witness:
  "\<exists>s s'. put_char 8 s = (Ok (), s') \<and> con_view_top (tm_con s) = 1 \<and> con_view_top (tm_con s') = 0"
proof -
  let ?p = "prompt_page (desc_info tiny)"
  obtain s where s: "showing (\<lambda>_. EMPTY) (desc_info tiny) box_font s ?p" using booted [OF tiny_ok] tiny_synced by blast
  have p: "pg_x ?p = 0" "pg_line ?p = 1" "pg_rows ?p = 1" "pg_cols ?p = 2" "pg_top ?p = 1"
    by (simp_all add: prompt_page_def blank_page_def desc_info_def tiny_def p_put_def p_write_def p_follow_def p_set_def
        p_newline_def p_live_def Let_def)
  have "con_view_top (tm_con s) = 1" using s p by (simp add: showing_def holds_def ring_def)
  with backspace_wrap_not_redrawn [OF s] p show ?thesis by (force simp: p_wraps_def p_live_def)
qed

end
