(* ===== verification/Syscall.thy ===== *)
theory Syscall
  imports User
begin

text \<open>
  The system calls (\<^verbatim>\<open>src/syscall.rs\<close>): checked access to user memory, the table of open files, and
  every call behind the dispatcher. A call returns a 64-bit value; an early \<open>return\<close> of an error value
  is \<open>Err\<close> until the dispatcher returns it. The entry and exit code in assembly is not modelled.
\<close>

abbreviation (input) EFAULT :: nat where "EFAULT \<equiv> 14"
abbreviation (input) ENOENT :: nat where "ENOENT \<equiv> 2"
abbreviation (input) EBADF :: nat where "EBADF \<equiv> 9"
abbreviation (input) EINVAL :: nat where "EINVAL \<equiv> 22"
abbreviation (input) EEXIST :: nat where "EEXIST \<equiv> 17"
abbreviation (input) ENOTDIR :: nat where "ENOTDIR \<equiv> 20"
abbreviation (input) ENOSYS_I :: nat where "ENOSYS_I \<equiv> 38"
abbreviation (input) ENOTTY :: nat where "ENOTTY \<equiv> 25"
abbreviation (input) EAGAIN :: nat where "EAGAIN \<equiv> 11"
abbreviation (input) O_CREAT :: nat where "O_CREAT \<equiv> 64"
abbreviation (input) O_EXCL :: nat where "O_EXCL \<equiv> 128"
abbreviation (input) O_TRUNC :: nat where "O_TRUNC \<equiv> 512"
abbreviation (input) O_APPEND :: nat where "O_APPEND \<equiv> 1024"
abbreviation (input) O_DIRECTORY :: nat where "O_DIRECTORY \<equiv> 0x10000"
abbreviation (input) PROT_WRITE :: nat where "PROT_WRITE \<equiv> 2"
abbreviation (input) PROT_EXEC :: nat where "PROT_EXEC \<equiv> 4"
abbreviation (input) MAP_ANON :: nat where "MAP_ANON \<equiv> 0x20"

record syscall_frame =
  f_rax :: nat
  f_rbx :: nat
  f_rcx :: nat
  f_rdx :: nat
  f_rsi :: nat
  f_rdi :: nat
  f_rbp :: nat
  f_r8 :: nat
  f_r9 :: nat
  f_r10 :: nat
  f_r11 :: nat
  f_r12 :: nat
  f_r13 :: nat
  f_r14 :: nat
  f_r15 :: nat

type_synonym ('d, 'm, 'a) sp = "(('d, 'm) kernel, nat, 'a) prog"

definition err :: "nat \<Rightarrow> nat" where
  "err e = (if e = 0 then 0 else u64_limit - e)"

definition fail :: "nat \<Rightarrow> ('d, 'm, 'a) sp" where
  "fail e = throwR (err e)"

section \<open>User memory\<close>

text \<open>The loop of \<open>user_range_ok\<close> over the pages.\<close>

primrec pages_mapped :: "('d, 'm) machine \<Rightarrow> 'm \<Rightarrow> nat list \<Rightarrow> (nat, bool) res" where
  "pages_mapped X m [] = Ok True"
| "pages_mapped X m (a # rest) =
     (case mc_page X a of
        None \<Rightarrow> Panic
      | Some page \<Rightarrow> if pg_translate (mc_pager X) page m = None then Ok False else pages_mapped X m rest)"

definition user_range_ok :: "('d, 'm) machine \<Rightarrow> nat \<Rightarrow> nat \<Rightarrow> ('d, 'm) kernel \<Rightarrow> (nat, bool) res" where
  "user_range_ok X p len k =
     (if len = 0 then Ok (p < USER_MAX)
      else case checked_add p (len - 1) of
        None \<Rightarrow> Ok False
      | Some e \<Rightarrow>
          if p \<ge> USER_MAX \<or> e \<ge> USER_MAX then Ok False
          else case k_mapper k of
            None \<Rightarrow> Ok False
          | Some m \<Rightarrow> pages_mapped X m (page_steps (page_down p) (page_down e + PAGE_SIZE)))"

definition range_check :: "('d, 'm) machine \<Rightarrow> nat \<Rightarrow> nat \<Rightarrow> ('d, 'm, bool) sp" where
  "range_check X p len = (\<lambda>k. (user_range_ok X p len k, k))"

definition copy_from_user :: "('d, 'm) machine \<Rightarrow> nat \<Rightarrow> nat \<Rightarrow> ('d, 'm, bytes) sp" where
  "copy_from_user X p len =
     (if len > 16 * 1024 * 1024 then fail EFAULT
      else
        bindR (range_check X p len) (\<lambda>ok.
        if \<not> ok then fail EFAULT else getsR (\<lambda>k. map (k_mem k) [p..<p + len])))"

definition copy_to_user :: "('d, 'm) machine \<Rightarrow> nat \<Rightarrow> bytes \<Rightarrow> ('d, 'm, unit) sp" where
  "copy_to_user X p dat =
     bindR (range_check X p (length dat)) (\<lambda>ok.
     if \<not> ok then fail EFAULT else poke X p dat)"

text \<open>The loop of \<open>user_string\<close>: at most \<open>fuel\<close> bytes, as in the code; \<open>ptr + i\<close> may overflow.\<close>

primrec string_loop :: "('d, 'm) machine \<Rightarrow> nat \<Rightarrow> nat \<Rightarrow> bytes \<Rightarrow> ('d, 'm, bytes) sp" where
  "string_loop X 0 a acc = fail EFAULT"
| "string_loop X (Suc fuel) a acc =
     (if a \<ge> u64_limit then panicR
      else
        bindR (range_check X a 1) (\<lambda>ok.
        if \<not> ok then fail EFAULT
        else
          bindR (getsR (\<lambda>k. k_mem k a)) (\<lambda>c.
          if c = 0 then (if utf8_valid acc then returnR acc else fail EFAULT)
          else string_loop X fuel (a + 1) (acc @ [c]))))"

definition user_string :: "('d, 'm) machine \<Rightarrow> nat \<Rightarrow> nat \<Rightarrow> ('d, 'm, bytes) sp" where
  "user_string X p mx = (if p = 0 then fail EFAULT else string_loop X mx p [])"

section \<open>Open files\<close>

text \<open>Code that runs while the guard of the table is held; the guard is released when it ends.\<close>

definition locked :: "(open_file option list \<Rightarrow> ('d, 'm, 'a) sp) \<Rightarrow> ('d, 'm, 'a) sp" where
  "locked m =
     bindR lock_fds (\<lambda>table k.
     case m table k of
       (Ok x, k') \<Rightarrow> (Ok x, k'\<lparr>k_fds_locked := False\<rparr>)
     | (Err e, k') \<Rightarrow> (Err e, k'\<lparr>k_fds_locked := False\<rparr>)
     | (Panic, k') \<Rightarrow> (Panic, k')
     | (Hang, k') \<Rightarrow> (Hang, k'))"

definition table_get :: "open_file option list \<Rightarrow> nat \<Rightarrow> open_file option" where
  "table_get table fd = (if fd < length table then table ! fd else None)"

definition get_file :: "open_file option list \<Rightarrow> nat \<Rightarrow> ('d, 'm, open_file) sp" where
  "get_file table fd = (case table_get table fd of Some f \<Rightarrow> returnR f | None \<Rightarrow> fail EBADF)"

definition set_offset :: "nat \<Rightarrow> nat \<Rightarrow> ('d, 'm, unit) sp" where
  "set_offset fd off = modifyR (\<lambda>k. k\<lparr>k_fds := map_option (\<lambda>t.
     t[fd := map_option (\<lambda>f. f\<lparr>of_offset := off\<rparr>) (t ! fd)]) (k_fds k)\<rparr>)"

definition u64_add :: "nat \<Rightarrow> nat \<Rightarrow> ('d, 'm, nat) sp" where
  "u64_add a b = (if a + b < u64_limit then returnR (a + b) else panicR)"

fun first_free :: "nat \<Rightarrow> open_file option list \<Rightarrow> nat option" where
  "first_free i [] = None"
| "first_free i (slot # rest) = (if slot = None then Some i else first_free (Suc i) rest)"

definition alloc_slot :: "open_file \<Rightarrow> open_file option list \<Rightarrow> nat \<times> open_file option list" where
  "alloc_slot file table =
     (case first_free 3 (drop 3 table) of
        Some i \<Rightarrow> (i, table[i := Some file])
      | None \<Rightarrow> (length table, table @ [Some file]))"

definition alloc_fd :: "open_file \<Rightarrow> ('d, 'm, nat) sp" where
  "alloc_fd file =
     locked (\<lambda>table. case alloc_slot file table of (i, table') \<Rightarrow>
       bindR (store_fds table') (\<lambda>_. returnR i))"

definition on_terminal :: "'a tp \<Rightarrow> ('d, 'm, 'a) sp" where
  "on_terminal m = (\<lambda>k. case m (k_term k) of
     (Ok x, t) \<Rightarrow> (Ok x, k\<lparr>k_term := t\<rparr>)
   | (Err _, t) \<Rightarrow> (Panic, k\<lparr>k_term := t\<rparr>)
   | (Panic, t) \<Rightarrow> (Panic, k\<lparr>k_term := t\<rparr>)
   | (Hang, t) \<Rightarrow> (Hang, k\<lparr>k_term := t\<rparr>))"

text \<open>A file system call whose error is an answer.\<close>

definition try_files :: "('d, 'a) ff \<Rightarrow> ('d, 'm, 'a option) sp" where
  "try_files m = (\<lambda>k. case on_files m k of
     (Ok x, k') \<Rightarrow> (Ok (Some x), k') | (Err _, k') \<Rightarrow> (Ok None, k') | (Panic, k') \<Rightarrow> (Panic, k') | (Hang, k') \<Rightarrow> (Hang, k'))"

definition stat_path :: "('d, 'm) machine \<Rightarrow> bytes \<Rightarrow> ('d, fs_stat) ff" where
  "stat_path X path = ff_stat (mc_dev X) (mc_drives X) path"

definition syscall_exit :: "nat \<Rightarrow> ('d, 'm, nat) sp" where
  "syscall_exit status =
     bindR (modifyR (\<lambda>k. k\<lparr>k_exit_status := status, k_exit_requested := True\<rparr>)) (\<lambda>_. returnR 0)"

definition syscall_write :: "('d, 'm) machine \<Rightarrow> nat \<Rightarrow> nat \<Rightarrow> nat \<Rightarrow> ('d, 'm, nat) sp" where
  "syscall_write X fd p len =
     bindR (copy_from_user X p len) (\<lambda>dat.
     if fd = 1 \<or> fd = 2 then
       bindR (locked (\<lambda>table. get_file table fd)) (\<lambda>_.
       bindR (on_terminal (console_print (utf8_lossy dat))) (\<lambda>_.
       returnR (length dat)))
     else
       locked (\<lambda>table.
         bindR (get_file table fd) (\<lambda>file.
         if of_flags file AND 3 = 0 then fail EBADF
         else
           bindR (if of_flags file AND O_APPEND \<noteq> 0 then
                    bindR (try_files (stat_path X (of_path file))) (\<lambda>st.
                    case st of
                      Some st \<Rightarrow> bindR (set_offset fd (st_size st)) (\<lambda>_. returnR (st_size st))
                    | None \<Rightarrow> returnR (of_offset file))
                  else returnR (of_offset file)) (\<lambda>off.
           bindR (files_or (err EINVAL) (ff_write_at (mc_dev X) (mc_drives X) (of_path file) off dat)) (\<lambda>n.
           bindR (u64_add off n) (\<lambda>off'.
           bindR (set_offset fd off') (\<lambda>_.
           returnR n)))))))"

definition syscall_read :: "('d, 'm) machine \<Rightarrow> nat \<Rightarrow> nat \<Rightarrow> nat \<Rightarrow> ('d, 'm, nat) sp" where
  "syscall_read X fd p len =
     (if fd = 0 then locked (\<lambda>table. bindR (get_file table 0) (\<lambda>_. returnR 0))
      else
        locked (\<lambda>table.
          bindR (get_file table fd) (\<lambda>file.
          bindR (files_or (err EINVAL) (ff_read_at (mc_dev X) (mc_drives X) (of_path file) (of_offset file) (min len (1024 * 1024)))) (\<lambda>dat.
          bindR (copy_to_user X p dat) (\<lambda>_.
          bindR (u64_add (of_offset file) (length dat)) (\<lambda>off'.
          bindR (set_offset fd off') (\<lambda>_.
          returnR (length dat))))))))"

definition syscall_openat :: "('d, 'm) machine \<Rightarrow> nat \<Rightarrow> nat \<Rightarrow> nat \<Rightarrow> nat \<Rightarrow> ('d, 'm, nat) sp" where
  "syscall_openat X dirfd path_ptr flags mode =
     bindR (user_string X path_ptr 4096) (\<lambda>path.
     bindR (try_files (stat_path X path)) (\<lambda>st.
     bindR (case st of
              Some s \<Rightarrow> returnR s
            | None \<Rightarrow>
                if flags AND O_CREAT \<noteq> 0 then
                  bindR (files_or (err ENOENT) (ff_touch (mc_dev X) (mc_drives X) path)) (\<lambda>_.
                  files_or (err ENOENT) (stat_path X path))
                else fail ENOENT) (\<lambda>st.
     if flags AND O_EXCL \<noteq> 0 \<and> flags AND O_CREAT \<noteq> 0 then fail EEXIST
     else if flags AND O_DIRECTORY \<noteq> 0 \<and> st_file_type st \<noteq> Directory then fail ENOTDIR
     else
       bindR (if flags AND O_TRUNC \<noteq> 0 \<and> st_file_type st = Regular
              then files_or (err EINVAL) (ff_write_file (mc_dev X) (mc_drives X) path []) else returnR ()) (\<lambda>_.
       alloc_fd \<lparr>of_path = path, of_offset = 0, of_flags = flags\<rparr>))))"

definition syscall_open :: "('d, 'm) machine \<Rightarrow> nat \<Rightarrow> nat \<Rightarrow> nat \<Rightarrow> ('d, 'm, nat) sp" where
  "syscall_open X path_ptr flags mode = syscall_openat X (u64_limit - 100) path_ptr flags mode"

definition syscall_close :: "nat \<Rightarrow> ('d, 'm, nat) sp" where
  "syscall_close fd =
     locked (\<lambda>table.
       if fd \<ge> length table \<or> table ! fd = None then fail EBADF
       else bindR (store_fds (table[fd := None])) (\<lambda>_. returnR 0))"

section \<open>File information\<close>

definition stat_bytes :: "fs_stat \<Rightarrow> bytes" where
  "stat_bytes s =
     le_bytes 8 0 @ le_bytes 8 (st_ino s) @ le_bytes 8 (st_links s) @ le_bytes 4 (st_mode s) @ le_bytes 4 (st_uid s)
     @ le_bytes 4 (st_gid s) @ le_bytes 4 0 @ le_bytes 8 0 @ le_bytes 8 (st_size s) @ le_bytes 8 4096
     @ le_bytes 8 (st_blocks s) @ le_bytes 8 (st_atime s) @ le_bytes 8 0 @ le_bytes 8 (st_mtime s) @ le_bytes 8 0
     @ le_bytes 8 (st_ctime s) @ le_bytes 8 0 @ le_bytes 8 0 @ le_bytes 8 0 @ le_bytes 8 0"

definition write_stat :: "('d, 'm) machine \<Rightarrow> nat \<Rightarrow> fs_stat \<Rightarrow> ('d, 'm, nat) sp" where
  "write_stat X p s = bindR (copy_to_user X p (stat_bytes s)) (\<lambda>_. returnR 0)"

definition syscall_stat :: "('d, 'm) machine \<Rightarrow> nat \<Rightarrow> nat \<Rightarrow> ('d, 'm, nat) sp" where
  "syscall_stat X path_ptr stat_ptr =
     bindR (user_string X path_ptr 4096) (\<lambda>path.
     bindR (files_or (err ENOENT) (stat_path X path)) (\<lambda>st.
     write_stat X stat_ptr st))"

definition synthetic_stat :: "nat \<Rightarrow> fs_stat" where
  "synthetic_stat fd = \<lparr>st_ino = fd mod u32_limit, st_mode = 0x2190, st_file_type = CharDevice, st_uid = 0, st_gid = 0,
     st_size = 0, st_links = 1, st_blocks = 0, st_atime = 0, st_mtime = 0, st_ctime = 0\<rparr>"

definition syscall_fstat :: "('d, 'm) machine \<Rightarrow> nat \<Rightarrow> nat \<Rightarrow> ('d, 'm, nat) sp" where
  "syscall_fstat X fd stat_ptr =
     (if fd = 1 \<or> fd = 2 then write_stat X stat_ptr (synthetic_stat fd)
      else
        locked (\<lambda>table.
          bindR (get_file table fd) (\<lambda>file.
          bindR (files_or (err ENOENT) (stat_path X (of_path file))) (\<lambda>st.
          write_stat X stat_ptr st))))"

definition syscall_newfstatat :: "('d, 'm) machine \<Rightarrow> nat \<Rightarrow> nat \<Rightarrow> nat \<Rightarrow> nat \<Rightarrow> ('d, 'm, nat) sp" where
  "syscall_newfstatat X dirfd path_ptr stat_ptr flags = syscall_stat X path_ptr stat_ptr"

text \<open>A 64-bit value as a signed number.\<close>

definition to_i64 :: "nat \<Rightarrow> int" where
  "to_i64 n = (if n < 2 ^ 63 then int n else int n - 2 ^ 64)"

definition i64_checked_add :: "int \<Rightarrow> int \<Rightarrow> int option" where
  "i64_checked_add a b = (if - (2 ^ 63) \<le> a + b \<and> a + b < 2 ^ 63 then Some (a + b) else None)"

definition syscall_lseek :: "('d, 'm) machine \<Rightarrow> nat \<Rightarrow> int \<Rightarrow> nat \<Rightarrow> ('d, 'm, nat) sp" where
  "syscall_lseek X fd off whence =
     locked (\<lambda>table.
       bindR (get_file table fd) (\<lambda>file.
       bindR (files_or (err ENOENT) (stat_path X (of_path file))) (\<lambda>st.
       bindR (if whence = 0 then returnR 0
              else if whence = 1 then returnR (to_i64 (of_offset file))
              else if whence = 2 then returnR (to_i64 (st_size st))
              else fail EINVAL) (\<lambda>base.
       case i64_checked_add base off of
         Some v \<Rightarrow> if v \<ge> 0 then bindR (set_offset fd (nat v)) (\<lambda>_. returnR (nat v)) else fail EINVAL
       | None \<Rightarrow> fail EINVAL))))"

definition syscall_access :: "('d, 'm) machine \<Rightarrow> nat \<Rightarrow> ('d, 'm, nat) sp" where
  "syscall_access X path_ptr =
     bindR (user_string X path_ptr 4096) (\<lambda>path.
     bindR (files_or (err ENOENT) (stat_path X path)) (\<lambda>_. returnR 0))"

text \<open>\<open>dup\<close> calls \<open>alloc_fd\<close> while it holds the guard.\<close>

definition syscall_dup :: "nat \<Rightarrow> ('d, 'm, nat) sp" where
  "syscall_dup fd = locked (\<lambda>table. bindR (get_file table fd) (\<lambda>file. alloc_fd file))"

definition pad_table :: "nat \<Rightarrow> open_file option list \<Rightarrow> open_file option list" where
  "pad_table n table = table @ replicate (n + 1 - length table) None"

definition syscall_dup2 :: "nat \<Rightarrow> nat \<Rightarrow> ('d, 'm, nat) sp" where
  "syscall_dup2 fd newfd =
     (if fd = newfd then returnR fd
      else
        bindR (locked (\<lambda>table. get_file table fd)) (\<lambda>file.
        locked (\<lambda>table.
          bindR (store_fds ((pad_table newfd table)[newfd := Some file])) (\<lambda>_. returnR newfd))))"

section \<open>Memory\<close>

text \<open>The answer to a call of \<open>user.rs\<close>; every error is the same number.\<close>

definition user_or :: "nat \<Rightarrow> ('d, 'm, 'a) up \<Rightarrow> ('d, 'm, 'a) sp" where
  "user_or e m = (\<lambda>k. case m k of
     (Ok x, k') \<Rightarrow> (Ok x, k') | (Err _, k') \<Rightarrow> (Err (err e), k') | (Panic, k') \<Rightarrow> (Panic, k') | (Hang, k') \<Rightarrow> (Hang, k'))"

definition syscall_mprotect :: "('d, 'm) machine \<Rightarrow> nat \<Rightarrow> nat \<Rightarrow> nat \<Rightarrow> ('d, 'm, nat) sp" where
  "syscall_mprotect X addr len prot =
     bindR (user_or EINVAL (mprotect X addr len (prot AND PROT_WRITE \<noteq> 0) (prot AND PROT_EXEC \<noteq> 0))) (\<lambda>_. returnR 0)"

definition syscall_munmap :: "('d, 'm) machine \<Rightarrow> nat \<Rightarrow> nat \<Rightarrow> ('d, 'm, nat) sp" where
  "syscall_munmap X addr len = bindR (user_or EINVAL (munmap X addr len)) (\<lambda>_. returnR 0)"

definition syscall_mmap :: "('d, 'm) machine \<Rightarrow> syscall_frame \<Rightarrow> ('d, 'm, nat) sp" where
  "syscall_mmap X frame =
     (if f_r10 frame AND MAP_ANON = 0 then fail ENOSYS_I
      else if f_rsi frame = 0 then fail EINVAL
      else
        let writable = (f_rdx frame AND PROT_WRITE \<noteq> 0); executable = (f_rdx frame AND PROT_EXEC \<noteq> 0) in
        if f_rdi frame \<noteq> 0 \<and> f_rdi frame \<noteq> u64_limit - 1
        then user_or EINVAL (map_anonymous X (f_rdi frame) (f_rsi frame) writable executable)
        else user_or EINVAL (mmap_anon X (f_rsi frame) writable executable))"

definition syscall_brk :: "('d, 'm) machine \<Rightarrow> nat \<Rightarrow> ('d, 'm, nat) sp" where
  "syscall_brk X addr =
     (if addr = 0 then user_or 0 current_brk
      else (\<lambda>k. case set_brk X addr k of
        (Ok v, k') \<Rightarrow> (Ok v, k')
      | (Err _, k') \<Rightarrow> user_or 0 current_brk k'
      | (Panic, k') \<Rightarrow> (Panic, k')
      | (Hang, k') \<Rightarrow> (Hang, k')))"

section \<open>The other calls\<close>

definition syscall_getcwd :: "('d, 'm) machine \<Rightarrow> nat \<Rightarrow> nat \<Rightarrow> ('d, 'm, nat) sp" where
  "syscall_getcwd X p buf_size =
     (if buf_size < 2 then fail EINVAL
      else bindR (copy_to_user X p [0x2F, 0]) (\<lambda>_. returnR 2))"

definition syscall_chdir :: "('d, 'm) machine \<Rightarrow> nat \<Rightarrow> ('d, 'm, nat) sp" where
  "syscall_chdir X path_ptr =
     bindR (user_string X path_ptr 4096) (\<lambda>path.
     bindR (try_files (stat_path X path)) (\<lambda>st.
     case st of
       Some s \<Rightarrow> if st_file_type s = Directory then returnR 0 else fail ENOENT
     | None \<Rightarrow> fail ENOENT))"

definition syscall_readlink :: "('d, 'm) machine \<Rightarrow> nat \<Rightarrow> nat \<Rightarrow> nat \<Rightarrow> ('d, 'm, nat) sp" where
  "syscall_readlink X path_ptr buf_ptr len =
     bindR (user_string X path_ptr 4096) (\<lambda>path.
     bindR (files_or (err ENOENT) (ff_readlink (mc_dev X) (mc_drives X) path)) (\<lambda>dat.
     let n = min (length dat) len in
     bindR (copy_to_user X buf_ptr (take n dat)) (\<lambda>_. returnR n)))"

definition syscall_getrandom :: "('d, 'm) machine \<Rightarrow> nat \<Rightarrow> nat \<Rightarrow> ('d, 'm, nat) sp" where
  "syscall_getrandom X p len =
     (let n = min len (1024 * 1024) in
      bindR (copy_to_user X p (replicate n 0)) (\<lambda>_. returnR n))"

definition uname_fields :: "bytes list" where
  "uname_fields =
     [[0x4F, 0x78, 0x65, 0x6E, 0x6E, 0x61, 0], [0x6F, 0x78, 0x65, 0x6E, 0x6E, 0x61, 0], [0x30, 0x2E, 0x31, 0x2E, 0x30, 0],
      [0x31, 0], [0x78, 0x38, 0x36, 0x5F, 0x36, 0x34, 0], [0x6F, 0x78, 0x65, 0x6E, 0x6E, 0x61, 0]]"

definition uname_bytes :: bytes where
  "uname_bytes = concat (map (\<lambda>f. f @ replicate (65 - length f) 0) uname_fields)"

definition syscall_uname :: "('d, 'm) machine \<Rightarrow> nat \<Rightarrow> ('d, 'm, nat) sp" where
  "syscall_uname X p = bindR (copy_to_user X p uname_bytes) (\<lambda>_. returnR 0)"

definition dirent_type :: "file_type \<Rightarrow> u8" where
  "dirent_type t = (if t = Directory then 4 else if t = Regular then 8 else if t = Symlink then 10 else 0)"

definition reclen_of :: "bytes \<Rightarrow> nat" where
  "reclen_of nm = (19 + length nm + 1 + 7) AND not64 7"

definition dirent64 :: "nat \<Rightarrow> dir_entry \<Rightarrow> bytes" where
  "dirent64 idx e =
     (let nm = utf8_lossy (de_name e); reclen = reclen_of nm in
      le_bytes 8 (de_ino e) @ le_bytes 8 (idx + 1) @ le_bytes 2 reclen @ [dirent_type (de_file_type e)] @ nm
      @ replicate (reclen - 19 - length nm) 0)"

text \<open>The loop of \<open>getdents64\<close> over the entries from index \<open>idx\<close>.\<close>

primrec dirents_loop :: "nat \<Rightarrow> dir_entry list \<Rightarrow> nat \<Rightarrow> bytes \<Rightarrow> nat \<Rightarrow> bytes \<times> nat" where
  "dirents_loop len [] idx out emitted = (out, emitted)"
| "dirents_loop len (e # rest) idx out emitted =
     (if length out + reclen_of (utf8_lossy (de_name e)) > len then (out, emitted)
      else dirents_loop len rest (idx + 1) (out @ dirent64 idx e) (emitted + 1))"

definition syscall_getdents64 :: "('d, 'm) machine \<Rightarrow> nat \<Rightarrow> nat \<Rightarrow> nat \<Rightarrow> ('d, 'm, nat) sp" where
  "syscall_getdents64 X fd p len =
     locked (\<lambda>table.
       bindR (get_file table fd) (\<lambda>file.
       bindR (files_or (err ENOTDIR) (ff_readdir (mc_dev X) (mc_drives X) (of_path file))) (\<lambda>entries.
       case dirents_loop len (drop (of_offset file) entries) (of_offset file) [] 0 of (out, emitted) \<Rightarrow>
         if out = [] then returnR 0
         else
           bindR (copy_to_user X p out) (\<lambda>_.
           bindR (u64_add (of_offset file) emitted) (\<lambda>off'.
           bindR (set_offset fd off') (\<lambda>_.
           returnR (length out)))))))"

definition syscall_clock_gettime :: "('d, 'm) machine \<Rightarrow> nat \<Rightarrow> ('d, 'm, nat) sp" where
  "syscall_clock_gettime X p = bindR (copy_to_user X p (replicate 16 0)) (\<lambda>_. returnR 0)"

definition syscall_futex :: "syscall_frame \<Rightarrow> ('d, 'm, nat) sp" where
  "syscall_futex frame =
     (let op = f_rsi frame AND 0x7f in if op = 0 \<or> op = 128 then fail EAGAIN else returnR 0)"

text \<open>\<open>arch_prctl\<close>: the two base registers. Writing an address that is not canonical to them, one that
  \<open>VirtAddr::new\<close> rejects, raises a general protection fault in the kernel.\<close>

definition wrmsr :: "('d, 'm) machine \<Rightarrow> (('d, 'm) kernel \<Rightarrow> ('d, 'm) kernel) \<Rightarrow> nat \<Rightarrow> ('d, 'm, unit) sp" where
  "wrmsr X upd addr = (if mc_page X addr = None then panicR else modifyR upd)"

definition syscall_arch_prctl :: "('d, 'm) machine \<Rightarrow> nat \<Rightarrow> nat \<Rightarrow> ('d, 'm, nat) sp" where
  "syscall_arch_prctl X code addr =
     (if code = 0x1002 then bindR (wrmsr X (\<lambda>k. k\<lparr>k_fs_base := addr\<rparr>) addr) (\<lambda>_. returnR 0)
      else if code = 0x1001 then bindR (wrmsr X (\<lambda>k. k\<lparr>k_gs_base := addr\<rparr>) addr) (\<lambda>_. returnR 0)
      else if code = 0x1003 then
        bindR (getsR k_fs_base) (\<lambda>v. bindR (copy_to_user X addr (le_bytes 8 v)) (\<lambda>_. returnR 0))
      else if code = 0x1004 then
        bindR (getsR k_gs_base) (\<lambda>v. bindR (copy_to_user X addr (le_bytes 8 v)) (\<lambda>_. returnR 0))
      else fail EINVAL)"

section \<open>Dispatch\<close>

definition syscall_body :: "('d, 'm) machine \<Rightarrow> syscall_frame \<Rightarrow> ('d, 'm, nat) sp" where
  "syscall_body X f =
     (let n = f_rax f in
      if n = 0 then syscall_read X (f_rdi f) (f_rsi f) (f_rdx f)
      else if n = 1 then syscall_write X (f_rdi f) (f_rsi f) (f_rdx f)
      else if n = 2 then syscall_open X (f_rdi f) (f_rsi f) (f_rdx f)
      else if n = 3 then syscall_close (f_rdi f)
      else if n = 4 then syscall_stat X (f_rdi f) (f_rsi f)
      else if n = 5 then syscall_fstat X (f_rdi f) (f_rsi f)
      else if n = 8 then syscall_lseek X (f_rdi f) (to_i64 (f_rsi f)) (f_rdx f)
      else if n = 9 then syscall_mmap X f
      else if n = 10 then syscall_mprotect X (f_rdi f) (f_rsi f) (f_rdx f)
      else if n = 11 then syscall_munmap X (f_rdi f) (f_rsi f)
      else if n = 12 then syscall_brk X (f_rdi f)
      else if n = 13 \<or> n = 14 then returnR 0
      else if n = 16 then fail ENOTTY
      else if n = 21 then syscall_access X (f_rdi f)
      else if n = 32 then syscall_dup (f_rdi f)
      else if n = 33 then syscall_dup2 (f_rdi f) (f_rsi f)
      else if n = 35 then returnR 0
      else if n = 39 then returnR 1
      else if n = 102 \<or> n = 104 \<or> n = 107 \<or> n = 108 then returnR 0
      else if n = 79 then syscall_getcwd X (f_rdi f) (f_rsi f)
      else if n = 80 then syscall_chdir X (f_rdi f)
      else if n = 89 then syscall_readlink X (f_rdi f) (f_rsi f) (f_rdx f)
      else if n = 63 then syscall_uname X (f_rdi f)
      else if n = 217 then syscall_getdents64 X (f_rdi f) (f_rsi f) (f_rdx f)
      else if n = 228 then syscall_clock_gettime X (f_rsi f)
      else if n = 202 then syscall_futex f
      else if n = 218 then returnR 1
      else if n = 273 \<or> n = 334 \<or> n = 302 \<or> n = 157 then returnR 0
      else if n = 318 then syscall_getrandom X (f_rdi f) (f_rsi f)
      else if n = 158 then syscall_arch_prctl X (f_rdi f) (f_rsi f)
      else if n = 257 then syscall_openat X (f_rdi f) (f_rsi f) (f_rdx f) (f_r10 f)
      else if n = 262 then syscall_newfstatat X (f_rdi f) (f_rsi f) (f_rdx f) (f_r10 f)
      else if n = 60 \<or> n = 231 then syscall_exit (f_rdi f)
      else if n = 24 then returnR 0
      else fail ENOSYS_I)"

definition syscall_dispatch :: "('d, 'm) machine \<Rightarrow> syscall_frame \<Rightarrow> (('d, 'm) kernel, unit, nat) prog" where
  "syscall_dispatch X f = (\<lambda>k. case syscall_body X f k of
     (Ok v, k') \<Rightarrow> (Ok v, k') | (Err e, k') \<Rightarrow> (Ok e, k') | (Panic, k') \<Rightarrow> (Panic, k') | (Hang, k') \<Rightarrow> (Hang, k'))"

end
