(* ===== verification/Syscall_Correct.thy ===== *)
theory Syscall_Correct
  imports Syscall Process
begin

text \<open>
  What system calls may do to the kernel and to the process: calls other than the memory requests change
  user memory only where the process itself could write, no call leaves the table of open files locked,
  and every call keeps the pages of the process on frames of its own.
\<close>

section \<open>Calls that leave the address space alone\<close>

text \<open>\<open>quiet\<close>: the page tables, the frames and the bookkeeping of the process are the same, and memory has
  changed at writable user addresses only.\<close>

definition quiet :: "('d, 'm) machine \<Rightarrow> ('d, 'm) kernel \<Rightarrow> bool \<Rightarrow> ('d, 'm) kernel \<Rightarrow> bool" where
  "quiet X k h k' \<longleftrightarrow> k_mapper k' = k_mapper k \<and> k_frames k' = k_frames k \<and> k_pages k' = k_pages k
     \<and> k_brk k' = k_brk k \<and> k_mmap_next k' = k_mmap_next k
     \<and> (\<forall>a. k_mem k' a \<noteq> k_mem k a \<longrightarrow> a < USER_MAX \<and> can_store X k a)"

lemma can_store_cong: "k_mapper k' = k_mapper k \<Longrightarrow> can_store X k' a = can_store X k a"
  by (simp add: can_store_def)

interpretation quiet: framing "quiet X" for X
proof
  show "quiet X k False k" for k by (simp add: quiet_def)
  show "quiet X k h k''" if "quiet X k False k'" "quiet X k' h k''" for k k' k'' h
    using that can_store_cong [of k' k X] unfolding quiet_def by metis
qed

lemmas quiet_rules = quiet.w_done quiet.w_bind quiet.w_if quiet.w_option quiet.w_prod quiet.w_let

lemma quiet_locked:
  assumes "\<And>t k. within (quiet X) k (m t k)"
  shows "within (quiet X) k (locked m k)"
proof (cases "k_fds_locked k")
  case True
  then show ?thesis by (simp add: locked_def lock_fds_def bindR_def within_def quiet_def)
next
  case False
  let ?t = "case k_fds k of Some t \<Rightarrow> t | None \<Rightarrow> [Some std_file, Some std_file, Some std_file]"
  let ?k = "k\<lparr>k_fds_locked := True, k_fds := Some ?t\<rparr>"
  obtain r k' where r: "m ?t ?k = (r, k')" by (metis surj_pair)
  have q: "quiet X k False k'" using assms [of ?k ?t] r by (simp add: within_def quiet_def can_store_def)
  have "within (quiet X) k (locked m k)
      \<longleftrightarrow> quiet X k False (case r of Ok x \<Rightarrow> k'\<lparr>k_fds_locked := False\<rparr> | Err e \<Rightarrow> k'\<lparr>k_fds_locked := False\<rparr> | _ \<Rightarrow> k')"
    using False r by (cases r) (simp_all add: locked_def lock_fds_def bindR_def within_def quiet_def Let_def)
  with q show ?thesis by (cases r) (simp_all add: quiet_def)
qed

lemma quiet_modify:
  "within (quiet X) k (store_fds t k)" "within (quiet X) k (set_offset fd off k)" "within (quiet X) k (unlock_fds k)"
  "within (quiet X) k (modifyR (\<lambda>k. k\<lparr>k_exit_status := st, k_exit_requested := b\<rparr>) k)"
  "within (quiet X) k (wrmsr X (\<lambda>k. k\<lparr>k_fs_base := v\<rparr>) v k)" "within (quiet X) k (wrmsr X (\<lambda>k. k\<lparr>k_gs_base := v\<rparr>) v k)"
  "within (quiet X) k (u64_add p q k)" "within (quiet X) k (fail e k)" "within (quiet X) k (user_or e current_brk k)"
  by (simp_all add: within_def quiet_def store_fds_def set_offset_def unlock_fds_def wrmsr_def u64_add_def fail_def
      user_or_def current_brk_def)

lemma quiet_services:
  "within (quiet X) k (files_or e m k)" "within (quiet X) k (try_files m' k)" "within (quiet X) k (on_terminal m'' k)"
  by (auto simp: files_or_def try_files_def on_files_def on_terminal_def within_def quiet_def split: prod.split res.split)

lemma pages_mapped_not_Hang: "pages_mapped X m as \<noteq> Hang"
  by (induction as) (auto split: option.split)

lemma quiet_range_check: "within (quiet X) k (range_check X p len k)"
  by (simp add: range_check_def within_def quiet_def)

lemma user_range_ok_below: "user_range_ok X p len k = Ok True \<Longrightarrow> a < len \<Longrightarrow> p + a < USER_MAX"
  by (auto simp: user_range_ok_def checked_add_def split: if_splits option.splits)

lemma quiet_copy_to_user:
  fixes X :: "('a, 'b) machine"
  shows "within (quiet X) k (copy_to_user X p dat k)"
proof -
  have "within (quiet X) k ((poke X p dat :: ('a, 'b, unit) sp) k)" if ok: "user_range_ok X p (length dat) k = Ok True"
  proof (cases "list_all (can_store X k) [p..<p + length dat]")
    case True
    have "a < USER_MAX \<and> can_store X k a" if "p \<le> a" "a < p + length dat" for a
      using True that user_range_ok_below [OF ok, of "a - p"] by (auto simp: list_all_iff)
    with True show ?thesis by (auto simp: poke_def within_def quiet_def store_bytes_def)
  qed (simp add: poke_def within_def quiet_def)
  moreover have "within (quiet X) k (r, k)" for r :: "(nat, unit) res" by (simp add: within_def quiet_def)
  ultimately show ?thesis
    by (cases "user_range_ok X p (length dat) k") (simp_all add: copy_to_user_def range_check_def bindR_def fail_def)
qed

lemma quiet_copy_from_user: "within (quiet X) k (copy_from_user X p len k)"
  unfolding copy_from_user_def by (intro quiet_rules quiet_modify quiet_range_check)

lemma quiet_string_loop: "within (quiet X) k (string_loop X n a acc k)"
  by (induction n arbitrary: k a acc)
    (simp_all only: string_loop.simps, (intro quiet_rules quiet_modify quiet_range_check | assumption)+)

lemma quiet_user_string: "within (quiet X) k (user_string X p n k)"
  unfolding user_string_def by (intro quiet_rules quiet_modify quiet_string_loop)

lemma quiet_get_file: "within (quiet X) k (get_file t fd k)"
  unfolding get_file_def by (intro quiet_rules quiet_modify)

lemma quiet_alloc_fd: "within (quiet X) k (alloc_fd f k)"
  unfolding alloc_fd_def by (intro quiet_locked quiet_rules quiet_modify)

lemma quiet_write_stat: "within (quiet X) k (write_stat X p s k)"
  unfolding write_stat_def by (intro quiet_rules quiet_copy_to_user)

lemmas quiet_intros = quiet_rules quiet_locked quiet_modify quiet_services quiet_copy_to_user quiet_copy_from_user
  quiet_user_string quiet_get_file quiet_alloc_fd quiet_write_stat

lemma quiet_calls:
  "within (quiet X) k (syscall_exit st k)" "within (quiet X) k (syscall_close fd k)"
  "within (quiet X) k (syscall_stat X p q k)" "within (quiet X) k (syscall_access X p k)"
  "within (quiet X) k (syscall_dup fd k)" "within (quiet X) k (syscall_dup2 fd fd' k)"
  "within (quiet X) k (syscall_getcwd X p n k)" "within (quiet X) k (syscall_chdir X p k)"
  "within (quiet X) k (syscall_readlink X p q n k)" "within (quiet X) k (syscall_getrandom X p n k)"
  "within (quiet X) k (syscall_uname X p k)" "within (quiet X) k (syscall_clock_gettime X p k)"
  "within (quiet X) k (syscall_futex fr k)" "within (quiet X) k (syscall_arch_prctl X c p k)"
  "within (quiet X) k (syscall_fstat X fd p k)"
  unfolding syscall_exit_def syscall_close_def syscall_stat_def syscall_access_def syscall_dup_def syscall_dup2_def
    syscall_getcwd_def syscall_chdir_def syscall_readlink_def syscall_getrandom_def syscall_uname_def
    syscall_clock_gettime_def syscall_futex_def syscall_arch_prctl_def syscall_fstat_def
  by (intro quiet_intros)+

lemma quiet_file_calls:
  "within (quiet X) k (syscall_read X fd p n k)" "within (quiet X) k (syscall_write X fd p n k)"
  "within (quiet X) k (syscall_lseek X fd off wh k)" "within (quiet X) k (syscall_openat X d p fl md k)"
  "within (quiet X) k (syscall_getdents64 X fd p n k)"
  unfolding syscall_read_def syscall_write_def syscall_lseek_def syscall_openat_def syscall_getdents64_def
  by (intro quiet_intros)+

text \<open>The numbers of the calls that change the address space.\<close>

abbreviation (input) memory_call :: "nat \<Rightarrow> bool" where
  "memory_call n \<equiv> n = 9 \<or> n = 10 \<or> n = 11 \<or> n = 12"

lemma syscall_body_quiet:
  assumes "\<not> memory_call (f_rax f)"
  shows "within (quiet X) k (syscall_body X f k)"
proof -
  have m: "f_rax f = 9 \<longleftrightarrow> False" "f_rax f = 10 \<longleftrightarrow> False" "f_rax f = 11 \<longleftrightarrow> False" "f_rax f = 12 \<longleftrightarrow> False"
    using assms by auto
  show ?thesis
    unfolding syscall_body_def Let_def m if_False syscall_open_def syscall_newfstatat_def
    by (intro quiet.w_if quiet_calls quiet_file_calls quiet.w_done quiet_modify)
qed

section \<open>Memory requests\<close>

text \<open>The effect of any call on user memory: a byte changes only where the process could write it, or
  where a new page has been mapped, and that is filled with zeros.\<close>

definition mem_effect :: "('d, 'm) machine \<Rightarrow> ('d, 'm) kernel \<Rightarrow> ('d, 'm) kernel \<Rightarrow> bool" where
  "mem_effect X k k' \<longleftrightarrow> (\<forall>a. k_mem k' a = k_mem k a
     \<or> a < USER_MAX \<and> (can_store X k a \<or> \<not> is_mapped X k (page_of a) \<and> k_mem k' a = 0))"

lemma mem_effect_same: "k_mem k' = k_mem k \<Longrightarrow> mem_effect X k k'"
  by (simp add: mem_effect_def)

lemma quiet_mem_effect: "quiet X k h k' \<Longrightarrow> mem_effect X k k'"
  by (auto simp: quiet_def mem_effect_def)

lemma grown_mem_effect:
  assumes "grown X w ps k k'" and "owns X tb others k'"
  shows "mem_effect X k k'"
  unfolding mem_effect_def
proof
  fix a
  have "in_page (page_of a) a" using page_of_eq_iff [of "page_of a" a] by simp
  moreover have "same_or_new X w ps k k' (page_of a)" using assms(1) by (simp add: grown_def)
  moreover have "a < USER_MAX" if "page_of a \<in> set (k_pages k')"
  proof -
    have "page_of a < USER_MAX" using assms(2) that by (auto simp: owns_def pages_ok_def)
    then have "page_of a + PAGE_SIZE \<le> USER_MAX" by (intro aligned_below) simp_all
    with page_of_gt [of a] show ?thesis by simp
  qed
  ultimately show "k_mem k' a = k_mem k a
     \<or> a < USER_MAX \<and> (can_store X k a \<or> \<not> is_mapped X k (page_of a) \<and> k_mem k' a = 0)"
    by (auto simp: same_or_new_def same_page_def fresh_page_def)
qed

text \<open>A request changes nothing of the table of open files.\<close>

definition request_effect :: "('d, 'm) machine \<Rightarrow> ('d, 'm) kernel \<Rightarrow> ('d, 'm) kernel \<Rightarrow> bool" where
  "request_effect X k k' \<longleftrightarrow> mem_effect X k k' \<and> k_fds k' = k_fds k \<and> k_fds_locked k' = k_fds_locked k"

lemma request_effect_refl: "request_effect X k k"
  by (simp add: request_effect_def mem_effect_def)

lemma same_rest_fds: "same_rest k k' \<Longrightarrow> k_fds k' = k_fds k \<and> k_fds_locked k' = k_fds_locked k"
  by (auto simp: same_rest_def dest: arg_cong [where f = k_fds] arg_cong [where f = k_fds_locked])

lemma map_anonymous_effect:
  assumes "owns X tb others k" and "paging_ok X tb" and "start < u64_limit"
  shows "request_effect X k (snd (map_anonymous X start len w x k))"
proof -
  note spec = map_anonymous_spec [OF assms, where len = len and w = w and x = x]
  from spec(1) obtain os where "owns X tb os (snd (map_anonymous X start len w x k))"
    by (auto simp: outcome_def)
  from grown_mem_effect [OF spec(2) this] spec(2) same_rest_fds show ?thesis
    by (auto simp: request_effect_def grown_def)
qed

lemma mem_perform_effect:
  assumes "proc_ok X tb others k" and "paging_ok X tb" and "valid_request r"
  shows "request_effect X k (snd (mem_perform X r k))"
proof -
  have own: "owns X tb others k" and b: "k_brk k < u64_limit" using assms(1) by (auto simp: proc_ok_def)
  from own obtain m fa where m: "k_mapper k = Some m" "k_frames k = Some fa" by (auto simp: owns_def)
  show ?thesis
  proof (cases r)
    case (MapAt a len w x)
    with map_anonymous_effect [OF own assms(2)] assms(3) show ?thesis by simp
  next
    case (MapAnon len w x)
    let ?k = "\<lambda>n. k\<lparr>k_mmap_next := n\<rparr>" and ?a = "page_of (k_mmap_next k + 0xfff)"
    have "request_effect X k (snd (map_anonymous X ?a len w x (?k n)))" if "k_mmap_next k + 0xfff < u64_limit" for n
    proof -
      have "owns X tb others (?k n)" using own owns_cong [of "?k n" k] by simp
      moreover have "?a < u64_limit" using page_of_le [of "k_mmap_next k + 0xfff"] that by simp
      ultimately have "request_effect X (?k n) (snd (map_anonymous X ?a len w x (?k n)))"
        using assms(2) by (intro map_anonymous_effect)
      then show ?thesis by (simp add: request_effect_def mem_effect_def can_store_def is_mapped_def)
    qed
    with MapAnon show ?thesis
      by (auto simp: mmap_anon_def bindR_def page_up_eq request_effect_refl split: option.split)
  next
    case (Brk a)
    let ?rk = "map_anonymous X (k_brk k) (a - k_brk k) True False k"
    have e: "request_effect X k (snd ?rk)" by (rule map_anonymous_effect [OF own assms(2) b])
    have upd: "request_effect X k (k'\<lparr>k_brk := a\<rparr>)" if "request_effect X k k'" for k'
      using that by (simp add: request_effect_def mem_effect_def)
    have run: "snd (mem_perform X r k) = (if a \<le> k_brk k then k\<lparr>k_brk := a\<rparr> else
        case ?rk of (Ok v, k') \<Rightarrow> k'\<lparr>k_brk := a\<rparr> | (_, k') \<Rightarrow> k')"
      using Brk by (cases ?rk; cases "fst ?rk") (simp_all add: set_brk_def current_brk_def bindR_def)
    show ?thesis
    proof (cases "a \<le> k_brk k")
      case True
      with run upd [OF request_effect_refl] show ?thesis by simp
    next
      case False
      with run e upd show ?thesis by (cases ?rk; cases "fst ?rk") auto
    qed
  next
    case (Protect a len w x)
    have "request_effect X k (snd (bindR (protect_pages X fl as) (\<lambda>_. returnR (0 :: nat)) k))" for fl as
      using protect_pages_spec [OF own assms(2), of fl as]
      by (cases "protect_pages X fl as k"; cases "fst (protect_pages X fl as k)")
        (auto simp: bindR_def reprotected_def request_effect_def mem_effect_def)
    with Protect m show ?thesis
      by (auto simp: mprotect_def bindR_assoc bindR_def page_up_eq get_mapper_def request_effect_refl split: option.split)
  next
    case (Unmap a len)
    have "request_effect X k (snd (bindR (unmap_pages X as) (\<lambda>_. returnR (0 :: nat)) k))" for as
      using unmap_pages_spec [OF own assms(2), of as]
      by (auto simp: bindR_def shrunk_def request_effect_def mem_effect_def dest: same_rest_fds)
    with Unmap m show ?thesis
      by (auto simp: munmap_def bindR_assoc bindR_def page_up_eq get_mapper_def get_allocator_def request_effect_refl split: option.split)
  qed
qed

text \<open>A call that changes the address space is one such request, or does nothing.\<close>

definition valid_frame :: "syscall_frame \<Rightarrow> bool" where
  "valid_frame f \<longleftrightarrow> f_rdi f < u64_limit \<and> f_rsi f < u64_limit \<and> f_rdx f < u64_limit \<and> f_r10 f < u64_limit"

lemma user_or_snd: "snd (user_or e m k) = snd (m k)" and user_or_Hang: "fst (user_or e m k) = Hang \<longleftrightarrow> fst (m k) = Hang"
  by (auto simp: user_or_def split: prod.splits res.splits)

lemma bind_answer: "snd (bindR m (\<lambda>_. returnR x) k) = snd (m k)"
  "fst (bindR m (\<lambda>_. returnR x) k) = Hang \<longleftrightarrow> fst (m k) = Hang"
  by (auto simp: bindR_def split: prod.splits res.splits)

lemma memory_call_request:
  assumes "memory_call (f_rax f)" and "valid_frame f"
  shows "snd (syscall_body X f k) = k \<and> fst (syscall_body X f k) \<noteq> Hang
    \<or> (\<exists>r. valid_request r \<and> snd (syscall_body X f k) = snd (mem_perform X r k)
        \<and> (fst (syscall_body X f k) = Hang \<longrightarrow> fst (mem_perform X r k) = Hang))"
proof -
  let ?w = "f_rdx f AND PROT_WRITE \<noteq> 0" and ?x = "f_rdx f AND PROT_EXEC \<noteq> 0"
  have v: "valid_request (MapAt (f_rdi f) (f_rsi f) ?w ?x)" "valid_request (MapAnon (f_rsi f) ?w ?x)"
    "valid_request (Protect (f_rdi f) (f_rsi f) ?w ?x)" "valid_request (Unmap (f_rdi f) (f_rsi f))" "valid_request (Brk (f_rdi f))"
    using assms(2) by (simp_all add: valid_frame_def)
  consider "f_rax f = 9" | "f_rax f = 10" | "f_rax f = 11" | "f_rax f = 12" using assms(1) by blast
  then show ?thesis
  proof cases
    case 1
    then have "syscall_body X f k = syscall_mmap X f k" by (simp add: syscall_body_def)
    with v(1,2) show ?thesis
      by (auto simp: syscall_mmap_def Let_def fail_def user_or_snd user_or_Hang simp del: valid_request.simps)
  next
    case 2
    then have "syscall_body X f k = bindR (user_or EINVAL (mprotect X (f_rdi f) (f_rsi f) ?w ?x)) (\<lambda>_. returnR 0) k"
      by (simp add: syscall_body_def syscall_mprotect_def)
    with v(3) show ?thesis
      by (intro disjI2 exI [of _ "Protect (f_rdi f) (f_rsi f) ?w ?x"]) (simp add: bind_answer user_or_snd user_or_Hang)
  next
    case 3
    then have "syscall_body X f k = bindR (user_or EINVAL (munmap X (f_rdi f) (f_rsi f))) (\<lambda>_. returnR 0) k"
      by (simp add: syscall_body_def syscall_munmap_def)
    with v(4) show ?thesis
      by (intro disjI2 exI [of _ "Unmap (f_rdi f) (f_rsi f)"]) (simp add: bind_answer user_or_snd user_or_Hang)
  next
    case 4
    then have "syscall_body X f k = syscall_brk X (f_rdi f) k" by (simp add: syscall_body_def)
    with v(5) show ?thesis
      by (cases "f_rdi f = 0"; cases "set_brk X (f_rdi f) k"; cases "fst (set_brk X (f_rdi f) k)")
        (auto simp: syscall_brk_def user_or_def current_brk_def intro!: exI [of _ "Brk (f_rdi f)"])
  qed
qed

section \<open>The lock of the table of open files\<close>

text \<open>A call that returns has released the lock.\<close>

definition unlocks :: "('d, 'm, 'a) sp \<Rightarrow> bool" where
  "unlocks m \<longleftrightarrow> (\<forall>k r k'. \<not> k_fds_locked k \<longrightarrow> m k = (r, k') \<longrightarrow> (\<exists>v. r = Ok v) \<or> (\<exists>e. r = Err e) \<longrightarrow> \<not> k_fds_locked k')"

lemma unlocks_keep: "(\<And>k. k_fds_locked (snd (m k)) = k_fds_locked k) \<Longrightarrow> unlocks m"
  by (metis unlocks_def snd_conv)

lemma unlocks_bind: "unlocks m \<Longrightarrow> (\<And>x. unlocks (f x)) \<Longrightarrow> unlocks (bindR m f)"
  unfolding unlocks_def
proof (intro allI impI)
  fix k r k'
  assume m: "\<forall>k r k'. \<not> k_fds_locked k \<longrightarrow> m k = (r, k') \<longrightarrow> (\<exists>v. r = Ok v) \<or> (\<exists>e. r = Err e) \<longrightarrow> \<not> k_fds_locked k'"
    and f: "\<And>x. \<forall>k r k'. \<not> k_fds_locked k \<longrightarrow> f x k = (r, k') \<longrightarrow> (\<exists>v. r = Ok v) \<or> (\<exists>e. r = Err e) \<longrightarrow> \<not> k_fds_locked k'"
    and k: "\<not> k_fds_locked k" "bindR m f k = (r, k')" "(\<exists>v. r = Ok v) \<or> (\<exists>e. r = Err e)"
  obtain r1 k1 where r1: "m k = (r1, k1)" by (metis surj_pair)
  show "\<not> k_fds_locked k'"
  proof (cases r1)
    case (Ok x)
    have "f x k1 = (r, k')" using k(2) r1 Ok by (simp only: bindR_Ok_apply)
    moreover have "\<not> k_fds_locked k1" using m k(1) r1 Ok by blast
    ultimately show ?thesis using f k(3) by blast
  next
    case (Err e)
    have "(Err e, k1) = (r, k')" using k(2) r1 Err by (simp only: bindR_Err_apply)
    moreover have "\<not> k_fds_locked k1" using m k(1) r1 Err by blast
    ultimately show ?thesis by blast
  next
    case Panic
    have "(Panic, k1) = (r, k')" using k(2) r1 Panic by (simp only: bindR_Panic_apply)
    with k(3) show ?thesis by blast
  next
    case Hang
    have "(Hang, k1) = (r, k')" using k(2) r1 Hang by (simp add: bindR_def)
    with k(3) show ?thesis by blast
  qed
qed

lemma unlocks_locked: "unlocks (locked m)"
  by (auto simp: unlocks_def locked_def bindR_def lock_fds_def Let_def split: prod.splits res.splits if_splits)

lemma unlocks_branch:
  "unlocks m \<Longrightarrow> unlocks m' \<Longrightarrow> unlocks (if c then m else m')"
  "unlocks m \<Longrightarrow> (\<And>x. unlocks (g x)) \<Longrightarrow> unlocks (case v of None \<Rightarrow> m | Some x \<Rightarrow> g x)"
  "(\<And>a b. unlocks (h a b)) \<Longrightarrow> unlocks (case p of (a, b) \<Rightarrow> h a b)"
  "unlocks (g y) \<Longrightarrow> unlocks (let x = y in g x)"
  by (auto split: option.split prod.split)

lemma unlocks_basic:
  "unlocks (returnR x)" "unlocks (throwR e)" "unlocks panicR" "unlocks (fail n)" "unlocks (getsR g)"
  "unlocks (files_or e m)" "unlocks (try_files m')" "unlocks (on_terminal m'')" "unlocks (range_check X p len)"
  "unlocks (poke X p dat)" "unlocks (u64_add i j)" "unlocks (set_offset fd off)"
  "unlocks (wrmsr X (\<lambda>k. k\<lparr>k_fs_base := v\<rparr>) v)" "unlocks (wrmsr X (\<lambda>k. k\<lparr>k_gs_base := v\<rparr>) v)"
  "unlocks (modifyR (\<lambda>k. k\<lparr>k_exit_status := st, k_exit_requested := b\<rparr>))"
  by (rule unlocks_keep; simp add: fail_def files_or_def try_files_def on_files_def on_terminal_def range_check_def poke_def
      u64_add_def set_offset_def wrmsr_def split: prod.split res.split)+

lemma unlocks_string_loop: "unlocks (string_loop X n a acc)"
  by (induction n arbitrary: a acc) (simp_all add: unlocks_basic unlocks_bind unlocks_branch del: bindR_returnR)

lemmas unlocks_intros = unlocks_basic unlocks_locked unlocks_bind unlocks_branch unlocks_string_loop

lemma unlocks_body:
  assumes "\<not> memory_call (f_rax f)"
  shows "unlocks (syscall_body X f)"
proof -
  have m: "f_rax f = 9 \<longleftrightarrow> False" "f_rax f = 10 \<longleftrightarrow> False" "f_rax f = 11 \<longleftrightarrow> False" "f_rax f = 12 \<longleftrightarrow> False"
    using assms by auto
  show ?thesis
    unfolding syscall_body_def Let_def m if_False syscall_exit_def syscall_close_def syscall_stat_def syscall_access_def
      syscall_dup_def syscall_dup2_def syscall_getcwd_def syscall_chdir_def syscall_readlink_def syscall_getrandom_def
      syscall_uname_def syscall_clock_gettime_def syscall_futex_def syscall_arch_prctl_def syscall_fstat_def
      syscall_read_def syscall_write_def syscall_lseek_def syscall_openat_def syscall_getdents64_def syscall_open_def
      syscall_newfstatat_def user_string_def copy_from_user_def copy_to_user_def alloc_fd_def write_stat_def get_file_def
    by (intro unlocks_intros)
qed

lemma proc_ok_quiet: "quiet X k h k' \<Longrightarrow> proc_ok X tb others k' = proc_ok X tb others k"
  using owns_cong [of k' k] by (simp add: proc_ok_def quiet_def)

lemma syscall_body_running:
  assumes "running X tb others k" and "paging_ok X tb" and "valid_frame f" and "syscall_body X f k = (r, k')"
    and "(\<exists>v. r = Ok v) \<or> (\<exists>e. r = Err e)"
  shows "\<exists>lost. finite lost \<and> card lost \<le> 1 \<and> running X tb (others \<union> lost) k'"
proof (cases "memory_call (f_rax f)")
  case False
  have "quiet X k (r = Hang) k'" using syscall_body_quiet [OF False, of X k] assms(4) by (simp add: within_def)
  from proc_ok_quiet [OF this] assms(1) have "proc_ok X tb others k'" by (simp add: running_def)
  moreover have "\<not> k_fds_locked k'"
    using unlocks_body [OF False, of X] assms(1,4,5) unfolding unlocks_def running_def by blast
  ultimately show ?thesis by (intro exI [of _ "{}"]) (simp add: running_def)
next
  case True
  have ok: "proc_ok X tb others k" "\<not> k_fds_locked k" using assms(1) by (auto simp: running_def)
  from memory_call_request [OF True assms(3), of X k] assms(4)
  consider "k' = k" | req where "valid_request req" "k' = snd (mem_perform X req k)" by auto
  then show ?thesis
  proof cases
    case 1
    with assms(1) show ?thesis by (intro exI [of _ "{}"]) simp
  next
    case 2
    have "\<not> k_fds_locked k'"
      using mem_perform_effect [OF ok(1) assms(2) 2(1)] 2(2) ok(2) by (simp add: request_effect_def)
    moreover obtain lost where "finite lost" "card lost \<le> 1" "proc_ok X tb (others \<union> lost) k'"
    proof (cases "proc_ok X tb others k'")
      case True
      then show thesis by (intro that [of "{}"]) simp_all
    next
      case False
      with mem_perform_kept [OF ok(1) assms(2) 2(1)] 2(2) obtain g where "proc_ok X tb (insert g others) k'"
        by (auto simp: kept_def)
      then show thesis by (intro that [of "{g}"]) simp_all
    qed
    ultimately show ?thesis by (auto simp: running_def)
  qed
qed

lemma syscall_body_effect:
  assumes "proc_ok X tb others k" and "paging_ok X tb" and "valid_frame f"
  shows "mem_effect X k (snd (syscall_body X f k))"
proof (cases "memory_call (f_rax f)")
  case False
  from quiet_mem_effect [OF syscall_body_quiet [OF False, of X k, unfolded within_def]] show ?thesis .
next
  case True
  from memory_call_request [OF True assms(3), of X k] mem_perform_effect [OF assms(1,2)] request_effect_refl
  show ?thesis by (metis request_effect_def)
qed

lemma poke_err: "poke X a bs k \<noteq> (Err e, k')"
  by (simp add: poke_def)

lemma push_strings_err: "push_strings X args sp ptrs k = (Err e, k') \<Longrightarrow> e = StackOverflow"
  by (induction args arbitrary: sp ptrs k)
    (auto simp: bindR_def stack_sub_def poke_err split: prod.splits res.splits if_splits)

lemma push_words_err: "push_words X ws sp k = (Err e, k') \<Longrightarrow> e = StackOverflow"
  by (induction ws arbitrary: sp k)
    (auto simp: bindR_def stack_sub_def poke_err split: prod.splits res.splits if_splits)

lemma build_stack_err: "build_stack X args k = (Err e, k') \<Longrightarrow> e = StackOverflow"
  unfolding build_stack_def bindR_def
  by (auto split: prod.splits res.splits dest: push_strings_err push_words_err simp del: push_words.simps append.simps)

section \<open>Programs\<close>

text \<open>A user program stores to its memory and makes system calls that return.\<close>

inductive user_step :: "('d, 'm) machine \<Rightarrow> ('d, 'm) kernel \<Rightarrow> ('d, 'm) kernel \<Rightarrow> bool" for X where
  store: "(\<And>a. mem a \<noteq> k_mem k a \<Longrightarrow> a < USER_MAX \<and> can_store X k a) \<Longrightarrow> user_step X k (k\<lparr>k_mem := mem\<rparr>)"
| call: "valid_frame f \<Longrightarrow> syscall_dispatch X f k = (Ok v, k') \<Longrightarrow> user_step X k k'"

inductive_cases user_step_cases: "user_step X k k'"

definition program_ok :: "('d, 'm) machine \<Rightarrow> bool" where
  "program_ok X \<longleftrightarrow> (\<forall>ent sp k. (user_step X)\<^sup>*\<^sup>* k (snd (mc_run X ent sp k)))"

lemma dispatch_body:
  "syscall_dispatch X f k = (Ok v, k') \<longleftrightarrow> syscall_body X f k = (Ok v, k') \<or> syscall_body X f k = (Err v, k')"
  by (auto simp: syscall_dispatch_def split: prod.splits res.splits)

lemma dispatch_snd: "snd (syscall_dispatch X f k) = snd (syscall_body X f k)"
  by (auto simp: syscall_dispatch_def split: prod.splits res.splits)

lemma user_step_running:
  assumes "user_step X k k'" and "running X tb others k" and "paging_ok X tb"
  shows "\<exists>lost. finite lost \<and> running X tb (others \<union> lost) k'"
  using assms(1)
proof (rule user_step_cases)
  fix mem assume k': "k' = k\<lparr>k_mem := mem\<rparr>"
  have "owns X tb others k' = owns X tb others k" by (rule owns_cong) (simp_all add: k')
  with assms(2) k' show ?thesis by (intro exI [of _ "{}"]) (simp add: running_def proc_ok_def)
next
  fix f v assume f: "valid_frame f" and d: "syscall_dispatch X f k = (Ok v, k')"
  from d syscall_body_running [OF assms(2,3) f] show ?thesis
    unfolding dispatch_body by blast
qed

lemma user_steps_running:
  assumes "(user_step X)\<^sup>*\<^sup>* k k'" and "running X tb others k" and "paging_ok X tb"
  shows "\<exists>lost. finite lost \<and> running X tb (others \<union> lost) k'"
  using assms(1)
proof (induction rule: rtranclp_induct)
  case base
  from assms(2) show ?case by (intro exI [of _ "{}"]) simp
next
  case (step y z)
  then obtain l1 where "finite l1" "running X tb (others \<union> l1) y" by blast
  with user_step_running [OF step.hyps(2) _ assms(3)] obtain l2 where "finite l2" "running X tb (others \<union> l1 \<union> l2) z" by blast
  with \<open>finite l1\<close> show ?case by (metis Un_assoc finite_UnI)
qed

text \<open>What an attempt to run a program leaves behind.\<close>

definition exec_end :: "('d, 'm) machine \<Rightarrow> ('m \<Rightarrow> nat set) \<Rightarrow> nat set \<Rightarrow> bool \<Rightarrow> (user_error, nat) res \<times> ('d, 'm) kernel \<Rightarrow> bool" where
  "exec_end X tb others fresh rk \<longleftrightarrow>
     (\<forall>st. fst rk = Ok st \<longrightarrow> (\<exists>lost. finite lost \<and> idle X tb (others \<union> lost) (snd rk)))
   \<and> (\<forall>e. fst rk = Err e \<longrightarrow> running X tb others (snd rk)
        \<and> (fresh \<longrightarrow> k_pages (snd rk) = [] \<or> e = InvalidAddress \<or> e = StackOverflow))"

lemma exec_end_Err: "running X tb others k \<Longrightarrow> (fresh \<longrightarrow> k_pages k = []) \<Longrightarrow> exec_end X tb others fresh (Err e, k)"
  by (simp add: exec_end_def)

lemma running_cleanup:
  assumes "running X tb others k" and "paging_ok X tb"
  obtains k' where "cleanup_process X k = (Ok (), k')" and "idle X tb others k'"
  using cleanup_idle [OF _ assms(2)] assms(1) unfolding running_def proc_ok_def by metis

lemma run_image_end:
  assumes "running X tb others k" and "paging_ok X tb" and "program_ok X"
  shows "exec_end X tb others fresh (run_image X elf specs sp k)"
proof (cases "checked_add (entry_point elf) (if kind elf = ET_DYN then PIE_BASE else 0)")
  case None
  with assms(1) show ?thesis by (simp add: run_image_def exec_end_def)
next
  case (Some ent)
  show ?thesis
  proof (cases "\<exists>s\<in>set specs. in_page (sp_page s) ent")
    case False
    obtain k1 where "cleanup_process X k = (Ok (), k1)" "idle X tb others k1"
      by (rule running_cleanup [OF assms(1,2)])
    with False Some show ?thesis by (auto simp: run_image_def bindR_def exec_end_def idle_def)
  next
    case True
    let ?k0 = "k\<lparr>k_exit_requested := False, k_return_rsp := 0\<rparr>"
    obtain st k1 where run: "mc_run X ent sp ?k0 = (st, k1)" by (metis surj_pair)
    then have steps: "(user_step X)\<^sup>*\<^sup>* ?k0 k1" using assms(3) unfolding program_ok_def by (metis snd_conv)
    have "running X tb others ?k0"
      using assms(1) owns_cong [of ?k0 k X tb others] by (simp add: running_def proc_ok_def)
    from user_steps_running [OF steps this assms(2)] obtain lost where l: "finite lost" "running X tb (others \<union> lost) k1"
      by blast
    obtain k2 where k2: "cleanup_process X k1 = (Ok (), k2)" "idle X tb (others \<union> lost) k2"
      by (rule running_cleanup [OF l(2) assms(2)])
    let ?k3 = "k2\<lparr>k_exit_requested := False\<rparr>"
    have "idle X tb (others \<union> lost) ?k3"
      using k2(2) owns_cong [of ?k3 k2 X tb "others \<union> lost"] by (simp add: idle_def running_def proc_ok_def)
    moreover have "run_image X elf specs sp k = (Ok st, ?k3)"
      using Some True run k2(1) by (simp add: run_image_def bindR_def)
    ultimately show ?thesis using l(1) by (auto simp: exec_end_def)
  qed
qed

lemma load_and_run_end:
  assumes "running X tb others k" and "paging_ok X tb" and "program_ok X"
  shows "exec_end X tb others (k_pages k = []) (bindR (load_image X img elf phs) (\<lambda>specs. bindR (build_stack X args) (run_image X elf specs)) k)"
proof -
  obtain r1 k1 where l: "load_image X img elf phs k = (r1, k1)" by (metis surj_pair)
  note li = load_image_spec [OF assms(1,2) l]
  show ?thesis
  proof (cases r1)
    case (Ok specs)
    obtain r2 k2 where b: "build_stack X args k1 = (r2, k2)" by (metis surj_pair)
    have run2: "running X tb others k2"
      using mem_only_owns [OF mem_only_build_stack b] li(2) [OF Ok] by (auto simp: running_def proc_ok_def)
    show ?thesis
    proof (cases r2)
      case (Err e)
      then have "e = StackOverflow" using b build_stack_err by blast
      with Err b l Ok run2 show ?thesis by (simp add: bindR_def exec_end_def)
    qed (use b l Ok run_image_end [OF run2 assms(2,3)] in \<open>simp_all add: bindR_def exec_end_def\<close>)
  next
    case (Err e)
    with li(3) [OF Err] l show ?thesis by (simp add: bindR_def exec_end_Err)
  qed (use l in \<open>simp_all add: bindR_def exec_end_def\<close>)
qed

lemma exec_ends:
  assumes "running X tb others k" and "paging_ok X tb" and "program_ok X"
  shows "exec_end X tb others (k_pages k = []) (exec X path argv k)"
proof (cases "ends_with_ox path")
  case False
  with assms(1) show ?thesis by (simp add: exec_def exec_end_Err)
next
  case True
  obtain r f where f: "ff_read_file (mc_dev X) (mc_drives X) path (k_fs k) = (r, f)" by (metis surj_pair)
  let ?k = "k\<lparr>k_fs := f\<rparr>"
  have idle: "running X tb others ?k" using assms(1) by (rule running_fs)
  show ?thesis
  proof (cases r)
    case (Ok img)
    have run: "exec X path argv k = bindR (elf_or (elf_parse (mc_elf X) img)) (\<lambda>elf.
        bindR (elf_or (elf_load_headers elf img)) (\<lambda>headers.
        bindR (load_image X img elf headers) (\<lambda>specs.
        bindR (build_stack X (path # argv)) (run_image X elf specs)))) ?k"
      using True f Ok by (simp add: exec_def files_or_def on_files_def bindR_def)
    show ?thesis
    proof (cases "elf_parse (mc_elf X) img")
      case (Ok elf)
      with run have run': "exec X path argv k = bindR (elf_or (elf_load_headers elf img)) (\<lambda>headers.
          bindR (load_image X img elf headers) (\<lambda>specs.
          bindR (build_stack X (path # argv)) (run_image X elf specs))) ?k"
        by (simp add: elf_or_def bindR_Ok_apply)
      show ?thesis
      proof (cases "elf_load_headers elf img")
        case (Ok phs)
        with run' have "exec X path argv k = bindR (load_image X img elf phs) (\<lambda>specs.
            bindR (build_stack X (path # argv)) (run_image X elf specs)) ?k"
          by (simp add: elf_or_def bindR_Ok_apply)
        with load_and_run_end [OF idle assms(2,3)] show ?thesis by simp
      qed (use run' idle in \<open>simp_all add: elf_or_def bindR_def exec_end_def\<close>)
    qed (use run idle in \<open>simp_all add: elf_or_def bindR_def exec_end_def\<close>)
  qed (use True f idle in \<open>simp_all add: exec_def files_or_def on_files_def bindR_def exec_end_def\<close>)
qed

end
