(* ===== verification/Syscall_Ops.thy ===== *)
theory Syscall_Ops
  imports Syscall_Correct
begin

text \<open>
  The system calls as a program sees them: the table of open files refines a partial function from
  descriptors to files, pointers are checked exactly, memory the program cannot write is safe from its
  calls, and running a program returns its memory.
\<close>

section \<open>The table of open files\<close>

definition std_table :: "open_file option list" where
  "std_table = [Some std_file, Some std_file, Some std_file]"

definition fd_table :: "('d, 'm) kernel \<Rightarrow> open_file option list" where
  "fd_table k = (case k_fds k of Some t \<Rightarrow> t | None \<Rightarrow> std_table)"

text \<open>The open files of the process, and the operations on them that the calls promise.\<close>

definition fd_view :: "('d, 'm) kernel \<Rightarrow> nat \<Rightarrow> open_file option" where
  "fd_view k = table_get (fd_table k)"

definition abs_close :: "nat \<Rightarrow> (nat \<Rightarrow> open_file option) \<Rightarrow> nat \<times> (nat \<Rightarrow> open_file option)" where
  "abs_close fd v = (if v fd = None then (err EBADF, v) else (0, v(fd := None)))"

definition abs_dup2 :: "nat \<Rightarrow> nat \<Rightarrow> (nat \<Rightarrow> open_file option) \<Rightarrow> nat \<times> (nat \<Rightarrow> open_file option)" where
  "abs_dup2 fd newfd v = (if fd = newfd then (fd, v) else if v fd = None then (err EBADF, v) else (newfd, v(newfd := v fd)))"

definition abs_open :: "open_file \<Rightarrow> (nat \<Rightarrow> open_file option) \<Rightarrow> nat \<times> (nat \<Rightarrow> open_file option)" where
  "abs_open file v = (let fd = LEAST i. 3 \<le> i \<and> v i = None in (fd, v(fd := Some file)))"

text \<open>The standard descriptors have their slots, and nobody holds the lock.\<close>

definition fds_ok :: "('d, 'm) kernel \<Rightarrow> bool" where
  "fds_ok k \<longleftrightarrow> 3 \<le> length (fd_table k) \<and> \<not> k_fds_locked k"

definition only_fds :: "('d, 'm) kernel \<Rightarrow> ('d, 'm) kernel \<Rightarrow> bool" where
  "only_fds k k' \<longleftrightarrow> k' = k\<lparr>k_fds := Some (fd_table k')\<rparr>"

lemma lock_fds_ok: "\<not> k_fds_locked k \<Longrightarrow> lock_fds k = (Ok (fd_table k), k\<lparr>k_fds_locked := True, k_fds := Some (fd_table k)\<rparr>)"
  by (cases "k_fds k") (simp_all add: lock_fds_def fd_table_def std_table_def Let_def)

lemma locked_read:
  assumes "\<not> k_fds_locked k" and "\<And>k'. m (fd_table k) k' = (r, k')" and "r \<noteq> Panic" and "r \<noteq> Hang"
  shows "locked m k = (r, k\<lparr>k_fds := Some (fd_table k)\<rparr>)"
  using assms by (cases r) (simp_all add: locked_def lock_fds_ok bindR_def)

lemma locked_store:
  assumes "\<not> k_fds_locked k" and "\<And>k'. m (fd_table k) k' = (Ok x, k'\<lparr>k_fds := Some t\<rparr>)"
  shows "locked m k = (Ok x, k\<lparr>k_fds := Some t\<rparr>)"
  using assms by (simp add: locked_def lock_fds_ok bindR_def)

lemma table_get_update: "fd < length t \<Longrightarrow> table_get (t[fd := v]) = (table_get t)(fd := v)"
  by (auto simp: table_get_def fun_eq_iff)

lemma table_get_pad: "table_get (pad_table n t) = table_get t"
  by (auto simp: table_get_def pad_table_def fun_eq_iff nth_append)

lemma fd_table_Some [simp]: "fd_table (k\<lparr>k_fds := Some t\<rparr>) = t"
  by (simp add: fd_table_def)

lemma first_free_spec:
  "first_free i ts = (case position (\<lambda>s. s = None) ts of None \<Rightarrow> None | Some j \<Rightarrow> Some (i + j))"
  by (induction ts arbitrary: i) (auto split: option.splits)

lemma position_least: "position P xs = Some j \<Longrightarrow> j' < j \<Longrightarrow> \<not> P (xs ! j')"
proof (induction xs arbitrary: j j')
  case (Cons x xs)
  then show ?case by (cases j') (auto split: if_splits)
qed simp

lemma alloc_slot_spec:
  assumes "3 \<le> length t" and "alloc_slot file t = (fd, t')"
  shows "(fd, table_get t') = abs_open file (table_get t)" and "3 \<le> length t'"
proof -
  have "fd = (LEAST i. 3 \<le> i \<and> table_get t i = None) \<and> table_get t' = (table_get t)(fd := Some file) \<and> 3 \<le> length t'"
  proof (cases "first_free 3 (drop 3 t)")
    case None
    then have all: "\<forall>s\<in>set (drop 3 t). s \<noteq> None" by (auto simp: first_free_spec position_None split: option.splits)
    have r: "fd = length t" "t' = t @ [Some file]" using assms(2) None by (auto simp: alloc_slot_def)
    have "table_get t i \<noteq> None" if "3 \<le> i" "i < length t" for i
    proof -
      have "drop 3 t ! (i - 3) \<in> set (drop 3 t)" using that by (intro nth_mem) simp
      with all that show ?thesis by (simp add: table_get_def)
    qed
    then have "(LEAST i. 3 \<le> i \<and> table_get t i = None) = length t"
      by (intro Least_equality) (use assms(1) in \<open>simp add: table_get_def\<close>, meson not_less)
    moreover have "table_get t' = (table_get t)(fd := Some file)"
      using r by (auto simp: table_get_def fun_eq_iff nth_append)
    ultimately show ?thesis using r assms(1) by simp
  next
    case (Some i)
    then obtain j where j: "position (\<lambda>s. s = None) (drop 3 t) = Some j" "i = 3 + j"
      by (auto simp: first_free_spec split: option.splits)
    from position_SomeD [OF j(1)] have ij: "i < length t" "t ! i = None" using j(2) by auto
    have r: "fd = i" "t' = t[i := Some file]" using assms(2) Some by (auto simp: alloc_slot_def)
    have "table_get t i' \<noteq> None" if "3 \<le> i'" "i' < i" for i'
      using position_least [OF j(1), of "i' - 3"] that j(2) ij(1) by (simp add: table_get_def)
    then have "(LEAST i. 3 \<le> i \<and> table_get t i = None) = i"
      by (intro Least_equality) (use ij j(2) in \<open>simp add: table_get_def\<close>, meson not_less)
    with r ij table_get_update [of i t] assms(1) show ?thesis by simp
  qed
  then show "(fd, table_get t') = abs_open file (table_get t)" and "3 \<le> length t'" by (simp_all add: abs_open_def Let_def)
qed

text \<open>The answer of a call, whether it is an error or not.\<close>

fun answer :: "(nat, nat) res \<Rightarrow> nat" where
  "answer (Ok v) = v"
| "answer (Err e) = e"
| "answer Panic = 0"
| "answer Hang = 0"

lemma close_refines:
  assumes "fds_ok k"
  shows "\<exists>r k'. syscall_close fd k = (r, k') \<and> (answer r, fd_view k') = abs_close fd (fd_view k)
    \<and> (r = Ok (answer r) \<or> r = Err (answer r)) \<and> fds_ok k' \<and> only_fds k k'"
proof (cases "fd_view k fd")
  case None
  have "syscall_close fd k = (Err (err EBADF), k\<lparr>k_fds := Some (fd_table k)\<rparr>)"
    unfolding syscall_close_def
    by (rule locked_read) (use assms None in \<open>auto simp: fds_ok_def fd_view_def table_get_def fail_def split: if_splits\<close>)
  with None assms show ?thesis by (simp add: abs_close_def fd_view_def fds_ok_def only_fds_def)
next
  case (Some f)
  then have fd: "fd < length (fd_table k)" by (auto simp: fd_view_def table_get_def split: if_splits)
  have "syscall_close fd k = (Ok 0, k\<lparr>k_fds := Some ((fd_table k)[fd := None])\<rparr>)"
    unfolding syscall_close_def
    by (rule locked_store) (use assms Some in \<open>auto simp: fds_ok_def fd_view_def table_get_def store_fds_def bindR_def split: if_splits\<close>)
  with Some fd assms show ?thesis
    by (simp add: abs_close_def fd_view_def fds_ok_def only_fds_def table_get_update)
qed

lemma alloc_fd_refines:
  assumes "fds_ok k"
  shows "\<exists>fd k'. alloc_fd file k = (Ok fd, k') \<and> (fd, fd_view k') = abs_open file (fd_view k) \<and> fds_ok k' \<and> only_fds k k'"
proof -
  obtain fd t' where a: "alloc_slot file (fd_table k) = (fd, t')" by (metis surj_pair)
  have "alloc_fd file k = (Ok fd, k\<lparr>k_fds := Some t'\<rparr>)"
    unfolding alloc_fd_def
    by (rule locked_store) (use assms a in \<open>auto simp: fds_ok_def store_fds_def bindR_def\<close>)
  with alloc_slot_spec [OF _ a] assms show ?thesis
    by (auto simp: fds_ok_def fd_view_def only_fds_def)
qed

lemma dup2_refines:
  assumes "fds_ok k"
  shows "\<exists>r k'. syscall_dup2 fd newfd k = (r, k') \<and> (answer r, fd_view k') = abs_dup2 fd newfd (fd_view k)
    \<and> (r = Ok (answer r) \<or> r = Err (answer r)) \<and> fds_ok k' \<and> (only_fds k k' \<or> k' = k)"
proof (cases "fd = newfd")
  case True
  with assms show ?thesis by (simp add: syscall_dup2_def abs_dup2_def)
next
  case False
  let ?k = "k\<lparr>k_fds := Some (fd_table k)\<rparr>"
  show ?thesis
  proof (cases "fd_view k fd")
    case None
    have "locked (\<lambda>table. get_file table fd) k = (Err (err EBADF), ?k)"
      by (rule locked_read) (use assms None in \<open>auto simp: fds_ok_def fd_view_def get_file_def fail_def\<close>)
    then have "syscall_dup2 fd newfd k = (Err (err EBADF), ?k)"
      using False by (simp add: syscall_dup2_def bindR_def)
    with None False assms show ?thesis by (simp add: abs_dup2_def fd_view_def fds_ok_def only_fds_def)
  next
    case (Some f)
    let ?t = "(pad_table newfd (fd_table k))[newfd := Some f]"
    have "locked (\<lambda>table. get_file table fd) k = (Ok f, ?k)"
      by (rule locked_read) (use assms Some in \<open>auto simp: fds_ok_def fd_view_def get_file_def\<close>)
    moreover have "locked (\<lambda>table. bindR (store_fds ((pad_table newfd table)[newfd := Some f])) (\<lambda>_. returnR newfd)) ?k
        = (Ok newfd, ?k\<lparr>k_fds := Some ?t\<rparr>)"
      by (rule locked_store) (use assms in \<open>auto simp: fds_ok_def store_fds_def bindR_def\<close>)
    ultimately have "syscall_dup2 fd newfd k = (Ok newfd, k\<lparr>k_fds := Some ?t\<rparr>)"
      using False by (simp add: syscall_dup2_def bindR_def)
    moreover have "newfd < length (pad_table newfd (fd_table k))" by (simp add: pad_table_def)
    then have "table_get ?t = (table_get (fd_table k))(newfd := Some f)"
      by (simp add: table_get_update table_get_pad)
    moreover have "3 \<le> length ?t" using assms by (simp add: pad_table_def fds_ok_def)
    ultimately show ?thesis using Some False assms by (simp add: abs_dup2_def fd_view_def fds_ok_def only_fds_def)
  qed
qed

text \<open>\<open>dup\<close> of an open descriptor calls \<open>alloc_fd\<close> with the lock held.\<close>

lemma dup_hangs:
  fixes k :: "('a, 'b) kernel"
  assumes "\<not> k_fds_locked k" and "fd_view k fd = Some f"
  shows "fst (syscall_dup fd k) = Hang"
proof -
  have "alloc_fd f k1 = (Hang, k1)" if "k_fds_locked k1" for k1 :: "('a, 'b) kernel"
    using that by (simp add: alloc_fd_def locked_def lock_fds_def bindR_def)
  with assms show ?thesis by (simp add: syscall_dup_def locked_def lock_fds_ok bindR_def get_file_def fd_view_def)
qed

section \<open>Pointers of the program\<close>

lemma pages_mapped_iff:
  assumes "page_api (mc_page X)" and "\<forall>a\<in>set as. a < USER_MAX" and "k_mapper k = Some m"
  shows "pages_mapped X m as = Ok (\<forall>a\<in>set as. is_mapped X k (page_of a))"
  using assms(2)
proof (induction as)
  case (Cons a as)
  then have "a < USER_MAX" by simp
  then have "mc_page X a = Some (page_of a)" using assms(1) unfolding page_api_def by blast
  with Cons assms(3) show ?case by (auto simp: is_mapped_def)
qed simp

lemma user_range_ok_exact:
  assumes "page_api (mc_page X)" and "k_mapper k = Some m" and "0 < len" and "p < u64_limit"
  shows "user_range_ok X p len k = Ok (p + len \<le> USER_MAX \<and> (\<forall>a. p \<le> a \<longrightarrow> a < p + len \<longrightarrow> is_mapped X k (page_of a)))"
proof (cases "p + len \<le> USER_MAX")
  case False
  then show ?thesis using assms(3) by (auto simp: user_range_ok_def checked_add_def)
next
  case True
  let ?e = "p + (len - 1)" and ?as = "page_steps (page_of p) (page_of (p + (len - 1)) + PAGE_SIZE)"
  have e: "?e < USER_MAX" "p < USER_MAX" using True assms(3) by auto
  have run: "user_range_ok X p len k = pages_mapped X m ?as"
    using e assms(2,3) by (simp add: user_range_ok_def checked_add_def page_down_eq)
  have as: "\<forall>a\<in>set ?as. a < USER_MAX"
    using page_of_below [OF e(1)] by (auto simp: set_page_steps)
  have img: "(\<forall>a\<in>set ?as. is_mapped X k (page_of a)) \<longleftrightarrow> (\<forall>a. p \<le> a \<longrightarrow> a < p + len \<longrightarrow> is_mapped X k (page_of a))"
  proof safe
    fix a assume all: "\<forall>a\<in>set ?as. is_mapped X k (page_of a)" and a: "p \<le> a" "a < p + len"
    have "page_of a \<le> page_of ?e" using a by (intro page_of_mono) simp
    then have "page_of a \<in> set ?as" using page_of_mono [OF a(1)] by (simp add: set_page_steps)
    with all show "is_mapped X k (page_of a)" by (metis page_of_aligned page_of_id)
  next
    fix q assume all: "\<forall>a. p \<le> a \<longrightarrow> a < p + len \<longrightarrow> is_mapped X k (page_of a)" and "q \<in> set ?as"
    then have q: "PAGE_SIZE dvd q" "page_of p \<le> q" "q < page_of ?e + PAGE_SIZE" by (auto simp: set_page_steps)
    have "q \<le> page_of ?e"
    proof (rule ccontr)
      assume "\<not> q \<le> page_of ?e"
      then have "page_of ?e + PAGE_SIZE \<le> q" using q(1) by (intro aligned_below) simp_all
      with q(3) show False by simp
    qed
    then have "q \<le> ?e" using page_of_le [of ?e] by simp
    moreover have "page_of (max p q) = q"
    proof (cases "p \<le> q")
      case True
      then show ?thesis using page_of_id [OF q(1)] by (simp only: max_absorb2)
    next
      case False
      then have "in_page q p" using q(2) page_of_gt [of p] by (simp add: in_page_def)
      then have "page_of p = q" using page_of_eq_iff [OF q(1)] by blast
      with False show ?thesis by (simp add: max_def)
    qed
    ultimately show "is_mapped X k (page_of q)"
      using spec [OF all, of "max p q"] assms(3) page_of_id [OF q(1)] by simp
  qed
  show ?thesis using run pages_mapped_iff [OF assms(1) as assms(2)] img True by simp
qed

definition user_range :: "('d, 'm) machine \<Rightarrow> ('d, 'm) kernel \<Rightarrow> nat \<Rightarrow> nat \<Rightarrow> bool" where
  "user_range X k p len \<longleftrightarrow> p + len \<le> USER_MAX \<and> (\<forall>a. p \<le> a \<longrightarrow> a < p + len \<longrightarrow> is_mapped X k (page_of a))"

section \<open>Opening a file\<close>

definition same_fds :: "('d, 'm) kernel \<Rightarrow> ('d, 'm) kernel \<Rightarrow> bool" where
  "same_fds k k' \<longleftrightarrow> k_fds k' = k_fds k \<and> k_fds_locked k' = k_fds_locked k"

definition keeps_fds :: "('d, 'm, 'a) sp \<Rightarrow> bool" where
  "keeps_fds m \<longleftrightarrow> (\<forall>k. same_fds k (snd (m k)))"

lemma keeps_fds_bind: "keeps_fds m \<Longrightarrow> (\<And>x. keeps_fds (f x)) \<Longrightarrow> keeps_fds (bindR m f)"
  unfolding keeps_fds_def same_fds_def bindR_def
  by (auto split: prod.split res.split) (metis snd_conv)+

lemma keeps_fds_basic:
  "keeps_fds (returnR x)" "keeps_fds (fail e)" "keeps_fds panicR" "keeps_fds (getsR g)" "keeps_fds (range_check X p n)"
  "keeps_fds (files_or e m)" "keeps_fds (try_files m')"
  by (simp_all add: keeps_fds_def same_fds_def fail_def range_check_def files_or_def try_files_def on_files_def
      split: prod.split res.split)

lemma keeps_fds_user_string: "keeps_fds (user_string X p n)"
proof -
  have "keeps_fds (string_loop X n a acc)" for a acc
    by (induction n arbitrary: a acc) (auto intro!: keeps_fds_bind keeps_fds_basic)
  then show ?thesis by (simp add: user_string_def keeps_fds_basic)
qed

lemma keeps_fdsD: "keeps_fds m \<Longrightarrow> m k = (r, k') \<Longrightarrow> same_fds k k'"
  unfolding keeps_fds_def by (metis snd_conv)

lemma same_fds_trans: "same_fds k k' \<Longrightarrow> same_fds k' k'' \<Longrightarrow> same_fds k k''"
  by (simp add: same_fds_def)

lemma openat_Ok:
  assumes "syscall_openat X d p fl md k = (Ok fd, k')"
  obtains path k1 where "same_fds k k1" and "alloc_fd \<lparr>of_path = path, of_offset = 0, of_flags = fl\<rparr> k1 = (Ok fd, k')"
proof -
  let ?get = "\<lambda>path st. case st of Some s \<Rightarrow> returnR s
      | None \<Rightarrow> if fl AND O_CREAT \<noteq> 0 then
          bindR (files_or (err ENOENT) (ff_touch (mc_dev X) (mc_drives X) path)) (\<lambda>_. files_or (err ENOENT) (stat_path X path))
        else fail ENOENT"
  from assms obtain path ka st kb s kc where s: "user_string X p 4096 k = (Ok path, ka)"
      "try_files (stat_path X path) ka = (Ok st, kb)" "?get path st kb = (Ok s, kc)"
      "(if fl AND O_EXCL \<noteq> 0 \<and> fl AND O_CREAT \<noteq> 0 then fail EEXIST
     else if fl AND O_DIRECTORY \<noteq> 0 \<and> st_file_type s \<noteq> Directory then fail ENOTDIR
     else
       bindR (if fl AND O_TRUNC \<noteq> 0 \<and> st_file_type s = Regular
              then files_or (err EINVAL) (ff_write_file (mc_dev X) (mc_drives X) path []) else returnR ()) (\<lambda>_.
       alloc_fd \<lparr>of_path = path, of_offset = 0, of_flags = fl\<rparr>)) kc = (Ok fd, k')"
    unfolding syscall_openat_def by (elim bindR_OkE)
  from s(4) obtain u kd where d: "(if fl AND O_TRUNC \<noteq> 0 \<and> st_file_type s = Regular
              then files_or (err EINVAL) (ff_write_file (mc_dev X) (mc_drives X) path []) else returnR ()) kc = (Ok u, kd)"
      "alloc_fd \<lparr>of_path = path, of_offset = 0, of_flags = fl\<rparr> kd = (Ok fd, k')"
    by (auto simp: fail_def bindR_eq_Ok split: if_splits)
  have g: "keeps_fds (?get path st)" by (cases st) (auto intro!: keeps_fds_bind keeps_fds_basic)
  have w: "keeps_fds (if fl AND O_TRUNC \<noteq> 0 \<and> st_file_type s = Regular
              then files_or (err EINVAL) (ff_write_file (mc_dev X) (mc_drives X) path []) else returnR ())"
    by (simp add: keeps_fds_basic)
  have "same_fds k kd"
    using keeps_fdsD [OF keeps_fds_user_string s(1)] keeps_fdsD [OF keeps_fds_basic(7) s(2)] keeps_fdsD [OF g s(3)]
      keeps_fdsD [OF w d(1)] by (simp add: same_fds_def)
  then show thesis using d(2) by (rule that)
qed

lemma openat_refines:
  assumes "fds_ok k" and "syscall_openat X d p fl md k = (Ok fd, k')"
  shows "\<exists>path. (fd, fd_view k') = abs_open \<lparr>of_path = path, of_offset = 0, of_flags = fl\<rparr> (fd_view k) \<and> fds_ok k'"
proof -
  from openat_Ok [OF assms(2)] obtain path k1 where k1: "same_fds k k1"
      "alloc_fd \<lparr>of_path = path, of_offset = 0, of_flags = fl\<rparr> k1 = (Ok fd, k')" by blast
  have "fds_ok k1" "fd_view k1 = fd_view k"
    using assms(1) k1(1) by (simp_all add: fds_ok_def fd_view_def fd_table_def same_fds_def)
  with alloc_fd_refines [of k1 "\<lparr>of_path = path, of_offset = 0, of_flags = fl\<rparr>"] k1(2) show ?thesis by auto
qed

section \<open>Properties\<close>


text \<open>A system call with four arguments.\<close>

definition call_frame :: "nat \<Rightarrow> nat \<Rightarrow> nat \<Rightarrow> nat \<Rightarrow> nat \<Rightarrow> syscall_frame" where
  "call_frame n a b c d = \<lparr>f_rax = n, f_rbx = 0, f_rcx = 0, f_rdx = c, f_rsi = b, f_rdi = a, f_rbp = 0, f_r8 = 0, f_r9 = 0,
     f_r10 = d, f_r11 = 0, f_r12 = 0, f_r13 = 0, f_r14 = 0, f_r15 = 0\<rparr>"

lemma small_kernel_running: "running small_machine small_tables {} small_kernel"
  using small_kernel_idle by (simp add: idle_def)

lemma mapped_range: "user_range_ok small_machine 0x400000 (Suc (Suc 0)) mapped_kernel = Ok True"
  by (simp add: user_range_ok_def checked_add_def mapped_kernel_def small_machine_def small_pager_ops_def page_steps_def
      page_down_eq page_of_def user_page_def)

lemma mapped_poke:
  "poke small_machine 0x400000 [x, y] mapped_kernel = (Ok (), mapped_kernel\<lparr>k_mem := store_bytes 0x400000 [x, y] (k_mem mapped_kernel)\<rparr>)"
  by (simp add: poke_def can_store_def mapped_kernel_def small_machine_def small_pager_ops_def page_of_def user_page_def user_flags_def
      upt_conv_Cons)








text \<open>C35: \<open>dup\<close> of an open descriptor never returns: it takes the lock of the table of open files and calls
  \<open>alloc_fd\<close>, which takes it again.\<close>

theorem dup_never_returns:
  assumes "fds_ok k" and "f_rax f = 32" and "fd_view k (f_rdi f) \<noteq> None"
  shows "fst (syscall_dispatch X f k) = Hang"
proof -
  from assms have "fst (syscall_body X f k) = Hang"
    using dup_hangs [of k "f_rdi f"] by (auto simp: syscall_body_def fds_ok_def)
  then show ?thesis by (auto simp: syscall_dispatch_def split: prod.splits res.splits)
qed

theorem dup_never_returns_witness: "fst (syscall_dispatch small_machine (call_frame 32 1 0 0 0) small_kernel) = Hang"
  by (rule dup_never_returns)
    (simp_all add: fds_ok_def fd_table_def std_table_def small_kernel_def call_frame_def fd_view_def table_get_def)



end
