(* ===== verification/Shell.thy ===== *)
theory Shell
  imports User Kmem Acpi "HOL-Library.List_Lexorder"
begin

text \<open>
  The shell (\<^verbatim>\<open>src/shell.rs\<close>), built with user programs and the QEMU device: it splits a line into words
  and runs a command on the console, the files, the heap or a program. Its state is the kernel of
  \<open>Kernel\<close> with the heap, the working directory and the state of \<open>Acpi\<close>. The memory that strings of the
  shell itself take is not part of the heap here.
\<close>

section \<open>State\<close>

record ('d, 'm, 'h) system =
  sy_kernel :: "('d, 'm) kernel"
  sy_heap :: buddy
  sy_cwd :: bytes
  sy_acpi :: "'h acpi"

text \<open>What the system runs on: the machine, the answers of the boot loader, CR3 and the text of its
  flags, the ports with the 32 bit output of \<open>qemu_shutdown\<close>, and the text of the stack frame that an
  exception handler prints.\<close>

record ('d, 'm, 'h) platform =
  pf_machine :: "('d, 'm) machine"
  pf_boot :: boot_info
  pf_cr3 :: nat
  pf_cr3_flags :: bytes
  pf_ports :: "'h port_ops"
  pf_out32 :: "nat \<Rightarrow> nat \<Rightarrow> 'h \<Rightarrow> 'h"
  pf_frame :: bytes

type_synonym ('d, 'm, 'h, 'a) sp = "(('d, 'm, 'h) system, unit, 'a) prog"

definition on_term :: "'a tp \<Rightarrow> ('d, 'm, 'h, 'a) sp" where
  "on_term m = (\<lambda>s. case m (k_term (sy_kernel s)) of (r, t) \<Rightarrow> (r, s\<lparr>sy_kernel := sy_kernel s\<lparr>k_term := t\<rparr>\<rparr>))"

definition on_heap :: "(buddy, unit, 'a) prog \<Rightarrow> ('d, 'm, 'h, 'a) sp" where
  "on_heap m = (\<lambda>s. case m (sy_heap s) of (r, b) \<Rightarrow> (r, s\<lparr>sy_heap := b\<rparr>))"

definition on_acpi :: "('h, 'a) acp \<Rightarrow> ('d, 'm, 'h, 'a) sp" where
  "on_acpi m = (\<lambda>s. case m (sy_acpi s) of (r, a) \<Rightarrow> (r, s\<lparr>sy_acpi := a\<rparr>))"

text \<open>A call that returns a \<open>Result\<close>, as a value: \<open>Inl\<close> is its error.\<close>

definition attempt :: "('e, 'a) res \<times> ('d, 'm) kernel \<Rightarrow> ('d, 'm, 'h) system \<Rightarrow> (unit, 'e + 'a) res \<times> ('d, 'm, 'h) system" where
  "attempt rk s = (case rk of
     (Ok x, k) \<Rightarrow> (Ok (Inr x), s\<lparr>sy_kernel := k\<rparr>)
   | (Err e, k) \<Rightarrow> (Ok (Inl e), s\<lparr>sy_kernel := k\<rparr>)
   | (Panic, k) \<Rightarrow> (Panic, s\<lparr>sy_kernel := k\<rparr>)
   | (Hang, k) \<Rightarrow> (Hang, s\<lparr>sy_kernel := k\<rparr>))"

definition files_result :: "('d, 'a) ff \<Rightarrow> ('d, 'm, 'h, fs_error + 'a) sp" where
  "files_result m = (\<lambda>s. attempt (on_files m (sy_kernel s)) s)"

definition exec_result :: "('d, 'm, 'h) platform \<Rightarrow> bytes \<Rightarrow> bytes list \<Rightarrow> ('d, 'm, 'h, user_error + nat) sp" where
  "exec_result E path argv = (\<lambda>s. attempt (exec (pf_machine E) path argv (sy_kernel s)) s)"

abbreviation println :: "bytes \<Rightarrow> ('d, 'm, 'h, unit) sp" where "println txt \<equiv> on_term (console_println txt)"
abbreviation print :: "bytes \<Rightarrow> ('d, 'm, 'h, unit) sp" where "print txt \<equiv> on_term (console_print txt)"
abbreviation println_color :: "color \<Rightarrow> bytes \<Rightarrow> ('d, 'm, 'h, unit) sp" where
  "println_color col txt \<equiv> on_term (console_println_color col txt)"

primrec println_all :: "bytes list \<Rightarrow> ('d, 'm, 'h, unit) sp" where
  "println_all [] = returnR ()"
| "println_all (l # ls) = bindR (println l) (\<lambda>_. println_all ls)"

section \<open>Formats\<close>

fun show_block_error :: "block_error \<Rightarrow> bytes" where
  "show_block_error OutOfRange = str ''OutOfRange''"
| "show_block_error BadBuffer = str ''BadBuffer''"
| "show_block_error Timeout = str ''Timeout''"
| "show_block_error DeviceFault = str ''DeviceFault''"

fun show_fs_error :: "fs_error \<Rightarrow> bytes" where
  "show_fs_error (Io e) = str ''Io('' @ show_block_error e @ str '')''"
| "show_fs_error BadSuperblock = str ''BadSuperblock''"
| "show_fs_error Unsupported = str ''Unsupported''"
| "show_fs_error Corrupt = str ''Corrupt''"
| "show_fs_error NotFound = str ''NotFound''"
| "show_fs_error Exists = str ''Exists''"
| "show_fs_error NotDir = str ''NotDir''"
| "show_fs_error IsDir = str ''IsDir''"
| "show_fs_error NotEmpty = str ''NotEmpty''"
| "show_fs_error NoSpace = str ''NoSpace''"
| "show_fs_error Invalid = str ''Invalid''"
| "show_fs_error NameTooLong = str ''NameTooLong''"
| "show_fs_error TooManyLinks = str ''TooManyLinks''"
| "show_fs_error TooBig = str ''TooBig''"
| "show_fs_error Loop = str ''Loop''"

fun show_elf_error :: "elf_error \<Rightarrow> bytes" where
  "show_elf_error TooSmall = str ''TooSmall''"
| "show_elf_error BadMagic = str ''BadMagic''"
| "show_elf_error Not64Bit = str ''Not64Bit''"
| "show_elf_error NotLittleEndian = str ''NotLittleEndian''"
| "show_elf_error WrongMachine = str ''WrongMachine''"
| "show_elf_error UnsupportedType = str ''UnsupportedType''"
| "show_elf_error BadHeader = str ''BadHeader''"
| "show_elf_error BadProgramHeader = str ''BadProgramHeader''"
| "show_elf_error Interpreter = str ''Interpreter''"
| "show_elf_error AddressOverflow = str ''AddressOverflow''"
| "show_elf_error InvalidSegment = str ''InvalidSegment''"

fun show_user_error :: "user_error \<Rightarrow> bytes" where
  "show_user_error (UElf e) = str ''Elf('' @ show_elf_error e @ str '')''"
| "show_user_error UFs = str ''Fs''"
| "show_user_error OutOfMemory = str ''OutOfMemory''"
| "show_user_error MappingFailed = str ''Mapping''"
| "show_user_error InvalidAddress = str ''InvalidAddress''"
| "show_user_error AlreadyMapped = str ''AlreadyMapped''"
| "show_user_error StackOverflow = str ''StackOverflow''"
| "show_user_error Enter = str ''Enter''"

fun show_file_type :: "file_type \<Rightarrow> bytes" where
  "show_file_type Regular = str ''Regular''"
| "show_file_type Directory = str ''Directory''"
| "show_file_type Symlink = str ''Symlink''"
| "show_file_type CharDevice = str ''CharDevice''"
| "show_file_type BlockDev = str ''BlockDevice''"
| "show_file_type Fifo = str ''Fifo''"
| "show_file_type Socket = str ''Socket''"
| "show_file_type Unknown = str ''Unknown''"

definition show_i64 :: "nat \<Rightarrow> bytes" where
  "show_i64 n = (if n < 2 ^ 63 then show_nat n else str ''-'' @ show_nat (u64_limit - n))"

section \<open>Paths\<close>

definition rfind :: "u8 \<Rightarrow> bytes \<Rightarrow> nat option" where
  "rfind c s = List.find (\<lambda>i. s ! i = c) (rev [0..<length s])"

definition pop_path_component :: "bytes \<Rightarrow> bytes" where
  "pop_path_component path =
     (if path = str ''/'' then path
      else case rfind 0x2F path of
        Some pos \<Rightarrow> if pos = 0 then take 1 path else take pos path
      | None \<Rightarrow> path)"

definition push_component :: "bytes \<Rightarrow> bytes \<Rightarrow> bytes" where
  "push_component component result =
     (if component = [] \<or> component = str ''.'' then result
      else if component = str ''..'' then pop_path_component result
      else (if result \<noteq> str ''/'' then result @ str ''/'' else result) @ component)"

definition absolute_path :: "bytes \<Rightarrow> bytes \<Rightarrow> bytes" where
  "absolute_path cwd path =
     (if path = [] then cwd
      else
        let result = fold push_component (split_on (\<lambda>c. c = 0x2F) path) (if hd path = 0x2F then str ''/'' else cwd)
        in if result = [] then str ''/'' else result)"

definition abs_path :: "bytes \<Rightarrow> ('d, 'm, 'h, bytes) sp" where
  "abs_path path = getsR (\<lambda>s. absolute_path (sy_cwd s) path)"

definition quoted :: "bytes \<Rightarrow> bytes" where
  "quoted s = [0x27] @ s @ [0x27]"

section \<open>Files\<close>

definition sh_fs_error :: "string \<Rightarrow> bytes \<Rightarrow> fs_error \<Rightarrow> ('d, 'm, 'h, unit) sp" where
  "sh_fs_error command path e = println (str command @ str '': '' @ quoted path @ str '': '' @ show_fs_error e)"

definition cmd_pwd :: "('d, 'm, 'h, unit) sp" where
  "cmd_pwd = bindR (getsR sy_cwd) (\<lambda>cwd. println (if cwd = [] then str ''/'' else cwd))"

definition cmd_cd :: "('d, 'm, 'h) platform \<Rightarrow> bytes list \<Rightarrow> ('d, 'm, 'h, unit) sp" where
  "cmd_cd E args =
     (let path = (case args of [] \<Rightarrow> str ''/'' | p # _ \<Rightarrow> p) in
      if length args > 1 then println (str ''cd: too many arguments'')
      else
        bindR (abs_path path) (\<lambda>target.
        bindR (files_result (ff_list_entries (mc_dev (pf_machine E)) (mc_drives (pf_machine E)) target)) (\<lambda>r.
        case r of
          Inr _ \<Rightarrow> modifyR (\<lambda>s. s\<lparr>sy_cwd := target\<rparr>)
        | Inl e \<Rightarrow> sh_fs_error ''cd'' path e)))"

fun name_of :: "fs_entry \<Rightarrow> bytes" where
  "name_of (EDir name) = name"
| "name_of (EFile name) = name"

fun print_entry :: "fs_entry \<Rightarrow> ('d, 'm, 'h, unit) sp" where
  "print_entry (EDir name) = println_color BLUE (name @ str ''/'')"
| "print_entry (EFile name) = println name"

primrec print_entries :: "fs_entry list \<Rightarrow> ('d, 'm, 'h, unit) sp" where
  "print_entries [] = returnR ()"
| "print_entries (e # es) = bindR (print_entry e) (\<lambda>_. print_entries es)"

definition cmd_ls :: "('d, 'm, 'h) platform \<Rightarrow> bytes list \<Rightarrow> ('d, 'm, 'h, unit) sp" where
  "cmd_ls E args =
     bindR (abs_path (case args of [] \<Rightarrow> str ''.'' | p # _ \<Rightarrow> p)) (\<lambda>path.
     bindR (files_result (ff_list_entries (mc_dev (pf_machine E)) (mc_drives (pf_machine E)) path)) (\<lambda>r.
     case r of
       Inr entries \<Rightarrow> print_entries (sort_key name_of entries)
     | Inl e \<Rightarrow> sh_fs_error ''ls'' path e))"

text \<open>The commands that make one call with an absolute path and report its error.\<close>

definition path_cmd :: "('d, 'm, 'h) platform \<Rightarrow> string \<Rightarrow> ('d dev_ops \<Rightarrow> 'd list \<Rightarrow> bytes \<Rightarrow> ('d, unit) ff) \<Rightarrow>
    bytes list \<Rightarrow> ('d, 'm, 'h, unit) sp" where
  "path_cmd E command f args =
     (case args of
        [] \<Rightarrow> println (str ''Usage: '' @ str command @ str '' <path>'')
      | p # _ \<Rightarrow>
          bindR (abs_path p) (\<lambda>path.
          bindR (files_result (f (mc_dev (pf_machine E)) (mc_drives (pf_machine E)) path)) (\<lambda>r.
          case r of
            Inr _ \<Rightarrow> returnR ()
          | Inl e \<Rightarrow> sh_fs_error command path e)))"

definition cmd_mkdir :: "('d, 'm, 'h) platform \<Rightarrow> bytes list \<Rightarrow> ('d, 'm, 'h, unit) sp" where
  "cmd_mkdir E = path_cmd E ''mkdir'' ff_mkdir"

definition cmd_touch :: "('d, 'm, 'h) platform \<Rightarrow> bytes list \<Rightarrow> ('d, 'm, 'h, unit) sp" where
  "cmd_touch E = path_cmd E ''touch'' ff_touch"

definition cmd_rm :: "('d, 'm, 'h) platform \<Rightarrow> bytes list \<Rightarrow> ('d, 'm, 'h, unit) sp" where
  "cmd_rm E = path_cmd E ''rm'' ff_remove"

definition cmd_rmdir :: "('d, 'm, 'h) platform \<Rightarrow> bytes list \<Rightarrow> ('d, 'm, 'h, unit) sp" where
  "cmd_rmdir E = path_cmd E ''rmdir'' ff_rmdir"

definition cmd_mv :: "('d, 'm, 'h) platform \<Rightarrow> bytes list \<Rightarrow> ('d, 'm, 'h, unit) sp" where
  "cmd_mv E args =
     (case args of
        old # new # _ \<Rightarrow>
          bindR (abs_path old) (\<lambda>old_abs.
          bindR (abs_path new) (\<lambda>new_abs.
          bindR (files_result (ff_rename (mc_dev (pf_machine E)) (mc_drives (pf_machine E)) old_abs new_abs)) (\<lambda>r.
          case r of
            Inr _ \<Rightarrow> returnR ()
          | Inl e \<Rightarrow> println (str ''mv: '' @ quoted old @ str '' -> '' @ quoted new @ str '': '' @ show_fs_error e))))
      | _ \<Rightarrow> println (str ''Usage: mv <old> <new>''))"

definition cmd_cat :: "('d, 'm, 'h) platform \<Rightarrow> bytes list \<Rightarrow> ('d, 'm, 'h, unit) sp" where
  "cmd_cat E args =
     (case args of
        [] \<Rightarrow> println (str ''Usage: cat <path>'')
      | path # _ \<Rightarrow>
          bindR (abs_path path) (\<lambda>path_abs.
          bindR (files_result (ff_read_file (mc_dev (pf_machine E)) (mc_drives (pf_machine E)) path_abs)) (\<lambda>r.
          case r of
            Inr data \<Rightarrow> if utf8_valid data then print data else println (str ''cat: '' @ quoted path @ str '': binary file'')
          | Inl e \<Rightarrow> sh_fs_error ''cat'' path_abs e)))"

text \<open>The words with one space between them.\<close>

fun join_words :: "bytes list \<Rightarrow> bytes" where
  "join_words [] = []"
| "join_words [w] = w"
| "join_words (w # ws) = w @ str '' '' @ join_words ws"

definition cmd_write :: "('d, 'm, 'h) platform \<Rightarrow> bytes list \<Rightarrow> ('d, 'm, 'h, unit) sp" where
  "cmd_write E args =
     (case args of
        [] \<Rightarrow> println (str ''Usage: write <path> <text...>'')
      | p # ws \<Rightarrow>
          bindR (abs_path p) (\<lambda>path.
          bindR (files_result (ff_write_file (mc_dev (pf_machine E)) (mc_drives (pf_machine E)) path (join_words ws))) (\<lambda>r.
          case r of
            Inr _ \<Rightarrow> returnR ()
          | Inl e \<Rightarrow> sh_fs_error ''write'' path e)))"

definition stat_lines :: "bytes \<Rightarrow> fs_stat \<Rightarrow> bytes list" where
  "stat_lines path st =
     [str ''Path:   '' @ path, str ''Type:   '' @ show_file_type (st_file_type st),
      str ''Size:   '' @ show_nat (st_size st) @ str '' bytes'', str ''Inode:  '' @ show_nat (st_ino st),
      str ''Links:  '' @ show_nat (st_links st), str ''Mode:   '' @ show_radix 8 (st_mode st AND 0xFFF),
      str ''UID:    '' @ show_nat (st_uid st), str ''GID:    '' @ show_nat (st_gid st)]"

definition cmd_stat :: "('d, 'm, 'h) platform \<Rightarrow> bytes list \<Rightarrow> ('d, 'm, 'h, unit) sp" where
  "cmd_stat E args =
     (case args of
        [] \<Rightarrow> println (str ''Usage: stat <path>'')
      | path # _ \<Rightarrow>
          bindR (abs_path path) (\<lambda>path_abs.
          bindR (files_result (ff_stat (mc_dev (pf_machine E)) (mc_drives (pf_machine E)) path_abs)) (\<lambda>r.
          case r of
            Inr st \<Rightarrow> println_all (stat_lines path st)
          | Inl e \<Rightarrow> sh_fs_error ''stat'' path_abs e)))"

section \<open>Programs\<close>

definition report_exec :: "bytes \<Rightarrow> user_error + nat \<Rightarrow> ('d, 'm, 'h, unit) sp" where
  "report_exec path r =
     (case r of
        Inr status \<Rightarrow> println_color GREEN (path @ str '' exited with status '' @ show_i64 status)
      | Inl e \<Rightarrow> println (str ''run: '' @ quoted path @ str '': '' @ show_user_error e))"

definition is_regular :: "fs_error + fs_stat \<Rightarrow> bool" where
  "is_regular r = (case r of Inr st \<Rightarrow> st_file_type st = Regular | Inl _ \<Rightarrow> False)"

definition find_binapp :: "('d, 'm, 'h) platform \<Rightarrow> bytes \<Rightarrow> ('d, 'm, 'h, bytes option) sp" where
  "find_binapp E command =
     (let exact = str ''/bin/'' @ command; with_ox = str ''/bin/'' @ command @ str ''.ox'';
          stat = (\<lambda>p. files_result (ff_stat (mc_dev (pf_machine E)) (mc_drives (pf_machine E)) p)) in
      bindR (stat exact) (\<lambda>r.
      if is_regular r then returnR (Some exact)
      else bindR (stat with_ox) (\<lambda>r2. returnR (if is_regular r2 then Some with_ox else None))))"

definition run_binapp :: "('d, 'm, 'h) platform \<Rightarrow> bytes \<Rightarrow> bytes list \<Rightarrow> ('d, 'm, 'h, unit) sp" where
  "run_binapp E command args =
     bindR (find_binapp E command) (\<lambda>found.
     case found of
       None \<Rightarrow> println_color RED (str ''No command or binapp found for: '' @ command)
     | Some path \<Rightarrow>
         bindR (println_color GREEN (str ''Starting '' @ path @ str ''...'')) (\<lambda>_.
         bindR (exec_result E path args) (\<lambda>r.
         report_exec path r)))"

definition cmd_run :: "('d, 'm, 'h) platform \<Rightarrow> bytes list \<Rightarrow> ('d, 'm, 'h, unit) sp" where
  "cmd_run E args =
     (case args of
        [] \<Rightarrow> println (str ''Usage: run <program.ox> [args...]'')
      | program # argv \<Rightarrow>
          bindR (abs_path program) (\<lambda>path.
          if \<not> ends_with_ox path then println_color RED (str ''run: '' @ quoted program @ str '' is not an Oxenna .ox executable'')
          else
            bindR (println (str ''Starting '' @ path @ str ''...'')) (\<lambda>_.
            bindR (exec_result E path argv) (\<lambda>r.
            report_exec path r))))"

section \<open>Console and machine\<close>

definition help_lines :: "string list" where
  "help_lines =
     [''Available commands:'', ''  help       - Show this help'', ''  clear      - Clear the screen'', ''  echo       - Print text'',
      ''  info       - Show system information'', ''  panic      - Intentionally throws a kernel panic'',
      ''  bp         - Sets and steps over a breakpoint'', ''  reboot     - Reboots the machine.'',
      ''  shutdown   - Shuts the computer down.'', ''  exit       - Shuts the computer down.'',
      ''  setbg      - Sets the background color.'', ''  setfg      - Sets the foreground color.'',
      ''  tg-serial  - Toggles printing kTerm output to serial.'', ''  alloc!     - Allocate N bytes, prints a pointer'',
      ''  dealloc!   - Free a pointer previously returned by alloc'', [], ''Filesystem:'',
      ''  ls [path]          - List directory contents'', ''  cd [path]          - Change directory'',
      ''  pwd                - Print working directory'', ''  mkdir <path>       - Create a directory'',
      ''  touch <path>       - Create an empty file'', ''  rm <path>          - Remove a file'',
      ''  rmdir <path>       - Remove an empty directory'', ''  mv <old> <new>     - Rename/move a file or directory'',
      ''  cat <path>         - Print a file'', ''  write <path> <txt> - Replace a file with text'',
      ''  stat <path>        - Show file metadata'', ''  run <app.ox> [arg] - Execute an ELF .ox program'']"

definition cmd_help :: "('d, 'm, 'h, unit) sp" where
  "cmd_help = println_all (map str help_lines)"

primrec echo_rest :: "bytes list \<Rightarrow> ('d, 'm, 'h, unit) sp" where
  "echo_rest [] = returnR ()"
| "echo_rest (w # ws) = bindR (print (str '' '')) (\<lambda>_. bindR (print w) (\<lambda>_. echo_rest ws))"

definition cmd_echo :: "bytes list \<Rightarrow> ('d, 'm, 'h, unit) sp" where
  "cmd_echo args =
     bindR (case args of [] \<Rightarrow> returnR () | w # ws \<Rightarrow> bindR (print w) (\<lambda>_. echo_rest ws)) (\<lambda>_. println [])"

definition toggle_serial :: "('d, 'm, 'h, unit) sp" where
  "toggle_serial =
     bindR (on_term serial_mirror_enabled) (\<lambda>state.
     bindR (on_term (set_serial_mirror (\<not> state))) (\<lambda>_.
     println_color GREEN (str ''Toggled serial mirroring'')))"

definition cmd_info :: "('d, 'm, 'h, unit) sp" where
  "cmd_info =
     bindR (println (str ''Oxenna'')) (\<lambda>_.
     bindR (println (str ''Architecture: x86_64'')) (\<lambda>_.
     bindR (println (str ''Bootloader: Limine'')) (\<lambda>_.
     bindR (on_term (on_fb fb_width)) (\<lambda>w.
     bindR (on_term (on_fb fb_height)) (\<lambda>h.
     println (str ''Framebuffer: '' @ show_nat w @ str ''x'' @ show_nat h))))))"

text \<open>The handler of the breakpoint exception (\<^verbatim>\<open>src/int.rs\<close>), which \<open>bp\<close> raises.\<close>

definition breakpoint_handler :: "('d, 'm, 'h) platform \<Rightarrow> ('d, 'm, 'h, unit) sp" where
  "breakpoint_handler E =
     bindR (on_acpi (serial_println (str ''EXCEPTION: BREAKPOINT''))) (\<lambda>_.
     bindR (on_acpi (serial_println (pf_frame E))) (\<lambda>_.
     bindR (println_color RED (str ''EXCEPTION: BREAKPOINT'')) (\<lambda>_.
     println_color RED (pf_frame E))))"

definition cmd_reboot :: "('d, 'm, 'h) platform \<Rightarrow> ('d, 'm, 'h, unit) sp" where
  "cmd_reboot E = on_acpi (reboot (pf_ports E))"

definition cmd_sven :: "('d, 'm, 'h) platform \<Rightarrow> ('d, 'm, 'h, unit) sp" where
  "cmd_sven E =
     bindR (println (str ''This command is dedicated to my friend bunny, sven!'')) (\<lambda>_.
     bindR (println (str ''Say bye bye to your pc :)'')) (\<lambda>_.
     cmd_reboot E))"

text \<open>\<open>qemu_shutdown\<close> (\<^verbatim>\<open>src/drivers/qemu.rs\<close>) writes to a port and then loops for ever.\<close>

definition qemu_shutdown :: "('d, 'm, 'h) platform \<Rightarrow> bool \<Rightarrow> ('d, 'm, 'h, unit) sp" where
  "qemu_shutdown E success =
     bindR (on_acpi (modifyR (\<lambda>a. a\<lparr>ac_hw := pf_out32 E 0xF4 (if success then 0x10 else 0x11) (ac_hw a)\<rparr>))) (\<lambda>_ s. (Hang, s))"

definition cmd_shutdown :: "('d, 'm, 'h) platform \<Rightarrow> ('d, 'm, 'h, unit) sp" where
  "cmd_shutdown E =
     bindR (println (str ''There currently is no support for acpi shutdown.'')) (\<lambda>_.
     bindR (println (str ''However, qemu will close normally with the QEMU driver enabled.'')) (\<lambda>_.
     qemu_shutdown E True))"

text \<open>The name of a color, which is compared with ASCII literals.\<close>

definition color_named :: "bytes \<Rightarrow> color option" where
  "color_named nm = from_name (map (\<lambda>b. char_of (unat b)) nm)"

definition set_color :: "string \<Rightarrow> (color \<Rightarrow> unit tp) \<Rightarrow> bytes list \<Rightarrow> ('d, 'm, 'h, unit) sp" where
  "set_color command setter args =
     (case args of
        [] \<Rightarrow> println_all [str ''Incorrect usage!'', str ''Usage: '' @ str command @ str '' <color>'']
      | nm # _ \<Rightarrow>
          (case color_named nm of
             None \<Rightarrow> println (str ''Unknown color: '' @ nm)
           | Some col \<Rightarrow>
               bindR (on_term (with_console (setter col))) (\<lambda>_.
               on_term (with_console con_clear))))"

definition cmd_setbg :: "bytes list \<Rightarrow> ('d, 'm, 'h, unit) sp" where
  "cmd_setbg = set_color ''setbg'' set_background"

definition cmd_setfg :: "bytes list \<Rightarrow> ('d, 'm, 'h, unit) sp" where
  "cmd_setfg = set_color ''setfg'' set_foreground"

section \<open>Memory\<close>

definition mem_analyze_cmd :: "('d, 'm, 'h) platform \<Rightarrow> ('d, 'm, 'h, unit) sp" where
  "mem_analyze_cmd E =
     bindR (getsR (\<lambda>s. k_frames (sy_kernel s))) (\<lambda>allocator.
     case allocator of
       None \<Rightarrow> panicR
     | Some fa \<Rightarrow> on_term (mem_analyze (pf_boot E) (pf_cr3 E) (pf_cr3_flags E) fa))"

text \<open>\<open>Layout::from_size_align\<close>: the size, rounded up to the alignment, is at most \<open>isize::MAX\<close>.\<close>

definition from_size_align :: "nat \<Rightarrow> nat \<Rightarrow> layout option" where
  "from_size_align sz align =
     (if is_power_of_two align \<and> sz + align \<le> 2 ^ 63 then Some \<lparr>l_size = sz, l_align = align\<rparr> else None)"

text \<open>The alignment argument: \<open>Inl\<close> is the word that is not one.\<close>

definition parse_align :: "bytes list \<Rightarrow> bytes + nat" where
  "parse_align args =
     (case args of
        [] \<Rightarrow> Inr 8
      | w # _ \<Rightarrow> (case parse_usize w of Some a \<Rightarrow> if is_power_of_two a then Inr a else Inl w | None \<Rightarrow> Inl w))"

definition bad_align :: "bytes \<Rightarrow> ('d, 'm, 'h, unit) sp" where
  "bad_align w = println (str ''Invalid alignment: '' @ w @ str '' (must be a power of two)'')"

definition bad_layout :: "nat \<Rightarrow> nat \<Rightarrow> ('d, 'm, 'h, unit) sp" where
  "bad_layout sz align = println (str ''Invalid layout: size='' @ show_nat sz @ str '' align='' @ show_nat align)"

text \<open>What \<open>alloc!\<close> prints of a block.\<close>

definition freeing_args :: "nat \<Rightarrow> nat \<Rightarrow> nat \<Rightarrow> bytes" where
  "freeing_args p sz align = show_hex p @ str '' '' @ show_nat sz @ str '' '' @ show_nat align"

definition alloc_cmd :: "bytes list \<Rightarrow> ('d, 'm, 'h, unit) sp" where
  "alloc_cmd args =
     (case args of
        [] \<Rightarrow> println_all [str ''Incorrect usage!'', str ''Usage: alloc <size> [align]'']
      | size_str # rest \<Rightarrow>
          (case parse_usize size_str of
             None \<Rightarrow> println (str ''Invalid size: '' @ size_str)
           | Some sz \<Rightarrow>
               if sz = 0 then println (str ''Size must be greater than 0'')
               else
                 (case parse_align rest of
                    Inl w \<Rightarrow> bad_align w
                  | Inr align \<Rightarrow>
                      (case from_size_align sz align of
                         None \<Rightarrow> bad_layout sz align
                       | Some l \<Rightarrow>
                           bindR (on_heap (buddy_alloc l)) (\<lambda>p.
                           if p = 0 then println_color RED (str ''Allocation failed: out of memory'')
                           else
                             bindR (println_color GREEN (str ''Allocated '' @ show_nat sz @ str '' bytes (align '' @ show_nat align
                               @ str '') at '' @ show_hex p)) (\<lambda>_.
                             println (str ''To free: dealloc '' @ freeing_args p sz align)))))))"

text \<open>\<open>trim_start_matches\<close> removes the prefix as often as it occurs.\<close>

function trim_start_matches :: "bytes \<Rightarrow> bytes \<Rightarrow> bytes" where
  "trim_start_matches p s =
     (if p \<noteq> [] \<and> take (length p) s = p then trim_start_matches p (drop (length p) s) else s)"
  by pat_completeness auto
termination
proof (relation "measure (\<lambda>(p, s). length s)")
  fix p s :: bytes
  assume a: "p \<noteq> [] \<and> take (length p) s = p"
  then have "length p \<le> length s" by (metis length_take min.absorb_iff1 min.commute)
  moreover have "0 < length p" using a by simp
  ultimately have "length s - length p < length s" by linarith
  then show "((p, drop (length p) s), p, s) \<in> measure (\<lambda>(p, s). length s)" by simp
qed simp

declare trim_start_matches.simps [simp del]

definition dealloc_cmd :: "bytes list \<Rightarrow> ('d, 'm, 'h, unit) sp" where
  "dealloc_cmd args =
     (case args of
        ptr_str # size_str # rest \<Rightarrow>
          (case from_str_radix 16 (trim_start_matches (str ''0X'') (trim_start_matches (str ''0x'') ptr_str)) of
             None \<Rightarrow> println (str ''Invalid pointer: '' @ ptr_str)
           | Some addr \<Rightarrow>
               (case parse_usize size_str of
                  None \<Rightarrow> println (str ''Invalid size: '' @ size_str)
                | Some sz \<Rightarrow>
                    (case parse_align rest of
                       Inl w \<Rightarrow> bad_align w
                     | Inr align \<Rightarrow>
                         (case from_size_align sz align of
                            None \<Rightarrow> bad_layout sz align
                          | Some l \<Rightarrow>
                              if addr = 0 then println (str ''Cannot deallocate a null pointer'')
                              else
                                bindR (on_heap (buddy_dealloc addr l)) (\<lambda>_.
                                println_color GREEN (str ''Deallocated '' @ show_hex addr))))))
      | _ \<Rightarrow> println_all [str ''Incorrect usage!'', str ''Usage: dealloc <ptr> <size> [align]''])"

section \<open>Dispatch\<close>

definition dispatch :: "('d, 'm, 'h) platform \<Rightarrow> bytes \<Rightarrow> bytes list \<Rightarrow> ('d, 'm, 'h, unit) sp" where
  "dispatch E command args =
     (if command = str ''help'' then cmd_help
      else if command = str ''clear'' then on_term console_clear
      else if command = str ''echo'' then cmd_echo args
      else if command = str ''info'' then cmd_info
      else if command = str ''panic'' then panicR
      else if command = str ''bp'' then breakpoint_handler E
      else if command = str ''sven'' then cmd_sven E
      else if command = str ''reboot'' then cmd_reboot E
      else if command = str ''shutdown'' then cmd_shutdown E
      else if command = str ''exit'' then cmd_shutdown E
      else if command = str ''setbg'' then cmd_setbg args
      else if command = str ''setfg'' then cmd_setfg args
      else if command = str ''mem-analyze'' then mem_analyze_cmd E
      else if command = str ''tg-serial'' then toggle_serial
      else if command = str ''alloc!'' then alloc_cmd args
      else if command = str ''dealloc!'' then dealloc_cmd args
      else if command = str ''ls'' then cmd_ls E args
      else if command = str ''cd'' then cmd_cd E args
      else if command = str ''pwd'' then cmd_pwd
      else if command = str ''mkdir'' then cmd_mkdir E args
      else if command = str ''touch'' then cmd_touch E args
      else if command = str ''rm'' then cmd_rm E args
      else if command = str ''rmdir'' then cmd_rmdir E args
      else if command = str ''mv'' then cmd_mv E args
      else if command = str ''cat'' then cmd_cat E args
      else if command = str ''write'' then cmd_write E args
      else if command = str ''stat'' then cmd_stat E args
      else if command = str ''run'' then cmd_run E args
      else run_binapp E command args)"

definition execute :: "('d, 'm, 'h) platform \<Rightarrow> bytes \<Rightarrow> ('d, 'm, 'h, unit) sp" where
  "execute E line =
     (case split_whitespace line of
        [] \<Rightarrow> returnR ()
      | command # args \<Rightarrow> dispatch E command args)"

end
