(* ===== verification/Shell_Correct.thy ===== *)
theory Shell_Correct
  imports Shell Syscall_Ops Kmem_Correct
begin

text \<open>
  What the commands of the shell change: relative paths resolve as lists of components do, only \<open>cd\<close>
  changes the working directory, and only running a program changes the memory of processes.
\<close>

section \<open>Paths\<close>

text \<open>A path as the list of its components.\<close>

definition name_ok :: "bytes \<Rightarrow> bool" where
  "name_ok c \<longleftrightarrow> c \<noteq> [] \<and> c \<noteq> str ''.'' \<and> c \<noteq> str ''..'' \<and> 0x2F \<notin> set c"

definition path_text :: "bytes list \<Rightarrow> bytes" where
  "path_text cs = (if cs = [] then str ''/'' else concat (map (\<lambda>c. 0x2F # c) cs))"

fun walk :: "bytes list \<Rightarrow> bytes \<Rightarrow> bytes list" where
  "walk cs c =
     (if c = [] \<or> c = str ''.'' then cs else if c = str ''..'' then butlast cs else cs @ [c])"

definition resolve_from :: "bytes list \<Rightarrow> bytes \<Rightarrow> bytes list" where
  "resolve_from cs path = foldl walk (if hd path = 0x2F then [] else cs) (split_on (\<lambda>c. c = 0x2F) path)"

text \<open>Before the first \<open>cd\<close> the working directory is the empty string.\<close>

definition denotes :: "bytes \<Rightarrow> bytes list \<Rightarrow> bool" where
  "denotes cwd cs \<longleftrightarrow> list_all name_ok cs \<and> (cwd = path_text cs \<or> cwd = [] \<and> cs = [])"

lemma slash: "str ''/'' = [0x2F]"
  by (simp add: str_def)

lemma rfind_last:
  assumes "c \<notin> set ys"
  shows "rfind c (xs @ c # ys) = Some (length xs)"
  using assms
proof (induction ys rule: rev_induct)
  case Nil
  then show ?case by (simp add: rfind_def nth_append)
next
  case (snoc y ys)
  let ?s = "xs @ c # ys"
  have len: "length (xs @ c # ys @ [y]) = Suc (length ?s)" by simp
  have "(xs @ c # ys @ [y]) ! length ?s = y" by (simp add: nth_append)
  moreover have eq: "(xs @ c # ys @ [y]) ! i = ?s ! i" if "i < length ?s" for i
    using that by (metis append.assoc append_Cons nth_append)
  have "List.find (\<lambda>i. (xs @ c # ys @ [y]) ! i = c) (rev [0..<length ?s]) = List.find (\<lambda>i. ?s ! i = c) (rev [0..<length ?s])"
  proof (rule find_cong [OF refl])
    fix i assume "i \<in> set (rev [0..<length ?s])"
    then have "i < length ?s" by auto
    then show "((xs @ c # ys @ [y]) ! i = c) = (?s ! i = c)" by (simp only: eq)
  qed
  ultimately show ?case
    using snoc unfolding rfind_def len by (auto simp del: append_assoc)
qed

lemma pop_path_text:
  assumes "list_all name_ok cs"
  shows "pop_path_component (path_text cs) = path_text (butlast cs)"
proof (cases cs rule: rev_cases)
  case Nil
  then show ?thesis by (simp add: path_text_def pop_path_component_def)
next
  case (snoc ds c)
  let ?d = "concat (map (\<lambda>c. 0x2F # c) ds)"
  have c: "0x2F \<notin> set c" "c \<noteq> []" using assms snoc by (auto simp: name_ok_def)
  have pt: "path_text cs = ?d @ 0x2F # c" using snoc by (simp add: path_text_def)
  then have "path_text cs \<noteq> str ''/''" using c(2) by (cases "concat (map ((#) 0x2F) ds)") (auto simp: slash)
  then show ?thesis
    using snoc by (auto simp: pt pop_path_component_def rfind_last [OF c(1)] path_text_def slash)
qed

lemma denotes_push:
  assumes "denotes p cs" and "0x2F \<notin> set c"
  shows "denotes (push_component c p) (walk cs c)"
proof -
  have cs: "list_all name_ok cs" "p = path_text cs \<or> p = [] \<and> cs = []" using assms(1) by (auto simp: denotes_def)
  have empty: "pop_path_component [] = []" by (simp add: pop_path_component_def rfind_def)
  consider "c = [] \<or> c = str ''.''" | "c = str ''..''" | "name_ok c"
    using assms(2) by (auto simp: name_ok_def)
  then show ?thesis
  proof cases
    case 2
    moreover have "list_all name_ok (butlast cs)" using cs(1) by (auto simp: list_all_iff dest: in_set_butlastD)
    ultimately show ?thesis
      using cs pop_path_text [OF cs(1)] empty by (auto simp: denotes_def push_component_def)
  next
    case 3
    then have push: "push_component c p = (if p \<noteq> str ''/'' then p @ str ''/'' else p) @ c" "walk cs c = cs @ [c]"
      by (auto simp: push_component_def name_ok_def)
    have "path_text cs = str ''/'' \<longleftrightarrow> cs = []"
      using cs(1) by (cases cs) (auto simp: path_text_def slash name_ok_def)
    then show ?thesis using cs 3 unfolding push denotes_def by (auto simp: path_text_def slash)
  qed (use assms(1) in \<open>auto simp: push_component_def\<close>)
qed

lemma denotes_fold:
  assumes "denotes p cs" and "\<forall>c\<in>set comps. 0x2F \<notin> set c"
  shows "denotes (fold push_component comps p) (foldl walk cs comps)"
  using assms
proof (induction comps arbitrary: p cs)
  case (Cons c comps)
  from Cons.IH [OF denotes_push [OF Cons.prems(1)]] Cons.prems(2) show ?case by (simp del: walk.simps)
qed simp

lemma denotes_absolute:
  assumes "denotes cwd cs" and "path \<noteq> []"
  shows "list_all name_ok (resolve_from cs path) \<and> absolute_path cwd path = path_text (resolve_from cs path)"
proof -
  have root: "denotes (str ''/'') []" by (simp add: denotes_def path_text_def)
  have "\<forall>c\<in>set (split_on (\<lambda>c. c = 0x2F) path). 0x2F \<notin> set c" using split_on_none by fastforce
  from denotes_fold [OF _ this, of "if hd path = 0x2F then str ''/'' else cwd" "if hd path = 0x2F then [] else cs"] root assms(1)
  have "denotes (fold push_component (split_on (\<lambda>c. c = 0x2F) path) (if hd path = 0x2F then str ''/'' else cwd)) (resolve_from cs path)"
    by (simp add: resolve_from_def)
  then show ?thesis
    using assms(2) by (auto simp: denotes_def absolute_path_def Let_def path_text_def slash)
qed

section \<open>What commands change\<close>

text \<open>\<open>m\<close> relates the state before and after it, when it returns.\<close>

definition steps :: "('s \<Rightarrow> 's \<Rightarrow> bool) \<Rightarrow> ('s, 'e, 'a) prog \<Rightarrow> bool" where
  "steps R m \<longleftrightarrow> (\<forall>s x s'. m s = (Ok x, s') \<longrightarrow> R s s')"

text \<open>A relation that every part of a command respects, apart from changing the working directory.\<close>

locale shell_frame =
  fixes E :: "('d, 'm, 'h) platform" and R :: "('d, 'm, 'h) system \<Rightarrow> ('d, 'm, 'h) system \<Rightarrow> bool"
  assumes R_refl: "R s s"
    and R_trans: "R s t \<Longrightarrow> R t u \<Longrightarrow> R s u"
    and R_term: "R s (s\<lparr>sy_kernel := sy_kernel s\<lparr>k_term := t'\<rparr>\<rparr>)"
    and R_heap: "R s (s\<lparr>sy_heap := b\<rparr>)"
    and R_acpi: "R s (s\<lparr>sy_acpi := a\<rparr>)"
    and R_files: "R s (s\<lparr>sy_kernel := sy_kernel s\<lparr>k_fs := f\<rparr>\<rparr>)"
    and R_exec: "exec (pf_machine E) path argv (sy_kernel s) = (r, k) \<Longrightarrow> r \<noteq> Panic \<Longrightarrow> r \<noteq> Hang \<Longrightarrow> R s (s\<lparr>sy_kernel := k\<rparr>)"
begin

lemma steps_bind: "steps R m \<Longrightarrow> (\<And>x. steps R (f x)) \<Longrightarrow> steps R (bindR m f)"
  unfolding steps_def bindR_eq_Ok by (meson R_trans)

lemma steps_pure: "steps R (returnR x)" "steps R (\<lambda>s. (Ok x, s))" "steps R (getsR g)" "steps R panicR"
  by (auto simp: steps_def R_refl)

lemma steps_term: "steps R (on_term m)"
  using R_term by (auto simp: steps_def on_term_def split: prod.splits)

lemma steps_heap: "steps R (on_heap m)"
  using R_heap by (auto simp: steps_def on_heap_def split: prod.splits)

lemma steps_acpi: "steps R (on_acpi m)"
  using R_acpi by (auto simp: steps_def on_acpi_def split: prod.splits)

lemma steps_files: "steps R (files_result m)"
  using R_files by (auto simp: steps_def files_result_def attempt_def on_files_def split: prod.splits res.splits)

lemma steps_exec: "steps R (exec_result E path argv)"
  using R_exec by (fastforce simp: steps_def exec_result_def attempt_def split: prod.splits res.splits)

lemma steps_if: "steps R m \<Longrightarrow> steps R n \<Longrightarrow> steps R (if b then m else n)"
  by simp

lemma steps_sum: "(\<And>e. steps R (m e)) \<Longrightarrow> (\<And>x. steps R (n x)) \<Longrightarrow> steps R (case r of Inl e \<Rightarrow> m e | Inr x \<Rightarrow> n x)"
  by (cases r) simp_all

lemma steps_option: "steps R m \<Longrightarrow> (\<And>x. steps R (n x)) \<Longrightarrow> steps R (case r of None \<Rightarrow> m | Some x \<Rightarrow> n x)"
  by (cases r) simp_all

lemma steps_list: "steps R m \<Longrightarrow> (\<And>x xs. steps R (n x xs)) \<Longrightarrow> steps R (case r of [] \<Rightarrow> m | x # xs \<Rightarrow> n x xs)"
  by (cases r) simp_all

lemmas steps_rules = steps_bind steps_pure steps_term steps_heap steps_acpi steps_files steps_exec steps_if
  steps_sum steps_option steps_list

lemma steps_prints: "steps R (println_all ls)" "steps R (print_entries es)" "steps R (echo_rest ws)"
proof -
  show "steps R (println_all ls)" by (induction ls) (auto intro: steps_rules)
  have "steps R (print_entry e)" for e by (cases e) (auto intro: steps_rules)
  then show "steps R (print_entries es)" by (induction es) (auto intro: steps_rules)
  show "steps R (echo_rest ws)" by (induction ws) (auto intro!: steps_rules)
qed

lemma steps_report: "steps R (sh_fs_error c p e)" "steps R (report_exec p r)" "steps R (bad_align w)" "steps R (bad_layout n k)"
  unfolding sh_fs_error_def report_exec_def bad_align_def bad_layout_def by (intro steps_rules)+

lemma steps_paths: "steps R (abs_path p)" "steps R (path_cmd E c f args)" "steps R (find_binapp E w)"
  unfolding abs_path_def path_cmd_def find_binapp_def Let_def by (intro steps_rules steps_report)+

lemma steps_commands:
  "steps R cmd_help" "steps R (cmd_echo args)" "steps R cmd_info" "steps R (breakpoint_handler E)" "steps R (cmd_reboot E)"
  "steps R (cmd_sven E)" "steps R (cmd_setbg args)" "steps R (cmd_setfg args)" "steps R (mem_analyze_cmd E)" "steps R toggle_serial"
  unfolding cmd_help_def cmd_echo_def cmd_info_def breakpoint_handler_def cmd_sven_def cmd_reboot_def cmd_setbg_def cmd_setfg_def set_color_def
    mem_analyze_cmd_def toggle_serial_def
  by (intro steps_rules steps_prints)+

lemma steps_shutdown: "steps R (cmd_shutdown E)"
  by (auto simp: steps_def cmd_shutdown_def qemu_shutdown_def bindR_eq_Ok)

lemma steps_memory: "steps R (alloc_cmd args)" "steps R (dealloc_cmd args)"
  unfolding alloc_cmd_def dealloc_cmd_def by (intro steps_rules steps_prints steps_report)+

lemma steps_file_commands:
  "steps R (cmd_ls E args)" "steps R cmd_pwd" "steps R (cmd_mkdir E args)" "steps R (cmd_touch E args)" "steps R (cmd_rm E args)"
  "steps R (cmd_rmdir E args)" "steps R (cmd_mv E args)" "steps R (cmd_cat E args)" "steps R (cmd_write E args)" "steps R (cmd_stat E args)"
  unfolding cmd_ls_def cmd_pwd_def cmd_mkdir_def cmd_touch_def cmd_rm_def cmd_rmdir_def cmd_mv_def cmd_cat_def cmd_write_def cmd_stat_def
  by (intro steps_rules steps_prints steps_report steps_paths)+

lemma steps_programs: "steps R (cmd_run E args)" "steps R (run_binapp E c args)"
  unfolding cmd_run_def run_binapp_def by (intro steps_rules steps_report steps_paths)+

lemma steps_dispatch: "command \<noteq> str ''cd'' \<Longrightarrow> steps R (dispatch E command args)"
  unfolding dispatch_def
  by (simp add: steps_commands steps_shutdown steps_memory steps_file_commands steps_programs steps_term steps_pure)

end

interpretation cwd: shell_frame E "\<lambda>s s'. sy_cwd s' = sy_cwd s" for E :: "('d, 'm, 'h) platform"
  by unfold_locales auto

text \<open>The frames of the kernel stay owned, whatever program is run.\<close>

definition keeps_frames :: "('d, 'm, 'h) platform \<Rightarrow> ('m \<Rightarrow> nat set) \<Rightarrow> ('d, 'm, 'h) system \<Rightarrow> ('d, 'm, 'h) system \<Rightarrow> bool" where
  "keeps_frames E tb s s' \<longleftrightarrow> (paging_ok (pf_machine E) tb \<longrightarrow> program_ok (pf_machine E) \<longrightarrow>
     (\<forall>others. running (pf_machine E) tb others (sy_kernel s) \<longrightarrow>
       (\<exists>lost. finite lost \<and> running (pf_machine E) tb (others \<union> lost) (sy_kernel s'))))"

lemma keeps_framesI:
  "(\<And>others. running (pf_machine E) tb others (sy_kernel s) \<Longrightarrow> running (pf_machine E) tb others (sy_kernel s')) \<Longrightarrow>
    keeps_frames E tb s s'"
  unfolding keeps_frames_def by (metis finite.emptyI sup_bot.right_neutral)

lemma running_term: "running X tb others k \<Longrightarrow> running X tb others (k\<lparr>k_term := t\<rparr>)"
  using owns_cong [of "k\<lparr>k_term := t\<rparr>" k] by (simp add: running_def proc_ok_def)

lemma keeps_frames_exec:
  assumes "exec (pf_machine E) path argv (sy_kernel s) = (r, k)" and "r \<noteq> Panic" and "r \<noteq> Hang"
  shows "keeps_frames E tb s (s\<lparr>sy_kernel := k\<rparr>)"
  unfolding keeps_frames_def
proof (intro impI allI)
  fix others
  assume "paging_ok (pf_machine E) tb" "program_ok (pf_machine E)" "running (pf_machine E) tb others (sy_kernel s)"
  from exec_ends [OF this(3,1,2), of path argv] assms(1)
  have e: "exec_end (pf_machine E) tb others (k_pages (sy_kernel s) = []) (r, k)" by simp
  show "\<exists>lost. finite lost \<and> running (pf_machine E) tb (others \<union> lost) (sy_kernel (s\<lparr>sy_kernel := k\<rparr>))"
  proof (cases r)
    case (Ok st)
    with e show ?thesis unfolding exec_end_def idle_def by fastforce
  next
    case (Err x)
    with e have "running (pf_machine E) tb (others \<union> {}) k" by (simp add: exec_end_def)
    then show ?thesis by (metis finite.emptyI system.select_convs(1) system.surjective system.update_convs(1))
  qed (use assms(2,3) in simp_all)
qed

interpretation frames: shell_frame E "keeps_frames E tb" for E :: "('d, 'm, 'h) platform" and tb
proof unfold_locales
  show "keeps_frames E tb s u" if "keeps_frames E tb s t" "keeps_frames E tb t u" for s t u :: "('d, 'm, 'h) system"
    using that unfolding keeps_frames_def by (metis finite_UnI sup_assoc)
qed (simp_all add: keeps_frames_exec, auto intro!: keeps_framesI simp: running_term running_fs)

section \<open>Sessions\<close>

lemma cd_spec:
  assumes "cmd_cd E args s = (Ok (), s')" and "[] \<notin> set args"
  shows "sy_cwd s' = sy_cwd s \<or> (\<exists>path es f. path \<noteq> [] \<and> sy_cwd s' = absolute_path (sy_cwd s) path
      \<and> ff_list_entries (mc_dev (pf_machine E)) (mc_drives (pf_machine E)) (sy_cwd s') (k_fs (sy_kernel s)) = (Ok es, f))"
proof (cases "length args > 1")
  case True
  then show ?thesis using assms(1) cwd.steps_term unfolding steps_def cmd_cd_def Let_def by fastforce
next
  case False
  define path where "path = (case args of [] \<Rightarrow> str ''/'' | p # _ \<Rightarrow> p)"
  define target where "target = absolute_path (sy_cwd s) path"
  have "path \<noteq> []" using assms(2) by (auto simp: path_def slash split: list.splits)
  obtain r f where lst: "ff_list_entries (mc_dev (pf_machine E)) (mc_drives (pf_machine E)) target (k_fs (sy_kernel s)) = (r, f)"
    by (metis surj_pair)
  let ?s = "s\<lparr>sy_kernel := (sy_kernel s)\<lparr>k_fs := f\<rparr>\<rparr>"
  have at: "abs_path path s = (Ok target, s)" by (simp add: abs_path_def target_def)
  have run: "cmd_cd E args s = bindR (files_result (ff_list_entries (mc_dev (pf_machine E)) (mc_drives (pf_machine E)) target)) (\<lambda>r.
        case r of Inr _ \<Rightarrow> modifyR (\<lambda>s. s\<lparr>sy_cwd := target\<rparr>) | Inl e \<Rightarrow> sh_fs_error ''cd'' path e) s"
    using False unfolding cmd_cd_def path_def [symmetric] Let_def by (simp add: bindR_Ok_apply [of "abs_path path", OF at])
  show ?thesis
  proof (cases r)
    case (Ok es)
    then have "s' = ?s\<lparr>sy_cwd := target\<rparr>"
      using assms(1) lst unfolding run by (simp add: files_result_def attempt_def on_files_def bindR_def)
    with Ok lst \<open>path \<noteq> []\<close> target_def show ?thesis by auto
  next
    case (Err e)
    then have "sh_fs_error ''cd'' path e ?s = (Ok (), s')"
      using assms(1) lst unfolding run by (simp add: files_result_def attempt_def on_files_def bindR_def)
    then have "sy_cwd s' = sy_cwd ?s" using cwd.steps_report(1) unfolding steps_def by blast
    then show ?thesis by simp
  qed (use assms(1) lst in \<open>simp_all add: run files_result_def attempt_def on_files_def bindR_def\<close>)
qed

lemma cd_frames: "steps (keeps_frames E tb) (cmd_cd E args)"
proof -
  have "steps (keeps_frames E tb) (modifyR (\<lambda>s. s\<lparr>sy_cwd := c\<rparr>))" for c
    by (auto simp: steps_def intro: keeps_framesI)
  then show ?thesis unfolding cmd_cd_def Let_def
    by (intro frames.steps_rules frames.steps_report frames.steps_paths) auto
qed

text \<open>The lines that the shell runs one after the other, as long as each command returns.\<close>

inductive session :: "('d, 'm, 'h) platform \<Rightarrow> ('d, 'm, 'h) system \<Rightarrow> ('d, 'm, 'h) system \<Rightarrow> bool" for E s where
  start: "session E s s"
| command: "session E s t \<Longrightarrow> execute E line t = (Ok (), u) \<Longrightarrow> session E s u"

lemma execute_cwd:
  assumes "execute E line s = (Ok (), s')" and "denotes (sy_cwd s) cs"
  shows "\<exists>cs'. denotes (sy_cwd s') cs'"
proof (cases "split_whitespace line")
  case Nil
  with assms show ?thesis by (auto simp: execute_def)
next
  case (Cons w args)
  then have d: "dispatch E w args s = (Ok (), s')" and ne: "[] \<notin> set args"
    using assms(1) split_whitespace_nonempty [of "[]" line] by (auto simp: execute_def)
  show ?thesis
  proof (cases "w = str ''cd''")
    case True
    then have "cmd_cd E args s = (Ok (), s')" using d by (simp add: dispatch_def)
    from cd_spec [OF this ne] show ?thesis
    proof (elim disjE exE conjE)
      fix path assume "path \<noteq> []" "sy_cwd s' = absolute_path (sy_cwd s) path"
      then have "denotes (sy_cwd s') (resolve_from cs path)" using denotes_absolute [OF assms(2)] by (simp add: denotes_def)
      then show ?thesis ..
    qed (use assms(2) in auto)
  next
    case False
    with d cwd.steps_dispatch [OF False, of E args] assms(2) show ?thesis by (auto simp: steps_def)
  qed
qed

lemma execute_frames:
  assumes "execute E line s = (Ok (), s')"
  shows "keeps_frames E tb s s'"
proof (cases "split_whitespace line")
  case Nil
  with assms show ?thesis by (auto simp: execute_def intro: keeps_framesI)
next
  case (Cons w args)
  then have "dispatch E w args s = (Ok (), s')" using assms by (simp add: execute_def)
  then show ?thesis
    using frames.steps_dispatch [of w E tb args] cd_frames [of E tb args]
    by (cases "w = str ''cd''") (auto simp: steps_def dispatch_def)
qed

lemma session_cwd: "session E s s' \<Longrightarrow> denotes (sy_cwd s) cs \<Longrightarrow> \<exists>cs'. denotes (sy_cwd s') cs'"
  by (induction rule: session.induct) (use execute_cwd in blast)+

lemma session_frames: "session E s s' \<Longrightarrow> keeps_frames E tb s s'"
proof (induction rule: session.induct)
  case (command t line u)
  with execute_frames [of E line t u tb] frames.R_trans show ?case by blast
qed (simp add: frames.R_refl)

end
