(* ===== verification/Shell_Ops.thy ===== *)
theory Shell_Ops
  imports Shell_Correct Console_Ops
begin

text \<open>
  Properties of the shell: how paths resolve, what a session keeps, that what \<open>alloc!\<close> prints can be
  given to \<open>dealloc!\<close>, and that the output of commands is what the display shows.
\<close>

section \<open>Words\<close>

lemma split_on_plain: "\<forall>x\<in>set w. \<not> P x \<Longrightarrow> split_on P w = [w]"
  by (induction w) auto

lemma split_on_word: "\<forall>x\<in>set w. \<not> P x \<Longrightarrow> P y \<Longrightarrow> split_on P (w @ y # r) = w # split_on P r"
  by (induction w) auto

lemma utf8_chars_ascii: "\<forall>b\<in>set s. b < 0x80 \<Longrightarrow> utf8_chars s = map (\<lambda>b. [b]) s"
proof (induction s)
  case (Cons b s)
  then have "fst (utf8_len (b # s)) = 1" by (simp add: utf8_len_def Let_def)
  with Cons show ?case by (subst utf8_chars.simps) simp
qed simp

text \<open>Bytes of a word: printable ASCII.\<close>

definition word_byte :: "u8 \<Rightarrow> bool" where
  "word_byte b \<longleftrightarrow> 0x20 < b \<and> b < 0x7F"

lemma word_byte_char: "word_byte b \<Longrightarrow> b < 0x80 \<and> \<not> is_white [b]"
  by (auto simp: word_byte_def is_white_def word_less_nat_alt)

lemma concat_single: "concat (map (\<lambda>b. [b]) w) = w"
  by (induction w) auto

lemma split_join:
  assumes "\<forall>w\<in>set ws. w \<noteq> [] \<and> (\<forall>b\<in>set w. word_byte b)"
  shows "split_whitespace (join_words ws) = ws"
proof -
  have space: "str '' '' = [0x20]" "is_white [0x20]" by (simp_all add: str_def is_white_def)
  have ascii: "\<forall>b\<in>set (join_words ws). b < 0x80"
    using assms word_byte_char by (induction ws rule: join_words.induct) (auto simp: space)
  have "map concat (filter (\<lambda>w. w \<noteq> []) (split_on is_white (map (\<lambda>b. [b]) (join_words ws)))) = ws"
    using assms
  proof (induction ws rule: join_words.induct)
    case (2 w)
    then have "\<forall>x\<in>set (map (\<lambda>b. [b]) w). \<not> is_white x" using word_byte_char by auto
    with 2 show ?case by (simp add: split_on_plain concat_single)
  next
    case (3 w v vs)
    then have "\<forall>x\<in>set (map (\<lambda>b. [b]) w). \<not> is_white x" using word_byte_char by auto
    from split_on_word [of "map (\<lambda>b. [b]) w" is_white "[0x20]", OF this space(2)] 3 show ?case
      by (simp add: space concat_single)
  qed simp
  then show ?thesis by (simp add: split_whitespace_def utf8_chars_ascii [OF ascii])
qed

lemma digit_word: "d < 36 \<Longrightarrow> word_byte (digit d)"
  using unat_digit [of d] by (auto simp: word_byte_def word_less_nat_alt split: if_splits)

lemma show_words: "2 \<le> r \<Longrightarrow> r \<le> 36 \<Longrightarrow> show_radix r n \<noteq> [] \<and> (\<forall>b\<in>set (show_radix r n). word_byte b)"
  using show_radix_digits [of r _ n] digit_word show_radix_nonempty by (metis less_le_trans)

lemma show_hex_words: "show_hex n \<noteq> [] \<and> (\<forall>b\<in>set (show_hex n). word_byte b)"
proof -
  have "str ''0x'' = [0x30, 0x78]" by (simp add: str_def)
  moreover have "word_byte 0x30" "word_byte 0x78" by (simp_all add: word_byte_def)
  ultimately show ?thesis using show_words [of 16 n] by (auto simp: show_hex_def)
qed

lemma trim_show_hex: "trim_start_matches (str ''0X'') (trim_start_matches (str ''0x'') (show_hex n)) = show_radix 16 n"
proof -
  have x: "str ''0x'' = [0x30, 0x78]" "str ''0X'' = [0x30, 0x58]" by (simp_all add: str_def)
  have hex: "digit d \<noteq> 0x78 \<and> digit d \<noteq> 0x58" if "d < 16" for d
    using unat_digit [of d] that by (auto split: if_splits)
  then have no: "0x78 \<notin> set (show_radix 16 n)" "0x58 \<notin> set (show_radix 16 n)"
    using show_radix_digits [of 16 _ n] by fastforce+
  have stop: "trim_start_matches [a, b] (show_radix 16 n) = show_radix 16 n" if "b \<notin> set (show_radix 16 n)" for a b
    using that by (subst trim_start_matches.simps) (metis in_set_takeD list.set_intros(1,2))
  have "trim_start_matches [0x30, 0x78] (show_hex n) = trim_start_matches [0x30, 0x78] (show_radix 16 n)"
    by (subst trim_start_matches.simps) (simp add: show_hex_def x)
  then show ?thesis by (simp add: x stop no)
qed

section \<open>Allocating from the shell\<close>

lemma heap_live_below:
  assumes "sys_inv (h, live) F" and "live p = Some l"
    and "(\<Union>z\<in>set (zone_list h). zblk z) = {start..<start + n}"
  shows "p < start + n"
proof -
  note inv = sys_invD [OF assms(1)]
  from inv(4) [OF assms(2)] obtain k where "(p, k) \<in> live_blocks live" by blast
  then obtain z where "z \<in> set (zone_list h)" "in_zone z (p, k)" using heap_inv_zone [OF inv(1), of p k] by blast
  then have "p \<in> (\<Union>z\<in>set (zone_list h). zblk z)"
    using in_zone_blk_subset [of z "(p, k)"] blk_base [of p k] by blast
  then show ?thesis using assms(3) by simp
qed

lemma heap_reachable_step: "heap_reachable start n h live \<Longrightarrow> heap_step (h, live) (h', live') \<Longrightarrow> heap_reachable start n h' live'"
  unfolding heap_reachable_def by (meson rtranclp.rtrancl_into_rtrancl)

text \<open>What the two commands do with well-formed arguments.\<close>

lemma alloc_cmd_run:
  assumes "0 < sz" and "is_power_of_two al" and "sz + al \<le> 2 ^ 63"
  shows "execute E (join_words [str ''alloc!'', show_nat sz, show_nat al]) =
    bindR (on_heap (buddy_alloc \<lparr>l_size = sz, l_align = al\<rparr>)) (\<lambda>p.
      if p = 0 then println_color RED (str ''Allocation failed: out of memory'')
      else bindR (println_color GREEN (str ''Allocated '' @ show_nat sz @ str '' bytes (align '' @ show_nat al @ str '') at '' @ show_hex p))
        (\<lambda>_. println (str ''To free: dealloc '' @ freeing_args p sz al)))"
proof -
  have "str ''alloc!'' = [0x61, 0x6C, 0x6C, 0x6F, 0x63, 0x21]" by (simp add: str_def)
  then have w: "split_whitespace (join_words [str ''alloc!'', show_nat sz, show_nat al]) = [str ''alloc!'', show_nat sz, show_nat al]"
    using show_words [of 10] by (intro split_join) (auto simp: word_byte_def)
  have "sz < u64_limit" "al < u64_limit" using assms(3) by auto
  then have "parse_usize (show_nat sz) = Some sz" "parse_align [show_nat al] = Inr al"
    using assms(2) by (simp_all add: from_str_radix_show parse_align_def)
  then show ?thesis using assms unfolding execute_def w by (simp add: dispatch_def alloc_cmd_def from_size_align_def)
qed

lemma dealloc_cmd_run:
  assumes "0 < p" and "p < u64_limit" and "is_power_of_two al" and "sz + al \<le> 2 ^ 63"
  shows "execute E (str ''dealloc! '' @ freeing_args p sz al) =
    bindR (on_heap (buddy_dealloc p \<lparr>l_size = sz, l_align = al\<rparr>)) (\<lambda>_. println_color GREEN (str ''Deallocated '' @ show_hex p))"
proof -
  have d: "str ''dealloc!'' = [0x64, 0x65, 0x61, 0x6C, 0x6C, 0x6F, 0x63, 0x21]" by (simp add: str_def)
  have line: "str ''dealloc! '' @ freeing_args p sz al = join_words [str ''dealloc!'', show_hex p, show_nat sz, show_nat al]"
    by (simp add: freeing_args_def) (simp add: str_def)
  have w: "split_whitespace (join_words [str ''dealloc!'', show_hex p, show_nat sz, show_nat al]) = [str ''dealloc!'', show_hex p, show_nat sz, show_nat al]"
    using show_words [of 10] show_hex_words by (intro split_join) (auto simp: word_byte_def d)
  have "sz < u64_limit" "al < u64_limit" using assms(4) by auto
  then have "parse_usize (show_nat sz) = Some sz" "parse_align [show_nat al] = Inr al" "from_str_radix 16 (show_radix 16 p) = Some p"
    using assms(2,3) by (simp_all add: from_str_radix_show parse_align_def)
  then show ?thesis
    using assms unfolding line execute_def w by (simp add: dispatch_def dealloc_cmd_def from_size_align_def trim_show_hex)
qed

section \<open>A small system\<close>

definition disk_machine :: "(ram_disk, small_pager) machine" where
  "disk_machine = small_machine\<lparr>mc_drives := [sample_disk]\<rparr>"

definition small_ports :: "unit port_ops" where
  "small_ports = \<lparr>pt_inb = (\<lambda>p h. (0, h)), pt_outb = (\<lambda>p v h. h), pt_inw = (\<lambda>p h. (0, h)), pt_outw = (\<lambda>p v h. h)\<rparr>"

definition small_platform :: "(ram_disk, small_pager, unit) platform" where
  "small_platform = \<lparr>pf_machine = disk_machine, pf_boot = \<lparr>bi_hhdm = None, bi_memmap = None\<rparr>, pf_cr3 = 0, pf_cr3_flags = [],
     pf_ports = small_ports, pf_out32 = (\<lambda>p v h. h), pf_frame = []\<rparr>"

definition small_system :: "(ram_disk, small_pager, unit) system" where
  "small_system = \<lparr>sy_kernel = small_kernel, sy_heap = small_heap, sy_cwd = [],
     sy_acpi = \<lparr>ac_reset = None, ac_serial = [], ac_interrupts = True, ac_hw = ()\<rparr>\<rparr>"

lemma disk_machine_ok: "paging_ok disk_machine tb = paging_ok small_machine tb" "program_ok disk_machine"
  "running disk_machine tb others k = running small_machine tb others k"
  by (simp_all add: paging_ok_def program_ok_def disk_machine_def small_machine_def running_def proc_ok_def owns_def frames_of_def pages_ok_def)

lemma sample_readdir: "\<exists>es. readdir ram_ops 2 sample_fs = (Ok es, sample_fs)"
proof -
  have "list_block (x_filetype sample_fs) 1024 (encs sample_root_entries) 0 = Ok (map (entry_of (x_filetype sample_fs)) (filter (\<lambda>e. t_ino e \<noteq> 0) sample_root_entries))"
  proof -
    have "length (encs sample_root_entries) = 1024" by (simp add: sample_root_entries_def rec_of_def)
    with list_block_encs [of sample_root_entries "[]" 1024 "x_filetype sample_fs"] sample_entries_ok(1) show ?thesis by simp
  qed
  then show ?thesis
    by (simp add: readdir_def bindR_def sample_check_dir run_inode_def dir_blocks_def dir_inode_fields bmap_def get_inode_def
        on_fs_def Let_def sample_read_block sample_blocks_def del: encs_simps)
qed

text \<open>\<open>cd\<close> without an argument goes to the root directory.\<close>

lemma small_cd: "\<exists>s'. execute small_platform (str ''cd'') small_system = (Ok (), s') \<and> sy_cwd s' = str ''/''"
proof -
  obtain es where es: "readdir ram_ops 2 sample_fs = (Ok es, sample_fs)" using sample_readdir by blast
  have words: "split_whitespace (str ''cd'') = [str ''cd'']"
    using split_join [of "[str ''cd'']"] by (simp add: str_def word_byte_def)
  have "fs_resolve ram_ops ROOT_INO (str ''/'') True sample_fs = (Ok 2, sample_fs)"
  proof -
    have "fs_walk ram_ops (Suc 40) True ROOT_INO [0x2F] 0 sample_fs = (Ok (2, 0), sample_fs)"
      by (simp only: fs_walk.simps) (simp add: path_comps_def)
    then show ?thesis by (simp add: fs_resolve_def slash bindR_def)
  qed
  then have "ff_list_entries ram_ops [sample_disk] (str ''/'') file_system_new
      = (Ok (map to_entry (filter (\<lambda>e. \<not> dot_name (utf8_lossy (de_name e))) es)), \<lparr>inner = Some sample_fs\<rparr>)"
    using es by (simp add: ff_list_entries_def with_fs_def fs_ready_def file_system_new_def sample_mount on_inner_def at_path_def bindR_def)
  moreover have "absolute_path [] (str ''/'') = str ''/''"
    by (simp add: absolute_path_def slash push_component_def Let_def)
  ultimately show ?thesis
    by (simp add: execute_def words dispatch_def cmd_cd_def Let_def abs_path_def bindR_def files_result_def attempt_def on_files_def
        small_platform_def small_system_def disk_machine_def small_machine_def small_kernel_def)
qed

section \<open>Output\<close>

lemma tame_no_backspace: "0x08 \<notin> set bs \<Longrightarrow> tame_text bs p"
  by (induction bs arbitrary: p) auto

text \<open>A terminal that shows the page \<open>p\<close>.\<close>

definition on_page :: "(nat \<Rightarrow> cell) \<Rightarrow> info \<Rightarrow> font \<Rightarrow> page \<Rightarrow> ('d, 'm, 'h) system \<Rightarrow> bool" where
  "on_page out i f p s \<longleftrightarrow> showing out i f (k_term (sy_kernel s)) p \<and> visible i f (k_term (sy_kernel s)) p"

definition term_only :: "('d, 'm, 'h) system \<Rightarrow> ('d, 'm, 'h) system \<Rightarrow> bool" where
  "term_only s s' \<longleftrightarrow> (\<exists>t. s' = s\<lparr>sy_kernel := (sy_kernel s)\<lparr>k_term := t\<rparr>\<rparr>)"

lemma term_only_refl [simp]: "term_only s s"
  unfolding term_only_def by (rule exI [of _ "k_term (sy_kernel s)"]) simp

lemma term_only_trans: "term_only s t \<Longrightarrow> term_only t u \<Longrightarrow> term_only s u"
  by (auto simp: term_only_def)

lemma mirror_run: "\<exists>t'. mirror bs t = (Ok (), t') \<and> tm_con t' = tm_con t \<and> tm_fb t' = tm_fb t \<and> tm_init t' = tm_init t"
  by (simp add: mirror_def serial_mirror_enabled_def bindR_def)

lemma showing_mirror:
  "tm_con t' = tm_con t \<Longrightarrow> tm_fb t' = tm_fb t \<Longrightarrow> tm_init t' = tm_init t \<Longrightarrow>
    showing out i f t' p = showing out i f t p \<and> visible i f t' p = visible i f t p"
  by (simp add: showing_def visible_def)

text \<open>Printing from the shell returns and shows the text; nothing but the terminal changes.\<close>

lemma print_op_shown:
  assumes "on_page out i f p s" and "pg_line p + length bs + 1 < u64_limit" and "0x08 \<notin> set bs"
    and "op = Print bs \<and> m = write_fmt bs \<or> op = PrintIn col bs \<and> m = write_fmt_color col bs"
  shows "\<exists>s'. on_term (bindR m (\<lambda>_. mirror bs)) s = (Ok (), s') \<and> on_page out i f (p_op op p) s'
    \<and> term_only s s'"
proof -
  let ?t = "k_term (sy_kernel s)"
  have "cost op = length bs" "tame op p" using assms(3,4) by (auto simp: tame_no_backspace)
  with run_op_shows [of out i f ?t p op "\<lambda>_. returnR ()"] assms(1,2,4)
  obtain t1 where t1: "m ?t = (Ok (), t1)" "showing out i f t1 (p_op op p)" "visible i f t1 (p_op op p)"
    by (auto simp: on_page_def)
  obtain t2 where t2: "mirror bs t1 = (Ok (), t2)" "tm_con t2 = tm_con t1" "tm_fb t2 = tm_fb t1" "tm_init t2 = tm_init t1"
    using mirror_run by blast
  with t1 show ?thesis by (auto simp: on_term_def bindR_def on_page_def showing_mirror [OF t2(2-4)] term_only_def)
qed

lemma println_shown:
  assumes "on_page out i f p s" and "pg_line p + length bs + 2 < u64_limit" and "0x08 \<notin> set bs"
  shows "\<exists>s'. println bs s = (Ok (), s') \<and> on_page out i f (fold p_put (bs @ [0x0A]) p) s'
    \<and> term_only s s'"
  using print_op_shown [of out i f p s "bs @ [0x0A]" "Print (bs @ [0x0A])"] assms by (simp add: console_println_def)

lemma print_shown:
  assumes "on_page out i f p s" and "pg_line p + length bs + 1 < u64_limit" and "0x08 \<notin> set bs"
  shows "\<exists>s'. print bs s = (Ok (), s') \<and> on_page out i f (fold p_put bs p) s'
    \<and> term_only s s'"
  using print_op_shown [of out i f p s bs "Print bs"] assms by (simp add: console_print_def)

lemma println_color_shown:
  assumes "on_page out i f p s" and "pg_line p + length bs + 2 < u64_limit" and "0x08 \<notin> set bs"
  shows "\<exists>s'. println_color col bs s = (Ok (), s') \<and> on_page out i f (p_op (PrintIn col (bs @ [0x0A])) p) s'
    \<and> term_only s s'"
  using print_op_shown [of out i f p s "bs @ [0x0A]" "PrintIn col (bs @ [0x0A])"] assms by (simp add: console_println_color_def)

lemma word_no_backspace: "\<forall>b\<in>set w. word_byte b \<Longrightarrow> 0x08 \<notin> set w"
  by (auto simp: word_byte_def)

lemma join_words_Cons: "join_words (w # ws) = w @ concat (map (\<lambda>v. 0x20 # v) ws)"
proof (induction ws arbitrary: w)
  case (Cons v ws)
  then show ?case by (simp add: str_def)
qed simp

lemma echo_rest_shown:
  assumes "on_page out i f p s" and "pg_line p + length (concat (map (\<lambda>v. 0x20 # v) ws)) + 1 < u64_limit"
    and "\<forall>w\<in>set ws. \<forall>b\<in>set w. word_byte b"
  shows "\<exists>s'. echo_rest ws s = (Ok (), s') \<and> on_page out i f (fold p_put (concat (map (\<lambda>v. 0x20 # v) ws)) p) s'
    \<and> term_only s s'"
  using assms
proof (induction ws arbitrary: s p)
  case (Cons w ws)
  have space: "str '' '' = [0x20]" by (simp add: str_def)
  obtain s1 where s1: "print (str '' '') s = (Ok (), s1)" "on_page out i f (p_put 0x20 p) s1"
      "term_only s s1"
    using print_shown [OF Cons.prems(1), of "[0x20]"] Cons.prems(2) by (auto simp: space)
  have "pg_line (p_put 0x20 p) + length w + 1 < u64_limit" using p_line_put [of "0x20" p] Cons.prems(2) by simp
  then obtain s2 where s2: "print w s1 = (Ok (), s2)" "on_page out i f (fold p_put w (p_put 0x20 p)) s2"
      "term_only s1 s2"
    using print_shown [OF s1(2), of w] word_no_backspace Cons.prems(3) by auto
  have "pg_line (fold p_put w (p_put 0x20 p)) + length (concat (map (\<lambda>v. 0x20 # v) ws)) + 1 < u64_limit"
    using p_line_text [of w "p_put 0x20 p"] p_line_put [of "0x20" p] Cons.prems(2) by simp
  from Cons.IH [OF s2(2) this] Cons.prems(3) obtain s3 where s3: "echo_rest ws s2 = (Ok (), s3)"
      "on_page out i f (fold p_put (concat (map (\<lambda>v. 0x20 # v) ws)) (fold p_put w (p_put 0x20 p))) s3"
      "term_only s2 s3" by auto
  have "term_only s s3"
    using s1(3) s2(3) s3(3) term_only_trans by blast
  with s1(1) s2(1) s3 show ?case by (simp add: bindR_def)
qed simp

section \<open>Properties\<close>

text \<open>C36: A path typed at the shell is resolved against the working directory as a list of components: an
  absolute path starts at the root, empty components and \<^verbatim>\<open>.\<close> are skipped, \<^verbatim>\<open>..\<close> drops the last
  component and stays at the root, and every other component is appended. The result is absolute
  and normal: it has no empty component, no \<^verbatim>\<open>.\<close> and no \<^verbatim>\<open>..\<close>.\<close>

theorem relative_paths_resolve:
  assumes "denotes cwd cs" and "path \<noteq> []"
  shows "absolute_path cwd path = path_text (resolve_from cs path) \<and> list_all name_ok (resolve_from cs path)"
  using denotes_absolute [OF assms] by simp

theorem relative_paths_resolve_witness:
  "absolute_path (str ''/bin'') (str ''../etc/./x'') = path_text [str ''etc'', str ''x'']"
proof -
  have "denotes (str ''/bin'') [str ''bin'']" by (simp add: denotes_def path_text_def name_ok_def str_def)
  from relative_paths_resolve [OF this, of "str ''../etc/./x''"] show ?thesis
    by (simp add: resolve_from_def str_def)
qed

text \<open>Whatever lines are typed, as long as the commands return: the working directory is the root or a
  normal absolute path, and the frames of the machine stay accounted for. The page tables, the pages
  of the last program and the rest of the kernel hold disjoint sets of frames, also when programs
  were run that made any system calls.\<close>

theorem shell_session_safe:
  assumes "session E s s'" and "denotes (sy_cwd s) cs" and "paging_ok (pf_machine E) tb" and "program_ok (pf_machine E)"
    and "running (pf_machine E) tb others (sy_kernel s)"
  shows "(\<exists>cs'. denotes (sy_cwd s') cs')
    \<and> (\<exists>lost. finite lost \<and> running (pf_machine E) tb (others \<union> lost) (sy_kernel s'))"
  using session_cwd [OF assms(1,2)] session_frames [OF assms(1), of tb] assms(3-5) by (auto simp: keeps_frames_def)

theorem shell_session_safe_witness:
  "\<exists>s'. session small_platform small_system s' \<and> sy_cwd s' = str ''/''
     \<and> (\<exists>lost. finite lost \<and> running disk_machine small_tables ({} \<union> lost) (sy_kernel s'))"
proof -
  obtain s' where s': "execute small_platform (str ''cd'') small_system = (Ok (), s')" "sy_cwd s' = str ''/''"
    using small_cd by blast
  have ses: "session small_platform small_system s'" by (rule session.command [OF session.start s'(1)])
  have m: "pf_machine small_platform = disk_machine" by (simp add: small_platform_def)
  have "denotes (sy_cwd small_system) []" by (simp add: denotes_def small_system_def)
  from shell_session_safe [OF ses this, of small_tables "{}"]
  have "\<exists>lost. finite lost \<and> running disk_machine small_tables ({} \<union> lost) (sy_kernel s')"
    using small_paging_ok small_kernel_running unfolding m by (simp add: disk_machine_ok) (simp add: small_system_def)
  with ses s'(2) show ?thesis by blast
qed


text \<open>A system on the machine of \<open>small_system\<close> with a working screen.\<close>

definition screen_system :: "terminal \<Rightarrow> (ram_disk, small_pager, unit) system" where
  "screen_system t = small_system\<lparr>sy_kernel := small_kernel\<lparr>k_term := t\<rparr>\<rparr>"

lemma screen_exists: "\<exists>t. on_page (\<lambda>_. EMPTY) (desc_info vga) box_font (prompt_page (desc_info vga)) (screen_system t)"
  using booted [OF vga_ok] vga_synced by (auto simp: on_page_def screen_system_def)

lemma small_numbers: "show_nat 40 = str ''40''" "show_nat 8 = str ''8''" "show_hex 64 = str ''0x40''"
  by (simp_all add: show_hex_def show_radix.simps digit_def str_def)

text \<open>The state after \<open>alloc!\<close> has printed where the block is.\<close>

lemma screen_alloc:
  assumes s: "on_page (\<lambda>_. EMPTY) (desc_info vga) box_font (prompt_page (desc_info vga)) (screen_system t)"
  shows "\<exists>s1. execute small_platform (join_words [str ''alloc!'', show_nat 40, show_nat 8]) (screen_system t) = (Ok (), s1)
    \<and> sy_heap s1 \<noteq> small_heap"
proof -
  let ?p = "prompt_page (desc_info vga)" and ?s0 = "(screen_system t)\<lparr>sy_heap := snd (buddy_alloc layout_a small_heap)\<rparr>"
  have a: "on_heap (buddy_alloc \<lparr>l_size = 40, l_align = 8\<rparr>) (screen_system t) = (Ok 64, ?s0)"
  proof -
    obtain h where "buddy_alloc layout_a small_heap = (Ok 64, h)" by (metis prod.collapse small_heap_alloc_a)
    then show ?thesis by (simp add: on_heap_def screen_system_def small_system_def layout_a_def)
  qed
  have p0: "on_page (\<lambda>_. EMPTY) (desc_info vga) box_font ?p ?s0" using s by (simp add: on_page_def)
  let ?m1 = "str ''Allocated '' @ show_nat 40 @ str '' bytes (align '' @ show_nat 8 @ str '') at '' @ show_hex 64"
  let ?m2 = "str ''To free: dealloc '' @ freeing_args 64 40 8"
  have m: "0x08 \<notin> set ?m1" "0x08 \<notin> set ?m2" "length ?m1 \<le> 60" "length ?m2 \<le> 60"
    unfolding freeing_args_def small_numbers by (simp_all add: str_def)
  obtain s1 where s1: "println_color GREEN ?m1 ?s0 = (Ok (), s1)" "term_only ?s0 s1"
      "on_page (\<lambda>_. EMPTY) (desc_info vga) box_font (p_op (PrintIn GREEN (?m1 @ [0x0A])) ?p) s1"
    using println_color_shown [OF p0 _ m(1), of GREEN] prompt_line [of "desc_info vga"] m(3) by auto
  have "pg_line (p_op (PrintIn GREEN (?m1 @ [0x0A])) ?p) \<le> pg_line ?p + cost (PrintIn GREEN (?m1 @ [0x0A]))" by (rule p_line_op)
  with prompt_line [of "desc_info vga"] m(3) have "pg_line (p_op (PrintIn GREEN (?m1 @ [0x0A])) ?p) \<le> 100" by simp
  then obtain s2 where s2: "println ?m2 s1 = (Ok (), s2)" "term_only s1 s2"
    using println_shown [OF s1(3) _ m(2)] m(4) by auto
  have "execute small_platform (join_words [str ''alloc!'', show_nat 40, show_nat 8]) (screen_system t) = (Ok (), s2)"
    using a s1(1) s2(1) by (subst alloc_cmd_run) (simp_all add: is_power_of_two_def bindR_def)
  moreover have "sy_heap s2 = snd (buddy_alloc layout_a small_heap)" using s1(2) s2(2) by (auto simp: term_only_def)
  moreover have "snd (buddy_alloc layout_a small_heap) \<noteq> small_heap"
    unfolding layout_a_def small_heap_def
    by (simp add: buddy_eval) (auto simp: nth_list_update dest!: arg_cong [where f = "\<lambda>xs. xs ! 0"])
  ultimately show ?thesis by auto
qed


text \<open>What commands print is what the display shows. \<open>echo\<close> appends its words, with one space between
  them, and a new line to the page on the screen; \<open>pwd\<close> appends the working directory, the root
  before the first \<open>cd\<close>. Both return and change nothing but the terminal.\<close>

theorem shell_output_displayed:
  assumes "on_page out i f p s" and "\<forall>w\<in>set ws. w \<noteq> [] \<and> (\<forall>b\<in>set w. word_byte b)" and "denotes (sy_cwd s) cs"
    and "0x08 \<notin> set (path_text cs)" and "pg_line p + length (join_words ws) + length (path_text cs) + 2 < u64_limit"
  shows "(\<exists>s'. execute E (join_words (str ''echo'' # ws)) s = (Ok (), s') \<and> term_only s s'
        \<and> on_page out i f (fold p_put (join_words ws @ [0x0A]) p) s')
    \<and> (\<exists>s'. execute E (str ''pwd'') s = (Ok (), s') \<and> term_only s s'
        \<and> on_page out i f (fold p_put (path_text cs @ [0x0A]) p) s')"
proof
  have "str ''echo'' = [0x65, 0x63, 0x68, 0x6F]" by (simp add: str_def)
  then have "split_whitespace (join_words (str ''echo'' # ws)) = str ''echo'' # ws"
    using assms(2) by (intro split_join) (auto simp: word_byte_def)
  then have run: "execute E (join_words (str ''echo'' # ws)) = cmd_echo ws" by (simp add: execute_def dispatch_def)
  obtain s1 where s1: "(case ws of [] \<Rightarrow> returnR () | w # vs \<Rightarrow> bindR (print w) (\<lambda>_. echo_rest vs)) s = (Ok (), s1)"
      "on_page out i f (fold p_put (join_words ws) p) s1" "term_only s s1"
  proof (cases ws)
    case (Cons w vs)
    obtain s1 where s1: "print w s = (Ok (), s1)" "on_page out i f (fold p_put w p) s1" "term_only s s1"
      using print_shown [OF assms(1), of w] assms(2,5) Cons word_no_backspace by (auto simp: join_words_Cons)
    have "pg_line (fold p_put w p) + length (concat (map (\<lambda>v. 0x20 # v) vs)) + 1 < u64_limit"
      using p_line_text [of w p] assms(5) by (simp add: Cons join_words_Cons)
    from echo_rest_shown [OF s1(2) this] assms(2) Cons obtain s2 where "echo_rest vs s1 = (Ok (), s2)"
        "on_page out i f (fold p_put (concat (map (\<lambda>v. 0x20 # v) vs)) (fold p_put w p)) s2" "term_only s1 s2" by auto
    with s1 Cons term_only_trans show thesis by (intro that [of s2]) (auto simp: bindR_def join_words_Cons)
  qed (use assms(1) in \<open>auto intro: that\<close>)
  have "pg_line (fold p_put (join_words ws) p) + 2 < u64_limit" using p_line_text [of "join_words ws" p] assms(5) by simp
  then obtain s2 where "println [] s1 = (Ok (), s2)" "on_page out i f (fold p_put [0x0A] (fold p_put (join_words ws) p)) s2" "term_only s1 s2"
    using println_shown [OF s1(2), of "[]"] by auto
  with s1 term_only_trans show "\<exists>s'. execute E (join_words (str ''echo'' # ws)) s = (Ok (), s') \<and> term_only s s'
      \<and> on_page out i f (fold p_put (join_words ws @ [0x0A]) p) s'"
    unfolding run cmd_echo_def by (auto simp: bindR_def)
next
  have "split_whitespace (join_words [str ''pwd'']) = [str ''pwd'']"
    by (intro split_join) (auto simp: word_byte_def str_def)
  then have "execute E (str ''pwd'') = cmd_pwd" by (simp add: execute_def dispatch_def)
  moreover have "(if sy_cwd s = [] then str ''/'' else sy_cwd s) = path_text cs"
    using assms(3) by (auto simp: denotes_def path_text_def slash)
  ultimately have run: "execute E (str ''pwd'') s = println (path_text cs) s" by (simp add: cmd_pwd_def bindR_def)
  show "\<exists>s'. execute E (str ''pwd'') s = (Ok (), s') \<and> term_only s s' \<and> on_page out i f (fold p_put (path_text cs @ [0x0A]) p) s'"
    unfolding run using println_shown [OF assms(1), of "path_text cs"] assms(4,5) by auto
qed

theorem shell_output_displayed_witness:
  "\<exists>t s'. execute small_platform (str ''echo hi'') (screen_system t) = (Ok (), s')
     \<and> on_page (\<lambda>_. EMPTY) (desc_info vga) box_font (fold p_put (str ''hi'' @ [0x0A]) (prompt_page (desc_info vga))) s'"
proof -
  obtain t where t: "on_page (\<lambda>_. EMPTY) (desc_info vga) box_font (prompt_page (desc_info vga)) (screen_system t)"
    using screen_exists by blast
  have "denotes (sy_cwd (screen_system t)) []" by (simp add: denotes_def screen_system_def small_system_def)
  moreover have "join_words [str ''echo'', str ''hi''] = str ''echo hi''" by (simp add: str_def)
  moreover have "\<forall>w\<in>set [str ''hi'']. w \<noteq> [] \<and> (\<forall>b\<in>set w. word_byte b)" by (simp add: str_def word_byte_def)
  ultimately show ?thesis
    using shell_output_displayed [OF t, of "[str ''hi'']" "[]" small_platform] prompt_line [of "desc_info vga"]
    by (auto simp: path_text_def slash)
qed

end
