(* ===== verification/Initial_Stack.thy ===== *)
theory Initial_Stack
  imports Process
begin

text \<open>
  The initial stack of a program: where \<open>build_stack\<close> puts the arguments, and that the program finds them
  there.
\<close>

definition holds_at :: "(nat \<Rightarrow> u8) \<Rightarrow> nat \<Rightarrow> bytes \<Rightarrow> bool" where
  "holds_at mem a bs \<longleftrightarrow> (\<forall>i < length bs. mem (a + i) = bs ! i)"

lemma holds_at_cong: "holds_at mem a bs \<Longrightarrow> (\<And>x. a \<le> x \<Longrightarrow> x < a + length bs \<Longrightarrow> mem' x = mem x) \<Longrightarrow> holds_at mem' a bs"
  by (simp add: holds_at_def)

lemma holds_at_append: "holds_at mem a (xs @ ys) \<longleftrightarrow> holds_at mem a xs \<and> holds_at mem (a + length xs) ys"
proof
  assume h: "holds_at mem a (xs @ ys)"
  then have "mem (a + length xs + i) = ys ! i" if "i < length ys" for i
    using that spec [OF h [unfolded holds_at_def], of "length xs + i"] by (simp add: add.assoc)
  moreover have "mem (a + i) = xs ! i" if "i < length xs" for i
    using that spec [OF h [unfolded holds_at_def], of i] by (simp add: nth_append)
  ultimately show "holds_at mem a xs \<and> holds_at mem (a + length xs) ys" by (simp add: holds_at_def)
next
  assume h: "holds_at mem a xs \<and> holds_at mem (a + length xs) ys"
  have "mem (a + i) = (xs @ ys) ! i" if "i < length (xs @ ys)" for i
  proof (cases "i < length xs")
    case False
    then have "mem (a + length xs + (i - length xs)) = ys ! (i - length xs)"
      using h that unfolding holds_at_def by (metis add_less_cancel_left le_add_diff_inverse length_append not_less)
    with False show ?thesis by (simp add: nth_append)
  qed (use h in \<open>simp add: holds_at_def nth_append\<close>)
  then show "holds_at mem a (xs @ ys)" by (simp add: holds_at_def)
qed

lemma poke_spec:
  assumes "poke X a bs k = (Ok u, k')"
  shows "k' = k\<lparr>k_mem := k_mem k'\<rparr>" and "holds_at (k_mem k') a bs"
    and "x < a \<or> a + length bs \<le> x \<Longrightarrow> k_mem k' x = k_mem k x"
  using assms by (auto simp: poke_def holds_at_def store_bytes_def split: if_splits)

text \<open>The strings lie between the old and the new stack pointer, each ended by a zero byte.\<close>

lemma push_strings_spec:
  assumes "push_strings X args sp ptrs k = (Ok (sp', ptrs'), k')"
  shows "\<exists>qs. ptrs' = rev qs @ ptrs \<and> length qs = length args \<and> sp' \<le> sp
    \<and> k' = k\<lparr>k_mem := k_mem k'\<rparr> \<and> (\<forall>x. x < sp' \<or> sp \<le> x \<longrightarrow> k_mem k' x = k_mem k x)
    \<and> (\<forall>i < length args. sp' \<le> qs ! i \<and> qs ! i + length (args ! i) < sp \<and> holds_at (k_mem k') (qs ! i) (args ! i @ [0]))"
  using assms
proof (induction args arbitrary: sp ptrs k)
  case Nil
  then show ?case by simp
next
  case (Cons arg args)
  let ?s = "sp - (length arg + 1)"
  from Cons.prems obtain k1 where s: "length arg + 1 \<le> sp" "poke X ?s (arg @ [0]) k = (Ok () :: (user_error, unit) res, k1)"
      "push_strings X args ?s (?s # ptrs) k1 = (Ok (sp', ptrs'), k')"
    by (auto simp: stack_sub_def bindR_eq_Ok split: if_splits)
  note p = poke_spec [OF s(2)]
  from Cons.IH [OF s(3)] obtain qs where q: "ptrs' = rev qs @ ?s # ptrs" "length qs = length args" "sp' \<le> ?s"
      "k' = k1\<lparr>k_mem := k_mem k'\<rparr>" "\<And>x. x < sp' \<or> ?s \<le> x \<Longrightarrow> k_mem k' x = k_mem k1 x"
      "\<And>i. i < length args \<Longrightarrow> sp' \<le> qs ! i \<and> qs ! i + length (args ! i) < ?s \<and> holds_at (k_mem k') (qs ! i) (args ! i @ [0])"
    by blast
  have "holds_at (k_mem k') ?s (arg @ [0])"
    by (rule holds_at_cong [OF p(2)]) (simp add: q(5))
  then have all: "sp' \<le> (?s # qs) ! i \<and> (?s # qs) ! i + length ((arg # args) ! i) < sp
      \<and> holds_at (k_mem k') ((?s # qs) ! i) ((arg # args) ! i @ [0])" if "i < length (arg # args)" for i
  proof (cases i)
    case 0
    with \<open>holds_at (k_mem k') ?s (arg @ [0])\<close> q(3) s(1) show ?thesis by simp
  next
    case (Suc j)
    with that have "qs ! j + length (args ! j) < ?s" "sp' \<le> qs ! j" "holds_at (k_mem k') (qs ! j) (args ! j @ [0])"
      using q(6) [of j] by auto
    with Suc show ?thesis by simp
  qed
  have "k' = k\<lparr>k_mem := k_mem k'\<rparr>"
    using arg_cong [OF p(1), of "\<lambda>k. k\<lparr>k_mem := k_mem k'\<rparr>"] q(4) by simp
  moreover have "k_mem k' x = k_mem k x" if "x < sp' \<or> sp \<le> x" for x
  proof -
    have "k_mem k' x = k_mem k1 x" using that by (intro q(5)) auto
    also have "\<dots> = k_mem k x" using that q(3) s(1) by (intro p(3)) auto
    finally show ?thesis .
  qed
  ultimately show ?case
    using q(1,2,3) all by (intro exI [of _ "?s # qs"]) auto
qed

lemma push_words_spec:
  assumes "push_words X ws sp k = (Ok sp', k')"
  shows "8 * length ws \<le> sp" and "sp' = sp - 8 * length ws" and "k' = k\<lparr>k_mem := k_mem k'\<rparr>"
    and "x < sp' \<or> sp \<le> x \<Longrightarrow> k_mem k' x = k_mem k x"
    and "i < length ws \<Longrightarrow> holds_at (k_mem k') (sp - 8 * (i + 1)) (le_bytes 8 (ws ! i))"
proof -
  have "8 * length ws \<le> sp \<and> sp' = sp - 8 * length ws \<and> k' = k\<lparr>k_mem := k_mem k'\<rparr>
    \<and> (\<forall>x. x < sp' \<or> sp \<le> x \<longrightarrow> k_mem k' x = k_mem k x)
    \<and> (\<forall>i < length ws. holds_at (k_mem k') (sp - 8 * (i + 1)) (le_bytes 8 (ws ! i)))"
    using assms
  proof (induction ws arbitrary: sp k)
    case Nil
    then show ?case by simp
  next
    case (Cons w ws)
    from Cons.prems obtain k1 where s: "8 \<le> sp" "poke X (sp - 8) (le_bytes 8 w) k = (Ok () :: (user_error, unit) res, k1)"
        "push_words X ws (sp - 8) k1 = (Ok sp', k')"
      by (auto simp: stack_sub_def bindR_eq_Ok split: if_splits)
    note p = poke_spec [OF s(2)]
    from Cons.IH [OF s(3)] have q: "8 * length ws \<le> sp - 8" "sp' = sp - 8 - 8 * length ws" "k' = k1\<lparr>k_mem := k_mem k'\<rparr>"
        "\<And>x. x < sp' \<or> sp - 8 \<le> x \<Longrightarrow> k_mem k' x = k_mem k1 x"
        "\<And>i. i < length ws \<Longrightarrow> holds_at (k_mem k') (sp - 8 - 8 * (i + 1)) (le_bytes 8 (ws ! i))"
      by blast+
    have first: "holds_at (k_mem k') (sp - 8) (le_bytes 8 w)"
      by (rule holds_at_cong [OF p(2)]) (simp add: q(4))
    have "holds_at (k_mem k') (sp - 8 * (i + 1)) (le_bytes 8 ((w # ws) ! i))" if "i < length (w # ws)" for i
    proof (cases i)
      case (Suc j)
      with q(5) [of j] that show ?thesis by (simp add: algebra_simps)
    qed (use first in simp)
    moreover have "k' = k\<lparr>k_mem := k_mem k'\<rparr>"
      using arg_cong [OF p(1), of "\<lambda>k. k\<lparr>k_mem := k_mem k'\<rparr>"] q(3) by simp
    moreover have "k_mem k' x = k_mem k x" if "x < sp' \<or> sp \<le> x" for x
    proof -
      have "k_mem k' x = k_mem k1 x" using that by (intro q(4)) auto
      also have "\<dots> = k_mem k x" using that q(1,2) s(1) by (intro p(3)) auto
      finally show ?thesis .
    qed
    ultimately show ?case using q(1,2) s(1) by auto
  qed
  then show "8 * length ws \<le> sp" and "sp' = sp - 8 * length ws" and "k' = k\<lparr>k_mem := k_mem k'\<rparr>"
    and "x < sp' \<or> sp \<le> x \<Longrightarrow> k_mem k' x = k_mem k x"
    and "i < length ws \<Longrightarrow> holds_at (k_mem k') (sp - 8 * (i + 1)) (le_bytes 8 (ws ! i))"
    by blast+
qed

lemma and_not64_15: "v < u64_limit \<Longrightarrow> v AND not64 0xf = v div 16 * 16"
  using and_not64_mask [of 4 v] by simp

text \<open>C20: The stack of a new program, from its stack pointer upwards, is the number of arguments, a pointer
  to each argument in order, and two null pointers; each pointer leads to the bytes of its argument
  and a zero byte, above the pointers. Nothing outside the stack is written. The stack pointer is a
  multiple of 16, which the ABI asks for, only when the number of arguments is odd.\<close>

theorem initial_stack_layout:
  assumes "build_stack X args k = (Ok sp, k')"
  shows "\<exists>ptrs. length ptrs = length args
    \<and> holds_at (k_mem k') sp (le_bytes 8 (length args))
    \<and> (\<forall>i < length args. holds_at (k_mem k') (sp + 8 * (i + 1)) (le_bytes 8 (ptrs ! i))
        \<and> holds_at (k_mem k') (ptrs ! i) (args ! i @ [0])
        \<and> sp + 8 * (length args + 3) \<le> ptrs ! i \<and> ptrs ! i + length (args ! i) < USER_STACK_TOP)
    \<and> holds_at (k_mem k') (sp + 8 * (length args + 1)) (le_bytes 8 0 @ le_bytes 8 0)
    \<and> (\<forall>x. x < sp \<or> USER_STACK_TOP \<le> x \<longrightarrow> k_mem k' x = k_mem k x)
    \<and> (16 dvd sp \<longleftrightarrow> odd (length args))"
proof -
  let ?n = "length args"
  from assms obtain sp1 ptrs k1 where a: "push_strings X (rev args) USER_STACK_TOP [] k = (Ok (sp1, ptrs), k1)"
    and b: "push_words X ([0, 0] @ rev ptrs @ [?n]) (sp1 AND not64 0xf) k1 = (Ok sp, k')"
    by (auto simp: build_stack_def simp del: push_words.simps append.simps)
  from push_strings_spec [OF a] obtain qs where q: "ptrs = rev qs" "length qs = ?n" "sp1 \<le> USER_STACK_TOP"
      "\<And>x. x < sp1 \<or> USER_STACK_TOP \<le> x \<Longrightarrow> k_mem k1 x = k_mem k x"
      "\<And>i. i < ?n \<Longrightarrow> sp1 \<le> qs ! i \<and> qs ! i + length (rev args ! i) < USER_STACK_TOP
          \<and> holds_at (k_mem k1) (qs ! i) (rev args ! i @ [0])"
    by auto
  let ?ws = "[0, 0] @ rev ptrs @ [?n]" and ?top = "sp1 div 16 * 16"
  have top: "sp1 AND not64 0xf = ?top" using q(3) by (intro and_not64_15) simp
  have le: "?top \<le> sp1" by simp
  note w = push_words_spec [OF b [unfolded top]]
  have len: "length ?ws = ?n + 3" using q by simp
  have sp: "?top = sp + 8 * (?n + 3)" using w(1,2) len by simp
  have word: "holds_at (k_mem k') (sp + 8 * (?n + 2 - i)) (le_bytes 8 (?ws ! i))" if "i < ?n + 3" for i
  proof -
    have "?top - 8 * (i + 1) = sp + 8 * (?n + 2 - i)" using sp that by simp
    with w(5) [of i] that len show ?thesis by simp
  qed
  have "holds_at (k_mem k') sp (le_bytes 8 ?n)"
    using word [of "?n + 2"] q(1,2) by (simp add: nth_append)
  moreover have "holds_at (k_mem k') (sp + 8 * (i + 1)) (le_bytes 8 (ptrs ! i))" if "i < ?n" for i
  proof -
    have "?n + 1 - i = Suc (Suc (?n - 1 - i))" using that by simp
    then have "?ws ! (?n + 1 - i) = rev ptrs ! (?n - 1 - i)" using that q(1,2) by (auto simp: nth_append)
    also have "\<dots> = ptrs ! i" using that q(1,2) by (simp add: rev_nth)
    finally show ?thesis using word [of "?n + 1 - i"] that by (simp add: Suc_diff_le)
  qed
  moreover have "sp + 8 * (?n + 3) \<le> ptrs ! i \<and> ptrs ! i + length (args ! i) < USER_STACK_TOP
      \<and> holds_at (k_mem k') (ptrs ! i) (args ! i @ [0])" if "i < ?n" for i
  proof -
    let ?j = "?n - 1 - i"
    have j: "ptrs ! i = qs ! ?j" "args ! i = rev args ! ?j" using that q(1,2) by (simp_all add: rev_nth)
    note qj = q(5) [of ?j]
    have "sp1 \<le> qs ! ?j" "qs ! ?j + length (rev args ! ?j) < USER_STACK_TOP"
      and h: "holds_at (k_mem k1) (qs ! ?j) (rev args ! ?j @ [0])" using qj that by auto
    moreover have "holds_at (k_mem k') (qs ! ?j) (rev args ! ?j @ [0])"
    proof (rule holds_at_cong [OF h])
      fix x assume "qs ! ?j \<le> x"
      then have "?top \<le> x" using le \<open>sp1 \<le> qs ! ?j\<close> by (meson le_trans)
      then show "k_mem k' x = k_mem k1 x" by (intro w(4) disjI2)
    qed
    ultimately show ?thesis using j le sp by auto
  qed
  moreover have "holds_at (k_mem k') (sp + 8 * (?n + 1)) (le_bytes 8 0 @ le_bytes 8 0)"
  proof -
    have "holds_at (k_mem k') (sp + 8 * (?n + 1)) (le_bytes 8 0)" "holds_at (k_mem k') (sp + 8 * (?n + 1) + 8) (le_bytes 8 0)"
      using word [of 1] word [of 0] by (simp_all add: algebra_simps)
    then show ?thesis by (simp add: holds_at_append)
  qed
  moreover have "k_mem k' x = k_mem k x" if "x < sp \<or> USER_STACK_TOP \<le> x" for x
  proof -
    have "x < sp \<or> ?top \<le> x" using that le q(3) by (meson le_trans)
    then have "k_mem k' x = k_mem k1 x" by (rule w(4))
    also have "\<dots> = k_mem k x" using that le sp by (intro q(4)) auto
    finally show ?thesis .
  qed
  moreover have "16 dvd sp \<longleftrightarrow> odd ?n"
  proof -
    have "16 dvd sp \<longleftrightarrow> 16 dvd 8 * (?n + 3)"
      using sp by (metis dvd_add_left_iff dvd_add_right_iff dvd_triv_right)
    then show ?thesis by presburger
  qed
  moreover have "length ptrs = ?n" using q(1,2) by simp
  ultimately show ?thesis by blast
qed

text \<open>A machine whose user memory is all mapped and writable.\<close>

definition flat_machine :: "(ram_disk, small_pager) machine" where
  "flat_machine = small_machine\<lparr>mc_pager := small_pager_ops\<lparr>pg_translate := (\<lambda>p m. Some p), pg_writable := (\<lambda>p m. True)\<rparr>\<rparr>"

lemma flat_can_store: "a < USER_MAX \<Longrightarrow> k_mapper k \<noteq> None \<Longrightarrow> can_store flat_machine k a"
  by (auto simp: can_store_def flat_machine_def small_machine_def user_page_def)

lemma flat_poke: "a + length bs \<le> USER_MAX \<Longrightarrow> k_mapper k \<noteq> None \<Longrightarrow>
    poke flat_machine a bs k = (Ok (), k\<lparr>k_mem := store_bytes a bs (k_mem k)\<rparr>)"
  using flat_can_store [of _ k] by (auto simp: poke_def list_all_iff)

theorem initial_stack_layout_witness:
  "\<exists>k' ptrs. build_stack flat_machine [[0x61]] small_kernel = (Ok 0x7FFFFFFDFFD0, k') \<and> length ptrs = 1
     \<and> holds_at (k_mem k') 0x7FFFFFFDFFD8 (le_bytes 8 (ptrs ! 0)) \<and> holds_at (k_mem k') (ptrs ! 0) [0x61, 0]"
proof -
  have m: "k_mapper small_kernel = Some (Map.empty, None)" by (simp add: small_kernel_def)
  obtain k' where b: "build_stack flat_machine [[0x61]] small_kernel = (Ok 0x7FFFFFFDFFD0, k')"
    by (simp add: build_stack_def bindR_def stack_sub_def flat_poke m and_not64_15)
  from initial_stack_layout [OF b] obtain ptrs where p: "length ptrs = length [[0x61 :: u8]]"
      "\<forall>i < length [[0x61 :: u8]]. holds_at (k_mem k') (0x7FFFFFFDFFD0 + 8 * (i + 1)) (le_bytes 8 (ptrs ! i))
        \<and> holds_at (k_mem k') (ptrs ! i) ([[0x61]] ! i @ [0])"
    by blast
  from spec [OF p(2), of 0] p(1) b show ?thesis by (intro exI [of _ k'] exI [of _ ptrs]) simp
qed

end
