(* ===== verification/Gdt.thy ===== *)
theory Gdt
  imports Text
begin

text \<open>
  The descriptor tables and the registers of \<^verbatim>\<open>SYSCALL\<close> (\<^verbatim>\<open>src/gdt.rs\<close>). The tables of the \<open>x86_64\<close> crate are
  arguments: the type \<open>'g\<close> of the global descriptor table with \<open>append\<close>, and the check that
  \<open>Star::write\<close> makes. The registers that \<open>init\<close> loads are part of the state. The ends of the static stacks
  are taken to be addresses, so that adding their sizes does not panic.
\<close>

unbundle bit_operations_syntax

section \<open>State\<close>

abbreviation (input) DOUBLE_FAULT_IST_INDEX :: nat where "DOUBLE_FAULT_IST_INDEX \<equiv> 0"
abbreviation (input) DOUBLE_FAULT_STACK_SIZE :: nat where "DOUBLE_FAULT_STACK_SIZE \<equiv> 4096 * 5"
abbreviation (input) USER_KERNEL_STACK_SIZE :: nat where "USER_KERNEL_STACK_SIZE \<equiv> 4096 * 8"

text \<open>The two tables of stacks of a \<open>TaskStateSegment\<close>.\<close>

record task_state =
  ts_privilege :: "nat list"
  ts_interrupt :: "nat list"

definition tss_new :: task_state where
  "tss_new = \<lparr>ts_privilege = replicate 3 0, ts_interrupt = replicate 7 0\<rparr>"

datatype descriptor = KernelCode | KernelData | UserCode32 | UserData | UserCode | TssSegment task_state

record selectors =
  kernel_code_selector :: nat
  kernel_data_selector :: nat
  user_compat_code_selector :: nat
  user_data_selector :: nat
  user_code_selector :: nat
  tss_selector :: nat

text \<open>The registers: the loaded table, CS, SS, the task register, the four selectors of STAR, EFER, LSTAR and
  SFMASK.\<close>

record 'g registers =
  rg_gdt :: "'g option"
  rg_cs :: nat
  rg_ss :: nat
  rg_task :: nat
  rg_star :: "(nat \<times> nat \<times> nat \<times> nat) option"
  rg_efer :: u64
  rg_lstar :: nat
  rg_sfmask :: u64

text \<open>The statics; a \<open>Once\<close> is \<open>None\<close> until it is called.\<close>

record 'g tables =
  tb_tss :: "task_state option"
  tb_gdt :: "('g \<times> selectors) option"
  tb_selectors :: "selectors option"
  tb_syscall_stack_top :: nat
  tb_cpu :: "'g registers"

type_synonym ('g, 'a) gp = "('g tables, unit, 'a) prog"

text \<open>\<open>append\<close> gives \<open>None\<close> where it panics. The last three are the addresses of the two static stacks and
  of the entry point of system calls.\<close>

record 'g gdt_ops =
  gd_new :: 'g
  gd_append :: "descriptor \<Rightarrow> 'g \<Rightarrow> (nat \<times> 'g) option"
  gd_star_ok :: "nat \<Rightarrow> nat \<Rightarrow> nat \<Rightarrow> nat \<Rightarrow> bool"
  gd_double_fault_stack :: nat
  gd_user_kernel_stack :: nat
  gd_syscall_entry :: nat

section \<open>Operations\<close>

definition selectors_get :: "('g, selectors) gp" where
  "selectors_get = (\<lambda>s. case tb_selectors s of Some v \<Rightarrow> (Ok v, s) | None \<Rightarrow> (Panic, s))"

definition tss_make :: "'g gdt_ops \<Rightarrow> task_state" where
  "tss_make G =
     (let t = tss_new\<lparr>ts_interrupt := (ts_interrupt tss_new)[DOUBLE_FAULT_IST_INDEX := gd_double_fault_stack G + DOUBLE_FAULT_STACK_SIZE]\<rparr>
      in t\<lparr>ts_privilege := (ts_privilege t)[0 := gd_user_kernel_stack G + USER_KERNEL_STACK_SIZE]\<rparr>)"

definition tss_once :: "'g gdt_ops \<Rightarrow> ('g, task_state) gp" where
  "tss_once G = (\<lambda>s.
     case tb_tss s of
       Some t \<Rightarrow> (Ok t, s)
     | None \<Rightarrow> (Ok (tss_make G), s\<lparr>tb_tss := Some (tss_make G),
                  tb_syscall_stack_top := gd_user_kernel_stack G + USER_KERNEL_STACK_SIZE\<rparr>))"

primrec append_all :: "'g gdt_ops \<Rightarrow> descriptor list \<Rightarrow> 'g \<Rightarrow> (nat list \<times> 'g) option" where
  "append_all G [] g = Some ([], g)"
| "append_all G (d # ds) g =
     Option.bind (gd_append G d g) (\<lambda>(s, g). Option.bind (append_all G ds g) (\<lambda>(ss, g). Some (s # ss, g)))"

definition gdt_make :: "'g gdt_ops \<Rightarrow> task_state \<Rightarrow> ('g \<times> selectors) option" where
  "gdt_make G t =
     Option.bind (append_all G [KernelCode, KernelData, UserCode32, UserData, UserCode, TssSegment t] (gd_new G)) (\<lambda>(ss, g).
     Some (g, \<lparr>kernel_code_selector = ss ! 0, kernel_data_selector = ss ! 1, user_compat_code_selector = ss ! 2,
               user_data_selector = ss ! 3, user_code_selector = ss ! 4, tss_selector = ss ! 5\<rparr>))"

definition gdt_once :: "'g gdt_ops \<Rightarrow> task_state \<Rightarrow> ('g, 'g \<times> selectors) gp" where
  "gdt_once G t = (\<lambda>s.
     case tb_gdt s of
       Some v \<Rightarrow> (Ok v, s)
     | None \<Rightarrow> (case gdt_make G t of None \<Rightarrow> (Panic, s) | Some v \<Rightarrow> (Ok v, s\<lparr>tb_gdt := Some v\<rparr>)))"

definition selectors_once :: "selectors \<Rightarrow> ('g, unit) gp" where
  "selectors_once v = modifyR (\<lambda>s. s\<lparr>tb_selectors := Some (case tb_selectors s of Some w \<Rightarrow> w | None \<Rightarrow> v)\<rparr>)"

definition on_cpu :: "('g registers \<Rightarrow> 'g registers) \<Rightarrow> ('g, unit) gp" where
  "on_cpu f = modifyR (\<lambda>s. s\<lparr>tb_cpu := f (tb_cpu s)\<rparr>)"

text \<open>\<open>Star::write\<close>, then \<open>expect\<close>.\<close>

definition star_write :: "'g gdt_ops \<Rightarrow> selectors \<Rightarrow> ('g, unit) gp" where
  "star_write G v =
     (if gd_star_ok G (user_code_selector v) (user_data_selector v) (kernel_code_selector v) (kernel_data_selector v)
      then on_cpu (\<lambda>c. c\<lparr>rg_star := Some (user_code_selector v, user_data_selector v, kernel_code_selector v, kernel_data_selector v)\<rparr>)
      else panicR)"

abbreviation (input) SYSTEM_CALL_EXTENSIONS :: u64 where "SYSTEM_CALL_EXTENSIONS \<equiv> 1"
abbreviation (input) INTERRUPT_FLAG :: u64 where "INTERRUPT_FLAG \<equiv> 0x200"
abbreviation (input) DIRECTION_FLAG :: u64 where "DIRECTION_FLAG \<equiv> 0x400"
abbreviation (input) TRAP_FLAG :: u64 where "TRAP_FLAG \<equiv> 0x100"

definition gdt_init :: "'g gdt_ops \<Rightarrow> ('g, unit) gp" where
  "gdt_init G =
     bindR (tss_once G) (\<lambda>tss.
     bindR (gdt_once G tss) (\<lambda>(gdt, v).
     bindR (selectors_once v) (\<lambda>_.
     bindR (on_cpu (\<lambda>c. c\<lparr>rg_gdt := Some gdt\<rparr>)) (\<lambda>_.
     bindR (on_cpu (\<lambda>c. c\<lparr>rg_cs := kernel_code_selector v, rg_ss := kernel_data_selector v, rg_task := tss_selector v\<rparr>)) (\<lambda>_.
     bindR (star_write G v) (\<lambda>_.
     bindR (on_cpu (\<lambda>c. c\<lparr>rg_efer := rg_efer c OR SYSTEM_CALL_EXTENSIONS\<rparr>)) (\<lambda>_.
     bindR (on_cpu (\<lambda>c. c\<lparr>rg_lstar := gd_syscall_entry G\<rparr>)) (\<lambda>_.
     on_cpu (\<lambda>c. c\<lparr>rg_sfmask := INTERRUPT_FLAG OR DIRECTION_FLAG OR TRAP_FLAG\<rparr>)))))))))"

section \<open>The layout\<close>

text \<open>What the crate documents: a table has eight entries, the first of them null; a descriptor takes one
  entry, that of a task state two; the selector has the index of the first entry and the privilege
  level of the descriptor. \<open>Star::write\<close> wants the user selectors with level 3 and the kernel selectors
  with level 0, each pair in its order.\<close>

fun slots :: "descriptor \<Rightarrow> nat" where
  "slots (TssSegment t) = 2" | "slots d = 1"

fun privilege :: "descriptor \<Rightarrow> nat" where
  "privilege UserCode32 = 3" | "privilege UserData = 3" | "privilege UserCode = 3" | "privilege d = 0"

definition gdt_laws :: "'g gdt_ops \<Rightarrow> ('g \<Rightarrow> nat) \<Rightarrow> bool" where
  "gdt_laws G used \<longleftrightarrow>
     used (gd_new G) = 1
     \<and> (\<forall>d g. used g + slots d \<le> 8 \<longrightarrow>
          (\<exists>g'. gd_append G d g = Some (8 * used g + privilege d, g') \<and> used g' = used g + slots d))
     \<and> (\<forall>cu su ck sk. cu = su + 8 \<and> sk = ck + 8 \<and> 8 \<le> su \<and> su mod 4 = 3 \<and> ck mod 4 = 0 \<longrightarrow> gd_star_ok G cu su ck sk)"

lemma append_all_selectors:
  assumes "gdt_laws G used" and "used g + sum_list (map slots ds) \<le> 8"
  shows "\<exists>g'. append_all G ds g
    = Some (map (\<lambda>i. 8 * (used g + sum_list (map slots (take i ds))) + privilege (ds ! i)) [0..<length ds], g')"
  using assms(2)
proof (induction ds arbitrary: g)
  case (Cons d ds)
  obtain g1 where g1: "gd_append G d g = Some (8 * used g + privilege d, g1)" "used g1 = used g + slots d"
    using assms(1) Cons.prems unfolding gdt_laws_def by (metis add_leD1 add.assoc list.simps(9) sum_list.Cons)
  have up: "[0..<Suc (length ds)] = 0 # map Suc [0..<length ds]" by (simp add: map_Suc_upt upt_conv_Cons del: upt_Suc)
  from Cons.IH [of g1] Cons.prems g1(2) obtain g2 where
    "append_all G ds g1
     = Some (map (\<lambda>i. 8 * (used g1 + sum_list (map slots (take i ds))) + privilege (ds ! i)) [0..<length ds], g2)"
    by auto
  then show ?case using g1 unfolding list.size(4) One_nat_def add_Suc_right add_0_right up
    by (auto simp: comp_def add.assoc)
qed simp

definition kernel_selectors :: selectors where
  "kernel_selectors = \<lparr>kernel_code_selector = 0x08, kernel_data_selector = 0x10, user_compat_code_selector = 0x1B,
     user_data_selector = 0x23, user_code_selector = 0x2B, tss_selector = 0x30\<rparr>"

lemma gdt_make_selectors:
  assumes "gdt_laws G used"
  shows "\<exists>g. gdt_make G t = Some (g, kernel_selectors)"
proof -
  let ?ds = "[KernelCode, KernelData, UserCode32, UserData, UserCode, TssSegment t]"
  have new: "used (gd_new G) = 1" using assms by (simp add: gdt_laws_def)
  have "\<exists>g. append_all G ?ds (gd_new G) = Some ([0x08, 0x10, 0x1B, 0x23, 0x2B, 0x30], g)"
    using append_all_selectors [OF assms, of "gd_new G" ?ds] new by (simp add: upt_rec)
  then show ?thesis by (auto simp: gdt_make_def kernel_selectors_def simp del: append_all.simps)
qed

lemma star_ok_selectors: "gdt_laws G used \<Longrightarrow> gd_star_ok G 0x2B 0x23 0x08 0x10"
  unfolding gdt_laws_def by (elim conjE allE [where x = "0x2B"] allE [where x = "0x23"] allE [where x = "0x08"] allE [where x = "0x10"]) simp

lemma gdt_pieces:
  assumes "gdt_laws G used"
  obtains g where "gdt_make G (tss_make G) = Some (g, kernel_selectors)"
    and "star_write G kernel_selectors = on_cpu (\<lambda>c. c\<lparr>rg_star := Some (0x2B, 0x23, 0x08, 0x10)\<rparr>)"
  using gdt_make_selectors [OF assms, of "tss_make G"] star_ok_selectors [OF assms] that
  by (auto simp: star_write_def kernel_selectors_def)

lemma gdt_init_returns:
  assumes "gdt_laws G used" and "tb_tss s = None" and "tb_gdt s = None"
  shows "fst (gdt_init G s) = Ok ()"
proof -
  obtain g where "gdt_make G (tss_make G) = Some (g, kernel_selectors)"
    "star_write G kernel_selectors = on_cpu (\<lambda>c. c\<lparr>rg_star := Some (0x2B, 0x23, 0x08, 0x10)\<rparr>)" by (rule gdt_pieces [OF assms(1)])
  then show ?thesis
    using assms(2,3) by (simp add: gdt_init_def bindR_def tss_once_def gdt_once_def selectors_once_def on_cpu_def)
qed

text \<open>A table that is the list of its entries.\<close>

definition list_gdt :: "descriptor option list gdt_ops" where
  "list_gdt = \<lparr>gd_new = [None],
     gd_append = (\<lambda>d g. if length g + slots d \<le> 8
       then Some (8 * length g + privilege d, g @ Some d # replicate (slots d - 1) None) else None),
     gd_star_ok = (\<lambda>cu su ck sk. cu = su + 8 \<and> sk = ck + 8 \<and> 8 \<le> su \<and> su mod 4 = 3 \<and> ck mod 4 = 0),
     gd_double_fault_stack = 0xFFFFFFFF80100000, gd_user_kernel_stack = 0xFFFFFFFF80110000, gd_syscall_entry = 0xFFFFFFFF80001000\<rparr>"

lemma list_gdt_laws: "gdt_laws list_gdt length"
proof -
  have "1 \<le> slots d" for d by (cases d) simp_all
  then have "Suc (length g + (slots d - Suc 0)) = length g + slots d" for d and g :: "descriptor option list"
    by (metis One_nat_def Suc_pred add_Suc_right less_eq_Suc_le)
  then show ?thesis by (auto simp: gdt_laws_def list_gdt_def)
qed

definition tables_start :: "'g tables" where
  "tables_start = \<lparr>tb_tss = None, tb_gdt = None, tb_selectors = None, tb_syscall_stack_top = 0,
     tb_cpu = \<lparr>rg_gdt = None, rg_cs = 0, rg_ss = 0, rg_task = 0, rg_star = None, rg_efer = 0xD00, rg_lstar = 0, rg_sfmask = 0\<rparr>\<rparr>"



end
