(* ===== verification/Interrupts.thy ===== *)
theory Interrupts
  imports Shell Gdt
begin

text \<open>
  Exceptions and hardware interrupts (\<^verbatim>\<open>src/int.rs\<close>, \<^verbatim>\<open>src/pic.rs\<close>). The handlers of exceptions report to the
  serial port and stop; the keyboard handler feeds the console, and through it the shell. The key
  decoder of the \<open>pc_keyboard\<close> crate and the interrupt controllers of the \<open>pic8259\<close> crate are arguments.
\<close>

section \<open>State\<close>

datatype key_code = LControl | RControl | ArrowUp | ArrowDown | OtherKey nat
datatype key_state = Up | Down | SingleShot
datatype decoded_key = Unicode nat | RawKey key_code

record key_event =
  ke_code :: key_code
  ke_state :: key_state

text \<open>\<open>add_byte\<close>, with \<open>None\<close> also for its errors, \<open>process_keyevent\<close>, \<open>notify_end_of_interrupt\<close>, the two
  calls of \<open>pic::init\<close>, and loading the interrupt table.\<close>

record ('h, 'k) devices =
  dv_add_byte :: "u8 \<Rightarrow> 'k \<Rightarrow> key_event option \<times> 'k"
  dv_process :: "key_event \<Rightarrow> 'k \<Rightarrow> decoded_key option \<times> 'k"
  dv_eoi :: "nat \<Rightarrow> 'h \<Rightarrow> 'h"
  dv_pic_initialize :: "'h \<Rightarrow> 'h"
  dv_pic_masks :: "u8 \<Rightarrow> u8 \<Rightarrow> 'h \<Rightarrow> 'h"
  dv_load_idt :: "'h \<Rightarrow> 'h"

text \<open>The system with the descriptor tables, the state of the CTRL keys, the key decoder and the flag
  \<open>KINIT_CALLED\<close>.\<close>

record ('d, 'm, 'h, 'k, 'g) whole =
  wh_sys :: "('d, 'm, 'h) system"
  wh_tables :: "'g tables"
  wh_ctrl :: u8
  wh_kbd :: 'k
  wh_kinit :: bool

type_synonym ('d, 'm, 'h, 'k, 'g, 'a) wp = "(('d, 'm, 'h, 'k, 'g) whole, unit, 'a) prog"

definition on_sys :: "('d, 'm, 'h, 'a) sp \<Rightarrow> ('d, 'm, 'h, 'k, 'g, 'a) wp" where
  "on_sys m = (\<lambda>w. case m (wh_sys w) of (r, s) \<Rightarrow> (r, w\<lparr>wh_sys := s\<rparr>))"

definition on_hw :: "('h \<Rightarrow> 'h) \<Rightarrow> ('d, 'm, 'h, 'k, 'g, unit) wp" where
  "on_hw f = on_sys (on_acpi (modifyR (\<lambda>a. a\<lparr>ac_hw := f (ac_hw a)\<rparr>)))"

definition on_kbd :: "('k \<Rightarrow> 'a \<times> 'k) \<Rightarrow> ('d, 'm, 'h, 'k, 'g, 'a) wp" where
  "on_kbd f = (\<lambda>w. case f (wh_kbd w) of (x, k) \<Rightarrow> (Ok x, w\<lparr>wh_kbd := k\<rparr>))"

definition on_tables :: "('g, 'a) gp \<Rightarrow> ('d, 'm, 'h, 'k, 'g, 'a) wp" where
  "on_tables m = (\<lambda>w. case m (wh_tables w) of (r, s) \<Rightarrow> (r, w\<lparr>wh_tables := s\<rparr>))"

definition read_port :: "('d, 'm, 'h) platform \<Rightarrow> nat \<Rightarrow> ('d, 'm, 'h, 'k, 'g, u8) wp" where
  "read_port E p = on_sys (on_acpi (\<lambda>a. case pt_inb (pf_ports E) p (ac_hw a) of (v, h) \<Rightarrow> (Ok v, a\<lparr>ac_hw := h\<rparr>)))"

section \<open>Exceptions\<close>

definition panic_loop :: "('d, 'm, 'h, 'k, 'g, unit) wp" where
  "panic_loop = bindR (on_sys (on_acpi disable_interrupts)) (\<lambda>_ w. (Hang, w))"

primrec serial_lines :: "bytes list \<Rightarrow> ('d, 'm, 'h, 'k, 'g, unit) wp" where
  "serial_lines [] = returnR ()"
| "serial_lines (l # ls) = bindR (on_sys (on_acpi (serial_println l))) (\<lambda>_. serial_lines ls)"

definition halt_with :: "bytes list \<Rightarrow> ('d, 'm, 'h, 'k, 'g, unit) wp" where
  "halt_with ls = bindR (serial_lines ls) (\<lambda>_. panic_loop)"

text \<open>What a handler is given: the text of the stack frame, the error code, and for page faults the
  texts of CR2, of the error bits and of the privilege level.\<close>

record trap =
  tr_frame :: bytes
  tr_code :: nat
  tr_address :: bytes
  tr_bits :: bytes
  tr_cpl :: bytes
  tr_user :: bool

definition coded :: "string \<Rightarrow> trap \<Rightarrow> bytes list" where
  "coded name x = [[], str name, str ''error code: '' @ show_hex (tr_code x), tr_frame x]"

definition plain :: "string \<Rightarrow> trap \<Rightarrow> bytes list" where
  "plain name x = [str name, tr_frame x]"

definition double_fault_handler :: "trap \<Rightarrow> ('d, 'm, 'h, 'k, 'g, unit) wp" where
  "double_fault_handler x = halt_with (coded ''EXCEPTION: DOUBLE FAULT'' x)"

definition general_protection_fault_handler :: "trap \<Rightarrow> ('d, 'm, 'h, 'k, 'g, unit) wp" where
  "general_protection_fault_handler x = halt_with (coded ''EXCEPTION: GENERAL PROTECTION FAULT'' x)"

definition invalid_opcode_handler :: "trap \<Rightarrow> ('d, 'm, 'h, 'k, 'g, unit) wp" where
  "invalid_opcode_handler x = halt_with ([] # plain ''EXCEPTION: INVALID OPCODE'' x)"

definition page_fault_handler :: "trap \<Rightarrow> ('d, 'm, 'h, 'k, 'g, unit) wp" where
  "page_fault_handler x = halt_with
     [[], str ''EXCEPTION: PAGE FAULT'', str ''accessed address: '' @ tr_address x, str ''error code: '' @ tr_bits x,
      str ''CPL: '' @ tr_cpl x, str ''from user: '' @ show_bool (tr_user x), tr_frame x]"

definition divide_error_handler :: "trap \<Rightarrow> ('d, 'm, 'h, 'k, 'g, unit) wp" where
  "divide_error_handler x = halt_with ([] # plain ''EXCEPTION: DIVIDE ERROR'' x)"

definition invalid_tss_handler :: "trap \<Rightarrow> ('d, 'm, 'h, 'k, 'g, unit) wp" where
  "invalid_tss_handler x = halt_with (coded ''EXCEPTION: INVALID TSS'' x)"

definition segment_not_present_handler :: "trap \<Rightarrow> ('d, 'm, 'h, 'k, 'g, unit) wp" where
  "segment_not_present_handler x = halt_with (coded ''EXCEPTION: SEGMENT NOT PRESENT'' x)"

definition stack_segment_fault_handler :: "trap \<Rightarrow> ('d, 'm, 'h, 'k, 'g, unit) wp" where
  "stack_segment_fault_handler x = halt_with (coded ''EXCEPTION: STACK SEGMENT FAULT'' x)"

definition alignment_check_handler :: "trap \<Rightarrow> ('d, 'm, 'h, 'k, 'g, unit) wp" where
  "alignment_check_handler x = halt_with (coded ''EXCEPTION: ALIGNMENT CHECK'' x)"

definition x87_floating_point_handler :: "trap \<Rightarrow> ('d, 'm, 'h, 'k, 'g, unit) wp" where
  "x87_floating_point_handler x = halt_with (plain ''EXCEPTION: x87 FLOATING POINT'' x)"

definition simd_floating_point_handler :: "trap \<Rightarrow> ('d, 'm, 'h, 'k, 'g, unit) wp" where
  "simd_floating_point_handler x = halt_with (plain ''EXCEPTION: SIMD FLOATING POINT'' x)"

definition virtualization_handler :: "trap \<Rightarrow> ('d, 'm, 'h, 'k, 'g, unit) wp" where
  "virtualization_handler x = halt_with (plain ''EXCEPTION: VIRTUALIZATION'' x)"

definition device_not_available_handler :: "trap \<Rightarrow> ('d, 'm, 'h, 'k, 'g, unit) wp" where
  "device_not_available_handler x = halt_with (plain ''EXCEPTION: DEVICE NOT AVAILABLE'' x)"

definition debug_handler :: "trap \<Rightarrow> ('d, 'm, 'h, 'k, 'g, unit) wp" where
  "debug_handler x = serial_lines (plain ''EXCEPTION: DEBUG'' x)"

definition overflow_handler :: "trap \<Rightarrow> ('d, 'm, 'h, 'k, 'g, unit) wp" where
  "overflow_handler x = halt_with (plain ''EXCEPTION: OVERFLOW'' x)"

definition bound_range_exceeded_handler :: "trap \<Rightarrow> ('d, 'm, 'h, 'k, 'g, unit) wp" where
  "bound_range_exceeded_handler x = halt_with (plain ''EXCEPTION: BOUND RANGE EXCEEDED'' x)"

definition non_maskable_interrupt_handler :: "trap \<Rightarrow> ('d, 'm, 'h, 'k, 'g, unit) wp" where
  "non_maskable_interrupt_handler x = halt_with (plain ''EXCEPTION: NON-MASKABLE INTERRUPT'' x)"

definition machine_check_handler :: "trap \<Rightarrow> ('d, 'm, 'h, 'k, 'g, unit) wp" where
  "machine_check_handler x = halt_with (plain ''EXCEPTION: MACHINE CHECK'' x)"

section \<open>Hardware interrupts\<close>

abbreviation TIMER :: nat where "TIMER \<equiv> 32"
abbreviation KEYBOARD :: nat where "KEYBOARD \<equiv> 33"
abbreviation (input) SCROLL_LINES :: nat where "SCROLL_LINES \<equiv> 3"
abbreviation (input) CTRL_LEFT :: u8 where "CTRL_LEFT \<equiv> 1"
abbreviation (input) CTRL_RIGHT :: u8 where "CTRL_RIGHT \<equiv> 2"

definition pic_init :: "('h, 'k) devices \<Rightarrow> ('d, 'm, 'h, 'k, 'g, unit) wp" where
  "pic_init V = bindR (on_hw (dv_pic_initialize V)) (\<lambda>_. on_hw (dv_pic_masks V 0xFC 0xFF))"

definition end_of_interrupt :: "('h, 'k) devices \<Rightarrow> nat \<Rightarrow> ('d, 'm, 'h, 'k, 'g, unit) wp" where
  "end_of_interrupt V n = on_hw (dv_eoi V n)"

definition timer_interrupt_handler :: "('h, 'k) devices \<Rightarrow> ('d, 'm, 'h, 'k, 'g, unit) wp" where
  "timer_interrupt_handler V = end_of_interrupt V TIMER"

definition ctrl_held :: "u8 \<Rightarrow> bool" where
  "ctrl_held c = (c \<noteq> 0)"

definition set_ctrl :: "u8 \<Rightarrow> u8 \<Rightarrow> u8" where
  "set_ctrl m c = c OR m"

definition clear_ctrl :: "u8 \<Rightarrow> u8 \<Rightarrow> u8" where
  "clear_ctrl m c = c AND NOT m"

definition track_ctrl :: "key_event \<Rightarrow> u8 \<Rightarrow> u8" where
  "track_ctrl e c =
     (case ke_code e of
        LControl \<Rightarrow> (case ke_state e of Down \<Rightarrow> set_ctrl CTRL_LEFT c | SingleShot \<Rightarrow> set_ctrl CTRL_LEFT c | Up \<Rightarrow> clear_ctrl CTRL_LEFT c)
      | RControl \<Rightarrow> (case ke_state e of Down \<Rightarrow> set_ctrl CTRL_RIGHT c | SingleShot \<Rightarrow> set_ctrl CTRL_RIGHT c | Up \<Rightarrow> clear_ctrl CTRL_RIGHT c)
      | _ \<Rightarrow> c)"

text \<open>\<open>console::receive_key\<close> (\<^verbatim>\<open>src/console.rs\<close>) with the shell it calls.\<close>

definition receive_key :: "('d, 'm, 'h) platform \<Rightarrow> nat \<Rightarrow> ('d, 'm, 'h, unit) sp" where
  "receive_key E key =
     (if key = 0x0A \<or> key = 0x0D then
        bindR (on_term (with_console (bindR (con_receive_key key) (\<lambda>_. con_read_line INPUT_SIZE)))) (\<lambda>line.
        bindR (case line of
                 Some command \<Rightarrow>
                   bindR (if utf8_valid command then execute E command else returnR ()) (\<lambda>_.
                   on_term (with_console prompt))
               | None \<Rightarrow> returnR ()) (\<lambda>_.
        on_term (on_fb present)))
      else
        bindR (on_term (with_console (con_receive_key key))) (\<lambda>_. on_term (on_fb present)))"

definition handle_key :: "('d, 'm, 'h) platform \<Rightarrow> bool \<Rightarrow> decoded_key \<Rightarrow> ('d, 'm, 'h, unit) sp" where
  "handle_key E ctrl key =
     (case key of
        Unicode c \<Rightarrow>
          bindR (receive_key E c) (\<lambda>_.
          if c = 0x6C \<and> ctrl then bindR (on_term console_clear) (\<lambda>_. print (str ''$ '')) else returnR ())
      | RawKey kc \<Rightarrow>
          (case kc of
             ArrowUp \<Rightarrow> if ctrl then on_term (console_scroll_up SCROLL_LINES) else returnR ()
           | ArrowDown \<Rightarrow> if ctrl then on_term (console_scroll_down SCROLL_LINES) else returnR ()
           | _ \<Rightarrow> returnR ()))"

definition keyboard_interrupt_handler :: "('d, 'm, 'h) platform \<Rightarrow> ('h, 'k) devices \<Rightarrow> ('d, 'm, 'h, 'k, 'g, unit) wp" where
  "keyboard_interrupt_handler E V =
     bindR (read_port E 0x60) (\<lambda>scancode.
     bindR (on_kbd (dv_add_byte V scancode)) (\<lambda>event.
     bindR (case event of
              None \<Rightarrow> returnR ()
            | Some e \<Rightarrow>
                bindR (modifyR (\<lambda>w. w\<lparr>wh_ctrl := track_ctrl e (wh_ctrl w)\<rparr>)) (\<lambda>_.
                bindR (on_kbd (dv_process V e)) (\<lambda>decoded.
                case decoded of
                  None \<Rightarrow> returnR ()
                | Some key \<Rightarrow>
                    bindR (getsR (\<lambda>w. ctrl_held (wh_ctrl w))) (\<lambda>ctrl.
                    on_sys (handle_key E ctrl key))))) (\<lambda>_.
     end_of_interrupt V KEYBOARD)))"

text \<open>The interrupt table that \<open>init\<close> sets up: the handler of a vector.\<close>

definition idt :: "('d, 'm, 'h) platform \<Rightarrow> ('h, 'k) devices \<Rightarrow> trap \<Rightarrow> nat \<Rightarrow> ('d, 'm, 'h, 'k, 'g, unit) wp option" where
  "idt E V x = map_of
     [(0, divide_error_handler x), (1, debug_handler x), (2, non_maskable_interrupt_handler x), (3, on_sys (breakpoint_handler E)),
      (4, overflow_handler x), (5, bound_range_exceeded_handler x), (6, invalid_opcode_handler x),
      (7, device_not_available_handler x), (8, double_fault_handler x), (10, invalid_tss_handler x),
      (11, segment_not_present_handler x), (12, stack_segment_fault_handler x), (13, general_protection_fault_handler x),
      (14, page_fault_handler x), (16, x87_floating_point_handler x), (17, alignment_check_handler x),
      (18, machine_check_handler x), (19, simd_floating_point_handler x), (20, virtualization_handler x),
      (TIMER, timer_interrupt_handler V), (KEYBOARD, keyboard_interrupt_handler E V)]"

definition int_init :: "('h, 'k) devices \<Rightarrow> ('d, 'm, 'h, 'k, 'g, unit) wp" where
  "int_init V = on_hw (dv_load_idt V)"

end
