(* ===== verification/Interrupts_Ops.thy ===== *)
theory Interrupts_Ops
  imports Interrupts Shell_Ops
begin

text \<open>
  What interrupts change. Handlers of exceptions report and stop, keys reach the console and the
  shell, and no sequence of interrupts loses track of the frames of memory.
\<close>

section \<open>Exceptions\<close>

text \<open>The state after lines were sent to the serial port, and with interrupts disabled.\<close>

definition reported :: "bytes list \<Rightarrow> ('d, 'm, 'h, 'k, 'g) whole \<Rightarrow> ('d, 'm, 'h, 'k, 'g) whole" where
  "reported ls w = w\<lparr>wh_sys := wh_sys w\<lparr>sy_acpi := sy_acpi (wh_sys w)
     \<lparr>ac_serial := ac_serial (sy_acpi (wh_sys w)) @ concat (map (\<lambda>l. l @ [0x0A]) ls)\<rparr>\<rparr>\<rparr>"

definition silenced :: "('d, 'm, 'h, 'k, 'g) whole \<Rightarrow> ('d, 'm, 'h, 'k, 'g) whole" where
  "silenced w = w\<lparr>wh_sys := wh_sys w\<lparr>sy_acpi := sy_acpi (wh_sys w)\<lparr>ac_interrupts := False\<rparr>\<rparr>\<rparr>"

lemma serial_lines_run: "serial_lines ls w = (Ok (), reported ls w)"
  by (induction ls arbitrary: w) (simp_all add: bindR_def on_sys_def on_acpi_def serial_println_def reported_def)

lemma halt_with_run: "halt_with ls w = (Hang, silenced (reported ls w))"
  by (simp add: halt_with_def bindR_def serial_lines_run panic_loop_def on_sys_def on_acpi_def disable_interrupts_def silenced_def)

lemmas exception_defs = double_fault_handler_def general_protection_fault_handler_def invalid_opcode_handler_def
  page_fault_handler_def divide_error_handler_def invalid_tss_handler_def segment_not_present_handler_def
  stack_segment_fault_handler_def alignment_check_handler_def x87_floating_point_handler_def simd_floating_point_handler_def
  virtualization_handler_def device_not_available_handler_def overflow_handler_def bound_range_exceeded_handler_def
  non_maskable_interrupt_handler_def machine_check_handler_def

text \<open>The vectors that \<open>init\<close> leaves without a handler are the ones that the processor reserves.\<close>

lemma idt_domain: "dom (idt E V x) = {0..8} \<union> {10..14} \<union> {16..20} \<union> {32, 33}"
  by (auto simp: idt_def split: if_splits)

lemma stop_handler:
  assumes "idt E V x n = Some h" and "n < 32" and "n \<noteq> 1" and "n \<noteq> 3"
  shows "\<exists>ls. h = halt_with (ls @ [tr_frame x]) \<and> (\<exists>l\<in>set ls. take 9 l = str ''EXCEPTION'')"
proof -
  have ex: "take 9 (str (''EXCEPTION'' @ s)) = str ''EXCEPTION''" for s by (simp add: str_def)
  have c: "\<exists>ls. halt_with (coded (''EXCEPTION'' @ s) x) = halt_with (ls @ [tr_frame x]) \<and> (\<exists>l\<in>set ls. take 9 l = str ''EXCEPTION'')" for s
    by (rule exI [of _ "butlast (coded (''EXCEPTION'' @ s) x)"]) (simp add: coded_def str_def)
  have p: "\<exists>ls. halt_with (a @ plain (''EXCEPTION'' @ s) x) = halt_with (ls @ [tr_frame x]) \<and> (\<exists>l\<in>set ls. take 9 l = str ''EXCEPTION'')" for a s
    by (rule exI [of _ "a @ butlast (plain (''EXCEPTION'' @ s) x)"]) (simp add: plain_def str_def)
  have pf: "\<exists>ls. page_fault_handler x = halt_with (ls @ [tr_frame x]) \<and> (\<exists>l\<in>set ls. take 9 l = str ''EXCEPTION'')"
    by (rule exI [of _ "[[], str ''EXCEPTION: PAGE FAULT'', str ''accessed address: '' @ tr_address x, str ''error code: '' @ tr_bits x,
          str ''CPL: '' @ tr_cpl x, str ''from user: '' @ show_bool (tr_user x)]"]) (simp add: page_fault_handler_def str_def)
  show ?thesis
    using assms unfolding idt_def
    by (auto simp: exception_defs(1-3,5-) pf c [simplified append_Cons append_Nil] p [of "[]", simplified append_Cons append_Nil]
        p [of "[[]]", simplified append_Cons append_Nil] split: if_splits)
qed

section \<open>What interrupts keep\<close>

text \<open>A relation that every command of the shell respects.\<close>

locale system_frame = shell_frame +
  assumes R_execute: "steps R (execute E line)"
begin

lemma steps_receive: "steps R (receive_key E key)"
  unfolding receive_key_def by (intro steps_rules R_execute)

lemma steps_key: "steps R (handle_key E ctrl key)"
  unfolding handle_key_def by (auto split: decoded_key.split key_code.split intro!: steps_rules steps_receive)

lemma steps_on_sys:
  assumes "steps R m"
  shows "steps (\<lambda>w w'. R (wh_sys w) (wh_sys w')) (on_sys m)"
  using assms by (auto simp: steps_def on_sys_def split: prod.splits)

lemma steps_whole_bind:
  assumes "steps (\<lambda>w w'. R (wh_sys w) (wh_sys w')) m" and "\<And>x. steps (\<lambda>w w'. R (wh_sys w) (wh_sys w')) (f x)"
  shows "steps (\<lambda>w w'. R (wh_sys w) (wh_sys w')) (bindR m f)"
  using assms unfolding steps_def bindR_eq_Ok by (meson R_trans)

lemma steps_whole:
  "steps (\<lambda>w w'. R (wh_sys w) (wh_sys w')) (returnR ())" "steps (\<lambda>w w'. R (wh_sys w) (wh_sys w')) (getsR g)"
  "steps (\<lambda>w w'. R (wh_sys w) (wh_sys w')) (modifyR (\<lambda>w. w\<lparr>wh_ctrl := c w\<rparr>))"
  "steps (\<lambda>w w'. R (wh_sys w) (wh_sys w')) (on_kbd p)"
  "steps (\<lambda>w w'. R (wh_sys w) (wh_sys w')) (end_of_interrupt V n)"
  "steps (\<lambda>w w'. R (wh_sys w) (wh_sys w')) (read_port E port)"
  "steps (\<lambda>w w'. R (wh_sys w) (wh_sys w')) (serial_lines ls)"
proof -
  show "steps (\<lambda>w w'. R (wh_sys w) (wh_sys w')) (serial_lines ls)"
  proof (induction ls)
    case (Cons l ls)
    then show ?case by (simp add: steps_whole_bind steps_on_sys steps_acpi)
  qed (simp add: steps_def R_refl)
  show "steps (\<lambda>w w'. R (wh_sys w) (wh_sys w')) (end_of_interrupt V n)"
    unfolding end_of_interrupt_def on_hw_def by (intro steps_on_sys steps_acpi)
  show "steps (\<lambda>w w'. R (wh_sys w) (wh_sys w')) (read_port E port)"
    unfolding read_port_def by (intro steps_on_sys steps_acpi)
qed (auto simp: steps_def R_refl on_kbd_def split: prod.splits)

lemma steps_interrupt:
  assumes "idt E V x n = Some h"
  shows "steps (\<lambda>w w'. R (wh_sys w) (wh_sys w')) h"
proof -
  consider "n < 32" "n \<noteq> 1" "n \<noteq> 3" | "n = 1" | "n = 3" | "n = 32" | "n = 33"
    using domI [of "idt E V x" n h, OF assms] unfolding idt_domain by force
  then show ?thesis
  proof cases
    case 1
    then show ?thesis using stop_handler [OF assms] by (auto simp: steps_def halt_with_run)
  next
    case 5
    then show ?thesis using assms unfolding idt_def
      by (auto simp: keyboard_interrupt_handler_def intro!: steps_whole_bind steps_whole steps_on_sys steps_key split: option.split)
  qed (use assms in \<open>auto simp: idt_def debug_handler_def timer_interrupt_handler_def intro!: steps_whole steps_on_sys steps_commands\<close>)
qed

end

definition keeps_home :: "('d, 'm, 'h) system \<Rightarrow> ('d, 'm, 'h) system \<Rightarrow> bool" where
  "keeps_home s s' \<longleftrightarrow> (\<forall>cs. denotes (sy_cwd s) cs \<longrightarrow> (\<exists>cs'. denotes (sy_cwd s') cs'))"

interpretation held: system_frame E "keeps_frames E tb" for E :: "('d, 'm, 'h) platform" and tb
  by unfold_locales (simp add: steps_def execute_frames)

interpretation home: system_frame E keeps_home for E :: "('d, 'm, 'h) platform"
proof unfold_locales
  show "steps keeps_home (execute E line)" for line
    by (auto simp: steps_def keeps_home_def intro: execute_cwd)
qed (auto simp: keeps_home_def)

text \<open>Any interrupts and exceptions, one after the other, as long as their handlers return.\<close>

inductive interrupted ::
  "('d, 'm, 'h) platform \<Rightarrow> ('h, 'k) devices \<Rightarrow> ('d, 'm, 'h, 'k, 'g) whole \<Rightarrow> ('d, 'm, 'h, 'k, 'g) whole \<Rightarrow> bool"
  for E V w where
  quiet: "interrupted E V w w"
| interrupt: "interrupted E V w u \<Longrightarrow> idt E V x n = Some h \<Longrightarrow> h u = (Ok (), v) \<Longrightarrow> interrupted E V w v"

lemma interrupted_keeps:
  assumes "interrupted E V w v"
  shows "keeps_frames E tb (wh_sys w) (wh_sys v) \<and> keeps_home (wh_sys w) (wh_sys v)"
  using assms
proof (induction rule: interrupted.induct)
  case (interrupt u x n h v)
  from held.steps_interrupt [OF interrupt.hyps(2), of tb] home.steps_interrupt [OF interrupt.hyps(2)] interrupt.hyps(3)
  have "keeps_frames E tb (wh_sys u) (wh_sys v)" "keeps_home (wh_sys u) (wh_sys v)" by (auto simp: steps_def)
  with interrupt.IH show ?case using frames.R_trans home.R_trans by blast
qed (simp add: frames.R_refl home.R_refl)

section \<open>The CTRL keys\<close>

text \<open>The specification: the set of CTRL keys that are down.\<close>

fun pressed :: "key_event \<Rightarrow> key_code set \<Rightarrow> key_code set" where
  "pressed e K =
     (if ke_code e \<in> {LControl, RControl}
      then (if ke_state e = key_state.Up then K - {ke_code e} else insert (ke_code e) K) else K)"

definition ctrl_keys :: "u8 \<Rightarrow> key_code set" where
  "ctrl_keys c = (if bit c 0 then {LControl} else {}) \<union> (if bit c 1 then {RControl} else {})"

lemma track_ctrl_pressed: "ctrl_keys (track_ctrl e c) = pressed e (ctrl_keys c)"
  by (auto simp: track_ctrl_def ctrl_keys_def set_ctrl_def clear_ctrl_def bit_simps split: key_code.splits key_state.splits if_splits)

lemma ctrl_bits_cases: "c < 4 \<Longrightarrow> c = 0 \<or> c = 1 \<or> c = 2 \<or> c = (3 :: u8)"
proof -
  assume "c < 4"
  then have "unat c < 4" by (simp add: word_less_nat_alt)
  then have "unat c = 0 \<or> unat c = 1 \<or> unat c = 2 \<or> unat c = 3" by linarith
  then show ?thesis by (auto simp: word_unat_eq_iff)
qed

lemma track_ctrl_bits: "c < 4 \<Longrightarrow> track_ctrl e c < 4"
  by (drule ctrl_bits_cases) (auto simp: track_ctrl_def set_ctrl_def clear_ctrl_def split: key_code.splits key_state.splits)

lemma ctrl_held_keys: "c < 4 \<Longrightarrow> ctrl_held c \<longleftrightarrow> ctrl_keys c \<noteq> {}"
  by (drule ctrl_bits_cases) (auto simp: ctrl_held_def ctrl_keys_def)

definition keeps_ctrl :: "('d, 'm, 'h, 'k, 'g, 'a) wp \<Rightarrow> bool" where
  "keeps_ctrl m \<longleftrightarrow> (\<forall>w. wh_ctrl (snd (m w)) = wh_ctrl w)"

lemma keeps_ctrl_rules:
  "keeps_ctrl m \<Longrightarrow> (\<And>x. keeps_ctrl (f x)) \<Longrightarrow> keeps_ctrl (bindR m f)"
  "keeps_ctrl (returnR ())" "keeps_ctrl (on_sys n)" "keeps_ctrl (on_kbd p)" "keeps_ctrl (getsR g)" "keeps_ctrl (end_of_interrupt V v)"
proof -
  show "keeps_ctrl (end_of_interrupt V v)" by (simp add: keeps_ctrl_def end_of_interrupt_def on_hw_def on_sys_def split: prod.split)
  show "keeps_ctrl (bindR m f)" if "keeps_ctrl m" "\<And>x. keeps_ctrl (f x)"
    unfolding keeps_ctrl_def
  proof
    fix w
    have "wh_ctrl (snd (m w)) = wh_ctrl w" "wh_ctrl (snd (f x u)) = wh_ctrl u" for x u using that by (auto simp: keeps_ctrl_def)
    then show "wh_ctrl (snd (bindR m f w)) = wh_ctrl w"
      by (auto simp: bindR_def split: prod.splits res.splits)
  qed
qed (simp_all add: keeps_ctrl_def on_kbd_def on_sys_def split: prod.split)

text \<open>The key event that a keyboard interrupt reads.\<close>

definition key_read :: "('d, 'm, 'h) platform \<Rightarrow> ('h, 'k) devices \<Rightarrow> ('d, 'm, 'h, 'k, 'g) whole \<Rightarrow> key_event option" where
  "key_read E V w = fst (dv_add_byte V (fst (pt_inb (pf_ports E) 0x60 (ac_hw (sy_acpi (wh_sys w))))) (wh_kbd w))"

lemma keyboard_ctrl:
  "wh_ctrl (snd (keyboard_interrupt_handler E V w)) =
     (case key_read E V w of None \<Rightarrow> wh_ctrl w | Some e \<Rightarrow> track_ctrl e (wh_ctrl w))"
proof -
  obtain v h where p: "pt_inb (pf_ports E) 0x60 (ac_hw (sy_acpi (wh_sys w))) = (v, h)" by (metis surj_pair)
  obtain e k where e: "dv_add_byte V v (wh_kbd w) = (e, k)" by (metis surj_pair)
  let ?u = "w\<lparr>wh_sys := wh_sys w\<lparr>sy_acpi := sy_acpi (wh_sys w)\<lparr>ac_hw := h\<rparr>\<rparr>\<rparr>"
  define rest where "rest = (\<lambda>e. bindR (on_kbd (dv_process V e)) (\<lambda>decoded. case decoded of None \<Rightarrow> returnR ()
    | Some key \<Rightarrow> bindR (getsR (\<lambda>w :: ('a, 'b, 'c, 'd, 'e) whole. ctrl_held (wh_ctrl w))) (\<lambda>ctrl. on_sys (handle_key E ctrl key))))"
  have r: "keeps_ctrl (rest e)" for e unfolding rest_def by (intro keeps_ctrl_rules) (auto intro: keeps_ctrl_rules split: option.split)
  have run: "keyboard_interrupt_handler E V w = bindR (case e of None \<Rightarrow> returnR ()
      | Some e \<Rightarrow> bindR (modifyR (\<lambda>w. w\<lparr>wh_ctrl := track_ctrl e (wh_ctrl w)\<rparr>)) (\<lambda>_. rest e)) (\<lambda>_. end_of_interrupt V KEYBOARD) (?u\<lparr>wh_kbd := k\<rparr>)"
  proof -
    have "read_port E 0x60 w = (Ok v, ?u)" using p by (simp add: read_port_def on_sys_def on_acpi_def)
    moreover have "on_kbd (dv_add_byte V v) ?u = (Ok e, ?u\<lparr>wh_kbd := k\<rparr>)" using e by (simp add: on_kbd_def)
    ultimately show ?thesis
      unfolding keyboard_interrupt_handler_def rest_def by (simp only: bindR_Ok_apply)
  qed
  show ?thesis
  proof (cases e)
    case None
    then show ?thesis
      using run p e by (simp add: key_read_def bindR_def keeps_ctrl_rules(6) [unfolded keeps_ctrl_def, rule_format])
  next
    case (Some ev)
    let ?v = "(?u\<lparr>wh_kbd := k\<rparr>)\<lparr>wh_ctrl := track_ctrl ev (wh_ctrl w)\<rparr>"
    have "keyboard_interrupt_handler E V w = bindR (rest ev) (\<lambda>_. end_of_interrupt V KEYBOARD) ?v"
      using run Some by (simp add: bindR_def)
    moreover have "keeps_ctrl (bindR (rest ev) (\<lambda>_. end_of_interrupt V KEYBOARD))" by (intro keeps_ctrl_rules r)
    ultimately show ?thesis using Some p e by (simp add: keeps_ctrl_def key_read_def)
  qed
qed

section \<open>Keys on the display\<close>

fun key_page :: "bool \<Rightarrow> decoded_key \<Rightarrow> page \<Rightarrow> page" where
  "key_page ctrl (Unicode c) p = (if ctrl \<and> c = 0x6C then fold p_put [0x24, 0x20] (p_clear p) else p_key c p)"
| "key_page ctrl (RawKey ArrowUp) p = (if ctrl then p_up 3 p else p)"
| "key_page ctrl (RawKey ArrowDown) p = (if ctrl then p_down 3 p else p)"
| "key_page ctrl (RawKey _) p = p"

lemma on_term_op:
  assumes "on_page out i f p s" and "pg_line p + cost op + 1 < u64_limit" and "tame op p" and "run_op x op = m"
  shows "\<exists>s'. on_term m s = (Ok (), s') \<and> on_page out i f (p_op op p) s' \<and> term_only s s'"
  using run_op_shows [of out i f "k_term (sy_kernel s)" p op x] assms by (auto simp: on_page_def on_term_def term_only_def)

lemma receive_key_plain:
  assumes "key \<noteq> 0x0A" and "key \<noteq> 0x0D"
  shows "receive_key E key = on_term (console_receive_key (\<lambda>_. returnR ()) key)"
  using assms by (auto simp: receive_key_def console_receive_key_def on_term_def bindR_def fun_eq_iff split: prod.splits res.splits)

lemma clear_forgets_key: "p_clear (p_key k p) = p_clear p"
  by (simp add: p_clear_def p_key_def p_put_def Let_def p_newline_def p_write_def p_back_def p_follow_def p_set_def)

lemma key_keeps_bg: "pg_bg (p_key k p) = pg_bg p"
  by (simp add: p_key_def p_put_def Let_def p_newline_def p_write_def p_back_def p_follow_def p_set_def)

lemma ctrl_l_shown:
  assumes "on_page out i f p s" and "pg_line p + 2 < u64_limit" and "pg_bg p = BLACK"
  shows "\<exists>s'. handle_key E True (Unicode 0x6C) s = (Ok (), s') \<and> on_page out i f (fold p_put [0x24, 0x20] (p_clear p)) s' \<and> term_only s s'"
proof -
  obtain s1 where s1: "receive_key E 0x6C s = (Ok (), s1)" "on_page out i f (p_key 0x6C p) s1" "term_only s s1"
    using on_term_op [OF assms(1), of "Typed 0x6C"] assms(2) by (auto simp: receive_key_plain)
  have "pg_bg (p_key 0x6C p) = BLACK" "pg_line (p_key 0x6C p) + 1 < u64_limit"
    using assms(2,3) p_line_key [of "0x6C" p] by (simp_all add: key_keeps_bg)
  then obtain s2 where s2: "on_term console_clear s1 = (Ok (), s2)" "on_page out i f (p_clear p) s2" "term_only s1 s2"
    using on_term_op [OF s1(2), of Cls] by (auto simp: clear_forgets_key)
  have "str ''$ '' = [0x24, 0x20]" by (simp add: str_def)
  then obtain s3 where "print (str ''$ '') s2 = (Ok (), s3)" "on_page out i f (fold p_put [0x24, 0x20] (p_clear p)) s3" "term_only s2 s3"
    using print_shown [OF s2(2), of "[0x24, 0x20]"] by (auto simp: p_clear_def)
  moreover from this have "handle_key E True (Unicode 0x6C) s = (Ok (), s3)" using s1(1) s2(1) by (simp add: handle_key_def bindR_def)
  ultimately show ?thesis using s1(3) s2(3) term_only_trans by blast
qed

lemma handle_key_shown:
  assumes "on_page out i f p s" and "pg_line p + 2 < u64_limit" and "key \<noteq> Unicode 0x0A" and "key \<noteq> Unicode 0x0D"
    and "pg_bg p = BLACK"
  shows "\<exists>s'. handle_key E ctrl key s = (Ok (), s') \<and> on_page out i f (key_page ctrl key p) s' \<and> term_only s s'"
proof (cases "ctrl \<and> key = Unicode 0x6C")
  case True
  then show ?thesis using ctrl_l_shown [OF assms(1,2,5)] by simp
next
  case False
  have typed: "\<exists>s'. handle_key E ctrl (Unicode c) s = (Ok (), s') \<and> on_page out i f (p_key c p) s' \<and> term_only s s'"
    if k: "key = Unicode c" for c
  proof -
    obtain s' where "receive_key E c s = (Ok (), s')" "on_page out i f (p_key c p) s'" "term_only s s'"
      using on_term_op [OF assms(1), of "Typed c" "\<lambda>_. returnR ()"] assms(2-4) k by (auto simp: receive_key_plain)
    then show ?thesis using False k by (auto simp: handle_key_def bindR_def)
  qed
  have lim: "pg_line p + cost (ScrollUp 3) + 1 < u64_limit" "pg_line p + cost (ScrollDown 3) + 1 < u64_limit" using assms(2) by simp_all
  show ?thesis
  proof (cases key)
    case (RawKey kc)
    then show ?thesis
      using on_term_op [OF assms(1) lim(1)] on_term_op [OF assms(1) lim(2)] assms(1)
      by (cases kc) (auto simp: handle_key_def)
  qed (use typed False in auto)
qed

section \<open>A machine\<close>

definition small_devices :: "(unit, unit) devices" where
  "small_devices = \<lparr>dv_add_byte = (\<lambda>b k. (Some \<lparr>ke_code = LControl, ke_state = key_state.Down\<rparr>, k)), dv_process = (\<lambda>e k. (None, k)),
     dv_eoi = (\<lambda>n h. h), dv_pic_initialize = (\<lambda>h. h), dv_pic_masks = (\<lambda>a b h. h), dv_load_idt = (\<lambda>h. h)\<rparr>"

definition small_whole :: "(ram_disk, small_pager, unit, unit, descriptor option list) whole" where
  "small_whole = \<lparr>wh_sys = small_system, wh_tables = tables_start, wh_ctrl = 0, wh_kbd = (), wh_kinit = True\<rparr>"

definition small_trap :: trap where
  "small_trap = \<lparr>tr_frame = str ''frame'', tr_code = 0, tr_address = [], tr_bits = [], tr_cpl = [], tr_user = False\<rparr>"

section \<open>Properties\<close>

text \<open>Every exception but breakpoint and debug stops the kernel: its handler reports the exception with the
  stack frame to the serial port, disables interrupts and never returns, and nothing else of the
  machine is changed, in particular not the display, the files and the heap.\<close>

theorem exceptions_stop:
  assumes "idt E V x n = Some h" and "n < 32" and "n \<noteq> 1" and "n \<noteq> 3"
  shows "\<exists>ls. h w = (Hang, silenced (reported (ls @ [tr_frame x]) w)) \<and> (\<exists>l\<in>set ls. take 9 l = str ''EXCEPTION'')"
  using stop_handler [OF assms] by (auto simp: halt_with_run)

theorem exceptions_stop_witness:
  "\<exists>ls. double_fault_handler small_trap small_whole = (Hang, silenced (reported (ls @ [str ''frame'']) small_whole))"
  using exceptions_stop [of small_platform small_devices small_trap 8 "double_fault_handler small_trap" small_whole]
  by (auto simp: idt_def small_trap_def)

text \<open>The keyboard handler tracks the CTRL keys that are down. The bits of the state stand for a set of
  keys; whatever else a key does, its event adds the key to the set or takes it away, and CTRL
  counts as held exactly as long as one of the two keys is down.\<close>

theorem ctrl_tracks_keys:
  assumes "wh_ctrl w < 4" and "keyboard_interrupt_handler E V w = (r, w')"
  shows "wh_ctrl w' < 4
    \<and> ctrl_keys (wh_ctrl w') = (case key_read E V w of None \<Rightarrow> ctrl_keys (wh_ctrl w) | Some e \<Rightarrow> pressed e (ctrl_keys (wh_ctrl w)))
    \<and> (ctrl_held (wh_ctrl w') \<longleftrightarrow> ctrl_keys (wh_ctrl w') \<noteq> {})"
proof -
  have c: "wh_ctrl w' = (case key_read E V w of None \<Rightarrow> wh_ctrl w | Some e \<Rightarrow> track_ctrl e (wh_ctrl w))"
    using keyboard_ctrl [of E V w] assms(2) by simp
  then have "wh_ctrl w' < 4" using track_ctrl_bits assms(1) by (simp split: option.split)
  with c show ?thesis using ctrl_held_keys track_ctrl_pressed by (simp split: option.split)
qed

theorem ctrl_tracks_keys_witness:
  "\<exists>w'. keyboard_interrupt_handler small_platform small_devices small_whole = (Ok (), w') \<and> ctrl_keys (wh_ctrl w') = {LControl}
     \<and> ctrl_held (wh_ctrl w')"
proof -
  obtain r w' where run: "keyboard_interrupt_handler small_platform small_devices small_whole = (r, w')" by (metis surj_pair)
  have none: "ctrl_keys 0 = {}" by (simp add: ctrl_keys_def)
  have "wh_ctrl small_whole < 4" by (simp add: small_whole_def)
  from ctrl_tracks_keys [OF this run] have "ctrl_keys (wh_ctrl w') = {LControl} \<and> ctrl_held (wh_ctrl w')"
    using none by (simp add: key_read_def small_devices_def small_whole_def)
  moreover have "r = Ok ()" using run
    by (auto simp: keyboard_interrupt_handler_def small_devices_def small_whole_def bindR_def read_port_def on_sys_def on_acpi_def
        on_kbd_def end_of_interrupt_def on_hw_def small_platform_def small_ports_def)
  ultimately show ?thesis using run by blast
qed



end
