(* ===== verification/Boot.thy ===== *)
theory Boot
  imports Interrupts
begin

text \<open>
  Starting the kernel and its panic handler (\<^verbatim>\<open>src/main.rs\<close>), built with the shell and user programs. What
  the boot loader answers, the firmware's memory and the bitmap font are arguments, as are the
  registers that a panic reports. The kernel's last loop, and halting, are \<open>Hang\<close>.
\<close>

section \<open>Initialization\<close>

text \<open>The framebuffers, the font, the memory with the firmware's tables and its root pointer, and the
  arguments of \<open>kmem_init\<close>.\<close>

record 'm loader =
  ld_framebuffers :: "fb_desc list option"
  ld_font :: font
  ld_firmware :: "nat \<Rightarrow> u8"
  ld_rsdp :: "nat option"
  ld_virt :: "nat \<Rightarrow> nat option"
  ld_page_table :: "nat \<Rightarrow> 'm"
  ld_memory :: "nat \<Rightarrow> nat"

definition serial_print :: "bytes \<Rightarrow> ('h, unit) acp" where
  "serial_print txt = modifyR (\<lambda>s. s\<lparr>ac_serial := ac_serial s @ txt\<rparr>)"

abbreviation to_serial :: "string \<Rightarrow> ('d, 'm, 'h, 'k, 'g, unit) wp" where
  "to_serial s \<equiv> on_sys (on_acpi (serial_print (str s)))"
abbreviation to_serial_line :: "string \<Rightarrow> ('d, 'm, 'h, 'k, 'g, unit) wp" where
  "to_serial_line s \<equiv> on_sys (on_acpi (serial_println (str s)))"
abbreviation to_console :: "string \<Rightarrow> ('d, 'm, 'h, 'k, 'g, unit) wp" where
  "to_console s \<equiv> on_sys (print (str s))"
abbreviation to_console_line :: "string \<Rightarrow> ('d, 'm, 'h, 'k, 'g, unit) wp" where
  "to_console_line s \<equiv> on_sys (println (str s))"

definition enable_interrupts :: "('h, unit) acp" where
  "enable_interrupts = modifyR (\<lambda>s. s\<lparr>ac_interrupts := True\<rparr>)"

definition once_only :: "('d, 'm, 'h, 'k, 'g, unit) wp" where
  "once_only = (\<lambda>w. if wh_kinit w then (Panic, w) else (Ok (), w\<lparr>wh_kinit := True\<rparr>))"

definition start_display :: "'m loader \<Rightarrow> ('d, 'm, 'h, 'k, 'g, unit) wp" where
  "start_display B =
     bindR (to_serial ''[STARTUP] initializing framebuf...'') (\<lambda>_.
     bindR (on_sys (on_term (on_fb (fb_init (ld_framebuffers B))))) (\<lambda>_.
     bindR (on_sys (on_term (on_fb (fb_clear BLACK)))) (\<lambda>_.
     bindR (to_serial_line ''[OK]'') (\<lambda>_.
     bindR (to_serial ''[STARTUP] initializing console...'') (\<lambda>_.
     bindR (on_sys (on_term (console_init (ld_font B)))) (\<lambda>_.
     to_serial_line ''[OK]''))))))"

text \<open>A step of the start, announced on the console.\<close>

definition startup :: "string \<Rightarrow> ('d, 'm, 'h, 'k, 'g, unit) wp \<Rightarrow> ('d, 'm, 'h, 'k, 'g, unit) wp" where
  "startup what m =
     bindR (to_console what) (\<lambda>_.
     bindR m (\<lambda>_.
     on_sys (println_color GREEN (str ''[OK]''))))"

definition store_memory :: "'m \<times> frame_allocator \<Rightarrow> ('d, 'm, 'h) system \<Rightarrow> ('d, 'm, 'h) system" where
  "store_memory mf s = s\<lparr>sy_kernel := sy_kernel s\<lparr>k_mapper := Some (fst mf), k_frames := Some (snd mf)\<rparr>\<rparr>"

text \<open>\<open>init_heap\<close> on the mapper and the frame allocator just stored; its error is \<open>expect\<close>ed not to occur.\<close>

definition heap_on :: "('d, 'm, 'h) platform \<Rightarrow> 'm \<times> frame_allocator \<Rightarrow> ('d, 'm, 'h, unit) sp" where
  "heap_on E mf = (\<lambda>s.
     case init_heap (pf_machine E) \<lparr>me_mapper = fst mf, me_frames = snd mf, me_heap = sy_heap s\<rparr> of
       (r, me) \<Rightarrow>
         (case r of Ok u \<Rightarrow> Ok () | Err e \<Rightarrow> Panic | Panic \<Rightarrow> Panic | Hang \<Rightarrow> Hang,
          (store_memory (me_mapper me, me_frames me) s)\<lparr>sy_heap := me_heap me\<rparr>))"

definition start_memory :: "('d, 'm, 'h) platform \<Rightarrow> 'm loader \<Rightarrow> ('d, 'm, 'h, unit) sp" where
  "start_memory E B =
     (case kmem_init (ld_virt B) (ld_page_table B) (ld_memory B) (pf_boot E) of
        Ok mf \<Rightarrow> bindR (modifyR (store_memory mf)) (\<lambda>_. heap_on E mf)
      | Err u \<Rightarrow> panicR | Panic \<Rightarrow> panicR | Hang \<Rightarrow> (\<lambda>s. (Hang, s)))"

definition kinit ::
  "('d, 'm, 'h) platform \<Rightarrow> ('h, 'k) devices \<Rightarrow> 'g gdt_ops \<Rightarrow> 'm loader \<Rightarrow> ('d, 'm, 'h, 'k, 'g, unit) wp" where
  "kinit E V G B =
     bindR once_only (\<lambda>_.
     bindR (start_display B) (\<lambda>_.
     bindR (startup ''[STARTUP] Initializing GDT...'' (on_tables (gdt_init G))) (\<lambda>_.
     bindR (startup ''[STARTUP] Initializing IDT...'' (int_init V)) (\<lambda>_.
     bindR (startup ''[STARTUP] Initializing PIC...'' (pic_init V)) (\<lambda>_.
     bindR (startup ''[STARTUP] Enabling interrupts...'' (on_sys (on_acpi enable_interrupts))) (\<lambda>_.
     bindR (startup ''[STARTUP] initializing acpi...'' (on_sys (on_acpi (acpi_init (ld_firmware B) (ld_rsdp B))))) (\<lambda>_.
     bindR (startup ''[STARTUP] initializing kmem...'' (on_sys (start_memory E B))) (\<lambda>_.
     bindR (to_console_line '''') (\<lambda>_.
     bindR (to_console_line ''[INFO] Kernel is running.'') (\<lambda>_.
     bindR (to_console_line ''[INFO] Timer interrupts should now arrive.'') (\<lambda>_.
     bindR (to_console_line ''[INFO] Press keys to test keyboard IRQs.'') (\<lambda>_.
     to_console_line ''''))))))))))))"

text \<open>The banner, with a percent sign for each backslash of its picture.\<close>

definition picture :: "bytes list" where
  "picture = map (\<lambda>l. map (\<lambda>c. if c = 0x25 then 0x5C else c) (str l))
     [''________                                      '',
      ''%_____  % ___  ___ ____   ____   ____ _____   '',
      '' /   |   %%  %/  // __ % /    % /    %%__  %  '',
      ''/    |    %>    <%  ___/|   |  %   |  %/ __ %_'',
      ''%_______  /__/%_ %%___  >___|  /___|  (____  /'',
      ''        %/      %/    %/     %/     %/     %/'']"

primrec println_color_all :: "color \<Rightarrow> bytes list \<Rightarrow> ('d, 'm, 'h, unit) sp" where
  "println_color_all col [] = returnR ()"
| "println_color_all col (l # ls) = bindR (println_color col l) (\<lambda>_. println_color_all col ls)"

definition kernel_main :: "('d, 'm, 'h, 'k, 'g, unit) wp" where
  "kernel_main =
     bindR (on_sys (on_term console_clear)) (\<lambda>_.
     bindR (to_console_line ''Welcome to...'') (\<lambda>_.
     bindR (on_sys (println_color_all BLUE picture)) (\<lambda>_.
     bindR (on_sys (print (0x0A # str ''Type any command to get started: ''))) (\<lambda>_.
     bindR (on_sys (on_term (on_fb present))) (\<lambda>_.
     \<lambda>w. (Hang, w))))))"

definition kmain ::
  "('d, 'm, 'h) platform \<Rightarrow> ('h, 'k) devices \<Rightarrow> 'g gdt_ops \<Rightarrow> 'm loader \<Rightarrow> ('d, 'm, 'h, 'k, 'g, unit) wp" where
  "kmain E V G B =
     bindR (to_serial_line ''Oxenna starting.'') (\<lambda>_.
     bindR (kinit E V G B) (\<lambda>_.
     bindR (to_serial_line ''[TEST] kinit returned'') (\<lambda>_.
     kernel_main)))"

section \<open>Panics\<close>

text \<open>What the handler of a panic reads: the location, the message, and the registers; the interrupt flag
  of RFLAGS is that of the machine.\<close>

record panic_info =
  pi_location :: "(bytes \<times> nat \<times> nat) option"
  pi_message :: bytes
  pi_cr0 :: u64
  pi_cr2 :: "u64 option"
  pi_cr3 :: u64
  pi_cr4 :: u64
  pi_efer :: u64
  pi_cs :: u16
  pi_ss :: u16
  pi_rsp :: u64
  pi_flags :: u64

definition hex_pad :: "nat \<Rightarrow> nat \<Rightarrow> bytes" where
  "hex_pad w n = str ''0x'' @ replicate (w - 2 - length (show_radix 16 n)) 0x30 @ show_radix 16 n"

abbreviation (input) hex16 :: "u16 \<Rightarrow> bytes" where "hex16 x \<equiv> hex_pad 6 (unat x)"
abbreviation (input) hex64 :: "u64 \<Rightarrow> bytes" where "hex64 x \<equiv> hex_pad 18 (unat x)"

definition enabled :: "bool \<Rightarrow> bytes" where
  "enabled b = str (if b then ''enabled'' else ''disabled'')"

definition location_line :: "panic_info \<Rightarrow> bytes" where
  "location_line C = str ''  Location : '' @
     (case pi_location C of
        Some (file, line, col) \<Rightarrow> file @ str '':'' @ show_nat line @ str '':'' @ show_nat col
      | None \<Rightarrow> str ''unknown'')"

definition cr2_value :: "panic_info \<Rightarrow> u64" where
  "cr2_value C = (case pi_cr2 C of Some a \<Rightarrow> a | None \<Rightarrow> 0)"

definition serial_report :: "panic_info \<Rightarrow> u64 \<Rightarrow> bytes list" where
  "serial_report C rflags =
     [[],
      str ''================================================================'',
      str ''                         KERNEL PANIC'',
      str ''================================================================'',
      location_line C,
      str ''  Message  : '' @ pi_message C,
      [],
      str ''-------------------- EXECUTION CONTEXT ------------------------'',
      str ''  CPL      : ring '' @ show_nat (unat (pi_cs C AND 0x3)),
      str ''  CS       : '' @ hex16 (pi_cs C),
      str ''  SS       : '' @ hex16 (pi_ss C),
      str ''  RSP      : '' @ hex64 (pi_rsp C),
      str ''  RFLAGS   : '' @ hex64 rflags,
      str ''  IF       : '' @ enabled (bit rflags 9),
      str ''  CF       : '' @ show_bool (bit rflags 0),
      str ''  ZF       : '' @ show_bool (bit rflags 6),
      str ''  SF       : '' @ show_bool (bit rflags 7),
      str ''  OF       : '' @ show_bool (bit rflags 11),
      str ''  DF       : '' @ show_bool (bit rflags 10),
      [],
      str ''-------------------- MEMORY STATE -----------------------------'',
      str ''  CR0      : '' @ hex64 (pi_cr0 C),
      str ''  CR2      : '' @ hex64 (cr2_value C),
      str ''  CR3      : '' @ hex64 (pi_cr3 C),
      str ''  CR4      : '' @ hex64 (pi_cr4 C),
      str ''  EFER     : '' @ hex64 (pi_efer C),
      str ''  CR0.PG   : '' @ show_bool (bit (pi_cr0 C) 31),
      str ''  CR0.WP   : '' @ show_bool (bit (pi_cr0 C) 16),
      str ''  CR4.PAE  : '' @ show_bool (bit (pi_cr4 C) 5),
      str ''  CR4.PGE  : '' @ show_bool (bit (pi_cr4 C) 7),
      str ''  CR4.SMEP : '' @ show_bool (bit (pi_cr4 C) 20),
      str ''  CR4.SMAP : '' @ show_bool (bit (pi_cr4 C) 21),
      str ''  EFER.SCE : '' @ show_bool (bit (pi_efer C) 0),
      str ''  EFER.NXE : '' @ show_bool (bit (pi_efer C) 11),
      str ''  EFER.LME : '' @ show_bool (bit (pi_efer C) 8),
      [],
      str ''-------------------- PAGE FAULT STATE ------------------------'',
      str ''  CR2      : '' @ hex64 (cr2_value C),
      str ''  NOTE     : CR2 is only meaningful for a page-fault context'',
      [],
      str ''-------------------- STACK STATE ------------------------------'',
      str ''  RSP      : '' @ hex64 (pi_rsp C),
      str ''  RSP % 16 : '' @ show_nat (unat (pi_rsp C AND 0xF)),
      str ''  RSP % 8  : '' @ show_nat (unat (pi_rsp C AND 0x7)),
      str ''================================================================'',
      str ''                         SYSTEM HALTED'',
      str ''================================================================'',
      []]"

definition screen_report :: "panic_info \<Rightarrow> u64 \<Rightarrow> bytes list" where
  "screen_report C rflags =
     [[],
      str ''############################################################'',
      str ''#                    KERNEL PANIC                          #'',
      str ''############################################################'',
      [],
      location_line C,
      [],
      str ''  '' @ pi_message C,
      [],
      str ''  CPU CONTEXT'',
      str ''    CPL      : ring '' @ show_nat (unat (pi_cs C AND 0x3)),
      str ''    CS       : '' @ hex16 (pi_cs C),
      str ''    SS       : '' @ hex16 (pi_ss C),
      str ''    RSP      : '' @ hex64 (pi_rsp C),
      str ''    RFLAGS   : '' @ hex64 rflags,
      str ''    IF       : '' @ enabled (bit rflags 9),
      [],
      str ''  MEMORY STATE'',
      str ''    CR0      : '' @ hex64 (pi_cr0 C),
      str ''    CR2      : '' @ hex64 (cr2_value C),
      str ''    CR3      : '' @ hex64 (pi_cr3 C),
      str ''    CR4      : '' @ hex64 (pi_cr4 C),
      str ''    EFER     : '' @ hex64 (pi_efer C),
      [],
      str ''  FEATURES'',
      str ''    Paging   : '' @ enabled (bit (pi_cr0 C) 31),
      str ''    PAE      : '' @ enabled (bit (pi_cr4 C) 5),
      str ''    SMEP     : '' @ enabled (bit (pi_cr4 C) 20),
      str ''    SMAP     : '' @ enabled (bit (pi_cr4 C) 21),
      str ''    NX       : '' @ enabled (bit (pi_efer C) 11),
      str ''    SYSCALL  : '' @ enabled (bit (pi_efer C) 0),
      [],
      str ''  CR2 is only meaningful after a page fault.'',
      str ''  System halted.'',
      [],
      str ''############################################################'']"

definition read_rflags :: "panic_info \<Rightarrow> ('d, 'm, 'h, 'k, 'g, u64) wp" where
  "read_rflags C = getsR (\<lambda>w. if ac_interrupts (sy_acpi (wh_sys w)) then pi_flags C OR 0x200 else pi_flags C AND NOT 0x200)"

definition panic_handler :: "panic_info \<Rightarrow> ('d, 'm, 'h, 'k, 'g, unit) wp" where
  "panic_handler C =
     bindR (on_sys (on_acpi disable_interrupts)) (\<lambda>_.
     bindR (read_rflags C) (\<lambda>rflags.
     bindR (serial_lines (serial_report C rflags)) (\<lambda>_.
     bindR (on_sys (println_color_all RED (screen_report C rflags))) (\<lambda>_.
     bindR (on_sys (on_term (on_fb present))) (\<lambda>_.
     \<lambda>w. (Hang, w))))))"

end
