(* ===== verification/Boot_Ops.thy ===== *)
theory Boot_Ops
  imports Boot Interrupts_Ops
begin

text \<open>
  The system from power on: \<open>kinit\<close> brings up the display, the descriptor tables and the memory, after
  which any interrupts keep the frames of memory apart; and what a panic reports.
\<close>

section \<open>Memory at boot\<close>

text \<open>The state before \<open>kinit\<close>: no process, no heap, no working directory.\<close>

definition power_on :: "('d, 'm, 'h) system \<Rightarrow> bool" where
  "power_on s \<longleftrightarrow> k_pages (sy_kernel s) = [] \<and> k_brk (sy_kernel s) < u64_limit \<and> \<not> k_fds_locked (sy_kernel s)
     \<and> (\<exists>mem. sy_heap s = buddy_new mem) \<and> sy_cwd s = []"

text \<open>What the boot loader promises: the memory map is well formed, none of the frames that the kernel
  will hand out holds its page tables, and the range of the kernel heap is not mapped.\<close>

definition loader_ok :: "('d, 'm, 'h) platform \<Rightarrow> 'm loader \<Rightarrow> ('m \<Rightarrow> nat set) \<Rightarrow> bool" where
  "loader_ok E B tb \<longleftrightarrow> (\<forall>off mm v. bi_hhdm (pf_boot E) = Some off \<longrightarrow> bi_memmap (pf_boot E) = Some mm \<longrightarrow> ld_virt B off = Some v \<longrightarrow>
     frame_start (frame_new mm v (ld_memory B)) \<and> tb (ld_page_table B v) = {}
     \<and> (\<forall>p\<in>set heap_pages. pg_translate (mc_pager (pf_machine E)) p (ld_page_table B v) = None))"

lemma kmem_init_ok:
  assumes "kmem_init (ld_virt B) (ld_page_table B) (ld_memory B) (pf_boot E) = Ok (m, fa)" and "loader_ok E B tb"
  shows "frame_start fa" and "tb m = {}" and "\<forall>p\<in>set heap_pages. pg_translate (mc_pager (pf_machine E)) p m = None"
  using assms by (auto simp: kmem_init_def loader_ok_def split: option.splits)

lemma frame_start_inv: "frame_start fa \<Longrightarrow> phys_frame_api containing \<Longrightarrow> \<exists>xs. frame_inv fa xs {}"
  using frame_reachable_inv(1) [of containing fa fa "{}"] by (simp add: frame_reachable_def)

definition after_boot :: "('d, 'm, 'h) platform \<Rightarrow> ('m \<Rightarrow> nat set) \<Rightarrow> ('d, 'm, 'h) system \<Rightarrow> bool" where
  "after_boot E tb s \<longleftrightarrow> (\<exists>m. k_mapper (sy_kernel s) = Some m
     \<and> idle (pf_machine E) tb (frames_of (pf_machine E) m heap_pages) (sy_kernel s)
     \<and> pages_ok (pf_machine E) m heap_pages)
     \<and> initialized (sy_heap s) \<and> (\<Union>z\<in>set (zone_list (sy_heap s)). zblk z) = {HEAP_START..<HEAP_START + HEAP_SIZE}
     \<and> sy_cwd s = []"

lemma start_memory_ready:
  assumes "start_memory E B s = (Ok (), s')" and "power_on s" and "loader_ok E B tb" and "paging_ok (pf_machine E) tb"
  shows "after_boot E tb s'"
proof -
  let ?X = "pf_machine E"
  obtain m fa where mf: "kmem_init (ld_virt B) (ld_page_table B) (ld_memory B) (pf_boot E) = Ok (m, fa)"
    using assms(1) by (auto simp: start_memory_def split: res.splits)
  define me where "me = \<lparr>me_mapper = m, me_frames = fa, me_heap = sy_heap s\<rparr>"
  obtain r me' where run: "init_heap ?X me = (r, me')" by (metis prod.exhaust)
  have s': "r = Ok ()" "s' = (store_memory (me_mapper me', me_frames me') (store_memory (m, fa) s))\<lparr>sy_heap := me_heap me'\<rparr>"
    using assms(1) mf run by (auto simp: start_memory_def heap_on_def bindR_def me_def store_memory_def split: res.splits)
  have api: "phys_frame_api (mc_containing ?X)" using assms(4) by (simp add: paging_ok_def)
  note k = kmem_init_ok [OF mf assms(3)]
  have idle: "idle ?X tb {} (in_kernel me [] (sy_kernel s))"
    using frame_start_inv [OF k(1) api] k(2) assms(2)
    by (auto simp: idle_def running_def proc_ok_def owns_def frames_of_def pages_ok_def power_on_def me_def in_kernel_def)
  obtain mem where "me_heap me = buddy_new mem" using assms(2) by (auto simp: power_on_def me_def)
  from init_heap_spec [OF assms(4) idle _ this run] k(3) s'(1) me_def
  have spec: "inj_on (\<lambda>p. pg_translate (mc_pager ?X) p (me_mapper me')) (set heap_pages)"
      "initialized (me_heap me')" "(\<Union>z\<in>set (zone_list (me_heap me')). zblk z) = {HEAP_START..<HEAP_START + HEAP_SIZE}"
      "idle ?X tb (frames_of ?X (me_mapper me') heap_pages) (in_kernel me' [] (sy_kernel s))"
      "\<forall>a. HEAP_START \<le> a \<longrightarrow> a < HEAP_START + HEAP_SIZE \<longrightarrow> (\<exists>f. pg_translate (mc_pager ?X) (page_of a) (me_mapper me') = Some f)"
    by auto
  have "pg_translate (mc_pager ?X) p (me_mapper me') \<noteq> None" if p: "p \<in> set heap_pages" for p
  proof -
    have "HEAP_START \<le> p" "p < HEAP_START + HEAP_SIZE" "page_of p = p"
      using p heap_pages_facts(2) [OF p] by (auto simp: heap_pages_eq page_of_def)
    then show ?thesis using spec(5) by force
  qed
  then have "pages_ok ?X (me_mapper me') heap_pages" using heap_pages_facts spec(1) by (simp add: pages_ok_def)
  moreover have "in_kernel me' [] (sy_kernel s) = sy_kernel s'"
    using assms(2) s'(2) by (simp add: in_kernel_def store_memory_def power_on_def)
  ultimately show ?thesis
    using spec(2-4) s'(2) assms(2) by (auto simp: after_boot_def store_memory_def power_on_def)
qed

text \<open>The parts of \<open>kinit\<close> that leave memory alone.\<close>

definition aside :: "('d, 'm, 'h) system \<Rightarrow> ('d, 'm, 'h) system \<Rightarrow> bool" where
  "aside s s' \<longleftrightarrow> sy_heap s' = sy_heap s \<and> sy_cwd s' = sy_cwd s \<and> (sy_kernel s')\<lparr>k_term := k_term (sy_kernel s)\<rparr> = sy_kernel s"

abbreviation aside_whole :: "('d, 'm, 'h, 'k, 'g) whole \<Rightarrow> ('d, 'm, 'h, 'k, 'g) whole \<Rightarrow> bool" where
  "aside_whole w w' \<equiv> aside (wh_sys w) (wh_sys w')"

lemma term_update:
  "b\<lparr>k_term := x\<rparr> = a \<Longrightarrow> c\<lparr>k_term := y\<rparr> = b \<Longrightarrow> c\<lparr>k_term := x\<rparr> = (a :: ('d, 'm) kernel)"
  "c\<lparr>k_term := y\<rparr> = b \<Longrightarrow> c = (b :: ('d, 'm) kernel)\<lparr>k_term := k_term c\<rparr>"
  by auto

lemma aside_refl: "aside s s"
  by (simp add: aside_def)

lemma aside_trans: "aside s t \<Longrightarrow> aside t u \<Longrightarrow> aside s u"
  unfolding aside_def using term_update(1) by fastforce

lemma aside_kernel: "aside s s' \<Longrightarrow> sy_kernel s' = (sy_kernel s)\<lparr>k_term := k_term (sy_kernel s')\<rparr>"
  unfolding aside_def using term_update(2) by blast

lemma aside_power_on:
  assumes "aside s s'" and "power_on s"
  shows "power_on s'"
proof -
  have "sy_heap s' = sy_heap s" "sy_cwd s' = sy_cwd s" using assms(1) by (auto simp: aside_def)
  then show ?thesis using assms(2) by (subst power_on_def, subst (1 2 3) aside_kernel [OF assms(1)]) (simp add: power_on_def)
qed

lemma aside_after_boot:
  assumes "aside s s'" and "after_boot E tb s"
  shows "after_boot E tb s'"
proof -
  have "sy_heap s' = sy_heap s" "sy_cwd s' = sy_cwd s" using assms(1) by (auto simp: aside_def)
  then show ?thesis using assms(2) running_term [of "pf_machine E" tb]
    by (subst after_boot_def, subst (1 2) aside_kernel [OF assms(1)]) (auto simp: after_boot_def idle_def)
qed

lemma aside_steps:
  "steps aside_whole m \<Longrightarrow> (\<And>x. steps aside_whole (f x)) \<Longrightarrow> steps aside_whole (bindR m f)"
  "steps aside_whole (on_sys (on_term n))" "steps aside_whole (on_sys (on_acpi q))" "steps aside_whole (on_tables g)"
  "steps aside_whole (on_hw h)" "steps aside_whole once_only"
proof -
  show "steps aside_whole (bindR m f)" if "steps aside_whole m" "\<And>x. steps aside_whole (f x)"
    using that unfolding steps_def bindR_eq_Ok by (meson aside_trans)
qed (auto simp: steps_def on_sys_def on_term_def on_acpi_def on_tables_def on_hw_def once_only_def aside_def split: prod.splits if_splits)

lemma startup_aside: "steps aside_whole m \<Longrightarrow> steps aside_whole (startup what m)"
  unfolding startup_def by (intro aside_steps)

text \<open>A part of \<open>kinit\<close> that takes systems with \<open>P\<close> to systems with \<open>Q\<close>, when it returns.\<close>

definition leads :: "(('d, 'm, 'h) system \<Rightarrow> bool) \<Rightarrow> (('d, 'm, 'h) system \<Rightarrow> bool) \<Rightarrow> ('d, 'm, 'h, 'k, 'g, 'a) wp \<Rightarrow> bool" where
  "leads P Q m \<longleftrightarrow> (\<forall>w x w'. P (wh_sys w) \<longrightarrow> m w = (Ok x, w') \<longrightarrow> Q (wh_sys w'))"

lemma leads_bind: "leads P Q m \<Longrightarrow> (\<And>x. leads Q T (f x)) \<Longrightarrow> leads P T (bindR m f)"
  unfolding leads_def bindR_eq_Ok by blast

lemma leads_aside:
  "steps aside_whole m \<Longrightarrow> leads power_on power_on m"
  "steps aside_whole m \<Longrightarrow> leads (after_boot E tb) (after_boot E tb) m"
  unfolding leads_def steps_def using aside_power_on aside_after_boot by blast+

lemma kinit_leads:
  assumes "loader_ok E B tb" and "paging_ok (pf_machine E) tb"
  shows "leads power_on (after_boot E tb) (kinit E V G B)"
proof -
  have mem: "leads power_on (after_boot E tb) (on_sys (start_memory E B))"
    using start_memory_ready [OF _ _ assms] by (auto simp: leads_def on_sys_def split: prod.splits)
  have start: "leads power_on (after_boot E tb) (startup what (on_sys (start_memory E B)))" for what
    unfolding startup_def by (intro leads_bind [OF leads_aside(1)] leads_bind [OF mem] leads_aside(2) aside_steps)
  have s: "steps aside_whole once_only" "steps aside_whole (start_display B)" "steps aside_whole (startup what (on_tables g))"
      "steps aside_whole (startup what (int_init V))" "steps aside_whole (startup what (pic_init V))"
      "steps aside_whole (startup what (on_sys (on_acpi q)))" for what g q
    unfolding start_display_def int_init_def pic_init_def by (intro startup_aside aside_steps)+
  note before = s [THEN leads_aside(1), THEN leads_bind]
  have fin: "leads power_on (after_boot E tb) (bindR (startup what (on_sys (start_memory E B))) (\<lambda>_. m))"
    if "steps aside_whole m" for what m
    by (rule leads_bind [OF start]) (rule leads_aside(2) [OF that])
  show ?thesis unfolding kinit_def by (intro before fin aside_steps)
qed

end
