(* ===== verification/Boot_Show.thy ===== *)
theory Boot_Show
  imports Boot_Ops
begin

text \<open>
  What the display shows while the kernel starts, that the start completes, and what a panic reports.
\<close>

section \<open>Steps of the start\<close>

text \<open>What later steps depend on, apart from the terminal.\<close>

definition sight :: "('d, 'm, 'h, 'k, 'g) whole \<Rightarrow> bool \<times> 'g tables \<times> buddy \<times> bool" where
  "sight w = (wh_kinit w, wh_tables w, sy_heap (wh_sys w), ac_interrupts (sy_acpi (wh_sys w)))"

text \<open>A part that returns, changes what is seen as \<open>x\<close> says, and leaves the terminal alone.\<close>

definition works :: "bool \<times> 'g tables \<times> buddy \<times> bool \<Rightarrow> ('d, 'm, 'h, 'k, 'g, unit) wp \<Rightarrow> ('d, 'm, 'h, 'k, 'g) whole \<Rightarrow> bool" where
  "works x m w \<longleftrightarrow> (\<exists>v. m w = (Ok (), v) \<and> k_term (sy_kernel (wh_sys v)) = k_term (sy_kernel (wh_sys w)) \<and> sight v = x)"

text \<open>Printing on the display that shows the page \<open>p\<close>.\<close>

lemma on_sys_shown:
  assumes "\<exists>s'. m (wh_sys w) = (Ok (), s') \<and> on_page out i f p s' \<and> term_only (wh_sys w) s'"
  shows "\<exists>w'. on_sys m w = (Ok (), w') \<and> on_page out i f p (wh_sys w') \<and> sight w' = sight w"
proof -
  obtain s' where s': "m (wh_sys w) = (Ok (), s')" "on_page out i f p s'" "term_only (wh_sys w) s'" using assms by blast
  have "sight (w\<lparr>wh_sys := s'\<rparr>) = sight w" using s'(3) by (auto simp: term_only_def sight_def)
  with s'(1,2) show ?thesis by (intro exI [of _ "w\<lparr>wh_sys := s'\<rparr>"]) (simp add: on_sys_def)
qed

lemma to_console_shown:
  assumes "on_page out i f p (wh_sys w)" and "pg_line p + length bs + 1 < u64_limit" and "0x08 \<notin> set bs"
  shows "\<exists>w'. on_sys (print bs) w = (Ok (), w') \<and> on_page out i f (fold p_put bs p) (wh_sys w') \<and> sight w' = sight w"
  by (rule on_sys_shown) (rule print_shown [OF assms])

lemma to_console_line_shown:
  assumes "on_page out i f p (wh_sys w)" and "pg_line p + length bs + 2 < u64_limit" and "0x08 \<notin> set bs"
  shows "\<exists>w'. on_sys (println bs) w = (Ok (), w') \<and> on_page out i f (fold p_put (bs @ [0x0A]) p) (wh_sys w') \<and> sight w' = sight w"
  by (rule on_sys_shown) (rule println_shown [OF assms])

lemma to_console_color_shown:
  assumes "on_page out i f p (wh_sys w)" and "pg_line p + length bs + 2 < u64_limit" and "0x08 \<notin> set bs"
  shows "\<exists>w'. on_sys (println_color col bs) w = (Ok (), w') \<and> on_page out i f (p_op (PrintIn col (bs @ [0x0A])) p) (wh_sys w') \<and> sight w' = sight w"
  by (rule on_sys_shown) (rule println_color_shown [OF assms])

definition p_startup :: "string \<Rightarrow> page \<Rightarrow> page" where
  "p_startup what p = p_op (PrintIn GREEN (str ''[OK]'' @ [0x0A])) (fold p_put (str what) p)"

lemma startup_line: "pg_line (p_startup what p) \<le> pg_line p + length what + 5"
  using p_line_text [of "str what" p] p_line_op [of "PrintIn GREEN (str ''[OK]'' @ [0x0A])" "fold p_put (str what) p"]
  unfolding p_startup_def by simp

lemma startup_shown:
  assumes "on_page out i f p (wh_sys w)" and "pg_line p + length what + 6 < u64_limit" and "0x08 \<notin> set (str what)"
    and "\<And>u. sight u = sight w \<Longrightarrow> works x m u"
  shows "\<exists>w'. startup what m w = (Ok (), w') \<and> on_page out i f (p_startup what p) (wh_sys w') \<and> sight w' = x"
proof -
  obtain w1 where w1: "on_sys (print (str what)) w = (Ok (), w1)" "on_page out i f (fold p_put (str what) p) (wh_sys w1)" "sight w1 = sight w"
    using to_console_shown [OF assms(1) _ assms(3)] assms(2) by auto
  obtain w2 where w2: "m w1 = (Ok (), w2)" "k_term (sy_kernel (wh_sys w2)) = k_term (sy_kernel (wh_sys w1))" "sight w2 = x"
    using assms(4) [OF w1(3)] by (auto simp: works_def)
  have "on_page out i f (fold p_put (str what) p) (wh_sys w2)" using w1(2) w2(2) by (simp add: on_page_def)
  moreover have "0x08 \<notin> set (str ''[OK]'')" by (simp add: str_def)
  moreover have "pg_line (fold p_put (str what) p) + length (str ''[OK]'') + 2 < u64_limit"
    using p_line_text [of "str what" p] assms(2) by simp
  ultimately obtain w3 where "on_sys (println_color GREEN (str ''[OK]'')) w2 = (Ok (), w3)"
      "on_page out i f (p_startup what p) (wh_sys w3)" "sight w3 = x"
    using to_console_color_shown [of out i f "fold p_put (str what) p" w2 "str ''[OK]''" GREEN] w2(3) unfolding p_startup_def by blast
  with w1(1) w2(1) show ?thesis by (simp add: startup_def bindR_def)
qed

lemma display_started:
  assumes "ld_framebuffers B = Some (d # ds)" and "ds_bpp d = 32" and "screen_ok (desc_info d)" and "font_ok (ld_font B)"
  shows "\<exists>w'. start_display B w = (Ok (), w')
    \<and> on_page (\<lambda>_. EMPTY) (desc_info d) (ld_font B) (prompt_page (desc_info d)) (wh_sys w') \<and> sight w' = sight w"
proof -
  let ?t = "k_term (sy_kernel (wh_sys w))"
  obtain fb1 where fb1: "fb_init (Some (d # ds)) (tm_fb ?t) = (Ok (), fb1)" "synced (desc_info d) fb1"
    using fb_init_run [OF assms(2,3)] by blast
  then have "fb_info fb1 = Some (desc_info d)" "dirty_ok (desc_info d) fb1" by (simp_all add: synced_def)
  then obtain fb2 where fb2: "fb_clear BLACK fb1 = (Ok (), fb2)" "drawn (desc_info d) (\<lambda>p a b. color_word (desc_info d) BLACK) fb1 fb2"
    using draws_clear [OF assms(3), of BLACK] by (auto simp: draws_def)
  have "synced (desc_info d) (tm_fb (?t\<lparr>tm_fb := fb2\<rparr>))" using drawn_synced [OF fb1(2) fb2(2)] by simp
  from console_init_run [OF assms(3) this assms(4)] obtain t3 where t3: "console_init (ld_font B) (?t\<lparr>tm_fb := fb2\<rparr>) = (Ok (), t3)"
      "showing (\<lambda>_. EMPTY) (desc_info d) (ld_font B) t3 (prompt_page (desc_info d))" "visible (desc_info d) (ld_font B) t3 (prompt_page (desc_info d))"
    by (auto simp: prompt_page_def)
  then show ?thesis using assms(1) fb1(1) fb2(1)
    by (simp add: start_display_def bindR_def on_sys_def on_acpi_def on_term_def on_fb_def serial_print_def serial_println_def
        on_page_def sight_def)
qed

section \<open>The whole start\<close>

lemma works_rules:
  "gdt_laws G used \<Longrightarrow> tb_tss (wh_tables w) = None \<Longrightarrow> tb_gdt (wh_tables w) = None \<Longrightarrow>
    works (wh_kinit w, snd (gdt_init G (wh_tables w)), sy_heap (wh_sys w), ac_interrupts (sy_acpi (wh_sys w))) (on_tables (gdt_init G)) w"
  "works (sight w) (int_init V) w" "works (sight w) (pic_init V) w"
  "works (wh_kinit w, wh_tables w, sy_heap (wh_sys w), True) (on_sys (on_acpi enable_interrupts)) w"
  using gdt_init_returns [of G used "wh_tables w"]
  by (auto simp: works_def on_tables_def sight_def int_init_def pic_init_def on_hw_def on_sys_def on_acpi_def enable_interrupts_def bindR_def
      split: prod.split)

lemma acpi_init_interrupts: "ac_interrupts (snd (acpi_init mem r s)) = ac_interrupts s"
proof -
  have parse: "ac_interrupts (snd (parse_fadt mem t s)) = ac_interrupts s" for t and s :: "'a acpi"
    by (simp add: parse_fadt_def Let_def bindR_Ok_apply)
  have "ac_interrupts (snd (search_xsdt mem xsdt is s)) = ac_interrupts s" for xsdt "is" and s :: "'a acpi"
    by (induction "is" arbitrary: s) (auto simp: Let_def parse)
  then show ?thesis
    by (auto simp: acpi_init_def find_fadt_def Let_def split: option.split)
qed

lemma works_acpi: "works (sight w) (on_sys (on_acpi (acpi_init mem r))) w"
  using acpi_init_returns [of mem r "sy_acpi (wh_sys w)"] acpi_init_interrupts [of mem r "sy_acpi (wh_sys w)"]
  by (auto simp: works_def on_sys_def on_acpi_def sight_def split: prod.split)

lemma works_memory:
  assumes "kmem_init (ld_virt B) (ld_page_table B) (ld_memory B) (pf_boot E) = Ok (m, fa)"
    and "init_heap (pf_machine E) \<lparr>me_mapper = m, me_frames = fa, me_heap = sy_heap (wh_sys w)\<rparr> = (Ok (), me)"
  shows "works (wh_kinit w, wh_tables w, me_heap me, ac_interrupts (sy_acpi (wh_sys w))) (on_sys (start_memory E B)) w"
  using assms by (simp add: works_def on_sys_def start_memory_def bindR_def heap_on_def store_memory_def sight_def)

fun print_lines :: "bytes list \<Rightarrow> ('d, 'm, 'h, 'k, 'g, unit) wp" where
  "print_lines [] = returnR ()"
| "print_lines [l] = on_sys (println l)"
| "print_lines (l # ls) = bindR (on_sys (println l)) (\<lambda>_. print_lines ls)"

lemma print_lines_shown:
  assumes "on_page out i f p (wh_sys w)" and "pg_line p + length (concat ls) + length ls + 1 < u64_limit" and "0x08 \<notin> set (concat ls)"
  shows "\<exists>w'. print_lines ls w = (Ok (), w') \<and> on_page out i f (fold p_put (concat (map (\<lambda>l. l @ [0x0A]) ls)) p) (wh_sys w') \<and> sight w' = sight w"
  using assms
proof (induction ls arbitrary: p w rule: print_lines.induct)
  case (2 l)
  then show ?case using to_console_line_shown [OF "2.prems"(1), of l] by simp
next
  case (3 l l' ls')
  define ls where "ls = l' # ls'"
  note IH = "3.IH" [folded ls_def] and prems = "3.prems" [folded ls_def]
  obtain w1 where w1: "on_sys (println l) w = (Ok (), w1)" "on_page out i f (fold p_put (l @ [0x0A]) p) (wh_sys w1)" "sight w1 = sight w"
    using to_console_line_shown [OF prems(1), of l] prems(2,3) by auto
  have "pg_line (fold p_put (l @ [0x0A]) p) + length (concat ls) + length ls + 1 < u64_limit"
    using p_line_text [of "l @ [0x0A]" p] prems(2) by simp
  from IH [OF w1(2) this] prems(3) w1 show ?case by (auto simp: bindR_def ls_def)
qed simp

definition boot_steps :: "string list" where
  "boot_steps = [''[STARTUP] Initializing GDT...'', ''[STARTUP] Initializing IDT...'', ''[STARTUP] Initializing PIC...'',
     ''[STARTUP] Enabling interrupts...'', ''[STARTUP] initializing acpi...'', ''[STARTUP] initializing kmem...'']"

definition boot_info_lines :: "bytes list" where
  "boot_info_lines = map str [[], ''[INFO] Kernel is running.'', ''[INFO] Timer interrupts should now arrive.'',
     ''[INFO] Press keys to test keyboard IRQs.'', []]"

definition boot_page :: "info \<Rightarrow> page" where
  "boot_page i = fold p_put (concat (map (\<lambda>l. l @ [0x0A]) boot_info_lines)) (fold p_startup boot_steps (prompt_page i))"

text \<open>The start as a list of steps, each with what it announces.\<close>

primrec startups :: "(string \<times> ('d, 'm, 'h, 'k, 'g, unit) wp) list \<Rightarrow> ('d, 'm, 'h, 'k, 'g, unit) wp \<Rightarrow> ('d, 'm, 'h, 'k, 'g, unit) wp" where
  "startups [] m = m"
| "startups (a # as) m = bindR (startup (fst a) (snd a)) (\<lambda>_. startups as m)"

definition boot_actions ::
  "('d, 'm, 'h) platform \<Rightarrow> ('h, 'k) devices \<Rightarrow> 'g gdt_ops \<Rightarrow> 'm loader \<Rightarrow> (('d, 'm, 'h, 'k, 'g, unit) wp) list" where
  "boot_actions E V G B = [on_tables (gdt_init G), int_init V, pic_init V, on_sys (on_acpi enable_interrupts),
     on_sys (on_acpi (acpi_init (ld_firmware B) (ld_rsdp B))), on_sys (start_memory E B)]"

lemma kinit_steps:
  "kinit E V G B = bindR once_only (\<lambda>_. bindR (start_display B) (\<lambda>_.
     startups (zip boot_steps (boot_actions E V G B)) (print_lines boot_info_lines)))"
  by (simp add: kinit_def boot_steps_def boot_actions_def boot_info_lines_def)

text \<open>Actions that work one after the other, from what is seen as \<open>x\<close> to \<open>y\<close>.\<close>

primrec chain :: "(('d, 'm, 'h, 'k, 'g, unit) wp) list \<Rightarrow> bool \<times> 'g tables \<times> buddy \<times> bool \<Rightarrow> bool \<times> 'g tables \<times> buddy \<times> bool \<Rightarrow> bool" where
  "chain [] x y = (x = y)"
| "chain (m # ms) x y = (\<exists>z. (\<forall>w. sight w = x \<longrightarrow> works z m w) \<and> chain ms z y)"

lemma startups_shown:
  assumes "on_page out i f p (wh_sys w)" and "pg_line p + sum_list (map (\<lambda>n. length n + 5) names) + 1 < u64_limit"
    and "0x08 \<notin> set (str (concat names))" and "chain ms (sight w) y" and "length names = length ms"
  shows "\<exists>w'. startups (zip names ms) k w = k w' \<and> on_page out i f (fold p_startup names p) (wh_sys w') \<and> sight w' = y
    \<and> pg_line (fold p_startup names p) \<le> pg_line p + sum_list (map (\<lambda>n. length n + 5) names)"
  using assms
proof (induction names arbitrary: p w ms)
  case (Cons what names)
  obtain m rest where ms: "ms = m # rest" "length names = length rest" using Cons.prems(5) by (cases ms) auto
  obtain z where z: "\<And>u. sight u = sight w \<Longrightarrow> works z m u" "chain rest z y" using Cons.prems(4) ms(1) by auto
  have "pg_line p + length what + 6 < u64_limit" "0x08 \<notin> set (str what)" using Cons.prems(2,3) by auto
  from startup_shown [OF Cons.prems(1) this z(1)] obtain w1 where w1: "startup what m w = (Ok (), w1)"
      "on_page out i f (p_startup what p) (wh_sys w1)" "sight w1 = z" by blast
  have "pg_line (p_startup what p) + sum_list (map (\<lambda>n. length n + 5) names) + 1 < u64_limit"
    using startup_line [of what p] Cons.prems(2) by simp
  moreover have "0x08 \<notin> set (str (concat names))" using Cons.prems(3) by simp
  moreover have "chain rest (sight w1) y" using z(2) w1(3) by simp
  ultimately obtain w' where "startups (zip names rest) k w1 = k w'" "on_page out i f (fold p_startup names (p_startup what p)) (wh_sys w')"
      "sight w' = y" "pg_line (fold p_startup names (p_startup what p)) \<le> pg_line (p_startup what p) + sum_list (map (\<lambda>n. length n + 5) names)"
    using Cons.IH [OF w1(2) _ _ _ ms(2)] by blast
  then show ?case using ms(1) w1(1) startup_line [of what p] by (intro exI [of _ w']) (simp add: bindR_def)
qed (simp, blast)

text \<open>What the loader and the machine must provide for the start to succeed.\<close>

definition can_boot :: "('d, 'm, 'h) platform \<Rightarrow> 'm loader \<Rightarrow> buddy \<Rightarrow> bool" where
  "can_boot E B h \<longleftrightarrow> (\<exists>m fa me. kmem_init (ld_virt B) (ld_page_table B) (ld_memory B) (pf_boot E) = Ok (m, fa)
     \<and> init_heap (pf_machine E) \<lparr>me_mapper = m, me_frames = fa, me_heap = h\<rparr> = (Ok (), me))"

lemma boot_chain:
  fixes E :: "('d, 'm, 'h) platform" and V :: "('h, 'k) devices" and G :: "'g gdt_ops"
  assumes "gdt_laws G used" and "tb_tss T = None" and "tb_gdt T = None" and "can_boot E B h"
  shows "\<exists>h'. chain (boot_actions E V G B) (k, T, h, i) (k, snd (gdt_init G T), h', True)"
proof -
  let ?T = "snd (gdt_init G T)"
  obtain m fa me where mem: "kmem_init (ld_virt B) (ld_page_table B) (ld_memory B) (pf_boot E) = Ok (m, fa)"
      "init_heap (pf_machine E) \<lparr>me_mapper = m, me_frames = fa, me_heap = h\<rparr> = (Ok (), me)"
    using assms(4) by (auto simp: can_boot_def)
  have c1: "works (k, ?T, h, i) (on_tables (gdt_init G)) w" if "sight w = (k, T, h, i)" for w :: "('d, 'm, 'h, 'k, 'g) whole"
    using works_rules(1) [OF assms(1), of w] assms(2,3) that by (auto simp: sight_def)
  have c2: "works (k, ?T, h, i) (int_init V) w" "works (k, ?T, h, i) (pic_init V) w"
      "works (k, ?T, h, True) (on_sys (on_acpi enable_interrupts)) w"
    if "sight w = (k, ?T, h, i)" for w :: "('d, 'm, 'h, 'k, 'g) whole"
    using works_rules(2-4) [of w] that by (auto simp: sight_def)
  have c3: "works (k, ?T, h, True) (on_sys (on_acpi (acpi_init (ld_firmware B) (ld_rsdp B)))) w"
      "works (k, ?T, me_heap me, True) (on_sys (start_memory E B)) w"
    if "sight w = (k, ?T, h, True)" for w :: "('d, 'm, 'h, 'k, 'g) whole"
    using works_acpi [of w] works_memory [OF mem(1), of w me] mem(2) that by (auto simp: sight_def)
  show ?thesis
    unfolding boot_actions_def chain.simps using c1 c2 c3 by blast
qed

lemma no_backspace_text: "list_all (\<lambda>c. c \<noteq> CHR 0x08) s \<Longrightarrow> 0x08 \<notin> set (str s)"
proof -
  have byte: "of_nat (of_char c) = (0x08 :: u8) \<longleftrightarrow> c = CHR 0x08" for c :: char
  proof -
    have "str [c] = str [CHR 0x08] \<longleftrightarrow> c = CHR 0x08" by (simp only: str_inject) simp
    then show ?thesis by (simp add: str_def)
  qed
  assume "list_all (\<lambda>c. c \<noteq> CHR 0x08) s"
  then show ?thesis by (induction s) (auto simp: str_def byte dest: sym)
qed

lemma boot_run:
  assumes "ld_framebuffers B = Some (d # ds)" and "ds_bpp d = 32" and "screen_ok (desc_info d)" and "font_ok (ld_font B)"
    and "gdt_laws G used" and "tb_tss (wh_tables w) = None" and "tb_gdt (wh_tables w) = None"
    and "can_boot E B (sy_heap (wh_sys w))" and "\<not> wh_kinit w"
  shows "\<exists>w'. kinit E V G B w = (Ok (), w')
    \<and> on_page (\<lambda>_. EMPTY) (desc_info d) (ld_font B) (boot_page (desc_info d)) (wh_sys w')
    \<and> pg_line (boot_page (desc_info d)) < 1000 \<and> ac_interrupts (sy_acpi (wh_sys w')) \<and> wh_kinit w'"
proof -
  let ?i = "desc_info d" and ?f = "ld_font B" and ?out = "\<lambda>_. EMPTY"
  let ?w = "w\<lparr>wh_kinit := True\<rparr>"
  have w0: "once_only w = (Ok (), ?w)" using assms(9) by (simp add: once_only_def)
  obtain w1 where w1: "start_display B ?w = (Ok (), w1)" "on_page ?out ?i ?f (prompt_page ?i) (wh_sys w1)" "sight w1 = sight ?w"
    using display_started [OF assms(1-4)] by blast
  obtain h' where c: "chain (boot_actions E V G B) (sight w1) (True, snd (gdt_init G (wh_tables w)), h', True)"
    using boot_chain [OF assms(5-8), of V True] w1(3) by (auto simp: sight_def)
  have names: "sum_list (map (\<lambda>n. length n + 5) boot_steps) = 209" "0x08 \<notin> set (str (concat boot_steps))"
      "length boot_steps = length (boot_actions E V G B)"
    by (simp add: boot_steps_def) (rule no_backspace_text, simp add: boot_steps_def, simp add: boot_steps_def boot_actions_def)
  have "pg_line (prompt_page ?i) + sum_list (map (\<lambda>n. length n + 5) boot_steps) + 1 < u64_limit"
    using prompt_line [of ?i] by (simp add: names(1))
  from startups_shown [OF w1(2) this names(2) c names(3), of "print_lines boot_info_lines"] names(1) prompt_line [of ?i]
  obtain w2 where w2: "startups (zip boot_steps (boot_actions E V G B)) (print_lines boot_info_lines) w1 = print_lines boot_info_lines w2"
      "on_page ?out ?i ?f (fold p_startup boot_steps (prompt_page ?i)) (wh_sys w2)" "sight w2 = (True, snd (gdt_init G (wh_tables w)), h', True)"
      "pg_line (fold p_startup boot_steps (prompt_page ?i)) \<le> 300"
    by fastforce
  have info: "length (concat boot_info_lines) + length boot_info_lines \<le> 200" "length (concat (map (\<lambda>l. l @ [0x0A]) boot_info_lines)) \<le> 200"
      "0x08 \<notin> set (concat boot_info_lines)"
    by (simp_all add: boot_info_lines_def) (simp add: no_backspace_text)
  have lim: "pg_line (fold p_startup boot_steps (prompt_page ?i)) + length (concat boot_info_lines) + length boot_info_lines + 1 < u64_limit"
    using w2(4) info(1) by simp
  obtain w3 where w3: "print_lines boot_info_lines w2 = (Ok (), w3)" "on_page ?out ?i ?f (boot_page ?i) (wh_sys w3)" "sight w3 = sight w2"
    using print_lines_shown [OF w2(2) lim info(3)] unfolding boot_page_def by blast
  have "pg_line (boot_page ?i) < 1000"
    using p_line_text [of "concat (map (\<lambda>l. l @ [0x0A]) boot_info_lines)" "fold p_startup boot_steps (prompt_page ?i)"] w2(4) info(2)
    unfolding boot_page_def by linarith
  moreover have "kinit E V G B w = (Ok (), w3)"
    using w0 w1(1) w2(1) w3(1) by (simp add: kinit_steps bindR_def)
  ultimately show ?thesis using w3(2,3) w2(3) by (auto simp: sight_def)
qed

section \<open>The welcome page\<close>

definition p_lines :: "color \<Rightarrow> bytes list \<Rightarrow> page \<Rightarrow> page" where
  "p_lines col ls p = fold (\<lambda>l. p_op (PrintIn col (l @ [0x0A]))) ls p"

lemma color_lines_shown:
  assumes "on_page out i f p s" and "pg_line p + length (concat ls) + length ls + 1 < u64_limit" and "0x08 \<notin> set (concat ls)"
  shows "\<exists>s'. println_color_all col ls s = (Ok (), s') \<and> on_page out i f (p_lines col ls p) s' \<and> term_only s s'
    \<and> pg_line (p_lines col ls p) \<le> pg_line p + length (concat ls) + length ls"
  using assms
proof (induction ls arbitrary: p s)
  case (Cons l ls)
  let ?q = "p_op (PrintIn col (l @ [0x0A])) p"
  obtain s1 where s1: "println_color col l s = (Ok (), s1)" "on_page out i f ?q s1" "term_only s s1"
    using println_color_shown [OF Cons.prems(1), of l col] Cons.prems(2,3) by auto
  have line: "pg_line ?q \<le> pg_line p + length l + 1" using p_line_op [of "PrintIn col (l @ [0x0A])" p] by simp
  then have "pg_line ?q + length (concat ls) + length ls + 1 < u64_limit" using Cons.prems(2) by simp
  moreover have "0x08 \<notin> set (concat ls)" using Cons.prems(3) by simp
  ultimately obtain s2 where s2: "println_color_all col ls s1 = (Ok (), s2)" "on_page out i f (p_lines col ls ?q) s2" "term_only s1 s2"
      "pg_line (p_lines col ls ?q) \<le> pg_line ?q + length (concat ls) + length ls"
    using Cons.IH [OF s1(2)] by blast
  have "println_color_all col (l # ls) s = (Ok (), s2)" using s1(1) s2(1) by (simp add: bindR_def)
  moreover have "p_lines col (l # ls) p = p_lines col ls ?q" by (simp add: p_lines_def)
  moreover have "term_only s s2" using s1(3) s2(3) term_only_trans by blast
  ultimately show ?case using s2(2,4) line by (intro exI [of _ s2]) simp
qed (simp add: p_lines_def)

lemma present_shown:
  assumes "on_page out i f p s"
  shows "\<exists>s'. on_term (on_fb present) s = (Ok (), s') \<and> on_page out i f p s' \<and> term_only s s'"
  using showing_present [of out i f "k_term (sy_kernel s)" p] assms by (auto simp: on_page_def on_term_def term_only_def)

definition welcome_page :: "info \<Rightarrow> page" where
  "welcome_page i = fold p_put (0x0A # str ''Type any command to get started: '')
     (p_lines BLUE picture (fold p_put (str ''Welcome to...'' @ [0x0A]) (blank_page i)))"

definition page_frame :: "page \<Rightarrow> nat \<times> nat \<times> color \<times> color" where
  "page_frame p = (pg_cols p, pg_rows p, pg_fg p, pg_bg p)"

lemma frame_put: "page_frame (p_put ch p) = page_frame p"
  by (simp add: page_frame_def p_put_def Let_def p_newline_def p_write_def p_back_def p_follow_def p_set_def)

lemma frame_text: "page_frame (fold p_put bs p) = page_frame p"
  by (induction bs arbitrary: p) (simp_all add: frame_put)

lemma frame_print_in: "page_frame (p_op (PrintIn col bs) p) = page_frame p"
  using frame_text [of bs "p\<lparr>pg_fg := col\<rparr>"] by (simp add: page_frame_def)

lemma frame_startup: "page_frame (p_startup what p) = page_frame p"
  unfolding p_startup_def by (simp only: frame_print_in frame_text)

lemma boot_page_frame: "page_frame (boot_page i) = page_frame (blank_page i)"
proof -
  have "page_frame (fold p_startup ns p) = page_frame p" for ns p
    by (induction ns arbitrary: p) (simp_all add: frame_startup)
  then show ?thesis by (simp add: boot_page_def frame_text frame_put prompt_page_def)
qed

lemma clear_boot_page: "p_clear (boot_page i) = blank_page i" and boot_page_black: "pg_bg (boot_page i) = BLACK"
  using boot_page_frame [of i] by (simp_all add: p_clear_def page_frame_def blank_page_def)

lemma picture_facts: "length (concat picture) + length picture \<le> 300" "0x08 \<notin> set (concat picture)"
proof -
  show "length (concat picture) + length picture \<le> 300" by (simp add: picture_def)
  have line: "0x08 \<notin> set (map (\<lambda>c. if c = 0x25 then 0x5C else c) (str l))" if "list_all (\<lambda>c. c \<noteq> CHR 0x08) l" for l
    using no_backspace_text [OF that] by auto
  show "0x08 \<notin> set (concat picture)"
    unfolding picture_def concat.simps list.map set_append Un_iff de_Morgan_disj by (intro conjI line) simp_all
qed

lemma kernel_main_shown:
  assumes "on_page out i f p (wh_sys w)" and "pg_line p < 1000" and "pg_bg p = BLACK" and "p_clear p = blank_page j"
  shows "\<exists>w'. kernel_main w = (Hang, w') \<and> on_page out i f (welcome_page j) (wh_sys w') \<and> sight w' = sight w"
proof -
  let ?p2 = "fold p_put (str ''Welcome to...'' @ [0x0A]) (blank_page j)"
  have "\<exists>s'. on_term console_clear (wh_sys w) = (Ok (), s') \<and> on_page out i f (blank_page j) s' \<and> term_only (wh_sys w) s'"
    using on_term_op [OF assms(1), of Cls] assms(2-4) by simp
  from on_sys_shown [of "on_term console_clear", OF this] obtain w1 where w1: "on_sys (on_term console_clear) w = (Ok (), w1)"
      "on_page out i f (blank_page j) (wh_sys w1)" "sight w1 = sight w" by blast
  have l1: "pg_line (blank_page j) + length (str ''Welcome to...'') + 2 < u64_limit" by (simp add: blank_page_def)
  have "0x08 \<notin> set (str ''Welcome to...'')" by (rule no_backspace_text) simp
  from to_console_line_shown [OF w1(2) l1 this] obtain w2 where w2: "to_console_line ''Welcome to...'' w1 = (Ok (), w2)"
      "on_page out i f ?p2 (wh_sys w2)" "sight w2 = sight w1" by blast
  have p2: "pg_line ?p2 \<le> 14" using p_line_text [of "str ''Welcome to...'' @ [0x0A]" "blank_page j"] by (simp add: blank_page_def)
  then have "pg_line ?p2 + length (concat picture) + length picture + 1 < u64_limit" using picture_facts(1) by simp
  from color_lines_shown [OF w2(2) this picture_facts(2), of BLUE]
  have "\<exists>s'. println_color_all BLUE picture (wh_sys w2) = (Ok (), s') \<and> on_page out i f (p_lines BLUE picture ?p2) s' \<and> term_only (wh_sys w2) s'"
    and p3: "pg_line (p_lines BLUE picture ?p2) \<le> 314" using picture_facts(1) p2 by fastforce+
  from on_sys_shown [of "println_color_all BLUE picture", OF this(1)] obtain w3 where w3: "on_sys (println_color_all BLUE picture) w2 = (Ok (), w3)"
      "on_page out i f (p_lines BLUE picture ?p2) (wh_sys w3)" "sight w3 = sight w2" by blast
  have "0x08 \<notin> set (0x0A # str ''Type any command to get started: '')"
    using no_backspace_text [of "''Type any command to get started: ''"] by simp
  from to_console_shown [OF w3(2) _ this] p3 obtain w4 where w4: "on_sys (print (0x0A # str ''Type any command to get started: '')) w3 = (Ok (), w4)"
      "on_page out i f (welcome_page j) (wh_sys w4)" "sight w4 = sight w3" unfolding welcome_page_def by auto
  from on_sys_shown [of "on_term (on_fb present)", OF present_shown [OF w4(2)]] obtain w5 where w5: "on_sys (on_term (on_fb present)) w4 = (Ok (), w5)"
      "on_page out i f (welcome_page j) (wh_sys w5)" "sight w5 = sight w4" by blast
  have "kernel_main w = (Hang, w5)" using w1(1) w2(1) w3(1) w4(1) w5(1) by (simp add: kernel_main_def bindR_def)
  then show ?thesis using w5(2,3) w4(3) w3(3) w2(3) w1(3) by simp
qed

section \<open>Panics\<close>

definition panic_flags :: "panic_info \<Rightarrow> u64" where
  "panic_flags C = pi_flags C AND NOT 0x200"

lemma panic_start:
  "panic_handler C w = bindR (on_sys (println_color_all RED (screen_report C (panic_flags C)))) (\<lambda>_.
     bindR (on_sys (on_term (on_fb present))) (\<lambda>_. \<lambda>w. (Hang, w))) (reported (serial_report C (panic_flags C)) (silenced w))"
proof -
  have off: "on_sys (on_acpi disable_interrupts) w = (Ok (), silenced w)"
    by (simp add: on_sys_def on_acpi_def disable_interrupts_def silenced_def)
  have fl: "read_rflags C (silenced w) = (Ok (panic_flags C), silenced w)"
    by (simp add: read_rflags_def silenced_def panic_flags_def)
  show ?thesis by (simp add: panic_handler_def bindR_def off fl serial_lines_run)
qed

lemma show_radix_length: "n < r ^ k \<Longrightarrow> 0 < k \<Longrightarrow> 2 \<le> r \<Longrightarrow> length (show_radix r n) \<le> k"
proof (induction r n arbitrary: k rule: show_radix.induct)
  case (1 r n)
  show ?case
  proof (cases "n < r")
    case True
    then show ?thesis using "1.prems"(2) by (subst show_radix.simps) simp
  next
    case False
    with "1.prems" obtain l where l: "k = Suc l" "0 < l" by (cases k) (auto, metis power_0 power_one_right nat_neq_iff less_one mult.right_neutral not_less_zero gr0I)
    then have "n div r < r ^ l" using "1.prems"(1) by (simp add: less_mult_imp_div_less mult.commute)
    with "1.IH" [of l] False "1.prems"(3) l show ?thesis by (subst show_radix.simps) simp
  qed
qed

lemma hex64_length: "length (hex64 x) = 18" and hex16_length: "length (hex16 y) = 6"
proof -
  have "unat x < 16 ^ 16" "unat y < 16 ^ 4" using unsigned_less [of x, where ?'a = nat] unsigned_less [of y, where ?'a = nat] by simp_all
  from show_radix_length [OF this(1)] show_radix_length [OF this(2)]
  show "length (hex64 x) = 18" "length (hex16 y) = 6" by (simp_all add: hex_pad_def)
qed

lemma show_clean: "2 \<le> r \<Longrightarrow> r \<le> 36 \<Longrightarrow> 0x08 \<notin> set (show_radix r n)"
  using show_words [of r n] word_no_backspace by blast

lemma hex_clean: "0x08 \<notin> set (hex_pad w n)"
  using show_clean [of 16 n] no_backspace_text [of "''0x''"] by (simp add: hex_pad_def)

lemma enabled_clean: "0x08 \<notin> set (enabled b)" "length (enabled b) \<le> 8"
  using no_backspace_text [of "if b then ''enabled'' else ''disabled''"] by (auto simp: enabled_def)

lemma report_clean:
  assumes "0x08 \<notin> set (pi_message C @ location_line C)"
  shows "0x08 \<notin> set (concat (screen_report C fl))"
  using assms show_clean [of 10]
  by (simp add: screen_report_def hex_clean enabled_clean no_backspace_text)

lemma report_length: "length (concat (screen_report C fl)) + length (screen_report C fl) + 1 < length (pi_message C) + length (location_line C) + 2000"
proof -
  have "unat (pi_cs C AND 3) < 10 ^ 1" using word_and_le1 [of "pi_cs C" 3] by (simp add: word_le_nat_alt)
  from show_radix_length [OF this] have "length (show_nat (unat (pi_cs C AND 3))) \<le> 1" by simp
  then show ?thesis
    using enabled_clean(2) [of "bit fl 9"] enabled_clean(2) [of "bit (pi_cr0 C) 31"] enabled_clean(2) [of "bit (pi_cr4 C) 5"]
      enabled_clean(2) [of "bit (pi_cr4 C) 20"] enabled_clean(2) [of "bit (pi_cr4 C) 21"] enabled_clean(2) [of "bit (pi_efer C) 11"]
      enabled_clean(2) [of "bit (pi_efer C) 0"]
    by (simp add: screen_report_def hex64_length hex16_length)
qed

text \<open>A machine whose console was not initialized.\<close>

definition headless :: "('d, 'm, 'h, 'k, 'g) whole \<Rightarrow> bool" where
  "headless w \<longleftrightarrow> \<not> tm_init (k_term (sy_kernel (wh_sys w)))"

lemma println_headless: "\<not> tm_init (k_term (sy_kernel s)) \<Longrightarrow> println_color col l s = (Panic, s)"
  by (simp add: on_term_def console_println_color_def write_fmt_color_def with_console_def bindR_def)

lemma panic_headless:
  assumes "headless w"
  shows "\<exists>w'. panic_handler C w = (Panic, w') \<and> headless w'"
proof -
  let ?w = "reported (serial_report C (panic_flags C)) (silenced w)"
  have h: "headless ?w" using assms by (simp add: headless_def reported_def silenced_def)
  have "println_color_all RED (screen_report C (panic_flags C)) (wh_sys ?w) = (Panic, wh_sys ?w)"
    using println_headless [of "wh_sys ?w" RED] h by (simp add: screen_report_def headless_def bindR_def)
  then have "panic_handler C w = (Panic, ?w)" unfolding panic_start by (simp add: bindR_def on_sys_def)
  with h show ?thesis by blast
qed

section \<open>A machine that boots\<close>

definition boot_platform :: "(ram_disk, small_pager, unit) platform" where
  "boot_platform = small_platform\<lparr>pf_machine := small_machine,
     pf_boot := \<lparr>bi_hhdm = Some 0, bi_memmap = Some [\<lparr>e_base = 0x100000, e_length = 0x10000000, e_type = USABLE\<rparr>]\<rparr>\<rparr>"

definition vga_loader :: "small_pager loader" where
  "vga_loader = \<lparr>ld_framebuffers = Some [vga], ld_font = box_font, ld_firmware = (\<lambda>_. 0), ld_rsdp = None, ld_virt = Some,
     ld_page_table = (\<lambda>_. (Map.empty, None)), ld_memory = (\<lambda>_. 0)\<rparr>"

definition off_whole :: "(ram_disk, small_pager, unit, unit, descriptor option list) whole" where
  "off_whole = small_whole\<lparr>wh_kinit := False, wh_sys := small_system\<lparr>sy_heap := buddy_new (\<lambda>_. 0)\<rparr>\<rparr>"

lemma vga_kmem: "kmem_init (ld_virt vga_loader) (ld_page_table vga_loader) (ld_memory vga_loader) (pf_boot boot_platform) = Ok ((Map.empty, None), big_frames)"
  by (simp add: kmem_init_def vga_loader_def boot_platform_def big_frames_def)

lemma vga_can_boot: "can_boot boot_platform vga_loader (buddy_new (\<lambda>_. 0))"
  using big_facts(3) vga_kmem unfolding can_boot_def big_memory_def by (auto simp: boot_platform_def)

lemma boot_machine: "pf_machine boot_platform = small_machine"
  by (simp add: boot_platform_def)

lemma vga_loader_ok: "loader_ok boot_platform vga_loader small_tables"
proof -
  have "frame_start big_frames"
    by (simp add: frame_start_def big_frames_def frame_new_def reserved_ok_def reserved_list_def map_filter_def map_ok_def)
  then show ?thesis
    by (auto simp: loader_ok_def boot_machine, auto simp: boot_platform_def vga_loader_def big_frames_def small_tables_def small_machine_def small_pager_ops_def)
qed

lemma off_facts: "tb_tss (wh_tables off_whole) = None" "tb_gdt (wh_tables off_whole) = None" "\<not> wh_kinit off_whole"
    "can_boot boot_platform vga_loader (sy_heap (wh_sys off_whole))" "power_on (wh_sys off_whole)"
  using vga_can_boot
  by (simp_all add: off_whole_def small_whole_def tables_start_def power_on_def small_system_def small_kernel_def) blast

lemma vga_facts: "ld_framebuffers vga_loader = Some [vga]" "ds_bpp vga = 32" "font_ok (ld_font vga_loader)"
  using box_font_ok by (simp_all add: vga_loader_def vga_def)

section \<open>Properties\<close>

text \<open>C11: With a framebuffer the kernel can use and enough memory for its heap, the start completes: \<open>kmain\<close> reaches
  its idle loop with interrupts enabled, and the display shows the welcome page and nothing of the
  messages before it. Initializing a second time panics.\<close>

theorem kernel_starts:
  fixes w :: "('d, 'm, 'h, 'k, 'g) whole"
  assumes "ld_framebuffers B = Some (d # ds)" and "ds_bpp d = 32" and "screen_ok (desc_info d)" and "font_ok (ld_font B)"
    and "gdt_laws G used" and "tb_tss (wh_tables w) = None" and "tb_gdt (wh_tables w) = None"
    and "can_boot E B (sy_heap (wh_sys w))" and "\<not> wh_kinit w"
  shows "\<exists>w'. kmain E V G B w = (Hang, w')
    \<and> on_page (\<lambda>_. EMPTY) (desc_info d) (ld_font B) (welcome_page (desc_info d)) (wh_sys w')
    \<and> ac_interrupts (sy_acpi (wh_sys w')) \<and> kinit E V G B w' = (Panic, w')"
proof -
  define serial where "serial = (\<lambda>s (u :: ('d, 'm, 'h, 'k, 'g) whole). reported [str s] u)"
  have line: "to_serial_line s u = (Ok (), serial s u)" for s u
    by (simp add: on_sys_def on_acpi_def serial_println_def serial_def reported_def)
  have same: "sight (serial s u) = sight u" "on_page out i f p (wh_sys (serial s u)) = on_page out i f p (wh_sys u)" for s u out i f p
    by (simp_all add: serial_def reported_def sight_def on_page_def)
  let ?w = "serial ''Oxenna starting.'' w"
  have "\<not> wh_kinit ?w" "tb_tss (wh_tables ?w) = None" "tb_gdt (wh_tables ?w) = None" "can_boot E B (sy_heap (wh_sys ?w))"
    using assms(6-9) same(1) [of "''Oxenna starting.''" w] by (simp_all add: sight_def)
  from boot_run [OF assms(1-5) this(2-4) this(1), of V] obtain w1 where w1: "kinit E V G B ?w = (Ok (), w1)"
      "on_page (\<lambda>_. EMPTY) (desc_info d) (ld_font B) (boot_page (desc_info d)) (wh_sys w1)" "pg_line (boot_page (desc_info d)) < 1000"
      "ac_interrupts (sy_acpi (wh_sys w1))" "wh_kinit w1" by blast
  let ?v = "serial ''[TEST] kinit returned'' w1"
  have "on_page (\<lambda>_. EMPTY) (desc_info d) (ld_font B) (boot_page (desc_info d)) (wh_sys ?v)" using w1(2) same(2) by blast
  from kernel_main_shown [OF this w1(3) boot_page_black clear_boot_page] obtain w' where w': "kernel_main ?v = (Hang, w')"
      "on_page (\<lambda>_. EMPTY) (desc_info d) (ld_font B) (welcome_page (desc_info d)) (wh_sys w')" "sight w' = sight w1"
    using same(1) by metis
  have "kmain E V G B w = (Hang, w')" using w1(1) w'(1) by (simp add: kmain_def bindR_def line)
  moreover have "kinit E V G B w' = (Panic, w')" using w'(3) w1(5) by (simp add: kinit_def bindR_def once_only_def sight_def)
  ultimately show ?thesis using w'(2,3) w1(4) by (auto simp: sight_def)
qed

theorem kernel_starts_witness:
  "\<exists>w'. kmain boot_platform small_devices list_gdt vga_loader off_whole = (Hang, w')
     \<and> on_page (\<lambda>_. EMPTY) (desc_info vga) box_font (welcome_page (desc_info vga)) (wh_sys w')"
  using kernel_starts [OF vga_facts(1,2) vga_ok vga_facts(3) list_gdt_laws off_facts(1,2,4,3), of small_devices]
  by (auto simp: vga_loader_def)





definition small_panic :: panic_info where
  "small_panic = \<lparr>pi_location = None, pi_message = str ''bad'', pi_cr0 = 0, pi_cr2 = None, pi_cr3 = 0, pi_cr4 = 0, pi_efer = 0,
     pi_cs = 8, pi_ss = 0x10, pi_rsp = 0, pi_flags = 0x202\<rparr>"


text \<open>C40: A panic before the console is initialized, such as the one for want of a framebuffer, does not end in the
  halt that the handler means to reach: the handler itself panics when it writes to the console, and
  so does every handler entered for that panic.\<close>

theorem early_panic_repeats:
  fixes w :: "('d, 'm, 'h, 'k, 'g) whole"
  assumes "ld_framebuffers B = None \<or> ld_framebuffers B = Some []" and "headless w" and "\<not> wh_kinit w"
  shows "\<exists>w1. kmain E V G B w = (Panic, w1) \<and> headless w1
    \<and> (\<forall>C u. headless u \<longrightarrow> (\<exists>v. panic_handler C (u :: ('d, 'm, 'h, 'k, 'g) whole) = (Panic, v) \<and> headless v))"
proof -
  have "\<exists>w1. kmain E V G B w = (Panic, w1) \<and> headless w1"
    using assms by (auto simp: kmain_def kinit_def once_only_def start_display_def bindR_def on_sys_def on_acpi_def serial_println_def
        serial_print_def on_term_def on_fb_def fb_init_def headless_def)
  then show ?thesis using panic_headless by blast
qed

theorem early_panic_repeats_witness:
  "\<exists>w1. kmain boot_platform small_devices list_gdt (vga_loader\<lparr>ld_framebuffers := None\<rparr>)
       (off_whole\<lparr>wh_sys := small_system\<lparr>sy_kernel := small_kernel\<lparr>k_term := term_off fb_off\<lparr>tm_init := False\<rparr>\<rparr>\<rparr>\<rparr>) = (Panic, w1)
     \<and> (\<exists>v. panic_handler small_panic w1 = (Panic, v))"
proof -
  let ?w = "off_whole\<lparr>wh_sys := small_system\<lparr>sy_kernel := small_kernel\<lparr>k_term := term_off fb_off\<lparr>tm_init := False\<rparr>\<rparr>\<rparr>\<rparr>"
  have "headless ?w" "\<not> wh_kinit ?w" by (simp_all add: headless_def off_whole_def)
  from early_panic_repeats [OF _ this, of "vga_loader\<lparr>ld_framebuffers := None\<rparr>" boot_platform small_devices list_gdt]
  show ?thesis by (simp, blast)
qed

text \<open>C28: The kernel heap lies below the limit that system calls check pointers against. So after the start every
  range of it passes the check for memory of the program, and copying from the program's memory
  reads it, although its pages were mapped for the kernel only.\<close>

theorem heap_open_to_programs:
  assumes "loader_ok E B tb" and "paging_ok (pf_machine E) tb" and "power_on (wh_sys w)" and "kinit E V G B w = (Ok (), w1)"
    and "HEAP_START \<le> a" and "a + n \<le> HEAP_START + HEAP_SIZE" and "0 < n" and "n \<le> 16 * 1024 * 1024"
  shows "user_range_ok (pf_machine E) a n (sy_kernel (wh_sys w1)) = Ok True
    \<and> copy_from_user (pf_machine E) a n (sy_kernel (wh_sys w1))
      = (Ok (map (k_mem (sy_kernel (wh_sys w1))) [a..<a + n]), sy_kernel (wh_sys w1))"
proof -
  let ?k = "sy_kernel (wh_sys w1)"
  have "after_boot E tb (wh_sys w1)" using kinit_leads [OF assms(1,2), of V G] assms(3,4) by (auto simp: leads_def)
  then obtain m where m: "k_mapper ?k = Some m" "pages_ok (pf_machine E) m heap_pages" by (auto simp: after_boot_def)
  have api: "page_api (mc_page (pf_machine E))" using assms(2) by (simp add: paging_ok_def)
  have "is_mapped (pf_machine E) ?k (page_of x)" if "a \<le> x" "x < a + n" for x
    using heap_address_page [of x] that assms(5,6) m by (auto simp: pages_ok_def is_mapped_def)
  moreover have "a + n \<le> USER_MAX" "a < u64_limit" using assms(6,7) by simp_all
  ultimately have ok: "user_range_ok (pf_machine E) a n ?k = Ok True"
    using user_range_ok_exact [OF api m(1) assms(7)] by simp
  then show ?thesis using assms(8) by (simp add: copy_from_user_def range_check_def bindR_def)
qed

theorem heap_open_to_programs_witness:
  "\<exists>w1. kinit boot_platform small_devices list_gdt vga_loader off_whole = (Ok (), w1)
     \<and> user_range_ok small_machine HEAP_START 8 (sy_kernel (wh_sys w1)) = Ok True"
proof -
  obtain w1 where w1: "kinit boot_platform small_devices list_gdt vga_loader off_whole = (Ok (), w1)"
    using boot_run [OF vga_facts(1,2) vga_ok vga_facts(3) list_gdt_laws off_facts(1,2,4,3), of small_devices] by blast
  with heap_open_to_programs [OF vga_loader_ok _ off_facts(5) w1, of HEAP_START 8] small_paging_ok show ?thesis
    unfolding boot_machine by simp
qed

end
